(* ===== verification/Prelude.thy ===== *)
theory Prelude
  imports Main "HOL-Library.Word"
begin

text \<open>
  What every component theory shares: the C integer types as words of their width, the
  facts that turn word arithmetic without wrap-around into arithmetic on natural numbers,
  and generic lemmas on lists. The collection \<open>word_nat\<close> holds the word facts; it is
  meant to be given to \<open>simp\<close> together with the bounds of the case at hand.
\<close>

section \<open>C types\<close>

type_synonym byte = "8 word"
type_synonym c_int = "32 word"
type_synonym c_long = "64 word"
type_synonym size_t = "64 word"
type_synonym ssize_t = "64 word"
type_synonym addr = "64 word"

named_theorems word_nat

section \<open>Words without wrap-around\<close>

lemma unat_bound64 [simp]: "unat (x :: 64 word) < 18446744073709551616"
  using unsigned_less [of x] by simp

lemma unat_bound32 [simp]: "unat (x :: 32 word) < 4294967296"
  using unsigned_less [of x] by simp

lemma unat_plus_64 [word_nat]:
  fixes a b :: "64 word"
  assumes "unat a + unat b < 18446744073709551616"
  shows "unat (a + b) = unat a + unat b"
  using assms by (simp add: unat_word_ariths)

lemma unat_minus_64 [word_nat]:
  fixes a b :: "64 word"
  assumes "unat b \<le> unat a"
  shows "unat (a - b) = unat a - unat b"
  using assms by (metis unat_sub word_le_nat_alt)

lemma unat_mult_64 [word_nat]:
  fixes a b :: "64 word"
  assumes "unat a * unat b < 18446744073709551616"
  shows "unat (a * b) = unat a * unat b"
  using assms by (simp add: unat_word_ariths)

lemma unat_mod_64 [word_nat]: "unat ((a :: 64 word) mod b) = unat a mod unat b"
  by (simp add: unat_mod)

lemma eq_iff_unat_64: "(a :: 64 word) = b \<longleftrightarrow> unat a = unat b"
  by (simp add: word_unat_eq_iff)


lemma unat_minus_one_64: "unat (- 1 :: 64 word) = 18446744073709551615"
  by (simp add: unsigned_minus_1_eq_mask mask_eq_exp_minus_1)

section \<open>Run-time faults\<close>

text \<open>
  What a C program does where the language gives no meaning to an operation the source
  performs is a value of its own: the models return \<open>Inl\<close> of such a fault.
\<close>

datatype fault = DivisionByZero | OutOfBounds | NullDereference | BufferOverflow | Uninitialised | StackExhausted

type_synonym 'a checked = "fault + 'a"

definition checked_bind :: "'e + 'a \<Rightarrow> ('a \<Rightarrow> 'e + 'b) \<Rightarrow> 'e + 'b" where
  "checked_bind m f = (case m of Inl e \<Rightarrow> Inl e | Inr x \<Rightarrow> f x)"

lemma checked_bind_simps [simp]:
  "checked_bind (Inl e) f = Inl e"
  "checked_bind (Inr x) f = f x"
  by (simp_all add: checked_bind_def)

lemma checked_bind_Inr_iff:
  "checked_bind m f = Inr y \<longleftrightarrow> (\<exists>x. m = Inr x \<and> f x = Inr y)"
  by (cases m) auto

section \<open>Lists\<close>

lemma butlast_eq_take: "butlast xs = take (length xs - 1) xs"
  by (simp add: butlast_conv_take)

end
