(* ===== verification/C_String.thy ===== *)
theory C_String
  imports Prelude "HOL-Library.Sublist"
begin

text \<open>
  The parts of the C and C++ string libraries the programs use, as functions on HOL strings
  (a string is the characters before the terminating NUL): character classes, \<open>atoi\<close>,
  decimal output (\<open>%d\<close>, \<open>%ld\<close>, \<open>%06ld\<close>), substring search (\<open>strstr\<close>, \<open>string::find\<close>),
  and the reverse searches of \<open>std::string\<close>. Library code, so no source lines are mapped to it.
\<close>

section \<open>Character classes\<close>

definition is_space :: "char \<Rightarrow> bool" where
  "is_space c \<longleftrightarrow> c = CHR '' '' \<or> c = CHR 0x09 \<or> c = CHR 0x0A \<or> c = CHR 0x0B \<or> c = CHR 0x0C \<or> c = CHR 0x0D"

definition is_digit :: "char \<Rightarrow> bool" where
  "is_digit c \<longleftrightarrow> (48 :: nat) \<le> of_char c \<and> of_char c \<le> (57 :: nat)"

definition digit_val :: "char \<Rightarrow> nat" where
  "digit_val c = of_char c - 48"

definition digit_char :: "nat \<Rightarrow> char" where
  "digit_char d = char_of (48 + d)"

lemma digit_char_val [simp]: "d < 10 \<Longrightarrow> digit_val (digit_char d) = d"
  by (simp add: digit_val_def digit_char_def)

lemma digit_char_digit [simp]: "d < 10 \<Longrightarrow> is_digit (digit_char d)"
  by (simp add: is_digit_def digit_char_def)

lemma of_char_space_le: "is_space c \<Longrightarrow> of_char c \<le> (32 :: nat)"
  by (auto simp: is_space_def)

lemma digit_not_space: "is_digit c \<Longrightarrow> \<not> is_space c"
  using of_char_space_le by (fastforce simp: is_digit_def)

lemma digit_not_sign: "is_digit c \<Longrightarrow> c \<noteq> CHR ''-'' \<and> c \<noteq> CHR ''+''"
  by (auto simp: is_digit_def)

section \<open>Decimal numbers\<close>

fun digits_val :: "nat \<Rightarrow> string \<Rightarrow> nat" where
  "digits_val acc [] = acc"
| "digits_val acc (c # cs) = digits_val (10 * acc + digit_val c) cs"

definition strtol10 :: "string \<Rightarrow> int" where
  "strtol10 s =
     (let t = dropWhile is_space s;
          neg = (t \<noteq> [] \<and> hd t = CHR ''-'');
          u = (if t \<noteq> [] \<and> (hd t = CHR ''-'' \<or> hd t = CHR ''+'') then tl t else t);
          v = int (digits_val 0 (takeWhile is_digit u));
          x = (if neg then - v else v)
      in max (- (2 ^ 63)) (min (2 ^ 63 - 1) x))"

text \<open>The C library's \<open>atoi\<close>: \<open>strtol\<close> in base ten, cut down to an \<open>int\<close>.\<close>

definition atoi :: "string \<Rightarrow> c_int" where
  "atoi s = word_of_int (strtol10 s)"

fun show_nat :: "nat \<Rightarrow> string" where
  "show_nat n = (if n < 10 then [digit_char n] else show_nat (n div 10) @ [digit_char (n mod 10)])"

declare show_nat.simps [simp del]

definition show_int :: "int \<Rightarrow> string" where
  "show_int i = (if i < 0 then CHR ''-'' # show_nat (nat (- i)) else show_nat (nat i))"

text \<open>\<open>%06ld\<close>: padded with zeros to six characters, after the sign.\<close>

definition show_06 :: "int \<Rightarrow> string" where
  "show_06 i =
     (let s = show_nat (nat \<bar>i\<bar>) in
      if i < 0 then CHR ''-'' # replicate (5 - length s) CHR ''0'' @ s
      else replicate (6 - length s) CHR ''0'' @ s)"

lemma digits_val_append: "digits_val acc (xs @ ys) = digits_val (digits_val acc xs) ys"
  by (induction xs arbitrary: acc) auto

lemma show_nat_digits: "list_all is_digit (show_nat n)"
  by (induction n rule: show_nat.induct) (subst show_nat.simps, simp)

lemma show_nat_nonempty [simp]: "show_nat n \<noteq> []"
  by (subst show_nat.simps) simp

lemma digits_val_show_nat [simp]: "digits_val 0 (show_nat n) = n"
proof (induction n rule: show_nat.induct)
  case (1 n)
  then show ?case by (subst show_nat.simps) (auto simp: digits_val_append)
qed

lemma takeWhile_show_nat: "takeWhile is_digit (show_nat n) = show_nat n"
  using show_nat_digits [of n] by (simp add: list_all_iff)

lemma show_nat_hd_digit: "is_digit (hd (show_nat n))"
  using show_nat_digits [of n] by (cases "show_nat n") auto

lemma dropWhile_show_nat: "dropWhile is_space (show_nat n) = show_nat n"
  using show_nat_hd_digit [of n] digit_not_space by (cases "show_nat n") auto

lemma strtol10_show_int:
  assumes "- (2 ^ 63) \<le> i" "i < 2 ^ 63"
  shows "strtol10 (show_int i) = i"
proof (cases "i < 0")
  case True
  have "dropWhile is_space (show_int i) = show_int i"
    using True by (simp add: show_int_def is_space_def)
  with True assms show ?thesis
    by (simp add: strtol10_def show_int_def takeWhile_show_nat)
next
  case False
  have "hd (show_nat (nat i)) \<noteq> CHR ''-'' \<and> hd (show_nat (nat i)) \<noteq> CHR ''+''"
    using show_nat_hd_digit digit_not_sign by blast
  with False assms show ?thesis
    by (simp add: strtol10_def show_int_def takeWhile_show_nat dropWhile_show_nat)
qed

lemma atoi_show_int: "- (2 ^ 31) \<le> i \<Longrightarrow> i < 2 ^ 31 \<Longrightarrow> sint (atoi (show_int i)) = i"
  by (simp add: atoi_def strtol10_show_int sint_sbintrunc' signed_take_bit_int_eq_self)

section \<open>Searching\<close>

text \<open>Position of the first occurrence of a string in another, \<open>None\<close> for none.\<close>

fun find_sub :: "string \<Rightarrow> string \<Rightarrow> nat option" where
  "find_sub pat [] = (if pat = [] then Some 0 else None)"
| "find_sub pat (c # cs) =
     (if prefix pat (c # cs) then Some 0 else map_option Suc (find_sub pat cs))"

definition contains :: "string \<Rightarrow> string \<Rightarrow> bool" where
  "contains pat s \<longleftrightarrow> find_sub pat s \<noteq> None"

lemma find_sub_Some:
  "find_sub pat s = Some i \<Longrightarrow> \<exists>rest. s = take i s @ pat @ rest \<and> i + length pat \<le> length s"
proof (induction s arbitrary: i)
  case (Cons c cs)
  show ?case
  proof (cases "prefix pat (c # cs)")
    case True
    with Cons.prems show ?thesis using prefix_length_le [OF True] by (auto simp: prefix_def)
  next
    case False
    with Cons.prems obtain j where j: "find_sub pat cs = Some j" "i = Suc j" by auto
    from Cons.IH [OF j(1)] j(2) show ?thesis by auto
  qed
qed (auto split: if_splits)

lemma find_sub_None_iff: "find_sub pat s = None \<longleftrightarrow> \<not> sublist pat s"
  by (induction s) (auto simp: sublist_Cons_right)

lemma contains_iff: "contains pat s \<longleftrightarrow> sublist pat s"
  by (simp add: contains_def find_sub_None_iff)

text \<open>\<open>index(s, c)\<close> of the C library: the first position of a character.\<close>

definition find_char :: "char \<Rightarrow> string \<Rightarrow> nat option" where
  "find_char c s = find_sub [c] s"

lemma find_char_Some:
  assumes "find_char c s = Some i"
  shows "s = take i s @ c # drop (Suc i) s" "c \<notin> set (take i s)" "i < length s"
proof -
  have "s = take i s @ c # drop (Suc i) s \<and> c \<notin> set (take i s) \<and> i < length s"
    using assms unfolding find_char_def
  proof (induction s arbitrary: i)
    case (Cons d ds)
    then show ?case by (cases i) (auto split: if_splits)
  qed auto
  then show "s = take i s @ c # drop (Suc i) s" "c \<notin> set (take i s)" "i < length s" by auto
qed

lemma find_char_None: "find_char c s = None \<longleftrightarrow> c \<notin> set s"
  unfolding find_char_def by (induction s) auto

section \<open>Words\<close>

text \<open>The words an \<open>istringstream\<close> yields with \<open>>>\<close>, and \<open>scanf\<close> with \<open>%s\<close>.\<close>

function split_words :: "string \<Rightarrow> string list" where
  "split_words s =
     (case dropWhile is_space s of [] \<Rightarrow> []
      | c # cs \<Rightarrow> takeWhile (\<lambda>c. \<not> is_space c) (c # cs) # split_words (dropWhile (\<lambda>c. \<not> is_space c) (c # cs)))"
  by pat_completeness auto
termination
proof (relation "measure length")
  fix s c cs assume s: "dropWhile is_space s = c # cs"
  then have "\<not> is_space c" using hd_dropWhile [of is_space s] by simp
  then have "length (dropWhile (\<lambda>c. \<not> is_space c) (c # cs)) \<le> length cs" by (simp add: length_dropWhile_le)
  moreover have "length (c # cs) \<le> length s" using length_dropWhile_le [of is_space s] s by simp
  ultimately show "(dropWhile (\<lambda>c. \<not> is_space c) (c # cs), s) \<in> measure length" by simp
qed simp

declare split_words.simps [simp del]

definition word_ok :: "string \<Rightarrow> bool" where
  "word_ok w \<longleftrightarrow> w \<noteq> [] \<and> (\<forall>c\<in>set w. \<not> is_space c)"

lemma split_words_Nil: "dropWhile is_space s = [] \<Longrightarrow> split_words s = []"
  by (subst split_words.simps) (simp only: list.case)

lemma split_words_Cons:
  "dropWhile is_space s = c # cs \<Longrightarrow>
     split_words s = takeWhile (\<lambda>c. \<not> is_space c) (c # cs) # split_words (dropWhile (\<lambda>c. \<not> is_space c) (c # cs))"
  by (subst split_words.simps) (simp del: takeWhile.simps dropWhile.simps)

lemma split_words_blank [simp]: "(\<forall>c\<in>set s. is_space c) \<Longrightarrow> split_words s = []"
  by (rule split_words_Nil) simp

lemma split_words_space: "is_space c \<Longrightarrow> split_words (c # s) = split_words s"
  by (subst (1 2) split_words.simps) simp

lemma split_words_word:
  assumes w: "word_ok w" and s: "s = [] \<or> is_space (hd s)"
  shows "split_words (w @ s) = w # split_words s"
proof -
  obtain c cs where c: "w = c # cs" "\<not> is_space c" using w by (cases w) (auto simp: word_ok_def)
  have d: "dropWhile is_space (w @ s) = c # cs @ s" using c by simp
  have t: "takeWhile (\<lambda>c. \<not> is_space c) s = []" "dropWhile (\<lambda>c. \<not> is_space c) s = s" using s by (cases s; auto)+
  have "takeWhile (\<lambda>c. \<not> is_space c) (w @ s) = w" "dropWhile (\<lambda>c. \<not> is_space c) (w @ s) = s"
    using w t by (auto simp: word_ok_def takeWhile_append dropWhile_append)
  then show ?thesis using split_words_Cons [OF d] c(1) by simp
qed

lemma split_words_ok: "w \<in> set (split_words s) \<Longrightarrow> word_ok w"
proof (induction s rule: split_words.induct)
  case (1 s)
  show ?case
  proof (cases "dropWhile is_space s")
    case Nil
    then show ?thesis using 1(2) split_words_Nil by simp
  next
    case (Cons c cs)
    then have c: "\<not> is_space c" using hd_dropWhile [of is_space s] by simp
    have "w = takeWhile (\<lambda>c. \<not> is_space c) (c # cs) \<or> w \<in> set (split_words (dropWhile (\<lambda>c. \<not> is_space c) (c # cs)))"
      using 1(2) unfolding split_words_Cons [OF Cons] by simp
    then show ?thesis
    proof
      assume "w = takeWhile (\<lambda>c. \<not> is_space c) (c # cs)"
      then show ?thesis using c by (auto simp: word_ok_def dest: set_takeWhileD)
    qed (rule 1(1) [OF Cons])
  qed
qed

end
