(* ===== verification/Task_Weights.thy ===== *)
theory Task_Weights
  imports Prelude
begin

text \<open>
  The weight system calls of \<open>hw2/hw2_wet/209509181-313511602/kernel/hw2.c\<close>: the part of
  \<open>struct task_struct\<close> they read and write, the five system calls and their two helpers.
  A task is known by its address; the \<open>children\<close> list of a task holds the addresses of the
  tasks linked through \<open>sibling\<close>, in list order. The kernel state is the store of tasks,
  the address of \<open>current\<close> and the lines printed with \<open>printk\<close>. The recursion of
  \<open>get_child_leaf_sum\<close> and the loop of \<open>heaviest_ancestor_weight\<close> follow pointers, so
  both take fuel; the lemmas \<open>get_child_leaf_sum_tree\<close> and \<open>heaviest_loop_chain\<close> say how
  much is enough on a finite process tree.
\<close>

section \<open>Data\<close>

type_synonym taddr = nat

record task_struct =
  weight :: c_long
  pid :: c_int
  children :: "taddr list"
  real_parent :: taddr

type_synonym task_store = "taddr \<Rightarrow> task_struct"

record kernel =
  tasks :: task_store
  current :: taddr
  klog :: "string list"

definition EINVAL :: c_long where
  "EINVAL = 22"

definition ECHILD :: c_long where
  "ECHILD = 10"

section \<open>System calls\<close>

definition sys_hello :: "kernel \<Rightarrow> kernel \<times> c_long" where
  "sys_hello k = (k\<lparr>klog := klog k @ [''Hello, World!'']\<rparr>, 0)"

definition sys_set_weight :: "kernel \<Rightarrow> c_int \<Rightarrow> kernel \<times> c_long" where
  "sys_set_weight k w =
     (if sint w < 0 then (k, - EINVAL)
      else (k\<lparr>tasks := (tasks k)(current k := (tasks k (current k))\<lparr>weight := signed w\<rparr>)\<rparr>, 0))"

definition sys_get_weight :: "kernel \<Rightarrow> c_long" where
  "sys_get_weight k = weight (tasks k (current k))"

fun get_child_leaf_sum :: "nat \<Rightarrow> task_store \<Rightarrow> taddr \<Rightarrow> c_long \<Rightarrow> c_long option"
and list_for_each_child :: "nat \<Rightarrow> task_store \<Rightarrow> taddr list \<Rightarrow> c_long \<Rightarrow> c_long option"
where
  "get_child_leaf_sum 0 ts root acc = None"
| "get_child_leaf_sum (Suc n) ts root acc =
     (if children (ts root) = [] then Some (acc + weight (ts root))
      else list_for_each_child n ts (children (ts root)) acc)"
| "list_for_each_child n ts [] acc = Some acc"
| "list_for_each_child n ts (child # rest) acc =
     (case get_child_leaf_sum n ts child acc of
        None \<Rightarrow> None
      | Some acc' \<Rightarrow> list_for_each_child n ts rest acc')"

definition sys_get_leaf_children_sum :: "nat \<Rightarrow> kernel \<Rightarrow> c_long option" where
  "sys_get_leaf_children_sum n k =
     (if children (tasks k (current k)) = [] then Some (- ECHILD)
      else get_child_leaf_sum n (tasks k) (current k) 0)"

fun heaviest_loop :: "nat \<Rightarrow> task_store \<Rightarrow> taddr \<Rightarrow> c_int \<Rightarrow> c_long \<Rightarrow> c_int option" where
  "heaviest_loop 0 ts cur max_pid max_weight = None"
| "heaviest_loop (Suc n) ts cur max_pid max_weight =
     (if pid (ts cur) = 1 then Some max_pid
      else if sint (weight (ts cur)) > sint max_weight
      then heaviest_loop n ts (real_parent (ts cur)) (pid (ts cur)) (weight (ts cur))
      else heaviest_loop n ts (real_parent (ts cur)) max_pid max_weight)"

definition heaviest_ancestor_weight :: "nat \<Rightarrow> task_store \<Rightarrow> taddr \<Rightarrow> c_long option" where
  "heaviest_ancestor_weight n ts cur = map_option signed (heaviest_loop n ts cur 1 (- 1))"

definition sys_get_heaviest_ancestor :: "nat \<Rightarrow> kernel \<Rightarrow> c_long option" where
  "sys_get_heaviest_ancestor n k = heaviest_ancestor_weight n (tasks k) (current k)"

text \<open>The line the assignment adds to \<open>rest_init\<close>: the first process starts with weight 0.\<close>

definition rest_init_weight :: "kernel \<Rightarrow> taddr \<Rightarrow> kernel" where
  "rest_init_weight k tsk = k\<lparr>tasks := (tasks k)(tsk := (tasks k tsk)\<lparr>weight := 0\<rparr>)\<rparr>"


section \<open>Abstract process trees and ancestor chains\<close>

text \<open>
  A finite tree of task addresses, and when a store holds it: the children list of each node
  is the list of the roots of its subtrees. \<open>leaf_list\<close> lists its leaves from left to right.
\<close>

datatype ptree = PNode (proot: taddr) (psubs: "ptree list")

fun leaf_list :: "ptree \<Rightarrow> taddr list" where
  "leaf_list (PNode a cs) = (if cs = [] then [a] else concat (map leaf_list cs))"

fun pheight :: "ptree \<Rightarrow> nat" where
  "pheight (PNode a cs) = Suc (fold max (map pheight cs) 0)"

fun holds_tree :: "task_store \<Rightarrow> ptree \<Rightarrow> bool" where
  "holds_tree ts (PNode a cs) \<longleftrightarrow> children (ts a) = map proot cs \<and> list_all (holds_tree ts) cs"

fun init_chain :: "task_store \<Rightarrow> taddr \<Rightarrow> taddr list \<Rightarrow> bool" where
  "init_chain ts a [] \<longleftrightarrow> pid (ts a) = 1"
| "init_chain ts a (b # bs) \<longleftrightarrow> b = a \<and> pid (ts a) \<noteq> 1 \<and> init_chain ts (real_parent (ts a)) bs"

definition nonneg_weights :: "task_store \<Rightarrow> bool" where
  "nonneg_weights ts \<longleftrightarrow> (\<forall>a. 0 \<le> sint (weight (ts a)))"

section \<open>Leaf sums\<close>

lemma fold_max_ge: "x \<le> fold max xs (x :: nat)"
  by (induction xs arbitrary: x) (auto intro: order_trans [OF max.cobounded2])

lemma fold_max_mono: "(x :: nat) \<le> y \<Longrightarrow> fold max xs x \<le> fold max xs y"
  by (induction xs arbitrary: x y) (auto intro: max.mono)

lemma fold_max_member: "y \<in> set xs \<Longrightarrow> (y :: nat) \<le> fold max xs x"
proof (induction xs arbitrary: x)
  case (Cons z zs)
  show ?case
  proof (cases "y = z")
    case True
    have "z \<le> max z x" by simp
    also have "\<dots> \<le> fold max zs (max z x)" by (rule fold_max_ge)
    finally show ?thesis using True by simp
  next
    case False
    with Cons show ?thesis by simp
  qed
qed simp

lemma list_for_each_child_map:
  assumes "\<And>c acc. c \<in> set cs \<Longrightarrow> get_child_leaf_sum n ts (proot c) acc = Some (acc + f c)"
  shows "list_for_each_child n ts (map proot cs) acc = Some (acc + sum_list (map f cs))"
  using assms by (induction cs arbitrary: acc) (auto simp: add.assoc)

lemma get_child_leaf_sum_tree:
  assumes "holds_tree ts t" "pheight t \<le> n"
  shows "get_child_leaf_sum n ts (proot t) acc
       = Some (acc + sum_list (map (\<lambda>a. weight (ts a)) (leaf_list t)))"
  using assms
proof (induction t arbitrary: n acc)
  case (PNode a cs)
  from PNode.prems(2) obtain m where n: "n = Suc m" and m: "fold max (map pheight cs) 0 \<le> m"
    by (cases n) auto
  have sub: "get_child_leaf_sum m ts (proot c) acc
      = Some (acc + sum_list (map (\<lambda>a. weight (ts a)) (leaf_list c)))" if "c \<in> set cs" for c acc
  proof (rule PNode.IH [OF that])
    show "holds_tree ts c" using that PNode.prems(1) by (auto simp: list_all_iff)
    show "pheight c \<le> m"
      using that m fold_max_member [of "pheight c" "map pheight cs" 0] by force
  qed
  have "map (\<lambda>a. weight (ts a)) (concat (map leaf_list cs))
      = concat (map (\<lambda>c. map (\<lambda>a. weight (ts a)) (leaf_list c)) cs)"
    by (induction cs) auto
  moreover have "sum_list (concat (map (\<lambda>c. map (\<lambda>a. weight (ts a)) (leaf_list c)) cs))
      = sum_list (map (\<lambda>c. sum_list (map (\<lambda>a. weight (ts a)) (leaf_list c))) cs)"
    by (induction cs) auto
  ultimately show ?case
    using PNode.prems(1) list_for_each_child_map [of cs m ts _ acc, OF sub]
    by (auto simp: n)
qed

lemma sint_sum_list_weights:
  assumes "\<forall>x \<in> set xs. 0 \<le> sint (x :: c_long) \<and> sint x < 2 ^ 31" "length xs < 2 ^ 32"
  shows "sint (sum_list xs) = sum_list (map sint xs) \<and> 0 \<le> sint (sum_list xs)
       \<and> sum_list (map sint xs) \<le> int (length xs) * (2 ^ 31 - 1)"
  using assms
proof (induction xs)
  case (Cons x xs)
  then have IH: "sint (sum_list xs) = sum_list (map sint xs)" "0 \<le> sint (sum_list xs)"
      "sum_list (map sint xs) \<le> int (length xs) * (2 ^ 31 - 1)"
    and x: "0 \<le> sint x" "sint x < 2 ^ 31" and l: "int (length xs) < 2 ^ 32"
    by auto
  have "int (length xs) * (2 ^ 31 - 1) \<le> 2 ^ 32 * (2 ^ 31 - 1)"
    using l by (intro mult_right_mono) auto
  with IH x have "- (2 ^ 63) \<le> sint x + sint (sum_list xs)" "sint x + sint (sum_list xs) < 2 ^ 63"
    by auto
  then have "sint (x + sum_list xs) = sint x + sint (sum_list xs)"
    by (simp add: signed_take_bit_int_eq_self sint_word_ariths)
  with IH x show ?case by (auto simp: algebra_simps)
qed simp

text \<open>Chains to the first process.\<close>

lemma heaviest_loop_chain:
  assumes "init_chain ts a xs" "length xs < n"
  shows "\<exists>p. heaviest_loop n ts a mp mw = Some p"
  using assms
proof (induction xs arbitrary: a n mp mw)
  case Nil
  then show ?case by (cases n) auto
next
  case (Cons x xs)
  then show ?case by (cases n) auto
qed

text \<open>
  \<open>heaviest_above ts mw xs p\<close>: among the tasks \<open>xs\<close>, \<open>p\<close> is the pid of the first one that
  reaches the greatest weight, and that weight is above \<open>mw\<close>.
\<close>

definition heaviest_above :: "task_store \<Rightarrow> c_long \<Rightarrow> taddr list \<Rightarrow> c_int \<Rightarrow> bool" where
  "heaviest_above ts mw xs p \<longleftrightarrow> (\<exists>ys m zs. xs = ys @ m # zs \<and> p = pid (ts m)
     \<and> sint mw < sint (weight (ts m))
     \<and> (\<forall>y \<in> set ys. sint (weight (ts y)) < sint (weight (ts m)))
     \<and> (\<forall>z \<in> set zs. sint (weight (ts z)) \<le> sint (weight (ts m))))"

lemma heaviest_above_first:
  assumes "\<forall>x \<in> set xs. sint (weight (ts x)) \<le> sint (weight (ts a))" "sint mw < sint (weight (ts a))"
  shows "heaviest_above ts mw (a # xs) (pid (ts a))"
  using assms unfolding heaviest_above_def by (intro exI [of _ "[]"] exI [of _ a] exI [of _ xs]) auto

lemma heaviest_above_later:
  assumes "heaviest_above ts mv xs p" "sint (weight (ts a)) \<le> sint mv" "sint mw \<le> sint mv"
  shows "heaviest_above ts mw (a # xs) p"
proof -
  from assms(1) obtain ys m zs where "xs = ys @ m # zs" "p = pid (ts m)"
    "sint mv < sint (weight (ts m))" "\<forall>y \<in> set ys. sint (weight (ts y)) < sint (weight (ts m))"
    "\<forall>z \<in> set zs. sint (weight (ts z)) \<le> sint (weight (ts m))"
    unfolding heaviest_above_def by blast
  with assms(2,3) show ?thesis
    unfolding heaviest_above_def by (intro exI [of _ "a # ys"] exI [of _ m] exI [of _ zs]) auto
qed

lemma heaviest_loop_spec:
  assumes "init_chain ts a xs" "heaviest_loop n ts a mp mw = Some p"
  shows "(\<forall>x \<in> set xs. sint (weight (ts x)) \<le> sint mw) \<and> p = mp \<or> heaviest_above ts mw xs p"
  using assms
proof (induction xs arbitrary: a n mp mw)
  case Nil
  then show ?case by (cases n) auto
next
  case (Cons x xs)
  then obtain k where n: "n = Suc k" by (cases n) auto
  from Cons.prems(1) have x: "x = a" and c: "init_chain ts (real_parent (ts a)) xs"
    and np: "pid (ts a) \<noteq> 1" by auto
  show ?case
  proof (cases "sint (weight (ts a)) > sint mw")
    case True
    with Cons.prems(2) np n
    have "heaviest_loop k ts (real_parent (ts a)) (pid (ts a)) (weight (ts a)) = Some p" by simp
    from Cons.IH [OF c this] True x show ?thesis
      by (auto intro: heaviest_above_first heaviest_above_later)
  next
    case False
    with Cons.prems(2) np n have "heaviest_loop k ts (real_parent (ts a)) mp mw = Some p" by simp
    from Cons.IH [OF c this] False x show ?thesis
      by (auto intro: heaviest_above_later)
  qed
qed

section \<open>Properties\<close>

lemma sint_signed_int: "sint (signed (w :: c_int) :: c_long) = sint w"
  by (rule sint_up_scast) (simp add: is_up)

text \<open>
  A negative weight is refused with \<open>-EINVAL\<close> and changes nothing; any other weight is
  accepted, is what \<open>sys_get_weight\<close> then returns, and changes no other task and no other
  field of the calling task.
\<close>

theorem set_weight_get_weight:
  assumes "sys_set_weight k w = (k', r)"
  shows "if sint w < 0 then k' = k \<and> sint r = - 22
         else r = 0 \<and> sint (sys_get_weight k') = sint w
            \<and> (\<forall>a. a \<noteq> current k \<longrightarrow> tasks k' a = tasks k a)
            \<and> tasks k' (current k) = (tasks k (current k))\<lparr>weight := signed w\<rparr>
            \<and> current k' = current k"
  using assms
  by (auto simp: sys_set_weight_def sys_get_weight_def EINVAL_def sint_signed_int split: if_splits)

definition init_task :: task_struct where
  "init_task = \<lparr>weight = 0, pid = 1, children = [1, 2], real_parent = 0\<rparr>"

definition demo_tasks :: task_store where
  "demo_tasks = (\<lambda>_. init_task)
     (1 := \<lparr>weight = 7, pid = 20, children = [3, 4], real_parent = 0\<rparr>,
      2 := \<lparr>weight = 5, pid = 21, children = [], real_parent = 0\<rparr>,
      3 := \<lparr>weight = 7, pid = 22, children = [], real_parent = 1\<rparr>,
      4 := \<lparr>weight = 2, pid = 23, children = [], real_parent = 1\<rparr>)"

definition demo_kernel :: kernel where
  "demo_kernel = \<lparr>tasks = demo_tasks, current = 3, klog = []\<rparr>"

theorem set_weight_get_weight_witness:
  "sint (sys_get_weight (fst (sys_set_weight demo_kernel 9))) = 9"
  using set_weight_get_weight [of demo_kernel 9 "fst (sys_set_weight demo_kernel 9)" "snd (sys_set_weight demo_kernel 9)"]
  by simp

text \<open>
  C13. On a finite process tree below the caller, with as many recursion levels as the tree is
  high, \<open>sys_get_leaf_children_sum\<close> returns: \<open>-ECHILD\<close> for a caller without children, and
  otherwise exactly the integer sum of the weights of the leaves of the tree, with no
  overflow, provided every weight is one \<open>sys_set_weight\<close> can store and there are fewer
  than \<open>2 ^ 32\<close> leaves. So the result is negative only in the error case.
\<close>

theorem get_leaf_children_sum_correct:
  assumes "holds_tree (tasks k) t" "proot t = current k" "pheight t \<le> n"
    and "\<forall>a \<in> set (leaf_list t). 0 \<le> sint (weight (tasks k a)) \<and> sint (weight (tasks k a)) < 2 ^ 31"
    and "length (leaf_list t) < 2 ^ 32"
  shows "\<exists>r. sys_get_leaf_children_sum n k = Some r
     \<and> (if psubs t = [] then sint r = - 10
        else sint r = (\<Sum>a \<leftarrow> leaf_list t. sint (weight (tasks k a))) \<and> 0 \<le> sint r)"
proof (cases "psubs t = []")
  case True
  with assms(1,2) show ?thesis
    by (cases t) (auto simp: sys_get_leaf_children_sum_def ECHILD_def)
next
  case False
  let ?ws = "map (\<lambda>a. weight (tasks k a)) (leaf_list t)"
  have "children (tasks k (current k)) \<noteq> []"
    using False assms(1,2) by (cases t) auto
  then have "sys_get_leaf_children_sum n k = Some (sum_list ?ws)"
    using get_child_leaf_sum_tree [OF assms(1,3), of 0] assms(2)
    by (simp add: sys_get_leaf_children_sum_def)
  moreover have "sint (sum_list ?ws) = sum_list (map sint ?ws) \<and> 0 \<le> sint (sum_list ?ws)"
    using sint_sum_list_weights [of ?ws] assms(4,5) by auto
  ultimately show ?thesis using False by (simp add: o_def)
qed

theorem get_leaf_children_sum_correct_witness:
  "\<exists>r. sys_get_leaf_children_sum 3 (demo_kernel\<lparr>current := 0\<rparr>) = Some r \<and> sint r = 14"
  using get_leaf_children_sum_correct [of "demo_kernel\<lparr>current := 0\<rparr>"
      "PNode 0 [PNode 1 [PNode 3 [], PNode 4 []], PNode 2 []]" 3]
  by (auto simp: demo_kernel_def demo_tasks_def init_task_def)

text \<open>
  C36. From a caller whose chain of real parents reaches the first process (pid 1), with more
  loop rounds than the chain is long, \<open>sys_get_heaviest_ancestor\<close> returns: the pid of the
  nearest task of greatest weight among the caller and its ancestors below the first process,
  and 1 when the caller is the first process itself. Weights are assumed non-negative, which
  \<open>sys_set_weight\<close> keeps.
\<close>

theorem get_heaviest_ancestor_correct:
  assumes "init_chain (tasks k) (current k) xs" "length xs < n" "nonneg_weights (tasks k)"
  shows "\<exists>p. sys_get_heaviest_ancestor n k = Some (signed p)
     \<and> (if xs = [] then p = 1 else heaviest_above (tasks k) (- 1) xs p)"
proof -
  from heaviest_loop_chain [OF assms(1,2), of 1 "- 1"]
  obtain p where p: "heaviest_loop n (tasks k) (current k) 1 (- 1) = Some p" by blast
  have "\<not> sint (weight (tasks k x)) \<le> sint (- 1 :: c_long)" for x
    using assms(3) unfolding nonneg_weights_def by (simp add: not_le order.strict_trans2 [of _ 0])
  with heaviest_loop_spec [OF assms(1) p] have "if xs = [] then p = 1 else heaviest_above (tasks k) (- 1) xs p"
    by (cases xs) (auto simp: heaviest_above_def)
  with p show ?thesis
    by (intro exI [of _ p]) (simp add: sys_get_heaviest_ancestor_def heaviest_ancestor_weight_def)
qed

theorem get_heaviest_ancestor_correct_witness:
  "\<exists>p. sys_get_heaviest_ancestor 3 demo_kernel = Some (signed p)
     \<and> heaviest_above demo_tasks (- 1) [3, 1] p"
proof -
  have "nonneg_weights demo_tasks"
    by (simp add: nonneg_weights_def demo_tasks_def init_task_def)
  then show ?thesis
    using get_heaviest_ancestor_correct [of demo_kernel "[3, 1]" 3]
    by (simp add: demo_kernel_def demo_tasks_def init_task_def)
qed

text \<open>
  Weights stay non-negative: the first process starts at 0, and no sequence of the weight
  system calls by any of the tasks stores a negative weight.
\<close>

inductive weight_step :: "kernel \<Rightarrow> kernel \<Rightarrow> bool" where
  hello: "weight_step k (fst (sys_hello k))"
| set_weight: "weight_step k (fst (sys_set_weight k w))"
| init_weight: "weight_step k (rest_init_weight k tsk)"
| switch: "weight_step k (k\<lparr>current := c\<rparr>)"

theorem weights_stay_nonneg:
  assumes "weight_step\<^sup>*\<^sup>* k k'" "nonneg_weights (tasks k)"
  shows "nonneg_weights (tasks k')"
  using assms
proof (induction rule: rtranclp_induct)
  case (step k' k'')
  from step.hyps(2) step.IH [OF step.prems] show ?case
    by (cases rule: weight_step.cases)
      (auto simp: nonneg_weights_def sys_hello_def sys_set_weight_def rest_init_weight_def sint_signed_int)
qed

theorem weights_stay_nonneg_witness:
  "nonneg_weights (tasks (fst (sys_set_weight demo_kernel 9)))"
proof (rule weights_stay_nonneg)
  show "weight_step\<^sup>*\<^sup>* demo_kernel (fst (sys_set_weight demo_kernel 9))"
    by (intro r_into_rtranclp weight_step.set_weight)
  show "nonneg_weights (tasks demo_kernel)"
    by (simp add: nonneg_weights_def demo_kernel_def demo_tasks_def init_task_def)
qed

end
