(* ===== verification/Cyclic_Queue.thy ===== *)
theory Cyclic_Queue
  imports Prelude
begin

text \<open>
  The cyclic queue of \<open>hw3/wet/209509181-313511602/server.c\<close>: \<open>cyclic_queue_t\<close> and the
  four functions on it, with \<open>head\<close> and \<open>tail\<close> as 64-bit values where \<open>-1\<close> marks the
  empty queue. The abstraction \<open>qlist\<close> reads the queue as the list of the sessions between
  head and tail. The locale \<open>session_deque\<close> is the contract the job manager relies on,
  interpreted below on the code's functions.
\<close>

section \<open>Data\<close>

record timeval =
  tv_sec :: c_long
  tv_usec :: c_long

record session =
  connection_fd :: c_int
  arrival_time :: timeval

datatype remove_type = HEAD | TAIL

datatype retval = SUCCESS | MEMORY_ERROR | QUEUE_IS_FULL | QUEUE_IS_EMPTY | NOT_ENOUGH_ELEMENTS

record cyclic_queue =
  q_size :: size_t
  q_head :: ssize_t
  q_tail :: ssize_t
  elements_array :: "session list"

section \<open>Operations\<close>

text \<open>
  \<open>malloc\<close> is given by its answer to a number of bytes: \<open>None\<close> for a null pointer, otherwise
  the sessions the (uninitialised) block happens to hold. A \<open>session_t\<close> takes 24 bytes.
\<close>

definition init_cyclic_queue ::
  "(size_t \<Rightarrow> session list option) \<Rightarrow> cyclic_queue \<Rightarrow> size_t \<Rightarrow> retval \<times> cyclic_queue" where
  "init_cyclic_queue malloc queue n =
     (case malloc (24 * n) of
        None \<Rightarrow> (MEMORY_ERROR, queue\<lparr>elements_array := []\<rparr>)
      | Some block \<Rightarrow>
          (SUCCESS, queue\<lparr>elements_array := block, q_size := n, q_head := - 1, q_tail := - 1\<rparr>))"

definition free_cyclic_queue :: "cyclic_queue \<Rightarrow> cyclic_queue" where
  "free_cyclic_queue queue = queue\<lparr>elements_array := []\<rparr>"

definition add_queue_element :: "cyclic_queue \<Rightarrow> session \<Rightarrow> (retval \<times> cyclic_queue) checked" where
  "add_queue_element queue element =
     (if q_tail queue + 1 = q_head queue \<or> (q_head queue = 0 \<and> q_tail queue = q_size queue - 1)
      then Inr (QUEUE_IS_FULL, queue)
      else
        let queue1 = (if q_head queue = - 1 then queue\<lparr>q_head := 0\<rparr> else queue) in
        if q_size queue1 = 0 then Inl DivisionByZero
        else
          let t = (q_tail queue1 + 1) mod q_size queue1 in
          if unat t < length (elements_array queue1)
          then Inr (SUCCESS,
            queue1\<lparr>q_tail := t, elements_array := (elements_array queue1)[unat t := element]\<rparr>)
          else Inl OutOfBounds)"

text \<open>
  The output parameter \<open>element\<close> is the session it points to, \<open>None\<close> for a null pointer.
\<close>

definition remove_queue_element ::
  "cyclic_queue \<Rightarrow> session option \<Rightarrow> remove_type \<Rightarrow> (retval \<times> session option \<times> cyclic_queue) checked"
where
  "remove_queue_element queue element type =
     (if q_head queue = - 1 then Inr (QUEUE_IS_EMPTY, element, queue)
      else
        let i = (if type = HEAD then q_head queue else q_tail queue) in
        if element \<noteq> None \<and> \<not> unat i < length (elements_array queue) then Inl OutOfBounds
        else
          let element' = (if element = None then None else Some (elements_array queue ! unat i)) in
          if q_head queue = q_tail queue
          then Inr (SUCCESS, element', queue\<lparr>q_head := - 1, q_tail := - 1\<rparr>)
          else if type = HEAD
          then (if q_size queue = 0 then Inl DivisionByZero
                else Inr (SUCCESS, element', queue\<lparr>q_head := (q_head queue + 1) mod q_size queue\<rparr>))
          else Inr (SUCCESS, element',
            queue\<lparr>q_tail := (if q_tail queue = 0 then q_size queue - 1 else q_tail queue - 1)\<rparr>))"

section \<open>Abstraction and invariant\<close>

definition qcap :: "cyclic_queue \<Rightarrow> nat" where
  "qcap q = unat (q_size q)"

definition qcount :: "cyclic_queue \<Rightarrow> nat" where
  "qcount q = (if q_head q = - 1 then 0
     else Suc ((unat (q_tail q) + qcap q - unat (q_head q)) mod qcap q))"

definition ring_slice :: "'a list \<Rightarrow> nat \<Rightarrow> nat \<Rightarrow> nat \<Rightarrow> 'a list" where
  "ring_slice xs n h c = map (\<lambda>i. xs ! ((h + i) mod n)) [0..<c]"

definition qlist :: "cyclic_queue \<Rightarrow> session list" where
  "qlist q = ring_slice (elements_array q) (qcap q) (unat (q_head q)) (qcount q)"

definition qinv :: "cyclic_queue \<Rightarrow> bool" where
  "qinv q \<longleftrightarrow> 0 < qcap q \<and> qcap q < 9223372036854775808 \<and> length (elements_array q) = qcap q
     \<and> (q_head q = - 1 \<and> q_tail q = - 1 \<or> unat (q_head q) < qcap q \<and> unat (q_tail q) < qcap q)"

section \<open>The contract of a bounded double-ended queue\<close>

locale session_deque =
  fixes add :: "'q \<Rightarrow> 'a \<Rightarrow> (retval \<times> 'q) checked"
    and remove :: "'q \<Rightarrow> 'a option \<Rightarrow> remove_type \<Rightarrow> (retval \<times> 'a option \<times> 'q) checked"
    and content :: "'q \<Rightarrow> 'a list"
    and capacity :: "'q \<Rightarrow> nat"
    and invar :: "'q \<Rightarrow> bool"
  assumes content_bound: "invar q \<Longrightarrow> length (content q) \<le> capacity q"
    and add_full: "invar q \<Longrightarrow> length (content q) = capacity q \<Longrightarrow> add q x = Inr (QUEUE_IS_FULL, q)"
    and add_room: "invar q \<Longrightarrow> length (content q) < capacity q \<Longrightarrow>
      \<exists>q'. add q x = Inr (SUCCESS, q') \<and> invar q' \<and> capacity q' = capacity q
         \<and> content q' = content q @ [x]"
    and remove_empty: "invar q \<Longrightarrow> content q = [] \<Longrightarrow> remove q p t = Inr (QUEUE_IS_EMPTY, p, q)"
    and remove_head: "invar q \<Longrightarrow> content q = x # xs \<Longrightarrow>
      \<exists>q'. remove q (Some y) HEAD = Inr (SUCCESS, Some x, q') \<and> invar q'
         \<and> capacity q' = capacity q \<and> content q' = xs"
    and remove_tail: "invar q \<Longrightarrow> content q = xs @ [x] \<Longrightarrow>
      \<exists>q'. remove q (Some y) TAIL = Inr (SUCCESS, Some x, q') \<and> invar q'
         \<and> capacity q' = capacity q \<and> content q' = xs"
begin

text \<open>Removing at either end of a non-empty queue takes one element off that end.\<close>

lemma remove_either:
  assumes "invar q" "content q \<noteq> []"
  shows "\<exists>q' x. remove q (Some y) t = Inr (SUCCESS, Some x, q') \<and> invar q' \<and> capacity q' = capacity q
     \<and> (t = HEAD \<and> content q = x # content q' \<or> t = TAIL \<and> content q = content q' @ [x])"
proof (cases t)
  case HEAD
  from assms(2) obtain x xs where "content q = x # xs" by (cases "content q") auto
  with remove_head [OF assms(1) this, of y] HEAD show ?thesis by fastforce
next
  case TAIL
  from assms(2) obtain x xs where "content q = xs @ [x]" by (cases "content q" rule: rev_cases) auto
  with remove_tail [OF assms(1) this, of y] TAIL show ?thesis by fastforce
qed

text \<open>First in, first out: what is added to a non-full queue comes out last.\<close>

lemma add_then_remove_head:
  assumes "invar q" "length (content q) < capacity q" "content q = x # xs"
  shows "\<exists>q1 q2. add q z = Inr (SUCCESS, q1) \<and> remove q1 (Some y) HEAD = Inr (SUCCESS, Some x, q2)
     \<and> content q2 = xs @ [z]"
proof -
  from add_room [OF assms(1,2), of z] obtain q1 where
    q1: "add q z = Inr (SUCCESS, q1)" "invar q1" "content q1 = x # (xs @ [z])"
    using assms(3) by auto
  from remove_head [OF q1(2,3), of y] q1(1) show ?thesis by fastforce
qed

end


section \<open>The code's queue keeps the contract\<close>

lemma ring_slice_length [simp]: "length (ring_slice xs n h c) = c"
  by (simp add: ring_slice_def)

lemma ring_slice_0 [simp]: "ring_slice xs n h 0 = []"
  by (simp add: ring_slice_def)

lemma ring_slice_snoc: "ring_slice xs n h (Suc c) = ring_slice xs n h c @ [xs ! ((h + c) mod n)]"
  by (simp add: ring_slice_def)

lemma ring_slice_Cons: "ring_slice xs n h (Suc c) = xs ! (h mod n) # ring_slice xs n ((h + 1) mod n) c"
  by (induction c) (simp_all add: ring_slice_snoc ring_slice_def mod_add_left_eq)

lemma ring_slice_upd:
  assumes "c < n" "length xs = n"
  shows "ring_slice (xs[(h + c) mod n := e]) n h c = ring_slice xs n h c"
proof -
  have "(h + c) mod n \<noteq> (h + i) mod n" if "i < c" for i
  proof
    assume "(h + c) mod n = (h + i) mod n"
    then have "n dvd (h + c) - (h + i)" using that by (subst mod_eq_dvd_iff_nat [symmetric]) auto
    then show False using that assms(1) by (auto dest: dvd_imp_le)
  qed
  then show ?thesis by (auto simp: ring_slice_def)
qed

definition ring_count :: "nat \<Rightarrow> nat \<Rightarrow> nat \<Rightarrow> nat" where
  "ring_count n h t = (if h \<le> t then Suc (t - h) else Suc (t + n - h))"

lemma ring_count_tail_step:
  assumes "h < n" "t < n" "ring_count n h t < n"
  shows "ring_count n h (Suc t mod n) = Suc (ring_count n h t)"
  using assms by (cases "Suc t = n") (auto simp: ring_count_def split: if_splits)

lemma ring_count_head_step:
  assumes "h < n" "t < n" "h \<noteq> t"
  shows "Suc (ring_count n (Suc h mod n) t) = ring_count n h t"
  using assms by (cases "Suc h = n") (auto simp: ring_count_def)

lemma ring_count_tail_back:
  assumes "h < n" "t < n" "h \<noteq> t"
  shows "Suc (ring_count n h (if t = 0 then n - 1 else t - 1)) = ring_count n h t"
  using assms by (auto simp: ring_count_def)

lemma qcount_eq:
  assumes "unat (q_head q) < qcap q" "unat (q_tail q) < qcap q" "q_head q \<noteq> - 1"
  shows "qcount q = ring_count (qcap q) (unat (q_head q)) (unat (q_tail q))"
proof (cases "unat (q_head q) \<le> unat (q_tail q)")
  case True
  then have "unat (q_tail q) + qcap q - unat (q_head q) = unat (q_tail q) - unat (q_head q) + qcap q" by simp
  then have "(unat (q_tail q) + qcap q - unat (q_head q)) mod qcap q = unat (q_tail q) - unat (q_head q)"
    using assms(2) by (metis less_imp_diff_less mod_add_self2 mod_less)
  with True assms(3) show ?thesis by (simp add: qcount_def ring_count_def)
next
  case False
  with assms show ?thesis by (simp add: qcount_def ring_count_def)
qed

lemma small_not_minus_one: "unat (x :: 64 word) < 9223372036854775808 \<Longrightarrow> x \<noteq> - 1"
  using unat_minus_one_64 by fastforce

lemma unat_Suc_64: "unat (x :: 64 word) < 9223372036854775808 \<Longrightarrow> unat (x + 1) = Suc (unat x)"
  by (simp add: unat_plus_64)

text \<open>A queue in use: its head and tail as numbers below the capacity.\<close>

lemma qinv_cases:
  assumes "qinv q"
  obtains (empty) "q_head q = - 1" "q_tail q = - 1" "qlist q = []"
  | (used) "unat (q_head q) < qcap q" "unat (q_tail q) < qcap q" "q_head q \<noteq> - 1" "q_tail q \<noteq> - 1"
      "0 < qcount q" "qcount q \<le> qcap q" "unat (q_tail q) = (unat (q_head q) + (qcount q - 1)) mod qcap q"
proof (cases "q_head q = - 1 \<and> q_tail q = - 1")
  case True
  then show ?thesis by (intro empty) (auto simp: qlist_def qcount_def)
next
  case False
  then have ht: "unat (q_head q) < qcap q" "unat (q_tail q) < qcap q"
    using assms by (auto simp: qinv_def)
  moreover from this assms have ne: "q_head q \<noteq> - 1" "q_tail q \<noteq> - 1"
    by (auto simp: qinv_def intro!: small_not_minus_one)
  moreover have "0 < qcount q" "qcount q \<le> qcap q" using ht ne by (auto simp: qcount_eq ring_count_def)
  moreover have "unat (q_tail q) = (unat (q_head q) + (qcount q - 1)) mod qcap q"
    using ht ne by (auto simp: qcount_eq ring_count_def)
  ultimately show ?thesis by (rule used)
qed

lemma qlist_length: "length (qlist q) = qcount q"
  by (simp add: qlist_def)


lemma add_full_iff:
  assumes "unat (q_head q) < qcap q" "unat (q_tail q) < qcap q" "qcap q < 9223372036854775808"
  shows "(q_tail q + 1 = q_head q \<or> q_head q = 0 \<and> q_tail q = q_size q - 1) \<longleftrightarrow>
    (Suc (unat (q_tail q)) = unat (q_head q) \<or> unat (q_head q) = 0 \<and> Suc (unat (q_tail q)) = qcap q)"
proof -
  have "unat (q_tail q + 1) = Suc (unat (q_tail q))" using assms by (intro unat_Suc_64) simp
  moreover have "unat (q_size q - 1) = qcap q - 1" using assms(1) by (simp add: unat_minus_64 qcap_def)
  ultimately show ?thesis using assms(1) by (auto simp: eq_iff_unat_64)
qed

lemma add_queue_element_full:
  assumes "qinv q" "length (qlist q) = qcap q"
  shows "add_queue_element q x = Inr (QUEUE_IS_FULL, q)"
  using assms(1)
proof (cases rule: qinv_cases)
  case empty
  with assms show ?thesis by (simp add: qinv_def)
next
  case used
  let ?h = "unat (q_head q)" and ?t = "unat (q_tail q)" and ?n = "qcap q"
  have cap: "?n < 9223372036854775808" using assms(1) by (simp add: qinv_def)
  have "Suc ?t = ?h \<or> ?h = 0 \<and> Suc ?t = ?n"
    using used(1-3) assms(2) by (auto simp: qlist_length qcount_eq ring_count_def split: if_splits)
  with add_full_iff [OF used(1,2) cap] show ?thesis by (auto simp: add_queue_element_def)
qed

lemma add_queue_element_room:
  assumes "qinv q" "length (qlist q) < qcap q"
  shows "\<exists>q'. add_queue_element q x = Inr (SUCCESS, q') \<and> qinv q' \<and> qcap q' = qcap q
     \<and> qlist q' = qlist q @ [x]"
  using assms(1)
proof (cases rule: qinv_cases)
  case empty
  with assms(1) have n: "0 < qcap q" "qcap q < 9223372036854775808" "length (elements_array q) = qcap q"
    "q_size q \<noteq> 0" by (auto simp: qinv_def qcap_def)
  let ?q = "q\<lparr>q_head := 0, q_tail := 0, elements_array := (elements_array q)[0 := x]\<rparr>"
  have "add_queue_element q x = Inr (SUCCESS, ?q)"
    using empty n by (simp add: add_queue_element_def Let_def)
  moreover have "qinv ?q" "qcap ?q = qcap q" using n by (simp_all add: qinv_def qcap_def)
  moreover have "qlist ?q = [x]" using n by (simp add: qlist_def qcount_def qcap_def ring_slice_def)
  ultimately show ?thesis using empty(3) by auto
next
  case used
  let ?h = "unat (q_head q)" and ?t = "unat (q_tail q)" and ?n = "qcap q"
  have n: "?n < 9223372036854775808" "length (elements_array q) = ?n" "q_size q \<noteq> 0"
    using assms(1) by (auto simp: qinv_def qcap_def)
  have c: "qcount q < ?n" using assms(2) by (simp add: qlist_length)
  have "Suc ?t \<noteq> ?h" "\<not> (?h = 0 \<and> Suc ?t = ?n)"
    using used(1-3) c by (auto simp: qcount_eq ring_count_def split: if_splits)
  with add_full_iff [OF used(1,2) n(1)]
  have nf: "\<not> (q_tail q + 1 = q_head q \<or> q_head q = 0 \<and> q_tail q = q_size q - 1)" by blast
  define t where "t = (q_tail q + 1) mod q_size q"
  have "unat (q_tail q + 1) = Suc ?t" using used(2) n(1) by (intro unat_Suc_64) simp
  then have tn: "unat t = Suc ?t mod ?n" by (simp add: t_def unat_mod_64 qcap_def)
  have t: "unat t = (?h + qcount q) mod ?n"
    using used(5,7) tn by (metis Suc_diff_1 add_Suc_right mod_Suc_eq)
  let ?q = "q\<lparr>q_tail := t, elements_array := (elements_array q)[unat t := x]\<rparr>"
  have lt: "unat t < ?n" using t used(1) by simp
  then have "add_queue_element q x = Inr (SUCCESS, ?q)"
    using nf used(3) n by (auto simp: add_queue_element_def Let_def t_def)
  moreover have cap: "qcap ?q = ?n" by (simp add: qcap_def)
  moreover have "qinv ?q" using used(1) n(1,2) lt cap by (simp add: qinv_def)
  moreover have "qcount ?q = Suc (qcount q)"
    using used(1-3) c lt cap ring_count_tail_step [OF used(1,2)] by (simp add: qcount_eq tn)
  then have "qlist ?q = qlist q @ [x]"
    using cap t lt n(2) ring_slice_upd [OF c n(2), of ?h x]
    by (simp add: qlist_def ring_slice_snoc)
  ultimately show ?thesis by auto
qed


lemma qlist_Nil_iff:
  assumes "qinv q"
  shows "qlist q = [] \<longleftrightarrow> q_head q = - 1"
  using assms by (cases rule: qinv_cases) (auto simp: qlist_def ring_slice_def)

text \<open>The last element leaves an empty queue behind, whichever end it is taken from.\<close>

lemma remove_queue_element_single:
  assumes "qinv q" "q_head q \<noteq> - 1" "q_head q = q_tail q"
  defines "q' \<equiv> q\<lparr>q_head := - 1, q_tail := - 1\<rparr>"
  shows "remove_queue_element q (Some y) t
       = Inr (SUCCESS, Some (elements_array q ! unat (q_head q)), q')"
    and "qlist q = [elements_array q ! unat (q_head q)]" "qinv q'" "qcap q' = qcap q" "qlist q' = []"
proof -
  from assms(1,2) have h: "unat (q_head q) < qcap q" and l: "length (elements_array q) = qcap q"
    by (auto simp: qinv_def)
  then show "remove_queue_element q (Some y) t
       = Inr (SUCCESS, Some (elements_array q ! unat (q_head q)), q')"
    using assms(2,3) by (simp add: remove_queue_element_def Let_def q'_def)
  have "qcount q = 1" using assms(2,3) h by (simp add: qcount_def)
  then show "qlist q = [elements_array q ! unat (q_head q)]"
    using h by (simp add: qlist_def ring_slice_def)
  show "qinv q'" "qcap q' = qcap q" "qlist q' = []"
    using assms(1) by (simp_all add: q'_def qinv_def qcap_def qlist_def qcount_def)
qed

lemma remove_queue_element_head:
  assumes "qinv q" "qlist q = x # xs"
  shows "\<exists>q'. remove_queue_element q (Some y) HEAD = Inr (SUCCESS, Some x, q') \<and> qinv q'
     \<and> qcap q' = qcap q \<and> qlist q' = xs"
  using assms(1)
proof (cases rule: qinv_cases)
  case empty
  with assms show ?thesis by simp
next
  case used
  let ?h = "unat (q_head q)" and ?t = "unat (q_tail q)" and ?n = "qcap q"
  have n: "?n < 9223372036854775808" "length (elements_array q) = ?n" "q_size q \<noteq> 0"
    using assms(1) by (auto simp: qinv_def qcap_def)
  show ?thesis
  proof (cases "q_head q = q_tail q")
    case True
    from remove_queue_element_single [OF assms(1) used(3) True] assms(2) show ?thesis
      by auto
  next
    case False
    define h where "h = (q_head q + 1) mod q_size q"
    have "unat (q_head q + 1) = Suc ?h" using used(1) n(1) by (intro unat_Suc_64) simp
    then have hn: "unat h = Suc ?h mod ?n" by (simp add: h_def unat_mod_64 qcap_def)
    then have hl: "unat h < ?n" using used(1) by simp
    let ?q = "q\<lparr>q_head := h\<rparr>"
    have cap: "qcap ?q = ?n" by (simp add: qcap_def)
    have h1: "h \<noteq> - 1" using hl n(1) by (intro small_not_minus_one) simp
    have "Suc (qcount ?q) = qcount q"
      using used(1-3) hl h1 cap False ring_count_head_step [OF used(1,2)]
      by (simp add: qcount_eq hn word_unat_eq_iff)
    then have "qlist q = elements_array q ! ?h # qlist ?q"
      using used(1) cap by (simp add: qlist_def ring_slice_Cons hn flip: \<open>Suc (qcount ?q) = qcount q\<close>)
    moreover have "remove_queue_element q (Some y) HEAD = Inr (SUCCESS, Some (elements_array q ! ?h), ?q)"
      using used(1,3) False n by (simp add: remove_queue_element_def Let_def h_def)
    moreover have "qinv ?q" using used(2) n hl cap by (simp add: qinv_def)
    ultimately show ?thesis using assms(2) cap by auto
  qed
qed

lemma remove_queue_element_tail:
  assumes "qinv q" "qlist q = xs @ [x]"
  shows "\<exists>q'. remove_queue_element q (Some y) TAIL = Inr (SUCCESS, Some x, q') \<and> qinv q'
     \<and> qcap q' = qcap q \<and> qlist q' = xs"
  using assms(1)
proof (cases rule: qinv_cases)
  case empty
  with assms show ?thesis by simp
next
  case used
  let ?h = "unat (q_head q)" and ?t = "unat (q_tail q)" and ?n = "qcap q"
  have n: "?n < 9223372036854775808" "length (elements_array q) = ?n"
    using assms(1) by (auto simp: qinv_def)
  show ?thesis
  proof (cases "q_head q = q_tail q")
    case True
    from remove_queue_element_single [OF assms(1) used(3) True] assms(2) show ?thesis
      by auto
  next
    case False
    define t where "t = (if q_tail q = 0 then q_size q - 1 else q_tail q - 1)"
    have tn: "unat t = (if ?t = 0 then ?n - 1 else ?t - 1)"
      using used(1,2) by (auto simp: t_def qcap_def unat_minus_64 unat_minus_one unat_eq_zero)
    then have tl: "unat t < ?n" using used(1,2) by auto
    let ?q = "q\<lparr>q_tail := t\<rparr>"
    have cap: "qcap ?q = ?n" by (simp add: qcap_def)
    have "Suc (qcount ?q) = qcount q"
      using used(1-3) tl cap False ring_count_tail_back [OF used(1,2)]
      by (simp add: qcount_eq tn word_unat_eq_iff)
    then have "qlist q = qlist ?q @ [elements_array q ! ?t]"
      using cap used(7) by (simp add: qlist_def ring_slice_snoc flip: \<open>Suc (qcount ?q) = qcount q\<close>)
    moreover have "remove_queue_element q (Some y) TAIL = Inr (SUCCESS, Some (elements_array q ! ?t), ?q)"
      using used(2,3) False n by (simp add: remove_queue_element_def Let_def t_def)
    moreover have "qinv ?q" using used(1) n tl cap by (simp add: qinv_def)
    ultimately show ?thesis using assms(2) cap by auto
  qed
qed

interpretation cq: session_deque add_queue_element remove_queue_element qlist qcap qinv
proof
  fix q :: cyclic_queue and x
  assume "qinv q"
  then show "length (qlist q) \<le> qcap q"
    by (cases rule: qinv_cases) (auto simp: qlist_length)
next
  fix q :: cyclic_queue and p t
  assume "qinv q" "qlist q = []"
  then show "remove_queue_element q p t = Inr (QUEUE_IS_EMPTY, p, q)"
    by (simp add: qlist_Nil_iff remove_queue_element_def)
qed (rule add_queue_element_full add_queue_element_room remove_queue_element_head
    remove_queue_element_tail; assumption)+

text \<open>A freshly initialised queue is empty and well formed.\<close>

lemma init_cyclic_queue_inv:
  assumes "malloc (24 * n) = Some block" "length block = unat n" "0 < unat n" "unat n < 9223372036854775808"
  shows "\<exists>q'. init_cyclic_queue malloc q n = (SUCCESS, q') \<and> qinv q' \<and> qlist q' = [] \<and> qcap q' = unat n"
  using assms by (simp add: init_cyclic_queue_def qinv_def qlist_def qcount_def qcap_def)


section \<open>Properties\<close>

text \<open>
  C26. The cyclic queue is a bounded list, adding: on a well-formed queue \<open>add_queue_element\<close>
  appends the session and answers \<open>SUCCESS\<close> while fewer than \<open>size\<close> sessions are stored, and
  answers \<open>QUEUE_IS_FULL\<close> and changes nothing when \<open>size\<close> are; it never faults and the
  result is well formed.
\<close>

theorem cyclic_queue_add_refines:
  assumes "qinv q"
  shows "if length (qlist q) < qcap q
         then \<exists>q'. add_queue_element q x = Inr (SUCCESS, q') \<and> qinv q' \<and> qcap q' = qcap q
                \<and> qlist q' = qlist q @ [x]
         else add_queue_element q x = Inr (QUEUE_IS_FULL, q)"
  using cq.add_room [OF assms, of x] cq.add_full [OF assms, of x] cq.content_bound [OF assms] by auto

definition demo_s4 :: session where
  "demo_s4 = \<lparr>connection_fd = 4, arrival_time = \<lparr>tv_sec = 1, tv_usec = 0\<rparr>\<rparr>"

definition demo_s5 :: session where
  "demo_s5 = \<lparr>connection_fd = 5, arrival_time = \<lparr>tv_sec = 2, tv_usec = 0\<rparr>\<rparr>"

definition demo_queue :: cyclic_queue where
  "demo_queue = \<lparr>q_size = 2, q_head = 1, q_tail = 1, elements_array = [demo_s4, demo_s5]\<rparr>"

lemma demo_queue_facts: "qinv demo_queue" "qcap demo_queue = 2" "qlist demo_queue = [demo_s5]"
  by (simp_all add: qinv_def qcap_def demo_queue_def qlist_def qcount_def ring_slice_def)

theorem cyclic_queue_add_refines_witness:
  "\<exists>q'. add_queue_element demo_queue demo_s4 = Inr (SUCCESS, q') \<and> qlist q' = [demo_s5, demo_s4]"
  using cyclic_queue_add_refines [OF demo_queue_facts(1), of demo_s4] by (auto simp: demo_queue_facts)

text \<open>
  The cyclic queue is a bounded list, removing: on a well-formed queue
  \<open>remove_queue_element\<close> answers \<open>QUEUE_IS_EMPTY\<close> and changes nothing when no session is
  stored; otherwise it answers \<open>SUCCESS\<close>, hands out the first (\<open>HEAD\<close>) or last (\<open>TAIL\<close>) session
  and leaves the others in order; it never faults and the result is well formed.
\<close>

theorem cyclic_queue_remove_refines:
  assumes "qinv q"
  shows "if qlist q = [] then remove_queue_element q (Some y) t = Inr (QUEUE_IS_EMPTY, Some y, q)
         else \<exists>q'. remove_queue_element q (Some y) t =
                  Inr (SUCCESS, Some (if t = HEAD then hd (qlist q) else last (qlist q)), q')
                \<and> qinv q' \<and> qcap q' = qcap q
                \<and> qlist q' = (if t = HEAD then tl (qlist q) else butlast (qlist q))"
proof (cases "qlist q = []")
  case True
  with cq.remove_empty [OF assms True] show ?thesis by simp
next
  case False
  from cq.remove_either [OF assms False, of y t] obtain q' x where
    q': "remove_queue_element q (Some y) t = Inr (SUCCESS, Some x, q')" "qinv q'" "qcap q' = qcap q"
      "t = HEAD \<and> qlist q = x # qlist q' \<or> t = TAIL \<and> qlist q = qlist q' @ [x]" by blast
  with False show ?thesis by auto
qed

theorem cyclic_queue_remove_refines_witness:
  "\<exists>q'. remove_queue_element demo_queue (Some demo_s4) TAIL = Inr (SUCCESS, Some demo_s5, q')
     \<and> qlist q' = []"
  using cyclic_queue_remove_refines [OF demo_queue_facts(1), of demo_s4 TAIL]
  by (auto simp: demo_queue_facts)

end
