(* ===== verification/Jobs_Manager.thy ===== *)
theory Jobs_Manager
  imports Cyclic_Queue "HOL-Library.Multiset"
begin

text \<open>
  The job manager of \<open>hw3/wet/209509181-313511602/server.c\<close>: \<open>jobs_manager_t\<close>, the
  overload policies of \<open>add_request\<close>, \<open>get_request\<close> and \<open>notify_request_finished\<close>. Each
  definition is the body of the function between locking and unlocking the mutex, up to the
  point where it would sleep on a condition variable: \<open>Waits\<close> is the value for sleeping. The
  threads, the mutex and the condition variables around these bodies are in \<open>Server_Threads\<close>.
  \<open>Close\<close> is recorded as the list of the descriptors closed; \<open>rand()\<close> is a sequence of
  numbers, and an uninitialised local session is an argument.
\<close>

section \<open>Data\<close>

datatype schedalg = BLOCK | DROP_TAIL | DROP_HEAD | DROP_RANDOM

record jobs_manager =
  schedalg_of :: schedalg
  max_accepted_count :: size_t
  waiting_count :: size_t
  running_count :: size_t
  waiting_jobs :: cyclic_queue

datatype add_result =
    Waits
  | Returns jobs_manager "c_int list" bool \<comment> \<open>new state, closed descriptors, \<open>consume\<close> signalled\<close>

section \<open>Operations\<close>

definition out_param :: "'a \<Rightarrow> 'a option \<Rightarrow> 'a" where
  "out_param d p = (case p of None \<Rightarrow> d | Some x \<Rightarrow> x)"

fun random_drop_loop ::
  "(nat \<Rightarrow> nat) \<Rightarrow> nat \<Rightarrow> nat \<Rightarrow> cyclic_queue \<Rightarrow> session \<Rightarrow> (cyclic_queue \<times> c_int list) checked"
where
  "random_drop_loop rand 0 i queue temp_session = Inr (queue, [])"
| "random_drop_loop rand (Suc k) i queue temp_session =
     checked_bind
       (remove_queue_element queue (Some temp_session) (if rand i mod 2 = 0 then HEAD else TAIL))
       (\<lambda>(_, element, queue').
          let temp_session' = out_param temp_session element in
          checked_bind (random_drop_loop rand k (Suc i) queue' temp_session')
            (\<lambda>(queue'', closed). Inr (queue'', connection_fd temp_session' # closed)))"

definition random_drop_connections ::
  "(nat \<Rightarrow> nat) \<Rightarrow> session \<Rightarrow> cyclic_queue \<Rightarrow> size_t \<Rightarrow> (cyclic_queue \<times> size_t \<times> c_int list) checked"
where
  "random_drop_connections rand temp_session queue elements_num =
     (let remove_elements_num =
            (if elements_num mod 2 = 0 then elements_num div 2 else elements_num div 2 + 1) in
      checked_bind (random_drop_loop rand (unat remove_elements_num) 0 queue temp_session)
        (\<lambda>(queue', closed). Inr (queue', elements_num - remove_elements_num, closed)))"

definition enqueue_request :: "jobs_manager \<Rightarrow> session \<Rightarrow> c_int list \<Rightarrow> add_result checked" where
  "enqueue_request jm session closed =
     checked_bind (add_queue_element (waiting_jobs jm) session)
       (\<lambda>(_, queue). Inr (Returns
          (jm\<lparr>waiting_jobs := queue, waiting_count := waiting_count jm + 1\<rparr>) closed True))"

definition add_request ::
  "(nat \<Rightarrow> nat) \<Rightarrow> session \<Rightarrow> jobs_manager \<Rightarrow> session \<Rightarrow> add_result checked"
where
  "add_request rand garbage jm session =
     (let full = (waiting_count jm + running_count jm = max_accepted_count jm) in
      if schedalg_of jm = BLOCK then (if full then Inr Waits else enqueue_request jm session [])
      else if full then
        (if waiting_count jm = 0 then Inr (Returns jm [connection_fd session] False)
         else case schedalg_of jm of
           DROP_TAIL \<Rightarrow> Inr (Returns jm [connection_fd session] False)
         | DROP_HEAD \<Rightarrow>
             checked_bind (remove_queue_element (waiting_jobs jm) (Some garbage) HEAD)
               (\<lambda>(_, element, queue). enqueue_request
                  (jm\<lparr>waiting_jobs := queue, waiting_count := waiting_count jm - 1\<rparr>) session
                  [connection_fd (out_param garbage element)])
         | DROP_RANDOM \<Rightarrow>
             checked_bind (random_drop_connections rand garbage (waiting_jobs jm) (waiting_count jm))
               (\<lambda>(queue, n, closed). enqueue_request
                  (jm\<lparr>waiting_jobs := queue, waiting_count := n\<rparr>) session closed)
         | BLOCK \<Rightarrow> enqueue_request jm session [])
      else enqueue_request jm session [])"

text \<open>\<open>None\<close> is sleeping on \<open>consume\<close>.\<close>

definition get_request :: "jobs_manager \<Rightarrow> session \<Rightarrow> (jobs_manager \<times> session) option checked" where
  "get_request jm garbage =
     (if waiting_count jm = 0 then Inr None
      else checked_bind (remove_queue_element (waiting_jobs jm) (Some garbage) HEAD)
        (\<lambda>(_, element, queue). Inr (Some
           (jm\<lparr>waiting_jobs := queue, waiting_count := waiting_count jm - 1,
               running_count := running_count jm + 1\<rparr>, out_param garbage element))))"

definition notify_request_finished :: "jobs_manager \<Rightarrow> jobs_manager" where
  "notify_request_finished jm = jm\<lparr>running_count := running_count jm - 1\<rparr>"

text \<open>
  \<open>malloc\<close> answers for the thread array and for the queue's array; \<open>create\<close> says which of the
  calls of \<open>pthread_create\<close> succeed. The third component of the result is \<open>True\<close> when the
  program exits because a thread could not be created.
\<close>

definition init_jobs_manager ::
  "(size_t \<Rightarrow> unit option) \<Rightarrow> (size_t \<Rightarrow> session list option) \<Rightarrow> (nat \<Rightarrow> bool)
   \<Rightarrow> jobs_manager \<Rightarrow> size_t \<Rightarrow> size_t \<Rightarrow> schedalg \<Rightarrow> retval \<times> jobs_manager \<times> bool"
where
  "init_jobs_manager malloc_threads malloc_queue create jm max_accepted threads_num alg =
     (let jm1 = jm\<lparr>schedalg_of := alg, max_accepted_count := max_accepted,
                   waiting_count := 0, running_count := 0\<rparr> in
      if malloc_threads (8 * threads_num) = None then (MEMORY_ERROR, jm1, False)
      else
        let (r, queue) = init_cyclic_queue malloc_queue (waiting_jobs jm1) max_accepted;
            jm2 = jm1\<lparr>waiting_jobs := queue\<rparr> in
        if r \<noteq> SUCCESS then (r, jm2, False)
        else if list_all create [0..<unat threads_num] then (SUCCESS, jm2, False)
        else (SUCCESS, jm2, True))"

section \<open>Invariant\<close>

definition jobs :: "jobs_manager \<Rightarrow> session list" where
  "jobs jm = qlist (waiting_jobs jm)"

definition jm_inv :: "jobs_manager \<Rightarrow> bool" where
  "jm_inv jm \<longleftrightarrow> qinv (waiting_jobs jm)
     \<and> qcap (waiting_jobs jm) = unat (max_accepted_count jm)
     \<and> length (jobs jm) = unat (waiting_count jm)
     \<and> unat (waiting_count jm) + unat (running_count jm) \<le> unat (max_accepted_count jm)"

definition jm_full :: "jobs_manager \<Rightarrow> bool" where
  "jm_full jm \<longleftrightarrow> unat (waiting_count jm) + unat (running_count jm) = unat (max_accepted_count jm)"

lemma jm_inv_bounds:
  assumes "jm_inv jm"
  shows "0 < unat (max_accepted_count jm)" "unat (max_accepted_count jm) < 9223372036854775808"
    "unat (waiting_count jm) < 9223372036854775808" "unat (running_count jm) < 9223372036854775808"
  using assms by (auto simp: jm_inv_def qinv_def)

lemma jm_full_iff:
  assumes "jm_inv jm"
  shows "waiting_count jm + running_count jm = max_accepted_count jm \<longleftrightarrow> jm_full jm"
  using jm_inv_bounds [OF assms] by (simp add: eq_iff_unat_64 unat_plus_64 jm_full_def)

lemma jobs_Nil_iff: "jm_inv jm \<Longrightarrow> jobs jm = [] \<longleftrightarrow> waiting_count jm = 0"
  by (metis jm_inv_def length_0_conv unat_eq_zero)

section \<open>Behaviour of the operations\<close>

lemma enqueue_request_spec:
  assumes "jm_inv jm" "\<not> jm_full jm"
  shows "\<exists>jm'. enqueue_request jm s closed = Inr (Returns jm' closed True) \<and> jm_inv jm'
     \<and> jobs jm' = jobs jm @ [s] \<and> running_count jm' = running_count jm
     \<and> max_accepted_count jm' = max_accepted_count jm \<and> schedalg_of jm' = schedalg_of jm"
proof -
  have lt: "unat (waiting_count jm) + unat (running_count jm) < unat (max_accepted_count jm)"
    using assms by (auto simp: jm_inv_def jm_full_def)
  then have "length (qlist (waiting_jobs jm)) < qcap (waiting_jobs jm)"
    using assms(1) by (simp add: jm_inv_def jobs_def)
  moreover have "qinv (waiting_jobs jm)" using assms(1) by (simp add: jm_inv_def)
  ultimately obtain q where q: "add_queue_element (waiting_jobs jm) s = Inr (SUCCESS, q)" "qinv q"
    "qcap q = qcap (waiting_jobs jm)" "qlist q = qlist (waiting_jobs jm) @ [s]"
    using cq.add_room by blast
  then show ?thesis
    using assms(1) lt jm_inv_bounds [OF assms(1)]
    by (simp add: enqueue_request_def jm_inv_def jobs_def unat_Suc_64)
qed

lemma random_drop_loop_spec:
  assumes "qinv q" "k \<le> length (qlist q)"
  shows "\<exists>q' closed ys zs. random_drop_loop rand k i q temp = Inr (q', closed) \<and> qinv q'
     \<and> qcap q' = qcap q \<and> qlist q = ys @ qlist q' @ zs \<and> length ys + length zs = k
     \<and> mset closed = mset (map connection_fd (ys @ zs))"
  using assms
proof (induction k arbitrary: i q temp)
  case 0
  then show ?case by (intro exI [of _ q] exI [of _ "[]"]) simp
next
  case (Suc k)
  let ?t = "if rand i mod 2 = 0 then HEAD else TAIL"
  from Suc.prems obtain q1 x where q1: "remove_queue_element q (Some temp) ?t = Inr (SUCCESS, Some x, q1)"
    "qinv q1" "qcap q1 = qcap q"
    "?t = HEAD \<and> qlist q = x # qlist q1 \<or> ?t = TAIL \<and> qlist q = qlist q1 @ [x]"
    using cq.remove_either [of q temp ?t] by fastforce
  then have "k \<le> length (qlist q1)" using Suc.prems(2) by auto
  from Suc.IH [OF q1(2) this, of "Suc i" x] obtain q2 closed ys zs where
    q2: "random_drop_loop rand k (Suc i) q1 x = Inr (q2, closed)" "qinv q2" "qcap q2 = qcap q1"
      "qlist q1 = ys @ qlist q2 @ zs" "length ys + length zs = k"
      "mset closed = mset (map connection_fd (ys @ zs))" by blast
  have "random_drop_loop rand (Suc k) i q temp = Inr (q2, connection_fd x # closed)"
    using q1(1) q2(1) by (simp add: out_param_def)
  moreover have "\<exists>ys zs. qlist q = ys @ qlist q2 @ zs \<and> length ys + length zs = Suc k
      \<and> mset (connection_fd x # closed) = mset (map connection_fd (ys @ zs))"
    using q1(4)
  proof
    assume "?t = HEAD \<and> qlist q = x # qlist q1"
    with q2 show ?thesis by (intro exI [of _ "x # ys"] exI [of _ zs]) simp
  next
    assume "?t = TAIL \<and> qlist q = qlist q1 @ [x]"
    with q2 show ?thesis by (intro exI [of _ ys] exI [of _ "zs @ [x]"]) simp
  qed
  ultimately show ?case using q1(3) q2(2,3) by auto
qed


text \<open>
  What each overload policy does to the jobs \<open>js\<close> when \<open>s\<close> arrives: \<open>js'\<close> is the queue
  afterwards and \<open>closed\<close> the descriptors closed. \<open>DROP_RANDOM\<close> drops the rounded-up half of the
  waiting jobs from the two ends and keeps a middle part in order.
\<close>

definition policy_result ::
  "schedalg \<Rightarrow> bool \<Rightarrow> session list \<Rightarrow> session \<Rightarrow> session list \<Rightarrow> c_int list \<Rightarrow> bool \<Rightarrow> bool"
where
  "policy_result alg full js s js' closed sig \<longleftrightarrow>
     (if \<not> full then js' = js @ [s] \<and> closed = [] \<and> sig
      else if js = [] \<or> alg = DROP_TAIL then js' = js \<and> closed = [connection_fd s] \<and> \<not> sig
      else if alg = DROP_HEAD then js' = tl js @ [s] \<and> closed = [connection_fd (hd js)] \<and> sig
      else sig \<and> (\<exists>ys kept zs. js = ys @ kept @ zs \<and> js' = kept @ [s]
             \<and> length kept = length js div 2
             \<and> mset closed = mset (map connection_fd (ys @ zs))))"

lemma half_up_64:
  fixes n :: size_t
  defines "r \<equiv> (if n mod 2 = 0 then n div 2 else n div 2 + 1)"
  shows "unat r = unat n - unat n div 2" "unat (n - r) = unat n div 2"
proof -
  have d: "unat (n div 2) = unat n div 2" "unat (n mod 2) = unat n mod 2"
    by (simp_all add: unat_div unat_mod)
  then have m: "n mod 2 = 0 \<longleftrightarrow> unat n mod 2 = 0" by (simp add: eq_iff_unat_64)
  have small: "unat n div 2 < 9223372036854775808" using unat_bound64 [of n] by linarith
  have "unat (n div 2 + 1) = unat n div 2 + 1"
    using d(1) small by (subst unat_plus_64) auto
  with d m show r: "unat r = unat n - unat n div 2"
    by (auto simp: r_def) presburger+
  then show "unat (n - r) = unat n div 2" by (simp add: unat_minus_64)
qed

lemma random_drop_connections_spec:
  assumes "qinv q" "length (qlist q) = unat n"
  shows "\<exists>q' n' closed ys zs. random_drop_connections rand temp q n = Inr (q', n', closed)
     \<and> qinv q' \<and> qcap q' = qcap q \<and> qlist q = ys @ qlist q' @ zs
     \<and> length (qlist q') = unat n' \<and> unat n' = unat n div 2
     \<and> mset closed = mset (map connection_fd (ys @ zs))"
proof -
  define r where "r = (if n mod 2 = 0 then n div 2 else n div 2 + 1)"
  note half = half_up_64 [of n, folded r_def]
  have "unat r \<le> length (qlist q)" using half(1) assms(2) by simp
  from random_drop_loop_spec [OF assms(1) this, of rand 0 temp] obtain q' closed ys zs where
    q': "random_drop_loop rand (unat r) 0 q temp = Inr (q', closed)" "qinv q'" "qcap q' = qcap q"
      "qlist q = ys @ qlist q' @ zs" "length ys + length zs = unat r"
      "mset closed = mset (map connection_fd (ys @ zs))" by blast
  have "random_drop_connections rand temp q n = Inr (q', n - r, closed)"
    using q'(1) by (simp add: random_drop_connections_def Let_def r_def)
  moreover have "length (qlist q') = unat (n - r)" using q'(4,5) assms(2) half by simp
  ultimately show ?thesis using q' half(2) by blast
qed

lemma add_request_waits:
  assumes "jm_inv jm" "schedalg_of jm = BLOCK" "jm_full jm"
  shows "add_request rand g jm s = Inr Waits"
  using assms by (simp add: add_request_def jm_full_iff)

text \<open>A manager whose queue was shortened by \<open>remove_queue_element\<close> or the random drop.\<close>

lemma jm_inv_shorter:
  assumes "jm_inv jm" "qinv q" "qcap q = qcap (waiting_jobs jm)" "length (qlist q) = unat n"
    "unat n < unat (waiting_count jm)"
  shows "jm_inv (jm\<lparr>waiting_jobs := q, waiting_count := n\<rparr>)"
    "\<not> jm_full (jm\<lparr>waiting_jobs := q, waiting_count := n\<rparr>)"
  using assms by (auto simp: jm_inv_def jm_full_def jobs_def)

lemma waiting_facts:
  assumes "jm_inv jm" "jobs jm \<noteq> []"
  shows "qinv (waiting_jobs jm)" "waiting_count jm \<noteq> 0" "0 < unat (waiting_count jm)"
    "length (qlist (waiting_jobs jm)) = unat (waiting_count jm)"
  using assms jobs_Nil_iff [OF assms(1)] by (auto simp: jm_inv_def jobs_def unat_gt_0)

lemma add_request_drop_head:
  assumes inv: "jm_inv jm" and full: "jm_full jm" "jobs jm \<noteq> []" and alg: "schedalg_of jm = DROP_HEAD"
  shows "\<exists>jm' closed sig. add_request rand g jm s = Inr (Returns jm' closed sig) \<and> jm_inv jm'
     \<and> running_count jm' = running_count jm \<and> max_accepted_count jm' = max_accepted_count jm
     \<and> schedalg_of jm' = schedalg_of jm
     \<and> policy_result (schedalg_of jm) (jm_full jm) (jobs jm) s (jobs jm') closed sig"
proof -
  let ?q = "waiting_jobs jm"
  note W = waiting_facts [OF inv full(2)]
  from full(2) obtain x xs where js: "qlist ?q = x # xs" by (cases "jobs jm") (auto simp: jobs_def)
  from cq.remove_head [OF W(1) js, of g] obtain q' where q': "remove_queue_element ?q (Some g) HEAD
    = Inr (SUCCESS, Some x, q')" "qinv q'" "qcap q' = qcap ?q" "qlist q' = xs" by blast
  let ?jm = "jm\<lparr>waiting_jobs := q', waiting_count := waiting_count jm - 1\<rparr>"
  have "unat (waiting_count jm - 1) = unat (waiting_count jm) - 1" using W(2) by (rule unat_minus_one)
  with jm_inv_shorter [OF inv q'(2,3), of "waiting_count jm - 1"] W(3,4) js q'(4)
  have inv': "jm_inv ?jm" "\<not> jm_full ?jm" by auto
  from enqueue_request_spec [OF inv', of s "[connection_fd x]"] alg full W(2) q' js inv
  show ?thesis
    by (auto simp: add_request_def jm_full_iff policy_result_def jobs_def out_param_def)
qed

lemma add_request_drop_random:
  assumes inv: "jm_inv jm" and full: "jm_full jm" "jobs jm \<noteq> []" and alg: "schedalg_of jm = DROP_RANDOM"
  shows "\<exists>jm' closed sig. add_request rand g jm s = Inr (Returns jm' closed sig) \<and> jm_inv jm'
     \<and> running_count jm' = running_count jm \<and> max_accepted_count jm' = max_accepted_count jm
     \<and> schedalg_of jm' = schedalg_of jm
     \<and> policy_result (schedalg_of jm) (jm_full jm) (jobs jm) s (jobs jm') closed sig"
proof -
  let ?q = "waiting_jobs jm"
  note W = waiting_facts [OF inv full(2)]
  from random_drop_connections_spec [OF W(1,4), of rand g] obtain q' n' closed ys zs where
    q': "random_drop_connections rand g ?q (waiting_count jm) = Inr (q', n', closed)"
      "qinv q'" "qcap q' = qcap ?q" "qlist ?q = ys @ qlist q' @ zs" "length (qlist q') = unat n'"
      "unat n' = unat (waiting_count jm) div 2" "mset closed = mset (map connection_fd (ys @ zs))"
    by blast
  let ?jm = "jm\<lparr>waiting_jobs := q', waiting_count := n'\<rparr>"
  from jm_inv_shorter [OF inv q'(2,3,5)] q'(6) W(3)
  have inv': "jm_inv ?jm" "\<not> jm_full ?jm" by auto
  from enqueue_request_spec [OF inv', of s closed] obtain jm' where
    jm': "enqueue_request ?jm s closed = Inr (Returns jm' closed True)" "jm_inv jm'"
      "jobs jm' = qlist q' @ [s]" "running_count jm' = running_count jm"
      "max_accepted_count jm' = max_accepted_count jm" "schedalg_of jm' = schedalg_of jm"
    by (auto simp: jobs_def)
  have "policy_result DROP_RANDOM True (jobs jm) s (jobs jm') closed True"
    using q' jm'(3) full(2) W(4) unfolding policy_result_def jobs_def by auto
  then show ?thesis using alg full W(2) q'(1) jm' inv
    by (auto simp: add_request_def jm_full_iff)
qed

lemma add_request_returns:
  assumes "jm_inv jm" "\<not> (schedalg_of jm = BLOCK \<and> jm_full jm)"
  shows "\<exists>jm' closed sig. add_request rand g jm s = Inr (Returns jm' closed sig) \<and> jm_inv jm'
     \<and> running_count jm' = running_count jm \<and> max_accepted_count jm' = max_accepted_count jm
     \<and> schedalg_of jm' = schedalg_of jm
     \<and> policy_result (schedalg_of jm) (jm_full jm) (jobs jm) s (jobs jm') closed sig"
proof (cases "jm_full jm")
  case False
  with assms(1) enqueue_request_spec [OF assms(1) False, of s "[]"] show ?thesis
    by (auto simp: add_request_def jm_full_iff policy_result_def)
next
  case True
  show ?thesis
  proof (cases "jobs jm = [] \<or> schedalg_of jm = DROP_TAIL")
    case True': True
    with assms \<open>jm_full jm\<close> show ?thesis
      by (auto simp: add_request_def jm_full_iff policy_result_def jobs_Nil_iff split: schedalg.splits)
  next
    case False
    then have "schedalg_of jm = DROP_HEAD \<or> schedalg_of jm = DROP_RANDOM"
      using assms(2) True by (cases "schedalg_of jm") auto
    then show ?thesis
      using add_request_drop_head [OF assms(1) True] add_request_drop_random [OF assms(1) True] False by blast
  qed
qed

lemma get_request_empty: "jm_inv jm \<Longrightarrow> jobs jm = [] \<Longrightarrow> get_request jm g = Inr None"
  by (simp add: get_request_def jobs_Nil_iff)

lemma get_request_takes:
  assumes "jm_inv jm" "jobs jm = x # xs"
  shows "\<exists>jm'. get_request jm g = Inr (Some (jm', x)) \<and> jm_inv jm' \<and> jobs jm' = xs
     \<and> unat (running_count jm') = Suc (unat (running_count jm))
     \<and> Suc (unat (waiting_count jm')) = unat (waiting_count jm)
     \<and> max_accepted_count jm' = max_accepted_count jm \<and> schedalg_of jm' = schedalg_of jm"
proof -
  have q: "qinv (waiting_jobs jm)" "qlist (waiting_jobs jm) = x # xs"
    using assms by (auto simp: jm_inv_def jobs_def)
  from cq.remove_head [OF q, of g] obtain q' where
    q': "remove_queue_element (waiting_jobs jm) (Some g) HEAD = Inr (SUCCESS, Some x, q')" "qinv q'"
      "qcap q' = qcap (waiting_jobs jm)" "qlist q' = xs" by blast
  have w: "waiting_count jm \<noteq> 0" using assms jobs_Nil_iff [OF assms(1)] by auto
  then have "unat (waiting_count jm - 1) = unat (waiting_count jm) - 1" "0 < unat (waiting_count jm)"
    by (simp_all add: unat_minus_one unat_gt_0)
  moreover have "unat (running_count jm + 1) = Suc (unat (running_count jm))"
    using jm_inv_bounds(4) [OF assms(1)] by (rule unat_Suc_64)
  ultimately show ?thesis
    using q' w assms by (auto simp: get_request_def out_param_def jm_inv_def jobs_def)
qed

lemma notify_request_finished_spec:
  assumes "jm_inv jm" "0 < unat (running_count jm)"
  shows "jm_inv (notify_request_finished jm)" "jobs (notify_request_finished jm) = jobs jm"
    "Suc (unat (running_count (notify_request_finished jm))) = unat (running_count jm)"
proof -
  have "unat (running_count jm - 1) = unat (running_count jm) - 1"
    using assms(2) by (intro unat_minus_one) auto
  with assms show "jm_inv (notify_request_finished jm)" "jobs (notify_request_finished jm) = jobs jm"
    "Suc (unat (running_count (notify_request_finished jm))) = unat (running_count jm)"
    by (auto simp: notify_request_finished_def jm_inv_def jobs_def)
qed

lemma init_jobs_manager_inv:
  assumes "malloc_threads (8 * t) \<noteq> None" "malloc_queue (24 * n) = Some block" "length block = unat n"
    "0 < unat n" "unat n < 9223372036854775808" "list_all create [0..<unat t]"
  shows "\<exists>jm'. init_jobs_manager malloc_threads malloc_queue create jm n t alg = (SUCCESS, jm', False)
     \<and> jm_inv jm' \<and> jobs jm' = [] \<and> waiting_count jm' = 0 \<and> running_count jm' = 0
     \<and> max_accepted_count jm' = n \<and> schedalg_of jm' = alg"
proof -
  let ?jm = "jm\<lparr>schedalg_of := alg, max_accepted_count := n, waiting_count := 0, running_count := 0\<rparr>"
  from init_cyclic_queue_inv [of malloc_queue n block "waiting_jobs ?jm"] assms obtain q where
    q: "init_cyclic_queue malloc_queue (waiting_jobs ?jm) n = (SUCCESS, q)" "qinv q" "qlist q = []"
      "qcap q = unat n" by blast
  then show ?thesis
    using assms by (auto simp: init_jobs_manager_def jm_inv_def jobs_def Let_def)
qed


lemma init_jobs_manager_SUCCESS:
  assumes "init_jobs_manager mt mq create jm n t alg = (SUCCESS, m, False)"
  shows "mt (8 * t) \<noteq> None" "\<exists>block. mq (24 * n) = Some block" "list_all create [0..<unat t]"
  using assms
  by (auto simp: init_jobs_manager_def init_cyclic_queue_def Let_def split: if_splits prod.splits option.splits)


section \<open>Property\<close>

text \<open>
  The contract of the policies, which leaves open which half of the waiting requests \<open>random\<close> drops and in which order it
  leaves the others. The comment above \<open>random_drop_connections\<close> announces a shuffle of all of them, the code takes
  requests from the two ends (\<open>policy_result\<close>); both keep to the contract.
\<close>

definition overload_result ::
  "schedalg \<Rightarrow> bool \<Rightarrow> session list \<Rightarrow> session \<Rightarrow> session list \<Rightarrow> c_int list \<Rightarrow> bool \<Rightarrow> bool"
where
  "overload_result alg full js s js' closed sig \<longleftrightarrow>
     (if \<not> full then js' = js @ [s] \<and> closed = [] \<and> sig
      else if js = [] \<or> alg = DROP_TAIL then js' = js \<and> closed = [connection_fd s] \<and> \<not> sig
      else if alg = DROP_HEAD then js' = tl js @ [s] \<and> closed = [connection_fd (hd js)] \<and> sig
      else sig \<and> (\<exists>kept dropped. js' = kept @ [s] \<and> mset kept + mset dropped = mset js
             \<and> length kept = length js div 2 \<and> mset closed = mset (map connection_fd dropped)))"

lemma policy_result_contract: "policy_result alg full js s js' closed sig \<Longrightarrow> overload_result alg full js s js' closed sig"
proof -
  assume p: "policy_result alg full js s js' closed sig"
  have "\<exists>kept' dropped. kept = kept' \<and> mset kept' + mset dropped = mset (ys @ kept @ zs) \<and> mset (map connection_fd (ys @ zs)) = mset (map connection_fd dropped)"
    for ys kept zs :: "session list" by (intro exI [of _ kept] exI [of _ "ys @ zs"]) simp
  then show ?thesis using p unfolding policy_result_def overload_result_def by (metis (no_types, lifting))
qed

text \<open>
  C35. \<open>add_request\<close> follows the overload policy: below the limit it queues the request and
  signals a worker; at the limit \<open>block\<close> sleeps, \<open>dt\<close> (and every dropping policy with nothing
  waiting) closes the new connection, \<open>dh\<close> closes the oldest waiting one and queues the new,
  \<open>random\<close> closes a rounded-up half of the waiting ones, keeps the others and queues the new.
  Which half is not said. The manager stays well formed and no other field changes.
\<close>

theorem add_request_follows_policy:
  assumes "jm_inv jm"
  shows "if schedalg_of jm = BLOCK \<and> jm_full jm then add_request rand g jm s = Inr Waits
         else \<exists>jm' closed sig. add_request rand g jm s = Inr (Returns jm' closed sig) \<and> jm_inv jm'
            \<and> running_count jm' = running_count jm \<and> max_accepted_count jm' = max_accepted_count jm
            \<and> schedalg_of jm' = schedalg_of jm
            \<and> overload_result (schedalg_of jm) (jm_full jm) (jobs jm) s (jobs jm') closed sig"
  using add_request_waits [OF assms, of rand g s] add_request_returns [OF assms, of rand g s] policy_result_contract by fastforce

definition demo_full :: jobs_manager where
  "demo_full = \<lparr>schedalg_of = DROP_RANDOM, max_accepted_count = 2, waiting_count = 1,
     running_count = 1, waiting_jobs = demo_queue\<rparr>"

lemma demo_full_facts: "jm_inv demo_full" "jm_full demo_full" "jobs demo_full = [demo_s5]"
    "schedalg_of demo_full = DROP_RANDOM"
  by (simp_all add: demo_full_def jm_inv_def jm_full_def jobs_def demo_queue_facts)

theorem add_request_follows_policy_witness:
  "\<exists>jm' closed. add_request (\<lambda>_. 3) demo_s4 demo_full demo_s4 = Inr (Returns jm' closed True)
     \<and> jobs jm' = [demo_s4] \<and> mset closed = {#connection_fd demo_s5#}"
  using add_request_follows_policy [OF demo_full_facts(1), of "\<lambda>_. 3" demo_s4 demo_s4]
  by (auto simp: demo_full_facts overload_result_def)

end
