(* ===== verification/Server_Threads.thy ===== *)
theory Server_Threads
  imports Jobs_Manager "HOL-Library.Sublist"
begin

text \<open>
  The threads of \<open>hw3/wet/209509181-313511602/server.c\<close> as a step relation: the main thread,
  which accepts connections and calls \<open>add_request\<close>, and \<open>N\<close> workers that run
  \<open>request_handle_thread\<close>. A step is what one thread does while it holds the mutex (one
  body of \<open>Jobs_Manager\<close>), or one action outside it. \<open>pthread_cond_wait\<close> releases the
  mutex and sleeps; \<open>pthread_cond_signal\<close> wakes one sleeping thread when there is one; a
  sleeping thread may also wake spuriously, as POSIX allows. Which thread steps next, the
  values of \<open>rand()\<close> and the contents of uninitialised locals are not determined. The step
  \<open>handled\<close> is the return of \<open>requestHandle\<close> and of the \<open>Close\<close> after it. A worker need not ever take it:
  \<open>requestHandle\<close> may run for ever, and a failing call ends the process, which takes no step any
  more. So what is shown of the reachable states holds in these cases too, and what is shown to
  happen in the end is stated over \<open>live_step\<close> of \<open>Server_Answers\<close>, where the step needs a
  \<open>requestHandle\<close> that returns.
\<close>

section \<open>State and steps\<close>

datatype master_pc =
    MAccept            \<comment> \<open>in \<open>Accept\<close>\<close>
  | MAdd session       \<comment> \<open>about to test the condition of \<open>add_request\<close>\<close>
  | MWait session      \<comment> \<open>asleep on \<open>produce\<close>\<close>

datatype worker_pc =
    WTest              \<comment> \<open>about to test the condition of \<open>get_request\<close>\<close>
  | WSleep             \<comment> \<open>asleep on \<open>consume\<close>\<close>
  | WRun session       \<comment> \<open>in \<open>requestHandle\<close>\<close>
  | WNotify            \<comment> \<open>about to call \<open>notify_request_finished\<close>\<close>

record server =
  jm :: jobs_manager
  master :: master_pc
  workers :: "nat \<Rightarrow> worker_pc"
  accepted :: "session list"
  started :: "session list"
  closed :: "c_int list"

fun wake_master :: "master_pc \<Rightarrow> master_pc" where
  "wake_master (MWait c) = MAdd c"
| "wake_master m = m"

datatype actor = Main | Worker nat | Spurious

inductive server_step :: "nat \<Rightarrow> actor \<Rightarrow> server \<Rightarrow> server \<Rightarrow> bool" for N where
  accept: "master s = MAccept \<Longrightarrow>
    server_step N Main s (s\<lparr>master := MAdd c, accepted := accepted s @ [c]\<rparr>)"
| add_waits: "master s = MAdd c \<Longrightarrow> add_request rand g (jm s) c = Inr Waits \<Longrightarrow>
    server_step N Main s (s\<lparr>master := MWait c\<rparr>)"
| add_drops: "master s = MAdd c \<Longrightarrow> add_request rand g (jm s) c = Inr (Returns m cl False) \<Longrightarrow>
    server_step N Main s (s\<lparr>master := MAccept, jm := m, closed := closed s @ cl\<rparr>)"
| add_signals: "master s = MAdd c \<Longrightarrow> add_request rand g (jm s) c = Inr (Returns m cl True) \<Longrightarrow>
    w < N \<Longrightarrow> workers s w = WSleep \<Longrightarrow>
    server_step N Main s (s\<lparr>master := MAccept, jm := m, closed := closed s @ cl,
      workers := (workers s)(w := WTest)\<rparr>)"
| add_signals_nobody: "master s = MAdd c \<Longrightarrow> add_request rand g (jm s) c = Inr (Returns m cl True) \<Longrightarrow>
    \<forall>w<N. workers s w \<noteq> WSleep \<Longrightarrow>
    server_step N Main s (s\<lparr>master := MAccept, jm := m, closed := closed s @ cl\<rparr>)"
| get_sleeps: "w < N \<Longrightarrow> workers s w = WTest \<Longrightarrow> get_request (jm s) g = Inr None \<Longrightarrow>
    server_step N (Worker w) s (s\<lparr>workers := (workers s)(w := WSleep)\<rparr>)"
| get_takes: "w < N \<Longrightarrow> workers s w = WTest \<Longrightarrow> get_request (jm s) g = Inr (Some (m, c)) \<Longrightarrow>
    server_step N (Worker w) s
      (s\<lparr>jm := m, workers := (workers s)(w := WRun c), started := started s @ [c]\<rparr>)"
| handled: "w < N \<Longrightarrow> workers s w = WRun c \<Longrightarrow>
    server_step N (Worker w) s
      (s\<lparr>workers := (workers s)(w := WNotify), closed := closed s @ [connection_fd c]\<rparr>)"
| notifies: "w < N \<Longrightarrow> workers s w = WNotify \<Longrightarrow>
    server_step N (Worker w) s
      (s\<lparr>jm := notify_request_finished (jm s), workers := (workers s)(w := WTest),
         master := wake_master (master s)\<rparr>)"
| spurious_worker: "w < N \<Longrightarrow> workers s w = WSleep \<Longrightarrow>
    server_step N Spurious s (s\<lparr>workers := (workers s)(w := WTest)\<rparr>)"
| spurious_master: "master s = MWait c \<Longrightarrow> server_step N Spurious s (s\<lparr>master := MAdd c\<rparr>)"

text \<open>The server starts after \<open>init_jobs_manager\<close> has succeeded.\<close>

definition server_init :: "nat \<Rightarrow> jobs_manager \<Rightarrow> server" where
  "server_init N m = \<lparr>jm = m, master = MAccept, workers = (\<lambda>_. WTest),
     accepted = [], started = [], closed = []\<rparr>"

inductive server_reachable :: "nat \<Rightarrow> jobs_manager \<Rightarrow> server \<Rightarrow> bool" for N m where
  start: "server_reachable N m (server_init N m)"
| step: "server_reachable N m s \<Longrightarrow> server_step N a s s' \<Longrightarrow> server_reachable N m s'"

definition initial_manager :: "jobs_manager \<Rightarrow> bool" where
  "initial_manager m \<longleftrightarrow> jm_inv m \<and> jobs m = [] \<and> waiting_count m = 0 \<and> running_count m = 0"

section \<open>Invariant\<close>

fun busy :: "worker_pc \<Rightarrow> nat" where
  "busy (WRun c) = 1" | "busy WNotify = 1" | "busy WTest = 0" | "busy WSleep = 0"

fun testing :: "worker_pc \<Rightarrow> nat" where
  "testing WTest = 1" | "testing WSleep = 0" | "testing (WRun c) = 0" | "testing WNotify = 0"

fun held :: "worker_pc \<Rightarrow> c_int multiset" where
  "held (WRun c) = {#connection_fd c#}" | "held WNotify = {#}" | "held WTest = {#}" | "held WSleep = {#}"

fun in_hand :: "master_pc \<Rightarrow> session list" where
  "in_hand MAccept = []" | "in_hand (MAdd c) = [c]" | "in_hand (MWait c) = [c]"

definition wtotal :: "nat \<Rightarrow> (worker_pc \<Rightarrow> 'a :: comm_monoid_add) \<Rightarrow> server \<Rightarrow> 'a" where
  "wtotal N f s = (\<Sum>w<N. f (workers s w))"

definition counts_inv :: "nat \<Rightarrow> server \<Rightarrow> bool" where
  "counts_inv N s \<longleftrightarrow> jm_inv (jm s) \<and> unat (running_count (jm s)) = wtotal N busy s"

definition wakeup_inv :: "nat \<Rightarrow> server \<Rightarrow> bool" where
  "wakeup_inv N s \<longleftrightarrow> (\<forall>c. master s = MWait c \<longrightarrow> jm_full (jm s))
     \<and> ((\<exists>w<N. workers s w = WSleep) \<longrightarrow> length (jobs (jm s)) \<le> wtotal N testing s)"

definition closed_inv :: "nat \<Rightarrow> server \<Rightarrow> bool" where
  "closed_inv N s \<longleftrightarrow> mset (map connection_fd (accepted s)) =
     mset (closed s) + mset (map connection_fd (jobs (jm s))) + wtotal N held s
     + mset (map connection_fd (in_hand (master s)))"

definition order_inv :: "server \<Rightarrow> bool" where
  "order_inv s \<longleftrightarrow> (\<exists>earlier. accepted s = earlier @ in_hand (master s)
     \<and> subseq (started s @ jobs (jm s)) earlier)"

definition server_inv :: "nat \<Rightarrow> server \<Rightarrow> bool" where
  "server_inv N s \<longleftrightarrow> counts_inv N s \<and> wakeup_inv N s \<and> closed_inv N s \<and> order_inv s"

lemmas server_invs = server_inv_def counts_inv_def wakeup_inv_def closed_inv_def order_inv_def

text \<open>One worker changing state changes a total by that worker's contribution.\<close>

lemma sum_upd:
  fixes f :: "worker_pc \<Rightarrow> 'a :: comm_monoid_add"
  assumes "w < (N :: nat)"
  shows "(\<Sum>i<N. f ((g(w := x)) i)) + f (g w) = (\<Sum>i<N. f (g i)) + f x"
proof -
  have "(\<Sum>i<N. f ((g(w := x)) i)) = f x + (\<Sum>i \<in> {..<N} - {w}. f (g i))"
    using assms by (subst sum.remove [of _ w]) (auto intro!: sum.cong)
  moreover have "(\<Sum>i<N. f (g i)) = f (g w) + (\<Sum>i \<in> {..<N} - {w}. f (g i))"
    using assms by (subst sum.remove [of _ w]) auto
  ultimately show ?thesis by (simp add: ac_simps)
qed

lemma wtotal_upd:
  assumes "w < N" "workers s' = (workers s)(w := x)"
  shows "wtotal N f s' + f (workers s w) = wtotal N f s + f x"
  using sum_upd [OF assms(1), of f "workers s" x] assms(2) by (simp add: wtotal_def)

lemma wtotal_same: "workers s' = workers s \<Longrightarrow> wtotal N f s' = wtotal N f s"
  by (simp add: wtotal_def)

lemma wtotal_0_iff: "wtotal N f s = (0 :: nat) \<longleftrightarrow> (\<forall>w<N. f (workers s w) = 0)"
  by (auto simp: wtotal_def)


text \<open>The bodies under the mutex, read backwards from their results.\<close>

lemma add_request_ReturnsD:
  assumes "jm_inv j" "add_request rand g j c = Inr (Returns m cl sig)"
  shows "jm_inv m" "running_count m = running_count j" "max_accepted_count m = max_accepted_count j"
    "schedalg_of m = schedalg_of j"
    "policy_result (schedalg_of j) (jm_full j) (jobs j) c (jobs m) cl sig"
    "\<not> (schedalg_of j = BLOCK \<and> jm_full j)"
proof -
  show nb: "\<not> (schedalg_of j = BLOCK \<and> jm_full j)"
    using add_request_waits [OF assms(1)] assms(2) by auto
  from add_request_returns [OF assms(1) nb, of rand g c] assms(2)
  show "jm_inv m" "running_count m = running_count j" "max_accepted_count m = max_accepted_count j"
    "schedalg_of m = schedalg_of j"
    "policy_result (schedalg_of j) (jm_full j) (jobs j) c (jobs m) cl sig" by auto
qed

lemma add_request_WaitsD:
  assumes "jm_inv j" "add_request rand g j c = Inr Waits"
  shows "jm_full j" "schedalg_of j = BLOCK"
  using add_request_returns [OF assms(1), of rand g c] assms(2) by auto

lemma get_request_SomeD:
  assumes "jm_inv j" "get_request j g = Inr (Some (m, c))"
  shows "jobs j = c # jobs m" "jm_inv m" "unat (running_count m) = Suc (unat (running_count j))"
    "Suc (unat (waiting_count m)) = unat (waiting_count j)"
    "max_accepted_count m = max_accepted_count j" "schedalg_of m = schedalg_of j"
proof -
  obtain x xs where "jobs j = x # xs"
    using get_request_empty [OF assms(1), of g] assms(2) by (cases "jobs j") auto
  with get_request_takes [OF assms(1), of x xs g] assms(2)
  show "jobs j = c # jobs m" "jm_inv m" "unat (running_count m) = Suc (unat (running_count j))"
    "Suc (unat (waiting_count m)) = unat (waiting_count j)"
    "max_accepted_count m = max_accepted_count j" "schedalg_of m = schedalg_of j" by auto
qed

lemma get_request_NoneD:
  assumes "jm_inv j" "get_request j g = Inr None"
  shows "jobs j = []"
  using get_request_takes [OF assms(1), of _ _ g] assms(2) by (cases "jobs j") auto

section \<open>Every step keeps the invariant\<close>

lemma busy_pos:
  assumes "w < N" "busy (workers s w) = 1"
  shows "0 < wtotal N busy s"
  using assms by (metis gr_zeroI one_neq_zero wtotal_0_iff)

lemma counts_inv_step:
  assumes "server_step N a s s'" "counts_inv N s"
  shows "counts_inv N s'"
  using assms
proof cases
  case (add_signals c rand g m cl w)
  have "wtotal N busy s' + busy (workers s w) = wtotal N busy s + busy WTest"
    using add_signals by (intro wtotal_upd) auto
  with add_signals assms(2) show ?thesis
    by (auto simp: counts_inv_def dest: add_request_ReturnsD(1,2))
next
  case (get_sleeps w g)
  have "wtotal N busy s' + busy (workers s w) = wtotal N busy s + busy WSleep"
    using get_sleeps by (intro wtotal_upd) auto
  with get_sleeps assms(2) show ?thesis by (simp add: counts_inv_def)
next
  case (get_takes w g m c)
  have "wtotal N busy s' + busy (workers s w) = wtotal N busy s + busy (WRun c)"
    using get_takes by (intro wtotal_upd) auto
  with get_takes assms(2) show ?thesis by (auto simp: counts_inv_def dest: get_request_SomeD(2,3))
next
  case (handled w c)
  have "wtotal N busy s' + busy (workers s w) = wtotal N busy s + busy WNotify"
    using handled by (intro wtotal_upd) auto
  with handled assms(2) show ?thesis by (simp add: counts_inv_def)
next
  case (notifies w)
  have "wtotal N busy s' + busy (workers s w) = wtotal N busy s + busy WTest"
    using notifies by (intro wtotal_upd) auto
  with notifies assms(2) busy_pos [of w N s] notify_request_finished_spec [of "jm s"]
  show ?thesis by (simp add: counts_inv_def)
next
  case (spurious_worker w)
  have "wtotal N busy s' + busy (workers s w) = wtotal N busy s + busy WTest"
    using spurious_worker by (intro wtotal_upd) auto
  with spurious_worker assms(2) show ?thesis by (simp add: counts_inv_def)
qed (auto simp: counts_inv_def wtotal_def dest: add_request_ReturnsD(1,2))

lemma policy_result_length:
  assumes "policy_result alg full js s js' cl sig"
  shows "length js' \<le> Suc (length js)"
proof -
  from assms consider "js' = js @ [s]" | "js' = js" | "js' = tl js @ [s]"
    | kept where "js' = kept @ [s]" "length kept = length js div 2"
    unfolding policy_result_def by (metis (full_types))
  then show ?thesis by cases auto
qed

lemma policy_result_quiet: "policy_result alg full js s js' cl False \<Longrightarrow> js' = js"
  unfolding policy_result_def by (simp split: if_splits)

lemma policy_result_refuses:
  assumes "policy_result alg full js s js' cl False"
  shows "cl = [connection_fd s]"
  using assms unfolding policy_result_def by (simp split: if_splits)

lemma policy_result_appends:
  assumes "policy_result alg full js s js' cl True"
  shows "\<exists>ks. js' = ks @ [s] \<and> subseq ks js"
proof -
  from assms consider "js' = js @ [s]" | "js' = tl js @ [s]" | ys kept zs where "js = ys @ kept @ zs" "js' = kept @ [s]"
    unfolding policy_result_def by (metis (full_types))
  then show ?thesis
  proof cases
    case 2
    have "subseq (tl js) js" by (cases js) auto
    then show ?thesis using 2 by blast
  next
    case 3
    then have "subseq kept js" by (simp add: list_emb_append2 subseq_rev_drop_many)
    then show ?thesis using 3(2) by blast
  qed auto
qed

lemma wakeup_inv_step:
  assumes "server_step N a s s'" "counts_inv N s" "wakeup_inv N s"
  shows "wakeup_inv N s'"
  using assms(1)
proof cases
  case (add_waits c rand g)
  with assms show ?thesis by (auto simp: wakeup_inv_def counts_inv_def wtotal_def add_request_WaitsD)
next
  case (add_drops c rand g m cl)
  then have "policy_result (schedalg_of (jm s)) (jm_full (jm s)) (jobs (jm s)) c (jobs m) cl False"
    using assms(2) by (intro add_request_ReturnsD(5)) (auto simp: counts_inv_def)
  then have "jobs m = jobs (jm s)" by (rule policy_result_quiet)
  with add_drops assms(3) show ?thesis by (auto simp: wakeup_inv_def wtotal_def)
next
  case (add_signals c rand g m cl w)
  then have "length (jobs m) \<le> Suc (length (jobs (jm s)))"
    using assms(2) by (intro policy_result_length [OF add_request_ReturnsD(5)]) (auto simp: counts_inv_def)
  moreover have "wtotal N testing s' + testing (workers s w) = wtotal N testing s + testing WTest"
    using add_signals by (intro wtotal_upd) auto
  moreover have "length (jobs (jm s)) \<le> wtotal N testing s"
    using add_signals assms(3) by (auto simp: wakeup_inv_def)
  ultimately show ?thesis using add_signals by (auto simp: wakeup_inv_def)
next
  case (get_sleeps w g)
  with assms(2) have "jobs (jm s) = []" by (auto simp: counts_inv_def intro: get_request_NoneD)
  with get_sleeps assms(3) show ?thesis by (auto simp: wakeup_inv_def)
next
  case (get_takes w g m c)
  have t: "wtotal N testing s' + testing (workers s w) = wtotal N testing s + testing (WRun c)"
    using get_takes by (intro wtotal_upd) auto
  have "jobs (jm s) = c # jobs m" "jm_full (jm s) = jm_full m"
    using get_request_SomeD [of "jm s" g m c] get_takes assms(2)
    by (auto simp: counts_inv_def jm_full_def)
  with t get_takes assms(3) show ?thesis by (auto simp: wakeup_inv_def split: if_splits)
next
  case (handled w c)
  have "wtotal N testing s' + testing (workers s w) = wtotal N testing s + testing WNotify"
    using handled by (intro wtotal_upd) auto
  with handled assms(3) show ?thesis by (auto simp: wakeup_inv_def split: if_splits)
next
  case (notifies w)
  have "wtotal N testing s' + testing (workers s w) = wtotal N testing s + testing WTest"
    using notifies by (intro wtotal_upd) auto
  moreover have "wake_master (master s) \<noteq> MWait c" for c by (cases "master s") auto
  ultimately show ?thesis using notifies assms(3)
    by (auto simp: wakeup_inv_def notify_request_finished_def jobs_def split: if_splits)
next
  case (spurious_worker w)
  have "wtotal N testing s' + testing (workers s w) = wtotal N testing s + testing WTest"
    using spurious_worker by (intro wtotal_upd) auto
  with spurious_worker assms(3) show ?thesis by (auto simp: wakeup_inv_def split: if_splits)
next
  case (accept c)
  with assms(3) show ?thesis by (simp add: wakeup_inv_def wtotal_def)
next
  case (add_signals_nobody c rand g m cl)
  then show ?thesis by (auto simp: wakeup_inv_def)
next
  case (spurious_master c)
  with assms(3) show ?thesis by (simp add: wakeup_inv_def wtotal_def)
qed


lemma policy_result_closed:
  assumes "policy_result alg full js s js' cl sig"
  shows "mset cl + mset (map connection_fd js') = add_mset (connection_fd s) (mset (map connection_fd js))"
proof -
  from assms consider "js' = js @ [s]" "cl = []" | "js' = js" "cl = [connection_fd s]"
    | "js \<noteq> []" "js' = tl js @ [s]" "cl = [connection_fd (hd js)]"
    | ys kept zs where "js = ys @ kept @ zs" "js' = kept @ [s]" "mset cl = mset (map connection_fd (ys @ zs))"
    unfolding policy_result_def by (metis (full_types))
  then show ?thesis
  proof cases
    case 3
    then show ?thesis by (cases js) auto
  qed auto
qed

lemma policy_result_subseq:
  assumes "policy_result alg full js s js' cl sig"
  shows "subseq js' (js @ [s])"
proof -
  from assms consider "js' = js @ [s]" | "js' = js" | "js' = tl js @ [s]"
    | ys kept zs where "js = ys @ kept @ zs" "js' = kept @ [s]"
    unfolding policy_result_def by (metis (full_types))
  then show ?thesis
  proof cases
    case 3
    have "subseq (tl js) js" by (cases js) auto
    with 3 show ?thesis by (simp only: subseq_append)
  next
    case 4
    then have "subseq kept js" by (simp add: list_emb_append2 subseq_rev_drop_many)
    with 4(2) show ?thesis by (simp only: subseq_append)
  qed auto
qed


lemma closed_inv_step:
  assumes "server_step N a s s'" "counts_inv N s" "closed_inv N s"
  shows "closed_inv N s'"
proof -
  have add: "mset cl + mset (map connection_fd (jobs m))
      = add_mset (connection_fd c) (mset (map connection_fd (jobs (jm s))))"
    if "add_request rand g (jm s) c = Inr (Returns m cl sig)" for rand g m cl c sig
    using that assms(2) by (intro policy_result_closed [OF add_request_ReturnsD(5)]) (auto simp: counts_inv_def)
  from assms(1) show ?thesis
  proof cases
    case (add_drops c rand g m cl)
    with assms(3) add [of rand g c m cl False] show ?thesis by (simp add: closed_inv_def wtotal_def ac_simps)
  next
    case (add_signals c rand g m cl w)
    have "wtotal N held s' + held (workers s w) = wtotal N held s + held WTest"
      using add_signals by (intro wtotal_upd) auto
    with add_signals assms(3) add [of rand g c m cl True] show ?thesis
      by (simp add: closed_inv_def ac_simps)
  next
    case (add_signals_nobody c rand g m cl)
    with assms(3) add [of rand g c m cl True] show ?thesis by (simp add: closed_inv_def wtotal_def ac_simps)
  next
    case (get_sleeps w g)
    have "wtotal N held s' + held (workers s w) = wtotal N held s + held WSleep"
      using get_sleeps by (intro wtotal_upd) auto
    with get_sleeps assms(3) show ?thesis by (simp add: closed_inv_def)
  next
    case (get_takes w g m c)
    have "wtotal N held s' + held (workers s w) = wtotal N held s + held (WRun c)"
      using get_takes by (intro wtotal_upd) auto
    moreover have "jobs (jm s) = c # jobs m"
      using get_takes assms(2) by (auto simp: counts_inv_def intro: get_request_SomeD)
    ultimately show ?thesis using get_takes assms(3) by (simp add: closed_inv_def)
  next
    case (handled w c)
    have "wtotal N held s' + held (workers s w) = wtotal N held s + held WNotify"
      using handled by (intro wtotal_upd) auto
    with handled assms(3) show ?thesis by (simp add: closed_inv_def ac_simps)
  next
    case (notifies w)
    have "wtotal N held s' + held (workers s w) = wtotal N held s + held WTest"
      using notifies by (intro wtotal_upd) auto
    moreover have "in_hand (wake_master (master s)) = in_hand (master s)" by (cases "master s") auto
    ultimately show ?thesis using notifies assms(3)
      by (simp add: closed_inv_def notify_request_finished_def jobs_def)
  next
    case (spurious_worker w)
    have "wtotal N held s' + held (workers s w) = wtotal N held s + held WTest"
      using spurious_worker by (intro wtotal_upd) auto
    with spurious_worker assms(3) show ?thesis by (simp add: closed_inv_def)
  qed (use assms(3) in \<open>simp_all add: closed_inv_def wtotal_def\<close>)
qed

lemma order_inv_step:
  assumes "server_step N a s s'" "counts_inv N s" "order_inv s"
  shows "order_inv s'"
proof -
  from assms(3) obtain earlier where e: "accepted s = earlier @ in_hand (master s)"
    "subseq (started s @ jobs (jm s)) earlier" by (auto simp: order_inv_def)
  have add: "subseq (started s @ jobs m) (earlier @ [c])"
    if "add_request rand g (jm s) c = Inr (Returns m cl sig)" for rand g m cl c sig
  proof -
    have "subseq (jobs m) (jobs (jm s) @ [c])"
      using that assms(2) by (intro policy_result_subseq [OF add_request_ReturnsD(5)]) (auto simp: counts_inv_def)
    then have "subseq (started s @ jobs m) ((started s @ jobs (jm s)) @ [c])"
      by (simp add: list_emb_append_mono)
    then show ?thesis using e(2) by (meson list_emb_append_mono subseq_order.order_trans subseq_order.refl)
  qed
  have wake: "in_hand (wake_master (master s)) = in_hand (master s)" by (cases "master s") auto
  from assms(1) show ?thesis
  proof cases
    case (get_takes w g m c)
    then have "jobs (jm s) = c # jobs m"
      using assms(2) by (auto simp: counts_inv_def intro: get_request_SomeD)
    with get_takes e show ?thesis by (auto simp: order_inv_def)
  next
    case (add_drops c rand g m cl)
    with add [of rand g c m cl False] e(1) show ?thesis by (simp add: order_inv_def)
  next
    case (add_signals c rand g m cl w)
    with add [of rand g c m cl True] e(1) show ?thesis by (simp add: order_inv_def)
  next
    case (add_signals_nobody c rand g m cl)
    with add [of rand g c m cl True] e(1) show ?thesis by (simp add: order_inv_def)
  next
    case (notifies w)
    with e wake show ?thesis by (auto simp: order_inv_def notify_request_finished_def jobs_def)
  qed (use e in \<open>auto simp: order_inv_def\<close>)
qed

lemma server_inv_step:
  assumes "server_step N a s s'" "server_inv N s"
  shows "server_inv N s'"
  using assms counts_inv_step wakeup_inv_step closed_inv_step order_inv_step
  unfolding server_inv_def by blast

lemma server_inv_init:
  assumes "initial_manager m"
  shows "server_inv N (server_init N m)"
  using assms by (simp add: server_invs initial_manager_def server_init_def wtotal_def)

lemma server_reachable_inv:
  assumes "server_reachable N m s" "initial_manager m"
  shows "server_inv N s"
  using assms by (induction rule: server_reachable.induct) (auto intro: server_inv_init server_inv_step)


section \<open>Progress of the workers\<close>

text \<open>A worker that is not asleep can always take its next step.\<close>

lemma worker_enabled:
  assumes "counts_inv N s" "w < N" "workers s w \<noteq> WSleep"
  shows "\<exists>s'. server_step N (Worker w) s s'"
proof (cases "workers s w")
  case WTest
  have inv: "jm_inv (jm s)" using assms(1) by (simp add: counts_inv_def)
  show ?thesis
  proof (cases "jobs (jm s)")
    case Nil
    from get_request_empty [OF inv Nil] WTest assms(2) show ?thesis by (blast intro: get_sleeps)
  next
    case (Cons x xs)
    from get_request_takes [OF inv Cons] WTest assms(2) show ?thesis by (blast intro: get_takes)
  qed
qed (use assms in \<open>auto intro: handled notifies\<close>)

lemma running_exists_busy:
  assumes "counts_inv N s" "0 < unat (running_count (jm s))"
  shows "\<exists>w<N. workers s w \<noteq> WSleep"
proof -
  have "wtotal N busy s \<noteq> 0" using assms by (simp add: counts_inv_def)
  then obtain w where "w < N" "busy (workers s w) \<noteq> 0" by (auto simp: wtotal_0_iff)
  then show ?thesis by (intro exI [of _ w]) auto
qed

lemma someone_awake:
  assumes "server_inv N s" "0 < N" "jobs (jm s) \<noteq> [] \<or> master s = MWait c"
  shows "\<exists>w<N. workers s w \<noteq> WSleep"
proof (cases "jobs (jm s) = []")
  case False
  show ?thesis
  proof (rule ccontr)
    assume all: "\<not> ?thesis"
    then have "length (jobs (jm s)) \<le> wtotal N testing s"
      using assms(1,2) by (auto simp: server_inv_def wakeup_inv_def)
    moreover have "wtotal N testing s = 0" using all by (auto simp: wtotal_0_iff)
    ultimately show False using False by simp
  qed
next
  case True
  with assms have full: "jm_full (jm s)" and inv: "jm_inv (jm s)" and c: "counts_inv N s"
    by (auto simp: server_inv_def wakeup_inv_def counts_inv_def)
  then have "0 < unat (running_count (jm s))"
    using True jm_inv_bounds(1) [OF inv] by (auto simp: jm_full_def jm_inv_def)
  with c show ?thesis by (rule running_exists_busy)
qed

text \<open>Work left: each worker step makes it smaller.\<close>

fun steps_left :: "worker_pc \<Rightarrow> nat" where
  "steps_left WTest = 1" | "steps_left WSleep = 0" | "steps_left (WRun c) = 3" | "steps_left WNotify = 2"

definition work_left :: "nat \<Rightarrow> server \<Rightarrow> nat" where
  "work_left N s = 4 * length (jobs (jm s)) + wtotal N steps_left s"

lemma work_left_decreases:
  assumes "server_step N (Worker w) s s'" "counts_inv N s"
  shows "work_left N s' < work_left N s"
  using assms(1)
proof cases
  case (get_sleeps g)
  have "wtotal N steps_left s' + steps_left (workers s w) = wtotal N steps_left s + steps_left WSleep"
    using get_sleeps by (intro wtotal_upd) auto
  with get_sleeps show ?thesis by (simp add: work_left_def)
next
  case (get_takes g m c)
  have "wtotal N steps_left s' + steps_left (workers s w) = wtotal N steps_left s + steps_left (WRun c)"
    using get_takes by (intro wtotal_upd) auto
  moreover have "jobs (jm s) = c # jobs m"
    using get_takes assms(2) by (auto simp: counts_inv_def intro: get_request_SomeD)
  ultimately show ?thesis using get_takes by (simp add: work_left_def)
next
  case (handled c)
  have "wtotal N steps_left s' + steps_left (workers s w) = wtotal N steps_left s + steps_left WNotify"
    using handled by (intro wtotal_upd) auto
  with handled show ?thesis by (simp add: work_left_def)
next
  case notifies
  have "wtotal N steps_left s' + steps_left (workers s w) = wtotal N steps_left s + steps_left WTest"
    using notifies by (intro wtotal_upd) auto
  with notifies show ?thesis by (simp add: work_left_def notify_request_finished_def jobs_def)
qed

inductive worker_run :: "nat \<Rightarrow> nat \<Rightarrow> server \<Rightarrow> server \<Rightarrow> bool" for N where
  none: "worker_run N 0 s s"
| more: "worker_run N k s s' \<Longrightarrow> server_step N (Worker w) s' s'' \<Longrightarrow> worker_run N (Suc k) s s''"

lemma worker_run_bound:
  assumes "worker_run N k s s'" "server_inv N s"
  shows "server_inv N s' \<and> k + work_left N s' \<le> work_left N s"
  using assms
proof (induction rule: worker_run.induct)
  case (more k s s' w s'')
  then have inv: "server_inv N s'" and le: "k + work_left N s' \<le> work_left N s" by auto
  from work_left_decreases [OF more.hyps(2)] inv have "work_left N s'' < work_left N s'"
    by (simp add: server_inv_def)
  with le server_inv_step [OF more.hyps(2) inv] show ?case by simp
qed simp

lemma work_left_bound: "work_left N s \<le> 4 * length (jobs (jm s)) + 3 * N"
proof -
  have "steps_left x \<le> 3" for x by (cases x) auto
  then have "wtotal N steps_left s \<le> (\<Sum>w<N. 3)" unfolding wtotal_def by (intro sum_mono)
  then show ?thesis by (simp add: work_left_def)
qed

text \<open>Under \<open>BLOCK\<close> no connection is dropped.\<close>

definition block_inv :: "server \<Rightarrow> bool" where
  "block_inv s \<longleftrightarrow> schedalg_of (jm s) = BLOCK \<and> started s @ jobs (jm s) @ in_hand (master s) = accepted s"

lemma block_inv_step:
  assumes "server_step N a s s'" "counts_inv N s" "block_inv s"
  shows "block_inv s'"
proof -
  have add: "jobs m = jobs (jm s) @ [c]" "schedalg_of m = BLOCK"
    if "add_request rand g (jm s) c = Inr (Returns m cl sig)" for rand g m cl c sig
  proof -
    have inv: "jm_inv (jm s)" "schedalg_of (jm s) = BLOCK"
      using assms(2,3) by (simp_all add: counts_inv_def block_inv_def)
    note r = add_request_ReturnsD [OF inv(1) that]
    from r(6) inv(2) have "\<not> jm_full (jm s)" by simp
    with r(4,5) inv(2) show "jobs m = jobs (jm s) @ [c]" "schedalg_of m = BLOCK"
      by (simp_all add: policy_result_def)
  qed
  have wake: "in_hand (wake_master (master s)) = in_hand (master s)" by (cases "master s") auto
  from assms(1) show ?thesis
  proof cases
    case (get_takes w g m c)
    with assms(2) get_request_SomeD [of "jm s" g m c] assms(3) show ?thesis
      by (simp add: counts_inv_def block_inv_def)
  next
    case (add_drops c rand g m cl)
    with add [of rand g c m cl False] assms(3) show ?thesis by (auto simp: block_inv_def)
  next
    case (add_signals c rand g m cl w)
    with add [of rand g c m cl True] assms(3) show ?thesis by (auto simp: block_inv_def)
  next
    case (add_signals_nobody c rand g m cl)
    with add [of rand g c m cl True] assms(3) show ?thesis by (auto simp: block_inv_def)
  next
    case (notifies w)
    with wake assms(3) show ?thesis by (simp add: block_inv_def notify_request_finished_def jobs_def)
  qed (use assms(3) in \<open>auto simp: block_inv_def\<close>)
qed

lemma block_inv_reachable:
  assumes "server_reachable N m s" "initial_manager m" "schedalg_of m = BLOCK"
  shows "block_inv s"
  using assms
proof (induction rule: server_reachable.induct)
  case start
  then show ?case by (simp add: block_inv_def server_init_def initial_manager_def)
next
  case (step s a s')
  from server_reachable_inv [OF step.hyps(1) step.prems(1)] have "counts_inv N s"
    by (simp add: server_inv_def)
  from block_inv_step [OF step.hyps(2) this step.IH [OF step.prems]] show ?case .
qed


lemma server_step_max:
  assumes "server_step N a s s'" "counts_inv N s"
  shows "max_accepted_count (jm s') = max_accepted_count (jm s)"
  using assms
  by cases (auto simp: counts_inv_def notify_request_finished_def
      dest: add_request_ReturnsD(3) get_request_SomeD(5))

lemma server_reachable_max:
  assumes "server_reachable N m s" "initial_manager m"
  shows "max_accepted_count (jm s) = max_accepted_count m"
  using assms
proof (induction rule: server_reachable.induct)
  case (step s a s')
  from server_reachable_inv [OF step.hyps(1) step.prems] have "counts_inv N s"
    by (simp add: server_inv_def)
  with server_step_max [OF step.hyps(2)] step.IH [OF step.prems] show ?case by simp
qed (simp add: server_init_def)

lemma wtotal_busy_card: "wtotal N busy s = card {w. w < N \<and> busy (workers s w) = 1}"
proof -
  have "busy x = (if busy x = 1 then 1 else 0)" for x by (cases x) auto
  then have "wtotal N busy s = (\<Sum>w<N. if busy (workers s w) = 1 then 1 else 0)"
    unfolding wtotal_def by (rule sum.cong [OF refl])
  also have "\<dots> = card {w \<in> {..<N}. busy (workers s w) = 1}" by (simp add: sum.If_cases Int_def)
  finally show ?thesis by (simp add: lessThan_def)
qed

lemma wtotal_testing_card: "wtotal N testing s = card {w. w < N \<and> workers s w = WTest}"
proof -
  have "testing x = (if x = WTest then 1 else 0)" for x by (cases x) auto
  then have "wtotal N testing s = (\<Sum>w<N. if workers s w = WTest then 1 else 0)"
    unfolding wtotal_def by (rule sum.cong [OF refl])
  also have "\<dots> = card {w \<in> {..<N}. workers s w = WTest}" by (simp add: sum.If_cases Int_def)
  finally show ?thesis by (simp add: lessThan_def)
qed

text \<open>A worker at its test takes the oldest waiting request.\<close>

lemma test_takes:
  assumes "counts_inv N s" "w < N" "workers s w = WTest" "jobs (jm s) = c # cs"
  shows "\<exists>s'. server_step N (Worker w) s s' \<and> workers s' w = WRun c \<and> jobs (jm s') = cs"
proof -
  have "jm_inv (jm s)" using assms(1) by (simp add: counts_inv_def)
  from get_request_takes [OF this assms(4), of c] obtain m where m: "get_request (jm s) c = Inr (Some (m, c))" "jobs m = cs" by blast
  have "server_step N (Worker w) s (s\<lparr>jm := m, workers := (workers s)(w := WRun c), started := started s @ [c]\<rparr>)"
    by (rule get_takes [OF assms(2,3) m(1)])
  then show ?thesis using m(2) by fastforce
qed

text \<open>While the main thread sleeps some worker is busy, or at its test with a request to take.\<close>

lemma asleep_because_of:
  assumes "server_inv N s" "0 < N" "master s = MWait c"
  shows "\<exists>w<N. busy (workers s w) = 1 \<or> (workers s w = WTest \<and> jobs (jm s) \<noteq> [])"
proof (cases "wtotal N busy s = 0")
  case False
  then obtain w where "w < N" "busy (workers s w) \<noteq> 0" by (auto simp: wtotal_0_iff)
  moreover have "busy x \<noteq> 0 \<Longrightarrow> busy x = 1" for x by (cases x) auto
  ultimately show ?thesis by blast
next
  case True
  have c: "counts_inv N s" "wakeup_inv N s" using assms(1) by (simp_all add: server_inv_def)
  then have full: "jm_full (jm s)" and inv: "jm_inv (jm s)" and r: "unat (running_count (jm s)) = 0"
    using assms(3) True by (auto simp: wakeup_inv_def counts_inv_def)
  then have "jobs (jm s) \<noteq> []"
    using jm_inv_bounds(1) [OF inv] by (auto simp: jm_full_def jm_inv_def)
  moreover have "\<exists>w<N. workers s w = WTest"
  proof -
    obtain w where w: "w < N" "workers s w \<noteq> WSleep" using someone_awake [OF assms(1,2)] assms(3) by blast
    then have "busy (workers s w) = 0" using True by (simp add: wtotal_0_iff)
    with w show ?thesis by (cases "workers s w") auto
  qed
  ultimately show ?thesis by blast
qed

lemma notify_wakes:
  assumes "server_step N (Worker w) s s'" "workers s w = WNotify" "master s = MWait c"
  shows "master s' = MAdd c"
  using assms by (auto elim: server_step.cases)

end
