(* ===== verification/Server_Main.thy ===== *)
theory Server_Main
  imports Server_Threads C_String
begin

text \<open>
  The entry of \<open>hw3/wet/209509181-313511602/server.c\<close>: \<open>getargs\<close>, \<open>main\<close> up to the accept
  loop, and the properties of the running server, stated over the states reachable from a
  successful \<open>init_jobs_manager\<close>.
\<close>

section \<open>Arguments and start-up\<close>

text \<open>
  \<open>schedalg\<close> stays what it was (an uninitialised local of \<open>main\<close>, the argument \<open>alg0\<close>) when
  the fourth argument names no policy. \<open>None\<close> is the exit with the usage message.
\<close>

definition getargs :: "schedalg \<Rightarrow> string list \<Rightarrow> (c_int \<times> c_int \<times> c_int \<times> schedalg) option" where
  "getargs alg0 argv =
     (if length argv < 5 then None
      else Some (atoi (argv ! 1), atoi (argv ! 2), atoi (argv ! 3),
        if argv ! 4 = ''block'' then BLOCK
        else if argv ! 4 = ''dt'' then DROP_TAIL
        else if argv ! 4 = ''dh'' then DROP_HEAD
        else if argv ! 4 = ''random'' then DROP_RANDOM
        else alg0))"

datatype main_result =
    Exit nat string                       \<comment> \<open>exit code and message\<close>
  | Serve c_int nat jobs_manager          \<comment> \<open>port, number of workers, initial manager\<close>

definition main ::
  "(size_t \<Rightarrow> unit option) \<Rightarrow> (size_t \<Rightarrow> session list option) \<Rightarrow> (nat \<Rightarrow> bool)
   \<Rightarrow> jobs_manager \<Rightarrow> schedalg \<Rightarrow> string list \<Rightarrow> main_result"
where
  "main malloc_threads malloc_queue create global alg0 argv =
     (case getargs alg0 argv of
        None \<Rightarrow> Exit 1 ''Usage''
      | Some (port, threads_num, queue_size, alg) \<Rightarrow>
          (case init_jobs_manager malloc_threads malloc_queue create global
                  (signed queue_size) (signed threads_num) alg of
             (r, m, create_failed) \<Rightarrow>
               if create_failed then Exit 1 ''Error: pthread_create''
               else if r \<noteq> SUCCESS then Exit 1 ''Error: init_jobs_manager''
               else Serve port (unat (signed threads_num :: size_t)) m))"

text \<open>
  What \<open>malloc\<close> promises: a block is as long as asked for, and no request of \<open>2 ^ 63\<close> bytes or
  more succeeds. A \<open>session_t\<close> takes 24 bytes.
\<close>

definition malloc_contract :: "(size_t \<Rightarrow> session list option) \<Rightarrow> bool" where
  "malloc_contract malloc_queue \<longleftrightarrow> (\<forall>b block. malloc_queue b = Some block \<longrightarrow>
     unat b < 2 ^ 63 \<and> length block = unat b div 24)"

lemma mod_64_neg: "- 18446744073709551616 \<le> x \<Longrightarrow> x < 0 \<Longrightarrow>
    (x :: int) mod 18446744073709551616 = 18446744073709551616 + x"
  using mod_pos_pos_trivial [of "x + 18446744073709551616" 18446744073709551616] by simp

lemma signed_int_unat:
  "unat (signed (q :: c_int) :: size_t) = (if sint q < 0 then nat (2 ^ 64 + sint q) else nat (sint q))"
proof -
  have "uint (signed q :: size_t) = sint q mod 18446744073709551616"
    by (simp only: scast_eq uint_word_of_int) simp
  moreover have "sint q \<ge> - (2 ^ 31)" "sint q < 2 ^ 31"
    using sint_ge [of q] sint_lt [of q] by simp_all
  ultimately show ?thesis by (simp add: unat_eq_nat_uint mod_64_neg)
qed

text \<open>The queue size survives the multiplication by 24 unless the argument was negative.\<close>

lemma queue_size_ok:
  fixes q :: c_int
  defines "n \<equiv> (signed q :: size_t)"
  assumes "unat (24 * n) < 2 ^ 63"
  shows "unat n = nat (sint q)" "unat (24 * n) = 24 * unat n" "0 \<le> sint q"
proof -
  have r: "sint q \<ge> - (2 ^ 31)" "sint q < 2 ^ 31"
    using sint_ge [of q] sint_lt [of q] by simp_all
  have m: "unat (24 * n) = (24 * unat n) mod 18446744073709551616"
    by (simp add: unat_word_ariths)
  show pos: "0 \<le> sint q"
  proof (rule ccontr)
    assume "\<not> 0 \<le> sint q"
    then have "int (unat n) = 2 ^ 64 + sint q"
      using r by (simp add: n_def signed_int_unat)
    then have "int (unat n) = 18446744073709551616 + sint q" by simp
    then have "24 * int (unat n) mod 18446744073709551616 = 24 * sint q mod 18446744073709551616"
      by (simp only: distrib_left mod_mult_self1 mod_mult_self2 mod_mult_self3 mod_mult_self4)
    moreover have "24 * sint q mod 18446744073709551616 = 18446744073709551616 + 24 * sint q"
      using r \<open>\<not> 0 \<le> sint q\<close> by (intro mod_64_neg) auto
    moreover have "int (unat (24 * n)) = 24 * int (unat n) mod 18446744073709551616"
      by (simp only: m of_nat_mod) simp
    ultimately have "int (unat (24 * n)) = 18446744073709551616 + 24 * sint q" by simp
    with assms(2) r show False by simp
  qed
  then show "unat n = nat (sint q)" by (simp add: n_def signed_int_unat)
  with r m show "unat (24 * n) = 24 * unat n" by simp
qed

lemma main_initial:
  assumes "main mt mq create global alg0 argv = Serve port N m" "malloc_contract mq"
    "atoi (argv ! 3) \<noteq> 0"
  shows "initial_manager m" "int (unat (max_accepted_count m)) = sint (atoi (argv ! 3))"
proof -
  let ?q = "atoi (argv ! 3)" and ?t = "signed (atoi (argv ! 2)) :: size_t"
  let ?n = "signed ?q :: size_t"
  from assms(1) obtain alg where init: "init_jobs_manager mt mq create global ?n ?t alg = (SUCCESS, m, False)"
    by (auto simp: main_def getargs_def split: if_splits prod.splits option.splits)
  note init_ok = init_jobs_manager_SUCCESS [OF init]
  then obtain block where b: "mq (24 * ?n) = Some block" by blast
  with assms(2) have "unat (24 * ?n) < 2 ^ 63" and l: "length block = unat (24 * ?n) div 24"
    by (auto simp: malloc_contract_def)
  note qs = queue_size_ok [OF this(1)]
  have "sint ?q < 2 ^ 31" using sint_lt [of ?q] by simp
  moreover have "sint ?q \<noteq> 0" using assms(3) by (metis signed_eq_0_iff)
  ultimately have n: "length block = unat ?n" "0 < unat ?n" "unat ?n < 9223372036854775808"
    using qs l by auto
  have "initial_manager m \<and> max_accepted_count m = ?n"
    using init_jobs_manager_inv [of mt ?t mq ?n block create global alg, OF init_ok(1) b n init_ok(3)] init
    by (auto simp: initial_manager_def)
  then show "initial_manager m" "int (unat (max_accepted_count m)) = sint ?q"
    using qs(1,3) by simp_all
qed


section \<open>Properties of the running server\<close>

text \<open>
  The example used by the witnesses: one worker, room for two requests, policy \<open>block\<close>, and the
  states after one connection was accepted and queued.
\<close>

definition demo_session :: session where
  "demo_session = \<lparr>connection_fd = 4, arrival_time = \<lparr>tv_sec = 10, tv_usec = 20\<rparr>\<rparr>"

definition demo_argv :: "string list" where
  "demo_argv = [''server'', ''8080'', ''1'', ''2'', ''block'']"

definition demo_malloc :: "size_t \<Rightarrow> session list option" where
  "demo_malloc b = (if b = 48 then Some [demo_session, demo_session] else None)"

definition demo_global :: jobs_manager where
  "demo_global = \<lparr>schedalg_of = DROP_TAIL, max_accepted_count = 0, waiting_count = 0,
     running_count = 0, waiting_jobs = \<lparr>q_size = 0, q_head = 0, q_tail = 0, elements_array = []\<rparr>\<rparr>"

definition demo_manager :: jobs_manager where
  "demo_manager = \<lparr>schedalg_of = BLOCK, max_accepted_count = 2, waiting_count = 0, running_count = 0,
     waiting_jobs = \<lparr>q_size = 2, q_head = - 1, q_tail = - 1, elements_array = [demo_session, demo_session]\<rparr>\<rparr>"

lemma demo_numbers: "atoi ''8080'' = 8080" "atoi ''1'' = 1" "atoi ''2'' = 2"
  by code_simp+

lemma demo_main:
  "main (\<lambda>_. Some ()) demo_malloc (\<lambda>_. True) demo_global DROP_TAIL demo_argv = Serve 8080 1 demo_manager"
  by (simp add: main_def getargs_def demo_argv_def demo_numbers init_jobs_manager_def init_cyclic_queue_def
      demo_malloc_def demo_global_def demo_manager_def Let_def)

lemma demo_malloc_contract: "malloc_contract demo_malloc"
  by (auto simp: malloc_contract_def demo_malloc_def)

lemma demo_atoi: "atoi (demo_argv ! 3) \<noteq> 0"
  by (simp add: demo_argv_def demo_numbers)

definition demo_queued :: server where
  "demo_queued = \<lparr>jm = \<lparr>schedalg_of = BLOCK, max_accepted_count = 2, waiting_count = 1, running_count = 0,
       waiting_jobs = \<lparr>q_size = 2, q_head = 0, q_tail = 0, elements_array = [demo_session, demo_session]\<rparr>\<rparr>,
     master = MAccept, workers = (\<lambda>_. WTest), accepted = [demo_session], started = [], closed = []\<rparr>"

lemma demo_steps:
  defines "s1 \<equiv> (server_init 1 demo_manager)\<lparr>master := MAdd demo_session, accepted := [demo_session]\<rparr>"
  shows "server_step 1 Main (server_init 1 demo_manager) s1" "server_step 1 Main s1 demo_queued"
proof -
  show "server_step 1 Main (server_init 1 demo_manager) s1"
    using accept [of "server_init 1 demo_manager" 1 demo_session] by (simp add: server_init_def s1_def)
  have "add_request (\<lambda>_. 0) demo_session (jm s1) demo_session = Inr (Returns (jm demo_queued) [] True)"
    by (simp add: add_request_def enqueue_request_def add_queue_element_def server_init_def
        demo_manager_def demo_queued_def Let_def s1_def)
  then show "server_step 1 Main s1 demo_queued"
    using add_signals_nobody [of s1 demo_session "\<lambda>_. 0" demo_session "jm demo_queued" "[]" 1]
    by (simp add: server_init_def demo_queued_def s1_def)
qed

lemma demo_reachable: "server_reachable 1 demo_manager demo_queued"
  using demo_steps by (blast intro: server_reachable.intros)

text \<open>
  C2. In every reachable state of the server the counters are right: \<open>waiting_count\<close> is the number
  of queued requests, \<open>running_count\<close> the number of workers handling one, together they
  never exceed the queue size given on the command line, and the queue and the manager are
  well formed.
\<close>

theorem server_counters_correct:
  assumes "main mt mq create global alg0 argv = Serve port N m" "malloc_contract mq"
    "atoi (argv ! 3) \<noteq> 0" "server_reachable N m s"
  shows "unat (waiting_count (jm s)) = length (jobs (jm s))
    \<and> unat (running_count (jm s)) = card {w. w < N \<and> busy (workers s w) = 1}
    \<and> int (unat (waiting_count (jm s)) + unat (running_count (jm s))) \<le> sint (atoi (argv ! 3))
    \<and> max_accepted_count (jm s) = max_accepted_count m \<and> jm_inv (jm s)"
proof -
  note init = main_initial [OF assms(1-3)]
  have inv: "server_inv N s" using server_reachable_inv [OF assms(4) init(1)] .
  have max: "max_accepted_count (jm s) = max_accepted_count m"
    using server_reachable_max [OF assms(4) init(1)] .
  have "wtotal N busy s = card {w. w < N \<and> busy (workers s w) = 1}" by (rule wtotal_busy_card)
  moreover have jm: "jm_inv (jm s)" "unat (running_count (jm s)) = wtotal N busy s"
    using inv by (auto simp: server_inv_def counts_inv_def)
  moreover have "int (unat (waiting_count (jm s)) + unat (running_count (jm s))) \<le> int (unat (max_accepted_count m))"
    using jm(1) max unfolding of_nat_le_iff by (simp add: jm_inv_def)
  ultimately show ?thesis using max init(2) by (simp only: jm_inv_def)
qed

theorem server_counters_correct_witness:
  "unat (waiting_count (jm demo_queued)) = length (jobs (jm demo_queued))"
  using server_counters_correct [OF demo_main demo_malloc_contract demo_atoi demo_reachable] by blast

text \<open>
  C19. The server never faults: in no reachable state does \<open>add_request\<close> or \<open>get_request\<close> divide by
  zero or leave the bounds of the queue's array, whatever \<open>rand()\<close> returns and whatever the
  uninitialised locals hold. Nor does a call of the queue fail unnoticed, although its results are
  not looked at: when \<open>add_request\<close> signals a worker the new request is at the end of the queue,
  after requests that were there before; when it does not, it has closed the new connection and left the
  queue alone; no request is lost or closed twice; and what \<open>get_request\<close> returns is the oldest waiting
  request and not an uninitialised one.
\<close>

theorem server_never_faults:
  assumes "main mt mq create global alg0 argv = Serve port N m" "malloc_contract mq"
    "atoi (argv ! 3) \<noteq> 0" "server_reachable N m s"
  shows "(\<exists>r. add_request rand g (jm s) c = Inr r) \<and> (\<exists>r. get_request (jm s) g = Inr r)
    \<and> (\<forall>m' cl. add_request rand g (jm s) c = Inr (Returns m' cl True) \<longrightarrow>
         (\<exists>js. jobs m' = js @ [c] \<and> subseq js (jobs (jm s))))
    \<and> (\<forall>m' cl. add_request rand g (jm s) c = Inr (Returns m' cl False) \<longrightarrow>
         cl = [connection_fd c] \<and> jobs m' = jobs (jm s))
    \<and> (\<forall>m' cl sig. add_request rand g (jm s) c = Inr (Returns m' cl sig) \<longrightarrow>
         mset cl + mset (map connection_fd (jobs m')) = add_mset (connection_fd c) (mset (map connection_fd (jobs (jm s)))))
    \<and> (\<forall>m' x. get_request (jm s) g = Inr (Some (m', x)) \<longrightarrow> jobs (jm s) = x # jobs m')"
proof -
  have inv: "jm_inv (jm s)"
    using server_reachable_inv [OF assms(4) main_initial(1) [OF assms(1-3)]]
    by (simp add: server_inv_def counts_inv_def)
  have "\<exists>r. add_request rand g (jm s) c = Inr r"
    using add_request_waits [OF inv, of rand g c] add_request_returns [OF inv, of rand g c] by blast
  moreover have "\<exists>r. get_request (jm s) g = Inr r"
    using get_request_empty [OF inv, of g] get_request_takes [OF inv, of _ _ g] by (cases "jobs (jm s)") blast+
  moreover note P = add_request_ReturnsD(5) [OF inv, of rand g c]
  ultimately show ?thesis
    using policy_result_appends [OF P] policy_result_quiet [OF P] policy_result_closed [OF P] policy_result_refuses [OF P]
      get_request_SomeD(1) [OF inv, of g] by simp
qed

theorem server_never_faults_witness:
  "(\<exists>m' js. add_request (\<lambda>_. 0) demo_session (jm demo_queued) demo_session = Inr (Returns m' [] True) \<and> jobs m' = js @ [demo_session])
   \<and> (\<exists>m'. get_request (jm demo_queued) demo_session = Inr (Some (m', demo_session)) \<and> jobs (jm demo_queued) = demo_session # jobs m')"
proof -
  note T = server_never_faults [OF demo_main demo_malloc_contract demo_atoi demo_reachable]
  have a: "\<exists>m'. add_request (\<lambda>_. 0) demo_session (jm demo_queued) demo_session = Inr (Returns m' [] True)"
    by (simp add: add_request_def enqueue_request_def add_queue_element_def demo_queued_def Let_def)
  have "\<exists>m'. get_request (jm demo_queued) demo_session = Inr (Some (m', demo_session))"
    by (simp add: get_request_def remove_queue_element_def demo_queued_def Let_def out_param_def)
  then show ?thesis using a T [of "\<lambda>_. 0" demo_session demo_session] by blast
qed

text \<open>
  C9. No wake-up is lost. In a reachable state of a server with a worker, as long as some worker
  sleeps there are at least as many workers awake at the test of \<open>get_request\<close> as requests wait, so
  that no request waits for a worker that sleeps. Each of these workers can at once step, without a
  spurious wake-up, and take the oldest waiting request. And when the main thread sleeps because the
  server is full, some worker is busy, or can take a request, and the worker that ends the next request
  wakes it.
\<close>

theorem server_no_lost_wakeup:
  assumes "main mt mq create global alg0 argv = Serve port N m" "malloc_contract mq"
    "atoi (argv ! 3) \<noteq> 0" "server_reachable N m s" "0 < N"
  shows "((\<exists>v<N. workers s v = WSleep) \<longrightarrow> length (jobs (jm s)) \<le> card {w. w < N \<and> workers s w = WTest})
    \<and> (\<forall>w<N. workers s w = WTest \<and> jobs (jm s) \<noteq> [] \<longrightarrow>
         (\<exists>s'. server_step N (Worker w) s s' \<and> workers s' w = WRun (hd (jobs (jm s))) \<and> jobs (jm s') = tl (jobs (jm s))))
    \<and> (\<forall>c. master s = MWait c \<longrightarrow>
         (\<exists>w<N. busy (workers s w) = 1 \<or> (workers s w = WTest \<and> jobs (jm s) \<noteq> []))
         \<and> (\<forall>w s'. workers s w = WNotify \<and> server_step N (Worker w) s s' \<longrightarrow> master s' = MAdd c))"
proof -
  have inv: "server_inv N s" using server_reachable_inv [OF assms(4) main_initial(1) [OF assms(1-3)]] .
  then have c: "counts_inv N s" "wakeup_inv N s" by (simp_all add: server_inv_def)
  have "\<exists>s'. server_step N (Worker w) s s' \<and> workers s' w = WRun (hd (jobs (jm s))) \<and> jobs (jm s') = tl (jobs (jm s))"
    if "w < N" "workers s w = WTest" "jobs (jm s) \<noteq> []" for w
    using test_takes [OF c(1) that(1,2), of "hd (jobs (jm s))" "tl (jobs (jm s))"] that(3) by simp
  then show ?thesis
    using c(2) asleep_because_of [OF inv assms(5)] notify_wakes unfolding wakeup_inv_def wtotal_testing_card by blast
qed

text \<open>A second example, with two workers: one sleeps, the other was woken for the request that waits.\<close>

definition demo_argv2 :: "string list" where
  "demo_argv2 = [''server'', ''8080'', ''2'', ''2'', ''block'']"

lemma demo_main2:
  "main (\<lambda>_. Some ()) demo_malloc (\<lambda>_. True) demo_global DROP_TAIL demo_argv2 = Serve 8080 2 demo_manager" "atoi (demo_argv2 ! 3) \<noteq> 0"
  by (simp_all add: main_def getargs_def demo_argv2_def demo_numbers init_jobs_manager_def init_cyclic_queue_def
      demo_malloc_def demo_global_def demo_manager_def list_all_iff Let_def)

definition demo_woken :: server where
  "demo_woken = demo_queued\<lparr>workers := (\<lambda>_. WTest)(1 := WSleep)\<rparr>"

lemma demo_woken_reachable: "server_reachable 2 demo_manager demo_woken"
proof -
  let ?s0 = "server_init 2 demo_manager"
  let ?s1 = "?s0\<lparr>workers := (\<lambda>_. WTest)(0 := WSleep)\<rparr>"
  let ?s2 = "?s0\<lparr>workers := (\<lambda>_. WTest)(0 := WSleep, 1 := WSleep)\<rparr>"
  let ?s3 = "?s2\<lparr>master := MAdd demo_session, accepted := [demo_session]\<rparr>"
  have g: "get_request demo_manager demo_session = Inr None" by (simp add: get_request_def demo_manager_def)
  have 1: "server_step 2 (Worker 0) ?s0 ?s1"
    using get_sleeps [of 0 2 ?s0 demo_session] g by (simp add: server_init_def)
  have 2: "server_step 2 (Worker 1) ?s1 ?s2"
    using get_sleeps [of 1 2 ?s1 demo_session] g by (simp add: server_init_def)
  have 3: "server_step 2 Main ?s2 ?s3"
    using accept [of ?s2 2 demo_session] by (simp add: server_init_def)
  have "add_request (\<lambda>_. 0) demo_session (jm ?s3) demo_session = Inr (Returns (jm demo_queued) [] True)"
    by (simp add: add_request_def enqueue_request_def add_queue_element_def server_init_def
        demo_manager_def demo_queued_def Let_def)
  moreover have "(workers ?s3)(0 := WTest) = workers demo_woken" by (auto simp: demo_woken_def fun_eq_iff)
  ultimately have "server_step 2 Main ?s3 (?s3\<lparr>master := MAccept, jm := jm demo_queued, closed := closed ?s3 @ [], workers := workers demo_woken\<rparr>)"
    using add_signals [of ?s3 demo_session "\<lambda>_. 0" demo_session "jm demo_queued" "[]" 0 2] by (simp add: server_init_def)
  then have 4: "server_step 2 Main ?s3 demo_woken" by (simp add: server_init_def demo_queued_def demo_woken_def)
  show ?thesis
    by (rule server_reachable.step [OF _ 4], rule server_reachable.step [OF _ 3], rule server_reachable.step [OF _ 2],
        rule server_reachable.step [OF server_reachable.start 1])
qed

theorem server_no_lost_wakeup_witness:
  "workers demo_woken 1 = WSleep \<and> jobs (jm demo_woken) = [demo_session]
   \<and> length (jobs (jm demo_woken)) \<le> card {w. w < 2 \<and> workers demo_woken w = WTest}
   \<and> (\<exists>s'. server_step 2 (Worker 0) demo_woken s' \<and> workers s' 0 = WRun demo_session \<and> jobs (jm s') = [])"
proof -
  have d: "workers demo_woken 1 = WSleep" "workers demo_woken 0 = WTest" "jobs (jm demo_woken) = [demo_session]"
    by (simp_all add: demo_woken_def demo_queued_def jobs_def qlist_def qcount_def qcap_def ring_slice_def)
  then show ?thesis
    using server_no_lost_wakeup [OF demo_main2(1) demo_malloc_contract demo_main2(2) demo_woken_reachable] by force
qed

text \<open>
  C21. Every accepted connection is accounted for exactly once: the accepted descriptors are, as a
  multiset, those closed, those waiting, those being handled and the one in the main thread's
  hands. So no descriptor is closed twice and none is leaked.
\<close>

theorem server_closes_each_once:
  assumes "main mt mq create global alg0 argv = Serve port N m" "malloc_contract mq"
    "atoi (argv ! 3) \<noteq> 0" "server_reachable N m s"
  shows "mset (map connection_fd (accepted s)) =
    mset (closed s) + mset (map connection_fd (jobs (jm s))) + (\<Sum>w<N. held (workers s w))
    + mset (map connection_fd (in_hand (master s)))"
  using server_reachable_inv [OF assms(4) main_initial(1) [OF assms(1-3)]]
  by (simp add: server_inv_def closed_inv_def wtotal_def)

theorem server_closes_each_once_witness:
  "mset (map connection_fd (accepted demo_queued)) =
    mset (closed demo_queued) + mset (map connection_fd (jobs (jm demo_queued)))
    + (\<Sum>w<1. held (workers demo_queued w)) + mset (map connection_fd (in_hand (master demo_queued)))"
  using server_closes_each_once [OF demo_main demo_malloc_contract demo_atoi demo_reachable] by simp

text \<open>
  C22. Requests are served in order of arrival under every policy: the requests started so far,
  followed by those waiting, form a subsequence of the accepted connections; under \<open>block\<close>
  they are all of them, up to the one the main thread still holds.
\<close>

theorem server_serves_in_order:
  assumes "main mt mq create global alg0 argv = Serve port N m" "malloc_contract mq"
    "atoi (argv ! 3) \<noteq> 0" "server_reachable N m s"
  shows "subseq (started s @ jobs (jm s)) (accepted s)
    \<and> (schedalg_of m = BLOCK \<longrightarrow> started s @ jobs (jm s) @ in_hand (master s) = accepted s)"
proof -
  note init = main_initial(1) [OF assms(1-3)]
  from server_reachable_inv [OF assms(4) init] obtain earlier where
    "accepted s = earlier @ in_hand (master s)" "subseq (started s @ jobs (jm s)) earlier"
    by (auto simp: server_inv_def order_inv_def)
  then have "subseq (started s @ jobs (jm s)) (accepted s)" by (simp add: subseq_rev_drop_many)
  moreover have "schedalg_of m = BLOCK \<longrightarrow> started s @ jobs (jm s) @ in_hand (master s) = accepted s"
    using block_inv_reachable [OF assms(4) init] by (simp add: block_inv_def)
  ultimately show ?thesis ..
qed

theorem server_serves_in_order_witness:
  "started demo_queued @ jobs (jm demo_queued) @ in_hand (master demo_queued) = accepted demo_queued"
  using server_serves_in_order [OF demo_main demo_malloc_contract demo_atoi demo_reachable]
  by (simp add: demo_manager_def)

end
