(* ===== verification/Rio.thy ===== *)
theory Rio
  imports C_String
begin

text \<open>
  The robust input and output package of the web server (\<open>rio_*\<close> and \<open>Rio_*\<close> of \<open>segel.c\<close>). What the system answers to
  the reads and writes on a descriptor is a list: bytes that arrive, interruptions by a signal, errors; at the end of the
  list a read finds the end of the file and a write succeeds. The wrappers end the process on an error.
\<close>

section \<open>Definitions\<close>

datatype read_answer = Bytes string | ReadInterrupted | ReadError

datatype write_answer = Wrote nat | WriteInterrupted | WriteError

definition RIO_BUFSIZE :: nat where
  "RIO_BUFSIZE = 8192"

text \<open>\<open>rio_left\<close> is the part of \<open>rio_buf\<close> from \<open>rio_bufptr\<close> on that holds the \<open>rio_cnt\<close> bytes not yet read.\<close>

record rio =
  rio_left :: string
  rio_input :: "read_answer list"

text \<open>A \<open>read\<close> of at most \<open>n\<close> bytes out of those that have arrived.\<close>

definition arrived :: "nat \<Rightarrow> string \<Rightarrow> read_answer list \<Rightarrow> string \<times> read_answer list" where
  "arrived n b rest = (take n b, if length b \<le> n then rest else Bytes (drop n b) # rest)"

fun rio_readn :: "nat \<Rightarrow> read_answer list \<Rightarrow> string option \<times> read_answer list" where
  "rio_readn nleft [] = (Some [], [])"
| "rio_readn nleft (a # rest) =
     (if nleft = 0 then (Some [], a # rest)
      else case a of
        ReadInterrupted \<Rightarrow> rio_readn nleft rest
      | ReadError \<Rightarrow> (None, rest)
      | Bytes b \<Rightarrow>
          if b = [] then (Some [], rest)
          else if nleft < length b then (Some (take nleft b), Bytes (drop nleft b) # rest)
          else let (r, rest) = rio_readn (nleft - length b) rest in (map_option (\<lambda>t. b @ t) r, rest))"

text \<open>The result: whether everything was written, and what was.\<close>

fun rio_writen :: "write_answer list \<Rightarrow> string \<Rightarrow> (bool \<times> string) \<times> write_answer list" where
  "rio_writen [] buf = ((True, buf), [])"
| "rio_writen (a # rest) buf =
     (if buf = [] then ((True, []), a # rest)
      else case a of
        WriteInterrupted \<Rightarrow> rio_writen rest buf
      | WriteError \<Rightarrow> ((False, []), rest)
      | Wrote k \<Rightarrow>
          let k = max 1 k; ((ok, t), rest) = rio_writen rest (drop k buf) in ((ok, take k buf @ t), rest))"

text \<open>The loop that fills the internal buffer; none for an error, the empty string for the end of the file.\<close>

fun rio_fill :: "read_answer list \<Rightarrow> string option \<times> read_answer list" where
  "rio_fill [] = (Some [], [])"
| "rio_fill (ReadInterrupted # rest) = rio_fill rest"
| "rio_fill (ReadError # rest) = (None, rest)"
| "rio_fill (Bytes b # rest) = (let (t, rest) = arrived RIO_BUFSIZE b rest in (Some t, rest))"

definition rio_read :: "nat \<Rightarrow> rio \<Rightarrow> string option \<times> rio" where
  "rio_read n rp =
     (let (b, rest) = (if rio_left rp \<noteq> [] then (Some (rio_left rp), rio_input rp) else rio_fill (rio_input rp)) in
      case b of None \<Rightarrow> (None, \<lparr>rio_left = [], rio_input = rest\<rparr>)
      | Some b \<Rightarrow> (Some (take n b), \<lparr>rio_left = drop n b, rio_input = rest\<rparr>))"

definition rio_readinitb :: "read_answer list \<Rightarrow> rio" where
  "rio_readinitb input = \<lparr>rio_left = [], rio_input = input\<rparr>"

function rio_readnb :: "nat \<Rightarrow> rio \<Rightarrow> string option \<times> rio" where
  "rio_readnb nleft rp =
     (if nleft = 0 then (Some [], rp)
      else case rio_read nleft rp of
        (None, rp) \<Rightarrow> (None, rp)
      | (Some b, rp) \<Rightarrow>
          if b = [] then (Some [], rp)
          else let (r, rp) = rio_readnb (nleft - length b) rp in (map_option (\<lambda>t. b @ t) r, rp))"
  by pat_completeness (simp only: prod.inject)
termination by (relation "measure fst") auto

declare rio_readnb.simps [simp del]

text \<open>
  Reading a line: an error, the end of the file before any byte (the buffer of the caller is then not written at all), or
  the returned number and what is in the buffer.
\<close>

datatype line_result = LineError | LineEof | LineRead nat string

primrec readline_loop :: "nat \<Rightarrow> nat \<Rightarrow> string \<Rightarrow> rio \<Rightarrow> line_result \<times> rio" where
  "readline_loop 0 n acc rp = (LineRead n acc, rp)"
| "readline_loop (Suc k) n acc rp =
     (case rio_read 1 rp of
        (None, rp) \<Rightarrow> (LineError, rp)
      | (Some [], rp) \<Rightarrow> (if n = 1 then LineEof else LineRead n acc, rp)
      | (Some (c # _), rp) \<Rightarrow>
          if c = CHR 0x0A then (LineRead n (acc @ [c]), rp) else readline_loop k (n + 1) (acc @ [c]) rp)"

definition rio_readlineb :: "rio \<Rightarrow> nat \<Rightarrow> line_result \<times> rio" where
  "rio_readlineb rp maxlen = readline_loop (maxlen - 1) 1 [] rp"

section \<open>Reading from the stream of bytes\<close>

text \<open>All bytes that are still to come, however they are cut up, where no call fails.\<close>

fun bytes_of :: "read_answer list \<Rightarrow> string" where
  "bytes_of [] = []"
| "bytes_of (Bytes b # rest) = b @ bytes_of rest"
| "bytes_of (_ # rest) = bytes_of rest"

definition clean :: "read_answer list \<Rightarrow> bool" where
  "clean l \<longleftrightarrow> list_all (\<lambda>a. a \<noteq> ReadError \<and> a \<noteq> Bytes []) l"

definition rio_stream :: "rio \<Rightarrow> string" where
  "rio_stream rp = rio_left rp @ bytes_of (rio_input rp)"

lemma rio_fill_clean:
  assumes "clean l"
  shows "\<exists>b rest. rio_fill l = (Some b, rest) \<and> clean rest \<and> bytes_of l = b @ bytes_of rest \<and> (b = [] \<longrightarrow> bytes_of l = [])"
  using assms
proof (induction l rule: rio_fill.induct)
  case (4 b rest)
  then show ?case by (auto simp: arrived_def clean_def RIO_BUFSIZE_def)
qed (auto simp: clean_def)

text \<open>The basic step: some bytes of the stream, none only at its end.\<close>

lemma rio_read_clean:
  assumes "clean (rio_input rp)" "0 < n"
  shows "\<exists>b rp'. rio_read n rp = (Some b, rp') \<and> clean (rio_input rp') \<and> rio_stream rp = b @ rio_stream rp' \<and> length b \<le> n
    \<and> (b = [] \<longrightarrow> rio_stream rp = [])"
proof (cases "rio_left rp = []")
  case True
  obtain b rest where f: "rio_fill (rio_input rp) = (Some b, rest)" "clean rest" "bytes_of (rio_input rp) = b @ bytes_of rest"
      "b = [] \<longrightarrow> bytes_of (rio_input rp) = []" using rio_fill_clean [OF assms(1)] by blast
  then show ?thesis using True assms(2) by (auto simp: rio_read_def rio_stream_def)
next
  case False
  then show ?thesis using assms by (auto simp: rio_read_def rio_stream_def)
qed

lemma rio_readnb_clean:
  assumes "clean (rio_input rp)"
  shows "\<exists>rp'. rio_readnb n rp = (Some (take n (rio_stream rp)), rp') \<and> clean (rio_input rp')
    \<and> rio_stream rp' = drop n (rio_stream rp)"
  using assms
proof (induction n arbitrary: rp rule: less_induct)
  case (less n)
  show ?case
  proof (cases "n = 0")
    case False
    obtain b rp1 where b: "rio_read n rp = (Some b, rp1)" "clean (rio_input rp1)" "rio_stream rp = b @ rio_stream rp1" "length b \<le> n"
        "b = [] \<longrightarrow> rio_stream rp = []" using rio_read_clean [OF less.prems] False by blast
    show ?thesis
    proof (cases "b = []")
      case True
      then show ?thesis using b False by (subst rio_readnb.simps) simp
    next
      case ne: False
      then have "n - length b < n" using False by (simp add: diff_less)
      from less.IH [OF this b(2)] obtain rp2 where r: "rio_readnb (n - length b) rp1 = (Some (take (n - length b) (rio_stream rp1)), rp2)"
          "clean (rio_input rp2)" "rio_stream rp2 = drop (n - length b) (rio_stream rp1)" by blast
      have "rio_readnb n rp = (Some (b @ take (n - length b) (rio_stream rp1)), rp2)"
        using b(1) r(1) ne False by (subst rio_readnb.simps) simp
      then show ?thesis using r(2,3) b(3,4) by simp
    qed
  qed (use less.prems in \<open>simp add: rio_readnb.simps\<close>)
qed

lemma rio_readn_clean:
  assumes "clean l"
  shows "\<exists>rest. rio_readn n l = (Some (take n (bytes_of l)), rest) \<and> clean rest \<and> bytes_of rest = drop n (bytes_of l)"
  using assms
proof (induction n l rule: rio_readn.induct)
  case (2 nleft a rest)
  then show ?case by (cases a) (fastforce simp: clean_def)+
qed (simp add: clean_def)

lemma rio_writen_clean:
  assumes "WriteError \<notin> set l"
  shows "\<exists>rest. rio_writen l buf = ((True, buf), rest) \<and> set rest \<subseteq> set l"
  using assms
proof (induction l buf rule: rio_writen.induct)
  case (2 a rest buf)
  show ?case
  proof (cases a)
    case (Wrote k)
    show ?thesis
    proof (cases "buf = []")
      case False
      obtain rest' where "rio_writen rest (drop (max 1 k) buf) = ((True, drop (max 1 k) buf), rest')" "set rest' \<subseteq> set rest"
        using 2 Wrote False by fastforce
      then show ?thesis using Wrote False by auto
    qed auto
  qed (use 2 in auto)
qed simp

section \<open>Lines\<close>

text \<open>The first line of a text, with its newline if it has one.\<close>

fun first_line :: "string \<Rightarrow> string" where
  "first_line [] = []"
| "first_line (c # cs) = (if c = CHR 0x0A then [c] else c # first_line cs)"

definition ends_line :: "string \<Rightarrow> bool" where
  "ends_line l \<longleftrightarrow> l \<noteq> [] \<and> last l = CHR 0x0A"

lemma first_line_prefix: "first_line s = take (length (first_line s)) s"
  by (induction s) auto

lemma readline_loop_clean:
  assumes "clean (rio_input rp)" "1 \<le> n"
  shows "\<exists>rp'. readline_loop k n acc rp =
      (if 0 < k \<and> n = 1 \<and> rio_stream rp = [] then LineEof
       else LineRead (n + length (take k (first_line (rio_stream rp))) - (if ends_line (take k (first_line (rio_stream rp))) then 1 else 0))
         (acc @ take k (first_line (rio_stream rp))), rp')
    \<and> clean (rio_input rp') \<and> rio_stream rp' = drop (length (take k (first_line (rio_stream rp)))) (rio_stream rp)"
  using assms
proof (induction k arbitrary: n acc rp)
  case (Suc k)
  obtain b rp1 where b: "rio_read 1 rp = (Some b, rp1)" "clean (rio_input rp1)" "rio_stream rp = b @ rio_stream rp1" "length b \<le> 1"
      "b = [] \<longrightarrow> rio_stream rp = []" using rio_read_clean [OF Suc.prems(1), of 1] by auto
  show ?case
  proof (cases b)
    case Nil
    then show ?thesis using b by (auto simp: ends_line_def)
  next
    case (Cons c cs)
    then have st: "b = [c]" "rio_stream rp = c # rio_stream rp1" using b(3,4) by auto
    show ?thesis
    proof (cases "c = CHR 0x0A")
      case True
      then show ?thesis using b(1,2) st by (auto simp: ends_line_def)
    next
      case False
      let ?l = "take k (first_line (rio_stream rp1))"
      from Suc.IH [OF b(2), of "n + 1" "acc @ [c]"] Suc.prems(2) obtain rp2 where
        r: "readline_loop k (n + 1) (acc @ [c]) rp1 = (LineRead (n + 1 + length ?l - (if ends_line ?l then 1 else 0)) (acc @ [c] @ ?l), rp2)"
          "clean (rio_input rp2)" "rio_stream rp2 = drop (length ?l) (rio_stream rp1)" by auto
      have "readline_loop (Suc k) n acc rp = readline_loop k (n + 1) (acc @ [c]) rp1" using b(1) st(1) False by simp
      moreover have "take (Suc k) (first_line (rio_stream rp)) = c # ?l" using st(2) False by simp
      moreover have "ends_line (c # ?l) = ends_line ?l" using False by (auto simp: ends_line_def)
      ultimately show ?thesis using r st(2) by (intro exI [of _ rp2]) simp
    qed
  qed
qed (simp add: ends_line_def)

text \<open>
  C40. Where no read fails, \<open>rio_readlineb\<close> depends only on the bytes that arrive, not on how the reads cut them up or are
  interrupted: it takes the first line off the stream, with its newline and cut to the size of the buffer, and reports the
  end of the file exactly when nothing is left. The number it returns is the number of bytes for a line with its newline,
  and one more for a line that was cut or ended by the end of the file.
\<close>

theorem rio_readlineb_reads_a_line:
  assumes "clean (rio_input rp)" "1 < maxlen" "l = take (maxlen - 1) (first_line (rio_stream rp))"
  shows "\<exists>rp'. rio_readlineb rp maxlen =
      (if rio_stream rp = [] then LineEof else LineRead (length l + (if ends_line l then 0 else 1)) l, rp')
    \<and> rio_stream rp' = drop (length l) (rio_stream rp) \<and> clean (rio_input rp')"
proof -
  from readline_loop_clean [OF assms(1), of 1 "maxlen - 1" "[]"] obtain rp' where
    r: "readline_loop (maxlen - 1) 1 [] rp = (if 0 < maxlen - 1 \<and> (1 :: nat) = 1 \<and> rio_stream rp = [] then LineEof
        else LineRead (1 + length l - (if ends_line l then 1 else 0)) l, rp')"
      "clean (rio_input rp')" "rio_stream rp' = drop (length l) (rio_stream rp)" unfolding assms(3) by auto
  then show ?thesis using assms(2) by (auto simp: rio_readlineb_def)
qed

theorem rio_readlineb_reads_a_line_witness:
  "\<exists>rp'. rio_readlineb (rio_readinitb [Bytes ''GE'', ReadInterrupted, Bytes (''T'' @ [CHR 0x0A] @ ''a'')]) 8192
      = (LineRead 4 (''GET'' @ [CHR 0x0A]), rp') \<and> rio_stream rp' = ''a''"
  using rio_readlineb_reads_a_line [of "rio_readinitb [Bytes ''GE'', ReadInterrupted, Bytes (''T'' @ [CHR 0x0A] @ ''a'')]" 8192 "''GET'' @ [CHR 0x0A]"]
  by (auto simp: rio_readinitb_def rio_stream_def clean_def ends_line_def)

end
