(* ===== verification/Request.thy ===== *)
theory Request
  imports Rio
begin

text \<open>
  Handling one request of the web server (\<open>request.c\<close>): the request line and headers are read from the connection, the name
  of the file is computed from the URI, and the answer is written. The files of the host are parameters. A wrapper
  of \<open>segel.c\<close> that fails ends the process (\<open>Exited\<close>); an overrun of one of the buffers, or the use of one that was never
  written, is a fault (\<open>Broken\<close>).
\<close>

section \<open>Definitions\<close>

datatype stop = Exited string | Broken fault

definition MAXLINE :: nat where "MAXLINE = 8192"
definition MAXBUF :: nat where "MAXBUF = 8192"

type_synonym timeval = "c_long \<times> c_long"

record request_stat =
  thread_id :: size_t
  arrival_time :: timeval
  dispatch_time :: timeval
  total_count :: size_t
  static_count :: size_t
  dynamic_count :: size_t

record file_stat =
  st_regular :: bool
  st_user_read :: bool
  st_user_exec :: bool
  st_size :: nat

text \<open>The host: \<open>stat\<close>, the contents of the files that can be opened, and whether a new process can be made.\<close>

record host =
  stat_of :: "string \<Rightarrow> file_stat option"
  contents :: "string \<Rightarrow> string option"
  can_fork :: bool

text \<open>
  The connection: what comes in, what was sent, what was printed on the console, and the programs that were run, with
  their query strings and the socket as their output.
\<close>

record conn =
  incoming :: rio
  write_answers :: "write_answer list"
  sent :: string
  printed :: string
  programs :: "(string \<times> string) list"

definition crlf :: string where "crlf = [CHR 0x0D, CHR 0x0A]"

text \<open>A text that must fit into a buffer, with its terminating NUL.\<close>

definition in_buffer :: "nat \<Rightarrow> string \<Rightarrow> stop + string" where
  "in_buffer n t = (if length t < n then Inr t else Inl (Broken BufferOverflow))"

definition Rio_writen :: "string \<Rightarrow> conn \<Rightarrow> stop + conn" where
  "Rio_writen buf c =
     (let ((ok, t), rest) = rio_writen (write_answers c) buf; c = c\<lparr>sent := sent c @ t, write_answers := rest\<rparr> in
      if ok then Inr c else Inl (Exited ''Rio_writen error''))"

definition Rio_readlineb :: "conn \<Rightarrow> stop + string option \<times> conn" where
  "Rio_readlineb c =
     (let (r, rp) = rio_readlineb (incoming c) MAXLINE; c = c\<lparr>incoming := rp\<rparr> in
      case r of LineError \<Rightarrow> Inl (Exited ''Rio_readlineb error'')
      | LineEof \<Rightarrow> Inr (None, c)
      | LineRead _ l \<Rightarrow> Inr (Some (takeWhile (\<lambda>ch. ch \<noteq> CHR 0x00) l), c))"

definition print_out :: "string \<Rightarrow> conn \<Rightarrow> conn" where
  "print_out t c = c\<lparr>printed := printed c @ t\<rparr>"

definition show_ld :: "64 word \<Rightarrow> string" where
  "show_ld w = show_int (sint w)"

definition stat_lines :: "request_stat \<Rightarrow> string" where
  "stat_lines rs =
     ''Stat-Req-Arrival:: '' @ show_ld (fst (arrival_time rs)) @ ''.'' @ show_06 (sint (snd (arrival_time rs))) @ crlf @
     ''Stat-Req-Dispatch:: '' @ show_ld (fst (dispatch_time rs)) @ ''.'' @ show_06 (sint (snd (dispatch_time rs))) @ crlf @
     ''Stat-Thread-Id:: '' @ show_ld (thread_id rs) @ crlf @
     ''Stat-Thread-Count:: '' @ show_ld (total_count rs) @ crlf @
     ''Stat-Thread-Static:: '' @ show_ld (static_count rs) @ crlf @
     ''Stat-Thread-Dynamic:: '' @ show_ld (dynamic_count rs) @ crlf"

text \<open>A text is built in a buffer, sent and printed.\<close>

definition send_and_print :: "nat \<Rightarrow> string \<Rightarrow> conn \<Rightarrow> stop + conn" where
  "send_and_print n t c =
     checked_bind (in_buffer n t) (\<lambda>buf. checked_bind (Rio_writen buf c) (\<lambda>c. Inr (print_out buf c)))"

definition error_body :: "string \<Rightarrow> string \<Rightarrow> string \<Rightarrow> string \<Rightarrow> string" where
  "error_body cause errnum shortmsg longmsg =
     ''<html><title>OS-HW3 Error</title>'' @ ''<body bgcolor=fffff>'' @ crlf @ errnum @ '': '' @ shortmsg @ crlf @
     ''<p>'' @ longmsg @ '': '' @ cause @ crlf @ ''<hr>OS-HW3 Web Server'' @ crlf"

definition requestError :: "string \<Rightarrow> string \<Rightarrow> string \<Rightarrow> string \<Rightarrow> request_stat \<Rightarrow> conn \<Rightarrow> stop + conn" where
  "requestError cause errnum shortmsg longmsg rs c =
     checked_bind (in_buffer MAXBUF (error_body cause errnum shortmsg longmsg)) (\<lambda>body.
     checked_bind (send_and_print MAXLINE (''HTTP/1.0 '' @ errnum @ '' '' @ shortmsg @ crlf) c) (\<lambda>c.
     checked_bind (send_and_print MAXLINE (''Content-Type: text/html'' @ crlf) c) (\<lambda>c.
     checked_bind (send_and_print MAXLINE (''Content-Length: '' @ show_nat (length body) @ crlf @ stat_lines rs @ crlf) c) (\<lambda>c.
     checked_bind (Rio_writen body c) (\<lambda>c. Inr (print_out body c))))))"

text \<open>
  The loop over the headers. At the end of the file the buffer keeps what it had; the loop ends only at an empty line.
  The bound on the passes is an argument, and none is the result when it is used up.
\<close>

primrec readhdrs_loop :: "nat \<Rightarrow> string option \<Rightarrow> conn \<Rightarrow> stop + conn option" where
  "readhdrs_loop 0 buf c = Inr None"
| "readhdrs_loop (Suc n) buf c =
     (case buf of None \<Rightarrow> Inl (Broken Uninitialised)
      | Some l \<Rightarrow>
          if l = crlf then Inr (Some c)
          else checked_bind (Rio_readlineb c) (\<lambda>(r, c). readhdrs_loop n (case r of None \<Rightarrow> buf | Some l \<Rightarrow> Some l) c))"

definition requestReadhdrs :: "nat \<Rightarrow> conn \<Rightarrow> stop + conn option" where
  "requestReadhdrs n c = checked_bind (Rio_readlineb c) (\<lambda>(r, c). readhdrs_loop n r c)"

definition public_dir :: string where "public_dir = ''./public/''"

definition requestParseURI :: "string \<Rightarrow> stop + bool \<times> string \<times> string option" where
  "requestParseURI uri =
     (if C_String.contains ''..'' uri then Inr (True, public_dir @ ''home.html'', None)
      else if \<not> C_String.contains ''cgi'' uri then
        if uri = [] then Inl (Broken OutOfBounds)
        else
          let filename = public_dir @ uri @ (if last uri = CHR ''/'' then ''home.html'' else []) in
          checked_bind (in_buffer MAXLINE filename) (\<lambda>filename. Inr (True, filename, Some []))
      else
        let (uri, cgiargs) = (case find_char CHR ''?'' uri of None \<Rightarrow> (uri, []) | Some i \<Rightarrow> (take i uri, drop (i + 1) uri)) in
        checked_bind (in_buffer MAXLINE (public_dir @ uri)) (\<lambda>filename. Inr (False, filename, Some cgiargs)))"

definition requestGetFiletype :: "string \<Rightarrow> string" where
  "requestGetFiletype filename =
     (if C_String.contains ''.html'' filename then ''text/html''
      else if C_String.contains ''.gif'' filename then ''image/gif''
      else if C_String.contains ''.jpg'' filename then ''image/jpeg''
      else ''text/plain'')"

definition dynamic_header :: "request_stat \<Rightarrow> string" where
  "dynamic_header rs = ''HTTP/1.0 200 OK'' @ crlf @ ''Server: OS-HW3 Web Server'' @ crlf @ stat_lines rs"

definition requestServeDynamic :: "host \<Rightarrow> string \<Rightarrow> string \<Rightarrow> request_stat \<Rightarrow> conn \<Rightarrow> stop + conn" where
  "requestServeDynamic h filename cgiargs rs c =
     checked_bind (in_buffer MAXLINE (dynamic_header rs)) (\<lambda>buf.
     checked_bind (Rio_writen buf c) (\<lambda>c.
       if can_fork h then Inr (c\<lparr>programs := programs c @ [(filename, cgiargs)]\<rparr>) else Inl (Exited ''Fork error'')))"

definition static_header :: "string \<Rightarrow> c_int \<Rightarrow> request_stat \<Rightarrow> string" where
  "static_header filename filesize rs =
     ''HTTP/1.0 200 OK'' @ crlf @ ''Server: OS-HW3 Web Server'' @ crlf @
     ''Content-Length: '' @ show_int (sint filesize) @ crlf @
     ''Content-Type: '' @ requestGetFiletype filename @ crlf @ stat_lines rs @ crlf"

text \<open>The whole file is mapped and sent; a mapping of length 0 is refused by the system.\<close>

definition requestServeStatic :: "host \<Rightarrow> string \<Rightarrow> c_int \<Rightarrow> request_stat \<Rightarrow> conn \<Rightarrow> stop + conn" where
  "requestServeStatic h filename filesize rs c =
     (case contents h filename of None \<Rightarrow> Inl (Exited ''Open error'')
      | Some text_of \<Rightarrow>
          if sint filesize \<le> 0 then Inl (Exited ''mmap error'')
          else
            checked_bind (in_buffer MAXBUF (static_header filename filesize rs)) (\<lambda>buf.
            checked_bind (Rio_writen buf c) (\<lambda>c.
              Rio_writen (take (nat (sint filesize)) text_of) c)))"

definition lower :: "char \<Rightarrow> char" where
  "lower c = (if (65 :: nat) \<le> of_char c \<and> of_char c \<le> (90 :: nat) then char_of (of_char c + 32 :: nat) else c)"

text \<open>\<open>sscanf\<close> with three words: a word that is missing leaves its buffer as it was, never written.\<close>

definition scan_request :: "string \<Rightarrow> stop + string \<times> string \<times> string" where
  "scan_request buf =
     (case split_words buf of method # uri # version # _ \<Rightarrow> Inr (method, uri, version) | _ \<Rightarrow> Inl (Broken Uninitialised))"

text \<open>The part of \<open>requestHandle\<close> after the headers.\<close>

definition serve_file :: "host \<Rightarrow> string \<Rightarrow> request_stat \<Rightarrow> conn \<Rightarrow> stop + request_stat \<times> conn" where
  "serve_file h uri rs c =
     checked_bind (requestParseURI uri) (\<lambda>(is_static, filename, cgiargs).
       case stat_of h filename of None \<Rightarrow>
           checked_bind (requestError filename ''404'' ''Not found'' ''OS-HW3 Server could not find this file'' rs c) (\<lambda>c. Inr (rs, c))
       | Some sbuf \<Rightarrow>
           if is_static then
             if \<not> st_regular sbuf \<or> \<not> st_user_read sbuf then
               checked_bind (requestError filename ''403'' ''Forbidden'' ''OS-HW3 Server could not read this file'' rs c) (\<lambda>c. Inr (rs, c))
             else
               let rs = rs\<lparr>static_count := static_count rs + 1\<rparr> in
               checked_bind (requestServeStatic h filename (of_nat (st_size sbuf)) rs c) (\<lambda>c. Inr (rs, c))
           else
             if \<not> st_regular sbuf \<or> \<not> st_user_exec sbuf then
               checked_bind (requestError filename ''403'' ''Forbidden'' ''OS-HW3 Server could not run this CGI program'' rs c) (\<lambda>c. Inr (rs, c))
             else
               let rs = rs\<lparr>dynamic_count := dynamic_count rs + 1\<rparr> in
               checked_bind (requestServeDynamic h filename (the cgiargs) rs c) (\<lambda>c. Inr (rs, c)))"

definition requestHandle :: "nat \<Rightarrow> host \<Rightarrow> request_stat \<Rightarrow> conn \<Rightarrow> stop + (request_stat \<times> conn) option" where
  "requestHandle n h rs c =
     (let rs = rs\<lparr>total_count := total_count rs + 1\<rparr> in
      checked_bind (Rio_readlineb c) (\<lambda>(r, c).
      checked_bind (case r of None \<Rightarrow> Inl (Broken Uninitialised) | Some buf \<Rightarrow> scan_request buf) (\<lambda>(method, uri, version).
        let c = print_out (method @ '' '' @ uri @ '' '' @ version @ [CHR 0x0A]) c in
        if map lower method \<noteq> ''get'' then
          checked_bind (requestError method ''501'' ''Not Implemented'' ''OS-HW3 Server does not implement this method'' rs c) (\<lambda>c.
            Inr (Some (rs, c)))
        else
          checked_bind (requestReadhdrs n c) (\<lambda>c. case c of None \<Rightarrow> Inr None
            | Some c \<Rightarrow> checked_bind (serve_file h uri rs c) (\<lambda>r. Inr (Some r))))))"

section \<open>File names\<close>

fun dots :: "string \<Rightarrow> bool" where
  "dots (c # d # cs) \<longleftrightarrow> c = CHR ''.'' \<and> d = CHR ''.'' \<or> dots (d # cs)"
| "dots _ \<longleftrightarrow> False"

lemma contains_dots: "C_String.contains ''..'' s = dots s"
  by (induction s rule: dots.induct) (auto simp: C_String.contains_def)

lemma dots_append: "xs \<noteq> [] \<Longrightarrow> last xs \<noteq> CHR ''.'' \<Longrightarrow> dots (xs @ ys) \<longleftrightarrow> dots xs \<or> dots ys"
proof (induction xs)
  case (Cons c cs)
  then show ?case by (cases cs; cases ys) auto
qed simp

lemma dots_take: "dots (take i s) \<Longrightarrow> dots s"
  unfolding contains_dots [symmetric] contains_iff by (meson sublist_order.order_trans sublist_take)

lemma parsed_below_public:
  assumes "requestParseURI uri = Inr (is_static, filename, cgiargs)"
  shows "prefix ''./public/'' filename \<and> \<not> C_String.contains ''..'' filename"
proof -
  have pub: "dots (public_dir @ u) = dots u" for u using dots_append [of public_dir u] by (simp add: public_dir_def)
  have home: "dots (u @ ''home.html'') = dots u" if "last u = CHR ''/''" "u \<noteq> []" for u using dots_append [of u "''home.html''"] that by simp
  have "\<exists>u. filename = public_dir @ u \<and> \<not> dots u"
  proof (cases "C_String.contains ''..'' uri")
    case True
    then have "filename = public_dir @ ''home.html''" using assms by (simp add: requestParseURI_def)
    then show ?thesis by (intro exI [of _ "''home.html''"]) simp
  next
    case nodots: False
    have nd: "\<not> dots uri" "\<not> dots (take i uri)" for i using nodots dots_take [of i uri] unfolding contains_dots by blast+
    show ?thesis
    proof (cases "C_String.contains ''cgi'' uri")
      case True
      then have "\<exists>i. filename = public_dir @ uri \<or> filename = public_dir @ take i uri"
        using assms nodots by (auto simp: requestParseURI_def in_buffer_def checked_bind_def split: option.splits if_splits)
      then show ?thesis using nd by blast
    next
      case False
      then have f: "uri \<noteq> []" "filename = public_dir @ (uri @ (if last uri = CHR ''/'' then ''home.html'' else []))"
        using assms nodots by (auto simp: requestParseURI_def in_buffer_def checked_bind_def Let_def split: if_splits)
      moreover have "\<not> dots (uri @ (if last uri = CHR ''/'' then ''home.html'' else []))" using home f(1) nd(1) by simp
      ultimately show ?thesis by blast
    qed
  qed
  then obtain u where u: "filename = public_dir @ u" "\<not> dots u" by blast
  have "\<not> dots filename" using u(2) pub unfolding u(1) by blast
  moreover have "prefix ''./public/'' filename" unfolding u(1) public_dir_def by (rule prefixI) (rule refl)
  ultimately show ?thesis unfolding contains_dots by blast
qed

lemma parse_fits:
  assumes "uri \<noteq> []" "length uri + 18 < MAXLINE"
  shows "\<exists>is_static filename cgiargs. requestParseURI uri = Inr (is_static, filename, cgiargs) \<and> length filename < MAXLINE"
proof -
  have p: "length public_dir = 9" by (simp add: public_dir_def)
  have "length (public_dir @ uri @ (if last uri = CHR ''/'' then ''home.html'' else [])) < MAXLINE"
    "length (public_dir @ uri) < MAXLINE" "length (public_dir @ take i uri) < MAXLINE" "length (public_dir @ ''home.html'') < MAXLINE" for i
    using assms(2) p by (simp_all add: MAXLINE_def)
  then show ?thesis using assms(1) by (simp add: requestParseURI_def in_buffer_def Let_def del: length_append split: option.split) blast
qed

lemma parse_overruns:
  assumes "MAXLINE \<le> length uri + 9" "\<not> C_String.contains ''..'' uri" "\<not> C_String.contains ''cgi'' uri"
  shows "requestParseURI uri = Inl (Broken BufferOverflow)"
proof -
  have "\<not> length (public_dir @ uri @ t) < MAXLINE" for t using assms(1) by (simp add: public_dir_def)
  moreover have "uri \<noteq> []" using assms(1) by (auto simp: MAXLINE_def)
  ultimately show ?thesis using assms(2,3) by (simp add: requestParseURI_def in_buffer_def Let_def del: length_append)
qed

text \<open>
  C38. For every URI the name of the file that is served or run, when there is one, lies below the directory \<open>./public/\<close>: it
  begins with it and contains no two dots in a row that would lead out of it. There is one, and it fits its buffer with
  the zero byte, for every URI of one character or more that leaves at least 19 of the \<open>MAXLINE\<close> bytes of the buffer. Without
  that limit, which the source does not check, a URI without two dots and without \<open>cgi\<close> that leaves 9 bytes or less overruns
  the buffer.
\<close>

theorem files_stay_in_public:
  "(\<forall>is_static filename cgiargs. requestParseURI uri = Inr (is_static, filename, cgiargs) \<longrightarrow>
      prefix ''./public/'' filename \<and> \<not> C_String.contains ''..'' filename)
   \<and> (uri \<noteq> [] \<and> length uri + 19 \<le> MAXLINE \<longrightarrow>
      (\<exists>is_static filename cgiargs. requestParseURI uri = Inr (is_static, filename, cgiargs) \<and> length filename + 1 \<le> MAXLINE))
   \<and> (MAXLINE \<le> length uri + 9 \<and> \<not> C_String.contains ''..'' uri \<and> \<not> C_String.contains ''cgi'' uri \<longrightarrow>
      requestParseURI uri = Inl (Broken BufferOverflow))"
proof -
  have "\<exists>is_static filename cgiargs. requestParseURI uri = Inr (is_static, filename, cgiargs) \<and> length filename + 1 \<le> MAXLINE"
    if "uri \<noteq> []" "length uri + 19 \<le> MAXLINE"
    using parse_fits [OF that(1)] that(2) unfolding Suc_eq_plus1 [symmetric] Suc_le_eq by auto
  then show ?thesis using parsed_below_public parse_overruns by blast
qed

theorem files_stay_in_public_witness:
  "requestParseURI ''/../../etc/passwd'' = Inr (True, ''./public/home.html'', None) \<and> \<not> C_String.contains ''..'' ''./public/home.html''
   \<and> (\<exists>is_static filename cgiargs. requestParseURI ''/a'' = Inr (is_static, filename, cgiargs) \<and> length filename + 1 \<le> MAXLINE)
   \<and> requestParseURI (replicate 8183 CHR ''a'') = Inl (Broken BufferOverflow)"
proof -
  have r: "requestParseURI ''/../../etc/passwd'' = Inr (True, ''./public/home.html'', None)" by code_simp
  have "\<not> C_String.contains (c # t) (replicate n CHR ''a'')" if "c \<noteq> CHR ''a''" for c t n
    using that set_mono_sublist [of "c # t" "replicate n CHR ''a''"] unfolding contains_iff by (auto split: if_splits)
  then have n: "\<not> C_String.contains ''..'' (replicate n CHR ''a'')" "\<not> C_String.contains ''cgi'' (replicate n CHR ''a'')" for n by simp_all
  have l: "length ''/a'' + 19 \<le> MAXLINE" "MAXLINE \<le> length (replicate 8183 CHR ''a'') + 9" by (simp_all add: MAXLINE_def)
  show ?thesis
    using r files_stay_in_public [of "''/../../etc/passwd''"] files_stay_in_public [of "''/a''"] l(1)
      files_stay_in_public [of "replicate 8183 CHR ''a''"] l(2) n [of 8183] by blast
qed

section \<open>Reading the request\<close>

definition is_line :: "string \<Rightarrow> bool" where
  "is_line l \<longleftrightarrow> ends_line l \<and> CHR 0x0A \<notin> set (butlast l) \<and> CHR 0x00 \<notin> set l \<and> length l < MAXLINE"

lemma first_line_append: "is_line l \<Longrightarrow> first_line (l @ rest) = l"
proof -
  have "CHR 0x0A \<notin> set u \<Longrightarrow> first_line (u @ CHR 0x0A # v) = u @ [CHR 0x0A]" for u v by (induction u) auto
  moreover assume "is_line l"
  then have "l = butlast l @ [CHR 0x0A]" "CHR 0x0A \<notin> set (butlast l)"
    unfolding is_line_def ends_line_def by (metis append_butlast_last_id)+
  ultimately show ?thesis by (metis append.assoc append_Cons append_Nil)
qed

lemma Rio_readlineb_line:
  assumes "clean (rio_input (incoming c))" "rio_stream (incoming c) = l @ rest" "is_line l"
  shows "\<exists>rp. Rio_readlineb c = Inr (Some l, c\<lparr>incoming := rp\<rparr>) \<and> clean (rio_input rp) \<and> rio_stream rp = rest"
proof -
  have "length l \<le> MAXLINE - 1" using assms(3) by (simp add: is_line_def MAXLINE_def)
  then have l: "take (MAXLINE - 1) (first_line (rio_stream (incoming c))) = l"
    using first_line_append [OF assms(3)] assms(2) by simp
  obtain rp where rp: "readline_loop (MAXLINE - 1) 1 [] (incoming c) = (LineRead (length l) l, rp)" "rio_stream rp = rest" "clean (rio_input rp)"
    using readline_loop_clean [OF assms(1), of 1 "MAXLINE - 1" "[]", unfolded l] assms(2,3)
    by (auto simp: is_line_def ends_line_def)
  moreover have "takeWhile (\<lambda>ch. ch \<noteq> CHR 0x00) l = l" using assms(3) by (auto simp: is_line_def takeWhile_eq_all_conv)
  ultimately show ?thesis by (auto simp: Rio_readlineb_def rio_readlineb_def Let_def)
qed

lemma crlf_line: "is_line crlf"
  by (simp add: is_line_def crlf_def ends_line_def MAXLINE_def)

lemma readhdrs_loop_reads:
  assumes "clean (rio_input (incoming c))" "rio_stream (incoming c) = concat hs @ crlf @ rest" "list_all is_line hs" "crlf \<notin> set hs"
    "Suc (length hs) < n" "l \<noteq> crlf"
  shows "\<exists>rp. readhdrs_loop n (Some l) c = Inr (Some (c\<lparr>incoming := rp\<rparr>)) \<and> clean (rio_input rp) \<and> rio_stream rp = rest"
  using assms
proof (induction hs arbitrary: c l n)
  case Nil
  obtain m where n: "n = Suc (Suc m)" using Nil.prems(5) by (cases n; cases "n - 1") auto
  obtain rp where "Rio_readlineb c = Inr (Some crlf, c\<lparr>incoming := rp\<rparr>)" "clean (rio_input rp)" "rio_stream rp = rest"
    using Rio_readlineb_line [of c crlf rest] Nil.prems(1,2) crlf_line by auto
  then show ?case using Nil.prems(6) n by auto
next
  case (Cons h hs)
  obtain m where n: "n = Suc m" using Cons.prems(5) by (cases n) auto
  obtain rp where rp: "Rio_readlineb c = Inr (Some h, c\<lparr>incoming := rp\<rparr>)" "clean (rio_input rp)" "rio_stream rp = concat hs @ crlf @ rest"
    using Rio_readlineb_line [of c h "concat hs @ crlf @ rest"] Cons.prems(1-3) by auto
  then show ?case using Cons.IH [of "c\<lparr>incoming := rp\<rparr>" m h] Cons.prems n by auto
qed

lemma requestReadhdrs_reads:
  assumes "clean (rio_input (incoming c))" "rio_stream (incoming c) = concat hs @ crlf @ rest" "list_all is_line hs" "crlf \<notin> set hs" "length hs < n"
  shows "\<exists>rp. requestReadhdrs n c = Inr (Some (c\<lparr>incoming := rp\<rparr>)) \<and> clean (rio_input rp) \<and> rio_stream rp = rest"
proof (cases hs)
  case Nil
  obtain m where n: "n = Suc m" using assms(5) by (cases n) auto
  obtain rp where "Rio_readlineb c = Inr (Some crlf, c\<lparr>incoming := rp\<rparr>)" "clean (rio_input rp)" "rio_stream rp = rest"
    using Rio_readlineb_line [of c crlf rest] assms(1,2) crlf_line Nil by auto
  then show ?thesis using n by (auto simp: requestReadhdrs_def)
next
  case (Cons h hs')
  obtain rp where rp: "Rio_readlineb c = Inr (Some h, c\<lparr>incoming := rp\<rparr>)" "clean (rio_input rp)" "rio_stream rp = concat hs' @ crlf @ rest"
    using Rio_readlineb_line [of c h "concat hs' @ crlf @ rest"] assms(1-3) Cons by auto
  then show ?thesis using readhdrs_loop_reads [of "c\<lparr>incoming := rp\<rparr>" hs' rest n h] assms(3-5) Cons
    by (auto simp: requestReadhdrs_def)
qed

end
