(* ===== verification/Request_Answers.thy ===== *)
theory Request_Answers
  imports Request
begin

text \<open>
  What the web server answers to a request. \<open>response\<close> is the specification: a function of the method, the URI and the files
  of the host, without buffers, partial reads and writes, or loops. The functions of \<open>request.c\<close> implement it on every
  connection on which no call fails, however the request is cut up by the network, as long as method and URI are
  short enough for the buffers.
\<close>

section \<open>The specification\<close>

definition error_response :: "string \<Rightarrow> string \<Rightarrow> string \<Rightarrow> string \<Rightarrow> request_stat \<Rightarrow> string" where
  "error_response cause errnum shortmsg longmsg rs =
     ''HTTP/1.0 '' @ errnum @ '' '' @ shortmsg @ crlf @ ''Content-Type: text/html'' @ crlf @
     ''Content-Length: '' @ show_nat (length (error_body cause errnum shortmsg longmsg)) @ crlf @ stat_lines rs @ crlf @
     error_body cause errnum shortmsg longmsg"

text \<open>The file a URI stands for, whether it is to be run, and its query string.\<close>

definition target :: "string \<Rightarrow> bool \<times> string \<times> string" where
  "target uri =
     (if C_String.contains ''..'' uri then (True, public_dir @ ''home.html'', [])
      else if C_String.contains ''cgi'' uri then
        (False, public_dir @ takeWhile (\<lambda>c. c \<noteq> CHR ''?'') uri, tl (dropWhile (\<lambda>c. c \<noteq> CHR ''?'') uri))
      else (True, public_dir @ uri @ (if last uri = CHR ''/'' then ''home.html'' else []), []))"

definition response :: "host \<Rightarrow> string \<Rightarrow> string \<Rightarrow> request_stat \<Rightarrow> request_stat \<times> string \<times> (string \<times> string) list" where
  "response h method uri rs =
     (let rs = rs\<lparr>total_count := total_count rs + 1\<rparr>; (is_static, filename, query) = target uri in
      if map lower method \<noteq> ''get'' then
        (rs, error_response method ''501'' ''Not Implemented'' ''OS-HW3 Server does not implement this method'' rs, [])
      else case stat_of h filename of
        None \<Rightarrow> (rs, error_response filename ''404'' ''Not found'' ''OS-HW3 Server could not find this file'' rs, [])
      | Some st \<Rightarrow>
          if is_static \<and> (\<not> st_regular st \<or> \<not> st_user_read st) then
            (rs, error_response filename ''403'' ''Forbidden'' ''OS-HW3 Server could not read this file'' rs, [])
          else if \<not> is_static \<and> (\<not> st_regular st \<or> \<not> st_user_exec st) then
            (rs, error_response filename ''403'' ''Forbidden'' ''OS-HW3 Server could not run this CGI program'' rs, [])
          else if is_static then
            let rs = rs\<lparr>static_count := static_count rs + 1\<rparr> in
            (rs, static_header filename (of_nat (st_size st)) rs @ the (contents h filename), [])
          else
            let rs = rs\<lparr>dynamic_count := dynamic_count rs + 1\<rparr> in (rs, dynamic_header rs, [(filename, query)]))"

text \<open>
  A host on which every file that can be read has the size \<open>stat\<close> tells, is not empty and is smaller than 2 GB, and on which
  processes can be made.
\<close>

definition host_ok :: "host \<Rightarrow> bool" where
  "host_ok h \<longleftrightarrow> can_fork h \<and> (\<forall>f st. stat_of h f = Some st \<longrightarrow> st_regular st \<longrightarrow> st_user_read st \<longrightarrow>
     (\<exists>t. contents h f = Some t \<and> length t = st_size st \<and> 0 < st_size st \<and> st_size st < 2 ^ 31))"

section \<open>Sizes\<close>

lemma show_nat_length: "n < 10 ^ Suc k \<Longrightarrow> length (show_nat n) \<le> Suc k"
proof (induction k arbitrary: n)
  case 0
  then show ?case by (subst show_nat.simps) simp
next
  case (Suc k)
  have "n div 10 < 10 ^ Suc k" using Suc.prems by (simp add: div_less_iff_less_mult mult.commute)
  from Suc.IH [OF this] show ?case by (subst show_nat.simps) simp
qed

lemma abs_sint_64: "nat \<bar>sint (w :: 64 word)\<bar> < 10 ^ Suc 18"
  using sint_ge [of w] sint_lt [of w] by simp

lemma show_ld_length: "length (show_ld w) \<le> 20"
proof -
  have "length (show_nat (nat \<bar>sint w\<bar>)) \<le> 19" using show_nat_length [OF abs_sint_64 [of w]] by simp
  then show ?thesis by (auto simp: show_ld_def show_int_def)
qed

lemma show_06_length: "length (show_06 (sint (w :: 64 word))) \<le> 20"
  using show_nat_length [OF abs_sint_64 [of w]] by (auto simp: show_06_def Let_def)

lemma crlf_length [simp]: "length crlf = 2"
  by (simp add: crlf_def)

lemma stat_lines_length: "length (stat_lines rs) \<le> 400"
proof -
  have "length (stat_lines rs) = 133 + length (show_ld (fst (arrival_time rs))) + length (show_06 (sint (snd (arrival_time rs))))
    + length (show_ld (fst (dispatch_time rs))) + length (show_06 (sint (snd (dispatch_time rs)))) + length (show_ld (thread_id rs))
    + length (show_ld (total_count rs)) + length (show_ld (static_count rs)) + length (show_ld (dynamic_count rs))"
    by (simp add: stat_lines_def)
  then show ?thesis
    using show_ld_length [of "fst (arrival_time rs)"] show_06_length [of "snd (arrival_time rs)"] show_ld_length [of "fst (dispatch_time rs)"]
      show_06_length [of "snd (dispatch_time rs)"] show_ld_length [of "thread_id rs"] show_ld_length [of "total_count rs"]
      show_ld_length [of "static_count rs"] show_ld_length [of "dynamic_count rs"] by linarith
qed

lemma error_body_length: "length (error_body cause errnum shortmsg longmsg) = 89 + length cause + length errnum + length shortmsg + length longmsg"
  by (simp add: error_body_def)

section \<open>Sending\<close>

definition sends :: "conn \<Rightarrow> string \<Rightarrow> conn \<Rightarrow> bool" where
  "sends c t c' \<longleftrightarrow> sent c' = sent c @ t \<and> programs c' = programs c \<and> incoming c' = incoming c \<and> WriteError \<notin> set (write_answers c')"

lemma sends_trans: "sends c t c' \<Longrightarrow> sends c' u c'' \<Longrightarrow> sends c (t @ u) c''"
  by (simp add: sends_def)

lemma sends_print: "sends c t c' \<Longrightarrow> sends c t (print_out u c')"
  by (simp add: sends_def print_out_def)

lemma Rio_writen_sends:
  assumes "WriteError \<notin> set (write_answers c)"
  shows "\<exists>c'. Rio_writen t c = Inr c' \<and> sends c t c'"
proof -
  obtain w where "rio_writen (write_answers c) t = ((True, t), w)" "set w \<subseteq> set (write_answers c)"
    using rio_writen_clean [OF assms] by blast
  then show ?thesis using assms by (auto simp: Rio_writen_def sends_def)
qed

lemma in_buffer_ok: "length t < n \<Longrightarrow> in_buffer n t = Inr t"
  by (simp add: in_buffer_def)

lemma send_and_print_sends:
  assumes "WriteError \<notin> set (write_answers c)" "length t < n"
  shows "\<exists>c'. send_and_print n t c = Inr c' \<and> sends c t c'"
  using Rio_writen_sends [OF assms(1), of t] in_buffer_ok [OF assms(2)] by (auto simp: send_and_print_def intro: sends_print)

lemma sends_ok: "sends c t c' \<Longrightarrow> WriteError \<notin> set (write_answers c')"
  by (simp add: sends_def)

lemma requestError_sends:
  assumes ok: "WriteError \<notin> set (write_answers c)" and len: "length cause \<le> 5000" "length errnum \<le> 10" "length shortmsg \<le> 100" "length longmsg \<le> 100"
  shows "\<exists>c'. requestError cause errnum shortmsg longmsg rs c = Inr c' \<and> sends c (error_response cause errnum shortmsg longmsg rs) c'"
proof -
  let ?b = "error_body cause errnum shortmsg longmsg"
  have b: "length ?b < MAXBUF" "length ?b < 10 ^ Suc 3" using len by (simp_all add: error_body_length MAXBUF_def)
  let ?h1 = "''HTTP/1.0 '' @ errnum @ '' '' @ shortmsg @ crlf" and ?h2 = "''Content-Type: text/html'' @ crlf"
    and ?h3 = "''Content-Length: '' @ show_nat (length ?b) @ crlf @ stat_lines rs @ crlf"
  have l: "length ?h1 < MAXLINE" "length ?h2 < MAXLINE" "length ?h3 < MAXLINE"
    using len show_nat_length [OF b(2)] stat_lines_length [of rs] by (simp_all add: MAXLINE_def)
  obtain c1 where c1: "send_and_print MAXLINE ?h1 c = Inr c1" "sends c ?h1 c1" using send_and_print_sends [OF ok l(1)] by blast
  obtain c2 where c2: "send_and_print MAXLINE ?h2 c1 = Inr c2" "sends c1 ?h2 c2"
    using send_and_print_sends [OF sends_ok [OF c1(2)] l(2)] by blast
  obtain c3 where c3: "send_and_print MAXLINE ?h3 c2 = Inr c3" "sends c2 ?h3 c3"
    using send_and_print_sends [OF sends_ok [OF c2(2)] l(3)] by blast
  obtain c4 where c4: "Rio_writen ?b c3 = Inr c4" "sends c3 ?b c4" using Rio_writen_sends [OF sends_ok [OF c3(2)]] by blast
  have "requestError cause errnum shortmsg longmsg rs c = Inr (print_out ?b c4)"
    unfolding requestError_def in_buffer_ok [OF b(1)] checked_bind_simps c1(1) c2(1) c3(1) c4(1) ..
  moreover have "sends c (?h1 @ ?h2 @ ?h3 @ ?b) (print_out ?b c4)"
    by (rule sends_print, rule sends_trans [OF c1(2)], rule sends_trans [OF c2(2)], rule sends_trans [OF c3(2) c4(2)])
  ultimately show ?thesis by (simp add: error_response_def)
qed

lemma filetype_length: "length (requestGetFiletype f) \<le> 10"
  by (simp add: requestGetFiletype_def)

lemma requestServeStatic_sends:
  assumes ok: "WriteError \<notin> set (write_answers c)" and f: "contents h f = Some t" "0 < length t" "length t < 2 ^ 31"
  shows "\<exists>c'. requestServeStatic h f (of_nat (length t)) rs c = Inr c' \<and> sends c (static_header f (of_nat (length t)) rs @ t) c'"
proof -
  let ?n = "of_nat (length t) :: c_int"
  have n: "sint ?n = int (length t)" 
  proof -
    have "?n = word_of_int (int (length t))" by simp
    then show ?thesis using f(3) by (simp only: sint_sbintrunc') (simp add: signed_take_bit_int_eq_self)
  qed
  have "length (show_int (int (length t))) \<le> 10" using show_nat_length [of "length t" 9] f(3) by (simp add: show_int_def)
  then have l: "length (static_header f ?n rs) < MAXBUF"
    using filetype_length [of f] stat_lines_length [of rs] by (simp add: static_header_def n MAXBUF_def)
  obtain c1 where c1: "Rio_writen (static_header f ?n rs) c = Inr c1" "sends c (static_header f ?n rs) c1"
    using Rio_writen_sends [OF ok] by blast
  obtain c2 where c2: "Rio_writen t c1 = Inr c2" "sends c1 t c2" using Rio_writen_sends [OF sends_ok [OF c1(2)]] by blast
  have "requestServeStatic h f ?n rs c = Inr c2"
    using f(1,2) n by (simp add: requestServeStatic_def in_buffer_ok [OF l] c1(1) c2(1))
  then show ?thesis using sends_trans [OF c1(2) c2(2)] by blast
qed

lemma requestServeDynamic_sends:
  assumes ok: "WriteError \<notin> set (write_answers c)" and "can_fork h"
  shows "\<exists>c'. requestServeDynamic h f a rs c = Inr (c'\<lparr>programs := programs c @ [(f, a)]\<rparr>) \<and> sends c (dynamic_header rs) c'"
proof -
  have l: "length (dynamic_header rs) < MAXLINE" using stat_lines_length [of rs] by (simp add: dynamic_header_def MAXLINE_def)
  obtain c1 where "Rio_writen (dynamic_header rs) c = Inr c1" "sends c (dynamic_header rs) c1" using Rio_writen_sends [OF ok] by blast
  then show ?thesis using assms(2) by (auto simp: requestServeDynamic_def in_buffer_ok [OF l] sends_def)
qed

lemma requestParseURI_target:
  assumes "uri \<noteq> []" "length uri \<le> 4000"
  shows "\<exists>a. requestParseURI uri = Inr (fst (target uri), fst (snd (target uri)), a) \<and> (fst (target uri) \<or> a = Some (snd (snd (target uri))))
    \<and> length (fst (snd (target uri))) \<le> 5000"
proof -
  have d: "length public_dir = 9" by (simp add: public_dir_def)
  have q: "take i uri = takeWhile (\<lambda>c. c \<noteq> CHR ''?'') uri" "drop (i + 1) uri = tl (dropWhile (\<lambda>c. c \<noteq> CHR ''?'') uri)"
    if "find_char CHR ''?'' uri = Some i" for i
  proof -
    note F = find_char_Some [OF that]
    have "takeWhile (\<lambda>c. c \<noteq> CHR ''?'') (take i uri @ CHR ''?'' # drop (Suc i) uri) = take i uri"
      "dropWhile (\<lambda>c. c \<noteq> CHR ''?'') (take i uri @ CHR ''?'' # drop (Suc i) uri) = CHR ''?'' # drop (Suc i) uri"
      using F(2) by (subst takeWhile_append2 dropWhile_append2; auto)+
    then show "take i uri = takeWhile (\<lambda>c. c \<noteq> CHR ''?'') uri" "drop (i + 1) uri = tl (dropWhile (\<lambda>c. c \<noteq> CHR ''?'') uri)"
      using F(1) by simp_all
  qed
  have n: "takeWhile (\<lambda>c. c \<noteq> CHR ''?'') uri = uri" "dropWhile (\<lambda>c. c \<noteq> CHR ''?'') uri = []" if "find_char CHR ''?'' uri = None"
    using that find_char_None [of "CHR ''?''" uri] by (auto simp: takeWhile_eq_all_conv dropWhile_eq_Nil_conv)
  have tw: "length (takeWhile P uri) \<le> 4000" for P using length_takeWhile_le [of P uri] assms(2) by linarith
  consider "C_String.contains ''..'' uri" | "\<not> C_String.contains ''..'' uri" "\<not> C_String.contains ''cgi'' uri"
    | "\<not> C_String.contains ''..'' uri" "C_String.contains ''cgi'' uri" by blast
  then show ?thesis
  proof cases
    case 1
    then show ?thesis using d by (simp add: requestParseURI_def target_def)
  next
    case 2
    then show ?thesis using assms d by (simp add: requestParseURI_def target_def in_buffer_def Let_def MAXLINE_def)
  next
    case 3
    note s = 3 assms d requestParseURI_def target_def in_buffer_def MAXLINE_def
    show ?thesis
    proof (cases "find_char CHR ''?'' uri")
      case None
      have "length uri \<le> 4991 \<and> length uri < 8183" using assms(2) by linarith
      then show ?thesis by (simp add: s None n [OF None])
    next
      case (Some i)
      have "length (takeWhile (\<lambda>c. c \<noteq> CHR ''?'') uri) \<le> 4000" by (rule tw)
      then show ?thesis using q [OF Some] by (simp add: s Some)
    qed
  qed
qed

section \<open>The answer\<close>

text \<open>
  A request as it arrives: the request line, the header lines, an empty line, and what comes after them.
\<close>

definition arrives :: "conn \<Rightarrow> string \<Rightarrow> string list \<Rightarrow> string \<Rightarrow> bool" where
  "arrives c l hs rest \<longleftrightarrow> clean (rio_input (incoming c)) \<and> WriteError \<notin> set (write_answers c)
     \<and> rio_stream (incoming c) = l @ concat hs @ crlf @ rest \<and> is_line l \<and> list_all is_line hs \<and> crlf \<notin> set hs"

lemma sends_outer:
  "sends (c\<lparr>incoming := rp\<rparr>) t c' \<Longrightarrow> sent c' = sent c @ t \<and> programs c' = programs c"
  by (simp add: sends_def)

lemma serve_file_answers:
  assumes h: "host_ok h" and ok: "WriteError \<notin> set (write_answers c)" and uri: "uri \<noteq> []" "length uri \<le> 4000"
    and m: "map lower method = ''get''" and r: "response h method uri rs = (rs', t, ps)"
  shows "\<exists>c'. serve_file h uri (rs\<lparr>total_count := total_count rs + 1\<rparr>) c = Inr (rs', c') \<and> sent c' = sent c @ t \<and> programs c' = programs c @ ps"
proof -
  let ?rs = "rs\<lparr>total_count := total_count rs + 1\<rparr>"
  obtain st f q where tg: "target uri = (st, f, q)" by (cases "target uri") auto
  obtain a where p: "requestParseURI uri = Inr (st, f, a)" "st \<or> a = Some q" "length f \<le> 5000"
    using requestParseURI_target [OF uri] tg by auto
  note R = r [unfolded response_def tg Let_def prod.case] and S = serve_file_def p(1)
  have err: "\<exists>c'. checked_bind (requestError f e x y ?rs c) (\<lambda>c. Inr (?rs, c)) = Inr (?rs, c') \<and> sent c' = sent c @ error_response f e x y ?rs \<and> programs c' = programs c"
    if "length e \<le> 10" "length x \<le> 100" "length y \<le> 100" for e x y
    using requestError_sends [OF ok p(3) that, of ?rs] by (auto simp: sends_def)
  show ?thesis
  proof (cases "stat_of h f")
    case None
    then show ?thesis using R m err [of "''404''" "''Not found''" "''OS-HW3 Server could not find this file''"] by (auto simp: S)
  next
    case (Some sb)
    show ?thesis
    proof (cases st)
      case True
      show ?thesis
      proof (cases "st_regular sb \<and> st_user_read sb")
        case good: True
        then obtain u where u: "contents h f = Some u" "length u = st_size sb" "0 < length u" "length u < 2 ^ 31"
          using h Some by (auto simp: host_ok_def)
        from requestServeStatic_sends [OF ok u(1,3,4), of "?rs\<lparr>static_count := static_count ?rs + 1\<rparr>"]
        show ?thesis using R m True good Some u(1,2) by (auto simp: S sends_def)
      next
        case False
        then show ?thesis
          using R m True Some err [of "''403''" "''Forbidden''" "''OS-HW3 Server could not read this file''"] by (auto simp: S)
      qed
    next
      case dyn: False
      show ?thesis
      proof (cases "st_regular sb \<and> st_user_exec sb")
        case True
        have "can_fork h" using h by (simp add: host_ok_def)
        from requestServeDynamic_sends [OF ok this, of f q "?rs\<lparr>dynamic_count := dynamic_count ?rs + 1\<rparr>"]
        show ?thesis using R m True dyn Some p(2) by (auto simp: S sends_def)
      next
        case False
        then show ?thesis
          using R m dyn Some err [of "''403''" "''Forbidden''" "''OS-HW3 Server could not run this CGI program''"] by (auto simp: S)
      qed
    qed
  qed
qed

lemma requestHandle_responds:
  assumes "arrives c l hs rest" "split_words l = method # uri # version # ws" "length method \<le> 4000" "length uri \<le> 4000"
    and "host_ok h" "length hs < n" "response h method uri rs = (rs', t, ps)"
  shows "\<exists>c'. requestHandle n h rs c = Inr (Some (rs', c')) \<and> sent c' = sent c @ t \<and> programs c' = programs c @ ps"
proof -
  note A = assms(1) [unfolded arrives_def]
  obtain rp where rp: "Rio_readlineb c = Inr (Some l, c\<lparr>incoming := rp\<rparr>)" "clean (rio_input rp)" "rio_stream rp = concat hs @ crlf @ rest"
    using Rio_readlineb_line [of c l "concat hs @ crlf @ rest"] A by auto
  define c1 where "c1 = print_out (method @ '' '' @ uri @ '' '' @ version @ [CHR 0x0A]) (c\<lparr>incoming := rp\<rparr>)"
  have c1: "incoming c1 = rp" "sent c1 = sent c" "programs c1 = programs c" "WriteError \<notin> set (write_answers c1)"
    using A by (simp_all add: c1_def print_out_def)
  have scan: "scan_request l = Inr (method, uri, version)" using assms(2) by (simp add: scan_request_def)
  have uri: "uri \<noteq> []" using split_words_ok [of uri l] assms(2) by (simp add: word_ok_def)
  let ?rs = "rs\<lparr>total_count := total_count rs + 1\<rparr>"
  have H: "requestHandle n h rs c = (if map lower method \<noteq> ''get'' then
        checked_bind (requestError method ''501'' ''Not Implemented'' ''OS-HW3 Server does not implement this method'' ?rs c1) (\<lambda>c. Inr (Some (?rs, c)))
      else checked_bind (requestReadhdrs n c1) (\<lambda>c. case c of None \<Rightarrow> Inr None
        | Some c \<Rightarrow> checked_bind (serve_file h uri ?rs c) (\<lambda>r. Inr (Some r))))"
    unfolding requestHandle_def rp(1) checked_bind_simps prod.case option.case scan Let_def c1_def [symmetric] ..
  show ?thesis
  proof (cases "map lower method = ''get''")
    case True
    obtain rp2 where "requestReadhdrs n c1 = Inr (Some (c1\<lparr>incoming := rp2\<rparr>))"
      using requestReadhdrs_reads [of c1 hs rest n] c1(1) rp(2,3) A assms(6) by auto
    moreover have "WriteError \<notin> set (write_answers (c1\<lparr>incoming := rp2\<rparr>))" using c1(4) by simp
    note serve_file_answers [OF assms(5) this uri assms(4) True assms(7)]
    ultimately show ?thesis using True c1(2,3) by (auto simp: H)
  next
    case False
    obtain c2 where c2: "requestError method ''501'' ''Not Implemented'' ''OS-HW3 Server does not implement this method'' ?rs c1 = Inr c2"
        "sends c1 (error_response method ''501'' ''Not Implemented'' ''OS-HW3 Server does not implement this method'' ?rs) c2"
      using requestError_sends [OF c1(4), of "method" "''501''" "''Not Implemented''" "''OS-HW3 Server does not implement this method''" ?rs] assms(3) by auto
    then show ?thesis using False assms(7) c1(2,3) by (auto simp: H response_def Let_def case_prod_unfold sends_def)
  qed
qed

text \<open>
  C5. On a connection on which no call fails, and however the network cuts the request up, the server answers a request
  with a method and a URI of ordinary length exactly as the specification says: 501 for a method other than GET, 404 for a
  missing file, 403 for one that may not be read or run, and otherwise the headers followed by the whole file, or the
  run of the program with its query string; the counters of the thread are advanced accordingly. As many passes over the
  headers as there are lines are enough.
\<close>

theorem request_answered:
  assumes "arrives c l hs rest" "split_words l = method # uri # version # ws" "length method \<le> 4000" "length uri \<le> 4000"
    and "host_ok h" "length hs < n" "response h method uri rs = (rs', t, ps)"
  shows "\<exists>c'. requestHandle n h rs c = Inr (Some (rs', c')) \<and> sent c' = sent c @ t \<and> programs c' = programs c @ ps"
  using assms by (rule requestHandle_responds)

definition demo_host :: host where
  "demo_host = \<lparr>stat_of = [''./public//a'' \<mapsto> \<lparr>st_regular = True, st_user_read = True, st_user_exec = False, st_size = 5\<rparr>],
     contents = [''./public//a'' \<mapsto> ''hello''], can_fork = True\<rparr>"

definition demo_stat :: request_stat where
  "demo_stat = \<lparr>thread_id = 1, arrival_time = (5, 10), dispatch_time = (6, 20), total_count = 3, static_count = 2, dynamic_count = 0\<rparr>"

definition demo_conn :: "read_answer list \<Rightarrow> conn" where
  "demo_conn input = \<lparr>incoming = rio_readinitb input, write_answers = [], sent = [], printed = [], programs = []\<rparr>"

theorem request_answered_witness:
  "\<exists>rs' c'. requestHandle 1 demo_host demo_stat (demo_conn [Bytes ''GET /a HT'', ReadInterrupted, Bytes (''TP/1.0'' @ crlf @ crlf)]) = Inr (Some (rs', c'))
     \<and> sent c' = static_header ''./public//a'' 5 rs' @ ''hello'' \<and> total_count rs' = 4 \<and> static_count rs' = 3"
proof -
  let ?c = "demo_conn [Bytes ''GET /a HT'', ReadInterrupted, Bytes (''TP/1.0'' @ crlf @ crlf)]" and ?l = "''GET /a HTTP/1.0'' @ crlf"
  let ?rs = "demo_stat\<lparr>total_count := 4, static_count := 3\<rparr>"
  have a: "arrives ?c ?l [] []"
    by (simp add: arrives_def demo_conn_def rio_readinitb_def rio_stream_def clean_def is_line_def ends_line_def crlf_def MAXLINE_def)
  have w: "split_words ?l = [''GET'', ''/a'', ''HTTP/1.0'']" by code_simp
  have h: "host_ok demo_host" by (simp add: host_ok_def demo_host_def)
  have m: "map lower ''GET'' = ''get''" "target ''/a'' = (True, ''./public//a'', [])" by code_simp+
  have r: "response demo_host ''GET'' ''/a'' demo_stat = (?rs, static_header ''./public//a'' 5 ?rs @ ''hello'', [])"
    unfolding response_def m Let_def prod.case by (simp add: demo_host_def demo_stat_def)
  from request_answered [OF a w _ _ h _ r, of 1]
  show ?thesis by (auto simp: demo_conn_def)
qed

section \<open>Requests that stop the server\<close>

text \<open>A request whose headers do not end with an empty line before the client closes its side is never finished.\<close>

lemma readhdrs_never_ends:
  assumes "rio_input (incoming c) = []" "rio_left (incoming c) = []" "l \<noteq> crlf"
  shows "readhdrs_loop n (Some l) c = Inr None"
proof -
  have "readline_loop (MAXLINE - 1) 1 [] (incoming c) = (LineEof, incoming c)"
  proof -
    obtain k where k: "MAXLINE - 1 = Suc k" by (cases "MAXLINE - 1") (simp_all add: MAXLINE_def)
    have "rio_read 1 (incoming c) = (Some [], incoming c)" using assms(1,2) by (simp add: rio_read_def)
    then show ?thesis unfolding k by simp
  qed
  then have "Rio_readlineb c = Inr (None, c)" by (simp add: Rio_readlineb_def rio_readlineb_def Let_def)
  then show ?thesis using assms(3) by (induction n) simp_all
qed

text \<open>A request for an empty file ends the whole server: the file cannot be mapped.\<close>

lemma empty_file_ends_server:
  assumes "requestParseURI uri = Inr (True, f, a)" "stat_of h f = Some st" "st_regular st" "st_user_read st" "st_size st = 0" "contents h f = Some []"
  shows "serve_file h uri rs c = Inl (Exited ''mmap error'')"
  using assms by (simp add: serve_file_def requestServeStatic_def)

end
