(* ===== verification/Server_Answers.thy ===== *)
theory Server_Answers
  imports Server_Main Request_Answers
begin

text \<open>
  The server as a whole: the threads of \<open>server.c\<close> (\<open>Server_Threads\<close>) with what they do outside the mutex. Between taking a request and closing its
  connection a worker of \<open>request_handle_thread\<close> fills in its statistics and calls \<open>requestHandle\<close> (\<open>Request\<close>) on the connection.
  The time of the day is arbitrary; the client at the other end of a connection is one of \<open>clients\<close>. A worker whose \<open>requestHandle\<close> does
  not return, or ends the process, does not step; \<open>Close\<close> of the open descriptor of the connection succeeds.
\<close>

section \<open>What a worker does with a request\<close>

text \<open>\<open>timersub\<close> of \<open>sys/time.h\<close>.\<close>

definition timersub :: "Cyclic_Queue.timeval \<Rightarrow> Cyclic_Queue.timeval \<Rightarrow> Cyclic_Queue.timeval" where
  "timersub a b =
     (let sec = tv_sec a - tv_sec b; usec = tv_usec a - tv_usec b in
      if sint usec < 0 then \<lparr>tv_sec = sec - 1, tv_usec = usec + 1000000\<rparr> else \<lparr>tv_sec = sec, tv_usec = usec\<rparr>)"

definition time_pair :: "Cyclic_Queue.timeval \<Rightarrow> c_long \<times> c_long" where
  "time_pair t = (tv_sec t, tv_usec t)"

definition first_stat :: "nat \<Rightarrow> request_stat" where
  "first_stat w = \<lparr>thread_id = of_nat w, arrival_time = (0, 0), dispatch_time = (0, 0), total_count = 0, static_count = 0, dynamic_count = 0\<rparr>"

definition dispatch :: "Cyclic_Queue.timeval \<Rightarrow> session \<Rightarrow> request_stat \<Rightarrow> request_stat" where
  "dispatch now c rs = rs\<lparr>request_stat.arrival_time := time_pair (session.arrival_time c),
     dispatch_time := time_pair (timersub now (session.arrival_time c))\<rparr>"

record answer =
  ans_worker :: nat
  ans_session :: session
  ans_conn :: conn
  ans_taken :: Cyclic_Queue.timeval
  ans_stat :: request_stat
  ans_sent :: string
  ans_programs :: "(string \<times> string) list"

text \<open>\<open>taken_at\<close> is the time of the day \<open>gettimeofday\<close> gave a worker when it took its last request.\<close>

record live =
  srv :: server
  taken_at :: "nat \<Rightarrow> Cyclic_Queue.timeval"
  stats :: "nat \<Rightarrow> request_stat"
  answers :: "answer list"

inductive live_step :: "host \<Rightarrow> (session \<Rightarrow> conn set) \<Rightarrow> nat \<Rightarrow> actor \<Rightarrow> live \<Rightarrow> live \<Rightarrow> bool" for h clients N where
  dispatched: "server_step N (Worker w) (srv f) s' \<Longrightarrow> workers (srv f) w = WTest \<Longrightarrow> workers s' w = WRun c \<Longrightarrow>
    live_step h clients N (Worker w) f (f\<lparr>srv := s', taken_at := (taken_at f)(w := now),
      stats := (stats f)(w := dispatch now c (stats f w))\<rparr>)"
| answered: "server_step N (Worker w) (srv f) s' \<Longrightarrow> workers (srv f) w = WRun c \<Longrightarrow> cn \<in> clients c \<Longrightarrow>
    requestHandle n h (stats f w) cn = Inr (Some (rs', cn')) \<Longrightarrow>
    live_step h clients N (Worker w) f (f\<lparr>srv := s', stats := (stats f)(w := rs'), answers := answers f @
      [\<lparr>ans_worker = w, ans_session = c, ans_conn = cn, ans_taken = taken_at f w, ans_stat = stats f w,
        ans_sent = sent cn', ans_programs = programs cn'\<rparr>]\<rparr>)"
| inside: "server_step N a (srv f) s' \<Longrightarrow>
    \<forall>w. a = Worker w \<longrightarrow> workers (srv f) w = WNotify \<or> workers s' w = WSleep \<Longrightarrow>
    live_step h clients N a f (f\<lparr>srv := s'\<rparr>)"

definition live_init :: "nat \<Rightarrow> jobs_manager \<Rightarrow> live" where
  "live_init N m = \<lparr>srv = server_init N m, taken_at = (\<lambda>_. \<lparr>tv_sec = 0, tv_usec = 0\<rparr>), stats = first_stat, answers = []\<rparr>"

inductive live_reachable :: "host \<Rightarrow> (session \<Rightarrow> conn set) \<Rightarrow> nat \<Rightarrow> jobs_manager \<Rightarrow> live \<Rightarrow> bool" for h clients N m where
  start: "live_reachable h clients N m (live_init N m)"
| step: "live_reachable h clients N m f \<Longrightarrow> live_step h clients N a f f' \<Longrightarrow> live_reachable h clients N m f'"

inductive live_workers :: "host \<Rightarrow> (session \<Rightarrow> conn set) \<Rightarrow> nat \<Rightarrow> nat \<Rightarrow> live \<Rightarrow> live \<Rightarrow> bool" for h clients N where
  none: "live_workers h clients N 0 f f"
| more: "live_workers h clients N k f f' \<Longrightarrow> live_step h clients N (Worker w) f' f'' \<Longrightarrow> live_workers h clients N (Suc k) f f''"

section \<open>Clients\<close>

text \<open>A client that sends a request as \<open>request_answered\<close> has it, on a fresh connection: whole lines up to an empty one, with a method and a URI of at most 4000 characters, and no call on the connection fails.\<close>

definition client_asks :: "conn \<Rightarrow> string \<Rightarrow> string \<Rightarrow> bool" where
  "client_asks cn meth uri \<longleftrightarrow> sent cn = [] \<and> programs cn = []
     \<and> (\<exists>l hs rest version ws. arrives cn l hs rest \<and> split_words l = meth # uri # version # ws \<and> length meth \<le> 4000 \<and> length uri \<le> 4000)"

definition clients_ok :: "(session \<Rightarrow> conn set) \<Rightarrow> bool" where
  "clients_ok clients \<longleftrightarrow> (\<forall>c. clients c \<noteq> {} \<and> (\<forall>cn\<in>clients c. \<exists>meth uri. client_asks cn meth uri))"

lemma client_is_answered:
  assumes "client_asks cn meth uri" "host_ok h" "response h meth uri rs = (rs', t, ps)"
  shows "\<exists>k. \<forall>n>k. \<exists>cn'. requestHandle n h rs cn = Inr (Some (rs', cn')) \<and> sent cn' = t \<and> programs cn' = ps"
proof -
  obtain l hs rest version ws where a: "sent cn = []" "programs cn = []" "arrives cn l hs rest" "split_words l = meth # uri # version # ws"
      "length meth \<le> 4000" "length uri \<le> 4000"
    using assms(1) unfolding client_asks_def by blast
  have "\<exists>cn'. requestHandle n h rs cn = Inr (Some (rs', cn')) \<and> sent cn' = t \<and> programs cn' = ps" if "length hs < n" for n
    using requestHandle_responds [OF a(3-6) assms(2) that assms(3)] a(1,2) by simp
  then show ?thesis by blast
qed

text \<open>More passes over the headers do not change an answer.\<close>

lemma readhdrs_loop_mono: "readhdrs_loop n buf c = Inr (Some c') \<Longrightarrow> n \<le> k \<Longrightarrow> readhdrs_loop k buf c = Inr (Some c')"
proof (induction n arbitrary: buf c k)
  case (Suc n)
  then obtain j where k: "k = Suc j" "n \<le> j" by (cases k) auto
  obtain l where l: "buf = Some l" using Suc.prems(1) by (cases buf) auto
  show ?case
  proof (cases "l = crlf")
    case False
    then obtain r c2 where r: "Rio_readlineb c = Inr (r, c2)" using Suc.prems(1) l by (cases "Rio_readlineb c") auto
    then show ?thesis using Suc.IH [OF _ k(2)] Suc.prems(1) False l k(1) by (simp add: split: option.splits)
  qed (use Suc.prems k l in simp)
qed simp

lemma requestHandle_mono:
  assumes "requestHandle n h rs c = Inr (Some r)" "n \<le> k"
  shows "requestHandle k h rs c = Inr (Some r)"
proof -
  have hdrs: "requestReadhdrs k c2 = Inr (Some c')" if "requestReadhdrs n c2 = Inr (Some c')" for c2 c'
    using that readhdrs_loop_mono [OF _ assms(2)] by (cases "Rio_readlineb c2") (auto simp: requestReadhdrs_def)
  obtain b c2 where r: "Rio_readlineb c = Inr (b, c2)" using assms(1) by (cases "Rio_readlineb c") (auto simp: requestHandle_def)
  obtain meth uri version where sc: "(case b of None \<Rightarrow> Inl (Broken Uninitialised) | Some buf \<Rightarrow> scan_request buf) = Inr (meth, uri, version)"
    using assms(1) r by (auto simp: requestHandle_def Let_def checked_bind_Inr_iff)
  show ?thesis
  proof (cases "map lower meth = ''get''")
    case True
    note eq = requestHandle_def [of _ h rs c, unfolded Let_def r checked_bind_simps prod.case sc, unfolded True simp_thms if_False]
    from assms(1) show ?thesis
      unfolding eq checked_bind_Inr_iff using hdrs by (auto split: option.splits)
  next
    case False
    then show ?thesis using assms(1) by (simp add: requestHandle_def r sc)
  qed
qed

lemma answer_is_response:
  assumes "client_asks cn meth uri" "host_ok h" "requestHandle n h rs cn = Inr (Some (rs', cn'))"
  shows "response h meth uri rs = (rs', sent cn', programs cn')"
proof -
  obtain rs2 t ps where r: "response h meth uri rs = (rs2, t, ps)" by (metis prod_cases3)
  obtain k where "\<forall>n>k. \<exists>cn'. requestHandle n h rs cn = Inr (Some (rs2, cn')) \<and> sent cn' = t \<and> programs cn' = ps"
    using client_is_answered [OF assms(1,2) r] by blast
  then obtain cn2 where "requestHandle (n + k + 1) h rs cn = Inr (Some (rs2, cn2))" "sent cn2 = t" "programs cn2 = ps"
    by (metis add.commute add_Suc_shift less_add_Suc1 add.assoc Suc_eq_plus1)
  with requestHandle_mono [OF assms(3), of "n + k + 1"] r show ?thesis by simp
qed

text \<open>A response that sends a file says so in its first line; one that starts a program has that program.\<close>

definition is_file :: "string \<Rightarrow> (string \<times> string) list \<Rightarrow> bool" where
  "is_file t ps \<longleftrightarrow> prefix ''HTTP/1.0 200'' t \<and> ps = []"

lemma is_file_response:
  "is_file (static_header f n rs @ u) []" "\<not> is_file t (p # ps)"
  "\<not> is_file (error_response cause ''501'' sm lm rs) []" "\<not> is_file (error_response cause ''404'' sm lm rs) []"
  "\<not> is_file (error_response cause ''403'' sm lm rs) []"
  by (simp_all add: is_file_def static_header_def error_response_def)

definition counted :: "request_stat \<Rightarrow> request_stat \<times> string \<times> (string \<times> string) list \<Rightarrow> bool" where
  "counted rs r \<longleftrightarrow> (case r of (rs', t, ps) \<Rightarrow> thread_id rs' = thread_id rs \<and> total_count rs' = total_count rs + 1
     \<and> static_count rs' = static_count rs + (if is_file t ps then 1 else 0)
     \<and> dynamic_count rs' = dynamic_count rs + (if ps = [] then 0 else 1))"

lemma counted_response: "counted rs (response h meth uri rs)"
proof -
  obtain st f q where tg: "target uri = (st, f, q)" by (metis prod_cases3)
  let ?rs = "rs\<lparr>total_count := total_count rs + 1\<rparr>"
  have err: "counted rs (?rs, error_response c ''501'' sm lm ?rs, [])" "counted rs (?rs, error_response c ''404'' sm lm ?rs, [])"
    "counted rs (?rs, error_response c ''403'' sm lm ?rs, [])" for c sm lm
    by (simp_all add: counted_def is_file_response)
  have ok: "counted rs (?rs\<lparr>static_count := static_count ?rs + 1\<rparr>, static_header f n rs2 @ u, [])"
    "counted rs (?rs\<lparr>dynamic_count := dynamic_count ?rs + 1\<rparr>, t, [x])" for n rs2 u t x
    by (simp_all add: counted_def is_file_response)
  have cond: "counted rs (if b then x else y)" if "counted rs x" "counted rs y" for b x y using that by simp
  show ?thesis
    unfolding response_def Let_def tg prod.case
    by (cases "stat_of h f"; simp only: option.case; intro cond err ok)
qed

lemma response_counts:
  assumes "response h meth uri rs = (rs', t, ps)"
  shows "thread_id rs' = thread_id rs" "total_count rs' = total_count rs + 1"
    "static_count rs' = static_count rs + (if is_file t ps then 1 else 0)" "dynamic_count rs' = dynamic_count rs + (if ps = [] then 0 else 1)"
  using counted_response [of rs h meth uri] assms by (simp_all add: counted_def)

section \<open>What holds of the answers\<close>

lemma live_step_server: "live_step h clients N a f f' \<Longrightarrow> server_step N a (srv f) (srv f')"
  by (induction rule: live_step.induct) simp_all

lemma live_reachable_server: "live_reachable h clients N m f \<Longrightarrow> server_reachable N m (srv f)"
  by (induction rule: live_reachable.induct) (auto simp: live_init_def intro: server_reachable.intros live_step_server)

fun running :: "worker_pc \<Rightarrow> session multiset" where
  "running (WRun c) = {#c#}"
| "running WNotify = {#}"
| "running WTest = {#}"
| "running WSleep = {#}"

definition count_by :: "nat \<Rightarrow> (answer \<Rightarrow> bool) \<Rightarrow> answer list \<Rightarrow> nat" where
  "count_by w P as = length (filter (\<lambda>a. ans_worker a = w \<and> P a) as)"

lemma count_by_simps [simp]:
  "count_by w P [] = 0" "count_by w P (as @ [a]) = count_by w P as + (if ans_worker a = w \<and> P a then 1 else 0)"
  by (simp_all add: count_by_def)

definition sent_file :: "answer \<Rightarrow> bool" where
  "sent_file a \<longleftrightarrow> is_file (ans_sent a) (ans_programs a)"

definition ran_program :: "answer \<Rightarrow> bool" where
  "ran_program a \<longleftrightarrow> ans_programs a \<noteq> []"

text \<open>The counters of a worker after the answers \<open>as\<close> of the server: all its answers, those that sent a file, those that ran a program.\<close>

definition counters_of :: "nat \<Rightarrow> answer list \<Rightarrow> request_stat \<Rightarrow> bool" where
  "counters_of w as rs \<longleftrightarrow> thread_id rs = of_nat w \<and> total_count rs = of_nat (count_by w (\<lambda>_. True) as)
     \<and> static_count rs = of_nat (count_by w sent_file as) \<and> dynamic_count rs = of_nat (count_by w ran_program as)"

definition times_of :: "Cyclic_Queue.timeval \<Rightarrow> session \<Rightarrow> request_stat \<Rightarrow> bool" where
  "times_of now c rs \<longleftrightarrow> request_stat.arrival_time rs = time_pair (session.arrival_time c)
     \<and> dispatch_time rs = time_pair (timersub now (session.arrival_time c))"

text \<open>
  An answer is as specified: the text and the programs are those of the specification for the statistics the worker had. These name the worker, the
  time of arrival of the session and the time it waited until the worker took it, and count what this worker had done in the earlier answers.
\<close>

definition answer_ok :: "host \<Rightarrow> answer list \<Rightarrow> answer \<Rightarrow> bool" where
  "answer_ok h earlier a \<longleftrightarrow>
     (\<exists>meth uri rs'. client_asks (ans_conn a) meth uri \<and> response h meth uri (ans_stat a) = (rs', ans_sent a, ans_programs a))
     \<and> counters_of (ans_worker a) earlier (ans_stat a) \<and> times_of (ans_taken a) (ans_session a) (ans_stat a)"

definition live_inv :: "host \<Rightarrow> nat \<Rightarrow> live \<Rightarrow> bool" where
  "live_inv h N f \<longleftrightarrow> mset (started (srv f)) = mset (map ans_session (answers f)) + wtotal N running (srv f)
     \<and> (\<forall>i<length (answers f). answer_ok h (take i (answers f)) (answers f ! i))
     \<and> (\<forall>w. counters_of w (answers f) (stats f w))
     \<and> (\<forall>w c. workers (srv f) w = WRun c \<longrightarrow> times_of (taken_at f w) c (stats f w))"

lemma counters_of_dispatch [simp]: "counters_of w as (dispatch now c rs) = counters_of w as rs"
  by (simp add: counters_of_def dispatch_def)

lemma times_of_dispatch [simp]: "times_of now c (dispatch now c rs)"
  by (simp add: times_of_def dispatch_def)

lemma counters_of_answer:
  assumes "counters_of w as rs" "response h meth uri rs = (rs', ans_sent a, ans_programs a)" "ans_worker a = w"
  shows "counters_of w (as @ [a]) rs'"
  using assms response_counts [OF assms(2)] by (simp add: counters_of_def sent_file_def ran_program_def)

lemma counters_of_other: "ans_worker a \<noteq> w \<Longrightarrow> counters_of w (as @ [a]) rs = counters_of w as rs"
  by (simp add: counters_of_def)

lemma live_inv_init: "live_inv h N (live_init N m)"
  by (simp add: live_inv_def live_init_def server_init_def first_stat_def counters_of_def wtotal_def)

inductive_cases worker_stepE: "server_step N (Worker w) s s'"

lemma worker_takes:
  assumes "server_step N (Worker w) s s'" "workers s w = WTest" "workers s' w = WRun c"
  shows "w < N" "workers s' = (workers s)(w := WRun c)" "started s' = started s @ [c]"
  using assms by (auto elim!: worker_stepE)

lemma worker_answers:
  assumes "server_step N (Worker w) s s'" "workers s w = WRun c"
  shows "w < N" "workers s' = (workers s)(w := WNotify)" "started s' = started s"
  using assms by (auto elim!: worker_stepE)

lemma inside_keeps:
  assumes "server_step N a s s'" "\<forall>w. a = Worker w \<longrightarrow> workers s w = WNotify \<or> workers s' w = WSleep"
  shows "started s' = started s" "running (workers s' w) = running (workers s w)"
  using assms by (auto elim!: server_step.cases)

lemma live_inv_step:
  assumes "live_step h clients N a f f'" "live_inv h N f" "clients_ok clients" "host_ok h"
  shows "live_inv h N f'"
  using assms(1)
proof cases
  case (dispatched w s' c now)
  note t = worker_takes [OF dispatched(3-5)]
  have "wtotal N running s' + running (workers (srv f) w) = wtotal N running (srv f) + running (WRun c)"
    using t dispatched(4) by (intro wtotal_upd) auto
  then show ?thesis using assms(2) t dispatched by (auto simp: live_inv_def)
next
  case (answered w s' c cn n rs' cn')
  note t = worker_answers [OF answered(3,4)]
  have r: "wtotal N running s' + running (workers (srv f) w) = wtotal N running (srv f) + running WNotify"
    using t answered(4) by (intro wtotal_upd) auto
  obtain meth uri where q: "client_asks cn meth uri" using assms(3) answered(5) unfolding clients_ok_def by blast
  note resp = answer_is_response [OF q assms(4) answered(6)]
  let ?a = "\<lparr>ans_worker = w, ans_session = c, ans_conn = cn, ans_taken = taken_at f w, ans_stat = stats f w,
      ans_sent = sent cn', ans_programs = programs cn'\<rparr>"
  have cs: "counters_of w (answers f) (stats f w)" using assms(2) by (simp add: live_inv_def)
  have "answer_ok h (answers f) ?a"
    using q resp assms(2) answered(4) unfolding answer_ok_def live_inv_def by auto
  then have "\<forall>i<length (answers f @ [?a]). answer_ok h (take i (answers f @ [?a])) ((answers f @ [?a]) ! i)"
    using assms(2) unfolding live_inv_def by (auto simp: nth_append less_Suc_eq)
  moreover have "counters_of w (answers f @ [?a]) rs'" using counters_of_answer [of w "answers f" "stats f w" h meth uri rs' ?a] cs resp by simp
  moreover have "counters_of v (answers f @ [?a]) (stats f v)" if "v \<noteq> w" for v
    using assms(2) that by (simp add: live_inv_def counters_of_other)
  ultimately show ?thesis using assms(2) t r answered(1,2,4) by (auto simp: live_inv_def)
next
  case (inside s')
  then have "wtotal N running s' = wtotal N running (srv f)"
    using inside_keeps(2) [OF inside(2,3)] by (simp add: wtotal_def)
  moreover have "workers s' w = WRun c \<Longrightarrow> workers (srv f) w = WRun c" for w c
    using inside_keeps(2) [OF inside(2,3), of w] by (cases "workers (srv f) w") auto
  ultimately show ?thesis using assms(2) inside inside_keeps(1) [OF inside(2,3)] by (auto simp: live_inv_def)
qed

lemma live_inv_reachable: "live_reachable h clients N m f \<Longrightarrow> clients_ok clients \<Longrightarrow> host_ok h \<Longrightarrow> live_inv h N f"
  by (induction rule: live_reachable.induct) (auto intro: live_inv_init live_inv_step)

section \<open>Progress\<close>

text \<open>Whatever worker can step in the server without the requests can step with them.\<close>

lemma worker_can_step:
  assumes "server_step N (Worker w) (srv f) s'" "clients_ok clients" "host_ok h"
  shows "\<exists>f'. live_step h clients N (Worker w) f f'"
proof (cases "workers (srv f) w")
  case WTest
  then consider c where "workers s' w = WRun c" | "workers s' w = WSleep" using assms(1) by (auto elim!: worker_stepE)
  then show ?thesis using WTest assms(1) by cases (blast intro: dispatched inside)+
next
  case WSleep
  then show ?thesis using assms(1) by (auto elim!: worker_stepE)
next
  case (WRun c)
  obtain cn meth uri where cn: "cn \<in> clients c" "client_asks cn meth uri" using assms(2) unfolding clients_ok_def by blast
  obtain rs' t ps where "response h meth uri (stats f w) = (rs', t, ps)" by (metis prod_cases3)
  from client_is_answered [OF cn(2) assms(3) this] obtain n cn' where "requestHandle n h (stats f w) cn = Inr (Some (rs', cn'))" by blast
  then show ?thesis using WRun assms(1) cn(1) by (blast intro: answered)
next
  case WNotify
  then show ?thesis using assms(1) by (blast intro: inside)
qed

lemma live_workers_server: "live_workers h clients N k f f' \<Longrightarrow> worker_run N k (srv f) (srv f')"
  by (induction rule: live_workers.induct) (auto intro: worker_run.intros live_step_server)

lemma live_workers_reachable: "live_workers h clients N k f f' \<Longrightarrow> live_reachable h clients N m f \<Longrightarrow> live_reachable h clients N m f'"
  by (induction rule: live_workers.induct) (auto intro: live_reachable.step)

lemma all_asleep_idle:
  assumes "server_inv N s" "0 < N" "\<forall>w<N. workers s w = WSleep"
  shows "jobs (jm s) = []" "wtotal N running s = {#}" "wtotal N held s = {#}" "running_count (jm s) = 0" "master s \<noteq> MWait c"
proof -
  show "jobs (jm s) = []" "wtotal N running s = {#}" "wtotal N held s = {#}" "master s \<noteq> MWait c"
    using someone_awake [OF assms(1,2)] assms(3) by (auto simp: wtotal_def)
  show "running_count (jm s) = 0"
    using running_exists_busy [of N s] assms(1,3) by (auto simp: server_inv_def unat_gt_0)
qed

lemma at_rest_asleep:
  assumes "server_inv N (srv f)" "clients_ok clients" "host_ok h" "\<forall>w f''. \<not> live_step h clients N (Worker w) f f''"
  shows "\<forall>w<N. workers (srv f) w = WSleep"
  using worker_enabled [of N "srv f"] worker_can_step [OF _ assms(2,3)] assms(1,4) unfolding server_inv_def by blast

lemma live_workers_bound:
  assumes "live_workers h clients N k f f'" "server_inv N (srv f)"
  shows "k \<le> 4 * length (jobs (jm (srv f))) + 3 * N"
  using worker_run_bound [OF live_workers_server [OF assms(1)] assms(2)] work_left_bound [of N "srv f"] by simp


definition demo_clients :: "session \<Rightarrow> conn set" where
  "demo_clients c = {demo_conn [Bytes ''GET /a HT'', ReadInterrupted, Bytes (''TP/1.0'' @ crlf @ crlf)]}"

lemma demo_clients_ok: "clients_ok demo_clients"
proof -
  let ?l = "''GET /a HTTP/1.0'' @ crlf" and ?c = "demo_conn [Bytes ''GET /a HT'', ReadInterrupted, Bytes (''TP/1.0'' @ crlf @ crlf)]"
  have "arrives ?c ?l [] []"
    by (simp add: arrives_def demo_conn_def rio_readinitb_def rio_stream_def clean_def is_line_def ends_line_def crlf_def MAXLINE_def)
  moreover have "split_words ?l = [''GET'', ''/a'', ''HTTP/1.0'']" by code_simp
  ultimately have "client_asks ?c ''GET'' ''/a''" unfolding client_asks_def by (fastforce simp: demo_conn_def)
  then show ?thesis unfolding clients_ok_def demo_clients_def by blast
qed

lemma demo_host_ok: "host_ok demo_host"
  by (simp add: host_ok_def demo_host_def)

definition demo_live :: live where
  "demo_live = \<lparr>srv = demo_queued, taken_at = (\<lambda>_. \<lparr>tv_sec = 0, tv_usec = 0\<rparr>), stats = first_stat, answers = []\<rparr>"

lemma main_steps_live: "server_step N Main (srv f) s' \<Longrightarrow> live_step h clients N Main f (f\<lparr>srv := s'\<rparr>)"
  by (rule inside) simp_all

lemma demo_live_reachable: "live_reachable h clients 1 demo_manager demo_live"
proof -
  let ?s1 = "(server_init 1 demo_manager)\<lparr>master := MAdd demo_session, accepted := [demo_session]\<rparr>"
  have 1: "server_step 1 Main (server_init 1 demo_manager) ?s1" and 2: "server_step 1 Main ?s1 demo_queued"
    by (rule demo_steps)+
  have "live_reachable h clients 1 demo_manager (live_init 1 demo_manager\<lparr>srv := ?s1\<rparr>)"
    using 1 by (intro live_reachable.step [OF live_reachable.start main_steps_live]) (simp add: live_init_def)
  from live_reachable.step [OF this main_steps_live, of demo_queued] 2 show ?thesis by (simp add: live_init_def demo_live_def)
qed

lemma worker_step_keeps:
  assumes "live_workers h clients N k f f'" "master (srv f) = MAccept"
  shows "accepted (srv f') = accepted (srv f)" "master (srv f') = MAccept"
  using assms by (induction rule: live_workers.induct) (auto dest!: live_step_server elim!: worker_stepE)

text \<open>The workers do come to rest.\<close>

lemma workers_come_to_rest:
  assumes "server_inv N (srv f)"
  shows "\<exists>k f'. live_workers h clients N k f f' \<and> (\<forall>w f''. \<not> live_step h clients N (Worker w) f' f'')"
proof -
  let ?P = "\<lambda>k. \<exists>f'. live_workers h clients N k f f'"
  have "k \<le> work_left N (srv f)" if "?P k" for k
    using that worker_run_bound [OF live_workers_server assms] by fastforce
  then obtain k where k: "?P k" "\<forall>j. ?P j \<longrightarrow> j \<le> k"
    using ex_has_greatest_nat [of ?P 0 "\<lambda>k. k" "Suc (work_left N (srv f))"] live_workers.none le_imp_less_Suc by blast
  then obtain f' where f': "live_workers h clients N k f f'" by blast
  have "\<not> live_step h clients N (Worker w) f' f''" for w f''
    using k(2) live_workers.more [OF f'] by (metis Suc_n_not_le_n)
  then show ?thesis using f' by blast
qed


text \<open>
  C20. Without new connections the server comes to rest under every policy, with a worker, a queue of a size other than 0, clients that send a request each (\<open>clients_ok\<close>) and a
  host without failures (\<open>host_ok\<close>). From any state it reaches, no run of the workers has
  more than four steps for each waiting request and three for each worker, and some run goes on until no worker can step. Wherever no worker can step, nothing waits,
  no request is running, the main thread is not asleep, every request that was started has been answered exactly once, and every accepted connection has been
  closed exactly once, except for the one the main thread still holds.
\<close>

theorem server_drains:
  assumes "main mt mq create global alg0 argv = Serve port N m" "malloc_contract mq" "atoi (argv ! 3) \<noteq> 0" "0 < N"
    and "live_reachable h clients N m f" "clients_ok clients" "host_ok h"
  shows "(\<forall>k f'. live_workers h clients N k f f' \<longrightarrow> k \<le> 4 * length (jobs (jm (srv f))) + 3 * N)
    \<and> (\<exists>k f'. live_workers h clients N k f f' \<and> (\<forall>w f''. \<not> live_step h clients N (Worker w) f' f''))
    \<and> (\<forall>k f'. live_workers h clients N k f f' \<and> (\<forall>w f''. \<not> live_step h clients N (Worker w) f' f'') \<longrightarrow>
         jobs (jm (srv f')) = [] \<and> running_count (jm (srv f')) = 0 \<and> (\<forall>c. master (srv f') \<noteq> MWait c)
         \<and> mset (started (srv f')) = mset (map ans_session (answers f'))
         \<and> mset (map connection_fd (accepted (srv f'))) = mset (closed (srv f')) + mset (map connection_fd (in_hand (master (srv f')))))"
proof -
  note init = main_initial(1) [OF assms(1-3)]
  have inv: "server_inv N (srv f)" by (rule server_reachable_inv [OF live_reachable_server [OF assms(5)] init])
  have "jobs (jm (srv f')) = [] \<and> running_count (jm (srv f')) = 0 \<and> (\<forall>c. master (srv f') \<noteq> MWait c)
      \<and> mset (started (srv f')) = mset (map ans_session (answers f'))
      \<and> mset (map connection_fd (accepted (srv f'))) = mset (closed (srv f')) + mset (map connection_fd (in_hand (master (srv f'))))"
    if run: "live_workers h clients N k f f'" and stuck: "\<forall>w f''. \<not> live_step h clients N (Worker w) f' f''" for k f'
  proof -
    note reach = live_workers_reachable [OF run assms(5)]
    have inv': "server_inv N (srv f')" and linv: "live_inv h N f'"
      using server_reachable_inv [OF live_reachable_server [OF reach] init] live_inv_reachable [OF reach assms(6,7)] .
    note idle = all_asleep_idle [OF inv' assms(4) at_rest_asleep [OF inv' assms(6,7) stuck]]
    show ?thesis using idle linv inv' by (simp add: live_inv_def server_inv_def closed_inv_def)
  qed
  then show ?thesis using live_workers_bound [OF _ inv] workers_come_to_rest [OF inv] by blast
qed

theorem server_drains_witness:
  "\<exists>f'. live_reachable demo_host demo_clients 1 demo_manager f' \<and> jobs (jm (srv f')) = [] \<and> started (srv f') = [demo_session]
     \<and> closed (srv f') = [connection_fd demo_session] \<and> running_count (jm (srv f')) = 0"
proof -
  note T = server_drains [OF demo_main demo_malloc_contract demo_atoi _ demo_live_reachable demo_clients_ok demo_host_ok]
  from T obtain k f' where f': "live_workers demo_host demo_clients 1 k demo_live f'"
      "\<forall>w f''. \<not> live_step demo_host demo_clients 1 (Worker w) f' f''" by auto
  note reach = live_workers_reachable [OF f'(1) demo_live_reachable]
  have m: "accepted (srv f') = [demo_session]" "master (srv f') = MAccept"
    using worker_step_keeps [OF f'(1)] by (simp_all add: demo_live_def demo_queued_def)
  have R: "jobs (jm (srv f')) = []" "running_count (jm (srv f')) = 0"
      "mset (map connection_fd (accepted (srv f'))) = mset (closed (srv f')) + mset (map connection_fd (in_hand (master (srv f'))))"
    using T f' by auto
  have "block_inv (srv f')"
    using block_inv_reachable [OF live_reachable_server [OF reach] main_initial(1) [OF demo_main demo_malloc_contract demo_atoi]]
    by (simp add: demo_manager_def)
  then have "started (srv f') = [demo_session]" using m R(1) by (simp add: block_inv_def)
  moreover have "closed (srv f') = [connection_fd demo_session]" using R(3) m by simp
  ultimately show ?thesis using reach R(1,2) by blast
qed

end
