(* ===== verification/Segel.thy ===== *)
theory Segel
  imports Request Server_Main
begin

text \<open>
  The rest of \<open>hw3/wet/209509181-313511602/segel.c\<close>: the functions that report an error and end the process, the wrappers that
  make one system call and check it, and the functions that set up sockets. The system calls are the record \<open>unix\<close>; they act
  on a world the program does not see, on \<open>errno\<close> and on \<open>h_errno\<close>. The result \<open>Inl c\<close> of a function is the end of
  the process with status \<open>c\<close>.
\<close>

unbundle bit_operations_syntax

section \<open>System calls\<close>

record 'w proc =
  world :: 'w
  errno :: c_int
  h_errno :: c_int
  stderr :: "string list"

type_synonym ('w, 'r) unix_call = "'w proc \<Rightarrow> 'r \<times> 'w proc"

type_synonym ('w, 'r) wrapped = "'w proc \<Rightarrow> (c_int + 'r) \<times> 'w proc"

record sockaddr_in =
  sin_family :: "16 word"
  sin_port :: "16 word"
  sin_addr :: "32 word"

text \<open>A host entry; \<open>gethostbyname\<close> gives addresses of four bytes.\<close>

record hostent =
  h_addr :: "32 word"

record 'w unix =
  strerror :: "c_int \<Rightarrow> string"
  sys_gethostname :: "size_t \<Rightarrow> ('w, c_int) unix_call"
  sys_setenv :: "string \<Rightarrow> string \<Rightarrow> c_int \<Rightarrow> ('w, c_int) unix_call"
  sys_fork :: "('w, c_int) unix_call"
  sys_execve :: "string \<Rightarrow> string list \<Rightarrow> string list \<Rightarrow> ('w, c_int) unix_call"
  sys_wait :: "('w, c_int) unix_call"
  sys_waitpid :: "c_int \<Rightarrow> c_int \<Rightarrow> ('w, c_int) unix_call"
  sys_open :: "string \<Rightarrow> c_int \<Rightarrow> c_int \<Rightarrow> ('w, c_int) unix_call"
  sys_read :: "c_int \<Rightarrow> size_t \<Rightarrow> ('w, c_long) unix_call"
  sys_write :: "c_int \<Rightarrow> string \<Rightarrow> ('w, c_long) unix_call"
  sys_lseek :: "c_int \<Rightarrow> c_long \<Rightarrow> c_int \<Rightarrow> ('w, c_long) unix_call"
  sys_close :: "c_int \<Rightarrow> ('w, c_int) unix_call"
  sys_select :: "c_int \<Rightarrow> ('w, c_int) unix_call"
  sys_dup2 :: "c_int \<Rightarrow> c_int \<Rightarrow> ('w, c_int) unix_call"
  sys_stat :: "string \<Rightarrow> ('w, c_int) unix_call"
  sys_fstat :: "c_int \<Rightarrow> ('w, c_int) unix_call"
  sys_mmap :: "size_t \<Rightarrow> c_int \<Rightarrow> c_int \<Rightarrow> c_int \<Rightarrow> c_long \<Rightarrow> ('w, 64 word) unix_call"
  sys_munmap :: "64 word \<Rightarrow> size_t \<Rightarrow> ('w, c_int) unix_call"
  sys_socket :: "c_int \<Rightarrow> c_int \<Rightarrow> c_int \<Rightarrow> ('w, c_int) unix_call"
  sys_setsockopt :: "c_int \<Rightarrow> c_int \<Rightarrow> c_int \<Rightarrow> c_int \<Rightarrow> ('w, c_int) unix_call"
  sys_bind :: "c_int \<Rightarrow> sockaddr_in \<Rightarrow> ('w, c_int) unix_call"
  sys_listen :: "c_int \<Rightarrow> c_int \<Rightarrow> ('w, c_int) unix_call"
  sys_accept :: "c_int \<Rightarrow> ('w, c_int) unix_call"
  sys_connect :: "c_int \<Rightarrow> sockaddr_in \<Rightarrow> ('w, c_int) unix_call"
  sys_gethostbyname :: "string \<Rightarrow> ('w, hostent option) unix_call"
  sys_gethostbyaddr :: "string \<Rightarrow> c_int \<Rightarrow> ('w, hostent option) unix_call"

section \<open>Error handling\<close>

definition to_stderr :: "string \<Rightarrow> 'w proc \<Rightarrow> 'w proc" where
  "to_stderr t p = p\<lparr>stderr := stderr p @ [t]\<rparr>"

definition unix_error :: "'w unix \<Rightarrow> string \<Rightarrow> ('w, 'r) wrapped" where
  "unix_error u msg p = (Inl 0, to_stderr (msg @ '': '' @ strerror u (errno p)) p)"

definition posix_error :: "'w unix \<Rightarrow> c_int \<Rightarrow> string \<Rightarrow> ('w, 'r) wrapped" where
  "posix_error u code msg p = (Inl 0, to_stderr (msg @ '': '' @ strerror u code) p)"

definition dns_error :: "string \<Rightarrow> ('w, 'r) wrapped" where
  "dns_error msg p = (Inl 0, to_stderr (msg @ '': DNS error '' @ show_int (sint (h_errno p))) p)"

definition app_error :: "string \<Rightarrow> ('w, 'r) wrapped" where
  "app_error msg p = (Inl 0, to_stderr msg p)"

section \<open>Wrappers\<close>

text \<open>The shape of every wrapper: make the call; on a bad result report and exit, otherwise return it.\<close>

definition or_unix_error :: "'w unix \<Rightarrow> string \<Rightarrow> ('r \<Rightarrow> bool) \<Rightarrow> ('w, 'r) unix_call \<Rightarrow> ('w, 'r) wrapped" where
  "or_unix_error u msg bad f p = (let (rc, p) = f p in if bad rc then unix_error u msg p else (Inr rc, p))"

definition neg :: "'a :: len word \<Rightarrow> bool" where
  "neg rc \<longleftrightarrow> sint rc < 0"

text \<open>For the wrappers that return nothing.\<close>

definition no_result :: "('w, 'r) wrapped \<Rightarrow> ('w, unit) wrapped" where
  "no_result f p = (let (r, p) = f p in (case r of Inl c \<Rightarrow> Inl c | Inr _ \<Rightarrow> Inr (), p))"

definition Gethostname :: "'w unix \<Rightarrow> size_t \<Rightarrow> ('w, c_int) wrapped" where
  "Gethostname u len = or_unix_error u ''Setenv error'' neg (sys_gethostname u len)"

definition Setenv :: "'w unix \<Rightarrow> string \<Rightarrow> string \<Rightarrow> c_int \<Rightarrow> ('w, c_int) wrapped" where
  "Setenv u name val overwrite = or_unix_error u ''Setenv error'' neg (sys_setenv u name val overwrite)"

definition Fork :: "'w unix \<Rightarrow> ('w, c_int) wrapped" where
  "Fork u = or_unix_error u ''Fork error'' neg (sys_fork u)"

definition Execve :: "'w unix \<Rightarrow> string \<Rightarrow> string list \<Rightarrow> string list \<Rightarrow> ('w, unit) wrapped" where
  "Execve u filename argv envp = no_result (or_unix_error u ''Execve error'' neg (sys_execve u filename argv envp))"

definition Wait :: "'w unix \<Rightarrow> ('w, c_int) wrapped" where
  "Wait u = or_unix_error u ''Wait error'' neg (sys_wait u)"

definition WaitPid :: "'w unix \<Rightarrow> c_int \<Rightarrow> c_int \<Rightarrow> ('w, c_int) wrapped" where
  "WaitPid u pid opts = or_unix_error u ''Wait error'' neg (sys_waitpid u pid opts)"

definition Open :: "'w unix \<Rightarrow> string \<Rightarrow> c_int \<Rightarrow> c_int \<Rightarrow> ('w, c_int) wrapped" where
  "Open u pathname flags md = or_unix_error u ''Open error'' neg (sys_open u pathname flags md)"

definition Read :: "'w unix \<Rightarrow> c_int \<Rightarrow> size_t \<Rightarrow> ('w, c_long) wrapped" where
  "Read u fd n = or_unix_error u ''Read error'' neg (sys_read u fd n)"

definition Write :: "'w unix \<Rightarrow> c_int \<Rightarrow> string \<Rightarrow> ('w, c_long) wrapped" where
  "Write u fd buf = or_unix_error u ''Write error'' neg (sys_write u fd buf)"

definition Lseek :: "'w unix \<Rightarrow> c_int \<Rightarrow> c_long \<Rightarrow> c_int \<Rightarrow> ('w, c_long) wrapped" where
  "Lseek u fildes offset whence = or_unix_error u ''Lseek error'' neg (sys_lseek u fildes offset whence)"

definition Close :: "'w unix \<Rightarrow> c_int \<Rightarrow> ('w, unit) wrapped" where
  "Close u fd = no_result (or_unix_error u ''Close error'' neg (sys_close u fd))"

definition Select :: "'w unix \<Rightarrow> c_int \<Rightarrow> ('w, c_int) wrapped" where
  "Select u n = or_unix_error u ''Select error'' neg (sys_select u n)"

definition Dup2 :: "'w unix \<Rightarrow> c_int \<Rightarrow> c_int \<Rightarrow> ('w, c_int) wrapped" where
  "Dup2 u fd1 fd2 = or_unix_error u ''Dup2 error'' neg (sys_dup2 u fd1 fd2)"

definition Stat :: "'w unix \<Rightarrow> string \<Rightarrow> ('w, unit) wrapped" where
  "Stat u filename = no_result (or_unix_error u ''Stat error'' neg (sys_stat u filename))"

definition Fstat :: "'w unix \<Rightarrow> c_int \<Rightarrow> ('w, unit) wrapped" where
  "Fstat u fd = no_result (or_unix_error u ''Fstat error'' neg (sys_fstat u fd))"

definition Mmap :: "'w unix \<Rightarrow> size_t \<Rightarrow> c_int \<Rightarrow> c_int \<Rightarrow> c_int \<Rightarrow> c_long \<Rightarrow> ('w, 64 word) wrapped" where
  "Mmap u len prot flags fd offset = or_unix_error u ''mmap error'' (\<lambda>ptr. ptr = - 1) (sys_mmap u len prot flags fd offset)"

definition Munmap :: "'w unix \<Rightarrow> 64 word \<Rightarrow> size_t \<Rightarrow> ('w, unit) wrapped" where
  "Munmap u start len = no_result (or_unix_error u ''munmap error'' neg (sys_munmap u start len))"

definition Socket :: "'w unix \<Rightarrow> c_int \<Rightarrow> c_int \<Rightarrow> c_int \<Rightarrow> ('w, c_int) wrapped" where
  "Socket u domain type protocol = or_unix_error u ''Socket error'' neg (sys_socket u domain type protocol)"

definition Setsockopt :: "'w unix \<Rightarrow> c_int \<Rightarrow> c_int \<Rightarrow> c_int \<Rightarrow> c_int \<Rightarrow> ('w, unit) wrapped" where
  "Setsockopt u s level optname optval = no_result (or_unix_error u ''Setsockopt error'' neg (sys_setsockopt u s level optname optval))"

definition Bind :: "'w unix \<Rightarrow> c_int \<Rightarrow> sockaddr_in \<Rightarrow> ('w, unit) wrapped" where
  "Bind u sockfd my_addr = no_result (or_unix_error u ''Bind error'' neg (sys_bind u sockfd my_addr))"

definition Listen :: "'w unix \<Rightarrow> c_int \<Rightarrow> c_int \<Rightarrow> ('w, unit) wrapped" where
  "Listen u s backlog = no_result (or_unix_error u ''Listen error'' neg (sys_listen u s backlog))"

definition Accept :: "'w unix \<Rightarrow> c_int \<Rightarrow> ('w, c_int) wrapped" where
  "Accept u s = or_unix_error u ''Accept error'' neg (sys_accept u s)"

definition Connect :: "'w unix \<Rightarrow> c_int \<Rightarrow> sockaddr_in \<Rightarrow> ('w, unit) wrapped" where
  "Connect u sockfd serv_addr = no_result (or_unix_error u ''Connect error'' neg (sys_connect u sockfd serv_addr))"

definition Gethostbyname :: "'w unix \<Rightarrow> string \<Rightarrow> ('w, hostent) wrapped" where
  "Gethostbyname u name p =
     (let (h, p) = sys_gethostbyname u name p in case h of None \<Rightarrow> dns_error ''Gethostbyname error'' p | Some hp \<Rightarrow> (Inr hp, p))"

definition Gethostbyaddr :: "'w unix \<Rightarrow> string \<Rightarrow> c_int \<Rightarrow> ('w, hostent) wrapped" where
  "Gethostbyaddr u addr type p =
     (let (h, p) = sys_gethostbyaddr u addr type p in case h of None \<Rightarrow> dns_error ''Gethostbyaddr error'' p | Some hp \<Rightarrow> (Inr hp, p))"

text \<open>The two wrappers of the Rio package that the server does not call, on a connection as in \<open>Request\<close>.\<close>

definition Rio_readn :: "nat \<Rightarrow> conn \<Rightarrow> stop + string \<times> conn" where
  "Rio_readn nbytes c =
     (let (r, rest) = rio_readn nbytes (rio_input (incoming c)); c = c\<lparr>incoming := (incoming c)\<lparr>rio_input := rest\<rparr>\<rparr> in
      case r of None \<Rightarrow> Inl (Exited ''Rio_readn error'') | Some t \<Rightarrow> Inr (t, c))"

definition Rio_readnb :: "nat \<Rightarrow> conn \<Rightarrow> stop + string \<times> conn" where
  "Rio_readnb n c =
     (let (r, rp) = rio_readnb n (incoming c); c = c\<lparr>incoming := rp\<rparr> in
      case r of None \<Rightarrow> Inl (Exited ''Rio_readnb error'') | Some t \<Rightarrow> Inr (t, c))"

section \<open>Sockets\<close>

definition AF_INET :: c_int where "AF_INET = 2"
definition SOCK_STREAM :: c_int where "SOCK_STREAM = 1"
definition SOL_SOCKET :: c_int where "SOL_SOCKET = 1"
definition SO_REUSEADDR :: c_int where "SO_REUSEADDR = 2"
definition LISTENQ :: c_int where "LISTENQ = 1024"

text \<open>Byte order of the network on a little-endian machine; \<open>INADDR_ANY\<close> is 0 in any order.\<close>

definition htons :: "16 word \<Rightarrow> 16 word" where
  "htons w = push_bit 8 w OR drop_bit 8 w"

definition open_clientfd :: "'w unix \<Rightarrow> string \<Rightarrow> c_int \<Rightarrow> ('w, c_int) unix_call" where
  "open_clientfd u hostname port p =
     (let (clientfd, p) = sys_socket u AF_INET SOCK_STREAM 0 p in
      if neg clientfd then (- 1, p)
      else let (h, p) = sys_gethostbyname u hostname p in
        case h of
          None \<Rightarrow> (- 2, p)
        | Some hp \<Rightarrow>
            let serveraddr = \<lparr>sin_family = ucast AF_INET, sin_port = htons (ucast port), sin_addr = h_addr hp\<rparr>;
                (rc, p) = sys_connect u clientfd serveraddr p in
            if neg rc then (- 1, p) else (clientfd, p))"

definition open_listenfd :: "'w unix \<Rightarrow> c_int \<Rightarrow> ('w, c_int) unix_call" where
  "open_listenfd u port p =
     (let (listenfd, p) = sys_socket u AF_INET SOCK_STREAM 0 p in
      if neg listenfd then (- 1, to_stderr ''socket failed'' p)
      else let (rc, p) = sys_setsockopt u listenfd SOL_SOCKET SO_REUSEADDR 1 p in
        if neg rc then (- 1, to_stderr ''setsockopt failed'' p)
        else
          let serveraddr = \<lparr>sin_family = ucast AF_INET, sin_port = htons (ucast port), sin_addr = 0\<rparr>;
              (rc, p) = sys_bind u listenfd serveraddr p in
          if neg rc then (- 1, to_stderr ''bind failed'' p)
          else let (rc, p) = sys_listen u listenfd LISTENQ p in
            if neg rc then (- 1, to_stderr ''listen failed'' p) else (listenfd, p))"

definition Open_clientfd :: "'w unix \<Rightarrow> string \<Rightarrow> c_int \<Rightarrow> ('w, c_int) wrapped" where
  "Open_clientfd u hostname port p =
     (let (rc, p) = open_clientfd u hostname port p in
      if neg rc then
        if rc = - 1 then unix_error u ''Open_clientfd Unix error'' p else dns_error ''Open_clientfd DNS error'' p
      else (Inr rc, p))"

definition Open_listenfd :: "'w unix \<Rightarrow> c_int \<Rightarrow> ('w, c_int) wrapped" where
  "Open_listenfd u port = or_unix_error u ''Open_listenfd error'' neg (open_listenfd u port)"

section \<open>What the sockets do\<close>

text \<open>The sockets of the process, as far as the program can know them: what the calls have made of each descriptor.\<close>

datatype sock = Unnamed | Bound "16 word" | Listening "16 word" | Connected "32 word" "16 word"

text \<open>
  What the manual pages say of the calls, on a view of the descriptors of the world: a new descriptor was not in use, a
  failing call changes no descriptor, no call writes to the standard error. \<open>bind\<close> takes the port of the address, or
  one of its own choice when that is 0.
\<close>

definition call_ok :: "('w \<Rightarrow> c_int \<Rightarrow> sock option) \<Rightarrow> ('w, c_int) unix_call \<Rightarrow> (c_int \<Rightarrow> (c_int \<Rightarrow> sock option) \<Rightarrow> (c_int \<Rightarrow> sock option) \<Rightarrow> bool) \<Rightarrow> bool" where
  "call_ok view f success \<longleftrightarrow> (\<forall>p rc p'. f p = (rc, p') \<longrightarrow> stderr p' = stderr p \<and>
     (if neg rc then view (world p') = view (world p) else success rc (view (world p)) (view (world p'))))"

definition port_for :: "16 word \<Rightarrow> 16 word \<Rightarrow> bool" where
  "port_for asked q \<longleftrightarrow> (asked \<noteq> 0 \<longrightarrow> q = asked)"

definition sockets_ok :: "('w \<Rightarrow> c_int \<Rightarrow> sock option) \<Rightarrow> 'w unix \<Rightarrow> bool" where
  "sockets_ok view u \<longleftrightarrow>
     (\<forall>d t q. call_ok view (sys_socket u d t q) (\<lambda>fd v v'. v fd = None \<and> v' = v(fd \<mapsto> Unnamed)))
     \<and> (\<forall>fd l k x. call_ok view (sys_setsockopt u fd l k x) (\<lambda>_ v v'. v' = v))
     \<and> (\<forall>fd a. call_ok view (sys_bind u fd a) (\<lambda>_ v v'. \<exists>q. port_for (htons (sin_port a)) q \<and> v' = v(fd \<mapsto> Bound q)))
     \<and> (\<forall>fd n q. call_ok view (sys_listen u fd n) (\<lambda>_ v v'. v fd = Some (Bound q) \<longrightarrow> v' = v(fd \<mapsto> Listening q)))
     \<and> (\<forall>fd a. call_ok view (sys_connect u fd a) (\<lambda>_ v v'. v' = v(fd \<mapsto> Connected (sin_addr a) (htons (sin_port a)))))
     \<and> (\<forall>h p r p'. sys_gethostbyname u h p = (r, p') \<longrightarrow> stderr p' = stderr p \<and> view (world p') = view (world p))"

lemma call_okD:
  assumes "call_ok view f success" "f p = (rc, p')"
  shows "stderr p' = stderr p" "neg rc \<Longrightarrow> view (world p') = view (world p)"
    "\<not> neg rc \<Longrightarrow> success rc (view (world p)) (view (world p'))"
  using assms by (auto simp: call_ok_def)

lemma htons_twice [simp]: "htons (htons w) = w"
proof (rule bit_word_eqI)
  fix n
  assume "n < LENGTH(16)"
  then show "bit (htons (htons w)) n = bit w n"
    by (auto simp: htons_def bit_simps dest: bit_imp_le_length)
qed

lemma neg_minus_one [simp]: "neg (- 1 :: c_int)" "neg (- 2 :: c_int)"
  by (simp_all add: neg_def)

lemma open_listenfd_cases:
  assumes "sockets_ok view u" "open_listenfd u port p = (rc, p')"
  shows "if neg rc
    then rc = - 1 \<and> (\<exists>t. stderr p' = stderr p @ [t]) \<and>
      (view (world p') = view (world p) \<or>
       (\<exists>fd. view (world p) fd = None \<and> (view (world p') = (view (world p))(fd \<mapsto> Unnamed) \<or> (\<exists>q. view (world p') = (view (world p))(fd \<mapsto> Bound q)))))
    else view (world p) rc = None \<and> (\<exists>q. port_for (ucast port) q \<and> view (world p') = (view (world p))(rc \<mapsto> Listening q)) \<and> stderr p' = stderr p"
proof -
  let ?a = "\<lparr>sin_family = ucast AF_INET, sin_port = htons (ucast port), sin_addr = 0\<rparr>"
  obtain fd p1 where 1: "sys_socket u AF_INET SOCK_STREAM 0 p = (fd, p1)" by fastforce
  obtain r2 p2 where 2: "sys_setsockopt u fd SOL_SOCKET SO_REUSEADDR 1 p1 = (r2, p2)" by fastforce
  obtain r3 p3 where 3: "sys_bind u fd ?a p2 = (r3, p3)" by fastforce
  obtain r4 p4 where 4: "sys_listen u fd LISTENQ p3 = (r4, p4)" by fastforce
  have ok: "call_ok view (sys_socket u AF_INET SOCK_STREAM 0) (\<lambda>fd v v'. v fd = None \<and> v' = v(fd \<mapsto> Unnamed))"
    "call_ok view (sys_setsockopt u fd SOL_SOCKET SO_REUSEADDR 1) (\<lambda>_ v v'. v' = v)"
    "call_ok view (sys_bind u fd ?a) (\<lambda>_ v v'. \<exists>q. port_for (htons (sin_port ?a)) q \<and> v' = v(fd \<mapsto> Bound q))"
    "call_ok view (sys_listen u fd LISTENQ) (\<lambda>_ v v'. v fd = Some (Bound q) \<longrightarrow> v' = v(fd \<mapsto> Listening q))" for q
    using assms(1) unfolding sockets_ok_def by blast+
  note S = call_okD [OF ok(1) 1] and O = call_okD [OF ok(2) 2] and B = call_okD [OF ok(3) 3] and L = call_okD [OF ok(4) 4]
  show ?thesis
    using assms(2) S O B L 1 2 3 4 by (simp add: open_listenfd_def to_stderr_def Let_def split: if_splits) (auto 0 4)
qed

text \<open>
  \<open>open_listenfd\<close> either returns a descriptor that was not in use before and now is a socket listening on the given port,
  taken modulo \<open>2 ^ 16\<close> (on some port when that is 0), with nothing written to the standard error and no other descriptor changed; or it returns -1 after
  writing one line. In the second case a socket it had already created stays open: the function never closes it.
\<close>

theorem open_listenfd_result:
  assumes "sockets_ok view u" "open_listenfd u port p = (rc, p')"
  shows "if neg rc
    then rc = - 1 \<and> (\<exists>t. stderr p' = stderr p @ [t]) \<and>
      (view (world p') = view (world p) \<or>
       (\<exists>fd. view (world p) fd = None \<and> (view (world p') = (view (world p))(fd \<mapsto> Unnamed) \<or> (\<exists>q. view (world p') = (view (world p))(fd \<mapsto> Bound q)))))
    else view (world p) rc = None \<and> (\<exists>q. port_for (ucast port) q \<and> view (world p') = (view (world p))(rc \<mapsto> Listening q)) \<and> stderr p' = stderr p"
  by (rule open_listenfd_cases [OF assms])

text \<open>A small system for examples: one socket, with descriptor 3.\<close>

definition demo_unix :: "(c_int \<times> sock) list unix" where
  "demo_unix =
     \<lparr>strerror = (\<lambda>e. ''error '' @ show_int (sint e)), sys_gethostname = (\<lambda>_ p. (0, p)), sys_setenv = (\<lambda>_ _ _ p. (0, p)),
      sys_fork = (\<lambda>p. (7, p)), sys_execve = (\<lambda>_ _ _ p. (- 1, p)), sys_wait = (\<lambda>p. (7, p)), sys_waitpid = (\<lambda>q _ p. (q, p)),
      sys_open = (\<lambda>_ _ _ p. (- 1, p)), sys_read = (\<lambda>_ _ p. (0, p)), sys_write = (\<lambda>_ t p. (of_nat (length t), p)),
      sys_lseek = (\<lambda>_ _ _ p. (0, p)), sys_close = (\<lambda>_ p. (0, p)), sys_select = (\<lambda>_ p. (0, p)), sys_dup2 = (\<lambda>_ f p. (f, p)),
      sys_stat = (\<lambda>_ p. (0, p)), sys_fstat = (\<lambda>_ p. (0, p)), sys_mmap = (\<lambda>_ _ _ _ _ p. (4096, p)), sys_munmap = (\<lambda>_ _ p. (0, p)),
      sys_socket = (\<lambda>_ _ _ p. if map_of (world p) 3 = None then (3, p\<lparr>world := (3, Unnamed) # world p\<rparr>) else (- 1, p\<lparr>errno := 24\<rparr>)),
      sys_setsockopt = (\<lambda>_ _ _ _ p. (0, p)),
      sys_bind = (\<lambda>fd a p. if htons (sin_port a) = 0x50 then (- 1, p\<lparr>errno := 13\<rparr>)
        else (0, p\<lparr>world := (fd, Bound (htons (sin_port a))) # world p\<rparr>)),
      sys_listen = (\<lambda>fd _ p. case map_of (world p) fd of Some (Bound q) \<Rightarrow> (0, p\<lparr>world := (fd, Listening q) # world p\<rparr>) | _ \<Rightarrow> (- 1, p)),
      sys_accept = (\<lambda>_ p. (4, p)),
      sys_connect = (\<lambda>fd a p. (0, p\<lparr>world := (fd, Connected (sin_addr a) (htons (sin_port a))) # world p\<rparr>)),
      sys_gethostbyname = (\<lambda>_ p. (None, p)), sys_gethostbyaddr = (\<lambda>_ _ p. (None, p))\<rparr>"

lemma demo_sockets: "sockets_ok map_of demo_unix"
  unfolding sockets_ok_def demo_unix_def call_ok_def port_for_def
  by (auto simp: neg_def split: if_splits option.splits sock.splits)

abbreviation demo_proc :: "(c_int \<times> sock) list proc" where
  "demo_proc \<equiv> \<lparr>world = [], errno = 0, h_errno = 0, stderr = []\<rparr>"

theorem open_listenfd_result_witness:
  "\<exists>p'. open_listenfd demo_unix 65617 demo_proc = (3, p') \<and> map_of (world p') 3 = Some (Listening 81)"
proof -
  obtain p' where p': "open_listenfd demo_unix 65617 demo_proc = (3, p')"
    by (simp add: open_listenfd_def demo_unix_def neg_def)
  from open_listenfd_result [OF demo_sockets this] p' show ?thesis by (auto simp: neg_def port_for_def fun_eq_iff)
qed

section \<open>The start of the server\<close>

text \<open>\<open>main\<close> of \<open>server.c\<close> up to the accept loop: the arguments and the manager, then the listening socket.\<close>

definition server_main ::
  "'w unix \<Rightarrow> (size_t \<Rightarrow> unit option) \<Rightarrow> (size_t \<Rightarrow> session list option) \<Rightarrow> (nat \<Rightarrow> bool) \<Rightarrow> jobs_manager \<Rightarrow> schedalg \<Rightarrow> string list
   \<Rightarrow> ('w, c_int \<times> nat \<times> jobs_manager) wrapped"
where
  "server_main u malloc_threads malloc_queue create global alg0 argv p =
     (case main malloc_threads malloc_queue create global alg0 argv of
        Exit c msg \<Rightarrow> (Inl (of_nat c), to_stderr msg p)
      | Serve port n m \<Rightarrow>
          (case Open_listenfd u port p of (Inl c, p) \<Rightarrow> (Inl c, p) | (Inr listenfd, p) \<Rightarrow> (Inr (listenfd, n, m), p)))"

lemma main_serves: "main mt mq create global alg0 argv = Serve port n m \<Longrightarrow> port = atoi (argv ! 1)"
  by (auto simp: main_def getargs_def split: if_splits prod.splits option.splits)

lemma main_exits: "main mt mq create global alg0 argv = Exit c msg \<Longrightarrow> c = 1"
  by (auto simp: main_def getargs_def split: if_splits prod.splits option.splits)

lemma Open_listenfd_result:
  assumes "sockets_ok view u" "Open_listenfd u port p = (out, p')"
  shows "case out of
      Inl c \<Rightarrow> c = 0 \<and> (\<exists>t e. stderr p' = stderr p @ [t, ''Open_listenfd error: '' @ strerror u e])
    | Inr fd \<Rightarrow> view (world p) fd = None \<and> (\<exists>q. port_for (ucast port) q \<and> view (world p') = (view (world p))(fd \<mapsto> Listening q)) \<and> stderr p' = stderr p"
proof -
  obtain rc p1 where 1: "open_listenfd u port p = (rc, p1)" by fastforce
  show ?thesis
    using open_listenfd_cases [OF assms(1) 1] assms(2) 1
    by (auto simp: Open_listenfd_def or_unix_error_def unix_error_def to_stderr_def split: if_splits)
qed

text \<open>
  C31. The start of the web server, composed of its arguments, the manager and the socket set-up: when it gets to its accept
  loop, it owns exactly one new descriptor, a socket listening on the port of the first argument modulo \<open>2 ^ 16\<close>, or on
  a port the system chose when that is 0 (the argument is \<open>0\<close> or no number), and the manager is the initial one with room
  for as many requests as the third argument, which is not 0, says. When it does not get there, the exit status is 1 for bad
  arguments or a failing manager, but 0, the status of success, when the socket could not be set up.
\<close>

theorem server_starts_listening:
  assumes u: "sockets_ok view u" and m: "malloc_contract mq" "atoi (argv ! 3) \<noteq> 0"
    and run: "server_main u mt mq create global alg0 argv p = (out, p')"
  shows "case out of
      Inr (fd, n, mgr) \<Rightarrow> view (world p) fd = None \<and> (\<exists>q. port_for (ucast (atoi (argv ! 1))) q \<and> view (world p') = (view (world p))(fd \<mapsto> Listening q))
        \<and> initial_manager mgr \<and> int (unat (max_accepted_count mgr)) = sint (atoi (argv ! 3))
    | Inl c \<Rightarrow> (if \<exists>e msg. main mt mq create global alg0 argv = Exit e msg then c = 1 else c = 0)"
proof (cases "main mt mq create global alg0 argv")
  case (Exit c msg)
  then show ?thesis using run main_exits [OF Exit] by (auto simp: server_main_def)
next
  case (Serve port n mgr)
  obtain r p1 where r: "Open_listenfd u port p = (r, p1)" by fastforce
  show ?thesis
    using Open_listenfd_result [OF u r] r run Serve main_serves [OF Serve] main_initial [OF Serve m]
    by (cases r) (auto simp: server_main_def)
qed

theorem server_starts_listening_witness:
  "\<exists>p'. server_main demo_unix (\<lambda>_. Some ()) demo_malloc (\<lambda>_. True) demo_global DROP_TAIL demo_argv demo_proc = (Inr (3, 1, demo_manager), p')
     \<and> map_of (world p') 3 = Some (Listening 8080)"
proof -
  obtain p' where p': "Open_listenfd demo_unix 8080 demo_proc = (Inr 3, p')"
    by (simp add: Open_listenfd_def or_unix_error_def open_listenfd_def demo_unix_def neg_def htons_def)
  then have run: "server_main demo_unix (\<lambda>_. Some ()) demo_malloc (\<lambda>_. True) demo_global DROP_TAIL demo_argv demo_proc
      = (Inr (3, 1, demo_manager), p')" by (simp add: server_main_def demo_main)
  have "atoi (demo_argv ! 1) = 8080" using main_serves [OF demo_main] by simp
  then show ?thesis
    using run server_starts_listening [OF demo_sockets demo_malloc_contract demo_atoi run] by (auto simp: port_for_def fun_eq_iff)
qed

end
