(* ===== verification/CGI_Output.thy ===== *)
theory CGI_Output
  imports Request_Answers
begin

text \<open>
  The program \<open>hw3/wet/209509181-313511602/output.c\<close> that the web server runs for dynamic requests: it waits for as long as the query
  string says and prints a page with its headers. Floating-point numbers are a parameter, the record \<open>double_ops\<close>; the answers of
  \<open>gettimeofday\<close> come from a list, none standing for a failing call.
\<close>

section \<open>The program\<close>

record 'd double_ops =
  of_long :: "c_long \<Rightarrow> 'd"
  d_add :: "'d \<Rightarrow> 'd \<Rightarrow> 'd"
  d_sub :: "'d \<Rightarrow> 'd \<Rightarrow> 'd"
  d_mul :: "'d \<Rightarrow> 'd \<Rightarrow> 'd"
  d_div :: "'d \<Rightarrow> 'd \<Rightarrow> 'd"
  five :: 'd
  million :: 'd
  atof :: "string \<Rightarrow> 'd"
  to_useconds :: "'d \<Rightarrow> 32 word"
  fmt_2f :: "'d \<Rightarrow> string"

record 'd cgi =
  query_string :: "string option"
  clock_answers :: "(c_long \<times> c_long) option list"
  spinfor :: 'd
  slept :: "32 word list"
  stdout :: string

datatype cgi_stop = AssertionFailed string | OutOfBuffer

text \<open>
  \<open>strtok\<close> on a fresh string: it skips separators, and puts a NUL behind the first token, in the string itself.
\<close>

definition strtok :: "char \<Rightarrow> string \<Rightarrow> (string \<times> string) option" where
  "strtok sep buf =
     (let skipped = takeWhile (\<lambda>c. c = sep) buf; rest = dropWhile (\<lambda>c. c = sep) buf; tok = takeWhile (\<lambda>c. c \<noteq> sep) rest in
      if rest = [] then None else Some (tok, skipped @ tok))"

definition cgi_getargs :: "'d double_ops \<Rightarrow> 'd cgi \<Rightarrow> 'd cgi" where
  "cgi_getargs ops s =
     (case query_string s of
        None \<Rightarrow> s
      | Some buf \<Rightarrow>
          (case strtok (CHR ''&'') buf of
             None \<Rightarrow> s
           | Some (p, buf) \<Rightarrow> s\<lparr>query_string := Some buf, spinfor := atof ops p\<rparr>))"

definition Time_GetSeconds :: "'d double_ops \<Rightarrow> 'd cgi \<Rightarrow> cgi_stop + 'd \<times> 'd cgi" where
  "Time_GetSeconds ops s =
     (case clock_answers s of
        Some (sec, usec) # rest \<Rightarrow>
          Inr (d_add ops (of_long ops sec) (d_div ops (of_long ops usec) (million ops)), s\<lparr>clock_answers := rest\<rparr>)
      | _ \<Rightarrow> Inl (AssertionFailed ''rc == 0''))"

text \<open>\<open>sprintf(content, "%s...", content)\<close> as the library does it: what is in the buffer, and the new text behind it.\<close>

definition sprintf_after :: "string \<Rightarrow> string \<Rightarrow> cgi_stop + string" where
  "sprintf_after content t = (if length (content @ t) < MAXBUF then Inr (content @ t) else Inl OutOfBuffer)"

definition cgi_main :: "'d double_ops \<Rightarrow> 'd cgi \<Rightarrow> cgi_stop + 'd cgi" where
  "cgi_main ops s =
     (let s = cgi_getargs ops s in
      checked_bind (Time_GetSeconds ops s) (\<lambda>(t1, s).
        let s = s\<lparr>slept := slept s @ [to_useconds ops (d_mul ops (spinfor s) (million ops))]\<rparr> in
        checked_bind (Time_GetSeconds ops s) (\<lambda>(t2, s).
          checked_bind (sprintf_after [] (''<p>Welcome to the CGI program</p>'' @ crlf)) (\<lambda>content.
          checked_bind (sprintf_after content (''<p>My only purpose is to waste time on the server!</p>'' @ crlf)) (\<lambda>content.
          checked_bind (sprintf_after content (''<p>I spun for '' @ fmt_2f ops (d_sub ops t2 t1) @ '' seconds</p>'' @ crlf)) (\<lambda>content.
            Inr (s\<lparr>stdout := stdout s @ ''Content-length: '' @ show_nat (length content) @ crlf @
              ''Content-type: text/html'' @ crlf @ crlf @ content\<rparr>)))))))"

section \<open>The whole answer\<close>

text \<open>An answer of the server: lines of headers, an empty line, and as many bytes as the length announced.\<close>

fun header_lines :: "string list \<Rightarrow> string" where
  "header_lines [] = []"
| "header_lines (l # ls) = l @ crlf @ header_lines ls"

definition complete_answer :: "string \<Rightarrow> bool" where
  "complete_answer t \<longleftrightarrow> (\<exists>ls body. t = header_lines ls @ crlf @ body \<and> (''Content-length: '' @ show_nat (length body)) \<in> set ls
     \<and> hd ls = ''HTTP/1.0 200 OK'' \<and> (\<forall>l\<in>set ls. l \<noteq> []))"

definition stat_texts :: "request_stat \<Rightarrow> string list" where
  "stat_texts rs =
     [''Stat-Req-Arrival:: '' @ show_ld (fst (arrival_time rs)) @ ''.'' @ show_06 (sint (snd (arrival_time rs))),
      ''Stat-Req-Dispatch:: '' @ show_ld (fst (dispatch_time rs)) @ ''.'' @ show_06 (sint (snd (dispatch_time rs))),
      ''Stat-Thread-Id:: '' @ show_ld (thread_id rs), ''Stat-Thread-Count:: '' @ show_ld (total_count rs),
      ''Stat-Thread-Static:: '' @ show_ld (static_count rs), ''Stat-Thread-Dynamic:: '' @ show_ld (dynamic_count rs)]"

lemma header_lines_append: "header_lines (xs @ ys) = header_lines xs @ header_lines ys"
  by (induction xs) auto

lemma dynamic_header_lines: "dynamic_header rs = header_lines ([''HTTP/1.0 200 OK'', ''Server: OS-HW3 Web Server''] @ stat_texts rs)"
  by (simp add: dynamic_header_def stat_lines_def stat_texts_def)

lemma sprintf_after_fits: "length (content @ t) < MAXBUF \<Longrightarrow> sprintf_after content t = Inr (content @ t)"
  by (simp add: sprintf_after_def)

definition cgi_page :: "string \<Rightarrow> string" where
  "cgi_page secs = ''<p>Welcome to the CGI program</p>'' @ crlf @ ''<p>My only purpose is to waste time on the server!</p>'' @ crlf @
     ''<p>I spun for '' @ secs @ '' seconds</p>'' @ crlf"

lemma cgi_main_prints:
  assumes fmt: "\<forall>d. length (fmt_2f ops d) \<le> 1000" and clock: "clock_answers s = Some x # Some y # rest"
  shows "\<exists>s' secs. cgi_main ops s = Inr s' \<and> length (cgi_page secs) < MAXBUF \<and>
    stdout s' = stdout s @ ''Content-length: '' @ show_nat (length (cgi_page secs)) @ crlf @ ''Content-type: text/html'' @ crlf @ crlf @ cgi_page secs"
proof -
  define t where "t = cgi_getargs ops s"
  have t: "clock_answers t = Some x # Some y # rest" "stdout t = stdout s"
    using clock by (auto simp: t_def cgi_getargs_def split: option.splits)
  obtain t1 t2 where 1: "Time_GetSeconds ops t = Inr (t1, t\<lparr>clock_answers := Some y # rest\<rparr>)"
    and 2: "\<And>u. clock_answers u = Some y # rest \<Longrightarrow> Time_GetSeconds ops u = Inr (t2, u\<lparr>clock_answers := rest\<rparr>)"
    by (cases x; cases y) (simp add: Time_GetSeconds_def t)
  let ?secs = "fmt_2f ops (d_sub ops t2 t1)"
  have len: "length ?secs \<le> 1000" using fmt by blast
  have "\<exists>s'. cgi_main ops s = Inr s' \<and>
    stdout s' = stdout s @ ''Content-length: '' @ show_nat (length (cgi_page ?secs)) @ crlf @ ''Content-type: text/html'' @ crlf @ crlf @ cgi_page ?secs"
    using len t(2) by (simp add: cgi_main_def t_def [symmetric] 1 2 Let_def sprintf_after_def MAXBUF_def cgi_page_def)
  moreover have "length (cgi_page ?secs) < MAXBUF" using len by (simp add: cgi_page_def MAXBUF_def)
  ultimately show ?thesis by blast
qed

text \<open>
  A dynamic request from end to end: the headers the server writes, followed by what the program prints, are one
  complete answer - a status line, lines of headers, an empty line, and exactly as many bytes as the announced
  \<open>Content-length\<close>; the page fits its buffer. This holds when the calls of the system succeed and a formatted number has at most
  1000 characters.
\<close>

theorem dynamic_answer_complete:
  assumes sys: "WriteError \<notin> set (write_answers c)" "can_fork h" "clock_answers s = Some x # Some y # rest"
    and fmt: "\<forall>d. length (fmt_2f ops d) \<le> 1000" and s: "query_string s = Some a" "stdout s = []"
  shows "\<exists>c' s' t. requestServeDynamic h f a rs c = Inr c' \<and> programs c' = programs c @ [(f, a)] \<and> cgi_main ops s = Inr s'
    \<and> sent c' = sent c @ t \<and> complete_answer (t @ stdout s')"
proof -
  obtain c' where c': "requestServeDynamic h f a rs c = Inr (c'\<lparr>programs := programs c @ [(f, a)]\<rparr>)" "sends c (dynamic_header rs) c'"
    using requestServeDynamic_sends [OF sys(1,2)] by blast
  obtain s' secs where s': "cgi_main ops s = Inr s'"
    "stdout s' = ''Content-length: '' @ show_nat (length (cgi_page secs)) @ crlf @ ''Content-type: text/html'' @ crlf @ crlf @ cgi_page secs"
    using cgi_main_prints [OF fmt sys(3)] s(2) by auto
  let ?ls = "[''HTTP/1.0 200 OK'', ''Server: OS-HW3 Web Server''] @ stat_texts rs @
    [''Content-length: '' @ show_nat (length (cgi_page secs)), ''Content-type: text/html'']"
  have "dynamic_header rs @ stdout s' = header_lines ?ls @ crlf @ cgi_page secs"
    unfolding s'(2) dynamic_header_lines header_lines_append by simp
  then have "complete_answer (dynamic_header rs @ stdout s')"
    unfolding complete_answer_def by (intro exI [of _ ?ls] exI [of _ "cgi_page secs"]) (simp add: stat_texts_def)
  then show ?thesis using c' s'(1) by (auto simp: sends_def)
qed

text \<open>Whole microseconds for examples.\<close>

definition demo_doubles :: "int double_ops" where
  "demo_doubles = \<lparr>of_long = (\<lambda>w. sint w * 1000000), d_add = (+), d_sub = (-), d_mul = (\<lambda>a b. a * b div 1000000), d_div = (\<lambda>a b. a * 1000000 div b),
     five = 5000000, million = 1000000000000, atof = (\<lambda>t. strtol10 t * 1000000), to_useconds = (\<lambda>d. word_of_int (d div 1000000)),
     fmt_2f = (\<lambda>d. take 1000 (show_int (d div 1000000) @ ''.00''))\<rparr>"

definition demo_cgi :: "int cgi" where
  "demo_cgi = \<lparr>query_string = Some ''1&x'', clock_answers = [Some (10, 0), Some (11, 0)], spinfor = five demo_doubles, slept = [], stdout = []\<rparr>"

theorem dynamic_answer_complete_witness:
  "\<exists>c' s' t. requestServeDynamic \<lparr>stat_of = Map.empty, contents = Map.empty, can_fork = True\<rparr> ''./public/output.cgi'' ''1&x''
      \<lparr>thread_id = 0, arrival_time = (10, 0), dispatch_time = (0, 5), total_count = 1, static_count = 0, dynamic_count = 1\<rparr>
      \<lparr>incoming = rio_readinitb [], write_answers = [Wrote 10, WriteInterrupted], sent = [], printed = [], programs = []\<rparr> = Inr c'
    \<and> cgi_main demo_doubles demo_cgi = Inr s' \<and> sent c' = t \<and> complete_answer (t @ stdout s')"
proof -
  have f: "\<forall>d. length (fmt_2f demo_doubles d) \<le> 1000" by (auto simp: demo_doubles_def min_def)
  have c: "clock_answers demo_cgi = Some (10, 0) # Some (11, 0) # []" "query_string demo_cgi = Some ''1&x''" "stdout demo_cgi = []"
    by (simp_all add: demo_cgi_def)
  let ?c = "\<lparr>incoming = rio_readinitb [], write_answers = [Wrote 10, WriteInterrupted], sent = [], printed = [], programs = []\<rparr>"
  let ?h = "\<lparr>stat_of = Map.empty, contents = Map.empty, can_fork = True\<rparr>"
  have w: "WriteError \<notin> set (write_answers ?c)" "can_fork ?h" by simp_all
  show ?thesis
    using dynamic_answer_complete [OF w c(1) f c(2,3), of "''./public/output.cgi''"
        "\<lparr>thread_id = 0, arrival_time = (10, 0), dispatch_time = (0, 5), total_count = 1, static_count = 0, dynamic_count = 1\<rparr>"] by auto
qed

end
