(* ===== verification/Byte_Memory.thy ===== *)
theory Byte_Memory
  imports Prelude
begin

text \<open>
  The memory a C program sees: a byte at every 64-bit address. \<open>load_le\<close> and \<open>store_le\<close> read and
  write a little-endian integer of some bytes, \<open>memmove\<close> and \<open>memset\<close> are the functions of the C
  library. The lemmas say what a store leaves alone: everything outside the span of addresses it
  covers, where a span does not wrap around the end of the address space.
\<close>

section \<open>Loads and stores\<close>

type_synonym memory = "addr \<Rightarrow> byte"

primrec load_le :: "memory \<Rightarrow> addr \<Rightarrow> nat \<Rightarrow> nat" where
  "load_le m a 0 = 0"
| "load_le m a (Suc n) = unat (m a) + 256 * load_le m (a + 1) n"

primrec store_le :: "memory \<Rightarrow> addr \<Rightarrow> nat \<Rightarrow> nat \<Rightarrow> memory" where
  "store_le m a 0 v = m"
| "store_le m a (Suc n) v = (store_le m (a + 1) n (v div 256)) (a := of_nat v)"

definition load64 :: "memory \<Rightarrow> addr \<Rightarrow> 64 word" where
  "load64 m a = of_nat (load_le m a 8)"

definition store64 :: "memory \<Rightarrow> addr \<Rightarrow> 64 word \<Rightarrow> memory" where
  "store64 m a v = store_le m a 8 (unat v)"

definition load32 :: "memory \<Rightarrow> addr \<Rightarrow> 32 word" where
  "load32 m a = of_nat (load_le m a 4)"

definition store32 :: "memory \<Rightarrow> addr \<Rightarrow> 32 word \<Rightarrow> memory" where
  "store32 m a v = store_le m a 4 (unat v)"

definition memmove :: "memory \<Rightarrow> addr \<Rightarrow> addr \<Rightarrow> size_t \<Rightarrow> memory" where
  "memmove m dst src n = (\<lambda>x. if x - dst < n then m (src + (x - dst)) else m x)"

definition memset :: "memory \<Rightarrow> addr \<Rightarrow> byte \<Rightarrow> size_t \<Rightarrow> memory" where
  "memset m dst c n = (\<lambda>x. if x - dst < n then c else m x)"

section \<open>Spans of addresses\<close>

definition span :: "addr \<Rightarrow> nat \<Rightarrow> addr set" where
  "span a n = {x. unat a \<le> unat x \<and> unat x < unat a + n}"

lemma span_mono: "unat b \<le> unat a \<Longrightarrow> unat a + n \<le> unat b + k \<Longrightarrow> span a n \<subseteq> span b k"
  by (auto simp: span_def)

lemma unat_next_64: "unat (a :: 64 word) + 1 < 18446744073709551616 \<Longrightarrow> unat (a + 1) = unat a + 1"
  by (simp add: unat_plus_64)

lemma in_span_iff:
  assumes "unat a + n \<le> 18446744073709551616"
  shows "x \<in> span a n \<longleftrightarrow> unat (x - a) < n"
proof (cases "unat a \<le> unat x")
  case True
  then show ?thesis by (auto simp: span_def unat_minus_64)
next
  case False
  have "unat (x - a) = 18446744073709551616 + unat x - unat a"
    using False by (simp add: unat_sub_if_size size_word.rep_eq)
  then show ?thesis using False assms by (simp add: span_def)
qed

lemma load_le_cong:
  assumes "unat a + n \<le> 18446744073709551616" "\<And>x. x \<in> span a n \<Longrightarrow> m x = m' x"
  shows "load_le m a n = load_le m' a n"
  using assms
proof (induction n arbitrary: a)
  case (Suc n)
  have "load_le m (a + 1) n = load_le m' (a + 1) n"
  proof (cases "n = 0")
    case False
    then have "unat (a + 1) = unat a + 1" using Suc.prems(1) by (simp add: unat_next_64)
    then show ?thesis using Suc.prems by (intro Suc.IH) (auto simp: span_def)
  qed simp
  moreover have "m a = m' a" using Suc.prems(2) [of a] by (simp add: span_def)
  ultimately show ?case by simp
qed simp

lemma store_le_outside:
  assumes "unat a + n \<le> 18446744073709551616" "x \<notin> span a n"
  shows "store_le m a n v x = m x"
  using assms
proof (induction n arbitrary: a v)
  case (Suc n)
  have "x \<noteq> a" using Suc.prems by (auto simp: span_def)
  moreover have "store_le m (a + 1) n (v div 256) x = m x"
  proof (cases "n = 0")
    case False
    then have "unat (a + 1) = unat a + 1" using Suc.prems(1) by (simp add: unat_next_64)
    then show ?thesis using Suc.prems by (intro Suc.IH) (auto simp: span_def)
  qed simp
  ultimately show ?case by simp
qed simp

lemma load_store_le_same:
  assumes "unat a + n \<le> 18446744073709551616"
  shows "load_le (store_le m a n v) a n = v mod 256 ^ n"
  using assms
proof (induction n arbitrary: a v)
  case (Suc n)
  let ?m = "store_le m (a + 1) n (v div 256)"
  have tail: "load_le (?m(a := of_nat v)) (a + 1) n = (v div 256) mod 256 ^ n"
  proof (cases "n = 0")
    case False
    then have a1: "unat (a + 1) = unat a + 1" using Suc.prems(1) by (simp add: unat_next_64)
    have "load_le (?m(a := of_nat v)) (a + 1) n = load_le ?m (a + 1) n"
      using Suc.prems(1) a1 by (intro load_le_cong) (auto simp: span_def)
    then show ?thesis using Suc.IH [of "a + 1" "v div 256"] Suc.prems(1) a1 by simp
  qed simp
  have "v mod 256 + 256 * ((v div 256) mod 256 ^ n) = v mod (256 * 256 ^ n)"
    by (metis add.commute mod_mult2_eq)
  then show ?case unfolding load_le.simps store_le.simps tail by (simp add: unat_of_nat)
qed simp

lemma load_store_le_other:
  assumes "unat a + k \<le> 18446744073709551616" "unat b + n \<le> 18446744073709551616"
    "unat a + k \<le> unat b \<or> unat b + n \<le> unat a"
  shows "load_le (store_le m a k v) b n = load_le m b n"
  using assms by (intro load_le_cong store_le_outside) (auto simp: span_def)

section \<open>Words in memory\<close>

lemma load64_store64_same [simp]:
  "unat a + 8 \<le> 18446744073709551616 \<Longrightarrow> load64 (store64 m a v) a = v"
  by (simp add: load64_def store64_def load_store_le_same)

lemma load32_store32_same [simp]:
  "unat a + 4 \<le> 18446744073709551616 \<Longrightarrow> load32 (store32 m a v) a = v"
  using unat_bound32 [of v] by (simp add: load32_def store32_def load_store_le_same)

lemma store64_outside:
  "unat a + 8 \<le> 18446744073709551616 \<Longrightarrow> x \<notin> span a 8 \<Longrightarrow> store64 m a v x = m x"
  by (simp add: store64_def store_le_outside)

lemma store32_outside:
  "unat a + 4 \<le> 18446744073709551616 \<Longrightarrow> x \<notin> span a 4 \<Longrightarrow> store32 m a v x = m x"
  by (simp add: store32_def store_le_outside)

lemma load64_cong:
  "unat a + 8 \<le> 18446744073709551616 \<Longrightarrow> (\<And>x. x \<in> span a 8 \<Longrightarrow> m x = m' x) \<Longrightarrow> load64 m a = load64 m' a"
  unfolding load64_def using load_le_cong by metis

lemma load32_cong:
  "unat a + 4 \<le> 18446744073709551616 \<Longrightarrow> (\<And>x. x \<in> span a 4 \<Longrightarrow> m x = m' x) \<Longrightarrow> load32 m a = load32 m' a"
  unfolding load32_def using load_le_cong by metis

section \<open>Block operations\<close>

lemma memset_in_span:
  assumes "unat a + unat n \<le> 18446744073709551616"
  shows "memset m a c n x = (if x \<in> span a (unat n) then c else m x)"
  using in_span_iff [OF assms, of x] by (simp add: memset_def word_less_nat_alt)

lemma memmove_in_span:
  assumes "unat a + unat n \<le> 18446744073709551616"
  shows "memmove m a b n x = (if x \<in> span a (unat n) then m (b + (x - a)) else m x)"
  using in_span_iff [OF assms, of x] by (simp add: memmove_def word_less_nat_alt)

end
