(* ===== verification/Program_Break.thy ===== *)
theory Program_Break
  imports Byte_Memory
begin

text \<open>
  What the four allocators of \<open>hw4/wet_4/209509181-313511602\<close> share: the system calls they use
  (\<open>sbrk\<close>, \<open>mmap\<close>, \<open>munmap\<close>) and the function \<open>_sbrk\<close>, which keeps a program break of its own
  (\<open>malloc_1.cpp\<close>, \<open>malloc_2.cpp\<close> and \<open>malloc_3.cpp\<close> have the same text, \<open>malloc_4.cpp\<close> aligns the
  break first).

  The system answers as its manual pages say, and what they leave open is part of the state:
  whether the next request for memory is granted (\<open>os_grants\<close>) and where the next mapping is
  offered (\<open>os_places\<close>). \<open>munmap\<close> takes any page away, one of the heap too; such a hole in the heap is recorded, and
  a well-formed state has none. User addresses end at 2^47. What memory contains when it is handed out
  is not fixed.

  The locale \<open>break_ops\<close> is the contract of \<open>_sbrk\<close> the block allocator relies on; it is
  interpreted for \<open>malloc_3.cpp\<close> and for \<open>malloc_4.cpp\<close>.
\<close>

section \<open>The system calls\<close>

record os =
  os_start :: addr
  os_break :: addr
  os_maps :: "(addr \<times> nat \<times> bool) list" \<comment> \<open>address, length, made of huge pages\<close>
  os_holes :: "(addr \<times> nat) list" \<comment> \<open>address and length of pages that \<open>munmap\<close> took out of the heap\<close>
  os_grants :: "nat \<Rightarrow> bool"
  os_places :: "nat \<Rightarrow> addr"
  os_clock :: nat
  os_refusals :: nat \<comment> \<open>how many requests for memory have failed with \<open>ENOMEM\<close>\<close>

definition apart :: "nat \<Rightarrow> nat \<Rightarrow> nat \<Rightarrow> nat \<Rightarrow> bool" where
  "apart a n b k \<longleftrightarrow> a + n \<le> b \<or> b + k \<le> a"

definition sbrk :: "64 word \<Rightarrow> os \<Rightarrow> addr \<times> os" where
  "sbrk delta k =
     (if delta = 0 then (os_break k, k)
      else
        let new_break = int (unat (os_break k)) + sint delta; k' = k\<lparr>os_clock := Suc (os_clock k)\<rparr> in
        if os_grants k (os_clock k) \<and> int (unat (os_start k)) \<le> new_break \<and> new_break \<le> 2 ^ 47
          \<and> list_all (\<lambda>(b, n, _). apart (unat (os_start k)) (nat new_break - unat (os_start k)) (unat b) n)
              (os_maps k)
        then (os_break k, k'\<lparr>os_break := word_of_int new_break\<rparr>)
        else (- 1, k'\<lparr>os_refusals := Suc (os_refusals k)\<rparr>))"

definition round_up :: "nat \<Rightarrow> nat \<Rightarrow> nat" where
  "round_up g n = (n + g - 1) div g * g"

definition page :: "bool \<Rightarrow> nat" where
  "page huge = (if huge then 2097152 else 4096)"

definition mmap :: "size_t \<Rightarrow> bool \<Rightarrow> os \<Rightarrow> addr \<times> os" where
  "mmap len huge k =
     (let a = os_places k (os_clock k); n = round_up (page huge) (unat len);
          k' = k\<lparr>os_clock := Suc (os_clock k)\<rparr> in
      if len \<noteq> 0 \<and> a \<noteq> 0 \<and> page huge dvd unat a \<and> unat a + n \<le> 2 ^ 47
        \<and> apart (unat (os_start k)) (unat (os_break k) - unat (os_start k)) (unat a) n
        \<and> list_all (\<lambda>(b, j, _). apart (unat b) j (unat a) n) (os_maps k)
      then (a, k'\<lparr>os_maps := (a, n, huge) # os_maps k\<rparr>)
      else (- 1, k'\<lparr>os_refusals := Suc (os_refusals k)\<rparr>))"

definition cut_map :: "nat \<Rightarrow> nat \<Rightarrow> addr \<times> nat \<times> bool \<Rightarrow> (addr \<times> nat \<times> bool) list" where
  "cut_map a n = (\<lambda>(b, j, huge). filter (\<lambda>(_, i, _). i \<noteq> 0)
     [(b, min j (a - unat b), huge),
      (of_nat (max (a + n) (unat b)), unat b + j - max (a + n) (unat b), huge)])"

definition munmap :: "addr \<Rightarrow> size_t \<Rightarrow> os \<Rightarrow> c_int \<times> os" where
  "munmap a len k =
     (let n = round_up (page False) (unat len) in
      if len = 0 \<or> \<not> page False dvd unat a
        \<or> list_ex (\<lambda>(b, j, huge). huge \<and> \<not> apart (unat b) j (unat a) n
              \<and> \<not> (page True dvd unat a \<and> page True dvd unat len)) (os_maps k)
      then (- 1, k)
      else (0, k\<lparr>os_maps := concat (map (cut_map (unat a) n) (os_maps k)),
             os_holes := (if apart (unat (os_start k)) (unat (os_break k) - unat (os_start k)) (unat a) n then os_holes k
               else (a, n) # os_holes k)\<rparr>))"

section \<open>The allocator's program break\<close>

record process =
  program_break :: "addr option" \<comment> \<open>the static variable of \<open>_sbrk\<close>, \<open>None\<close> before the first call\<close>
  kernel_of :: os
  mem :: memory

definition move_break :: "64 word \<Rightarrow> 'z process_scheme \<Rightarrow> addr \<Rightarrow> addr \<times> 'z process_scheme" where
  "move_break delta s pb =
     (if delta = 0 then (pb, s)
      else let sbrk_break = fst (sbrk 0 (kernel_of s)) in
        if sbrk_break = - 1 then (sbrk_break, s)
        else if sbrk_break <s pb + delta then
          (case sbrk (pb + delta - sbrk_break) (kernel_of s) of (sbrk_break, k) \<Rightarrow>
             if sbrk_break = - 1 then (sbrk_break, s\<lparr>kernel_of := k\<rparr>)
             else (pb, s\<lparr>kernel_of := k, program_break := Some (pb + delta)\<rparr>))
        else (pb, s\<lparr>program_break := Some (pb + delta)\<rparr>))"

definition static_break :: "'z process_scheme \<Rightarrow> addr" where
  "static_break s = (case program_break s of None \<Rightarrow> fst (sbrk 0 (kernel_of s)) | Some pb \<Rightarrow> pb)"

definition m1_sbrk :: "64 word \<Rightarrow> 'z process_scheme \<Rightarrow> addr \<times> 'z process_scheme" where
  "m1_sbrk delta s =
     (let pb = static_break s in move_break delta (s\<lparr>program_break := Some pb\<rparr>) pb)"

definition m2_sbrk :: "64 word \<Rightarrow> 'z process_scheme \<Rightarrow> addr \<times> 'z process_scheme" where
  "m2_sbrk delta s =
     (let pb = static_break s in move_break delta (s\<lparr>program_break := Some pb\<rparr>) pb)"

definition m3_sbrk :: "64 word \<Rightarrow> 'z process_scheme \<Rightarrow> addr \<times> 'z process_scheme" where
  "m3_sbrk delta s =
     (let pb = static_break s in move_break delta (s\<lparr>program_break := Some pb\<rparr>) pb)"

definition m4_sbrk :: "64 word \<Rightarrow> 'z process_scheme \<Rightarrow> addr \<times> 'z process_scheme" where
  "m4_sbrk delta s =
     (let pb = static_break s in
      if pb mod 8 \<noteq> 0 then
        (case sbrk (8 - pb mod 8) (kernel_of s) of (_, k) \<Rightarrow>
           let pb = fst (sbrk 0 k) in
           move_break delta (s\<lparr>kernel_of := k, program_break := Some pb\<rparr>) pb)
      else move_break delta (s\<lparr>program_break := Some pb\<rparr>) pb)"

section \<open>The contract of the program break\<close>

definition kernel_ok :: "os \<Rightarrow> bool" where
  "kernel_ok k \<longleftrightarrow> 0 < unat (os_start k) \<and> unat (os_start k) \<le> unat (os_break k) \<and> unat (os_break k) \<le> 2 ^ 47
     \<and> (\<forall>(b, n, _)\<in>set (os_maps k). 0 < unat b \<and> unat b + n \<le> 2 ^ 47
          \<and> apart (unat (os_start k)) (unat (os_break k) - unat (os_start k)) (unat b) n)
     \<and> sorted_wrt (\<lambda>(a, n, _) (b, j, _). apart (unat b) j (unat a) n) (os_maps k) \<and> os_holes k = []"

definition brk_at :: "nat \<Rightarrow> addr \<Rightarrow> 'z process_scheme \<Rightarrow> bool" where
  "brk_at g p s \<longleftrightarrow> program_break s = Some p \<and> os_break (kernel_of s) = p \<and> g dvd unat p
     \<and> kernel_ok (kernel_of s)"

definition same_maps :: "os \<Rightarrow> os \<Rightarrow> bool" where
  "same_maps k k' \<longleftrightarrow> os_start k' = os_start k \<and> os_maps k' = os_maps k"

lemma kernel_ok_break: "kernel_ok k \<Longrightarrow> unat (os_break k) \<le> 140737488355328"
  by (simp add: kernel_ok_def)

lemma sint_nonneg_64:
  assumes "unat (d :: 64 word) < 9223372036854775808"
  shows "sint d = int (unat d)"
proof -
  have "int (unat d) < int 9223372036854775808" using assms by (simp only: of_nat_less_iff)
  then have "uint d < 9223372036854775808" by simp
  moreover have "- 9223372036854775808 \<le> uint d" by (rule order.trans [of _ 0]) simp_all
  ultimately show ?thesis by (simp add: sint_uint signed_take_bit_int_eq_self)
qed

lemma sbrk_cases:
  assumes ok: "kernel_ok k" and d: "0 < unat d" "unat d \<le> 140737488355328"
  obtains k' where "sbrk d k = (- 1, k')" "kernel_ok k'" "same_maps k k'" "os_break k' = os_break k"
      "os_refusals k' = Suc (os_refusals k)"
  | k' where "sbrk d k = (os_break k, k')" "kernel_ok k'" "same_maps k k'"
      "os_break k' = os_break k + d" "unat (os_break k + d) = unat (os_break k) + unat d"
      "unat (os_break k) + unat d \<le> 140737488355328" "os_refusals k' = os_refusals k"
proof -
  let ?new = "unat (os_break k) + unat d"
  let ?k = "k\<lparr>os_clock := Suc (os_clock k)\<rparr>"
  let ?room = "os_grants k (os_clock k) \<and> int (unat (os_start k)) \<le> int ?new \<and> int ?new \<le> 2 ^ 47
    \<and> list_all (\<lambda>(b, n, _). apart (unat (os_start k)) (nat (int ?new) - unat (os_start k)) (unat b) n)
        (os_maps k)"
  have d0: "d \<noteq> 0" using d(1) by auto
  have new: "int (unat (os_break k)) + sint d = int ?new" using d(2) by (simp add: sint_nonneg_64)
  have "word_of_int (int ?new) = os_break k + d" by simp
  then have eq: "sbrk d k = (if ?room then (os_break k, ?k\<lparr>os_break := os_break k + d\<rparr>) 
      else (- 1, ?k\<lparr>os_refusals := Suc (os_refusals k)\<rparr>))"
    unfolding sbrk_def new Let_def using d0 by (simp only: if_False)
  show ?thesis
  proof (cases ?room)
    case True
    have "int ?new \<le> 2 ^ 47" using True by blast
    then have "int ?new \<le> int 140737488355328" by simp
    then have le: "?new \<le> 140737488355328" by (simp only: of_nat_le_iff)
    have u: "unat (os_break k + d) = ?new" using le by (simp add: unat_plus_64)
    have apart: "\<forall>(b, n, _)\<in>set (os_maps k). apart (unat (os_start k)) (?new - unat (os_start k)) (unat b) n"
      using True unfolding nat_int list_all_iff by blast
    have "kernel_ok (?k\<lparr>os_break := os_break k + d\<rparr>)"
      using ok le apart unfolding kernel_ok_def by (simp add: u case_prod_unfold)
    moreover have "sbrk d k = (os_break k, ?k\<lparr>os_break := os_break k + d\<rparr>)" 
      using eq unfolding if_P [OF True] .
    ultimately show ?thesis using that(2) u le by (simp add: same_maps_def)
  next
    case False
    have "kernel_ok (?k\<lparr>os_refusals := Suc (os_refusals k)\<rparr>)" using ok by (simp add: kernel_ok_def)
    moreover have "sbrk d k = (- 1, ?k\<lparr>os_refusals := Suc (os_refusals k)\<rparr>)" 
      using eq unfolding if_not_P [OF False] .
    ultimately show ?thesis using that(1) by (simp add: same_maps_def)
  qed
qed

lemma sbrk_zero [simp]: "sbrk 0 k = (os_break k, k)"
  by (simp add: sbrk_def)

lemma move_break_zero [simp]: "move_break 0 s pb = (pb, s)"
  by (simp add: move_break_def)

lemma move_break_cases:
  assumes at: "brk_at g p s" and d: "0 < unat d" "unat d \<le> 140737488355328" "g dvd unat d"
  obtains k where "move_break d s p = (- 1, s\<lparr>kernel_of := k\<rparr>)" "brk_at g p (s\<lparr>kernel_of := k\<rparr>)"
      "same_maps (kernel_of s) k" "os_refusals k = Suc (os_refusals (kernel_of s))"
  | k where "move_break d s p = (p, s\<lparr>kernel_of := k, program_break := Some (p + d)\<rparr>)"
      "brk_at g (p + d) (s\<lparr>kernel_of := k, program_break := Some (p + d)\<rparr>)"
      "same_maps (kernel_of s) k" "unat (p + d) = unat p + unat d" "unat p + unat d \<le> 140737488355328"
      "os_refusals k = os_refusals (kernel_of s)"
proof -
  have ok: "kernel_ok (kernel_of s)" and p: "os_break (kernel_of s) = p" "unat p \<le> 140737488355328"
    using at kernel_ok_break [of "kernel_of s"] by (auto simp: brk_at_def)
  have d0: "d \<noteq> 0" using d(1) by auto
  have pm: "p \<noteq> - 1"
  proof
    assume "p = - 1"
    with p(2) show False by (simp only: unat_minus_one_64)
  qed
  have u: "unat (p + d) = unat p + unat d" using d(2) p(2) by (simp add: unat_plus_64)
  have "int (unat p) < int (unat (p + d))" using u d(1) by linarith
  moreover have "sint p = int (unat p)" using p(2) by (intro sint_nonneg_64) linarith
  moreover have "sint (p + d) = int (unat (p + d))" using p(2) d(2) u by (intro sint_nonneg_64) linarith
  ultimately have less: "p <s p + d" unfolding word_sless_alt by (simp only:)
  have move: "move_break d s p = (case sbrk d (kernel_of s) of (r, k) \<Rightarrow>
      if r = - 1 then (r, s\<lparr>kernel_of := k\<rparr>)
      else (p, s\<lparr>kernel_of := k, program_break := Some (p + d)\<rparr>))"
    using d0 pm less by (simp add: move_break_def p(1))
  show ?thesis
  proof (rule sbrk_cases [OF ok d(1,2)])
    fix k
    assume 1: "sbrk d (kernel_of s) = (- 1, k)" "kernel_ok k" "same_maps (kernel_of s) k"
      "os_break k = os_break (kernel_of s)" "os_refusals k = Suc (os_refusals (kernel_of s))"
    have "move_break d s p = (- 1, s\<lparr>kernel_of := k\<rparr>)" unfolding move 1(1) by simp
    moreover have "brk_at g p (s\<lparr>kernel_of := k\<rparr>)" using at 1(2,4) by (simp add: brk_at_def)
    ultimately show thesis using that(1) 1(3,5) by blast
  next
    fix k
    assume 2: "sbrk d (kernel_of s) = (os_break (kernel_of s), k)" "kernel_ok k"
      "same_maps (kernel_of s) k" "os_break k = os_break (kernel_of s) + d"
    have "g dvd unat (p + d)" using at d(3) unfolding u brk_at_def by (intro dvd_add) simp_all
    then have "brk_at g (p + d) (s\<lparr>kernel_of := k, program_break := Some (p + d)\<rparr>)"
      using 2(2,4) unfolding p(1) brk_at_def by simp
    moreover have "move_break d s p = (p, s\<lparr>kernel_of := k, program_break := Some (p + d)\<rparr>)"
      unfolding move 2(1) p(1) using pm by simp
    moreover assume "unat (os_break (kernel_of s)) + unat d \<le> 140737488355328"
      "os_refusals k = os_refusals (kernel_of s)"
    ultimately show thesis using that(2) 2(3) u unfolding p(1) by blast
  qed
qed

text \<open>
  What the block allocator relies on. \<open>granule\<close> divides every break and every request;
  \<open>first_ok\<close> is what the first call needs of the system.
\<close>

locale break_ops =
  fixes sb :: "64 word \<Rightarrow> 'z process_scheme \<Rightarrow> addr \<times> 'z process_scheme"
    and granule :: nat
    and first_ok :: "os \<Rightarrow> bool"
  assumes granule_dvd: "granule dvd 16"
    and first: "program_break s = None \<Longrightarrow> kernel_ok (kernel_of s) \<Longrightarrow> first_ok (kernel_of s) \<Longrightarrow>
      \<exists>k. sb 0 s = (os_break k, s\<lparr>kernel_of := k, program_break := Some (os_break k)\<rparr>)
        \<and> brk_at granule (os_break k) (s\<lparr>kernel_of := k, program_break := Some (os_break k)\<rparr>)
        \<and> same_maps (kernel_of s) k \<and> os_refusals k = os_refusals (kernel_of s)"
    and current: "brk_at granule p s \<Longrightarrow> sb 0 s = (p, s)"
    and grow: "brk_at granule p s \<Longrightarrow> 0 < unat d \<Longrightarrow> unat d \<le> 140737488355328 \<Longrightarrow> granule dvd unat d \<Longrightarrow>
      sb d s = move_break d s p"
begin

lemma grow_cases:
  assumes "brk_at granule p s" "0 < unat d" "unat d \<le> 140737488355328" "granule dvd unat d"
  obtains k where "sb d s = (- 1, s\<lparr>kernel_of := k\<rparr>)" "brk_at granule p (s\<lparr>kernel_of := k\<rparr>)"
      "same_maps (kernel_of s) k" "os_refusals k = Suc (os_refusals (kernel_of s))"
  | k where "sb d s = (p, s\<lparr>kernel_of := k, program_break := Some (p + d)\<rparr>)"
      "brk_at granule (p + d) (s\<lparr>kernel_of := k, program_break := Some (p + d)\<rparr>)"
      "same_maps (kernel_of s) k" "unat (p + d) = unat p + unat d" "unat p + unat d \<le> 140737488355328"
      "os_refusals k = os_refusals (kernel_of s)"
  unfolding grow [OF assms] using move_break_cases [OF assms] by metis

end

definition aligns_first :: "os \<Rightarrow> bool" where
  "aligns_first k \<longleftrightarrow> 8 dvd unat (os_break k) \<or> fst (sbrk (8 - os_break k mod 8) k) \<noteq> - 1"

lemma brk_at_same: "brk_at g p s \<Longrightarrow> s\<lparr>program_break := Some p\<rparr> = s"
  by (simp add: brk_at_def)

lemma static_break_at: "brk_at g p s \<Longrightarrow> static_break s = p"
  by (simp add: brk_at_def static_break_def)

lemma mod_8_word: "unat ((p :: addr) mod 8) = unat p mod 8" "p mod 8 = 0 \<longleftrightarrow> 8 dvd unat p"
proof -
  show u: "unat (p mod 8) = unat p mod 8" by (simp add: unat_mod_64)
  show "p mod 8 = 0 \<longleftrightarrow> 8 dvd unat p"
    using u by (metis dvd_eq_mod_eq_0 unat_eq_zero)
qed

interpretation m3: break_ops m3_sbrk 1 "\<lambda>_. True"
proof
  fix s :: "'z process_scheme"
  assume s: "program_break s = None" "kernel_ok (kernel_of s)"
  show "\<exists>k. m3_sbrk 0 s = (os_break k, s\<lparr>kernel_of := k, program_break := Some (os_break k)\<rparr>)
        \<and> brk_at 1 (os_break k) (s\<lparr>kernel_of := k, program_break := Some (os_break k)\<rparr>)
        \<and> same_maps (kernel_of s) k \<and> os_refusals k = os_refusals (kernel_of s)"
    using s by (intro exI [of _ "kernel_of s"])
      (simp add: m3_sbrk_def static_break_def brk_at_def same_maps_def Let_def)
qed (simp_all add: m3_sbrk_def static_break_at brk_at_same)

lemma aligned_break:
  assumes ok: "kernel_ok k" and pad: "\<not> 8 dvd unat (os_break k)" "fst (sbrk (8 - os_break k mod 8) k) \<noteq> - 1"
  obtains k' r where "sbrk (8 - os_break k mod 8) k = (r, k')" "kernel_ok k'" "same_maps k k'"
    "8 dvd unat (os_break k')" "os_refusals k' = os_refusals k"
proof -
  let ?p = "os_break k"
  have u: "unat (8 - ?p mod 8) = 8 - unat ?p mod 8" 
    by (subst unat_minus_64) (simp_all add: mod_8_word(1))
  have d: "0 < unat (8 - ?p mod 8)" "unat (8 - ?p mod 8) \<le> 140737488355328" unfolding u by simp_all
  show ?thesis
  proof (rule sbrk_cases [OF ok d])
    fix k' assume "sbrk (8 - ?p mod 8) k = (- 1, k')"
    then show ?thesis using pad(2) by simp
  next
    fix k'
    assume k': "sbrk (8 - ?p mod 8) k = (?p, k')" "kernel_ok k'" "same_maps k k'"
      "os_break k' = ?p + (8 - ?p mod 8)"
      and sum: "unat (?p + (8 - ?p mod 8)) = unat ?p + unat (8 - ?p mod 8)"
      and ref: "os_refusals k' = os_refusals k"
    have "8 dvd unat ?p + (8 - unat ?p mod 8)" by presburger
    then show ?thesis using that [OF k'(1-3)] by (simp add: k'(4) sum u ref)
  qed
qed

interpretation m4: break_ops m4_sbrk 8 aligns_first
proof
  fix s :: "'z process_scheme"
  assume s: "program_break s = None" "kernel_ok (kernel_of s)" "aligns_first (kernel_of s)"
  show "\<exists>k. m4_sbrk 0 s = (os_break k, s\<lparr>kernel_of := k, program_break := Some (os_break k)\<rparr>)
        \<and> brk_at 8 (os_break k) (s\<lparr>kernel_of := k, program_break := Some (os_break k)\<rparr>)
        \<and> same_maps (kernel_of s) k \<and> os_refusals k = os_refusals (kernel_of s)"
  proof (cases "8 dvd unat (os_break (kernel_of s))")
    case True
    then show ?thesis using s
      by (intro exI [of _ "kernel_of s"])
        (simp add: m4_sbrk_def static_break_def mod_8_word(2) brk_at_def same_maps_def Let_def)
  next
    case False
    with s(3) have "fst (sbrk (8 - os_break (kernel_of s) mod 8) (kernel_of s)) \<noteq> - 1"
      by (simp add: aligns_first_def)
    from aligned_break [OF s(2) False this] obtain k r
      where k: "sbrk (8 - os_break (kernel_of s) mod 8) (kernel_of s) = (r, k)" "kernel_ok k"
        "same_maps (kernel_of s) k" "8 dvd unat (os_break k)" "os_refusals k = os_refusals (kernel_of s)" .
    then show ?thesis using s(1) False
      by (intro exI [of _ k]) (simp add: m4_sbrk_def static_break_def mod_8_word(2) brk_at_def Let_def)
  qed
next
  fix p and s :: "'z process_scheme"
  assume at: "brk_at 8 p s"
  then have "8 dvd unat p" by (simp add: brk_at_def)
  with at show "m4_sbrk 0 s = (p, s)"
    by (simp add: m4_sbrk_def static_break_at brk_at_same mod_8_word(2))
next
  fix p d and s :: "'z process_scheme"
  assume at: "brk_at 8 p s"
  then have "8 dvd unat p" by (simp add: brk_at_def)
  with at show "m4_sbrk d s = move_break d s p"
    by (simp add: m4_sbrk_def static_break_at brk_at_same mod_8_word(2))
qed simp

end
