(* ===== verification/Malloc_Blocks.thy ===== *)
theory Malloc_Blocks
  imports Program_Break
begin

text \<open>
  The block allocator of \<open>hw4/wet_4/209509181-313511602/malloc_3.cpp\<close>, one definition per function,
  over the bytes of memory. A block is its address; its head (\<open>size\<close>, \<open>is_free\<close>, \<open>next\<close>, \<open>prev\<close>) is at
  its start and its tail (\<open>cookie\<close>, \<open>size\<close>) at its end, at the offsets the C layout gives them.
  \<open>malloc_4.cpp\<close> has the text of these functions unchanged apart from \<open>_sbrk\<close>, so \<open>_sbrk\<close> is an
  argument (\<open>sb\<close>); what that file changes is in \<open>Malloc_Huge\<close>.

  A call that does not return has the value \<open>Inl\<close>: \<open>Exit\<close> for the \<open>exit(0xdeadbeef)\<close> of
  \<open>_check_cookie\<close>, \<open>StillDrawing\<close> when \<open>_set_tail\<close> has drawn only zeros from the answers of \<open>rand()\<close>
  that the state holds, \<open>Cyclic\<close> when a walk over the free list has made more steps than the heap
  has bytes (\<open>walk_bound\<close>), which only a corrupted list can do.
\<close>

section \<open>State\<close>

datatype head_field = F_size | F_is_free | F_next | F_prev

datatype halt = Exit c_int | StillDrawing | Cyclic

record heap = process +
  global_rand_cookie :: c_int
  rands :: "c_int list" \<comment> \<open>the answers of the coming calls of \<open>rand()\<close>\<close>
  sbrk_head :: addr
  sbrk_free_head :: addr
  free_blocks_num :: size_t
  free_bytes_num :: size_t
  allocated_blocks_num :: size_t
  allocated_bytes_num :: size_t

type_synonym 'a outcome = "halt + 'a"
type_synonym break_fun = "64 word \<Rightarrow> heap \<Rightarrow> addr \<times> heap"

fun offset :: "head_field \<Rightarrow> addr" where
  "offset F_size = 0" | "offset F_is_free = 8" | "offset F_next = 16" | "offset F_prev = 24"

definition get :: "head_field \<Rightarrow> heap \<Rightarrow> addr \<Rightarrow> 64 word" where
  "get f s block = load64 (mem s) (block + offset f)"

definition put :: "head_field \<Rightarrow> addr \<Rightarrow> 64 word \<Rightarrow> heap \<Rightarrow> heap" where
  "put f block v s = s\<lparr>mem := store64 (mem s) (block + offset f) v\<rparr>"

definition size_meta_data :: size_t where
  "size_meta_data = 32 + 16"

definition SBRK_LIMIT :: size_t where
  "SBRK_LIMIT = 128 * 1024 + size_meta_data"

definition REDUNDANT_SIZE :: size_t where
  "REDUNDANT_SIZE = 128 + size_meta_data"

definition is_redundant :: "heap \<Rightarrow> addr \<Rightarrow> size_t \<Rightarrow> bool" where
  "is_redundant s block block_size \<longleftrightarrow> REDUNDANT_SIZE \<le> get F_size s block - block_size"

definition tail_metadata :: "heap \<Rightarrow> addr \<Rightarrow> addr" where
  "tail_metadata s block = block + (get F_size s block - 16)"

definition is_sbrk_alloc :: "heap \<Rightarrow> addr \<Rightarrow> bool" where
  "is_sbrk_alloc s block \<longleftrightarrow> get F_size s block < SBRK_LIMIT"

definition alloc_sbrk :: "size_t \<Rightarrow> bool" where
  "alloc_sbrk block_size \<longleftrightarrow> block_size < SBRK_LIMIT"

definition num_free_blocks :: "heap \<Rightarrow> size_t" where
  "num_free_blocks s = free_blocks_num s"

definition num_free_bytes :: "heap \<Rightarrow> size_t" where
  "num_free_bytes s = free_bytes_num s"

definition num_allocated_blocks :: "heap \<Rightarrow> size_t" where
  "num_allocated_blocks s = allocated_blocks_num s"

definition num_allocated_bytes :: "heap \<Rightarrow> size_t" where
  "num_allocated_bytes s = allocated_bytes_num s"

definition num_meta_data_bytes :: "heap \<Rightarrow> size_t" where
  "num_meta_data_bytes s = size_meta_data * allocated_blocks_num s"

section \<open>Tails and cookies\<close>

fun draw_cookie :: "c_int list \<Rightarrow> (c_int \<times> c_int list) outcome" where
  "draw_cookie [] = Inl StillDrawing"
| "draw_cookie (r # rs) = (if r = 0 then draw_cookie rs else Inr (r, rs))"

definition set_tail :: "addr \<Rightarrow> heap \<Rightarrow> heap outcome" where
  "set_tail block s =
     checked_bind
       (if global_rand_cookie s = 0
        then checked_bind (draw_cookie (rands s))
          (\<lambda>(r, rs). Inr (s\<lparr>global_rand_cookie := r, rands := rs\<rparr>))
        else Inr s)
       (\<lambda>s. let tail = tail_metadata s block;
              m = store32 (mem s) tail (global_rand_cookie s);
              s = s\<lparr>mem := m\<rparr> in
          Inr (s\<lparr>mem := store64 (mem s) (tail + 8) (get F_size s block)\<rparr>))"

definition check_cookie :: "addr \<Rightarrow> heap \<Rightarrow> unit outcome" where
  "check_cookie block s =
     (if global_rand_cookie s \<noteq> 0
        \<and> global_rand_cookie s \<noteq> load32 (mem s) (tail_metadata s block)
      then Inl (Exit 0xdeadbeef) else Inr ())"

definition init_sbrk_alloc_block ::
  "break_fun \<Rightarrow> addr \<Rightarrow> size_t \<Rightarrow> bool \<Rightarrow> heap \<Rightarrow> (addr \<times> heap) outcome"
where
  "init_sbrk_alloc_block sb block block_size alloc s =
     (let (r, s) = (if alloc then sb block_size s else (0, s)) in
      if alloc \<and> r = - 1 then Inr (0, s)
      else
        let s = put F_size block block_size s;
            s = put F_is_free block 0 s;
            s = put F_next block 0 s;
            s = put F_prev block 0 s in
        checked_bind (set_tail block s) (\<lambda>s. Inr (block, s)))"

definition wilderness_sbrk_block_increase ::
  "break_fun \<Rightarrow> addr \<Rightarrow> size_t \<Rightarrow> heap \<Rightarrow> (addr \<times> heap) outcome"
where
  "wilderness_sbrk_block_increase sb wilderness block_size s =
     (let delta = block_size - get F_size s wilderness; (r, s) = sb delta s in
      if r = - 1 then Inr (0, s)
      else checked_bind (set_tail wilderness (put F_size wilderness block_size s))
             (\<lambda>s. Inr (wilderness, s)))"

section \<open>The free list\<close>

fun find_loop ::
  "nat \<Rightarrow> heap \<Rightarrow> size_t \<Rightarrow> addr \<Rightarrow> addr \<Rightarrow> addr \<Rightarrow> addr \<Rightarrow> (addr \<times> addr) outcome"
where
  "find_loop 0 s block_size pb current best wilderness = Inl Cyclic"
| "find_loop (Suc n) s block_size pb current best wilderness =
     (if current = 0 then Inr (best, wilderness)
      else checked_bind (check_cookie current s) (\<lambda>_.
        let best' = (if block_size \<le> get F_size s current
                        \<and> (best = 0 \<or> get F_size s current < get F_size s best)
                     then current else best);
            wilderness' = (if current + get F_size s current = pb then current else wilderness) in
        find_loop n s block_size pb (get F_next s current) best' wilderness'))"

definition walk_bound :: "heap \<Rightarrow> nat" where
  "walk_bound s = (case program_break s of None \<Rightarrow> 1 | Some pb \<Rightarrow> Suc (unat (pb - sbrk_head s)))"

definition find_sbrk_free_block :: "break_fun \<Rightarrow> size_t \<Rightarrow> heap \<Rightarrow> (addr \<times> heap) outcome" where
  "find_sbrk_free_block sb block_size s =
     (if sbrk_free_head s = 0 then Inr (0, s)
      else
        let (pb, s) = sb 0 s in
        checked_bind (find_loop (walk_bound s) s block_size pb (sbrk_free_head s) 0 0)
          (\<lambda>(best, wilderness).
             if best \<noteq> 0 then Inr (best, s)
             else if wilderness \<noteq> 0 then
               wilderness_sbrk_block_increase sb wilderness block_size
                 (s\<lparr>free_bytes_num := free_bytes_num s + (block_size - get F_size s wilderness),
                    allocated_bytes_num :=
                      allocated_bytes_num s + (block_size - get F_size s wilderness)\<rparr>)
             else Inr (0, s)))"

definition precedes :: "heap \<Rightarrow> addr \<Rightarrow> addr \<Rightarrow> bool" where
  "precedes s block other \<longleftrightarrow>
     get F_size s block < get F_size s other
     \<or> (get F_size s block = get F_size s other \<and> block < other)"

fun add_loop :: "nat \<Rightarrow> addr \<Rightarrow> addr \<Rightarrow> heap \<Rightarrow> heap outcome" where
  "add_loop 0 block current s = Inl Cyclic"
| "add_loop (Suc n) block current s =
     (if get F_next s current = 0 then
        let s = put F_prev block current s;
            s = put F_next block 0 s in
        Inr (put F_next current block s)
      else
        let next = get F_next s current in
        checked_bind (check_cookie next s) (\<lambda>_.
          if precedes s block next then
            let s = put F_prev block current s;
                s = put F_next block next s;
                s = put F_prev next block s in
            Inr (put F_next current block s)
          else add_loop n block next s))"

definition add_sbrk_free_block :: "addr \<Rightarrow> heap \<Rightarrow> heap outcome" where
  "add_sbrk_free_block block s =
     (let s = put F_is_free block 1 s;
          s = put F_prev block 0 s in
      if sbrk_free_head s = 0 \<or> precedes s block (sbrk_free_head s) then
        let temp = sbrk_free_head s;
            s = s\<lparr>sbrk_free_head := block\<rparr>;
            s = put F_next block temp s in
        Inr (if temp \<noteq> 0 then put F_prev temp block s else s)
      else
        checked_bind (check_cookie (sbrk_free_head s) s) (\<lambda>_.
          add_loop (walk_bound s) block (sbrk_free_head s) s))"

definition remove_sbrk_free_block :: "addr \<Rightarrow> heap \<Rightarrow> heap outcome" where
  "remove_sbrk_free_block block s =
     (let s = put F_is_free block 0 s in
      if sbrk_free_head s = block then
        let s = s\<lparr>sbrk_free_head := get F_next s block\<rparr>;
            s = put F_next block 0 s in
        Inr (put F_prev block 0 s)
      else
        let prev = get F_prev s block; next = get F_next s block in
        checked_bind
          (if prev \<noteq> 0 then checked_bind (check_cookie prev s) (\<lambda>_. Inr (put F_next prev next s)) else Inr s)
          (\<lambda>s. checked_bind
             (if next \<noteq> 0 then checked_bind (check_cookie next s) (\<lambda>_. Inr (put F_prev next prev s)) else Inr s)
             (\<lambda>s. let s = put F_next block 0 s in Inr (put F_prev block 0 s))))"

definition init_sbrk_free_block :: "addr \<Rightarrow> size_t \<Rightarrow> heap \<Rightarrow> heap outcome" where
  "init_sbrk_free_block block block_size s =
     (let s = put F_size block block_size s;
          s = put F_next block 0 s;
          s = put F_prev block 0 s in
      checked_bind (set_tail block s) (add_sbrk_free_block block))"

section \<open>Merging and splitting\<close>

definition merge_neighbour :: "addr \<Rightarrow> heap \<Rightarrow> heap outcome" where
  "merge_neighbour neighbour s =
     remove_sbrk_free_block neighbour
       (s\<lparr>free_blocks_num := free_blocks_num s - 1,
          allocated_blocks_num := allocated_blocks_num s - 1,
          free_bytes_num := free_bytes_num s - (get F_size s neighbour - size_meta_data),
          allocated_bytes_num := allocated_bytes_num s + size_meta_data\<rparr>)"

definition merge_left_step ::
  "addr \<Rightarrow> bool \<Rightarrow> addr \<Rightarrow> size_t \<Rightarrow> heap \<Rightarrow> (addr \<times> size_t \<times> heap) outcome"
where
  "merge_left_step block copy_data left_block block_size_sum s =
     (if left_block \<noteq> 0 \<and> get F_is_free s left_block \<noteq> 0 then
        let block_size_sum = block_size_sum + get F_size s left_block in
        checked_bind (merge_neighbour left_block s) (\<lambda>s.
          Inr (left_block, block_size_sum,
            if copy_data
            then s\<lparr>mem := memmove (mem s) (left_block + 32) (block + 32) (get F_size s block - size_meta_data)\<rparr>
            else s))
      else Inr (block, block_size_sum, s))"

definition merge_right_step :: "addr \<Rightarrow> size_t \<Rightarrow> heap \<Rightarrow> (size_t \<times> heap) outcome" where
  "merge_right_step right_block block_size_sum s =
     (if right_block \<noteq> 0 \<and> get F_is_free s right_block \<noteq> 0 then
        let block_size_sum = block_size_sum + get F_size s right_block in
        checked_bind (merge_neighbour right_block s) (\<lambda>s. Inr (block_size_sum, s))
      else Inr (block_size_sum, s))"

definition merge_sbrk_blocks ::
  "break_fun \<Rightarrow> addr \<Rightarrow> bool \<Rightarrow> bool \<Rightarrow> bool \<Rightarrow> heap \<Rightarrow> (addr \<times> heap) outcome"
where
  "merge_sbrk_blocks sb block merge_left merge_right copy_data s =
     (let block_size_sum = get F_size s block;
          look_left = merge_left \<and> sbrk_head s \<noteq> block;
          left_block = (if look_left then block - load64 (mem s) (block - 16 + 8) else 0) in
      checked_bind (if look_left then check_cookie left_block s else Inr ()) (\<lambda>_.
      let (pb, s) = (if merge_right then sb 0 s else (0, s));
          look_right = merge_right \<and> block + get F_size s block \<noteq> pb;
          right_block = (if look_right then block + get F_size s block else 0) in
      checked_bind (if look_right then check_cookie right_block s else Inr ()) (\<lambda>_.
      checked_bind (merge_left_step block copy_data left_block block_size_sum s)
        (\<lambda>(returned_block, block_size_sum, s).
      checked_bind (merge_right_step right_block block_size_sum s)
        (\<lambda>(block_size_sum, s). init_sbrk_alloc_block sb returned_block block_size_sum False s)))))"

definition split_block :: "break_fun \<Rightarrow> addr \<Rightarrow> size_t \<Rightarrow> heap \<Rightarrow> heap outcome" where
  "split_block sb block block_size s =
     (if is_redundant s block block_size then
        let s = s\<lparr>free_blocks_num := free_blocks_num s + 1,
                  free_bytes_num := free_bytes_num s + (get F_size s block - size_meta_data - block_size),
                  allocated_blocks_num := allocated_blocks_num s + 1,
                  allocated_bytes_num := allocated_bytes_num s - size_meta_data\<rparr>;
            prev_size = get F_size s block in
        checked_bind (init_sbrk_alloc_block sb block block_size False s) (\<lambda>(_, s).
          init_sbrk_free_block (block + block_size) (prev_size - block_size) s)
      else Inr s)"

section \<open>Allocation\<close>

definition sbrk_malloc_new :: "break_fun \<Rightarrow> size_t \<Rightarrow> heap \<Rightarrow> (addr \<times> heap) outcome" where
  "sbrk_malloc_new sb block_size s =
     (let (last_block, s) = sb 0 s in
      checked_bind (init_sbrk_alloc_block sb last_block block_size True s) (\<lambda>(last_block, s).
        Inr (last_block, s\<lparr>allocated_blocks_num := allocated_blocks_num s + 1,
          allocated_bytes_num := allocated_bytes_num s + (block_size - size_meta_data)\<rparr>)))"

definition sbrk_malloc :: "break_fun \<Rightarrow> size_t \<Rightarrow> heap \<Rightarrow> (addr \<times> heap) outcome" where
  "sbrk_malloc sb block_size s =
     (if sbrk_head s \<noteq> 0 then
        checked_bind (find_sbrk_free_block sb block_size s) (\<lambda>(last_searched, s).
          if last_searched \<noteq> 0 then
            checked_bind (remove_sbrk_free_block last_searched
                (s\<lparr>free_blocks_num := free_blocks_num s - 1,
                   free_bytes_num := free_bytes_num s - (get F_size s last_searched - size_meta_data)\<rparr>))
              (\<lambda>s. checked_bind (split_block sb last_searched block_size s) (\<lambda>s. Inr (last_searched, s)))
          else sbrk_malloc_new sb block_size s)
      else
        let (head, s) = sb 0 s in
        if head = - 1 then Inr (0, s\<lparr>sbrk_head := 0\<rparr>)
        else sbrk_malloc_new sb block_size (s\<lparr>sbrk_head := head\<rparr>))"

definition mmap_malloc :: "break_fun \<Rightarrow> size_t \<Rightarrow> heap \<Rightarrow> (addr \<times> heap) outcome" where
  "mmap_malloc sb block_size s =
     (let (mmap_addr, k) = mmap block_size False (kernel_of s); s = s\<lparr>kernel_of := k\<rparr> in
      if mmap_addr = - 1 then Inr (0, s)
      else checked_bind (init_sbrk_alloc_block sb mmap_addr block_size False s) (\<lambda>(_, s).
        Inr (mmap_addr, s\<lparr>allocated_blocks_num := allocated_blocks_num s + 1,
          allocated_bytes_num := allocated_bytes_num s + (block_size - size_meta_data)\<rparr>)))"

definition SIZE_LIMIT :: size_t where
  "SIZE_LIMIT = 100000000"

definition user_pointer :: "addr \<Rightarrow> addr" where
  "user_pointer block = (if block \<noteq> 0 then block + 32 else 0)"

definition smalloc :: "size_t \<Rightarrow> heap \<Rightarrow> (addr \<times> heap) outcome" where
  "smalloc bytes s =
     (if bytes = 0 \<or> SIZE_LIMIT < bytes then Inr (0, s)
      else
        let block_size = bytes + size_meta_data in
        checked_bind (if alloc_sbrk block_size then sbrk_malloc m3_sbrk block_size s
                      else mmap_malloc m3_sbrk block_size s)
          (\<lambda>(block, s). Inr (user_pointer block, s)))"

definition scalloc :: "size_t \<Rightarrow> size_t \<Rightarrow> heap \<Rightarrow> (addr \<times> heap) outcome" where
  "scalloc num bytes s =
     checked_bind (smalloc (num * bytes) s) (\<lambda>(alloc, s).
       if alloc = 0 then Inr (0, s) else Inr (alloc, s\<lparr>mem := memset (mem s) alloc 0 (num * bytes)\<rparr>))"

section \<open>Freeing\<close>

definition sbrk_free :: "break_fun \<Rightarrow> addr \<Rightarrow> heap \<Rightarrow> heap outcome" where
  "sbrk_free sb block s =
     checked_bind (merge_sbrk_blocks sb block True True False s) (\<lambda>(block, s).
       add_sbrk_free_block block
         (s\<lparr>free_blocks_num := free_blocks_num s + 1,
            free_bytes_num := free_bytes_num s + (get F_size s block - size_meta_data)\<rparr>))"

definition mmap_free :: "addr \<Rightarrow> heap \<Rightarrow> heap" where
  "mmap_free block_to_free s =
     s\<lparr>allocated_blocks_num := allocated_blocks_num s - 1,
       allocated_bytes_num := allocated_bytes_num s - (get F_size s block_to_free - size_meta_data),
       kernel_of := snd (munmap block_to_free (get F_size s block_to_free) (kernel_of s))\<rparr>"

definition free_with :: "break_fun \<Rightarrow> addr \<Rightarrow> heap \<Rightarrow> heap outcome" where
  "free_with sb p s =
     (if p = 0 then Inr s
      else
        let block_to_free = p - 32 in
        checked_bind (check_cookie block_to_free s) (\<lambda>_.
          if get F_is_free s block_to_free \<noteq> 0 then Inr s
          else if is_sbrk_alloc s block_to_free then sbrk_free sb block_to_free s
          else Inr (mmap_free block_to_free s)))"

definition sfree :: "addr \<Rightarrow> heap \<Rightarrow> heap outcome" where
  "sfree = free_with m3_sbrk"

section \<open>Reallocation\<close>

definition sbrk_realloc :: "break_fun \<Rightarrow> addr \<Rightarrow> size_t \<Rightarrow> heap \<Rightarrow> (addr \<times> heap) outcome" where
  "sbrk_realloc sb block block_size s =
     (let (program_break, s) = sb 0 s;
          split_block_if_needed = (\<lambda>block s.
            checked_bind (split_block sb block block_size s) (\<lambda>s. Inr (block + 32, s)));
          grow_wilderness = (\<lambda>block s.
            checked_bind (wilderness_sbrk_block_increase sb block block_size
                (s\<lparr>allocated_bytes_num := allocated_bytes_num s + (block_size - get F_size s block)\<rparr>))
              (\<lambda>(block, s). Inr (block + 32, s))) in
      if block_size \<le> get F_size s block then split_block_if_needed block s
      else checked_bind (merge_sbrk_blocks sb block True False True s) (\<lambda>(block, s).
      if block_size \<le> get F_size s block then split_block_if_needed block s
      else if block + get F_size s block = program_break then grow_wilderness block s
      else checked_bind (merge_sbrk_blocks sb block False True False s) (\<lambda>(block, s).
      if block_size \<le> get F_size s block then split_block_if_needed block s
      else checked_bind (merge_sbrk_blocks sb block True True True s) (\<lambda>(block, s).
      if block_size \<le> get F_size s block then Inr (block + 32, s)
      else if block + get F_size s block = program_break then grow_wilderness block s
      else Inr (0, s)))))"

definition srealloc :: "addr \<Rightarrow> size_t \<Rightarrow> heap \<Rightarrow> (addr \<times> heap) outcome" where
  "srealloc oldp bytes s =
     (if oldp = 0 then smalloc bytes s
      else let old_block = oldp - 32 in
      if bytes = 0 \<or> SIZE_LIMIT < bytes then Inr (0, s)
      else let block_size = bytes + size_meta_data in
      checked_bind (if is_sbrk_alloc s old_block then sbrk_realloc m3_sbrk old_block block_size s
                    else Inr (0, s)) (\<lambda>(newp, s).
      if newp \<noteq> 0 then Inr (newp, s)
      else if get F_size s old_block = block_size then Inr (oldp, s)
      else checked_bind (smalloc bytes s) (\<lambda>(newp, s).
      if newp = 0 then Inr (0, s)
      else checked_bind (sfree oldp (s\<lparr>mem := memmove (mem s) newp oldp bytes\<rparr>)) (\<lambda>s.
        Inr (newp, s)))))"

end
