(* ===== verification/Malloc_Simple.thy ===== *)
theory Malloc_Simple
  imports Malloc_Blocks
begin

text \<open>
  The first two allocators of \<open>hw4/wet_4/209509181-313511602\<close>. \<open>malloc_1.cpp\<close> only moves the program break.
  \<open>malloc_2.cpp\<close> puts a head (\<open>size\<close>, \<open>is_free\<close>) before each block and walks the blocks from the first to the
  program break in search of a free one. A block is its address; the walk carries a bound on its steps, as in
  \<open>Malloc_Blocks\<close>.
\<close>

section \<open>The allocator of \<open>malloc_1.cpp\<close>\<close>

definition m1_smalloc :: "size_t \<Rightarrow> 'z process_scheme \<Rightarrow> addr \<times> 'z process_scheme" where
  "m1_smalloc bytes s =
     (if bytes = 0 \<or> SIZE_LIMIT < bytes then (0, s)
      else let (prev_program_break, s) = m1_sbrk bytes s in
        if prev_program_break = - 1 then (0, s) else (prev_program_break, s))"

text \<open>The answers to a sequence of requests, each with its size.\<close>

fun m1_requests :: "nat list \<Rightarrow> process \<Rightarrow> (addr \<times> nat) list" where
  "m1_requests [] s = []"
| "m1_requests (n # ns) s = (case m1_smalloc (of_nat n) s of (p, s) \<Rightarrow> (p, n) # m1_requests ns s)"

definition later_above :: "addr \<times> nat \<Rightarrow> addr \<times> nat \<Rightarrow> bool" where
  "later_above a b \<longleftrightarrow> (fst a \<noteq> 0 \<and> fst b \<noteq> 0 \<longrightarrow> unat (fst a) + snd a \<le> unat (fst b))"

lemma m1_sbrk_m3: "m1_sbrk = m3_sbrk" and m2_sbrk_m3: "m2_sbrk = m3_sbrk"
  by (simp_all add: fun_eq_iff m1_sbrk_def m2_sbrk_def m3_sbrk_def)

lemma m1_smalloc_at:
  assumes p: "brk_at 1 q s" and n: "n \<le> 100000000"
  obtains (null) s' where "m1_smalloc (of_nat n) s = (0, s')" "brk_at 1 q s'"
  | (given) s' where "m1_smalloc (of_nat n) s = (q, s')" "brk_at 1 (q + of_nat n) s'" "unat (q + of_nat n) = unat q + n"
proof -
  have u: "unat (of_nat n :: 64 word) = n" using n by (simp add: unat_of_nat)
  have lim: "\<not> SIZE_LIMIT < of_nat n" using n u by (simp add: SIZE_LIMIT_def word_less_nat_alt)
  show ?thesis
  proof (cases "n = 0")
    case True
    then show ?thesis using that(1) [of s] p by (simp add: m1_smalloc_def)
  next
    case False
    then have d: "0 < unat (of_nat n :: 64 word)" "unat (of_nat n :: 64 word) \<le> 140737488355328" using u n by simp_all
    have z: "(of_nat n :: 64 word) \<noteq> 0" using False u by auto
    show ?thesis
    proof (rule m3.grow_cases [OF p d])
      fix k assume "m3_sbrk (of_nat n) s = (- 1, s\<lparr>kernel_of := k\<rparr>)" "brk_at 1 q (s\<lparr>kernel_of := k\<rparr>)"
      then show ?thesis using that(1) z lim by (simp add: m1_smalloc_def m1_sbrk_m3)
    next
      fix k
      let ?s = "s\<lparr>kernel_of := k, program_break := Some (q + of_nat n)\<rparr>"
      assume g: "m3_sbrk (of_nat n) s = (q, ?s)" "brk_at 1 (q + of_nat n) ?s"
        "unat (q + of_nat n) = unat q + unat (of_nat n :: 64 word)" "unat q + unat (of_nat n :: 64 word) \<le> 140737488355328"
      have "q \<noteq> - 1" using g(4) unat_minus_one_64 by auto
      then show ?thesis using that(2) [of ?s] g u z lim by (simp add: m1_smalloc_def m1_sbrk_m3)
    qed simp
  qed
qed

lemma m1_requests_above:
  assumes "brk_at 1 q s" "\<forall>n\<in>set ns. n \<le> 100000000"
  shows "sorted_wrt later_above (m1_requests ns s) \<and> (\<forall>b\<in>set (m1_requests ns s). fst b \<noteq> 0 \<longrightarrow> unat q \<le> unat (fst b))"
  using assms
proof (induction ns arbitrary: q s)
  case (Cons n ns)
  have ns: "\<forall>n\<in>set ns. n \<le> 100000000" and n: "n \<le> 100000000" using Cons.prems(2) by simp_all
  show ?case
  proof (rule m1_smalloc_at [OF Cons.prems(1) n])
    fix s' assume "m1_smalloc (of_nat n) s = (0, s')" "brk_at 1 q s'"
    then show ?thesis using Cons.IH [OF _ ns, of q s'] by (auto simp: later_above_def)
  next
    fix s' assume a: "m1_smalloc (of_nat n) s = (q, s')" "brk_at 1 (q + of_nat n) s'" "unat (q + of_nat n) = unat q + n"
    note IH = Cons.IH [OF a(2) ns]
    then have "\<forall>b\<in>set (m1_requests ns s'). later_above (q, n) b" using a(3) by (auto simp: later_above_def)
    moreover have "\<forall>b\<in>set (m1_requests ns s'). fst b \<noteq> 0 \<longrightarrow> unat q \<le> unat (fst b)" using IH a(3) by fastforce
    ultimately show ?thesis using a(1) IH by simp
  qed
qed simp

lemma m1_first:
  assumes "program_break s = None" "kernel_ok (kernel_of s)"
  shows "brk_at 1 (os_break (kernel_of s)) (s\<lparr>program_break := Some (os_break (kernel_of s))\<rparr>)"
    "m1_sbrk d s = m1_sbrk d (s\<lparr>program_break := Some (os_break (kernel_of s))\<rparr>)"
  using assms by (simp_all add: brk_at_def m1_sbrk_def static_break_def)

text \<open>
  In \<open>malloc_1.cpp\<close> the memory handed out by a request lies above all memory handed out before it, whatever
  the sizes asked for and whichever requests the system refuses: no two answers overlap.
\<close>

theorem m1_requests_disjoint:
  assumes "program_break s = None" "kernel_ok (kernel_of s)" "\<forall>n\<in>set ns. n \<le> 100000000"
  shows "sorted_wrt later_above (m1_requests ns s)"
proof -
  let ?s = "s\<lparr>program_break := Some (os_break (kernel_of s))\<rparr>"
  have null: "sorted_wrt later_above (m1_requests ns s)" if "\<forall>n\<in>set ns. n \<le> 100000000" for ns
    using that
  proof (induction ns)
    case (Cons n ns)
    show ?case
    proof (cases "(of_nat n :: 64 word) = 0 \<or> SIZE_LIMIT < of_nat n")
      case True
      then have "m1_smalloc (of_nat n) s = (0, s)" by (auto simp: m1_smalloc_def)
      then show ?thesis using Cons by (simp add: later_above_def)
    next
      case False
      then have "m1_smalloc (of_nat n) s = m1_smalloc (of_nat n) ?s"
        unfolding m1_smalloc_def m1_first(2) [OF assms(1,2)] by simp
      then have "m1_requests (n # ns) s = m1_requests (n # ns) ?s" by simp
      then show ?thesis using m1_requests_above [OF m1_first(1) [OF assms(1,2)] Cons.prems] by simp
    qed
  qed simp
  then show ?thesis using assms(3) by blast
qed

theorem m1_requests_disjoint_witness:
  "sorted_wrt later_above (m1_requests [100, 0, 50] \<lparr>program_break = None,
     kernel_of = \<lparr>os_start = 4096, os_break = 4096, os_maps = [], os_holes = [], os_grants = (\<lambda>_. True), os_places = (\<lambda>_. 0),
       os_clock = 0, os_refusals = 0\<rparr>, mem = (\<lambda>_. 0)\<rparr>)"
  by (rule m1_requests_disjoint) (simp_all add: kernel_ok_def)

section \<open>The allocator of \<open>malloc_2.cpp\<close>\<close>

record heap2 = process +
  global_head :: addr
  m2_free_blocks_num :: size_t
  m2_free_bytes_num :: size_t
  m2_allocated_blocks_num :: size_t
  m2_allocated_bytes_num :: size_t

definition size_of :: "heap2 \<Rightarrow> addr \<Rightarrow> size_t" where
  "size_of s block = load64 (mem s) block"

definition is_free :: "heap2 \<Rightarrow> addr \<Rightarrow> bool" where
  "is_free s block \<longleftrightarrow> load64 (mem s) (block + 8) \<noteq> 0"

definition set_size :: "addr \<Rightarrow> size_t \<Rightarrow> heap2 \<Rightarrow> heap2" where
  "set_size block v s = s\<lparr>mem := store64 (mem s) block v\<rparr>"

definition set_free :: "addr \<Rightarrow> bool \<Rightarrow> heap2 \<Rightarrow> heap2" where
  "set_free block v s = s\<lparr>mem := store64 (mem s) (block + 8) (if v then 1 else 0)\<rparr>"

definition m2_size_meta_data :: size_t where
  "m2_size_meta_data = 16"

definition m2_num_free_blocks :: "heap2 \<Rightarrow> size_t" where
  "m2_num_free_blocks s = m2_free_blocks_num s"

definition m2_num_free_bytes :: "heap2 \<Rightarrow> size_t" where
  "m2_num_free_bytes s = m2_free_bytes_num s"

definition m2_num_allocated_blocks :: "heap2 \<Rightarrow> size_t" where
  "m2_num_allocated_blocks s = m2_allocated_blocks_num s"

definition m2_num_allocated_bytes :: "heap2 \<Rightarrow> size_t" where
  "m2_num_allocated_bytes s = m2_allocated_bytes_num s"

definition m2_num_meta_data_bytes :: "heap2 \<Rightarrow> size_t" where
  "m2_num_meta_data_bytes s = 16 * m2_allocated_blocks_num s"

fun m2_find_loop :: "nat \<Rightarrow> heap2 \<Rightarrow> size_t \<Rightarrow> addr \<Rightarrow> addr \<Rightarrow> addr outcome" where
  "m2_find_loop 0 s block_size pb last_searched = Inl Cyclic"
| "m2_find_loop (Suc n) s block_size pb last_searched =
     (if last_searched + size_of s last_searched < pb then
        if is_free s last_searched \<and> block_size \<le> size_of s last_searched then Inr last_searched
        else m2_find_loop n s block_size pb (last_searched + size_of s last_searched)
      else Inr last_searched)"

definition m2_find_free_block :: "size_t \<Rightarrow> heap2 \<Rightarrow> (addr \<times> heap2) outcome" where
  "m2_find_free_block block_size s =
     (let last_searched = global_head s; (pb, s) = m2_sbrk 0 s in
      if pb = - 1 \<or> last_searched = 0 then Inr (0, s)
      else checked_bind (m2_find_loop (Suc (unat (pb - last_searched))) s block_size pb last_searched)
             (\<lambda>block. Inr (block, s)))"

definition m2_init_alloc_block :: "addr \<Rightarrow> size_t \<Rightarrow> heap2 \<Rightarrow> addr \<times> heap2" where
  "m2_init_alloc_block block block_size s =
     (let (r, s) = m2_sbrk block_size s in
      if r = - 1 then (0, s) else (block, set_free block False (set_size block block_size s)))"

definition m2_finish :: "size_t \<Rightarrow> addr \<times> heap2 \<Rightarrow> addr \<times> heap2" where
  "m2_finish bytes = (\<lambda>(last_block, s).
     if last_block = 0 then (0, s)
     else (last_block + 16, s\<lparr>m2_allocated_blocks_num := m2_allocated_blocks_num s + 1,
             m2_allocated_bytes_num := m2_allocated_bytes_num s + bytes\<rparr>))"

definition m2_smalloc :: "size_t \<Rightarrow> heap2 \<Rightarrow> (addr \<times> heap2) outcome" where
  "m2_smalloc bytes s =
     (if bytes = 0 \<or> SIZE_LIMIT < bytes then Inr (0, s)
      else let block_size = bytes + m2_size_meta_data in
      if global_head s \<noteq> 0 then
        checked_bind (m2_find_free_block block_size s) (\<lambda>(last_searched, s).
          if last_searched = 0 then Inr (0, s)
          else if is_free s last_searched then
            let s = set_free last_searched False s in
            Inr (last_searched + 16,
              s\<lparr>m2_free_blocks_num := m2_free_blocks_num s - 1,
                m2_free_bytes_num := m2_free_bytes_num s - (size_of s last_searched - m2_size_meta_data)\<rparr>)
          else Inr (m2_finish bytes (m2_init_alloc_block (last_searched + size_of s last_searched) block_size s)))
      else
        let (head, s) = m2_sbrk 0 s; s = s\<lparr>global_head := head\<rparr> in
        Inr (m2_finish bytes (m2_init_alloc_block (global_head s) block_size s)))"

definition m2_scalloc :: "size_t \<Rightarrow> size_t \<Rightarrow> heap2 \<Rightarrow> (addr \<times> heap2) outcome" where
  "m2_scalloc num bytes s =
     checked_bind (m2_smalloc (num * bytes) s) (\<lambda>(alloc, s).
       if alloc = 0 then Inr (0, s) else Inr (alloc, s\<lparr>mem := memset (mem s) alloc 0 (num * bytes)\<rparr>))"

definition m2_sfree :: "addr \<Rightarrow> heap2 \<Rightarrow> heap2" where
  "m2_sfree p s =
     (if p = 0 then s
      else let block_to_free = p - 16 in
      if is_free s block_to_free then s
      else let s = set_free block_to_free True s in
        s\<lparr>m2_free_blocks_num := m2_free_blocks_num s + 1,
          m2_free_bytes_num := m2_free_bytes_num s + (size_of s block_to_free - m2_size_meta_data)\<rparr>)"

definition m2_srealloc :: "addr \<Rightarrow> size_t \<Rightarrow> heap2 \<Rightarrow> (addr \<times> heap2) outcome" where
  "m2_srealloc oldp bytes s =
     (if oldp = 0 then m2_smalloc bytes s
      else let old_block = oldp - 16 in
      if bytes = 0 \<or> SIZE_LIMIT < bytes then Inr (0, s)
      else let block_size = bytes + m2_size_meta_data in
      if block_size \<le> size_of s old_block then Inr (oldp, s)
      else checked_bind (m2_smalloc bytes s) (\<lambda>(newp, s).
        if newp = 0 then Inr (0, s)
        else Inr (newp, m2_sfree oldp
          (s\<lparr>mem := memmove (mem s) newp oldp (size_of s old_block - m2_size_meta_data)\<rparr>))))"

section \<open>The walk over the blocks\<close>

text \<open>The blocks between two addresses, each with its size as the heads in memory give them.\<close>

fun laid_out :: "heap2 \<Rightarrow> nat \<Rightarrow> (addr \<times> nat) list \<Rightarrow> nat \<Rightarrow> bool" where
  "laid_out s a [] e \<longleftrightarrow> a = e"
| "laid_out s a ((h, n) # bs) e \<longleftrightarrow> unat h = a \<and> 16 \<le> n \<and> size_of s h = of_nat n \<and> laid_out s (a + n) bs e"

definition m2_inv :: "heap2 \<Rightarrow> (addr \<times> nat) list \<Rightarrow> addr \<Rightarrow> bool" where
  "m2_inv s bs pb \<longleftrightarrow> brk_at 1 pb s \<and> bs \<noteq> [] \<and> global_head s \<noteq> 0 \<and> laid_out s (unat (global_head s)) bs (unat pb)"

text \<open>First fit among all blocks but the last; the last one if there is none.\<close>

fun first_fit :: "heap2 \<Rightarrow> nat \<Rightarrow> (addr \<times> nat) list \<Rightarrow> addr" where
  "first_fit s k [] = 0"
| "first_fit s k [b] = fst b"
| "first_fit s k (b # c # bs) = (if is_free s (fst b) \<and> k \<le> snd b then fst b else first_fit s k (c # bs))"

lemma laid_out_le: "laid_out s a bs e \<Longrightarrow> a + 16 * length bs \<le> e"
  by (induction s a bs e rule: laid_out.induct) auto

lemma m2_find_loop_first_fit:
  assumes "laid_out s (unat h) ((h, n) # bs) (unat pb)" "unat pb \<le> 140737488355328" "length bs < fuel" "k \<le> 140737488355328"
  shows "m2_find_loop fuel s (of_nat k) pb h = Inr (first_fit s k ((h, n) # bs))"
  using assms
proof (induction bs arbitrary: h n fuel)
  case Nil
  obtain f where f: "fuel = Suc f" using Nil(3) by (cases fuel) auto
  have n: "unat h + n = unat pb" "size_of s h = of_nat n" using Nil(1) by simp_all
  have u: "unat (of_nat n :: 64 word) = n" using n(1) Nil(2) by (simp add: unat_of_nat)
  have "h + size_of s h = pb" using n(1) unfolding n(2) eq_iff_unat_64 using Nil(2) u by (subst unat_plus_64) simp_all
  then show ?case by (simp add: f)
next
  case (Cons b bs)
  obtain h' n' where b: "b = (h', n')" by (cases b)
  obtain f where f: "fuel = Suc f" using Cons.prems(3) by (cases fuel) auto
  have n: "unat h + n = unat h'" "size_of s h = of_nat n" and lo: "laid_out s (unat h') ((h', n') # bs) (unat pb)"
    using Cons.prems(1) b by auto
  have le: "unat h' + 16 \<le> unat pb" using laid_out_le [OF lo] by simp
  have u: "unat (of_nat n :: 64 word) = n" "unat (of_nat k :: 64 word) = k"
    using n(1) le Cons.prems(2,4) by (simp_all add: unat_of_nat)
  have nx: "h + size_of s h = h'"
    using n(1) unfolding n(2) eq_iff_unat_64 using le Cons.prems(2) u by (subst unat_plus_64) simp_all
  have "h' < pb" using le by (simp add: word_less_nat_alt)
  moreover have "of_nat k \<le> size_of s h \<longleftrightarrow> k \<le> n" using u by (simp add: n(2) word_le_nat_alt)
  ultimately show ?case using Cons.IH [OF lo Cons.prems(2) _ Cons.prems(4), of f] Cons.prems(3) f nx b by simp
qed

lemma m2_find_first_fit:
  assumes "m2_inv s bs pb" "k \<le> 140737488355328"
  shows "m2_find_free_block (of_nat k) s = Inr (first_fit s k bs, s)"
proof -
  obtain h n rest where bs: "bs = (h, n) # rest" using assms(1) by (cases bs) (auto simp: m2_inv_def)
  have at: "brk_at 1 pb s" and lo: "laid_out s (unat h) ((h, n) # rest) (unat pb)" and g: "global_head s = h" "h \<noteq> 0"
    using assms(1) bs by (auto simp: m2_inv_def word_unat_eq_iff)
  have pb: "unat pb \<le> 140737488355328" using at kernel_ok_break by (auto simp: brk_at_def)
  have "pb \<noteq> - 1" using pb unat_minus_one_64 by auto
  moreover have "length rest < Suc (unat (pb - h))"
  proof -
    have le: "unat h + 16 * Suc (length rest) \<le> unat pb" using laid_out_le [OF lo] by simp
    then have "unat (pb - h) = unat pb - unat h" by (intro unat_minus_64) simp
    then show ?thesis using le by simp
  qed
  moreover have "m2_sbrk 0 s = (pb, s)" unfolding m2_sbrk_m3 by (rule m3.current [OF at])
  ultimately show ?thesis
    using m2_find_loop_first_fit [OF lo pb _ assms(2)] g by (simp add: m2_find_free_block_def bs del: m2_find_loop.simps)
qed

text \<open>A heap of one free block of 10 bytes and its head.\<close>

definition demo2 :: heap2 where
  "demo2 = \<lparr>program_break = Some 4122,
     kernel_of = \<lparr>os_start = 4096, os_break = 4122, os_maps = [], os_holes = [], os_grants = (\<lambda>_. True), os_places = (\<lambda>_. 0),
       os_clock = 0, os_refusals = 0\<rparr>,
     mem = store64 (store64 (\<lambda>_. 0) 4096 26) 4104 1, global_head = 4096, m2_free_blocks_num = 1, m2_free_bytes_num = 10,
     m2_allocated_blocks_num = 1, m2_allocated_bytes_num = 10\<rparr>"

lemma demo2_inv: "m2_inv demo2 [(4096, 26)] 4122" "is_free demo2 4096"
proof -
  have "load64 (store64 (store64 (\<lambda>_. 0) 4096 26) 4104 1) 4096 = load64 (store64 (\<lambda>_. 0) 4096 26) 4096"
    unfolding load64_def store64_def by (subst load_store_le_other) simp_all
  then have "size_of demo2 4096 = 26" by (simp add: size_of_def demo2_def)
  then show "m2_inv demo2 [(4096, 26)] 4122"
    by (simp add: m2_inv_def brk_at_def kernel_ok_def demo2_def)
  show "is_free demo2 4096" by (simp add: is_free_def demo2_def)
qed

text \<open>
  On a well-formed heap, \<open>_find_free_block\<close> of \<open>malloc_2.cpp\<close> ends and is first fit on all blocks before the
  last: it returns the first free block that is large enough, and the last block when there is none.
\<close>

theorem m2_find_is_first_fit:
  assumes "m2_inv s bs pb" "k \<le> 140737488355328"
  shows "m2_find_free_block (of_nat k) s = Inr (first_fit s k bs, s)"
  by (rule m2_find_first_fit [OF assms])

theorem m2_find_is_first_fit_witness:
  "m2_find_free_block (of_nat 20) demo2 = Inr (first_fit demo2 20 [(4096, 26)], demo2)"
  by (rule m2_find_is_first_fit [OF demo2_inv(1)]) simp

text \<open>
  When the last block is free and no other free block is large enough, \<open>smalloc\<close> of \<open>malloc_2.cpp\<close> hands out the
  last block whatever its size, so the caller can receive fewer bytes than it asked for.
\<close>

theorem m2_smalloc_too_small:
  assumes "m2_inv s (bs @ [(h, n)]) pb" "is_free s h" "\<forall>b\<in>set bs. \<not> (is_free s (fst b) \<and> k + 16 \<le> snd b)"
    "0 < k" "k \<le> 100000000"
  shows "\<exists>s'. m2_smalloc (of_nat k) s = Inr (h + 16, s')"
proof -
  have ff: "first_fit s (k + 16) (bs @ [(h, n)]) = h" using assms(3)
  proof (induction bs)
    case (Cons b bs)
    then show ?case by (cases "bs @ [(h, n)]") auto
  qed simp
  have u: "unat (of_nat k :: 64 word) = k" using assms(5) by (simp add: unat_of_nat)
  have k: "of_nat k \<noteq> (0 :: 64 word)" "\<not> SIZE_LIMIT < of_nat k" "of_nat k + m2_size_meta_data = (of_nat (k + 16) :: 64 word)"
    using assms(4,5) u by (auto simp: SIZE_LIMIT_def word_less_nat_alt m2_size_meta_data_def)
  have find: "m2_find_free_block (of_nat (k + 16)) s = Inr (h, s)"
    using ff assms(5) m2_find_first_fit [OF assms(1), of "k + 16"] by simp
  have "global_head s \<noteq> 0" using assms(1) by (simp add: m2_inv_def)
  moreover have "h \<noteq> 0"
  proof -
    have "laid_out s a (bs @ [(h, n)]) e \<Longrightarrow> a \<le> unat h" for a e
      by (induction bs arbitrary: a) fastforce+
    then have "unat (global_head s) \<le> unat h" using assms(1) by (auto simp: m2_inv_def)
    then show ?thesis using \<open>global_head s \<noteq> 0\<close> by (auto simp: unat_eq_zero)
  qed
  ultimately show ?thesis unfolding m2_smalloc_def Let_def k(3) using k(1,2) find assms(2) by simp
qed

theorem m2_smalloc_too_small_witness: "\<exists>s'. m2_smalloc (of_nat 1000) demo2 = Inr (4096 + 16, s')"
  by (rule m2_smalloc_too_small [of demo2 "[]" 4096 26]) (use demo2_inv in simp_all)

end
