(* ===== verification/Malloc_Free_List.thy ===== *)
theory Malloc_Free_List
  imports Malloc_Blocks
begin

text \<open>
  The free list of \<open>malloc_3.cpp\<close> as a list. Over a set of blocks that do not overlap, the fields of
  block heads behave like the fields of separate objects, and the doubly linked list through \<open>next\<close>
  and \<open>prev\<close> is kept by \<open>_add_sbrk_free_block\<close> and \<open>_remove_sbrk_free_block\<close>: they insert into and
  delete from the list, change nothing outside the heads, and keep every size and every tail. The
  \<open>prev\<close> field of the first element is not constrained: removing the first element leaves the
  \<open>prev\<close> of the new one as it was.
\<close>

section \<open>Blocks that do not overlap\<close>

type_synonym blocks = "(addr \<times> nat) set"

definition blocks_ok :: "blocks \<Rightarrow> bool" where
  "blocks_ok B \<longleftrightarrow> (\<forall>(h, n)\<in>B. 0 < unat h \<and> 48 \<le> n \<and> unat h + n \<le> 140737488355328)
     \<and> (\<forall>b\<in>B. \<forall>b'\<in>B. b = b' \<or> apart (unat (fst b)) (snd b) (unat (fst b')) (snd b'))"

definition tails_ok :: "heap \<Rightarrow> blocks \<Rightarrow> bool" where
  "tails_ok s B \<longleftrightarrow> (\<forall>(h, n)\<in>B. get F_size s h = of_nat n
     \<and> load32 (mem s) (h + of_nat n - 16) = global_rand_cookie s
     \<and> load64 (mem s) (h + of_nat n - 8) = of_nat n)"

definition heads :: "blocks \<Rightarrow> addr set" where
  "heads B = fst ` B"

lemma heads_iff: "h \<in> heads B \<longleftrightarrow> (\<exists>n. (h, n) \<in> B)"
  by (force simp: heads_def)

lemma heads_I [intro]: "(h, n) \<in> B \<Longrightarrow> h \<in> heads B"
  by (force simp: heads_def)

lemma blocks_ok_D:
  assumes "blocks_ok B" "(h, n) \<in> B"
  shows "0 < unat h" "48 \<le> n" "unat h + n \<le> 140737488355328" "h \<noteq> 0"
  using assms(1) [unfolded blocks_ok_def, THEN conjunct1, THEN bspec, OF assms(2)] by auto

lemma blocks_ok_apart:
  assumes "blocks_ok B" "(h, n) \<in> B" "(h', n') \<in> B"
  shows "h = h' \<and> n = n' \<or> unat h + n \<le> unat h' \<or> unat h' + n' \<le> unat h"
proof -
  have "\<forall>b\<in>B. \<forall>b'\<in>B. b = b' \<or> apart (unat (fst b)) (snd b) (unat (fst b')) (snd b')"
    using assms(1) unfolding blocks_ok_def by (rule conjunct2)
  from bspec [OF bspec [OF this assms(2)] assms(3)] show ?thesis
    unfolding apart_def fst_conv snd_conv prod.inject .
qed

lemma blocks_ok_subset: "blocks_ok B \<Longrightarrow> A \<subseteq> B \<Longrightarrow> blocks_ok A"
  unfolding blocks_ok_def by blast

lemma unat_offset:
  assumes "unat h + 32 \<le> 18446744073709551616"
  shows "unat (h + offset f) = unat h + unat (offset f)" "unat (offset f) \<le> 24"
proof -
  show "unat (offset f) \<le> 24" by (cases f) simp_all
  with assms show "unat (h + offset f) = unat h + unat (offset f)" by (intro unat_plus_64) linarith
qed

lemma unat_of_nat_64: "n < 18446744073709551616 \<Longrightarrow> unat (of_nat n :: 64 word) = n"
  by (simp add: unat_of_nat)

lemma tail_address:
  fixes h :: addr
  assumes "48 \<le> n" "unat h + n \<le> 140737488355328"
  shows "unat (h + of_nat n - 16) = unat h + n - 16"
    "unat (h + of_nat n - 8) = unat h + n - 8"
proof -
  have n: "unat (of_nat n :: 64 word) = n" using assms by (intro unat_of_nat_64) linarith
  have "unat h + n < 18446744073709551616" using assms(2) by linarith
  then have a: "unat (h + of_nat n) = unat h + n" using unat_plus_64 [of h "of_nat n"] unfolding n by blast
  have "unat (16 :: addr) \<le> unat (h + of_nat n)" "unat (8 :: addr) \<le> unat (h + of_nat n)"
    unfolding a using assms(1) by simp_all
  then show "unat (h + of_nat n - 16) = unat h + n - 16" "unat (h + of_nat n - 8) = unat h + n - 8"
    using unat_minus_64 [of 16 "h + of_nat n"] unat_minus_64 [of 8 "h + of_nat n"] unfolding a by simp_all
qed

section \<open>Fields of heads\<close>

lemma mem_put: "mem (put f h v s) = store64 (mem s) (h + offset f) v"
  by (simp add: put_def)

lemma put_other [simp]:
  "program_break (put f h v s) = program_break s"
  "kernel_of (put f h v s) = kernel_of s"
  "global_rand_cookie (put f h v s) = global_rand_cookie s"
  "rands (put f h v s) = rands s"
  "sbrk_head (put f h v s) = sbrk_head s"
  "sbrk_free_head (put f h v s) = sbrk_free_head s"
  "free_blocks_num (put f h v s) = free_blocks_num s"
  "free_bytes_num (put f h v s) = free_bytes_num s"
  "allocated_blocks_num (put f h v s) = allocated_blocks_num s"
  "allocated_bytes_num (put f h v s) = allocated_bytes_num s"
  by (simp_all add: put_def)

lemma get_cong: "mem s = mem s' \<Longrightarrow> get f s h = get f s' h"
  by (simp add: get_def)

lemma get_update [simp]:
  "get f (s\<lparr>sbrk_free_head := a\<rparr>) h = get f s h"
  "get f (s\<lparr>sbrk_head := a\<rparr>) h = get f s h"
  "get f (s\<lparr>free_blocks_num := n\<rparr>) h = get f s h"
  "get f (s\<lparr>free_bytes_num := n\<rparr>) h = get f s h"
  "get f (s\<lparr>allocated_blocks_num := n\<rparr>) h = get f s h"
  "get f (s\<lparr>allocated_bytes_num := n\<rparr>) h = get f s h"
  "get f (s\<lparr>program_break := b\<rparr>) h = get f s h"
  "get f (s\<lparr>kernel_of := k\<rparr>) h = get f s h"
  "get f (s\<lparr>global_rand_cookie := c\<rparr>) h = get f s h"
  "get f (s\<lparr>rands := rs\<rparr>) h = get f s h"
  by (simp_all add: get_def)

lemma put_outside:
  assumes "unat h + 32 \<le> 18446744073709551616" "x \<notin> span h 32"
  shows "mem (put f h v s) x = mem s x"
  unfolding mem_put
  using assms unat_offset [OF assms(1), of f] by (intro store64_outside) (auto simp: span_def)

lemma offset_apart: "f \<noteq> g \<Longrightarrow> unat (offset f) + 8 \<le> unat (offset g) \<or> unat (offset g) + 8 \<le> unat (offset f)"
  by (cases f; cases g) simp_all

lemma get_put:
  assumes "unat h + 32 \<le> 18446744073709551616" "unat h' + 32 \<le> 18446744073709551616"
    "h = h' \<or> unat h + 32 \<le> unat h' \<or> unat h' + 32 \<le> unat h"
  shows "get f (put g h v s) h' = (if f = g \<and> h = h' then v else get f s h')"
proof (cases "f = g \<and> h = h'")
  case True
  then show ?thesis using unat_offset [OF assms(1), of f] assms(1) by (simp add: get_def mem_put)
next
  case False
  have "unat (h' + offset f) + 8 \<le> unat (h + offset g) \<or> unat (h + offset g) + 8 \<le> unat (h' + offset f)"
    using unat_offset [OF assms(1), of g] unat_offset [OF assms(2), of f] assms(3) False
      offset_apart [of f g] by auto
  then have "load64 (store64 (mem s) (h + offset g) v) (h' + offset f) = load64 (mem s) (h' + offset f)"
    using unat_offset [OF assms(1), of g] unat_offset [OF assms(2), of f] assms(1,2)
    by (intro load64_cong store64_outside) (auto simp: span_def)
  then show ?thesis unfolding if_not_P [OF False] by (simp add: get_def mem_put)
qed

lemma head_room:
  assumes "blocks_ok B" "h \<in> heads B"
  shows "unat h + 32 \<le> 18446744073709551616" "h \<noteq> 0"
proof -
  from assms(2) obtain n where b: "(h, n) \<in> B" by (auto simp: heads_iff)
  show "unat h + 32 \<le> 18446744073709551616" "h \<noteq> 0"
    using blocks_ok_D(2,3,4) [OF assms(1) b] by auto
qed

lemma heads_apart:
  assumes "blocks_ok B" "h \<in> heads B" "h' \<in> heads B"
  shows "h = h' \<or> unat h + 32 \<le> unat h' \<or> unat h' + 32 \<le> unat h"
proof -
  from assms(2,3) obtain n n' where b: "(h, n) \<in> B" "(h', n') \<in> B" by (auto simp: heads_iff)
  show ?thesis
    using blocks_ok_apart [OF assms(1) b] blocks_ok_D(2) [OF assms(1) b(1)] blocks_ok_D(2) [OF assms(1) b(2)]
    by linarith
qed

lemma get_put_blocks:
  assumes "blocks_ok B" "h \<in> heads B" "h' \<in> heads B"
  shows "get f (put g h v s) h' = (if f = g \<and> h = h' then v else get f s h')"
  using get_put [OF head_room(1) [OF assms(1,2)] head_room(1) [OF assms(1,3)] heads_apart [OF assms]] .

section \<open>Changes inside the heads\<close>

definition beside :: "heap \<Rightarrow> addr option \<times> os \<times> addr \<times> size_t \<times> size_t \<times> size_t \<times> size_t" where
  "beside s = (program_break s, kernel_of s, sbrk_head s,
     free_blocks_num s, free_bytes_num s, allocated_blocks_num s, allocated_bytes_num s)"

definition coin :: "heap \<Rightarrow> c_int \<times> c_int list" where
  "coin s = (global_rand_cookie s, rands s)"

definition head_change :: "blocks \<Rightarrow> heap \<Rightarrow> heap \<Rightarrow> bool" where
  "head_change B s s' \<longleftrightarrow> beside s' = beside s \<and> coin s' = coin s
     \<and> (\<forall>x. (\<forall>h\<in>heads B. x \<notin> span h 32) \<longrightarrow> mem s' x = mem s x)
     \<and> (\<forall>h\<in>heads B. get F_size s' h = get F_size s h)"

lemma head_change_refl [simp]: "head_change B s s"
  by (simp add: head_change_def)

lemma head_change_trans: "head_change B s t \<Longrightarrow> head_change B t u \<Longrightarrow> head_change B s u"
  by (simp add: head_change_def)

lemma head_change_put:
  assumes "blocks_ok B" "h \<in> heads B" "f \<noteq> F_size"
  shows "head_change B s (put f h v s)"
  unfolding head_change_def
proof (intro conjI allI impI ballI)
  show "beside (put f h v s) = beside s" "coin (put f h v s) = coin s"
    by (simp_all add: beside_def coin_def)
  show "mem (put f h v s) x = mem s x" if "\<forall>h\<in>heads B. x \<notin> span h 32" for x
    using that assms(2) by (intro put_outside head_room(1) [OF assms(1,2)]) blast
  show "get F_size (put f h v s) h' = get F_size s h'" if "h' \<in> heads B" for h'
    using get_put_blocks [OF assms(1,2) that] assms(3) by simp
qed

lemma head_change_fields:
  assumes "head_change B s s'"
  shows "program_break s' = program_break s" "kernel_of s' = kernel_of s"
    "global_rand_cookie s' = global_rand_cookie s" "rands s' = rands s" "sbrk_head s' = sbrk_head s"
    "free_blocks_num s' = free_blocks_num s" "free_bytes_num s' = free_bytes_num s"
    "allocated_blocks_num s' = allocated_blocks_num s" "allocated_bytes_num s' = allocated_bytes_num s"
  using assms by (simp_all add: head_change_def beside_def coin_def)

lemma head_change_tails:
  assumes ok: "blocks_ok B" and ch: "head_change B s s'" and t: "tails_ok s B"
  shows "tails_ok s' B"
  unfolding tails_ok_def
proof (intro ballI, clarify, intro conjI)
  fix h n assume b: "(h, n) \<in> B"
  note d = blocks_ok_D [OF ok b] and a = tail_address [OF blocks_ok_D(2,3) [OF ok b]]
  have same: "mem s' x = mem s x" if x: "unat h + n - 16 \<le> unat x" "unat x < unat h + n" for x
  proof -
    have "x \<notin> span h' 32" if "h' \<in> heads B" for h'
    proof -
      from that obtain n' where b': "(h', n') \<in> B" by (auto simp: heads_iff)
      show ?thesis
        using blocks_ok_apart [OF ok b b'] blocks_ok_D(2) [OF ok b'] d(2) x by (auto simp: span_def)
    qed
    then show ?thesis using ch by (auto simp: head_change_def)
  qed
  have tn: "get F_size s h = of_nat n" "load32 (mem s) (h + of_nat n - 16) = global_rand_cookie s"
    "load64 (mem s) (h + of_nat n - 8) = of_nat n"
    using t b by (auto simp: tails_ok_def)
  have "h \<in> heads B" using b by blast
  then show "get F_size s' h = of_nat n" using ch tn(1) unfolding head_change_def by metis
  have "load32 (mem s') (h + of_nat n - 16) = load32 (mem s) (h + of_nat n - 16)"
    using a d by (intro load32_cong same) (auto simp: span_def)
  then show "load32 (mem s') (h + of_nat n - 16) = global_rand_cookie s'"
    using tn(2) head_change_fields(3) [OF ch] by simp
  have "load64 (mem s') (h + of_nat n - 8) = load64 (mem s) (h + of_nat n - 8)"
    using a d by (intro load64_cong same) (auto simp: span_def)
  then show "load64 (mem s') (h + of_nat n - 8) = of_nat n" using tn(3) by simp
qed

lemma check_cookie_ok:
  assumes "tails_ok s B" "h \<in> heads B"
  shows "check_cookie h s = Inr ()"
proof -
  from assms obtain n where "get F_size s h = of_nat n"
    "load32 (mem s) (h + of_nat n - 16) = global_rand_cookie s"
    by (auto simp: tails_ok_def heads_iff)
  then show ?thesis by (simp add: check_cookie_def tail_metadata_def add_diff_eq)
qed

section \<open>The list through the heads\<close>

primrec chain :: "heap \<Rightarrow> addr list \<Rightarrow> addr \<Rightarrow> bool" where
  "chain s [] q = True"
| "chain s (x # xs) q \<longleftrightarrow> get F_next s x = hd (xs @ [q]) \<and> (xs \<noteq> [] \<longrightarrow> get F_prev s (hd xs) = x) \<and> chain s xs q"

definition free_list :: "heap \<Rightarrow> addr list \<Rightarrow> bool" where
  "free_list s xs \<longleftrightarrow> sbrk_free_head s = hd (xs @ [0]) \<and> chain s xs 0 \<and> distinct xs"

lemma chain_append:
  "chain s (xs @ y # ys) q \<longleftrightarrow> chain s xs y \<and> (xs \<noteq> [] \<longrightarrow> get F_prev s y = last xs) \<and> chain s (y # ys) q"
proof (induction xs)
  case (Cons x xs)
  then show ?case by (cases xs) auto
qed simp

lemma chain_snoc: "chain s (xs @ [x]) q \<longleftrightarrow> chain s xs x \<and> (xs \<noteq> [] \<longrightarrow> get F_prev s x = last xs) \<and> get F_next s x = q"
  by (simp add: chain_append)

lemma chain_cong:
  assumes "\<And>x. x \<in> set xs \<Longrightarrow> get F_next s' x = get F_next s x"
    "\<And>x. x \<in> set (tl xs) \<Longrightarrow> get F_prev s' x = get F_prev s x"
  shows "chain s' xs q = chain s xs q"
  using assms
proof (induction xs)
  case (Cons x xs)
  have "set (tl xs) \<subseteq> set xs" by (cases xs) auto
  then have "chain s' xs q = chain s xs q" using Cons.prems by (intro Cons.IH) auto
  moreover have "xs \<noteq> [] \<Longrightarrow> get F_prev s' (hd xs) = get F_prev s (hd xs)" using Cons.prems(2) by simp
  moreover have "get F_next s' x = get F_next s x" using Cons.prems(1) by simp
  ultimately show ?case by auto
qed simp

section \<open>Adding\<close>

definition relinks :: "blocks \<Rightarrow> heap \<Rightarrow> heap \<Rightarrow> bool" where
  "relinks B s s' \<longleftrightarrow> head_change B s s'
     \<and> (\<forall>h\<in>heads B. get F_is_free s' h = get F_is_free s h)"

lemma relinks_put:
  assumes "blocks_ok B" "h \<in> heads B" "f \<noteq> F_size" "f \<noteq> F_is_free"
  shows "relinks B s (put f h v s)"
  using head_change_put [OF assms(1-3)] get_put_blocks [OF assms(1,2)] assms(4)
  by (simp add: relinks_def)

lemma relinks_trans: "relinks B s t \<Longrightarrow> relinks B t u \<Longrightarrow> relinks B s u"
  unfolding relinks_def using head_change_trans by auto

lemma relinks_sizes: "relinks B s s' \<Longrightarrow> h \<in> heads B \<Longrightarrow> get F_size s' h = get F_size s h"
  by (simp add: relinks_def head_change_def)

lemma relinks_flags: "relinks B s s' \<Longrightarrow> h \<in> heads B \<Longrightarrow> get F_is_free s' h = get F_is_free s h"
  by (simp add: relinks_def)

fun insert_free :: "(addr \<Rightarrow> addr \<Rightarrow> bool) \<Rightarrow> addr \<Rightarrow> addr list \<Rightarrow> addr list" where
  "insert_free P b [] = [b]"
| "insert_free P b (x # xs) = (if P b x then b # x # xs else x # insert_free P b xs)"

definition links_kept :: "addr set \<Rightarrow> heap \<Rightarrow> heap \<Rightarrow> bool" where
  "links_kept A s s' \<longleftrightarrow> (\<forall>h\<in>A. get F_next s' h = get F_next s h \<and> get F_prev s' h = get F_prev s h)"

lemma links_kept_refl [simp]: "links_kept A s s"
  by (simp add: links_kept_def)

lemma links_kept_put:
  assumes "blocks_ok B" "A \<subseteq> heads B" "h \<in> heads B - A" "links_kept A s t"
  shows "links_kept A s (put f h v t)"
  unfolding links_kept_def
proof
  fix x assume x: "x \<in> A"
  then have "x \<in> heads B" "h \<noteq> x" "h \<in> heads B" using assms(2,3) by auto
  then show "get F_next (put f h v t) x = get F_next s x \<and> get F_prev (put f h v t) x = get F_prev s x"
    using assms(4) x by (simp add: get_put_blocks [OF assms(1)] links_kept_def)
qed

lemma add_loop_spec:
  assumes ok: "blocks_ok B" and t: "tails_ok s B" and b: "block \<in> heads B"
    and vs: "set (current # vs) \<subseteq> heads B" "block \<notin> set (current # vs)" "distinct (current # vs)"
      "chain s (current # vs) 0" "length vs < n"
  shows "\<exists>s'. add_loop n block current s = Inr s' \<and> relinks B s s'
    \<and> sbrk_free_head s' = sbrk_free_head s
    \<and> chain s' (current # insert_free (precedes s) block vs) 0
    \<and> get F_prev s' current = get F_prev s current
    \<and> links_kept (heads B - insert block (set (current # vs))) s s'"
  using vs
proof (induction vs arbitrary: n current)
  case Nil
  note gp = get_put_blocks [OF ok] and rp = relinks_put [OF ok]
  have c: "current \<in> heads B" "current \<noteq> block" "get F_next s current = 0" using Nil.prems by auto
  obtain m where n: "n = Suc m" using Nil.prems(5) by (cases n) auto
  let ?s = "put F_next current block (put F_next block 0 (put F_prev block current s))"
  have "add_loop n block current s = Inr ?s" using c(3) by (simp add: n)
  moreover have "relinks B s ?s"
    using rp [OF b] rp [OF c(1)] by (meson relinks_trans head_field.distinct)
  moreover have "links_kept (heads B - insert block (set [current])) s ?s"
    using c b by (intro links_kept_put [OF ok]) auto
  ultimately show ?case using c b by (simp add: gp)
next
  case (Cons v vs)
  note gp = get_put_blocks [OF ok] and rp = relinks_put [OF ok]
  have c: "current \<in> heads B" "v \<in> heads B" "current \<noteq> block" "v \<noteq> block" "current \<noteq> v"
    "get F_next s current = v" "v \<noteq> 0" "get F_prev s v = current"
    using Cons.prems head_room(2) [OF ok] by auto
  obtain m where n: "n = Suc m" using Cons.prems(5) by (cases n) auto
  have cookie: "check_cookie v s = Inr ()" using check_cookie_ok [OF t c(2)] .
  show ?case
  proof (cases "precedes s block v")
    case True
    let ?s = "put F_next current block (put F_prev v block (put F_next block v (put F_prev block current s)))"
    have "add_loop n block current s = Inr ?s" using c True cookie by (simp add: n)
    moreover have "relinks B s ?s"
      using rp [OF b] rp [OF c(1)] rp [OF c(2)] by (meson relinks_trans head_field.distinct)
    moreover have "chain ?s (v # vs) 0"
    proof -
      have "chain ?s (v # vs) 0 = chain s (v # vs) 0"
        using Cons.prems(1-3) c b by (intro chain_cong) (auto simp: gp)
      then show ?thesis using Cons.prems(4) by simp
    qed
    moreover have "links_kept (heads B - insert block (set (current # v # vs))) s ?s"
      using c b by (intro links_kept_put [OF ok]) auto
    ultimately show ?thesis using c b True by (simp add: gp)
  next
    case False
    have "\<exists>s'. add_loop m block v s = Inr s' \<and> relinks B s s'
      \<and> sbrk_free_head s' = sbrk_free_head s
      \<and> chain s' (v # insert_free (precedes s) block vs) 0
      \<and> get F_prev s' v = get F_prev s v
      \<and> links_kept (heads B - insert block (set (v # vs))) s s'"
      using Cons.prems n by (intro Cons.IH) auto
    then obtain s' where s': "add_loop m block v s = Inr s'" "relinks B s s'"
      "sbrk_free_head s' = sbrk_free_head s" "chain s' (v # insert_free (precedes s) block vs) 0"
      "get F_prev s' v = get F_prev s v" "links_kept (heads B - insert block (set (v # vs))) s s'"
      by blast
    have "current \<in> heads B - insert block (set (v # vs))" using c Cons.prems(3) by auto
    then have "get F_next s' current = get F_next s current" "get F_prev s' current = get F_prev s current"
      using s'(6) by (auto simp: links_kept_def)
    moreover have "links_kept (heads B - insert block (set (current # v # vs))) s s'"
      using s'(6) by (auto simp: links_kept_def)
    moreover have "add_loop n block current s = Inr s'" using c False cookie s'(1) by (simp add: n)
    ultimately show ?thesis using s' c False by auto
  qed
qed

lemma set_insert_free [simp]: "set (insert_free P b xs) = insert b (set xs)"
  by (induction xs) auto

lemma distinct_insert_free: "b \<notin> set xs \<Longrightarrow> distinct (insert_free P b xs) = distinct xs"
  by (induction xs) auto

definition sets_flag :: "blocks \<Rightarrow> addr \<Rightarrow> 64 word \<Rightarrow> heap \<Rightarrow> heap \<Rightarrow> bool" where
  "sets_flag B block v s s' \<longleftrightarrow> head_change B s s'
     \<and> (\<forall>h\<in>heads B. get F_is_free s' h = (if h = block then v else get F_is_free s h))"

lemma sets_flag_put:
  assumes "blocks_ok B" "block \<in> heads B"
  shows "sets_flag B block v s (put F_is_free block v s)"
  using head_change_put [OF assms] get_put_blocks [OF assms] by (simp add: sets_flag_def)

lemma sets_flag_relinks: "sets_flag B block v s t \<Longrightarrow> relinks B t u \<Longrightarrow> sets_flag B block v s u"
  unfolding sets_flag_def relinks_def using head_change_trans by auto

lemma relinks_head: "relinks B s (s\<lparr>sbrk_free_head := h\<rparr>)"
  by (simp add: relinks_def head_change_def beside_def coin_def)

lemma sets_flag_head_change: "sets_flag B block v s s' \<Longrightarrow> head_change B s s'"
  by (simp add: sets_flag_def)

lemma add_flagged:
  assumes ok: "blocks_ok B" and t: "tails_ok s B" and b: "block \<in> heads B"
    and xs: "free_list s xs" "set xs \<subseteq> heads B" "block \<notin> set xs"
  defines "s1 \<equiv> put F_prev block 0 (put F_is_free block 1 s)"
  shows "sets_flag B block 1 s s1" "tails_ok s1 B" "chain s1 xs 0" "sbrk_free_head s1 = hd (xs @ [0])" "distinct xs"
    "h \<in> heads B \<Longrightarrow> precedes s1 block h = precedes s block h" "walk_bound s1 = walk_bound s"
proof -
  note gp = get_put_blocks [OF ok]
  show f1: "sets_flag B block 1 s s1"
    unfolding s1_def using sets_flag_put [OF ok b] relinks_put [OF ok b] by (meson sets_flag_relinks head_field.distinct)
  show "tails_ok s1 B" using head_change_tails [OF ok sets_flag_head_change [OF f1] t] .
  have "chain s1 xs 0 = chain s xs 0"
  proof (rule chain_cong)
    have "set (tl xs) \<subseteq> set xs" by (cases xs) auto
    then show "get F_prev s1 x = get F_prev s x" if "x \<in> set (tl xs)" for x
      using that xs(2,3) b by (auto simp: s1_def gp subset_iff)
  qed (use xs(2,3) b in \<open>auto simp: s1_def gp subset_iff\<close>)
  then show "chain s1 xs 0" "sbrk_free_head s1 = hd (xs @ [0])" "distinct xs"
    using xs(1) by (simp_all add: free_list_def s1_def)
  show "precedes s1 block h = precedes s block h" if "h \<in> heads B"
    using that b by (simp add: precedes_def s1_def gp)
  show "walk_bound s1 = walk_bound s" by (simp add: s1_def walk_bound_def split: option.split)
qed

lemma add_sbrk_free_block_spec:
  assumes ok: "blocks_ok B" and t: "tails_ok s B" and b: "block \<in> heads B"
    and xs: "free_list s xs" "set xs \<subseteq> heads B" "block \<notin> set xs" "length xs \<le> walk_bound s"
  shows "\<exists>s'. add_sbrk_free_block block s = Inr s' \<and> sets_flag B block 1 s s'
    \<and> free_list s' (insert_free (precedes s) block xs)"
proof -
  note gp = get_put_blocks [OF ok] and rp = relinks_put [OF ok]
  define s1 where "s1 = put F_prev block 0 (put F_is_free block 1 s)"
  note F = add_flagged [OF ok t b xs(1-3), folded s1_def]
  note f1 = F(1) and t1 = F(2) and links = F(3-5) and prec = F(6) and bound = F(7)
  have ins: "insert_free (precedes s1) block ys = insert_free (precedes s) block ys" if "set ys \<subseteq> heads B" for ys
    using that prec by (induction ys) auto
  have add: "add_sbrk_free_block block s =
      (if sbrk_free_head s1 = 0 \<or> precedes s1 block (sbrk_free_head s1) then
         let s = put F_next block (sbrk_free_head s1) (s1\<lparr>sbrk_free_head := block\<rparr>) in
         Inr (if sbrk_free_head s1 \<noteq> 0 then put F_prev (sbrk_free_head s1) block s else s)
       else checked_bind (check_cookie (sbrk_free_head s1) s1)
         (\<lambda>_. add_loop (walk_bound s1) block (sbrk_free_head s1) s1))"
    by (simp only: add_sbrk_free_block_def Let_def s1_def)
  show ?thesis
  proof (cases xs)
    case Nil
    let ?s = "put F_next block 0 (s1\<lparr>sbrk_free_head := block\<rparr>)"
    have "add_sbrk_free_block block s = Inr ?s"
      using links(2) Nil by (simp add: add Let_def)
    moreover have "sets_flag B block 1 s ?s"
      using f1 relinks_head rp [OF b] by (meson sets_flag_relinks head_field.distinct)
    ultimately show ?thesis using Nil b by (simp add: free_list_def gp)
  next
    case (Cons x ys)
    have x: "x \<in> heads B" "x \<noteq> 0" "x \<noteq> block" "sbrk_free_head s1 = x"
      using Cons xs(2,3) links(2) head_room(2) [OF ok] by auto
    show ?thesis
    proof (cases "precedes s block x")
      case True
      let ?s = "put F_prev x block (put F_next block x (s1\<lparr>sbrk_free_head := block\<rparr>))"
      have "add_sbrk_free_block block s = Inr ?s"
        using x True prec by (simp add: add Let_def)
      moreover have "sets_flag B block 1 s ?s"
        using f1 relinks_head rp [OF b] rp [OF x(1)] by (meson sets_flag_relinks head_field.distinct)
      moreover have "chain ?s (x # ys) 0 = chain s1 (x # ys) 0"
        using Cons xs(2,3) x b links(3) by (intro chain_cong) (auto simp: gp subset_iff)
      ultimately show ?thesis using Cons True xs(3) x b links by (simp add: free_list_def gp)
    next
      case False
      have "\<exists>s'. add_loop (walk_bound s) block x s1 = Inr s' \<and> relinks B s1 s'
        \<and> sbrk_free_head s' = sbrk_free_head s1
        \<and> chain s' (x # insert_free (precedes s1) block ys) 0
        \<and> get F_prev s' x = get F_prev s1 x
        \<and> links_kept (heads B - insert block (set (x # ys))) s1 s'"
        using Cons xs links by (intro add_loop_spec [OF ok t1 b]) auto
      then obtain s' where s': "add_loop (walk_bound s) block x s1 = Inr s'" "relinks B s1 s'"
        "sbrk_free_head s' = x" "chain s' (x # insert_free (precedes s) block ys) 0"
        using ins [of ys] Cons xs(2) x(4) by auto
      have "add_sbrk_free_block block s = Inr s'"
        using x False prec s'(1) check_cookie_ok [OF t1 x(1)] bound
        by (simp add: add Let_def)
      moreover have "sets_flag B block 1 s s'" using f1 s'(2) by (rule sets_flag_relinks)
      moreover have "distinct (x # insert_free (precedes s) block ys)"
        using links(3) Cons xs(3) x by (auto simp: distinct_insert_free)
      ultimately show ?thesis using s'(3,4) Cons False by (simp add: free_list_def)
    qed
  qed
qed

section \<open>Removing\<close>

lemma remove_first:
  assumes ok: "blocks_ok B" and xs: "free_list s (block # zs)" "set (block # zs) \<subseteq> heads B"
  shows "\<exists>s'. remove_sbrk_free_block block s = Inr s' \<and> sets_flag B block 0 s s' \<and> free_list s' zs"
proof -
  note gp = get_put_blocks [OF ok] and rp = relinks_put [OF ok]
  have b: "block \<in> heads B" using xs(2) by simp
  let ?t = "put F_is_free block 0 s"
  let ?s = "put F_prev block 0 (put F_next block 0 (?t\<lparr>sbrk_free_head := get F_next ?t block\<rparr>))"
  have "remove_sbrk_free_block block s = Inr ?s"
    using xs(1) by (simp add: remove_sbrk_free_block_def Let_def free_list_def)
  moreover have "sets_flag B block 0 s ?s"
    using sets_flag_put [OF ok b] rp [OF b] relinks_head by (meson sets_flag_relinks head_field.distinct)
  moreover have "chain ?s zs 0 = chain s zs 0"
  proof (rule chain_cong)
    have "set (tl zs) \<subseteq> set zs" by (cases zs) auto
    then show "get F_prev ?s x = get F_prev s x" if "x \<in> set (tl zs)" for x
      using that xs b by (auto simp: gp subset_iff free_list_def)
  qed (use xs b in \<open>auto simp: gp subset_iff free_list_def\<close>)
  ultimately show ?thesis using xs(1) b by (simp add: free_list_def gp)
qed

lemma chain_bypass:
  assumes "chain s (ys @ block # zs) 0" "ys \<noteq> []" "distinct (ys @ block # zs)"
    and "\<And>x. x \<in> set ys \<Longrightarrow> x \<noteq> last ys \<Longrightarrow> get F_next s' x = get F_next s x"
    and "\<And>x. x \<in> set ys \<Longrightarrow> get F_prev s' x = get F_prev s x"
    and "get F_next s' (last ys) = hd (zs @ [0])" "zs \<noteq> [] \<Longrightarrow> get F_prev s' (hd zs) = last ys"
    and "\<And>x. x \<in> set zs \<Longrightarrow> get F_next s' x = get F_next s x"
    and "\<And>x. x \<in> set zs \<Longrightarrow> x \<noteq> hd zs \<Longrightarrow> get F_prev s' x = get F_prev s x"
  shows "chain s' (ys @ zs) 0"
  using assms
proof (induction ys)
  case (Cons y ys)
  show ?case
  proof (cases ys)
    case Nil
    have zs: "chain s zs 0" "distinct zs" using Cons.prems(1,3) Nil by auto
    have "chain s' zs 0 = chain s zs 0"
    proof (rule chain_cong)
      show "get F_prev s' x = get F_prev s x" if "x \<in> set (tl zs)" for x
        using that zs(2) Cons.prems(9) [of x] by (cases zs) auto
    qed (use Cons.prems(8) in blast)
    then show ?thesis using zs(1) Nil Cons.prems(6,7) by (simp)
  next
    case (Cons y' ys')
    have "chain s' (ys @ zs) 0"
      using Cons.prems Cons by (intro Cons.IH) auto
    moreover have "y \<noteq> last (y # ys)" using Cons.prems(3) Cons by (metis distinct.simps(2) distinct_append last.simps last_in_set list.distinct(1))
    then have "get F_next s' y = get F_next s y" using Cons.prems(4) [of y] by simp
    moreover have "get F_next s y = y'" "get F_prev s' y' = y"
      using Cons.prems(1) Cons.prems(5) [of y'] Cons by simp_all
    ultimately show ?thesis using Cons by simp
  qed
qed simp

lemma remove_later:
  assumes ok: "blocks_ok B" and t: "tails_ok s B"
    and xs: "free_list s (ys @ block # zs)" "set (ys @ block # zs) \<subseteq> heads B" "ys \<noteq> []"
  shows "\<exists>s'. remove_sbrk_free_block block s = Inr s' \<and> sets_flag B block 0 s s' \<and> free_list s' (ys @ zs)"
proof -
  note gp = get_put_blocks [OF ok] and rp = relinks_put [OF ok]
  have b: "block \<in> heads B" and p: "last ys \<in> heads B" "last ys \<noteq> 0"
    using xs(2,3) head_room(2) [OF ok] by (auto simp: subset_iff)
  have dist: "distinct (ys @ block # zs)" "last ys \<noteq> block" "hd ys \<noteq> block" "last ys \<notin> set zs"
    using xs(1,3) by (auto simp: free_list_def disjoint_iff)
  let ?t = "put F_is_free block 0 s"
  let ?u = "put F_next (last ys) (hd (zs @ [0])) ?t"
  let ?w = "if zs = [] then ?u else put F_prev (hd zs) (last ys) ?u"
  let ?s = "put F_prev block 0 (put F_next block 0 ?w)"
  have ft: "sets_flag B block 0 s ?t" using sets_flag_put [OF ok b] .
  have ru: "relinks B ?t ?u" using rp [OF p(1)] by simp
  have n: "zs \<noteq> [] \<Longrightarrow> hd zs \<in> heads B \<and> hd zs \<noteq> 0 \<and> hd zs \<noteq> block \<and> hd zs \<notin> set ys"
    using xs(2) dist(1) head_room(2) [OF ok] by (cases zs) auto
  have rw: "relinks B ?u ?w" using n rp by (simp add: relinks_def)
  have tt: "tails_ok ?t B" "tails_ok ?u B"
    using head_change_tails [OF ok _ t] sets_flag_relinks [OF ft ru] ft sets_flag_head_change by blast+
  have links: "get F_prev ?t block = last ys" "get F_next ?t block = hd (zs @ [0])"
    "sbrk_free_head s = hd ys"
    using xs(1,3) b by (auto simp: free_list_def chain_append gp)
  have c: "check_cookie (last ys) ?t = Inr ()" "zs \<noteq> [] \<Longrightarrow> check_cookie (hd zs) ?u = Inr ()"
    using check_cookie_ok tt p(1) n by auto
  have "remove_sbrk_free_block block s = Inr ?s"
    using links dist(3) p(2) c n xs(3) by (simp add: remove_sbrk_free_block_def Let_def)
  moreover have "sets_flag B block 0 s ?s"
    using sets_flag_relinks [OF sets_flag_relinks [OF ft ru] rw] rp [OF b]
    by (meson sets_flag_relinks head_field.distinct)
  moreover have "chain ?s (ys @ zs) 0"
    using xs(1) dist n p b xs(2)
    by (intro chain_bypass [of s ys block zs]) (auto simp: free_list_def gp subset_iff xs(3))
  ultimately show ?thesis using dist links(3) xs(3) by (auto simp: free_list_def)
qed

lemma remove_sbrk_free_block_spec:
  assumes ok: "blocks_ok B" and t: "tails_ok s B"
    and xs: "free_list s xs" "set xs \<subseteq> heads B" "block \<in> set xs"
  shows "\<exists>s'. remove_sbrk_free_block block s = Inr s' \<and> sets_flag B block 0 s s'
    \<and> free_list s' (remove1 block xs)"
proof -
  from split_list_first [OF xs(3)] obtain ys zs where s: "xs = ys @ block # zs" "block \<notin> set ys" by blast
  then have r: "remove1 block xs = ys @ zs" by (simp add: remove1_append)
  show ?thesis
    using remove_first [OF ok, of s block zs] remove_later [OF ok t, of ys block zs] xs(1,2) r s
    by (cases "ys = []") simp_all
qed

end
