(* ===== verification/Malloc_Heap.thy ===== *)
theory Malloc_Heap
  imports Malloc_Free_List
begin

text \<open>
  The invariant of the allocator of \<open>malloc_3.cpp\<close> and what its operations do to the heap seen as a
  list of blocks. The heap is described by three lists: the blocks from \<open>sbrk_head\<close> to the program
  break in order of address (\<open>bs\<close>), the free list (\<open>fs\<close>) and the mapped blocks (\<open>ms\<close>).
\<close>

section \<open>What a block keeps\<close>

definition metadata :: "addr \<Rightarrow> nat \<Rightarrow> addr set" where
  "metadata h n = {x. unat h \<le> unat x \<and> unat x < unat h + 32 \<or> unat h + n - 16 \<le> unat x \<and> unat x < unat h + n}"

lemma metadata_span: "48 \<le> n \<Longrightarrow> metadata h n \<subseteq> span h n"
  by (auto simp: metadata_def span_def)

lemma block_frame:
  assumes "48 \<le> n" "unat h + n \<le> 140737488355328" "\<And>x. x \<in> metadata h n \<Longrightarrow> mem s' x = mem s x"
  shows "get f s' h = get f s h"
    "load32 (mem s') (h + of_nat n - 16) = load32 (mem s) (h + of_nat n - 16)"
    "load64 (mem s') (h + of_nat n - 8) = load64 (mem s) (h + of_nat n - 8)"
proof -
  have r: "unat h + 32 \<le> 18446744073709551616" using assms(1,2) by linarith
  note o = unat_offset [OF r, of f] and a = tail_address [OF assms(1,2)]
  show "get f s' h = get f s h"
    unfolding get_def using o r by (intro load64_cong assms(3)) (auto simp: span_def metadata_def)
  show "load32 (mem s') (h + of_nat n - 16) = load32 (mem s) (h + of_nat n - 16)"
    using a assms(1,2) by (intro load32_cong assms(3)) (auto simp: span_def metadata_def)
  show "load64 (mem s') (h + of_nat n - 8) = load64 (mem s) (h + of_nat n - 8)"
    using a assms(1,2) by (intro load64_cong assms(3)) (auto simp: span_def metadata_def)
qed

lemma tails_ok_frame:
  assumes "blocks_ok B" "tails_ok s B" "global_rand_cookie s' = global_rand_cookie s"
    "\<And>h n x. (h, n) \<in> B \<Longrightarrow> x \<in> metadata h n \<Longrightarrow> mem s' x = mem s x"
  shows "tails_ok s' B"
  unfolding tails_ok_def
proof (clarify)
  fix h n assume b: "(h, n) \<in> B"
  note fr = block_frame [OF blocks_ok_D(2,3) [OF assms(1) b], of s' s, OF assms(4) [OF b]]
  have "get F_size s h = of_nat n \<and> load32 (mem s) (h + of_nat n - 16) = global_rand_cookie s
      \<and> load64 (mem s) (h + of_nat n - 8) = of_nat n"
    using assms(2) b unfolding tails_ok_def by blast
  then show "get F_size s' h = of_nat n \<and> load32 (mem s') (h + of_nat n - 16) = global_rand_cookie s'
      \<and> load64 (mem s') (h + of_nat n - 8) = of_nat n"
    using fr assms(3) by simp
qed

section \<open>Writing a block\<close>

definition drawable :: "heap \<Rightarrow> bool" where
  "drawable s \<longleftrightarrow> global_rand_cookie s \<noteq> 0 \<or> (\<exists>r\<in>set (rands s). r \<noteq> 0)"

definition keeps_coin :: "heap \<Rightarrow> heap \<Rightarrow> bool" where
  "keeps_coin s s' \<longleftrightarrow> global_rand_cookie s' \<noteq> 0 \<and> (global_rand_cookie s \<noteq> 0 \<longrightarrow> coin s' = coin s)"

lemma draw_cookie_ok: "\<exists>r\<in>set rs. r \<noteq> 0 \<Longrightarrow> \<exists>r rs'. draw_cookie rs = Inr (r, rs') \<and> r \<noteq> 0"
  by (induction rs) auto

definition writes_block :: "addr \<Rightarrow> nat \<Rightarrow> heap \<Rightarrow> heap \<Rightarrow> bool" where
  "writes_block h n s s' \<longleftrightarrow> beside s' = beside s \<and> sbrk_free_head s' = sbrk_free_head s \<and> keeps_coin s s'
     \<and> tails_ok s' {(h, n)} \<and> (\<forall>x. x \<notin> metadata h n \<longrightarrow> mem s' x = mem s x)"

lemma set_tail_spec:
  assumes n: "48 \<le> n" "unat h + n \<le> 140737488355328" "get F_size s h = of_nat n" and d: "drawable s"
  shows "\<exists>s'. set_tail h s = Inr s' \<and> writes_block h n s s' \<and> (\<forall>f. get f s' h = get f s h)"
proof -
  obtain c where c: "(if global_rand_cookie s = 0
        then checked_bind (draw_cookie (rands s)) (\<lambda>(r, rs). Inr (s\<lparr>global_rand_cookie := r, rands := rs\<rparr>))
        else Inr s) = Inr c" "keeps_coin s c" "beside c = beside s" "mem c = mem s"
      "sbrk_free_head c = sbrk_free_head s"
    using draw_cookie_ok [of "rands s"] d
    by (cases "global_rand_cookie s = 0") (auto simp: drawable_def keeps_coin_def coin_def beside_def)
  have r: "unat h + 32 \<le> 18446744073709551616" using n(1,2) by linarith
  note a = tail_address [OF n(1,2)]
  let ?t = "h + of_nat n - 16"
  define m where "m = store64 (store32 (mem s) ?t (global_rand_cookie c)) (?t + 8) (of_nat n)"
  have t8: "?t + 8 = h + of_nat n - 8" by simp
  have other: "m x = mem s x" if "unat x < unat h + n - 16 \<or> unat h + n \<le> unat x" for x
    unfolding m_def t8 using that n a
    by (subst store64_outside, simp, force simp: span_def, intro store32_outside) (auto simp: span_def)
  have get_c: "get f c h = get f s h" for f using c(4) by (rule get_cong)
  have get1: "get f (c\<lparr>mem := store32 (mem c) ?t (global_rand_cookie c)\<rparr>) h = get f s h" for f
    unfolding get_def heap.simps process.simps c(4)
    using unat_offset [OF r, of f] n a
    by (intro load64_cong) (auto simp: span_def intro!: store32_outside)
  have "get f (c\<lparr>mem := m\<rparr>) h = get f s h" for f
    unfolding get_def using unat_offset [OF r, of f] n by (intro load64_cong) (auto simp: span_def intro!: other)
  moreover have "set_tail h s = Inr (c\<lparr>mem := m\<rparr>)"
    unfolding set_tail_def c(1) checked_bind_simps Let_def tail_metadata_def get_c n(3) 
    using get1 [of F_size] by (simp add: m_def add_diff_eq c(4) n(3))
  moreover have "load32 m ?t = global_rand_cookie c"
  proof -
    have "load32 m ?t = load32 (store32 (mem s) ?t (global_rand_cookie c)) ?t"
      unfolding m_def t8 using a n by (intro load32_cong store64_outside) (auto simp: span_def)
    then show ?thesis using a n by simp
  qed
  moreover have "load64 m (h + of_nat n - 8) = of_nat n"
    unfolding m_def t8 using a n by simp
  ultimately show ?thesis
    using c(2,3,5) n(3) other
    by (auto simp: writes_block_def tails_ok_def beside_def keeps_coin_def coin_def metadata_def)
qed

lemma beside_update [simp]: "beside (s\<lparr>sbrk_free_head := a\<rparr>) = beside s" "beside (s\<lparr>mem := m\<rparr>) = beside s"
  "coin (s\<lparr>sbrk_free_head := a\<rparr>) = coin s" "coin (s\<lparr>mem := m\<rparr>) = coin s"
  "beside (put f h v s) = beside s" "coin (put f h v s) = coin s"
  by (simp_all add: beside_def coin_def)

lemma writes_block_change:
  assumes "writes_block h n t s'" "beside t = beside s" "coin t = coin s" "sbrk_free_head t = sbrk_free_head s"
    "\<And>x. x \<notin> metadata h n \<Longrightarrow> mem t x = mem s x"
  shows "writes_block h n s s'"
  using assms by (auto simp: writes_block_def keeps_coin_def coin_def)

lemma put_metadata:
  assumes "unat h + n \<le> 140737488355328" "48 \<le> n" "x \<notin> metadata h n"
  shows "mem (put f h v s) x = mem s x"
  using assms by (intro put_outside) (auto simp: span_def metadata_def)

lemma init_alloc_spec:
  assumes n: "48 \<le> n" "unat h + n \<le> 140737488355328" and d: "drawable s"
  shows "\<exists>s'. init_sbrk_alloc_block sb h (of_nat n) False s = Inr (h, s') \<and> writes_block h n s s'
    \<and> get F_is_free s' h = 0 \<and> get F_next s' h = 0 \<and> get F_prev s' h = 0"
proof -
  have r: "unat h + 32 \<le> 18446744073709551616" using n by linarith
  note gp = get_put [OF r r]
  define t where "t = put F_prev h 0 (put F_next h 0 (put F_is_free h 0 (put F_size h (of_nat n) s)))"
  have "drawable t" using d by (simp add: drawable_def t_def)
  moreover have "get F_size t h = of_nat n" by (simp add: t_def gp)
  ultimately obtain s' where s': "set_tail h t = Inr s'" "writes_block h n t s'" "\<forall>f. get f s' h = get f t h"
    using set_tail_spec [OF n] by blast
  have "writes_block h n s s'"
    using n by (intro writes_block_change [OF s'(2)]) (simp_all add: t_def put_metadata)
  moreover have "init_sbrk_alloc_block sb h (of_nat n) False s = Inr (h, s')"
    using s'(1) by (simp add: init_sbrk_alloc_block_def Let_def t_def)
  ultimately show ?thesis using s'(3) by (simp add: t_def gp)
qed

section \<open>The invariant\<close>

fun contiguous :: "nat \<Rightarrow> (addr \<times> nat) list \<Rightarrow> nat \<Rightarrow> bool" where
  "contiguous a [] e \<longleftrightarrow> a = e"
| "contiguous a ((h, n) # bs) e \<longleftrightarrow> unat h = a \<and> 48 \<le> n \<and> contiguous (a + n) bs e"

lemma contiguous_append:
  "contiguous a (bs @ cs) e \<longleftrightarrow> (\<exists>m. contiguous a bs m \<and> contiguous m cs e)"
  by (induction a bs e rule: contiguous.induct) auto

lemma contiguous_unique: "contiguous a bs e \<Longrightarrow> contiguous a bs e' \<Longrightarrow> e = e'"
  by (induction a bs e rule: contiguous.induct) auto

lemma contiguous_le: "contiguous a bs e \<Longrightarrow> a \<le> e"
  by (induction a bs e rule: contiguous.induct) auto

lemma contiguous_bounds:
  assumes "contiguous a bs e" "(h, n) \<in> set bs"
  shows "a \<le> unat h" "unat h + n \<le> e" "48 \<le> n"
  using assms contiguous_le by (induction a bs e rule: contiguous.induct) fastforce+

lemma contiguous_apart:
  assumes "contiguous a bs e" "(h, n) \<in> set bs" "(h', n') \<in> set bs"
  shows "(h, n) = (h', n') \<or> apart (unat h) n (unat h') n'"
  using assms
proof (induction a bs e rule: contiguous.induct)
  case (2 a g k bs e)
  have "unat g + k \<le> unat x" if "(x, y) \<in> set bs" for x y
    using contiguous_bounds(1) [of "a + k" bs e x y] that 2(2) by simp
  then show ?case using 2 by (auto simp: apart_def)
qed simp

lemma contiguous_length: "contiguous a bs e \<Longrightarrow> length bs * 48 \<le> e - a"
proof (induction a bs e rule: contiguous.induct)
  case (2 a h n bs e)
  then show ?case using contiguous_le [of "a + n" bs e] by auto
qed simp

definition mapped :: "os \<Rightarrow> (addr \<times> nat) list \<Rightarrow> bool" where
  "mapped k ms \<longleftrightarrow> distinct (map fst ms)
     \<and> (\<forall>(h, n)\<in>set ms. 48 \<le> n \<and> (\<exists>huge. (h, round_up (page huge) n, huge) \<in> set (os_maps k)))"

definition heap_area :: "nat \<Rightarrow> heap \<Rightarrow> (addr \<times> nat) list \<Rightarrow> bool" where
  "heap_area g s bs \<longleftrightarrow> kernel_ok (kernel_of s)
     \<and> (if sbrk_head s = 0 then program_break s = None \<and> bs = []
        else \<exists>p. brk_at g p s \<and> g dvd unat (sbrk_head s)
          \<and> unat (os_start (kernel_of s)) \<le> unat (sbrk_head s) \<and> contiguous (unat (sbrk_head s)) bs (unat p))
     \<and> (\<forall>b\<in>set bs. g dvd snd b)"

definition heap_shape :: "nat \<Rightarrow> heap \<Rightarrow> (addr \<times> nat) list \<Rightarrow> addr list \<Rightarrow> (addr \<times> nat) list \<Rightarrow> bool" where
  "heap_shape g s bs fs ms \<longleftrightarrow> heap_area g s bs \<and> mapped (kernel_of s) ms
     \<and> tails_ok s (set bs \<union> set ms) \<and> (bs \<noteq> [] \<or> ms \<noteq> [] \<longrightarrow> global_rand_cookie s \<noteq> 0)
     \<and> drawable s \<and> free_list s fs \<and> set fs \<subseteq> heads (set bs)"

definition flags_ok :: "heap \<Rightarrow> blocks \<Rightarrow> addr list \<Rightarrow> bool" where
  "flags_ok s B fs \<longleftrightarrow> (\<forall>h\<in>heads B. get F_is_free s h = (if h \<in> set fs then 1 else 0))"

definition heap_inv :: "nat \<Rightarrow> heap \<Rightarrow> (addr \<times> nat) list \<Rightarrow> addr list \<Rightarrow> (addr \<times> nat) list \<Rightarrow> bool" where
  "heap_inv g s bs fs ms \<longleftrightarrow> heap_shape g s bs fs ms \<and> flags_ok s (set bs \<union> set ms) fs
     \<and> sorted_wrt (precedes s) fs"

lemma round_up_le: "0 < g \<Longrightarrow> n \<le> round_up g n"
proof -
  assume g: "0 < g"
  have "(n + g - 1) div g * g + (n + g - 1) mod g = n + g - 1" by simp
  moreover have "(n + g - 1) mod g < g" using g by simp
  ultimately show ?thesis unfolding round_up_def using g by linarith
qed

lemma page_pos [simp]: "0 < page huge"
  by (simp add: page_def)

lemma mapped_D:
  assumes "kernel_ok k" "mapped k ms" "(h, n) \<in> set ms"
  shows "0 < unat h" "48 \<le> n" "unat h + n \<le> 140737488355328"
    "apart (unat (os_start k)) (unat (os_break k) - unat (os_start k)) (unat h) n"
proof -
  obtain huge where m: "(h, round_up (page huge) n, huge) \<in> set (os_maps k)" "48 \<le> n"
    using assms(2,3) by (auto simp: mapped_def)
  have k: "0 < unat h \<and> unat h + round_up (page huge) n \<le> 2 ^ 47
      \<and> apart (unat (os_start k)) (unat (os_break k) - unat (os_start k)) (unat h) (round_up (page huge) n)"
    using assms(1) m(1) unfolding kernel_ok_def by blast
  have "n \<le> round_up (page huge) n" by (rule round_up_le) simp
  then show "0 < unat h" "48 \<le> n" "unat h + n \<le> 140737488355328"
    "apart (unat (os_start k)) (unat (os_break k) - unat (os_start k)) (unat h) n"
    using k m(2) by (auto simp: apart_def)
qed

lemma sorted_wrt_pair:
  assumes "sorted_wrt P xs" "x \<in> set xs" "y \<in> set xs"
  shows "x = y \<or> P x y \<or> P y x"
  using assms by (induction xs) auto

lemma mapped_apart:
  assumes "kernel_ok k" "mapped k ms" "(h, n) \<in> set ms" "(h', n') \<in> set ms"
  shows "(h, n) = (h', n') \<or> apart (unat h) n (unat h') n'"
proof (cases "h = h'")
  case True
  then show ?thesis using assms(2-4) by (auto simp: mapped_def dest: eq_key_imp_eq_value)
next
  case False
  obtain u v where m: "(h, round_up (page u) n, u) \<in> set (os_maps k)" "(h', round_up (page v) n', v) \<in> set (os_maps k)"
    using assms(2-4) unfolding mapped_def by blast
  have "sorted_wrt (\<lambda>(a, n, _) (b, j, _). apart (unat b) j (unat a) n) (os_maps k)"
    using assms(1) by (simp add: kernel_ok_def)
  from sorted_wrt_pair [OF this m] False
  have "apart (unat h) (round_up (page u) n) (unat h') (round_up (page v) n')" by (auto simp: apart_def)
  moreover have "n \<le> round_up (page u) n" "n' \<le> round_up (page v) n'" by (rule round_up_le, simp)+
  ultimately show ?thesis by (auto simp: apart_def)
qed

lemma heap_area_bounds:
  assumes "heap_area g s bs" "(h, n) \<in> set bs"
  shows "sbrk_head s \<noteq> 0" "unat (sbrk_head s) \<le> unat h" "48 \<le> n"
    "unat h + n \<le> unat (os_break (kernel_of s))" "unat (os_break (kernel_of s)) \<le> 140737488355328"
    "unat (os_start (kernel_of s)) \<le> unat h" "g dvd n"
proof -
  show nz: "sbrk_head s \<noteq> 0" using assms by (auto simp: heap_area_def)
  with assms(1) obtain p where p: "brk_at g p s" "contiguous (unat (sbrk_head s)) bs (unat p)"
      "unat (os_start (kernel_of s)) \<le> unat (sbrk_head s)"
    by (auto simp: heap_area_def)
  have pb: "os_break (kernel_of s) = p" using p(1) by (simp add: brk_at_def)
  show "unat (sbrk_head s) \<le> unat h" "48 \<le> n" "unat h + n \<le> unat (os_break (kernel_of s))"
    using contiguous_bounds [OF p(2) assms(2)] pb by simp_all
  then show "unat (os_start (kernel_of s)) \<le> unat h" using p(3) by linarith
  show "unat (os_break (kernel_of s)) \<le> 140737488355328"
    using assms(1) by (simp add: heap_area_def kernel_ok_def)
  show "g dvd n" using assms by (auto simp: heap_area_def)
qed

lemma heap_area_apart:
  assumes "heap_area g s bs" "b \<in> set bs" "b' \<in> set bs"
  shows "b = b' \<or> apart (unat (fst b)) (snd b) (unat (fst b')) (snd b')"
proof -
  have "sbrk_head s \<noteq> 0" using assms heap_area_bounds(1) by (cases b) blast
  with assms(1) obtain p :: addr where "contiguous (unat (sbrk_head s)) bs (unat p)" by (auto simp: heap_area_def)
  from contiguous_apart [OF this] assms(2,3) show ?thesis by (metis prod.collapse)
qed

lemma heap_mapped_apart:
  assumes "heap_area g s bs" "mapped (kernel_of s) ms" "(h, n) \<in> set bs" "(h', n') \<in> set ms"
  shows "apart (unat h) n (unat h') n'"
proof -
  have "kernel_ok (kernel_of s)" using assms(1) by (simp add: heap_area_def)
  from mapped_D(4) [OF this assms(2,4)] show ?thesis
    using heap_area_bounds(4,6) [OF assms(1,3)] by (auto simp: apart_def)
qed

lemma shape_blocks_ok:
  assumes "heap_area g s bs" "mapped (kernel_of s) ms"
  shows "blocks_ok (set bs \<union> set ms)"
proof -
  have k: "kernel_ok (kernel_of s)" using assms(1) by (simp add: heap_area_def)
  have 1: "0 < unat h \<and> 48 \<le> n \<and> unat h + n \<le> 140737488355328" if "(h, n) \<in> set bs \<union> set ms" for h n
    using that
  proof
    assume b: "(h, n) \<in> set bs"
    note hb = heap_area_bounds [OF assms(1) b]
    have "0 < unat (os_start (kernel_of s))" using k by (simp add: kernel_ok_def)
    then show ?thesis using hb(3-6) by linarith
  next
    assume "(h, n) \<in> set ms"
    then show ?thesis using mapped_D [OF k assms(2)] by blast
  qed
  have 2: "b = b' \<or> apart (unat (fst b)) (snd b) (unat (fst b')) (snd b')"
    if "b \<in> set bs \<union> set ms" "b' \<in> set bs \<union> set ms" for b b'
    using that heap_area_apart [OF assms(1), of b b'] heap_mapped_apart [OF assms, of "fst b" "snd b" "fst b'" "snd b'"]
      heap_mapped_apart [OF assms, of "fst b'" "snd b'" "fst b" "snd b"]
      mapped_apart [OF k assms(2), of "fst b" "snd b" "fst b'" "snd b'"]
    by (auto simp: apart_def)
  show ?thesis unfolding blocks_ok_def using 1 2 by blast
qed

lemma heap_shape_D:
  assumes "heap_shape g s bs fs ms"
  shows "heap_area g s bs" "mapped (kernel_of s) ms" "tails_ok s (set bs \<union> set ms)"
    "bs \<noteq> [] \<or> ms \<noteq> [] \<Longrightarrow> global_rand_cookie s \<noteq> 0" "drawable s" "free_list s fs"
    "set fs \<subseteq> heads (set bs)"
  using assms by (auto simp: heap_shape_def)

lemma heap_shape_I:
  assumes "heap_area g s bs" "mapped (kernel_of s) ms" "tails_ok s (set bs \<union> set ms)"
    "bs \<noteq> [] \<or> ms \<noteq> [] \<Longrightarrow> global_rand_cookie s \<noteq> 0" "drawable s" "free_list s fs"
    "set fs \<subseteq> heads (set bs)"
  shows "heap_shape g s bs fs ms"
  using assms by (auto simp: heap_shape_def)

lemma heap_shape_blocks_ok: "heap_shape g s bs fs ms \<Longrightarrow> blocks_ok (set bs \<union> set ms)"
  unfolding heap_shape_def using shape_blocks_ok by blast

section \<open>Changes that keep the shape\<close>

definition payload :: "addr \<Rightarrow> nat \<Rightarrow> addr set" where
  "payload h n = {x. unat h + 32 \<le> unat x \<and> unat x < unat h + n - 16}"

definition kept :: "blocks \<Rightarrow> heap \<Rightarrow> heap \<Rightarrow> bool" where
  "kept B s s' \<longleftrightarrow> (\<forall>h n x. (h, n) \<in> B \<longrightarrow> x \<in> payload h n \<longrightarrow> mem s' x = mem s x)"

lemma kept_refl [simp]: "kept B s s"
  by (simp add: kept_def)

lemma kept_trans: "kept B s t \<Longrightarrow> kept B t u \<Longrightarrow> kept B s u"
  by (simp add: kept_def)

lemma kept_subset: "kept B s t \<Longrightarrow> A \<subseteq> B \<Longrightarrow> kept A s t"
  by (auto simp: kept_def)

lemma kept_mem: "mem s' = mem s \<Longrightarrow> kept B s s'"
  by (simp add: kept_def)

lemma kept_outside:
  assumes "\<And>x. \<not> (a \<le> unat x \<and> unat x < e) \<Longrightarrow> mem s' x = mem s x"
    "\<And>h n. (h, n) \<in> B \<Longrightarrow> unat h + n \<le> a \<or> e \<le> unat h"
  shows "kept B s s'"
  unfolding kept_def
proof (clarify)
  fix h n x assume b: "(h, n) \<in> B" "x \<in> payload h n"
  then have "\<not> (a \<le> unat x \<and> unat x < e)" using assms(2) [OF b(1)] by (auto simp: payload_def)
  then show "mem s' x = mem s x" by (rule assms(1))
qed

lemma head_change_kept:
  assumes "blocks_ok B" "head_change B s s'"
  shows "kept B s s'"
  unfolding kept_def
proof (clarify)
  fix h n x assume b: "(h, n) \<in> B" "x \<in> payload h n"
  have "x \<notin> span h' 32" if "h' \<in> heads B" for h'
  proof -
    from that obtain n' where b': "(h', n') \<in> B" by (auto simp: heads_iff)
    show ?thesis
      using blocks_ok_apart [OF assms(1) b(1) b'] blocks_ok_D(2) [OF assms(1) b'] b(2)
      by (auto simp: span_def payload_def)
  qed
  then show "mem s' x = mem s x" using assms(2) by (simp add: head_change_def)
qed

lemma heap_area_cong:
  "kernel_of s' = kernel_of s \<Longrightarrow> program_break s' = program_break s \<Longrightarrow> sbrk_head s' = sbrk_head s \<Longrightarrow>
     heap_area g s' bs = heap_area g s bs"
  by (simp add: heap_area_def brk_at_def)

lemma beside_fields:
  assumes "beside s' = beside s"
  shows "kernel_of s' = kernel_of s" "program_break s' = program_break s" "sbrk_head s' = sbrk_head s"
    "free_blocks_num s' = free_blocks_num s" "free_bytes_num s' = free_bytes_num s"
    "allocated_blocks_num s' = allocated_blocks_num s" "allocated_bytes_num s' = allocated_bytes_num s"
  using assms by (simp_all add: beside_def)

lemma drawable_coin: "coin s' = coin s \<Longrightarrow> drawable s' = drawable s"
  by (simp add: drawable_def coin_def)

lemma shape_head_change:
  assumes sh: "heap_shape g s bs fs ms" and ch: "head_change (set bs \<union> set ms) s s'"
    and fs: "free_list s' fs'" "set fs' \<subseteq> heads (set bs)"
  shows "heap_shape g s' bs fs' ms"
proof -
  have b: "beside s' = beside s" "coin s' = coin s" using ch by (simp_all add: head_change_def)
  have "tails_ok s' (set bs \<union> set ms)"
    using head_change_tails [OF heap_shape_blocks_ok [OF sh] ch] sh by (simp add: heap_shape_def)
  moreover have "heap_area g s' bs = heap_area g s bs"
    by (rule heap_area_cong [OF beside_fields(1-3) [OF b(1)]])
  moreover have "kernel_of s' = kernel_of s" "global_rand_cookie s' = global_rand_cookie s"
    using b by (simp_all add: beside_def coin_def)
  ultimately show ?thesis
    using heap_shape_D [OF sh] fs drawable_coin [OF b(2)] by (intro heap_shape_I) simp_all
qed

lemma free_list_cong:
  assumes "sbrk_free_head s' = sbrk_free_head s" "\<And>h f. h \<in> set fs \<Longrightarrow> get f s' h = get f s h"
  shows "free_list s' fs = free_list s fs"
proof -
  have "set (tl fs) \<subseteq> set fs" by (cases fs) auto
  then have "chain s' fs 0 = chain s fs 0" using assms(2) by (intro chain_cong) auto
  then show ?thesis using assms(1) by (simp add: free_list_def)
qed

lemma tails_ok_Un: "tails_ok s (A \<union> B) \<longleftrightarrow> tails_ok s A \<and> tails_ok s B"
  by (auto simp: tails_ok_def)

lemma heads_Un [simp]: "heads (A \<union> B) = heads A \<union> heads B"
  by (auto simp: heads_iff)

lemma heads_insert [simp]: "heads (insert (h, n) B) = insert h (heads B)"
  by (auto simp: heads_iff)

lemma heads_empty [simp]: "heads {} = {}"
  by (simp add: heads_def)

lemma other_blocks_apart:
  assumes ar: "heap_area g s (us @ mid @ vs)" and mp: "mapped (kernel_of s) ms"
    and mid: "mid \<noteq> []" "contiguous a mid e"
    and b: "(h, n) \<in> set us \<union> set vs \<union> set ms"
  shows "unat h + n \<le> a \<or> e \<le> unat h"
proof -
  obtain h0 n0 rest where m0: "mid = (h0, n0) # rest" using mid(1) by (cases mid) auto
  have nz: "sbrk_head s \<noteq> 0" by (rule heap_area_bounds(1) [OF ar, of h0 n0]) (simp add: m0)
  with ar obtain p :: addr where p: "contiguous (unat (sbrk_head s)) (us @ mid @ vs) (unat p)"
      "os_break (kernel_of s) = p" "unat (os_start (kernel_of s)) \<le> unat (sbrk_head s)"
    by (auto simp: heap_area_def brk_at_def)
  from p(1) obtain i j where c: "contiguous (unat (sbrk_head s)) us i" "contiguous i mid j" "contiguous j vs (unat p)"
    by (auto simp: contiguous_append)
  have i: "i = a" using c(2) mid(2) m0 by simp
  have j: "j = e" using c(2) mid(2) i contiguous_unique by blast
  consider "(h, n) \<in> set us" | "(h, n) \<in> set vs" | "(h, n) \<in> set ms" using b by blast
  then show ?thesis
  proof cases
    case 1
    then show ?thesis using contiguous_bounds(2) [OF c(1)] i by blast
  next
    case 2
    then show ?thesis using contiguous_bounds(1) [OF c(3)] j by blast
  next
    case 3
    have k: "kernel_ok (kernel_of s)" using ar by (simp add: heap_area_def)
    have "unat (sbrk_head s) \<le> a" "e \<le> unat p" using contiguous_le c i j by auto
    then show ?thesis using mapped_D(4) [OF k mp 3] p(2,3) by (auto simp: apart_def)
  qed
qed

lemma heap_area_replace:
  assumes "heap_area g s (us @ mid @ vs)" "mid \<noteq> []" "contiguous a mid e" "contiguous a mid' e"
    "\<forall>b\<in>set mid'. g dvd snd b"
  shows "heap_area g s (us @ mid' @ vs)"
proof -
  obtain h0 n0 rest where m0: "mid = (h0, n0) # rest" using assms(2) by (cases mid) auto
  have nz: "sbrk_head s \<noteq> 0" by (rule heap_area_bounds(1) [OF assms(1), of h0 n0]) (simp add: m0)
  have "contiguous i mid j \<Longrightarrow> contiguous i mid' j" for i j
    using assms(3,4) contiguous_unique m0 by (metis contiguous.simps(2))
  then have "contiguous x (us @ mid @ vs) y \<Longrightarrow> contiguous x (us @ mid' @ vs) y" for x y
    by (auto simp: contiguous_append)
  then show ?thesis using assms(1,5) nz unfolding heap_area_def by auto
qed

lemma frame_others:
  assumes ok: "blocks_ok B" and off: "\<And>h n. (h, n) \<in> B \<Longrightarrow> unat h + n \<le> a \<or> e \<le> unat h"
    and w: "\<forall>x. \<not> (a \<le> unat x \<and> unat x < e) \<longrightarrow> mem s' x = mem s x"
  shows "\<And>h f. h \<in> heads B \<Longrightarrow> get f s' h = get f s h" "kept B s s'"
    "tails_ok s B \<Longrightarrow> global_rand_cookie s' = global_rand_cookie s \<Longrightarrow> tails_ok s' B"
proof -
  have same: "mem s' x = mem s x" if "(h, n) \<in> B" "x \<in> metadata h n" for h n x
    using off [OF that(1)] blocks_ok_D(2) [OF ok that(1)] that(2)
    by (intro w [rule_format]) (auto simp: metadata_def)
  show "get f s' h = get f s h" if "h \<in> heads B" for h f
  proof -
    from that obtain n where b: "(h, n) \<in> B" by (auto simp: heads_iff)
    show ?thesis by (rule block_frame(1) [OF blocks_ok_D(2,3) [OF ok b] same [OF b]])
  qed
  show "kept B s s'" by (rule kept_outside [OF w [rule_format] off])
  show "tails_ok s B \<Longrightarrow> global_rand_cookie s' = global_rand_cookie s \<Longrightarrow> tails_ok s' B"
    by (rule tails_ok_frame [OF ok _ _ same])
qed

text \<open>
  While an operation rewrites a stretch of the heap, the rest of the heap stays in shape: \<open>hole\<close> is
  the shape of a heap whose blocks between the addresses \<open>a\<close> and \<open>e\<close> are being rewritten.
\<close>

definition hole ::
  "nat \<Rightarrow> heap \<Rightarrow> (addr \<times> nat) list \<Rightarrow> nat \<Rightarrow> nat \<Rightarrow> (addr \<times> nat) list \<Rightarrow> addr list \<Rightarrow> (addr \<times> nat) list \<Rightarrow> bool"
where
  "hole g s us a e vs fs ms \<longleftrightarrow>
     (\<exists>mid. mid \<noteq> [] \<and> contiguous a mid e \<and> heap_area g s (us @ mid @ vs)) \<and> mapped (kernel_of s) ms
     \<and> tails_ok s (set us \<union> set vs \<union> set ms) \<and> global_rand_cookie s \<noteq> 0
     \<and> free_list s fs \<and> set fs \<subseteq> heads (set us \<union> set vs)"

lemma hole_D:
  assumes "hole g s us a e vs fs ms"
  shows "mapped (kernel_of s) ms" "tails_ok s (set us \<union> set vs \<union> set ms)" "global_rand_cookie s \<noteq> 0"
    "free_list s fs" "set fs \<subseteq> heads (set us \<union> set vs)" "drawable s"
  using assms by (auto simp: hole_def drawable_def)

lemma hole_open:
  assumes "heap_shape g s (us @ mid @ vs) fs ms" "mid \<noteq> []" "contiguous a mid e" "set fs \<inter> heads (set mid) = {}"
  shows "hole g s us a e vs fs ms"
proof -
  note D = heap_shape_D [OF assms(1)]
  have "tails_ok s (set us \<union> set vs \<union> set ms)" using D(3) by (simp add: tails_ok_Un)
  moreover have "set fs \<subseteq> heads (set us \<union> set vs)" using D(7) assms(4) by auto
  ultimately show ?thesis using D(1,2,4,6) assms(2,3) unfolding hole_def by blast
qed

lemma hole_close:
  assumes h: "hole g s us a e vs fs ms" and mid: "mid' \<noteq> []" "contiguous a mid' e" "\<forall>b\<in>set mid'. g dvd snd b"
    "tails_ok s (set mid')"
  shows "heap_shape g s (us @ mid' @ vs) fs ms"
proof -
  note D = hole_D [OF h]
  obtain mid where m: "mid \<noteq> []" "contiguous a mid e" "heap_area g s (us @ mid @ vs)"
    using h by (auto simp: hole_def)
  have "heap_area g s (us @ mid' @ vs)" by (rule heap_area_replace [OF m(3,1,2) mid(2,3)])
  moreover have "tails_ok s (set (us @ mid' @ vs) \<union> set ms)" using D(2) mid(4) by (simp add: tails_ok_Un)
  ultimately show ?thesis using D by (intro heap_shape_I) auto
qed

lemma hole_others:
  assumes "hole g s us a e vs fs ms"
  shows "blocks_ok (set us \<union> set vs \<union> set ms)"
    "(h, n) \<in> set us \<union> set vs \<union> set ms \<Longrightarrow> unat h + n \<le> a \<or> e \<le> unat h"
    "0 < a" "a < e" "e \<le> unat (os_break (kernel_of s))" "e \<le> 140737488355328"
proof -
  obtain mid where m: "mid \<noteq> []" "contiguous a mid e" "heap_area g s (us @ mid @ vs)" "mapped (kernel_of s) ms"
    using assms by (auto simp: hole_def)
  show "blocks_ok (set us \<union> set vs \<union> set ms)"
    by (rule blocks_ok_subset [OF shape_blocks_ok [OF m(3,4)]]) auto
  show "(h, n) \<in> set us \<union> set vs \<union> set ms \<Longrightarrow> unat h + n \<le> a \<or> e \<le> unat h"
    using other_blocks_apart [OF m(3,4,1,2)] .
  obtain h0 n0 rest where m0: "mid = (h0, n0) # rest" using m(1) by (cases mid) auto
  have in0: "(h0, n0) \<in> set (us @ mid @ vs)" by (simp add: m0)
  obtain h1 n1 where l: "last mid = (h1, n1)" by fastforce
  have in1: "(h1, n1) \<in> set (us @ mid @ vs)" using m(1) l last_in_set by force
  have "contiguous x (ys @ [(h1, n1)]) e \<Longrightarrow> e = unat h1 + n1" for x ys by (auto simp: contiguous_append)
  then have e: "e = unat h1 + n1" using m(1,2) l by (metis append_butlast_last_id)
  have "0 < unat (os_start (kernel_of s))" using m(3) by (simp add: heap_area_def kernel_ok_def)
  then show "0 < a" using heap_area_bounds(6) [OF m(3) in0] m(2) m0 by auto
  show "a < e" using m(2) m0 contiguous_le [of "a + n0" rest e] by auto
  show "e \<le> unat (os_break (kernel_of s))" using heap_area_bounds(4) [OF m(3) in1] e by simp
  then show "e \<le> 140737488355328" using heap_area_bounds(5) [OF m(3) in1] by linarith
qed

lemma hole_write:
  assumes h: "hole g s us a e vs fs ms"
    and w: "\<forall>x. \<not> (a \<le> unat x \<and> unat x < e) \<longrightarrow> mem s' x = mem s x" "beside s' = beside s"
      "sbrk_free_head s' = sbrk_free_head s" "coin s' = coin s"
  shows "hole g s' us a e vs fs ms"
    "\<And>h f. h \<in> heads (set us \<union> set vs \<union> set ms) \<Longrightarrow> get f s' h = get f s h"
    "kept (set us \<union> set vs \<union> set ms) s s'"
proof -
  note D = hole_D [OF h] and F = frame_others [OF hole_others(1,2) [OF h] w(1)]
  show "\<And>h f. h \<in> heads (set us \<union> set vs \<union> set ms) \<Longrightarrow> get f s' h = get f s h" by (rule F(1))
  show "kept (set us \<union> set vs \<union> set ms) s s'" by (rule F(2))
  have "tails_ok s' (set us \<union> set vs \<union> set ms)" using w(4) D(2) by (intro F(3)) (simp_all add: coin_def)
  moreover have "free_list s' fs = free_list s fs"
    using D(5) by (intro free_list_cong [OF w(3)] F(1)) auto
  moreover have "heap_area g s' (us @ mid @ vs) = heap_area g s (us @ mid @ vs)" for mid
    by (rule heap_area_cong [OF beside_fields(1-3) [OF w(2)]])
  moreover have "global_rand_cookie s' = global_rand_cookie s" using w(4) by (simp add: coin_def)
  ultimately show "hole g s' us a e vs fs ms"
    using h beside_fields(1) [OF w(2)] by (simp add: hole_def)
qed

lemma hole_head_change:
  assumes h: "hole g s us a e vs fs ms" and ch: "head_change (set us \<union> set vs \<union> set ms) s s'"
    and fs: "free_list s' fs'" "set fs' \<subseteq> heads (set us \<union> set vs)"
  shows "hole g s' us a e vs fs' ms"
proof -
  note ok = hole_others(1) [OF h]
  have b: "beside s' = beside s" "coin s' = coin s" using ch by (simp_all add: head_change_def)
  have "tails_ok s' (set us \<union> set vs \<union> set ms)" by (rule head_change_tails [OF ok ch hole_D(2) [OF h]])
  moreover have "heap_area g s' (us @ mid @ vs) = heap_area g s (us @ mid @ vs)" for mid
    by (rule heap_area_cong [OF beside_fields(1-3) [OF b(1)]])
  moreover have "global_rand_cookie s' = global_rand_cookie s" using b by (simp add: coin_def)
  ultimately show ?thesis using h fs beside_fields(1) [OF b(1)] by (simp add: hole_def)
qed

lemma hole_widen:
  assumes h: "hole g s us a e ((r, n) # vs) fs ms" and r: "r \<notin> set fs"
  shows "hole g s us a (e + n) vs fs ms" "unat r = e" "48 \<le> n" "g dvd n"
proof -
  obtain mid where m: "mid \<noteq> []" "contiguous a mid e" "heap_area g s (us @ mid @ (r, n) # vs)"
    using h by (auto simp: hole_def)
  have b: "(r, n) \<in> set (us @ mid @ (r, n) # vs)" by simp
  obtain p :: addr where p: "contiguous (unat (sbrk_head s)) (us @ mid @ (r, n) # vs) (unat p)"
    using m(3) heap_area_bounds(1) [OF m(3) b] by (auto simp: heap_area_def)
  show n: "48 \<le> n" "g dvd n" using heap_area_bounds(3,7) [OF m(3) b] by auto
  show e: "unat r = e"
    using p m(1,2) by (cases mid) (auto simp: contiguous_append dest: contiguous_unique)
  have "contiguous a (mid @ [(r, n)]) (e + n)" using m(2) e n(1) by (auto simp: contiguous_append)
  moreover have "heap_area g s (us @ (mid @ [(r, n)]) @ vs)" using m(3) by simp
  moreover have "set fs \<subseteq> heads (set us \<union> set vs)" using hole_D(5) [OF h] r by auto
  moreover have "tails_ok s (set us \<union> set vs \<union> set ms)" using hole_D(2) [OF h] by (auto simp: tails_ok_def)
  ultimately show "hole g s us a (e + n) vs fs ms"
    using hole_D(1,3,4) [OF h] unfolding hole_def by blast
qed

lemma shape_replace:
  assumes sh: "heap_shape g s (us @ mid @ vs) fs ms"
    and mid: "mid \<noteq> []" "contiguous a mid e" "mid' \<noteq> []" "contiguous a mid' e" "\<forall>b\<in>set mid'. g dvd snd b"
    and fs: "set fs \<inter> heads (set mid) = {}"
    and w: "\<forall>x. \<not> (a \<le> unat x \<and> unat x < e) \<longrightarrow> mem s' x = mem s x" "beside s' = beside s"
      "sbrk_free_head s' = sbrk_free_head s" "coin s' = coin s" "tails_ok s' (set mid')"
  shows "heap_shape g s' (us @ mid' @ vs) fs ms"
    "\<And>h f. h \<in> heads (set us \<union> set vs \<union> set ms) \<Longrightarrow> get f s' h = get f s h"
    "kept (set us \<union> set vs \<union> set ms) s s'"
  using hole_write [OF hole_open [OF sh mid(1,2) fs] w(1-4)] hole_close [OF _ mid(3-5) w(5)] by blast+

section \<open>The order of the free list\<close>

lemma precedes_trans: "precedes s a b \<Longrightarrow> precedes s b c \<Longrightarrow> precedes s a c"
  by (auto simp: precedes_def)

lemma precedes_total: "a \<noteq> b \<Longrightarrow> \<not> precedes s a b \<Longrightarrow> precedes s b a"
  by (auto simp: precedes_def not_less order_le_less)

lemma sorted_insert_free:
  "sorted_wrt (precedes s) xs \<Longrightarrow> b \<notin> set xs \<Longrightarrow> sorted_wrt (precedes s) (insert_free (precedes s) b xs)"
proof (induction xs)
  case (Cons x xs)
  show ?case
  proof (cases "precedes s b x")
    case True
    then show ?thesis using Cons.prems(1) precedes_trans [OF True] by auto
  next
    case False
    then have "precedes s x b" using precedes_total [of b x s] Cons.prems(2) by auto
    then show ?thesis using Cons False by auto
  qed
qed simp

lemma sorted_precedes_cong:
  assumes "sorted_wrt (precedes s) xs" "\<And>x. x \<in> set xs \<Longrightarrow> get F_size s' x = get F_size s x"
  shows "sorted_wrt (precedes s') xs"
  using assms by (auto simp: precedes_def intro: sorted_wrt_mono_rel [rotated])

lemma sorted_wrt_remove1: "sorted_wrt P xs \<Longrightarrow> sorted_wrt P (remove1 x xs)"
  by (induction xs) (auto dest: notin_set_remove1 set_remove1_subset [THEN subsetD])

section \<open>Moving a block between the lists\<close>

lemma free_list_short:
  assumes "heap_shape g s bs fs ms"
  shows "length fs \<le> length bs" "length fs \<le> walk_bound s"
proof -
  note D = heap_shape_D [OF assms]
  have d: "distinct fs" using D(6) by (simp add: free_list_def)
  have "length fs = card (set fs)" using d by (simp add: distinct_card)
  also have "\<dots> \<le> card (heads (set bs))" using D(7) by (intro card_mono) (simp_all add: heads_def)
  also have "\<dots> \<le> length bs" unfolding heads_def by (metis card_image_le card_length finite_set le_trans)
  finally show le: "length fs \<le> length bs" .
  show "length fs \<le> walk_bound s"
  proof (cases "fs = []")
    case False
    then have "sbrk_head s \<noteq> 0" using le D(1) by (auto simp: heap_area_def)
    then obtain p where p: "program_break s = Some p" "contiguous (unat (sbrk_head s)) bs (unat p)"
      using D(1) by (auto simp: heap_area_def brk_at_def)
    have "length bs * 48 \<le> unat p - unat (sbrk_head s)" using contiguous_length [OF p(2)] .
    moreover have "unat (p - sbrk_head s) = unat p - unat (sbrk_head s)"
      using contiguous_le [OF p(2)] by (rule unat_minus_64)
    ultimately show ?thesis using le p(1) by (simp add: walk_bound_def)
  qed simp
qed

lemma flags_after:
  assumes "sets_flag B block v s s'"
    and "\<And>h. h \<in> heads B \<Longrightarrow> h \<noteq> block \<Longrightarrow> get F_is_free s h = (if h \<in> set fs then 1 else 0)"
    and "\<And>h. h \<in> heads B \<Longrightarrow> h \<noteq> block \<Longrightarrow> h \<in> set fs' \<longleftrightarrow> h \<in> set fs"
    and "v = (if block \<in> set fs' then 1 else 0)"
  shows "flags_ok s' B fs'"
  using assms by (auto simp: flags_ok_def sets_flag_def)

lemma remove_from_free_list:
  assumes sh: "heap_shape g s bs fs ms" and fl: "flags_ok s (set bs \<union> set ms) fs" and h: "h \<in> set fs"
  obtains s' where "remove_sbrk_free_block h s = Inr s'" "head_change (set bs \<union> set ms) s s'"
    "heap_shape g s' bs (remove1 h fs) ms" "flags_ok s' (set bs \<union> set ms) (remove1 h fs)"
proof -
  note D = heap_shape_D [OF sh] and ok = heap_shape_blocks_ok [OF sh]
  have sub: "set fs \<subseteq> heads (set bs \<union> set ms)" using D(7) by auto
  from remove_sbrk_free_block_spec [OF ok D(3,6) sub h] obtain s'
    where s': "remove_sbrk_free_block h s = Inr s'" "sets_flag (set bs \<union> set ms) h 0 s s'"
      "free_list s' (remove1 h fs)" by blast
  have ch: "head_change (set bs \<union> set ms) s s'" by (rule sets_flag_head_change [OF s'(2)])
  have d: "distinct fs" using D(6) by (simp add: free_list_def)
  have "heap_shape g s' bs (remove1 h fs) ms"
    using D(7) set_remove1_subset [of h fs] by (intro shape_head_change [OF sh ch s'(3)]) auto
  moreover have "flags_ok s' (set bs \<union> set ms) (remove1 h fs)"
    using fl d by (intro flags_after [OF s'(2), where fs = fs]) (auto simp: flags_ok_def)
  ultimately show ?thesis using that s'(1) ch by blast
qed

lemma add_to_free_list:
  assumes sh: "heap_shape g s bs fs ms" and h: "h \<in> heads (set bs)" "h \<notin> set fs"
    and fl: "\<And>x. x \<in> heads (set bs \<union> set ms) \<Longrightarrow> x \<noteq> h \<Longrightarrow> get F_is_free s x = (if x \<in> set fs then 1 else 0)"
  obtains s' where "add_sbrk_free_block h s = Inr s'" "head_change (set bs \<union> set ms) s s'"
    "heap_shape g s' bs (insert_free (precedes s) h fs) ms"
    "flags_ok s' (set bs \<union> set ms) (insert_free (precedes s) h fs)"
proof -
  note D = heap_shape_D [OF sh] and ok = heap_shape_blocks_ok [OF sh]
  let ?B = "set bs \<union> set ms"
  have sub: "set fs \<subseteq> heads ?B" "h \<in> heads ?B" using D(7) h by auto
  from add_sbrk_free_block_spec [OF ok D(3) sub(2) D(6) sub(1) h(2) free_list_short(2) [OF sh]] obtain s'
    where s': "add_sbrk_free_block h s = Inr s'" "sets_flag ?B h 1 s s'"
      "free_list s' (insert_free (precedes s) h fs)" by blast
  have ch: "head_change ?B s s'" by (rule sets_flag_head_change [OF s'(2)])
  have "heap_shape g s' bs (insert_free (precedes s) h fs) ms"
    using D(7) h by (intro shape_head_change [OF sh ch s'(3)]) auto
  moreover have "flags_ok s' ?B (insert_free (precedes s) h fs)"
    using fl by (intro flags_after [OF s'(2), where fs = fs]) auto
  ultimately show ?thesis using that s'(1) ch by blast
qed

lemma head_change_sorted:
  assumes "head_change B s s'" "set xs \<subseteq> heads B" "sorted_wrt (precedes s) xs"
  shows "sorted_wrt (precedes s') xs"
  using assms by (intro sorted_precedes_cong [OF assms(3)]) (auto simp: head_change_def)

section \<open>Splitting\<close>

lemma size_constants: "size_meta_data = 48" "SBRK_LIMIT = 131120" "REDUNDANT_SIZE = 176"
  by (simp_all add: size_meta_data_def SBRK_LIMIT_def REDUNDANT_SIZE_def)

lemma unat_of_nat_47: "n \<le> 140737488355328 \<Longrightarrow> unat (of_nat n :: 64 word) = n"
  by (intro unat_of_nat_64) linarith

lemma of_nat_diff_64: "k \<le> n \<Longrightarrow> (of_nat n :: 64 word) - of_nat k = of_nat (n - k)"
  by simp

lemma is_redundant_iff:
  assumes "get F_size s h = of_nat n" "k \<le> n" "n \<le> 140737488355328"
  shows "is_redundant s h (of_nat k) \<longleftrightarrow> 176 \<le> n - k"
proof -
  have "unat (of_nat (n - k) :: 64 word) = n - k" using assms by (intro unat_of_nat_47) simp
  then show ?thesis
    using assms(1) of_nat_diff_64 [OF assms(2)] by (simp add: is_redundant_def size_constants word_le_nat_alt)
qed

lemma prepare_free_spec:
  assumes n: "48 \<le> n" "unat h + n \<le> 140737488355328" and d: "drawable s"
  obtains s' where "set_tail h (put F_prev h 0 (put F_next h 0 (put F_size h (of_nat n) s))) = Inr s'"
    "writes_block h n s s'"
proof -
  have r: "unat h + 32 \<le> 18446744073709551616" using n by linarith
  note gp = get_put [OF r r]
  define t where "t = put F_prev h 0 (put F_next h 0 (put F_size h (of_nat n) s))"
  have "drawable t" using d by (simp add: drawable_def t_def)
  moreover have "get F_size t h = of_nat n" by (simp add: t_def gp)
  ultimately obtain s' where s': "set_tail h t = Inr s'" "writes_block h n t s'"
    using set_tail_spec [OF n] by blast
  have "writes_block h n s s'"
    using n by (intro writes_block_change [OF s'(2)]) (simp_all add: t_def put_metadata)
  then show ?thesis using that s'(1) by (simp add: t_def)
qed

lemma writes_block_D:
  assumes "writes_block h n s s'" "global_rand_cookie s \<noteq> 0"
  shows "beside s' = beside s" "sbrk_free_head s' = sbrk_free_head s" "coin s' = coin s"
    "tails_ok s' {(h, n)}" "\<And>x. x \<notin> metadata h n \<Longrightarrow> mem s' x = mem s x"
  using assms by (auto simp: writes_block_def keeps_coin_def)

lemma split_writes:
  assumes n: "unat h + n \<le> 140737488355328" "48 \<le> k" "48 \<le> n - k" "0 < unat h"
    and c: "global_rand_cookie s \<noteq> 0"
  obtains s1 s2 where "init_sbrk_alloc_block sb h (of_nat k) False s = Inr (h, s1)"
    "set_tail (h + of_nat k) (put F_prev (h + of_nat k) 0 (put F_next (h + of_nat k) 0
       (put F_size (h + of_nat k) (of_nat (n - k)) s1))) = Inr s2"
    "beside s2 = beside s" "sbrk_free_head s2 = sbrk_free_head s" "coin s2 = coin s"
    "tails_ok s2 {(h, k), (h + of_nat k, n - k)}" "get F_is_free s2 h = 0"
    "\<forall>x. \<not> (unat h \<le> unat x \<and> unat x < unat h + n) \<longrightarrow> mem s2 x = mem s x"
    "kept {(h, k)} s s2" "unat (h + of_nat k) = unat h + k"
proof -
  have d: "drawable s" using c by (simp add: drawable_def)
  have hk: "unat h + k \<le> 140737488355328" "k \<le> 140737488355328" using n by linarith+
  have a: "unat (h + of_nat k) = unat h + k"
    using unat_of_nat_47 [OF hk(2)] hk(1) by (simp add: unat_plus_64)
  from init_alloc_spec [OF n(2) hk(1) d, of sb] obtain s1
    where s1: "init_sbrk_alloc_block sb h (of_nat k) False s = Inr (h, s1)" "writes_block h k s s1"
      "get F_is_free s1 h = 0" by blast
  note w1 = writes_block_D [OF s1(2) c]
  have c1: "global_rand_cookie s1 \<noteq> 0" "drawable s1" using w1(3) c d by (auto simp: coin_def drawable_def)
  have "unat (h + of_nat k) + (n - k) \<le> 140737488355328" using a n by linarith
  from prepare_free_spec [OF n(3) this c1(2)] obtain s2 where s2:
    "set_tail (h + of_nat k) (put F_prev (h + of_nat k) 0 (put F_next (h + of_nat k) 0
       (put F_size (h + of_nat k) (of_nat (n - k)) s1))) = Inr s2" "writes_block (h + of_nat k) (n - k) s1 s2"
    by blast
  note w2 = writes_block_D [OF s2(2) c1(1)]
  have same: "mem s2 x = mem s1 x" if "unat x < unat h + k \<or> unat h + n \<le> unat x" for x
    using that a n by (intro w2(5)) (auto simp: metadata_def)
  have meta: "mem s2 x = mem s1 x" if "x \<in> metadata h k" for x
    using that n by (intro same) (auto simp: metadata_def)
  have "tails_ok s2 {(h, k)}"
  proof (rule tails_ok_frame [OF _ w1(4)])
    show "blocks_ok {(h, k)}" using n(2,4) hk by (auto simp: blocks_ok_def)
    show "global_rand_cookie s2 = global_rand_cookie s1" using w2(3) by (simp add: coin_def)
    show "mem s2 x = mem s1 x" if "(h', n') \<in> {(h, k)}" "x \<in> metadata h' n'" for h' n' x
      using that meta by simp
  qed
  then have "tails_ok s2 {(h, k), (h + of_nat k, n - k)}"
    using w2(4) tails_ok_Un [of s2 "{(h, k)}" "{(h + of_nat k, n - k)}"] by (simp add: insert_commute)
  moreover have "get F_is_free s2 h = 0"
    using block_frame(1) [OF n(2) hk(1) meta] s1(3) by simp
  moreover have "mem s2 x = mem s x" if "x \<in> payload h k" for x
  proof -
    have "x \<notin> metadata h k" "unat x < unat h + k" using that by (auto simp: payload_def metadata_def)
    then show ?thesis using same [of x] w1(5) by simp
  qed
  then have "kept {(h, k)} s s2" by (simp add: kept_def)
  moreover have "mem s2 x = mem s x" if "\<not> (unat h \<le> unat x \<and> unat x < unat h + n)" for x
  proof -
    have "x \<notin> metadata h k" "unat x < unat h + k \<or> unat h + n \<le> unat x"
      using that n by (auto simp: metadata_def)
    then show ?thesis using same [of x] w1(5) by simp
  qed
  ultimately show ?thesis using that s1(1) s2(1) w1(1-3) w2(1-3) a by simp
qed

lemma inside_block_fresh:
  assumes sh: "heap_shape g s (us @ (h, n) # vs) fs ms" and x: "unat h \<le> unat x" "unat x < unat h + n"
  shows "x \<notin> heads (set us \<union> set vs \<union> set ms)"
proof
  assume "x \<in> heads (set us \<union> set vs \<union> set ms)"
  then obtain m where b: "(x, m) \<in> set us \<union> set vs \<union> set ms" by (auto simp: heads_iff)
  note D = heap_shape_D [OF sh] and ok = heap_shape_blocks_ok [OF sh]
  have "unat x + m \<le> unat h \<or> unat h + n \<le> unat x"
    using other_blocks_apart [of g s us "[(h, n)]" vs ms "unat h" "unat h + n" x m] D(1,2) b
      heap_area_bounds(3) [OF D(1), of h n] by simp
  moreover have "48 \<le> m" using blocks_ok_D(2) [OF ok, of x m] b by auto
  ultimately show False using x by linarith
qed

definition tally :: "heap \<Rightarrow> size_t \<times> size_t \<times> size_t \<times> size_t" where
  "tally s = (free_blocks_num s, free_bytes_num s, allocated_blocks_num s, allocated_bytes_num s)"

definition bytes_in :: "(addr \<times> nat) list \<Rightarrow> size_t" where
  "bytes_in bs = (\<Sum>b\<leftarrow>bs. of_nat (snd b) - 48)"

definition count :: "(addr \<times> nat) list \<Rightarrow> addr list \<Rightarrow> (addr \<times> nat) list \<Rightarrow> size_t \<times> size_t \<times> size_t \<times> size_t" where
  "count bs fs ms = (of_nat (length fs), bytes_in (filter (\<lambda>b. fst b \<in> set fs) bs),
     of_nat (length bs + length ms), bytes_in bs + bytes_in ms)"

lemma bytes_in_simps [simp]:
  "bytes_in [] = 0" "bytes_in (b # bs) = of_nat (snd b) - 48 + bytes_in bs"
  "bytes_in (as @ bs) = bytes_in as + bytes_in bs"
  by (simp_all add: bytes_in_def)

lemma insert_free_cong: "(\<And>x. x \<in> set xs \<Longrightarrow> P b x = Q b x) \<Longrightarrow> insert_free P b xs = insert_free Q b xs"
  by (induction xs) auto

lemma length_insert_free [simp]: "length (insert_free P b xs) = Suc (length xs)"
  by (induction xs) auto

lemma bytes_in_filter_cong:
  "(\<And>b. b \<in> set bs \<Longrightarrow> fst b \<in> A \<longleftrightarrow> fst b \<in> A') \<Longrightarrow>
     bytes_in (filter (\<lambda>b. fst b \<in> A) bs) = bytes_in (filter (\<lambda>b. fst b \<in> A') bs)"
  by (metis (mono_tags, lifting) filter_cong)

lemma tails_ok_size: "tails_ok s B \<Longrightarrow> (h, n) \<in> B \<Longrightarrow> get F_size s h = of_nat n"
  by (auto simp: tails_ok_def)

definition core :: "heap \<Rightarrow> memory \<times> (c_int \<times> c_int list) \<times> os \<times> addr option \<times> addr \<times> addr" where
  "core s = (mem s, coin s, kernel_of s, program_break s, sbrk_head s, sbrk_free_head s)"

lemma core_get: "core t = core s \<Longrightarrow> get f t h = get f s h"
  by (simp add: core_def get_def)

lemma core_shape:
  assumes "core t = core s"
  shows "heap_shape g t bs fs ms = heap_shape g s bs fs ms"
proof -
  have m: "mem t = mem s" "coin t = coin s" "kernel_of t = kernel_of s" "program_break t = program_break s"
    "sbrk_head t = sbrk_head s" "sbrk_free_head t = sbrk_free_head s"
    using assms by (simp_all add: core_def)
  have "tails_ok t B = tails_ok s B" for B
    using m(2) by (simp add: tails_ok_def m(1) core_get [OF assms] coin_def)
  moreover have "free_list t fs = free_list s fs" using m(6) core_get [OF assms] by (intro free_list_cong) auto
  ultimately show ?thesis
    using m(2) heap_area_cong [OF m(3-5)] by (simp add: heap_shape_def m(3) drawable_def coin_def)
qed

lemma core_flags: "core t = core s \<Longrightarrow> flags_ok t B fs = flags_ok s B fs"
  by (simp add: flags_ok_def core_get [of t s])

lemma core_precedes: "core t = core s \<Longrightarrow> precedes t = precedes s"
  by (simp add: precedes_def core_get [of t s] fun_eq_iff)

lemma core_inv: "core t = core s \<Longrightarrow> heap_inv g t bs fs ms = heap_inv g s bs fs ms"
  by (simp add: heap_inv_def core_shape [of t s] core_flags [of t s] core_precedes [of t s])

lemma split_shape:
  assumes sh: "heap_shape g s (us @ (h, n) # vs) fs ms" and h: "h \<notin> set fs"
    and k: "48 \<le> k" "g dvd k" "176 \<le> n - k"
  defines "r \<equiv> h + of_nat k" and "B \<equiv> set us \<union> set vs \<union> set ms"
  obtains s1 s2 where "init_sbrk_alloc_block sb h (of_nat k) False s = Inr (h, s1)"
    "set_tail r (put F_prev r 0 (put F_next r 0 (put F_size r (of_nat (n - k)) s1))) = Inr s2"
    "beside s2 = beside s" "heap_shape g s2 (us @ [(h, k), (r, n - k)] @ vs) fs ms"
    "\<And>x f. x \<in> heads B \<Longrightarrow> get f s2 x = get f s x" "get F_is_free s2 h = 0" "kept (insert (h, k) B) s s2"
    "r \<notin> heads B" "r \<noteq> h"
proof -
  note D = heap_shape_D [OF sh] and ok = heap_shape_blocks_ok [OF sh]
  have b: "(h, n) \<in> set (us @ (h, n) # vs) \<union> set ms" by simp
  note hb = blocks_ok_D [OF ok b]
  have c: "global_rand_cookie s \<noteq> 0" using D(4) by simp
  have n48: "48 \<le> n - k" using k by simp
  obtain s1 s2 where w: "init_sbrk_alloc_block sb h (of_nat k) False s = Inr (h, s1)"
    "set_tail r (put F_prev r 0 (put F_next r 0 (put F_size r (of_nat (n - k)) s1))) = Inr s2"
    "beside s2 = beside s" "sbrk_free_head s2 = sbrk_free_head s" "coin s2 = coin s"
    "tails_ok s2 {(h, k), (r, n - k)}" "get F_is_free s2 h = 0"
    "\<forall>x. \<not> (unat h \<le> unat x \<and> unat x < unat h + n) \<longrightarrow> mem s2 x = mem s x"
    "kept {(h, k)} s s2" "unat r = unat h + k"
    unfolding r_def using split_writes [OF hb(3) k(1) n48 hb(1) c] by metis
  have gn: "g dvd n" using heap_area_bounds(7) [OF D(1), of h n] by simp
  have kn: "k \<le> n" using k(3) by linarith
  have mid: "[(h, n)] \<noteq> []" "contiguous (unat h) [(h, n)] (unat h + n)" "[(h, k), (r, n - k)] \<noteq> []"
    "contiguous (unat h) [(h, k), (r, n - k)] (unat h + n)" "\<forall>b\<in>set [(h, k), (r, n - k)]. g dvd snd b"
    using k gn w(10) hb(2) kn by (auto intro: dvd_diff_nat)
  have sh': "heap_shape g s (us @ [(h, n)] @ vs) fs ms" and hm: "set fs \<inter> heads (set [(h, n)]) = {}"
    and tl: "tails_ok s2 (set [(h, k), (r, n - k)])" using sh h w(6) by simp_all
  note R = shape_replace [OF sh' mid hm w(8) w(3-5) tl, folded B_def]
  have "r \<notin> heads B" "r \<noteq> h"
    unfolding B_def using inside_block_fresh [OF sh] w(10) k hb kn by (auto simp: eq_iff_unat_64)
  moreover have "kept (insert (h, k) B) s s2" using w(9) R(3) by (simp add: kept_def)
  ultimately show ?thesis using that w(1-3,7) R(1,2) by blast
qed

lemma count_split:
  assumes "h \<notin> set fs" "r \<notin> heads (set us \<union> set vs \<union> set ms)" "r \<noteq> h" "k \<le> n"
  shows "count (us @ (h, k) # (r, n - k) # vs) (insert_free P r fs) ms =
    (case count (us @ (h, n) # vs) fs ms of (fb, fy, ab, ay) \<Rightarrow>
      (fb + 1, fy + (of_nat n - 48 - of_nat k), ab + 1, ay - 48))"
proof -
  have "bytes_in (filter (\<lambda>b. fst b \<in> insert r (set fs)) xs) = bytes_in (filter (\<lambda>b. fst b \<in> set fs) xs)"
    if "xs = us \<or> xs = vs" for xs
    using that assms(2) by (intro bytes_in_filter_cong) (auto simp: heads_iff)
  then show ?thesis using assms by (auto simp: count_def of_nat_diff)
qed

lemma split_block_spec:
  assumes inv: "heap_inv g s (us @ (h, n) # vs) fs ms" and h: "h \<notin> set fs"
    and k: "48 \<le> k" "g dvd k" "176 \<le> n - k"
  obtains s' where "split_block sb h (of_nat k) s = Inr s'"
    "heap_inv g s' (us @ (h, k) # (h + of_nat k, n - k) # vs) (insert_free (precedes s') (h + of_nat k) fs) ms"
    "kept (insert (h, k) (set us \<union> set vs \<union> set ms)) s s'"
    "tally s = count (us @ (h, n) # vs) fs ms \<Longrightarrow>
       tally s' = count (us @ (h, k) # (h + of_nat k, n - k) # vs) (insert_free (precedes s') (h + of_nat k) fs) ms"
    "os_refusals (kernel_of s') = os_refusals (kernel_of s)"
proof -
  have sh: "heap_shape g s (us @ (h, n) # vs) fs ms" and fl: "flags_ok s (set (us @ (h, n) # vs) \<union> set ms) fs"
    and so: "sorted_wrt (precedes s) fs"
    using inv by (simp_all add: heap_inv_def)
  note D = heap_shape_D [OF sh]
  let ?r = "h + of_nat k" and ?O = "set us \<union> set vs \<union> set ms"
  define t where "t = s\<lparr>free_blocks_num := free_blocks_num s + 1,
    free_bytes_num := free_bytes_num s + (of_nat n - 48 - of_nat k),
    allocated_blocks_num := allocated_blocks_num s + 1, allocated_bytes_num := allocated_bytes_num s - 48\<rparr>"
  have core: "core t = core s" by (simp add: t_def core_def coin_def)
  have sht: "heap_shape g t (us @ (h, n) # vs) fs ms" using sh core_shape [OF core] by simp
  have kn: "k \<le> n" using k(3) by linarith
  let ?cs = "us @ [(h, k), (?r, n - k)] @ vs"
  obtain s1 s2 where w: "init_sbrk_alloc_block sb h (of_nat k) False t = Inr (h, s1)"
    "set_tail ?r (put F_prev ?r 0 (put F_next ?r 0 (put F_size ?r (of_nat (n - k)) s1))) = Inr s2"
    "beside s2 = beside t" "heap_shape g s2 ?cs fs ms" "\<And>x f. x \<in> heads ?O \<Longrightarrow> get f s2 x = get f t x"
    "get F_is_free s2 h = 0" "kept (insert (h, k) ?O) t s2" "?r \<notin> heads ?O" "?r \<noteq> h"
    by (rule split_shape [OF sht h k]) blast
  have rfs: "?r \<notin> set fs" using D(7) w(8,9) by auto
  have oth: "get f s2 x = get f s x" if "x \<in> heads ?O" for x f using w(5) [OF that] core_get [OF core] by simp
  have flag: "get F_is_free s2 x = (if x \<in> set fs then 1 else 0)" if "x \<in> heads (set ?cs \<union> set ms)" "x \<noteq> ?r" for x
    using that oth [of x F_is_free] fl w(6) h by (auto simp: flags_ok_def)
  obtain s3 where s3: "add_sbrk_free_block ?r s2 = Inr s3" "head_change (set ?cs \<union> set ms) s2 s3"
    "heap_shape g s3 ?cs (insert_free (precedes s2) ?r fs) ms"
    "flags_ok s3 (set ?cs \<union> set ms) (insert_free (precedes s2) ?r fs)"
    by (rule add_to_free_list [OF w(4) _ rfs flag]) auto
  have ins: "insert_free (precedes s3) ?r fs = insert_free (precedes s2) ?r fs"
    using s3(2) D(7) by (intro insert_free_cong) (auto simp: precedes_def head_change_def)
  have "sorted_wrt (precedes s2) fs"
    using so oth D(7) h by (intro sorted_precedes_cong [OF so]) auto
  then have "sorted_wrt (precedes s3) (insert_free (precedes s2) ?r fs)"
    using D(7) by (intro head_change_sorted [OF s3(2)] sorted_insert_free rfs) auto
  then have "heap_inv g s3 (us @ (h, k) # (?r, n - k) # vs) (insert_free (precedes s3) ?r fs) ms"
    using s3(3,4) ins by (simp add: heap_inv_def)
  moreover have "split_block sb h (of_nat k) s = Inr s3"
  proof -
    have size: "get F_size s h = of_nat n" "n \<le> 140737488355328"
      using tails_ok_size [OF D(3), of h n] heap_area_bounds(4,5) [OF D(1), of h n] by auto
    have red: "is_redundant s h (of_nat k)" using is_redundant_iff [OF size(1) kn size(2)] k(3) by simp
    have "init_sbrk_free_block ?r (of_nat (n - k)) s1 = Inr s3"
      using w(2) s3(1) by (simp add: init_sbrk_free_block_def Let_def)
    then show ?thesis
      using red w(1) of_nat_diff_64 [OF kn] core_get [OF core]
      by (simp add: split_block_def Let_def size(1) size_constants flip: t_def)
  qed
  moreover have "kept (insert (h, k) ?O) s s3"
  proof (rule kept_trans)
    show "kept (insert (h, k) ?O) s s2" using w(7) core by (simp add: kept_def core_def)
    show "kept (insert (h, k) ?O) s2 s3"
      by (rule kept_subset [OF head_change_kept [OF heap_shape_blocks_ok [OF w(4)] s3(2)]]) auto
  qed
  moreover have "tally s3 = count (us @ (h, k) # (?r, n - k) # vs) (insert_free (precedes s3) ?r fs) ms"
    if tal: "tally s = count (us @ (h, n) # vs) fs ms"
  proof -
    have "tally s3 = tally t" using s3(2) w(3) by (simp add: tally_def head_change_def beside_def)
    then show ?thesis unfolding count_split [OF h w(8,9) kn] tal [symmetric] by (simp add: tally_def t_def)
  qed
  moreover have "os_refusals (kernel_of s3) = os_refusals (kernel_of s)"
    using s3(2) w(3) by (simp add: head_change_def beside_def t_def)
  ultimately show ?thesis using that by blast
qed

end
