(* ===== verification/Malloc_Merge.thy ===== *)
theory Malloc_Merge
  imports Malloc_Heap
begin

text \<open>
  \<open>_merge_sbrk_blocks\<close> of \<open>malloc_3.cpp\<close>: on a heap in shape it joins a block with the free neighbours
  it is asked to look at, takes them off the free list, keeps the counters right and the contents of
  every other block, and moves the contents of the block when it is asked to.
\<close>

section \<open>Neighbours\<close>

definition join_tally :: "nat \<Rightarrow> size_t \<times> size_t \<times> size_t \<times> size_t \<Rightarrow> size_t \<times> size_t \<times> size_t \<times> size_t" where
  "join_tally n = (\<lambda>(fb, fy, ab, ay). (fb - 1, fy - (of_nat n - 48), ab - 1, ay + 48))"

lemma hole_remove:
  assumes h: "hole g s us a e vs fs ms" and fl: "flags_ok s (set us \<union> set vs \<union> set ms) fs" and x: "x \<in> set fs"
  obtains s' where "remove_sbrk_free_block x s = Inr s'" "head_change (set us \<union> set vs \<union> set ms) s s'"
    "hole g s' us a e vs (remove1 x fs) ms" "flags_ok s' (set us \<union> set vs \<union> set ms) (remove1 x fs)"
proof -
  note D = hole_D [OF h] and ok = hole_others(1) [OF h]
  let ?O = "set us \<union> set vs \<union> set ms"
  have sub: "set fs \<subseteq> heads ?O" using D(5) by auto
  from remove_sbrk_free_block_spec [OF ok D(2,4) sub x] obtain s'
    where s': "remove_sbrk_free_block x s = Inr s'" "sets_flag ?O x 0 s s'" "free_list s' (remove1 x fs)" by blast
  have ch: "head_change ?O s s'" by (rule sets_flag_head_change [OF s'(2)])
  have d: "distinct fs" using D(4) by (simp add: free_list_def)
  have "hole g s' us a e vs (remove1 x fs) ms"
    using D(5) set_remove1_subset [of x fs] by (intro hole_head_change [OF h ch s'(3)]) auto
  moreover have "flags_ok s' ?O (remove1 x fs)"
    using fl d by (intro flags_after [OF s'(2), where fs = fs]) (auto simp: flags_ok_def)
  ultimately show ?thesis using that s'(1) ch by blast
qed

lemma core_hole: "core t = core s \<Longrightarrow> hole g t us a e vs fs ms = hole g s us a e vs fs ms"
proof -
  assume c: "core t = core s"
  have m: "mem t = mem s" "coin t = coin s" "kernel_of t = kernel_of s" "program_break t = program_break s"
    "sbrk_head t = sbrk_head s" "sbrk_free_head t = sbrk_free_head s"
    using c by (simp_all add: core_def)
  have "tails_ok t B = tails_ok s B" for B
    using m(2) by (simp add: tails_ok_def m(1) core_get [OF c] coin_def)
  moreover have "free_list t fs = free_list s fs" using m(6) core_get [OF c] by (intro free_list_cong) auto
  moreover have "heap_area g t bs = heap_area g s bs" for bs by (rule heap_area_cong [OF m(3-5)])
  ultimately show ?thesis using m(2,3) by (simp add: hole_def coin_def)
qed

lemma head_change_hole:
  assumes h: "hole g s us a e vs fs ms" and ch: "head_change (set us \<union> set vs \<union> set ms) s s'"
    and x: "a \<le> unat x" "unat x < e"
  shows "mem s' x = mem s x"
proof -
  have "x \<notin> span h' 32" if "h' \<in> heads (set us \<union> set vs \<union> set ms)" for h'
  proof -
    from that obtain n' where b': "(h', n') \<in> set us \<union> set vs \<union> set ms" by (auto simp: heads_iff)
    show ?thesis
      using hole_others(2) [OF h b'] blocks_ok_D(2) [OF hole_others(1) [OF h] b'] x by (auto simp: span_def)
  qed
  then show ?thesis using ch by (simp add: head_change_def)
qed

text \<open>Removing a free neighbour \<open>x\<close>, as both steps of the merge do.\<close>

definition takes_neighbour :: "blocks \<Rightarrow> nat \<Rightarrow> nat \<Rightarrow> nat \<Rightarrow> heap \<Rightarrow> heap \<Rightarrow> bool" where
  "takes_neighbour B n a e s s' \<longleftrightarrow> kept B s s' \<and> tally s' = join_tally n (tally s)
     \<and> (\<forall>h\<in>heads B. get F_size s' h = get F_size s h) \<and> (\<forall>x. a \<le> unat x \<and> unat x < e \<longrightarrow> mem s' x = mem s x)"

lemma merge_neighbour_spec:
  assumes h: "hole g s us a e vs fs ms" and fl: "flags_ok s (set us \<union> set vs \<union> set ms) fs"
    and x: "x \<in> set fs" "(x, n) \<in> set us \<union> set vs"
  obtains s' where "merge_neighbour x s = Inr s'" "hole g s' us a e vs (remove1 x fs) ms"
    "flags_ok s' (set us \<union> set vs \<union> set ms) (remove1 x fs)"
    "takes_neighbour (set us \<union> set vs \<union> set ms) n a e s s'"
proof -
  let ?O = "set us \<union> set vs \<union> set ms"
  define t where "t = s\<lparr>free_blocks_num := free_blocks_num s - 1, allocated_blocks_num := allocated_blocks_num s - 1,
    free_bytes_num := free_bytes_num s - (get F_size s x - size_meta_data),
    allocated_bytes_num := allocated_bytes_num s + size_meta_data\<rparr>"
  have core: "core t = core s" by (simp add: t_def core_def coin_def)
  have size: "get F_size s x = of_nat n" using tails_ok_size [OF hole_D(2) [OF h]] x(2) by blast
  have ht: "hole g t us a e vs fs ms" using h core_hole [OF core] by simp
  have ft: "flags_ok t ?O fs" using fl core_flags [OF core] by simp
  obtain s' where s': "remove_sbrk_free_block x t = Inr s'" "head_change ?O t s'"
    "hole g s' us a e vs (remove1 x fs) ms" "flags_ok s' ?O (remove1 x fs)"
    by (rule hole_remove [OF ht ft x(1)])
  have mt: "mem t = mem s" by (simp add: t_def)
  have "kept ?O s s'"
    using head_change_kept [OF hole_others(1) [OF ht] s'(2)] mt by (simp add: kept_def)
  moreover have "tally s' = join_tally n (tally s)"
    using s'(2) size by (simp add: head_change_def beside_def tally_def join_tally_def t_def size_constants)
  moreover have "\<forall>h\<in>heads ?O. get F_size s' h = get F_size s h"
    using s'(2) core_get [OF core] unfolding head_change_def by metis
  moreover have "\<forall>x. a \<le> unat x \<and> unat x < e \<longrightarrow> mem s' x = mem s x"
    using head_change_hole [OF ht s'(2)] mt by simp
  ultimately have "takes_neighbour ?O n a e s s'" by (simp add: takes_neighbour_def)
  moreover have "merge_neighbour x s = Inr s'" using s'(1) by (simp add: merge_neighbour_def t_def)
  ultimately show ?thesis using that s'(3,4) by blast
qed

lemma hole_widen_left:
  assumes h: "hole g s (us @ [(l, n)]) a e vs fs ms" and l: "l \<notin> set fs"
  shows "hole g s us (unat l) e vs fs ms" "a = unat l + n" "48 \<le> n" "g dvd n"
proof -
  obtain mid where m: "mid \<noteq> []" "contiguous a mid e" "heap_area g s ((us @ [(l, n)]) @ mid @ vs)"
    using h by (auto simp: hole_def)
  have b: "(l, n) \<in> set ((us @ [(l, n)]) @ mid @ vs)" by simp
  obtain p :: addr where p: "contiguous (unat (sbrk_head s)) ((us @ [(l, n)]) @ mid @ vs) (unat p)"
    using m(3) heap_area_bounds(1) [OF m(3) b] by (auto simp: heap_area_def)
  show n: "48 \<le> n" "g dvd n" using heap_area_bounds(3,7) [OF m(3) b] by auto
  show a: "a = unat l + n" using p m(1,2) by (cases mid) (auto simp: contiguous_append)
  have "contiguous (unat l) ((l, n) # mid) e" using m(2) a n(1) by simp
  moreover have "heap_area g s (us @ ((l, n) # mid) @ vs)" using m(3) by simp
  moreover have "set fs \<subseteq> heads (set us \<union> set vs)" using hole_D(5) [OF h] l by auto
  moreover have "tails_ok s (set us \<union> set vs \<union> set ms)" using hole_D(2) [OF h] by (auto simp: tails_ok_def)
  ultimately show "hole g s us (unat l) e vs fs ms"
    using hole_D(1,3,4) [OF h] unfolding hole_def by blast
qed

section \<open>The two steps\<close>

lemma heads_mono: "A \<subseteq> B \<Longrightarrow> heads A \<subseteq> heads B"
  by (auto simp: heads_def)

lemma flags_ok_subset: "flags_ok s B fs \<Longrightarrow> A \<subseteq> B \<Longrightarrow> flags_ok s A fs"
  unfolding flags_ok_def heads_def by blast

lemma flags_ok_iff: "flags_ok s B fs \<Longrightarrow> h \<in> heads B \<Longrightarrow> get F_is_free s h \<noteq> 0 \<longleftrightarrow> h \<in> set fs"
  by (simp add: flags_ok_def)

lemma unat_less_meta:
  assumes "48 \<le> n" "n \<le> 140737488355328"
  shows "unat (of_nat n - 48 :: 64 word) = n - 48"
  using unat_minus_64 [of 48 "of_nat n"] unat_of_nat_47 [OF assms(2)] assms(1) by simp

lemma memmove_data:
  assumes "i < unat n"
  shows "memmove m dst src n (dst + of_nat i) = m (src + of_nat i)"
proof -
  have "i < 18446744073709551616" using assms unat_bound64 [of n] by linarith
  then have "(of_nat i :: 64 word) < n" using assms by (simp add: word_less_nat_alt unat_of_nat_64)
  then show ?thesis by (simp add: memmove_def)
qed

lemma hole_not_free:
  assumes "hole g s us a e vs fs ms"
  shows "distinct fs" "x \<notin> set (remove1 x fs)"
proof -
  show "distinct fs" using hole_D(4) [OF assms] by (simp add: free_list_def)
  then show "x \<notin> set (remove1 x fs)" by simp
qed

lemma merge_left_taken:
  assumes h: "hole g s (us @ [(l, nl)]) (unat h) e vs fs ms"
    and fl: "flags_ok s (set (us @ [(l, nl)]) \<union> set vs \<union> set ms) fs" and l: "l \<in> set fs"
    and n: "get F_size s h = of_nat n" "48 \<le> n" "unat h + n \<le> e"
  obtains s' where "merge_left_step h copy l sz s = Inr (l, sz + of_nat nl, s')"
    "hole g s' us (unat l) e vs (remove1 l fs) ms" "flags_ok s' (set us \<union> set vs \<union> set ms) (remove1 l fs)"
    "tally s' = join_tally nl (tally s)" "kept (set us \<union> set vs \<union> set ms) s s'"
    "\<forall>x\<in>heads (set us \<union> set vs \<union> set ms). get F_size s' x = get F_size s x"
    "copy \<Longrightarrow> \<forall>i < n - 48. mem s' (l + 32 + of_nat i) = mem s (h + 32 + of_nat i)"
proof -
  let ?O = "set us \<union> set vs \<union> set ms" and ?A = "set (us @ [(l, nl)]) \<union> set vs \<union> set ms"
  have O: "?O \<subseteq> ?A" by auto
  have ln: "(l, nl) \<in> set (us @ [(l, nl)]) \<union> set vs" by simp
  obtain t where t: "merge_neighbour l s = Inr t" "hole g t (us @ [(l, nl)]) (unat h) e vs (remove1 l fs) ms"
    "flags_ok t ?A (remove1 l fs)" "takes_neighbour ?A nl (unat h) e s t"
    by (rule merge_neighbour_spec [OF h fl l ln])
  note W = hole_widen_left [OF t(2) hole_not_free(2) [OF h]]
  have off: "get F_is_free s l \<noteq> 0" "get F_size s l = of_nat nl" "l \<noteq> 0"
    using fl l tails_ok_size [OF hole_D(2) [OF h], of l nl] blocks_ok_D(4) [OF hole_others(1) [OF h], of l nl]
    by (auto simp: flags_ok_def)
  have tk: "kept ?A s t" "tally t = join_tally nl (tally s)" "\<forall>x\<in>heads ?A. get F_size t x = get F_size s x"
    "\<forall>x. unat h \<le> unat x \<and> unat x < e \<longrightarrow> mem t x = mem s x"
    using t(4) by (simp_all add: takes_neighbour_def)
  have e: "e \<le> 140737488355328" by (rule hole_others(6) [OF h])
  have size: "get F_size t h = of_nat n"
  proof -
    have "get F_size t h = get F_size s h"
      using n(2,3) e by (intro block_frame(1) [of n]) (auto simp: metadata_def intro!: tk(4) [rule_format])
    then show ?thesis using n(1) by simp
  qed
  have len: "unat (of_nat n - 48 :: 64 word) = n - 48"
    using n e by (intro unat_less_meta) linarith+
  define m where "m = (if copy then memmove (mem t) (l + 32) (h + 32) (of_nat n - 48) else mem t)"
  have l32: "unat (l + 32) = unat l + 32" using W(2) n e by (simp add: unat_plus_64)
  have h32: "unat (h + 32) = unat h + 32" using n e by (simp add: unat_plus_64)
  have out: "\<forall>x. \<not> (unat l \<le> unat x \<and> unat x < e) \<longrightarrow> mem (t\<lparr>mem := m\<rparr>) x = mem t x"
    using W(2) n l32 len e by (auto simp: m_def memmove_in_span span_def)
  note hw = hole_write [OF W(1) out]
  have "merge_left_step h copy l sz s = Inr (l, sz + of_nat nl, t\<lparr>mem := m\<rparr>)"
    using off t(1) size by (simp add: merge_left_step_def m_def size_constants Let_def)
  moreover have "hole g (t\<lparr>mem := m\<rparr>) us (unat l) e vs (remove1 l fs) ms" using hw(1) by simp
  moreover have "flags_ok (t\<lparr>mem := m\<rparr>) ?O (remove1 l fs)"
    using flags_ok_subset [OF t(3) O] hw(2) by (simp add: flags_ok_def)
  moreover have "tally (t\<lparr>mem := m\<rparr>) = join_tally nl (tally s)" using tk(2) by (simp add: tally_def)
  moreover have "kept ?O s (t\<lparr>mem := m\<rparr>)"
    using kept_trans [OF kept_subset [OF tk(1) O]] hw(3) by simp
  moreover have "\<forall>x\<in>heads ?O. get F_size (t\<lparr>mem := m\<rparr>) x = get F_size s x"
    using tk(3) hw(2) by simp
  moreover have "\<forall>i < n - 48. mem (t\<lparr>mem := m\<rparr>) (l + 32 + of_nat i) = mem s (h + 32 + of_nat i)" if copy
  proof (intro allI impI)
    fix i assume i: "i < n - 48"
    have "unat (of_nat i :: 64 word) = i" using i n e by (intro unat_of_nat_64) linarith
    then have "unat (h + 32 + of_nat i) = unat h + 32 + i" using h32 i n e by (simp add: unat_plus_64)
    then have "mem t (h + 32 + of_nat i) = mem s (h + 32 + of_nat i)" using i n by (intro tk(4) [rule_format]) auto
    then show "mem (t\<lparr>mem := m\<rparr>) (l + 32 + of_nat i) = mem s (h + 32 + of_nat i)"
      using that i len memmove_data [of i "of_nat n - 48"] by (simp add: m_def)
  qed
  ultimately show ?thesis using that by blast
qed

lemma merge_left_skipped:
  assumes "l = 0 \<or> get F_is_free s l = 0"
  shows "merge_left_step h copy l sz s = Inr (h, sz, s)"
  using assms by (auto simp: merge_left_step_def)

lemma merge_right_skipped:
  assumes "r = 0 \<or> get F_is_free s r = 0"
  shows "merge_right_step r sz s = Inr (sz, s)"
  using assms by (auto simp: merge_right_step_def)

lemma merge_right_taken:
  assumes h: "hole g s us a e ((r, nr) # vs) fs ms"
    and fl: "flags_ok s (set us \<union> set ((r, nr) # vs) \<union> set ms) fs" and r: "r \<in> set fs"
  obtains s' where "merge_right_step r sz s = Inr (sz + of_nat nr, s')"
    "hole g s' us a (e + nr) vs (remove1 r fs) ms" "flags_ok s' (set us \<union> set vs \<union> set ms) (remove1 r fs)"
    "tally s' = join_tally nr (tally s)" "kept (set us \<union> set vs \<union> set ms) s s'"
    "\<forall>x\<in>heads (set us \<union> set vs \<union> set ms). get F_size s' x = get F_size s x"
    "\<forall>x. a \<le> unat x \<and> unat x < e \<longrightarrow> mem s' x = mem s x"
proof -
  let ?O = "set us \<union> set vs \<union> set ms" and ?A = "set us \<union> set ((r, nr) # vs) \<union> set ms"
  have O: "?O \<subseteq> ?A" by auto
  have rn: "(r, nr) \<in> set us \<union> set ((r, nr) # vs)" by simp
  obtain t where t: "merge_neighbour r s = Inr t" "hole g t us a e ((r, nr) # vs) (remove1 r fs) ms"
    "flags_ok t ?A (remove1 r fs)" "takes_neighbour ?A nr a e s t"
    by (rule merge_neighbour_spec [OF h fl r rn])
  note W = hole_widen [OF t(2) hole_not_free(2) [OF h]]
  have off: "get F_is_free s r \<noteq> 0" "get F_size s r = of_nat nr" "r \<noteq> 0"
    using fl r tails_ok_size [OF hole_D(2) [OF h], of r nr] blocks_ok_D(4) [OF hole_others(1) [OF h], of r nr]
    by (auto simp: flags_ok_def)
  have "merge_right_step r sz s = Inr (sz + of_nat nr, t)"
    using off t(1) by (simp add: merge_right_step_def Let_def)
  then show ?thesis
    using that W(1) flags_ok_subset [OF t(3) O] t(4) kept_subset [OF _ O] by (simp add: takes_neighbour_def)
qed

section \<open>Writing the merged block\<close>

lemma merge_close:
  assumes h: "hole g s us (unat l) (unat l + m) vs fs ms" and m: "48 \<le> m" "g dvd m"
    and fl: "flags_ok s (set us \<union> set vs \<union> set ms) fs" and so: "sorted_wrt (precedes s) fs"
  obtains s' where "init_sbrk_alloc_block sb l (of_nat m) False s = Inr (l, s')"
    "heap_inv g s' (us @ (l, m) # vs) fs ms" "kept (insert (l, m) (set us \<union> set vs \<union> set ms)) s s'"
    "tally s' = tally s"
proof -
  let ?O = "set us \<union> set vs \<union> set ms"
  have bd: "unat l + m \<le> 140737488355328" by (rule hole_others(6) [OF h])
  from init_alloc_spec [OF m(1) bd hole_D(6) [OF h]] obtain s'
    where s': "init_sbrk_alloc_block sb l (of_nat m) False s = Inr (l, s')" "writes_block l m s s'"
      "get F_is_free s' l = 0" by blast
  note w = writes_block_D [OF s'(2) hole_D(3) [OF h]]
  have out: "\<forall>x. \<not> (unat l \<le> unat x \<and> unat x < unat l + m) \<longrightarrow> mem s' x = mem s x"
    using m(1) by (auto simp: metadata_def intro!: w(5))
  note hw = hole_write [OF h out w(1-3)]
  have "heap_shape g s' (us @ [(l, m)] @ vs) fs ms"
    using m w(4) by (intro hole_close [OF hw(1)]) simp_all
  moreover have "flags_ok s' (set (us @ [(l, m)] @ vs) \<union> set ms) fs"
  proof -
    have "l \<notin> set fs" 
    proof
      assume "l \<in> set fs"
      then obtain k where "(l, k) \<in> ?O" using hole_D(5) [OF h] by (auto simp: heads_iff subset_iff)
      then show False
        using hole_others(2) [OF h] blocks_ok_D(2) [OF hole_others(1) [OF h]] m(1) by fastforce
    qed
    then show ?thesis using fl hw(2) s'(3) by (auto simp: flags_ok_def)
  qed
  moreover have "sorted_wrt (precedes s') fs"
    using hole_D(5) [OF h] hw(2) by (intro sorted_precedes_cong [OF so]) auto
  moreover have "kept (insert (l, m) ?O) s s'"
  proof -
    have "mem s' x = mem s x" if "x \<in> payload l m" for x
      using that by (intro w(5)) (auto simp: payload_def metadata_def)
    then show ?thesis using hw(3) by (auto simp: kept_def)
  qed
  moreover have "tally s' = tally s" using w(1) by (simp add: beside_def tally_def)
  ultimately show ?thesis using that s'(1) by (simp add: heap_inv_def)
qed

section \<open>The merge\<close>

definition left_free :: "bool \<Rightarrow> (addr \<times> nat) list \<Rightarrow> addr list \<Rightarrow> bool" where
  "left_free ml us fs \<longleftrightarrow> ml \<and> us \<noteq> [] \<and> fst (last us) \<in> set fs"

definition right_free :: "bool \<Rightarrow> (addr \<times> nat) list \<Rightarrow> addr list \<Rightarrow> bool" where
  "right_free mr vs fs \<longleftrightarrow> mr \<and> vs \<noteq> [] \<and> fst (hd vs) \<in> set fs"

definition drop_left :: "bool \<Rightarrow> (addr \<times> nat) list \<Rightarrow> (addr \<times> nat) list" where
  "drop_left b us = (if b then butlast us else us)"

definition drop_right :: "bool \<Rightarrow> (addr \<times> nat) list \<Rightarrow> (addr \<times> nat) list" where
  "drop_right b vs = (if b then tl vs else vs)"

definition take_off :: "bool \<Rightarrow> addr \<times> nat \<Rightarrow> addr list \<Rightarrow> addr list" where
  "take_off b x fs = (if b then remove1 (fst x) fs else fs)"

definition grown :: "bool \<Rightarrow> addr \<times> nat \<Rightarrow> nat \<Rightarrow> nat" where
  "grown b x n = (if b then n + snd x else n)"

definition joined_tally :: "bool \<Rightarrow> addr \<times> nat \<Rightarrow> size_t \<times> size_t \<times> size_t \<times> size_t \<Rightarrow> size_t \<times> size_t \<times> size_t \<times> size_t" where
  "joined_tally b x t = (if b then join_tally (snd x) t else t)"

definition start_at :: "bool \<Rightarrow> addr \<times> nat \<Rightarrow> addr \<Rightarrow> addr" where
  "start_at b x h = (if b then fst x else h)"

lemmas merge_choice_defs = left_free_def right_free_def drop_left_def drop_right_def take_off_def grown_def
  joined_tally_def start_at_def

definition moved :: "nat \<Rightarrow> addr \<Rightarrow> addr \<Rightarrow> heap \<Rightarrow> heap \<Rightarrow> bool" where
  "moved k src dst s s' \<longleftrightarrow> (\<forall>i < k. mem s' (dst + 32 + of_nat i) = mem s (src + 32 + of_nat i))"

lemma left_phase:
  assumes h: "hole g s us (unat h) (unat h + n) vs fs ms"
    and fl: "flags_ok s (set us \<union> set vs \<union> set ms) fs"
    and n: "get F_size s h = of_nat n" "48 \<le> n" "g dvd n"
    and b: "b = left_free ml us fs"
  obtains s' where
    "merge_left_step h copy (if ml \<and> us \<noteq> [] then fst (last us) else 0) (of_nat n) s
       = Inr (start_at b (last us) h, of_nat (grown b (last us) n), s')"
    "hole g s' (drop_left b us) (unat (start_at b (last us) h))
       (unat (start_at b (last us) h) + grown b (last us) n) vs (take_off b (last us) fs) ms"
    "flags_ok s' (set (drop_left b us) \<union> set vs \<union> set ms) (take_off b (last us) fs)"
    "tally s' = joined_tally b (last us) (tally s)" "kept (set (drop_left b us) \<union> set vs \<union> set ms) s s'"
    "\<forall>x\<in>heads (set (drop_left b us) \<union> set vs \<union> set ms). get F_size s' x = get F_size s x"
    "copy \<or> \<not> b \<Longrightarrow> moved (n - 48) h (start_at b (last us) h) s s'" "g dvd grown b (last us) n"
proof (cases b)
  case False
  have "us \<noteq> [] \<Longrightarrow> fst (last us) \<in> heads (set us \<union> set vs \<union> set ms)"
    using last_in_set [of us] by (metis heads_I prod.collapse UnI1)
  then have "(if ml \<and> us \<noteq> [] then fst (last us) else 0) = 0
      \<or> get F_is_free s (if ml \<and> us \<noteq> [] then fst (last us) else 0) = 0"
    using False b fl by (auto simp: left_free_def flags_ok_def)
  from merge_left_skipped [OF this] show ?thesis
    using that [of s] False h fl n by (simp add: merge_choice_defs moved_def)
next
  case True
  then have us: "ml" "us = butlast us @ [(fst (last us), snd (last us))]" "fst (last us) \<in> set fs"
    using b by (auto simp: left_free_def)
  obtain l nl where l: "last us = (l, nl)" by fastforce
  have e: "unat h + n \<le> unat h + n" by simp
  have h': "hole g s (butlast us @ [(l, nl)]) (unat h) (unat h + n) vs fs ms"
    and fl': "flags_ok s (set (butlast us @ [(l, nl)]) \<union> set vs \<union> set ms) fs" and l': "l \<in> set fs"
    using h fl us l by auto
  have ne: "us \<noteq> []" using True b by (simp add: left_free_def)
  show ?thesis
  proof (rule merge_left_taken [OF h' fl' l' n(1,2) e, of copy "of_nat n"])
    fix s'
    assume s': "merge_left_step h copy l (of_nat n) s = Inr (l, of_nat n + of_nat nl, s')"
      "hole g s' (butlast us) (unat l) (unat h + n) vs (remove1 l fs) ms"
      "flags_ok s' (set (butlast us) \<union> set vs \<union> set ms) (remove1 l fs)"
      "tally s' = join_tally nl (tally s)" "kept (set (butlast us) \<union> set vs \<union> set ms) s s'"
      "\<forall>x\<in>heads (set (butlast us) \<union> set vs \<union> set ms). get F_size s' x = get F_size s x"
      and data: "copy \<Longrightarrow> \<forall>i < n - 48. mem s' (l + 32 + of_nat i) = mem s (h + 32 + of_nat i)"
    obtain mid where m: "mid \<noteq> []" "contiguous (unat h) mid (unat h + n)"
      "heap_area g s ((butlast us @ [(l, nl)]) @ mid @ vs)" using h' by (auto simp: hole_def)
    have bl: "(l, nl) \<in> set ((butlast us @ [(l, nl)]) @ mid @ vs)" by simp
    obtain p :: addr where p: "contiguous (unat (sbrk_head s)) ((butlast us @ [(l, nl)]) @ mid @ vs) (unat p)"
      using m(3) heap_area_bounds(1) [OF m(3) bl] by (auto simp: heap_area_def)
    have a: "unat h = unat l + nl" using p m(1,2) by (cases mid) (auto simp: contiguous_append)
    have "g dvd nl" using heap_area_bounds(7) [OF m(3) bl] .
    then show ?thesis
      using that [of s'] s' data True us(1,3) ne l a n(3)
      by (simp add: merge_choice_defs moved_def add.commute add.left_commute)
  qed
qed

lemma right_phase:
  assumes h: "hole g s us (unat l) (unat l + n) vs fs ms"
    and fl: "flags_ok s (set us \<union> set vs \<union> set ms) fs" and n: "g dvd n"
    and b: "b = right_free mr vs fs"
  obtains s' where
    "merge_right_step (if mr \<and> vs \<noteq> [] then fst (hd vs) else 0) (of_nat n) s = Inr (of_nat (grown b (hd vs) n), s')"
    "hole g s' us (unat l) (unat l + grown b (hd vs) n) (drop_right b vs) (take_off b (hd vs) fs) ms"
    "flags_ok s' (set us \<union> set (drop_right b vs) \<union> set ms) (take_off b (hd vs) fs)"
    "tally s' = joined_tally b (hd vs) (tally s)" "kept (set us \<union> set (drop_right b vs) \<union> set ms) s s'"
    "\<forall>x\<in>heads (set us \<union> set (drop_right b vs) \<union> set ms). get F_size s' x = get F_size s x"
    "\<forall>x. unat l \<le> unat x \<and> unat x < unat l + n \<longrightarrow> mem s' x = mem s x" "g dvd grown b (hd vs) n"
proof (cases b)
  case False
  have "vs \<noteq> [] \<Longrightarrow> fst (hd vs) \<in> heads (set us \<union> set vs \<union> set ms)"
    using hd_in_set [of vs] by (metis heads_I prod.collapse UnI1 UnI2)
  then have "(if mr \<and> vs \<noteq> [] then fst (hd vs) else 0) = 0
      \<or> get F_is_free s (if mr \<and> vs \<noteq> [] then fst (hd vs) else 0) = 0"
    using False b fl by (auto simp: right_free_def flags_ok_def)
  from merge_right_skipped [OF this] show ?thesis
    using that [of s] False h fl n by (simp add: merge_choice_defs)
next
  case True
  then obtain r nr ws where vs: "vs = (r, nr) # ws" "r \<in> set fs" "mr"
    using b by (cases vs) (auto simp: right_free_def)
  have h': "hole g s us (unat l) (unat l + n) ((r, nr) # ws) fs ms"
    and fl': "flags_ok s (set us \<union> set ((r, nr) # ws) \<union> set ms) fs"
    using h fl vs by auto
  show ?thesis
  proof (rule merge_right_taken [OF h' fl' vs(2), of "of_nat n"])
    fix s'
    assume s': "merge_right_step r (of_nat n) s = Inr (of_nat n + of_nat nr, s')"
      "hole g s' us (unat l) (unat l + n + nr) ws (remove1 r fs) ms"
      "flags_ok s' (set us \<union> set ws \<union> set ms) (remove1 r fs)"
      "tally s' = join_tally nr (tally s)" "kept (set us \<union> set ws \<union> set ms) s s'"
      "\<forall>x\<in>heads (set us \<union> set ws \<union> set ms). get F_size s' x = get F_size s x"
      "\<forall>x. unat l \<le> unat x \<and> unat x < unat l + n \<longrightarrow> mem s' x = mem s x"
    obtain mid where "heap_area g s (us @ mid @ (r, nr) # ws)" using h' by (auto simp: hole_def)
    from heap_area_bounds(7) [OF this, of r nr] have "g dvd nr" by simp
    then show ?thesis
      using that [of s'] s' True vs n by (simp add: merge_choice_defs add.assoc)
  qed
qed

locale heap_ops = break_ops sb granule first_ok
  for sb :: break_fun and granule :: nat and first_ok :: "os \<Rightarrow> bool"
begin

lemma break_of_shape:
  assumes "heap_area granule s bs" "bs \<noteq> []"
  obtains p where "brk_at granule p s" "contiguous (unat (sbrk_head s)) bs (unat p)" "sb 0 s = (p, s)"
proof -
  obtain h n where b: "(h, n) \<in> set bs" using assms(2) by (cases bs) auto
  have "sbrk_head s \<noteq> 0" by (rule heap_area_bounds(1) [OF assms(1) b])
  then obtain p where "brk_at granule p s" "contiguous (unat (sbrk_head s)) bs (unat p)"
    using assms(1) by (auto simp: heap_area_def)
  then show ?thesis using that current by blast
qed

end

lemma eq_of_unat_64: "unat (x :: 64 word) = unat y \<Longrightarrow> x = y"
  by (simp add: eq_iff_unat_64)

lemma end_of_block:
  assumes "unat h + n \<le> 140737488355328"
  shows "unat (h + of_nat n :: 64 word) = unat h + n"
proof -
  have "unat (of_nat n :: 64 word) = n" using assms by (intro unat_of_nat_47) linarith
  then show ?thesis using assms by (simp add: unat_plus_64)
qed

lemma next_block:
  assumes "contiguous a (us @ (h, n) # vs) e" "e \<le> 140737488355328"
  shows "vs \<noteq> [] \<Longrightarrow> h + of_nat n = fst (hd vs)" "vs = [] \<longleftrightarrow> unat (h + of_nat n) = e" "us = [] \<longleftrightarrow> unat h = a"
proof -
  obtain i where c: "contiguous a us i" "unat h = i" "48 \<le> n" "contiguous (i + n) vs e"
    using assms(1) by (auto simp: contiguous_append)
  have e: "unat (h + of_nat n) = i + n"
    using contiguous_le [OF c(4)] c(2) assms(2) by (subst end_of_block) simp_all
  show "vs \<noteq> [] \<Longrightarrow> h + of_nat n = fst (hd vs)"
    using c(4) e by (cases vs) (auto intro!: eq_of_unat_64)
  show "vs = [] \<longleftrightarrow> unat (h + of_nat n) = e"
  proof (cases vs)
    case (Cons v ws)
    then have "i + n < e" using c(4) contiguous_le [of _ ws e] by (cases v) fastforce
    then show ?thesis using e Cons by simp
  qed (use c(4) e in simp)
  show "us = [] \<longleftrightarrow> unat h = a"
  proof (cases us)
    case (Cons v ws)
    then have "a < i" using c(1) contiguous_le [of _ ws i] by (cases v) fastforce
    then show ?thesis using c(2) Cons by simp
  qed (use c in simp)
qed

lemma left_neighbour:
  assumes sh: "heap_shape g s (us @ (h, n) # vs) fs ms"
    and c: "contiguous (unat (sbrk_head s)) (us @ (h, n) # vs) e" "e \<le> 140737488355328"
  shows "sbrk_head s \<noteq> h \<longleftrightarrow> us \<noteq> []"
    "us \<noteq> [] \<Longrightarrow> h - load64 (mem s) (h - 8) = fst (last us)"
    "us \<noteq> [] \<Longrightarrow> check_cookie (fst (last us)) s = Inr ()"
proof -
  show "sbrk_head s \<noteq> h \<longleftrightarrow> us \<noteq> []" using next_block(3) [OF c] by (auto simp: eq_iff_unat_64)
  assume ne: "us \<noteq> []"
  obtain l nl where l: "last us = (l, nl)" by fastforce
  then have us: "us = butlast us @ [(l, nl)]" using ne by (metis append_butlast_last_id)
  have c': "contiguous (unat (sbrk_head s)) (butlast us @ (l, nl) # (h, n) # vs) e" using c(1) us by (metis append.assoc append_Cons append_Nil)
  have h: "l + of_nat nl = h" using next_block(1) [OF c' c(2)] by simp
  note D = heap_shape_D [OF sh]
  have b: "(l, nl) \<in> set (us @ (h, n) # vs) \<union> set ms" using us by (metis UnI1 append.assoc append_Cons in_set_conv_decomp)
  then have "load64 (mem s) (l + of_nat nl - 8) = of_nat nl" using D(3) by (auto simp: tails_ok_def)
  then show "h - load64 (mem s) (h - 8) = fst (last us)" using h l by auto
  show "check_cookie (fst (last us)) s = Inr ()"
    using check_cookie_ok [OF D(3)] b l by (metis fst_conv heads_I)
qed

lemma right_neighbour:
  assumes sh: "heap_shape g s (us @ (h, n) # vs) fs ms"
    and c: "contiguous (unat (sbrk_head s)) (us @ (h, n) # vs) (unat p)" "unat p \<le> 140737488355328"
  shows "h + of_nat n \<noteq> p \<longleftrightarrow> vs \<noteq> []" "vs \<noteq> [] \<Longrightarrow> h + of_nat n = fst (hd vs)"
    "vs \<noteq> [] \<Longrightarrow> check_cookie (fst (hd vs)) s = Inr ()"
proof -
  show "h + of_nat n \<noteq> p \<longleftrightarrow> vs \<noteq> []" using next_block(2) [OF c] by (auto simp: eq_iff_unat_64)
  show "vs \<noteq> [] \<Longrightarrow> h + of_nat n = fst (hd vs)" using next_block(1) [OF c] .
  show "vs \<noteq> [] \<Longrightarrow> check_cookie (fst (hd vs)) s = Inr ()"
    by (rule check_cookie_ok [OF heap_shape_D(3) [OF sh]]) (cases vs, auto)
qed

lemma moved_still:
  assumes mv: "moved (n - 48) h l s s1" and j: "n \<le> j" "j \<le> m" "unat l + m \<le> 140737488355328"
    and s2: "\<forall>x. unat l \<le> unat x \<and> unat x < unat l + j \<longrightarrow> mem s2 x = mem s1 x"
    and s3: "kept (insert (l, m) B) s2 s3"
  shows "moved (n - 48) h l s s3"
proof -
  have "mem s3 (l + 32 + of_nat i) = mem s1 (l + 32 + of_nat i)" if i: "i < n - 48" for i
  proof -
    have a: "unat (l + 32 + of_nat i) = unat l + 32 + i"
      using i j by (simp add: unat_plus_64 unat_of_nat_47)
    then have "l + 32 + of_nat i \<in> payload l m" using i j by (simp add: payload_def)
    then have "mem s3 (l + 32 + of_nat i) = mem s2 (l + 32 + of_nat i)" using s3 by (simp add: kept_def)
    moreover have "mem s2 (l + 32 + of_nat i) = mem s1 (l + 32 + of_nat i)"
      using a i j by (intro s2 [rule_format]) auto
    ultimately show ?thesis by simp
  qed
  then show ?thesis using mv by (simp add: moved_def)
qed

context heap_ops
begin

lemma merge_reads:
  assumes sh: "heap_shape granule s (us @ (h, n) # vs) fs ms"
  shows "merge_sbrk_blocks sb h ml mr copy s =
    checked_bind (merge_left_step h copy (if ml \<and> us \<noteq> [] then fst (last us) else 0) (of_nat n) s)
      (\<lambda>(returned_block, sz, t).
         checked_bind (merge_right_step (if mr \<and> vs \<noteq> [] then fst (hd vs) else 0) sz t)
           (\<lambda>(sz, t). init_sbrk_alloc_block sb returned_block sz False t))"
proof -
  note D = heap_shape_D [OF sh]
  obtain p where p: "brk_at granule p s" "contiguous (unat (sbrk_head s)) (us @ (h, n) # vs) (unat p)" "sb 0 s = (p, s)"
    using break_of_shape [OF D(1)] by auto
  have pe: "unat p \<le> 140737488355328" using p(1) by (auto simp: brk_at_def kernel_ok_def)
  note L = left_neighbour [OF sh p(2) pe] and R = right_neighbour [OF sh p(2) pe]
  have size: "get F_size s h = of_nat n" by (rule tails_ok_size [OF D(3)]) simp
  have l: "(if ml \<and> us \<noteq> [] then check_cookie (if ml \<and> us \<noteq> [] then fst (last us) else 0) s else Inr ()) = Inr ()"
    using L(3) by simp
  have ll: "(if ml \<and> sbrk_head s \<noteq> h then h - load64 (mem s) (h - 16 + 8) else 0)
      = (if ml \<and> us \<noteq> [] then fst (last us) else 0)"
    using L(1,2) by simp
  have r: "(case if mr then sb 0 s else (0, s) of (pb, t) \<Rightarrow> f pb t) = f (if mr then p else 0) s"
    for f :: "addr \<Rightarrow> heap \<Rightarrow> (addr \<times> heap) outcome"
    using p(3) by simp
  have rr: "(if mr \<and> h + of_nat n \<noteq> (if mr then p else 0) then h + of_nat n else 0)
      = (if mr \<and> vs \<noteq> [] then fst (hd vs) else 0)"
    using R(1,2) by auto
  have rc: "(if mr \<and> h + of_nat n \<noteq> (if mr then p else 0)
      then check_cookie (if mr \<and> vs \<noteq> [] then fst (hd vs) else 0) s else Inr ()) = Inr ()"
    using R(1,3) by auto
  show ?thesis
    unfolding merge_sbrk_blocks_def Let_def [of "get F_size s h"] Let_def [of "ml \<and> sbrk_head s \<noteq> h"]
      Let_def [of "if ml \<and> sbrk_head s \<noteq> h then _ else _"] ll
    using l L(1) by (simp only: checked_bind_simps r Let_def rr rc size)
qed

lemma merge_spec:
  assumes inv: "heap_inv granule s (us @ (h, n) # vs) fs ms" and h: "h \<notin> set fs"
    and lf: "lf = left_free ml us fs" and rf: "rf = right_free mr vs (take_off lf (last us) fs)"
    and l: "l = start_at lf (last us) h" and m: "m = grown rf (hd vs) (grown lf (last us) n)"
  obtains s' where "merge_sbrk_blocks sb h ml mr copy s = Inr (l, s')"
    "heap_inv granule s' (drop_left lf us @ (l, m) # drop_right rf vs)
       (take_off rf (hd vs) (take_off lf (last us) fs)) ms"
    "kept (set (drop_left lf us) \<union> set (drop_right rf vs) \<union> set ms) s s'"
    "copy \<or> \<not> lf \<Longrightarrow> moved (n - 48) h l s s'"
    "tally s' = joined_tally rf (hd vs) (joined_tally lf (last us) (tally s))"
proof -
  have sh: "heap_shape granule s (us @ (h, n) # vs) fs ms" and fl: "flags_ok s (set (us @ (h, n) # vs) \<union> set ms) fs"
    and so: "sorted_wrt (precedes s) fs"
    using inv by (simp_all add: heap_inv_def)
  note D = heap_shape_D [OF sh]
  let ?us = "drop_left lf us" and ?vs = "drop_right rf vs"
  let ?fs1 = "take_off lf (last us) fs"
  have nb: "48 \<le> n" "granule dvd n" using heap_area_bounds(3,7) [OF D(1), of h n] by simp_all
  have size: "get F_size s h = of_nat n" by (rule tails_ok_size [OF D(3)]) simp
  have h0: "hole granule s us (unat h) (unat h + n) vs fs ms"
    using sh h nb by (intro hole_open [of _ _ _ "[(h, n)]"]) simp_all
  have fl0: "flags_ok s (set us \<union> set vs \<union> set ms) fs" by (rule flags_ok_subset [OF fl]) auto
  obtain s1 where s1:
    "merge_left_step h copy (if ml \<and> us \<noteq> [] then fst (last us) else 0) (of_nat n) s
       = Inr (l, of_nat (grown lf (last us) n), s1)"
    "hole granule s1 ?us (unat l) (unat l + grown lf (last us) n) vs ?fs1 ms"
    "flags_ok s1 (set ?us \<union> set vs \<union> set ms) ?fs1"
    "tally s1 = joined_tally lf (last us) (tally s)" "kept (set ?us \<union> set vs \<union> set ms) s s1"
    "\<forall>x\<in>heads (set ?us \<union> set vs \<union> set ms). get F_size s1 x = get F_size s x"
    "copy \<or> \<not> lf \<Longrightarrow> moved (n - 48) h l s s1" "granule dvd grown lf (last us) n"
    unfolding l using left_phase [OF h0 fl0 size nb lf, of copy] by metis
  obtain s2 where s2:
    "merge_right_step (if mr \<and> vs \<noteq> [] then fst (hd vs) else 0) (of_nat (grown lf (last us) n)) s1 = Inr (of_nat m, s2)"
    "hole granule s2 ?us (unat l) (unat l + m) ?vs (take_off rf (hd vs) ?fs1) ms"
    "flags_ok s2 (set ?us \<union> set ?vs \<union> set ms) (take_off rf (hd vs) ?fs1)"
    "tally s2 = joined_tally rf (hd vs) (tally s1)" "kept (set ?us \<union> set ?vs \<union> set ms) s1 s2"
    "\<forall>x\<in>heads (set ?us \<union> set ?vs \<union> set ms). get F_size s2 x = get F_size s1 x"
    "\<forall>x. unat l \<le> unat x \<and> unat x < unat l + grown lf (last us) n \<longrightarrow> mem s2 x = mem s1 x" "granule dvd m"
    unfolding m using right_phase [OF s1(2,3,8) rf] by metis
  have sub: "set ?vs \<subseteq> set vs" by (cases vs) (auto simp: drop_right_def)
  have so2: "sorted_wrt (precedes s2) (take_off rf (hd vs) ?fs1)"
  proof -
    have "sorted_wrt (precedes s) (take_off rf (hd vs) ?fs1)"
      using so by (simp add: take_off_def sorted_wrt_remove1)
    moreover have "get F_size s2 x = get F_size s x" if "x \<in> set (take_off rf (hd vs) ?fs1)" for x
    proof -
      have x: "x \<in> heads (set ?us \<union> set ?vs)" using hole_D(5) [OF s2(2)] that by blast
      then have "x \<in> heads (set ?us \<union> set ?vs \<union> set ms)" "x \<in> heads (set ?us \<union> set vs \<union> set ms)"
        using heads_mono [OF sub] by auto
      then show ?thesis using s1(6) s2(6) by simp
    qed
    ultimately show ?thesis by (rule sorted_precedes_cong)
  qed
  have g48: "48 \<le> grown lf (last us) n" "grown lf (last us) n \<le> m" using nb by (auto simp: grown_def m)
  then have m48: "48 \<le> m" by linarith
  obtain s3 where s3: "init_sbrk_alloc_block sb l (of_nat m) False s2 = Inr (l, s3)"
    "heap_inv granule s3 (?us @ (l, m) # ?vs) (take_off rf (hd vs) ?fs1) ms"
    "kept (insert (l, m) (set ?us \<union> set ?vs \<union> set ms)) s2 s3" "tally s3 = tally s2"
    by (rule merge_close [OF s2(2) m48 s2(8,3) so2])
  have "kept (set ?us \<union> set ?vs \<union> set ms) s s3"
  proof -
    have "kept (set ?us \<union> set ?vs \<union> set ms) s s1" by (rule kept_subset [OF s1(5)]) (use sub in auto)
    moreover have "kept (set ?us \<union> set ?vs \<union> set ms) s2 s3" by (rule kept_subset [OF s3(3)]) auto
    ultimately show ?thesis using s2(5) kept_trans by blast
  qed
  moreover have "moved (n - 48) h l s s3" if "copy \<or> \<not> lf"
    by (rule moved_still [OF s1(7) [OF that] _ g48(2) hole_others(6) [OF s2(2)] s2(7) s3(3)]) (simp add: grown_def)
  moreover have "merge_sbrk_blocks sb h ml mr copy s = Inr (l, s3)"
    unfolding merge_reads [OF sh] s1(1) using s2(1) s3(1) by simp
  moreover have "tally s3 = joined_tally rf (hd vs) (joined_tally lf (last us) (tally s))"
    using s3(4) s2(4) s1(4) by simp
  ultimately show ?thesis using that s3(2) by blast
qed

end

end
