(* ===== verification/Malloc_Ops.thy ===== *)
theory Malloc_Ops
  imports Malloc_Merge
begin

text \<open>
  What allocating and freeing do to the heap as a list of blocks: best fit, growth of the last block,
  splitting and coalescing, for any \<open>_sbrk\<close> that meets the contract \<open>break_ops\<close>. The facts are proved
  once in the locale \<open>heap_ops\<close> and hold for \<open>malloc_3.cpp\<close> (\<open>h3\<close>) and for \<open>malloc_4.cpp\<close> (\<open>h4\<close>).
\<close>

section \<open>Searching the free list\<close>

definition pick :: "heap \<Rightarrow> size_t \<Rightarrow> addr \<Rightarrow> addr \<Rightarrow> addr" where
  "pick s block_size best x =
     (if block_size \<le> get F_size s x \<and> (best = 0 \<or> get F_size s x < get F_size s best) then x else best)"

definition pick_last :: "heap \<Rightarrow> addr \<Rightarrow> addr \<Rightarrow> addr \<Rightarrow> addr" where
  "pick_last s pb w x = (if x + get F_size s x = pb then x else w)"

lemma find_loop_foldl:
  assumes ok: "blocks_ok B" and t: "tails_ok s B" and xs: "chain s xs 0" "set xs \<subseteq> heads B" "length xs < n"
  shows "find_loop n s k pb (hd (xs @ [0])) best w = Inr (foldl (pick s k) best xs, foldl (pick_last s pb) w xs)"
  using xs
proof (induction xs arbitrary: n best w)
  case Nil
  then show ?case by (cases n) auto
next
  case (Cons x xs)
  obtain m where n: "n = Suc m" using Cons.prems(3) by (cases n) auto
  have x: "x \<noteq> 0" "check_cookie x s = Inr ()"
    using head_room(2) [OF ok] check_cookie_ok [OF t] Cons.prems(2) by auto
  have "find_loop m s k pb (hd (xs @ [0])) (pick s k best x) (pick_last s pb w x)
      = Inr (foldl (pick s k) (pick s k best x) xs, foldl (pick_last s pb) (pick_last s pb w x) xs)"
    using Cons.prems n by (intro Cons.IH) auto
  moreover have "get F_next s x = hd (xs @ [0])" using Cons.prems(1) by simp
  ultimately show ?case using x by (simp add: n Let_def flip: pick_def pick_last_def)
qed

lemma foldl_pick:
  assumes "\<forall>x\<in>set xs. x \<noteq> 0"
  shows "(foldl (pick s k) b xs = b \<or> foldl (pick s k) b xs \<in> set xs \<and> k \<le> get F_size s (foldl (pick s k) b xs))
    \<and> (\<forall>x\<in>set xs. k \<le> get F_size s x \<longrightarrow>
         foldl (pick s k) b xs \<noteq> 0 \<and> get F_size s (foldl (pick s k) b xs) \<le> get F_size s x)
    \<and> (b \<noteq> 0 \<longrightarrow> foldl (pick s k) b xs \<noteq> 0 \<and> get F_size s (foldl (pick s k) b xs) \<le> get F_size s b)"
  using assms
proof (induction xs arbitrary: b)
  case (Cons x xs)
  have IH: "(foldl (pick s k) (pick s k b x) xs = pick s k b x
      \<or> foldl (pick s k) (pick s k b x) xs \<in> set xs \<and> k \<le> get F_size s (foldl (pick s k) (pick s k b x) xs))
    \<and> (\<forall>y\<in>set xs. k \<le> get F_size s y \<longrightarrow> foldl (pick s k) (pick s k b x) xs \<noteq> 0
         \<and> get F_size s (foldl (pick s k) (pick s k b x) xs) \<le> get F_size s y)
    \<and> (pick s k b x \<noteq> 0 \<longrightarrow> foldl (pick s k) (pick s k b x) xs \<noteq> 0
         \<and> get F_size s (foldl (pick s k) (pick s k b x) xs) \<le> get F_size s (pick s k b x))"
    using Cons.prems by (intro Cons.IH) auto
  have "k \<le> get F_size s x \<Longrightarrow> pick s k b x \<noteq> 0 \<and> get F_size s (pick s k b x) \<le> get F_size s x"
    "b \<noteq> 0 \<Longrightarrow> pick s k b x \<noteq> 0 \<and> get F_size s (pick s k b x) \<le> get F_size s b"
    "pick s k b x = b \<or> pick s k b x = x \<and> k \<le> get F_size s x"
    using Cons.prems by (auto simp: pick_def)
  then show ?case using IH by (auto intro: order_trans)
qed simp

lemma foldl_pick_last:
  assumes "\<forall>x\<in>set xs. x \<noteq> 0"
  shows "foldl (pick_last s pb) 0 xs = 0 \<and> (\<forall>x\<in>set xs. x + get F_size s x \<noteq> pb)
    \<or> foldl (pick_last s pb) 0 xs \<in> set xs
       \<and> foldl (pick_last s pb) 0 xs + get F_size s (foldl (pick_last s pb) 0 xs) = pb"
  using assms by (induction xs rule: rev_induct) (auto simp: pick_last_def)

section \<open>Growing the last block\<close>

lemma tails_ok_insert: "tails_ok s (insert b B) \<longleftrightarrow> tails_ok s {b} \<and> tails_ok s B"
  by (simp add: tails_ok_def)

lemma grow_shape:
  assumes sh: "heap_shape g s (us @ [(h, n)]) fs ms" and k: "n < k" "g dvd k"
    and ar: "heap_area g s' (us @ [(h, k)])" "same_maps (kernel_of s) (kernel_of s')"
    and w: "\<forall>x. \<not> (unat h \<le> unat x \<and> unat x < unat h + k) \<longrightarrow> mem s' x = mem s x"
      "sbrk_free_head s' = sbrk_free_head s" "coin s' = coin s" "tails_ok s' {(h, k)}"
      "get F_next s' h = get F_next s h" "get F_prev s' h = get F_prev s h"
  shows "heap_shape g s' (us @ [(h, k)]) fs ms"
    "\<And>x f. x \<in> heads (set us \<union> set ms) \<Longrightarrow> get f s' x = get f s x" "kept (set us \<union> set ms) s s'"
proof -
  note D = heap_shape_D [OF sh]
  have mp: "mapped (kernel_of s') ms" using D(2) ar(2) by (simp add: mapped_def same_maps_def)
  have ok: "blocks_ok (set us \<union> set ms)" by (rule blocks_ok_subset [OF heap_shape_blocks_ok [OF sh]]) auto
  have k48: "48 \<le> k" using heap_area_bounds(3) [OF ar(1), of h k] by simp
  have off: "unat x + m \<le> unat h \<or> unat h + k \<le> unat x" if "(x, m) \<in> set us \<union> set ms" for x m
    using other_blocks_apart [of g s' us "[(h, k)]" "[]" ms "unat h" "unat h + k" x m] ar(1) mp that k48 by simp
  note F = frame_others [OF ok off w(1)]
  show get: "\<And>x f. x \<in> heads (set us \<union> set ms) \<Longrightarrow> get f s' x = get f s x" by (rule F(1))
  show "kept (set us \<union> set ms) s s'" by (rule F(2))
  have "tails_ok s (set us \<union> set ms)" 
    using D(3) by (simp add: tails_ok_Un tails_ok_insert [of s "(h, n)" "set us \<union> set ms"])
  then have "tails_ok s' (set us \<union> set ms)"
    using w(3) by (intro F(3)) (simp_all add: coin_def)
  then have "tails_ok s' (set (us @ [(h, k)]) \<union> set ms)" 
    using w(4) by (simp add: tails_ok_Un tails_ok_insert [of s' "(h, k)" "set us \<union> set ms"])
  moreover have "free_list s' fs"
  proof -
    have "set (tl fs) \<subseteq> set fs" by (cases fs) auto
    moreover have "get F_next s' x = get F_next s x \<and> get F_prev s' x = get F_prev s x" if "x \<in> set fs" for x
      using that D(7) get w(5,6) by auto
    ultimately have "chain s' fs 0 = chain s fs 0" by (intro chain_cong) auto
    then show ?thesis using D(6) w(2) by (simp add: free_list_def)
  qed
  ultimately show "heap_shape g s' (us @ [(h, k)]) fs ms"
    using ar(1) mp D(4,5,7) drawable_coin [OF w(3)] w(3) by (intro heap_shape_I) (auto simp: coin_def)
qed

lemma append_shape:
  assumes sh: "heap_shape g s bs fs ms"
    and ar: "heap_area g s' (bs @ [(h, k)])" "same_maps (kernel_of s) (kernel_of s')"
    and w: "\<forall>x. \<not> (unat h \<le> unat x \<and> unat x < unat h + k) \<longrightarrow> mem s' x = mem s x"
      "sbrk_free_head s' = sbrk_free_head s" "keeps_coin s s'" "tails_ok s' {(h, k)}"
  shows "heap_shape g s' (bs @ [(h, k)]) fs ms"
    "\<And>x f. x \<in> heads (set bs \<union> set ms) \<Longrightarrow> get f s' x = get f s x" "kept (set bs \<union> set ms) s s'"
proof -
  note D = heap_shape_D [OF sh]
  have mp: "mapped (kernel_of s') ms" using D(2) ar(2) by (simp add: mapped_def same_maps_def)
  have k48: "48 \<le> k" using heap_area_bounds(3) [OF ar(1), of h k] by simp
  have off: "unat x + m \<le> unat h \<or> unat h + k \<le> unat x" if "(x, m) \<in> set bs \<union> set ms" for x m
    using other_blocks_apart [of g s' bs "[(h, k)]" "[]" ms "unat h" "unat h + k" x m] ar(1) mp that k48 by simp
  note F = frame_others [OF heap_shape_blocks_ok [OF sh] off w(1)]
  show get: "\<And>x f. x \<in> heads (set bs \<union> set ms) \<Longrightarrow> get f s' x = get f s x" by (rule F(1))
  show "kept (set bs \<union> set ms) s s'" by (rule F(2))
  have "tails_ok s' (set bs \<union> set ms)"
  proof (cases "bs \<noteq> [] \<or> ms \<noteq> []")
    case True
    then have "global_rand_cookie s' = global_rand_cookie s"
      using D(4) w(3) by (auto simp: keeps_coin_def coin_def)
    then show ?thesis by (intro F(3) D(3))
  qed (simp add: tails_ok_def)
  then have "tails_ok s' (set (bs @ [(h, k)]) \<union> set ms)"
    using w(4) by (simp add: tails_ok_Un tails_ok_insert [of s' "(h, k)" "set bs \<union> set ms"])
  moreover have "free_list s' fs = free_list s fs"
    using D(7) by (intro free_list_cong [OF w(2)] get) auto
  moreover have "global_rand_cookie s' \<noteq> 0" using w(3) by (simp add: keeps_coin_def)
  ultimately show "heap_shape g s' (bs @ [(h, k)]) fs ms"
    using ar(1) mp D(6,7) by (intro heap_shape_I) (auto simp: drawable_def)
qed

lemma same_memory:
  assumes "mem s' = mem s" "coin s' = coin s" "sbrk_free_head s' = sbrk_free_head s"
  shows "tails_ok s' B = tails_ok s B" "free_list s' fs = free_list s fs" "flags_ok s' B fs = flags_ok s B fs"
    "precedes s' = precedes s" "drawable s' = drawable s"
proof -
  have g: "get f s' h = get f s h" for f h using assms(1) by (rule get_cong)
  show "tails_ok s' B = tails_ok s B" using assms(2) by (simp add: tails_ok_def g assms(1) coin_def)
  show "free_list s' fs = free_list s fs" by (rule free_list_cong [OF assms(3) g])
  show "flags_ok s' B fs = flags_ok s B fs" by (simp add: flags_ok_def g)
  show "precedes s' = precedes s" by (simp add: precedes_def g fun_eq_iff)
  show "drawable s' = drawable s" by (rule drawable_coin [OF assms(2)])
qed

lemma shape_refused:
  assumes sh: "heap_shape g s bs fs ms" and k: "same_maps (kernel_of s) kk" "brk_at g p s" "brk_at g p (s\<lparr>kernel_of := kk\<rparr>)"
  shows "heap_shape g (s\<lparr>kernel_of := kk\<rparr>) bs fs ms"
proof -
  note D = heap_shape_D [OF sh]
  have nz: "sbrk_head s \<noteq> 0"
  proof
    assume "sbrk_head s = 0"
    then have "program_break s = None" using D(1) by (simp add: heap_area_def)
    then show False using k(2) by (simp add: brk_at_def)
  qed
  then have "contiguous (unat (sbrk_head s)) bs (unat p)"
    using D(1) k(2) by (auto simp: heap_area_def brk_at_def)
  then have "heap_area g (s\<lparr>kernel_of := kk\<rparr>) bs"
    using D(1) nz k by (auto simp: heap_area_def same_maps_def brk_at_def)
  moreover have "mapped kk ms" using D(2) k(1) by (simp add: mapped_def same_maps_def)
  moreover have "coin (s\<lparr>kernel_of := kk\<rparr>) = coin s" by (simp add: coin_def)
  ultimately show ?thesis
    using D(3-7) same_memory [of "s\<lparr>kernel_of := kk\<rparr>" s] by (intro heap_shape_I) simp_all
qed

context heap_ops
begin

lemma grown_block:
  assumes sh: "heap_shape granule s (us @ [(h, n)]) fs ms" and k: "n < k" "granule dvd k"
    and hk: "unat h + k \<le> 140737488355328" "48 \<le> k"
    and t: "t = s\<lparr>kernel_of := kk, program_break := b\<rparr>" "heap_area granule t (us @ [(h, k)])" "same_maps (kernel_of s) kk"
  obtains s' where "set_tail h (put F_size h (of_nat k) t) = Inr s'" "heap_shape granule s' (us @ [(h, k)]) fs ms"
    "tally s' = tally s" "\<And>x f. x \<in> heads (set us \<union> set ms) \<Longrightarrow> get f s' x = get f s x"
    "get F_is_free s' h = get F_is_free s h" "kept (insert (h, n) (set us \<union> set ms)) s s'" "kernel_of s' = kk"
proof -
  note D = heap_shape_D [OF sh]
  have r: "unat h + 32 \<le> 18446744073709551616" using hk by linarith
  let ?u = "put F_size h (of_nat k) t"
  have "drawable ?u" using D(5) by (simp add: drawable_def t(1))
  moreover have "get F_size ?u h = of_nat k" by (simp add: get_put [OF r r])
  ultimately obtain s' where s': "set_tail h ?u = Inr s'" "writes_block h k ?u s'" "\<forall>f. get f s' h = get f ?u h"
    using set_tail_spec [OF hk(2,1)] by blast
  have c: "global_rand_cookie ?u \<noteq> 0" using D(4) by (simp add: t(1))
  note w = writes_block_D [OF s'(2) c]
  have old: "get f s' h = (if f = F_size then of_nat k else get f s h)" for f
    using s'(3) by (simp add: get_put [OF r r] t(1))
  have mem': "mem s' x = mem s x" if "x \<notin> metadata h k" for x
    using w(5) [OF that] put_metadata [OF hk that] by (simp add: t(1))
  have ar: "heap_area granule s' (us @ [(h, k)])"
    using t(2) heap_area_cong [of s' ?u] heap_area_cong [of ?u t] beside_fields(1-3) [OF w(1)] by simp
  have km: "same_maps (kernel_of s) (kernel_of s')" using beside_fields(1) [OF w(1)] t(1,3) by simp
  have out: "\<forall>x. \<not> (unat h \<le> unat x \<and> unat x < unat h + k) \<longrightarrow> mem s' x = mem s x"
    using hk(2) by (auto simp: metadata_def intro!: mem')
  have co: "sbrk_free_head s' = sbrk_free_head s" "coin s' = coin s"
    using w(2,3) by (simp_all add: coin_def t(1))
  have ln: "get F_next s' h = get F_next s h" "get F_prev s' h = get F_prev s h" using old by simp_all
  note G = grow_shape [OF sh k ar km out co w(4) ln]
  have "mem s' x = mem s x" if "x \<in> payload h n" for x
    using that k(1) by (intro mem') (auto simp: payload_def metadata_def)
  then have "kept (insert (h, n) (set us \<union> set ms)) s s'" using G(3) by (auto simp: kept_def)
  moreover have "tally s' = tally s" using w(1) by (simp add: beside_def tally_def t(1))
  moreover have "kernel_of s' = kk" using beside_fields(1) [OF w(1)] t(1) by simp
  ultimately show ?thesis using that s'(1) G(1,2) old by simp
qed

lemma wilderness_spec:
  assumes sh: "heap_shape granule s (us @ [(h, n)]) fs ms" and k: "n < k" "granule dvd k" "k \<le> 70368744177664"
  obtains kk where "wilderness_sbrk_block_increase sb h (of_nat k) s = Inr (0, s\<lparr>kernel_of := kk\<rparr>)"
      "heap_shape granule (s\<lparr>kernel_of := kk\<rparr>) (us @ [(h, n)]) fs ms"
      "os_refusals kk = Suc (os_refusals (kernel_of s))"
  | s' where "wilderness_sbrk_block_increase sb h (of_nat k) s = Inr (h, s')"
      "heap_shape granule s' (us @ [(h, k)]) fs ms" "tally s' = tally s"
      "\<And>x f. x \<in> heads (set us \<union> set ms) \<Longrightarrow> get f s' x = get f s x"
      "get F_is_free s' h = get F_is_free s h" "kept (insert (h, n) (set us \<union> set ms)) s s'"
      "os_refusals (kernel_of s') = os_refusals (kernel_of s)"
proof -
  note D = heap_shape_D [OF sh]
  have b: "(h, n) \<in> set (us @ [(h, n)])" by simp
  note hb = heap_area_bounds [OF D(1) b]
  obtain p where p: "brk_at granule p s" "contiguous (unat (sbrk_head s)) (us @ [(h, n)]) (unat p)" "sb 0 s = (p, s)"
    by (rule break_of_shape [OF D(1)]) simp
  have pe: "unat p = unat h + n" using p(2) by (auto simp: contiguous_append)
  have pm: "p \<noteq> - 1" using pe hb(4,5) unat_minus_one_64 by auto
  define d :: addr where "d = of_nat (k - n)"
  have d: "of_nat k - get F_size s h = d" using k(1) tails_ok_size [OF D(3), of h n] by (simp add: d_def)
  have ud: "unat d = k - n" unfolding d_def using k(3) by (intro unat_of_nat_47) linarith
  have dd: "0 < unat d" "unat d \<le> 140737488355328" "granule dvd unat d"
    unfolding ud using k hb(7) by simp_all
  show ?thesis
  proof (rule grow_cases [OF p(1) dd])
    fix kk assume kk: "sb d s = (- 1, s\<lparr>kernel_of := kk\<rparr>)" "brk_at granule p (s\<lparr>kernel_of := kk\<rparr>)"
      "same_maps (kernel_of s) kk" "os_refusals kk = Suc (os_refusals (kernel_of s))"
    have "wilderness_sbrk_block_increase sb h (of_nat k) s = Inr (0, s\<lparr>kernel_of := kk\<rparr>)"
      by (simp add: wilderness_sbrk_block_increase_def d kk(1))
    then show ?thesis using that(1) shape_refused [OF sh kk(3) p(1) kk(2)] kk(4) by blast
  next
    fix kk
    let ?t = "s\<lparr>kernel_of := kk, program_break := Some (p + d)\<rparr>"
    assume kk: "sb d s = (p, ?t)" "brk_at granule (p + d) ?t" "same_maps (kernel_of s) kk"
      "unat (p + d) = unat p + unat d" "unat p + unat d \<le> 140737488355328"
      "os_refusals kk = os_refusals (kernel_of s)"
    have hk: "unat h + k \<le> 140737488355328" "48 \<le> k" using kk(5) ud pe k(1) hb(3) by linarith+
    have "contiguous (unat (sbrk_head s)) (us @ [(h, k)]) (unat (p + d))"
      using p(2) kk(4) ud pe k(1) hb(3) by (auto simp: contiguous_append)
    then have ar: "heap_area granule ?t (us @ [(h, k)])"
      using D(1) kk(2,3) k(2) hb(1) by (auto simp: heap_area_def same_maps_def brk_at_def)
    obtain s' where s': "set_tail h (put F_size h (of_nat k) ?t) = Inr s'" "heap_shape granule s' (us @ [(h, k)]) fs ms"
      "tally s' = tally s" "\<And>x f. x \<in> heads (set us \<union> set ms) \<Longrightarrow> get f s' x = get f s x"
      "get F_is_free s' h = get F_is_free s h" "kept (insert (h, n) (set us \<union> set ms)) s s'" "kernel_of s' = kk"
      by (rule grown_block [OF sh k(1,2) hk refl ar kk(3)]) blast
    have "wilderness_sbrk_block_increase sb h (of_nat k) s = Inr (h, s')"
      using pm kk(1) s'(1) by (simp add: wilderness_sbrk_block_increase_def d)
    then show ?thesis using that(2) s' kk(6) by simp
  qed
qed

lemma walk_bound_enough:
  assumes sh: "heap_shape granule s bs fs ms" and f: "fs \<noteq> []" and p: "brk_at granule p s"
  shows "length fs < walk_bound s" "contiguous (unat (sbrk_head s)) bs (unat p)"
proof -
  note D = heap_shape_D [OF sh]
  have "bs \<noteq> []" using D(7) f by (cases fs) auto
  then obtain q where "brk_at granule q s" "contiguous (unat (sbrk_head s)) bs (unat q)"
    using break_of_shape [OF D(1)] by blast
  then show c: "contiguous (unat (sbrk_head s)) bs (unat p)" using p by (simp add: brk_at_def)
  have "length fs \<le> length bs" by (rule free_list_short(1) [OF sh])
  also have "length bs \<le> unat p - unat (sbrk_head s)" using contiguous_length [OF c] by simp
  also have "\<dots> = unat (p - sbrk_head s)" using contiguous_le [OF c] by (subst unat_minus_64) simp_all
  finally show "length fs < walk_bound s" using p by (simp add: walk_bound_def brk_at_def)
qed

lemma best_of_free:
  assumes sh: "heap_shape granule s bs fs ms" and k: "k \<le> 140737488355328"
  defines "b \<equiv> foldl (pick s (of_nat k)) 0 fs"
  shows "b = 0 \<Longrightarrow> \<forall>(h, n)\<in>set bs. h \<in> set fs \<longrightarrow> n < k"
    "b \<noteq> 0 \<Longrightarrow> \<exists>n. (b, n) \<in> set bs \<and> b \<in> set fs \<and> k \<le> n
        \<and> (\<forall>(h, m)\<in>set bs. h \<in> set fs \<and> k \<le> m \<longrightarrow> n \<le> m)"
proof -
  note D = heap_shape_D [OF sh]
  have "set fs \<subseteq> heads (set bs \<union> set ms)" using D(7) by auto
  then have nz: "\<forall>x\<in>set fs. x \<noteq> 0" using head_room(2) [OF heap_shape_blocks_ok [OF sh]] by blast
  note P = foldl_pick [OF nz, of s "of_nat k" 0, folded b_def]
  have size: "get F_size s h = of_nat n" "n \<le> 140737488355328" if "(h, n) \<in> set bs" for h n
    using tails_ok_size [OF D(3), of h n] heap_area_bounds(4,5) [OF D(1) that] that by auto
  have le: "of_nat a \<le> (of_nat b :: 64 word) \<longleftrightarrow> a \<le> b" if "a \<le> 140737488355328" "b \<le> 140737488355328" for a b
    using that by (simp add: word_le_nat_alt unat_of_nat_47)
  show "\<forall>(h, n)\<in>set bs. h \<in> set fs \<longrightarrow> n < k" if "b = 0"
  proof -
    have small: "\<not> of_nat k \<le> get F_size s x" if "x \<in> set fs" for x using P that \<open>b = 0\<close> by auto
    have "n < k" if "(h, n) \<in> set bs" "h \<in> set fs" for h n
      using small [OF that(2)] size [OF that(1)] le [OF k] by simp
    then show ?thesis by blast
  qed
  show "\<exists>n. (b, n) \<in> set bs \<and> b \<in> set fs \<and> k \<le> n
        \<and> (\<forall>(h, m)\<in>set bs. h \<in> set fs \<and> k \<le> m \<longrightarrow> n \<le> m)" if "b \<noteq> 0"
  proof -
    have b: "b \<in> set fs" "of_nat k \<le> get F_size s b" using P that by auto
    obtain n where n: "(b, n) \<in> set bs" using b(1) D(7) by (auto simp: heads_iff subset_iff)
    have "k \<le> n" using b(2) size [OF n] le k by simp
    moreover have "n \<le> m" if "(h, m) \<in> set bs" "h \<in> set fs" "k \<le> m" for h m
    proof -
      have "of_nat k \<le> get F_size s h" using size [OF that(1)] that(3) le k by simp
      then have "get F_size s b \<le> get F_size s h" using P that(2) by blast
      then show ?thesis using size [OF n] size [OF that(1)] le by simp
    qed
    ultimately show ?thesis using n b(1) by blast
  qed
qed

lemma find_loop_result:
  assumes inv: "heap_inv granule s bs fs ms" and f: "fs \<noteq> []" and p: "brk_at granule p s"
    and k: "k \<le> 140737488355328"
  obtains best w where
    "find_loop (walk_bound s) s (of_nat k) p (sbrk_free_head s) 0 0 = Inr (best, w)"
    "best = 0 \<Longrightarrow> \<forall>(h, n)\<in>set bs. h \<in> set fs \<longrightarrow> n < k"
    "best \<noteq> 0 \<Longrightarrow> \<exists>n. (best, n) \<in> set bs \<and> best \<in> set fs \<and> k \<le> n
        \<and> (\<forall>(h, m)\<in>set bs. h \<in> set fs \<and> k \<le> m \<longrightarrow> n \<le> m)"
    "w \<noteq> 0 \<Longrightarrow> \<exists>us n. bs = us @ [(w, n)] \<and> w \<in> set fs"
proof -
  have sh: "heap_shape granule s bs fs ms" using inv by (simp add: heap_inv_def)
  note D = heap_shape_D [OF sh] and ok = heap_shape_blocks_ok [OF sh] and W = walk_bound_enough [OF sh f p]
  have ch: "chain s fs 0" "sbrk_free_head s = hd (fs @ [0])" "set fs \<subseteq> heads (set bs \<union> set ms)"
    using D(6,7) by (auto simp: free_list_def)
  have nz: "\<forall>x\<in>set fs. x \<noteq> 0" using head_room(2) [OF ok] ch(3) by blast
  have pe: "unat p \<le> 140737488355328" using p by (auto simp: brk_at_def kernel_ok_def)
  let ?w = "foldl (pick_last s p) 0 fs"
  have loop: "find_loop (walk_bound s) s (of_nat k) p (sbrk_free_head s) 0 0
      = Inr (foldl (pick s (of_nat k)) 0 fs, ?w)"
    using find_loop_foldl [OF ok D(3) ch(1,3) W(1)] by (simp add: ch(2))
  show ?thesis
  proof (rule that [OF loop best_of_free [OF sh k]])
    assume "?w \<noteq> 0"
    then have w: "?w \<in> set fs" "?w + get F_size s ?w = p" using foldl_pick_last [OF nz, of s p] by auto
    obtain n where n: "(?w, n) \<in> set bs" using w(1) D(7) by (auto simp: heads_iff subset_iff)
    then obtain us vs where bv: "bs = us @ (?w, n) # vs" by (meson split_list)
    have "unat (?w + of_nat n) = unat p" using w(2) tails_ok_size [OF D(3), of ?w n] n by simp
    then have "vs = []" using next_block(2) [of _ us ?w n vs "unat p"] W(2) pe bv by metis
    then show "\<exists>us n. bs = us @ [(?w, n)] \<and> ?w \<in> set fs" using bv w(1) by blast
  qed
qed

lemma grow_last_free:
  assumes inv: "heap_inv granule s (us @ [(w, n)]) fs ms" and w: "w \<in> set fs"
    and k: "n < k" "granule dvd k" "k \<le> 70368744177664"
    and t: "t = s\<lparr>free_bytes_num := free_bytes_num s + (of_nat k - get F_size s w),
      allocated_bytes_num := allocated_bytes_num s + (of_nat k - get F_size s w)\<rparr>"
  obtains (refused) s' where "wilderness_sbrk_block_increase sb w (of_nat k) t = Inr (0, s')"
      "heap_inv granule s' (us @ [(w, n)]) fs ms" "mem s' = mem s" "sbrk_head s' = sbrk_head s"
      "os_refusals (kernel_of s') = Suc (os_refusals (kernel_of s))"
  | (grown) s' where "wilderness_sbrk_block_increase sb w (of_nat k) t = Inr (w, s')"
      "heap_shape granule s' (us @ [(w, k)]) fs ms" "flags_ok s' (set (us @ [(w, k)]) \<union> set ms) fs"
      "sorted_wrt (precedes s') (remove1 w fs)" "kept (set us \<union> set ms) s s'"
      "tally s' = (case tally s of (fb, fy, ab, ay) \<Rightarrow> (fb, fy + (of_nat k - of_nat n), ab, ay + (of_nat k - of_nat n)))"
      "os_refusals (kernel_of s') = os_refusals (kernel_of s)"
proof -
  have sh: "heap_shape granule s (us @ [(w, n)]) fs ms" and fl: "flags_ok s (set (us @ [(w, n)]) \<union> set ms) fs"
    and so: "sorted_wrt (precedes s) fs" using inv by (simp_all add: heap_inv_def)
  note D = heap_shape_D [OF sh]
  have core: "core t = core s" by (simp add: core_def coin_def t)
  have sht: "heap_shape granule t (us @ [(w, n)]) fs ms" using sh core_shape [OF core] by simp
  have size: "get F_size s w = of_nat n" using tails_ok_size [OF D(3), of w n] by simp
  show ?thesis
  proof (rule wilderness_spec [OF sht k])
    fix kk assume kk: "wilderness_sbrk_block_increase sb w (of_nat k) t = Inr (0, t\<lparr>kernel_of := kk\<rparr>)"
      "heap_shape granule (t\<lparr>kernel_of := kk\<rparr>) (us @ [(w, n)]) fs ms"
      "os_refusals kk = Suc (os_refusals (kernel_of t))"
    have "heap_inv granule (t\<lparr>kernel_of := kk\<rparr>) (us @ [(w, n)]) fs ms"
      using kk(2) fl so same_memory [of "t\<lparr>kernel_of := kk\<rparr>" s] by (simp add: heap_inv_def coin_def t)
    then show ?thesis using refused [of "t\<lparr>kernel_of := kk\<rparr>"] kk(1,3) t by simp
  next
    fix s' assume s': "wilderness_sbrk_block_increase sb w (of_nat k) t = Inr (w, s')"
      "heap_shape granule s' (us @ [(w, k)]) fs ms" "tally s' = tally t"
      "\<And>x f. x \<in> heads (set us \<union> set ms) \<Longrightarrow> get f s' x = get f t x"
      "get F_is_free s' w = get F_is_free t w" "kept (insert (w, n) (set us \<union> set ms)) t s'"
      "os_refusals (kernel_of s') = os_refusals (kernel_of t)"
    have get: "get f s' x = get f s x" if "x \<in> heads (set us \<union> set ms)" for x f
      using s'(4) [OF that] core_get [OF core] by simp
    have "flags_ok s' (set (us @ [(w, k)]) \<union> set ms) fs"
      using fl get s'(5) core_get [OF core] by (auto simp: flags_ok_def)
    moreover have "sorted_wrt (precedes s') (remove1 w fs)"
    proof (rule sorted_precedes_cong [OF sorted_wrt_remove1 [OF so]])
      fix x assume "x \<in> set (remove1 w fs)"
      then have "x \<in> heads (set us \<union> set ms)" using D(6,7) by (auto simp: free_list_def set_remove1_eq)
      then show "get F_size s' x = get F_size s x" by (rule get)
    qed
    moreover have "kept (set us \<union> set ms) s s'" using s'(6) by (auto simp: kept_def t)
    moreover have "tally s' = (case tally s of (fb, fy, ab, ay) \<Rightarrow>
        (fb, fy + (of_nat k - of_nat n), ab, ay + (of_nat k - of_nat n)))"
      using s'(3) size by (simp add: tally_def t)
    ultimately show ?thesis using grown s'(1,2,7) t by simp
  qed
qed

lemma find_spec:
  assumes inv: "heap_inv granule s bs fs ms" and k: "48 \<le> k" "granule dvd k" "k \<le> 70368744177664"
  obtains (fits) h n where "find_sbrk_free_block sb (of_nat k) s = Inr (h, s)" "(h, n) \<in> set bs" "h \<in> set fs"
      "k \<le> n" "\<forall>(x, m)\<in>set bs. x \<in> set fs \<and> k \<le> m \<longrightarrow> n \<le> m"
  | (grows) us h n s' where "bs = us @ [(h, n)]" "h \<in> set fs" "\<forall>(x, m)\<in>set bs. x \<in> set fs \<longrightarrow> m < k"
      "find_sbrk_free_block sb (of_nat k) s = Inr (h, s')"
      "heap_shape granule s' (us @ [(h, k)]) fs ms" "flags_ok s' (set (us @ [(h, k)]) \<union> set ms) fs"
      "sorted_wrt (precedes s') (remove1 h fs)" "kept (set us \<union> set ms) s s'"
      "tally s' = (case tally s of (fb, fy, ab, ay) \<Rightarrow> (fb, fy + (of_nat k - of_nat n), ab, ay + (of_nat k - of_nat n)))"
      "os_refusals (kernel_of s') = os_refusals (kernel_of s)"
  | (none) s' where "find_sbrk_free_block sb (of_nat k) s = Inr (0, s')" "heap_inv granule s' bs fs ms"
      "mem s' = mem s" "\<forall>(x, m)\<in>set bs. x \<in> set fs \<longrightarrow> m < k" "sbrk_head s' = sbrk_head s"
      "tally s' = tally s \<and> os_refusals (kernel_of s') = os_refusals (kernel_of s)
        \<or> os_refusals (kernel_of s') = Suc (os_refusals (kernel_of s))"
proof (cases "fs = []")
  case True
  then have "sbrk_free_head s = 0" using inv by (simp add: heap_inv_def heap_shape_def free_list_def)
  then show ?thesis using none [of s] inv True by (simp add: find_sbrk_free_block_def)
next
  case False
  have sh: "heap_shape granule s bs fs ms" using inv by (simp add: heap_inv_def)
  note D = heap_shape_D [OF sh] and ok = heap_shape_blocks_ok [OF sh]
  have bs: "bs \<noteq> []" using D(7) False by (cases fs) auto
  obtain p where p: "brk_at granule p s" "sb 0 s = (p, s)" using break_of_shape [OF D(1) bs] by blast
  have "hd fs \<in> heads (set bs \<union> set ms)" using D(7) False by (cases fs) auto
  then have fh: "sbrk_free_head s \<noteq> 0" using D(6) False head_room(2) [OF ok] by (simp add: free_list_def)
  have k47: "k \<le> 140737488355328" using k(3) by linarith
  obtain best w where F: "find_loop (walk_bound s) s (of_nat k) p (sbrk_free_head s) 0 0 = Inr (best, w)"
    "best = 0 \<Longrightarrow> \<forall>(h, n)\<in>set bs. h \<in> set fs \<longrightarrow> n < k"
    "best \<noteq> 0 \<Longrightarrow> \<exists>n. (best, n) \<in> set bs \<and> best \<in> set fs \<and> k \<le> n
        \<and> (\<forall>(h, m)\<in>set bs. h \<in> set fs \<and> k \<le> m \<longrightarrow> n \<le> m)"
    "w \<noteq> 0 \<Longrightarrow> \<exists>us n. bs = us @ [(w, n)] \<and> w \<in> set fs"
    by (rule find_loop_result [OF inv False p(1) k47]) blast
  let ?t = "s\<lparr>free_bytes_num := free_bytes_num s + (of_nat k - get F_size s w),
    allocated_bytes_num := allocated_bytes_num s + (of_nat k - get F_size s w)\<rparr>"
  have find: "find_sbrk_free_block sb (of_nat k) s = (if best \<noteq> 0 then Inr (best, s)
      else if w \<noteq> 0 then wilderness_sbrk_block_increase sb w (of_nat k) ?t else Inr (0, s))"
    using fh F(1) p(2) by (simp add: find_sbrk_free_block_def)
  consider "best \<noteq> 0" | "best = 0" "w = 0" | "best = 0" "w \<noteq> 0" by blast
  then show ?thesis
  proof cases
    case 1
    then show ?thesis using F(3) find fits by auto
  next
    case 2
    then show ?thesis using F(2) find none [of s] inv by simp
  next
    case 3
    obtain us n where us: "bs = us @ [(w, n)]" "w \<in> set fs" using F(4) [OF 3(2)] by blast
    have small: "\<forall>(h, n)\<in>set bs. h \<in> set fs \<longrightarrow> n < k" using F(2) 3(1) by blast
    then have nk: "n < k" using us by auto
    show ?thesis
      by (rule grow_last_free [OF inv [unfolded us(1)] us(2) nk k(2,3) refl])
        (use grows none us small find 3 in simp_all)
  qed
qed

end

section \<open>Counters, live blocks, coalescing\<close>

definition live :: "(addr \<times> nat) list \<Rightarrow> addr list \<Rightarrow> (addr \<times> nat) list \<Rightarrow> blocks" where
  "live bs fs ms = {b \<in> set bs. fst b \<notin> set fs} \<union> set ms"

definition coalesced :: "addr list \<Rightarrow> (addr \<times> nat) list \<Rightarrow> bool" where
  "coalesced fs bs \<longleftrightarrow> successively (\<lambda>b c. \<not> (fst b \<in> set fs \<and> fst c \<in> set fs)) bs"

text \<open>Taking a block off the free list and splitting it, as \<open>_sbrk_malloc\<close> does with the block it finds.\<close>

definition take_block :: "break_fun \<Rightarrow> addr \<Rightarrow> size_t \<Rightarrow> heap \<Rightarrow> (addr \<times> heap) outcome" where
  "take_block sb h k s =
     checked_bind (remove_sbrk_free_block h
         (s\<lparr>free_blocks_num := free_blocks_num s - 1,
            free_bytes_num := free_bytes_num s - (get F_size s h - size_meta_data)\<rparr>))
       (\<lambda>s. checked_bind (split_block sb h k s) (\<lambda>s. Inr (h, s)))"

definition gives :: "nat \<Rightarrow> heap \<Rightarrow> (addr \<times> nat) list \<Rightarrow> addr list \<Rightarrow> (addr \<times> nat) list \<Rightarrow> nat \<Rightarrow> addr \<Rightarrow> heap \<Rightarrow> bool" where
  "gives g s bs fs ms k h s' \<longleftrightarrow> (\<exists>m bs' fs'. heap_inv g s' bs' fs' ms \<and> h \<noteq> 0
     \<and> live bs' fs' ms = insert (h, m) (live bs fs ms) \<and> h \<notin> heads (live bs fs ms) \<and> (h, m) \<in> set bs'
     \<and> k \<le> m \<and> m < k + 176 \<and> kept (live bs fs ms) s s'
     \<and> (tally s = count bs fs ms \<longrightarrow> tally s' = count bs' fs' ms)
     \<and> (coalesced fs bs \<longrightarrow> coalesced fs' bs'))"

lemma live_subset: "live bs fs ms \<subseteq> set bs \<union> set ms"
  by (auto simp: live_def)

lemma contiguous_distinct: "contiguous a bs e \<Longrightarrow> distinct (map fst bs)"
proof (induction a bs e rule: contiguous.induct)
  case (2 a h n bs e)
  have "h \<noteq> fst b" if "b \<in> set bs" for b
    using contiguous_bounds(1) [of "a + n" bs e "fst b" "snd b"] that 2(2) by auto
  then show ?case using 2 by auto
qed simp

lemma shape_distinct:
  assumes "heap_shape g s bs fs ms"
  shows "distinct (map fst bs)" "distinct fs" "heads (set bs) \<inter> heads (set ms) = {}"
proof -
  note D = heap_shape_D [OF assms]
  show "distinct (map fst bs)"
    using D(1) contiguous_distinct by (cases "sbrk_head s = 0") (auto simp: heap_area_def)
  show "distinct fs" using D(6) by (simp add: free_list_def)
  show "heads (set bs) \<inter> heads (set ms) = {}"
  proof -
    have False if "(h, n) \<in> set bs" "(h, m) \<in> set ms" for h n m
      using heap_mapped_apart [OF D(1,2) that] blocks_ok_D(2) [OF heap_shape_blocks_ok [OF assms]] that
      by (fastforce simp: apart_def)
    then show ?thesis by (auto simp: heads_iff)
  qed
qed

lemma coalesced_fewer: "coalesced fs bs \<Longrightarrow> set fs' \<subseteq> set fs \<Longrightarrow> coalesced fs' bs"
  unfolding coalesced_def by (erule successively_mono) auto

lemma coalesced_cong:
  "(\<And>b. b \<in> set bs \<Longrightarrow> fst b \<in> set fs \<longleftrightarrow> fst b \<in> set fs') \<Longrightarrow> coalesced fs bs = coalesced fs' bs"
  unfolding coalesced_def by (rule successively_cong) auto

lemma coalesced_append:
  "coalesced fs (us @ vs) \<longleftrightarrow> coalesced fs us \<and> coalesced fs vs
     \<and> (us \<noteq> [] \<and> vs \<noteq> [] \<longrightarrow> \<not> (fst (last us) \<in> set fs \<and> fst (hd vs) \<in> set fs))"
  unfolding coalesced_def by (auto simp: successively_append_iff)

lemma coalesced_Cons:
  "coalesced fs (b # vs) \<longleftrightarrow> coalesced fs vs \<and> (vs \<noteq> [] \<longrightarrow> \<not> (fst b \<in> set fs \<and> fst (hd vs) \<in> set fs))"
  unfolding coalesced_def by (auto simp: successively_Cons)

lemma filter_remove1:
  assumes "h \<notin> fst ` set xs"
  shows "bytes_in (filter (\<lambda>b. fst b \<in> set fs - {h}) xs) = bytes_in (filter (\<lambda>b. fst b \<in> set fs) xs)"
  using assms by (intro bytes_in_filter_cong) auto

lemma count_take:
  assumes "distinct (map fst (us @ (h, n) # vs))" "distinct fs" "h \<in> set fs"
  shows "count (us @ (h, n) # vs) (remove1 h fs) ms =
    (case count (us @ (h, n) # vs) fs ms of (fb, fy, ab, ay) \<Rightarrow> (fb - 1, fy - (of_nat n - 48), ab, ay))"
proof -
  have "of_nat (length fs - 1) = (of_nat (length fs) - 1 :: 64 word)"
    using assms(3) by (cases fs) auto
  moreover have "h \<notin> fst ` set us" "h \<notin> fst ` set vs" using assms(1) by auto
  ultimately show ?thesis
    using assms(2,3) filter_remove1 [of h us fs] filter_remove1 [of h vs fs]
    by (simp add: count_def length_remove1 set_remove1_eq)
qed

lemma take_live:
  assumes "distinct (map fst (us @ (h, n) # vs))" "distinct fs" "h \<in> set fs"
  shows "live (us @ (h, n) # vs) (remove1 h fs) ms = insert (h, n) (live (us @ (h, n) # vs) fs ms)"
  using assms by (auto simp: live_def set_remove1_eq)

lemma split_lists:
  fixes P h r us vs fs
  defines "fs' \<equiv> insert_free P r (remove1 h fs)"
  assumes d: "distinct (map fst (us @ (h, k) # (r, m) # vs))" "distinct fs" "h \<in> set fs"
  shows "live (us @ (h, k) # (r, m) # vs) fs' ms = insert (h, k) (live (us @ (h, n) # vs) fs ms)"
    "coalesced fs (us @ (h, n) # vs) \<Longrightarrow> coalesced fs' (us @ (h, k) # (r, m) # vs)"
proof -
  have r: "r \<notin> fst ` set us" "r \<notin> fst ` set vs" "r \<noteq> h" using d(1) by auto
  have rn: "(r, b) \<notin> set us" "(r, b) \<notin> set vs" for b using r(1,2) by (metis fst_conv image_eqI)+
  show "live (us @ (h, k) # (r, m) # vs) fs' ms = insert (h, k) (live (us @ (h, n) # vs) fs ms)"
    using d rn r(3) by (auto simp: live_def set_remove1_eq fs'_def)
  show "coalesced fs' (us @ (h, k) # (r, m) # vs)" if c: "coalesced fs (us @ (h, n) # vs)"
  proof -
    have "coalesced fs' us = coalesced (remove1 h fs) us" "coalesced fs' vs = coalesced (remove1 h fs) vs"
      using rn by (auto simp: fs'_def intro!: coalesced_cong)
    moreover have "coalesced (remove1 h fs) us" "coalesced (remove1 h fs) vs"
      using coalesced_fewer [OF c set_remove1_subset] by (auto simp: coalesced_append coalesced_Cons)
    moreover have "vs \<noteq> [] \<Longrightarrow> fst (hd vs) \<notin> set fs'"
      using c d by (cases vs) (auto simp: coalesced_append coalesced_Cons set_remove1_eq fs'_def)
    moreover have "h \<notin> set fs'" using d(1,2) by (simp add: fs'_def)
    ultimately show ?thesis by (auto simp: coalesced_append coalesced_Cons)
  qed
qed

lemma count_give:
  assumes "distinct (map fst (us @ (h, n) # vs))" "h \<notin> set fs"
  shows "count (us @ (h, n) # vs) (insert_free P h fs) ms =
    (case count (us @ (h, n) # vs) fs ms of (fb, fy, ab, ay) \<Rightarrow> (fb + 1, fy + (of_nat n - 48), ab, ay))"
proof -
  have "bytes_in (filter (\<lambda>b. fst b \<in> insert h (set fs)) xs) = bytes_in (filter (\<lambda>b. fst b \<in> set fs) xs)"
    if "xs = us \<or> xs = vs" for xs
    using that assms(1) by (intro bytes_in_filter_cong) auto
  then show ?thesis using assms(2) by (simp add: count_def)
qed

lemma count_grow:
  assumes "h \<in> set fs"
  shows "count (us @ [(h, k)]) fs ms = (case count (us @ [(h, n)]) fs ms of (fb, fy, ab, ay) \<Rightarrow>
    (fb, fy + (of_nat k - of_nat n), ab, ay + (of_nat k - of_nat n)))"
  using assms by (simp add: count_def)

lemma count_append:
  assumes "h \<notin> set fs"
  shows "count (bs @ [(h, k)]) fs ms = (case count bs fs ms of (fb, fy, ab, ay) \<Rightarrow>
    (fb, fy, ab + 1, ay + (of_nat k - 48)))"
  using assms by (simp add: count_def)

context heap_ops
begin

section \<open>Allocating\<close>

lemma fresh_last_block:
  assumes inv: "heap_inv granule s bs fs ms" and k: "48 \<le> k"
    and p: "unat p + k \<le> 140737488355328" and t: "t = s\<lparr>kernel_of := kk, program_break := b\<rparr>"
    and ar: "heap_area granule t (bs @ [(p, k)])" "same_maps (kernel_of s) kk"
  obtains s' where "init_sbrk_alloc_block sb p (of_nat k) False t = Inr (p, s')" "beside s' = beside t"
    "heap_inv granule s' (bs @ [(p, k)]) fs ms" "p \<notin> heads (set bs \<union> set ms)" "p \<notin> set fs"
    "kept (set bs \<union> set ms) s s'"
proof -
  have sh: "heap_shape granule s bs fs ms" and fl: "flags_ok s (set bs \<union> set ms) fs"
    and so: "sorted_wrt (precedes s) fs" using inv by (simp_all add: heap_inv_def)
  note D = heap_shape_D [OF sh]
  have "drawable t" using D(5) by (simp add: drawable_def t)
  from init_alloc_spec [OF k p this, of sb] obtain s' where s':
    "init_sbrk_alloc_block sb p (of_nat k) False t = Inr (p, s')" "writes_block p k t s'"
    "get F_is_free s' p = 0" by blast
  have w: "beside s' = beside t" "sbrk_free_head s' = sbrk_free_head s" "keeps_coin s s'" "tails_ok s' {(p, k)}"
    "\<And>x. x \<notin> metadata p k \<Longrightarrow> mem s' x = mem s x"
    using s'(2) by (auto simp: writes_block_def keeps_coin_def coin_def t)
  have out: "\<forall>x. \<not> (unat p \<le> unat x \<and> unat x < unat p + k) \<longrightarrow> mem s' x = mem s x"
    using k by (auto simp: metadata_def intro!: w(5))
  have ar': "heap_area granule s' (bs @ [(p, k)])"
    using ar(1) heap_area_cong [of s' t, OF beside_fields(1-3) [OF w(1)]] by simp
  have km: "same_maps (kernel_of s) (kernel_of s')" using beside_fields(1) [OF w(1)] ar(2) t by simp
  note A = append_shape [OF sh ar' km out w(2-4)]
  have new: "p \<notin> heads (set bs \<union> set ms)"
  proof
    assume "p \<in> heads (set bs \<union> set ms)"
    then obtain m where m: "(p, m) \<in> set bs \<union> set ms" by (auto simp: heads_iff)
    moreover have "48 \<le> m" using blocks_ok_D(2) [OF heap_shape_blocks_ok [OF sh] m] .
    moreover have "mapped (kernel_of s') ms" using heap_shape_D(2) [OF A(1)] .
    ultimately show False
      using other_blocks_apart [of granule s' bs "[(p, k)]" "[]" ms "unat p" "unat p + k" p m] ar' k by simp
  qed
  then have pf: "p \<notin> set fs" using D(7) by auto
  have "flags_ok s' (set (bs @ [(p, k)]) \<union> set ms) fs" using fl A(2) s'(3) pf by (auto simp: flags_ok_def)
  moreover have "sorted_wrt (precedes s') fs" using D(7) A(2) by (intro sorted_precedes_cong [OF so]) auto
  ultimately have "heap_inv granule s' (bs @ [(p, k)]) fs ms" using A(1) by (simp add: heap_inv_def)
  then show ?thesis using that s'(1) w(1) new pf A(3) by blast
qed

lemma malloc_new_spec:
  assumes inv: "heap_inv granule s bs fs ms" and nz: "sbrk_head s \<noteq> 0"
    and k: "48 \<le> k" "granule dvd k" "k \<le> 70368744177664"
  obtains (refused) s' where "sbrk_malloc_new sb (of_nat k) s = Inr (0, s')" "heap_inv granule s' bs fs ms"
      "mem s' = mem s" "os_refusals (kernel_of s') = Suc (os_refusals (kernel_of s))"
  | (fresh) h s' where "sbrk_malloc_new sb (of_nat k) s = Inr (h, s')" "h \<noteq> 0" "heap_inv granule s' (bs @ [(h, k)]) fs ms"
      "h \<notin> heads (set bs \<union> set ms)" "h \<notin> set fs" "kept (set bs \<union> set ms) s s'"
      "os_refusals (kernel_of s') = os_refusals (kernel_of s)"
      "tally s' = (case tally s of (fb, fy, ab, ay) \<Rightarrow> (fb, fy, ab + 1, ay + (of_nat k - 48)))"
proof -
  have sh: "heap_shape granule s bs fs ms" and fl: "flags_ok s (set bs \<union> set ms) fs"
    and so: "sorted_wrt (precedes s) fs" using inv by (simp_all add: heap_inv_def)
  note D = heap_shape_D [OF sh]
  obtain p where p: "brk_at granule p s" "contiguous (unat (sbrk_head s)) bs (unat p)"
    using D(1) nz by (auto simp: heap_area_def)
  have cur: "sb 0 s = (p, s)" by (rule current [OF p(1)])
  have pe: "unat p \<le> 140737488355328" "p \<noteq> 0" using p(1) by (auto simp: brk_at_def kernel_ok_def)
  have pm: "p \<noteq> - 1"
  proof
    assume "p = - 1"
    with pe(1) show False by (simp only: unat_minus_one_64)
  qed
  have uk: "unat (of_nat k :: 64 word) = k" using k(3) by (intro unat_of_nat_47) linarith
  have d: "0 < unat (of_nat k :: 64 word)" "unat (of_nat k :: 64 word) \<le> 140737488355328"
    "granule dvd unat (of_nat k :: 64 word)" unfolding uk using k by simp_all
  let ?cnt = "\<lambda>s. s\<lparr>allocated_blocks_num := allocated_blocks_num s + 1,
    allocated_bytes_num := allocated_bytes_num s + (of_nat k - size_meta_data)\<rparr>"
  have cnt: "heap_inv granule (?cnt t) = heap_inv granule t" for t
    by (intro ext core_inv) (simp add: core_def coin_def)
  show ?thesis
  proof (rule grow_cases [OF p(1) d])
    fix kk assume kk: "sb (of_nat k) s = (- 1, s\<lparr>kernel_of := kk\<rparr>)" "brk_at granule p (s\<lparr>kernel_of := kk\<rparr>)"
      "same_maps (kernel_of s) kk" "os_refusals kk = Suc (os_refusals (kernel_of s))"
    let ?s = "s\<lparr>kernel_of := kk\<rparr>"
    have "heap_inv granule ?s bs fs ms"
      using shape_refused [OF sh kk(3) p(1) kk(2)] fl so same_memory [of ?s s] by (simp add: heap_inv_def coin_def)
    moreover have "sbrk_malloc_new sb (of_nat k) s = Inr (0, ?cnt ?s)"
      by (simp add: sbrk_malloc_new_def cur init_sbrk_alloc_block_def kk(1))
    ultimately show ?thesis using refused [of "?cnt ?s"] kk(4) cnt [of ?s] by simp
  next
    fix kk
    let ?t = "s\<lparr>kernel_of := kk, program_break := Some (p + of_nat k)\<rparr>"
    assume kk: "sb (of_nat k) s = (p, ?t)" "brk_at granule (p + of_nat k) ?t" "same_maps (kernel_of s) kk"
      "unat (p + of_nat k) = unat p + unat (of_nat k :: 64 word)"
      "unat p + unat (of_nat k :: 64 word) \<le> 140737488355328" "os_refusals kk = os_refusals (kernel_of s)"
    have pk: "unat p + k \<le> 140737488355328" using kk(5) uk by simp
    have "contiguous (unat (sbrk_head s)) (bs @ [(p, k)]) (unat (p + of_nat k))"
      using p(2) kk(4) uk k(1) by (auto simp: contiguous_append)
    then have ar: "heap_area granule ?t (bs @ [(p, k)])"
      using D(1) kk(2,3) k(2) nz by (auto simp: heap_area_def same_maps_def brk_at_def)
    obtain s' where s': "init_sbrk_alloc_block sb p (of_nat k) False ?t = Inr (p, s')" "beside s' = beside ?t"
      "heap_inv granule s' (bs @ [(p, k)]) fs ms" "p \<notin> heads (set bs \<union> set ms)" "p \<notin> set fs"
      "kept (set bs \<union> set ms) s s'"
      by (rule fresh_last_block [OF inv k(1) pk refl ar kk(3)]) blast
    show ?thesis
    proof (rule fresh [of p "?cnt s'"])
      show "sbrk_malloc_new sb (of_nat k) s = Inr (p, ?cnt s')"
        using s'(1) by (simp add: sbrk_malloc_new_def cur init_sbrk_alloc_block_def kk(1) pm)
      show "heap_inv granule (?cnt s') (bs @ [(p, k)]) fs ms" using s'(3) by (simp only: cnt)
      show "kept (set bs \<union> set ms) s (?cnt s')" using s'(6) by (simp add: kept_def)
      show "tally (?cnt s') = (case tally s of (fb, fy, ab, ay) \<Rightarrow> (fb, fy, ab + 1, ay + (of_nat k - 48)))"
        using s'(2) by (simp add: tally_def beside_def size_constants)
      show "os_refusals (kernel_of (?cnt s')) = os_refusals (kernel_of s)"
        using beside_fields(1) [OF s'(2)] kk(6) by simp
    qed (use pe(2) s'(4,5) in auto)
  qed
qed

lemma off_free_list:
  assumes sh: "heap_shape granule s (us @ (h, n) # vs) fs ms"
    and fl: "flags_ok s (set (us @ (h, n) # vs) \<union> set ms) fs" and so: "sorted_wrt (precedes s) (remove1 h fs)"
    and h: "h \<in> set fs"
  obtains s1 where "remove_sbrk_free_block h
      (s\<lparr>free_blocks_num := free_blocks_num s - 1,
         free_bytes_num := free_bytes_num s - (get F_size s h - size_meta_data)\<rparr>) = Inr s1"
    "heap_inv granule s1 (us @ (h, n) # vs) (remove1 h fs) ms" "kept (set (us @ (h, n) # vs) \<union> set ms) s s1"
    "os_refusals (kernel_of s1) = os_refusals (kernel_of s)"
    "tally s = count (us @ (h, n) # vs) fs ms \<Longrightarrow> tally s1 = count (us @ (h, n) # vs) (remove1 h fs) ms"
proof -
  let ?bs = "us @ (h, n) # vs" and ?fs = "remove1 h fs"
  let ?t = "s\<lparr>free_blocks_num := free_blocks_num s - 1,
    free_bytes_num := free_bytes_num s - (get F_size s h - size_meta_data)\<rparr>"
  note dist = shape_distinct [OF sh] and D = heap_shape_D [OF sh] and ok = heap_shape_blocks_ok [OF sh]
  have core: "core ?t = core s" by (simp add: core_def coin_def)
  have size: "get F_size s h = of_nat n" by (rule tails_ok_size [OF D(3)]) simp
  have "heap_shape granule ?t ?bs fs ms" "flags_ok ?t (set ?bs \<union> set ms) fs"
    using sh fl core_shape [OF core] core_flags [OF core] by simp_all
  from remove_from_free_list [OF this h] obtain s1 where s1: "remove_sbrk_free_block h ?t = Inr s1"
    "head_change (set ?bs \<union> set ms) ?t s1" "heap_shape granule s1 ?bs ?fs ms"
    "flags_ok s1 (set ?bs \<union> set ms) ?fs" by blast
  have "sorted_wrt (precedes s1) ?fs"
  proof (rule head_change_sorted [OF s1(2)])
    show "set ?fs \<subseteq> heads (set ?bs \<union> set ms)" using D(7) set_remove1_subset [of h fs] by auto
    show "sorted_wrt (precedes ?t) ?fs" using so core_precedes [OF core] by simp
  qed
  then have "heap_inv granule s1 ?bs ?fs ms" using s1(3,4) by (simp add: heap_inv_def)
  moreover have "kept (set ?bs \<union> set ms) s s1"
    using head_change_kept [OF ok s1(2)] by (simp add: kept_def)
  moreover have "os_refusals (kernel_of s1) = os_refusals (kernel_of s)"
    using s1(2) by (simp add: head_change_def beside_def)
  moreover have "tally s1 = count ?bs ?fs ms" if "tally s = count ?bs fs ms"
    using s1(2) size unfolding count_take [OF dist(1,2) h] that [symmetric]
    by (simp add: head_change_def beside_def tally_def size_constants)
  ultimately show ?thesis using that s1(1) by blast
qed

lemma take_spec:
  assumes sh: "heap_shape granule s (us @ (h, n) # vs) fs ms"
    and fl: "flags_ok s (set (us @ (h, n) # vs) \<union> set ms) fs" and so: "sorted_wrt (precedes s) (remove1 h fs)"
    and h: "h \<in> set fs" and k: "48 \<le> k" "granule dvd k" "k \<le> n"
  obtains s' where "take_block sb h (of_nat k) s = Inr (h, s')" "gives granule s (us @ (h, n) # vs) fs ms k h s'"
    "os_refusals (kernel_of s') = os_refusals (kernel_of s)"
proof -
  let ?bs = "us @ (h, n) # vs" and ?fs = "remove1 h fs"
  note dist = shape_distinct [OF sh]
  obtain s1 where s1: "remove_sbrk_free_block h
      (s\<lparr>free_blocks_num := free_blocks_num s - 1,
         free_bytes_num := free_bytes_num s - (get F_size s h - size_meta_data)\<rparr>) = Inr s1"
    "heap_inv granule s1 ?bs ?fs ms" "kept (set ?bs \<union> set ms) s s1"
    "os_refusals (kernel_of s1) = os_refusals (kernel_of s)"
    "tally s = count ?bs fs ms \<Longrightarrow> tally s1 = count ?bs ?fs ms"
    by (rule off_free_list [OF sh fl so h]) blast
  have k1: "kept (live ?bs fs ms) s s1" by (rule kept_subset [OF s1(3) live_subset])
  have hl: "h \<notin> heads (live ?bs fs ms)" "h \<noteq> 0"
    using h dist(3) head_room(2) [OF heap_shape_blocks_ok [OF sh]] by (auto simp: live_def heads_iff)
  show ?thesis
  proof (cases "176 \<le> n - k")
    case False
    have "heap_shape granule s1 ?bs ?fs ms" using s1(2) by (simp add: heap_inv_def)
    from tails_ok_size [OF heap_shape_D(3) [OF this], of h n] have "get F_size s1 h = of_nat n" by simp
    moreover have "n \<le> 140737488355328" using heap_area_bounds(4,5) [OF heap_shape_D(1) [OF sh], of h n] by simp
    ultimately have "take_block sb h (of_nat k) s = Inr (h, s1)"
      using False s1(1) k(3) is_redundant_iff [of s1 h n k] by (simp add: take_block_def split_block_def)
    moreover have "gives granule s ?bs fs ms k h s1"
      unfolding gives_def
      using s1(2,5) take_live [OF dist(1,2) h] hl k(3) False k1 coalesced_fewer [OF _ set_remove1_subset]
      by (intro exI [of _ n] exI [of _ ?bs] exI [of _ ?fs]) auto
    ultimately show ?thesis using that s1(4) by blast
  next
    case True
    have hf: "h \<notin> set ?fs" using dist(2) by simp
    let ?r = "h + of_nat k"
    let ?bs' = "us @ (h, k) # (?r, n - k) # vs"
    obtain s2 where s2: "split_block sb h (of_nat k) s1 = Inr s2"
      "heap_inv granule s2 ?bs' (insert_free (precedes s2) ?r ?fs) ms"
      "kept (insert (h, k) (set us \<union> set vs \<union> set ms)) s1 s2"
      "tally s1 = count ?bs ?fs ms \<Longrightarrow> tally s2 = count ?bs' (insert_free (precedes s2) ?r ?fs) ms"
      "os_refusals (kernel_of s2) = os_refusals (kernel_of s1)"
      by (rule split_block_spec [where sb = sb, OF s1(2) hf k(1,2) True]) blast
    have "heap_shape granule s2 ?bs' (insert_free (precedes s2) ?r ?fs) ms" using s2(2) by (simp only: heap_inv_def)
    note L = split_lists [OF shape_distinct(1) [OF this] dist(2) h]
    have "live ?bs fs ms \<subseteq> insert (h, k) (set us \<union> set vs \<union> set ms)" using h by (auto simp: live_def)
    then have "kept (live ?bs fs ms) s s2" by (rule kept_trans [OF k1 kept_subset [OF s2(3)]])
    then have "gives granule s ?bs fs ms k h s2"
      unfolding gives_def using s2(2) L hl s2(4) [OF s1(5)]
      by (intro exI [of _ k] exI [of _ ?bs'] exI [of _ "insert_free (precedes s2) ?r ?fs"]) auto
    then show ?thesis using that s1(1,4) s2(1,5) by (simp add: take_block_def)
  qed
qed

lemma sbrk_malloc_take:
  "sbrk_malloc sb k s =
     (if sbrk_head s \<noteq> 0 then
        checked_bind (find_sbrk_free_block sb k s) (\<lambda>(h, s).
          if h \<noteq> 0 then take_block sb h k s else sbrk_malloc_new sb k s)
      else
        let (head, s) = sb 0 s in
        if head = - 1 then Inr (0, s\<lparr>sbrk_head := 0\<rparr>)
        else sbrk_malloc_new sb k (s\<lparr>sbrk_head := head\<rparr>))"
  unfolding sbrk_malloc_def take_block_def ..

lemma new_gives:
  assumes inv: "heap_inv granule s bs fs ms" and nz: "sbrk_head s \<noteq> 0"
    and k: "48 \<le> k" "granule dvd k" "k \<le> 70368744177664"
  obtains (refused) s' where "sbrk_malloc_new sb (of_nat k) s = Inr (0, s')" "heap_inv granule s' bs fs ms"
      "mem s' = mem s" "os_refusals (kernel_of s') = Suc (os_refusals (kernel_of s))"
  | (fresh) h s' where "sbrk_malloc_new sb (of_nat k) s = Inr (h, s')" "gives granule s bs fs ms k h s'"
      "os_refusals (kernel_of s') = os_refusals (kernel_of s)"
proof (rule malloc_new_spec [OF inv nz k])
  fix h s'
  assume s': "sbrk_malloc_new sb (of_nat k) s = Inr (h, s')" "h \<noteq> 0" "heap_inv granule s' (bs @ [(h, k)]) fs ms"
    "h \<notin> heads (set bs \<union> set ms)" "h \<notin> set fs" "kept (set bs \<union> set ms) s s'"
    "os_refusals (kernel_of s') = os_refusals (kernel_of s)"
    "tally s' = (case tally s of (fb, fy, ab, ay) \<Rightarrow> (fb, fy, ab + 1, ay + (of_nat k - 48)))"
  have "live (bs @ [(h, k)]) fs ms = insert (h, k) (live bs fs ms)" using s'(5) by (auto simp: live_def)
  moreover have "h \<notin> heads (live bs fs ms)" using s'(4) heads_mono [OF live_subset] by blast
  moreover have "tally s = count bs fs ms \<Longrightarrow> tally s' = count (bs @ [(h, k)]) fs ms"
    using s'(8) count_append [OF s'(5)] by simp
  moreover have "coalesced fs bs \<Longrightarrow> coalesced fs (bs @ [(h, k)])"
    using s'(5) by (simp add: coalesced_append coalesced_Cons) (simp add: coalesced_def)
  ultimately have "gives granule s bs fs ms k h s'"
    unfolding gives_def using s'(2,3) kept_subset [OF s'(6) live_subset]
    by (intro exI [of _ k] exI [of _ "bs @ [(h, k)]"] exI [of _ fs]) auto
  then show thesis using fresh s'(1,7) by blast
qed (rule refused)

lemma gives_after:
  assumes "gives granule t bs fs ms k h s'" "mem t = mem s" "tally t = tally s"
  shows "gives granule s bs fs ms k h s'"
  using assms by (simp add: gives_def kept_def)

lemma gives_through:
  assumes g: "gives granule t cs fs ms k h s'" and "live cs fs ms = live bs fs ms"
    "coalesced fs cs = coalesced fs bs" "kept (live bs fs ms) s t"
    "tally s = count bs fs ms \<Longrightarrow> tally t = count cs fs ms"
  shows "gives granule s bs fs ms k h s'"
proof -
  from g obtain m bs' fs' where "heap_inv granule s' bs' fs' ms" "h \<noteq> 0"
    "live bs' fs' ms = insert (h, m) (live bs fs ms)" "h \<notin> heads (live bs fs ms)" "(h, m) \<in> set bs'"
    "k \<le> m" "m < k + 176" "kept (live bs fs ms) t s'"
    "tally t = count cs fs ms \<longrightarrow> tally s' = count bs' fs' ms" "coalesced fs bs \<longrightarrow> coalesced fs' bs'"
    unfolding gives_def assms(2,3) by blast
  then show ?thesis
    unfolding gives_def using assms(5) kept_trans [OF assms(4)] by (intro exI [of _ m] exI [of _ bs'] exI [of _ fs']) blast
qed

lemma malloc_in_heap:
  assumes inv: "heap_inv granule s bs fs ms" and nz: "sbrk_head s \<noteq> 0"
    and k: "48 \<le> k" "granule dvd k" "k \<le> 70368744177664"
  obtains (refused) s' where "sbrk_malloc sb (of_nat k) s = Inr (0, s')" "heap_inv granule s' bs fs ms"
      "mem s' = mem s" "os_refusals (kernel_of s) < os_refusals (kernel_of s')"
  | (served) h s' where "sbrk_malloc sb (of_nat k) s = Inr (h, s')" "gives granule s bs fs ms k h s'"
      "os_refusals (kernel_of s') = os_refusals (kernel_of s)"
  | (retried) t h s' where "sbrk_malloc sb (of_nat k) s = Inr (h, s')" "gives granule t bs fs ms k h s'" "mem t = mem s"
      "os_refusals (kernel_of s) < os_refusals (kernel_of s')"
proof -
  have sh: "heap_shape granule s bs fs ms" and fl: "flags_ok s (set bs \<union> set ms) fs"
    and so: "sorted_wrt (precedes s) fs" using inv by (simp_all add: heap_inv_def)
  note ok = heap_shape_blocks_ok [OF sh]
  show ?thesis
  proof (rule find_spec [OF inv k])
    fix h n
    assume f: "find_sbrk_free_block sb (of_nat k) s = Inr (h, s)" "(h, n) \<in> set bs" "h \<in> set fs" "k \<le> n"
    obtain us vs where bs: "bs = us @ (h, n) # vs" using f(2) by (meson split_list)
    obtain s' where s': "take_block sb h (of_nat k) s = Inr (h, s')" "gives granule s bs fs ms k h s'"
      "os_refusals (kernel_of s') = os_refusals (kernel_of s)"
      using take_spec [OF sh [unfolded bs] fl [unfolded bs] sorted_wrt_remove1 [OF so] f(3) k(1,2) f(4)] bs by metis
    have "h \<noteq> 0" using s'(2) by (auto simp: gives_def)
    then have "sbrk_malloc sb (of_nat k) s = Inr (h, s')" using nz f(1) s'(1) by (simp add: sbrk_malloc_take)
    then show thesis using served s'(2,3) by blast
  next
    fix us h n t
    assume f: "bs = us @ [(h, n)]" "h \<in> set fs" "find_sbrk_free_block sb (of_nat k) s = Inr (h, t)"
      "heap_shape granule t (us @ [(h, k)]) fs ms" "flags_ok t (set (us @ [(h, k)]) \<union> set ms) fs"
      "sorted_wrt (precedes t) (remove1 h fs)" "kept (set us \<union> set ms) s t"
      "tally t = (case tally s of (fb, fy, ab, ay) \<Rightarrow> (fb, fy + (of_nat k - of_nat n), ab, ay + (of_nat k - of_nat n)))"
      "os_refusals (kernel_of t) = os_refusals (kernel_of s)"
    obtain s' where s': "take_block sb h (of_nat k) t = Inr (h, s')" "gives granule t (us @ [(h, k)]) fs ms k h s'"
      "os_refusals (kernel_of s') = os_refusals (kernel_of t)"
      using take_spec [OF f(4,5,6,2) k(1,2) order_refl] by metis
    have lv: "live (us @ [(h, k)]) fs ms = live bs fs ms" using f(1,2) by (auto simp: live_def)
    have tl: "tally s = count bs fs ms \<Longrightarrow> tally t = count (us @ [(h, k)]) fs ms"
      using f(8) count_grow [OF f(2), of us k ms n] f(1) by simp
    have co: "coalesced fs (us @ [(h, k)]) = coalesced fs bs" using f(1) by (simp add: coalesced_append coalesced_Cons)
    have kp: "kept (live bs fs ms) s t" using f(1,2) by (intro kept_subset [OF f(7)]) (auto simp: live_def)
    have "gives granule s bs fs ms k h s'"
      by (rule gives_through [OF s'(2) lv co kp tl])
    moreover have "h \<noteq> 0" using s'(2) by (auto simp: gives_def)
    then have "sbrk_malloc sb (of_nat k) s = Inr (h, s')" using nz f(3) s'(1) by (simp add: sbrk_malloc_take)
    ultimately show thesis using served s'(3) f(9) by simp
  next
    fix t
    assume f: "find_sbrk_free_block sb (of_nat k) s = Inr (0, t)" "heap_inv granule t bs fs ms" "mem t = mem s"
      "sbrk_head t = sbrk_head s"
      "tally t = tally s \<and> os_refusals (kernel_of t) = os_refusals (kernel_of s)
        \<or> os_refusals (kernel_of t) = Suc (os_refusals (kernel_of s))"
    have nt: "sbrk_head t \<noteq> 0" using f(4) nz by simp
    have run: "sbrk_malloc sb (of_nat k) s = sbrk_malloc_new sb (of_nat k) t"
      using nz f(1) by (simp add: sbrk_malloc_take)
    show thesis
    proof (rule new_gives [OF f(2) nt k])
      fix s' assume "sbrk_malloc_new sb (of_nat k) t = Inr (0, s')" "heap_inv granule s' bs fs ms"
        "mem s' = mem t" "os_refusals (kernel_of s') = Suc (os_refusals (kernel_of t))"
      then show thesis using refused [of s'] run f(3,5) by auto
    next
      fix h s' assume s': "sbrk_malloc_new sb (of_nat k) t = Inr (h, s')" "gives granule t bs fs ms k h s'"
        "os_refusals (kernel_of s') = os_refusals (kernel_of t)"
      then show thesis using served [of h s'] retried [of h s' t] run f(3,5) gives_after [OF s'(2) f(3)] by auto
    qed
  qed
qed

lemma first_break:
  assumes inv: "heap_inv granule s bs fs ms" and z: "sbrk_head s = 0" and f: "first_ok (kernel_of s)"
  obtains p t where "sb 0 s = (p, t)" "p \<noteq> - 1" "p \<noteq> 0" "heap_inv granule (t\<lparr>sbrk_head := p\<rparr>) bs fs ms"
    "mem t = mem s" "tally t = tally s" "os_refusals (kernel_of t) = os_refusals (kernel_of s)"
proof -
  have sh: "heap_shape granule s bs fs ms" and fl: "flags_ok s (set bs \<union> set ms) fs"
    and so: "sorted_wrt (precedes s) fs" using inv by (simp_all add: heap_inv_def)
  note D = heap_shape_D [OF sh]
  have s: "program_break s = None" "kernel_ok (kernel_of s)" "bs = []" using D(1) z by (auto simp: heap_area_def)
  from first [OF s(1,2) f] obtain k where k:
    "sb 0 s = (os_break k, s\<lparr>kernel_of := k, program_break := Some (os_break k)\<rparr>)"
    "brk_at granule (os_break k) (s\<lparr>kernel_of := k, program_break := Some (os_break k)\<rparr>)"
    "same_maps (kernel_of s) k" "os_refusals k = os_refusals (kernel_of s)" by blast
  let ?p = "os_break k"
  let ?t = "s\<lparr>kernel_of := k, program_break := Some ?p\<rparr>"
  have kk: "kernel_ok k" using k(2) by (simp add: brk_at_def)
  have p0: "?p \<noteq> 0"
  proof
    assume p0: "?p = 0"
    have "0 < unat (os_start k)" "unat (os_start k) \<le> unat ?p" using kk by (simp_all add: kernel_ok_def)
    then show False using p0 by simp
  qed
  have pm: "?p \<noteq> - 1"
  proof
    assume "?p = - 1"
    with kernel_ok_break [OF kk] show False by (simp only: unat_minus_one_64)
  qed
  let ?u = "?t\<lparr>sbrk_head := ?p\<rparr>"
  have "heap_area granule ?u bs"
    using k(2) kk s(3) p0 by (auto simp: heap_area_def brk_at_def kernel_ok_def)
  moreover have "mapped k ms" using D(2) k(3) by (simp add: mapped_def same_maps_def)
  moreover have "coin ?u = coin s" by (simp add: coin_def)
  ultimately have "heap_shape granule ?u bs fs ms"
    using D(3-7) same_memory [of ?u s] by (intro heap_shape_I) simp_all
  then have "heap_inv granule ?u bs fs ms"
    using fl so same_memory [of ?u s] by (simp add: heap_inv_def coin_def)
  then show ?thesis using that [OF k(1) pm p0] k(4) by (simp add: tally_def)
qed

lemma sbrk_malloc_spec:
  assumes inv: "heap_inv granule s bs fs ms" and f: "sbrk_head s = 0 \<Longrightarrow> first_ok (kernel_of s)"
    and k: "48 \<le> k" "granule dvd k" "k \<le> 70368744177664"
  obtains (refused) s' where "sbrk_malloc sb (of_nat k) s = Inr (0, s')" "heap_inv granule s' bs fs ms"
      "mem s' = mem s" "os_refusals (kernel_of s) < os_refusals (kernel_of s')"
  | (served) h s' where "sbrk_malloc sb (of_nat k) s = Inr (h, s')" "gives granule s bs fs ms k h s'"
      "os_refusals (kernel_of s') = os_refusals (kernel_of s)"
  | (retried) t h s' where "sbrk_malloc sb (of_nat k) s = Inr (h, s')" "gives granule t bs fs ms k h s'" "mem t = mem s"
      "os_refusals (kernel_of s) < os_refusals (kernel_of s')"
proof (cases "sbrk_head s = 0")
  case False
  show ?thesis by (rule malloc_in_heap [OF inv False k]) (rule that; assumption)+
next
  case True
  from first_break [OF inv True f [OF True]] obtain p t where p: "sb 0 s = (p, t)" "p \<noteq> - 1" "p \<noteq> 0"
    "heap_inv granule (t\<lparr>sbrk_head := p\<rparr>) bs fs ms" "mem t = mem s" "tally t = tally s"
    "os_refusals (kernel_of t) = os_refusals (kernel_of s)" by blast
  let ?t = "t\<lparr>sbrk_head := p\<rparr>"
  have run: "sbrk_malloc sb (of_nat k) s = sbrk_malloc_new sb (of_nat k) ?t"
    using True p(1,2) by (simp add: sbrk_malloc_take)
  have nz: "sbrk_head ?t \<noteq> 0" using p(3) by simp
  show ?thesis
  proof (rule new_gives [OF p(4) nz k])
    fix s' assume "sbrk_malloc_new sb (of_nat k) ?t = Inr (0, s')" "heap_inv granule s' bs fs ms"
      "mem s' = mem ?t" "os_refusals (kernel_of s') = Suc (os_refusals (kernel_of ?t))"
    then show ?thesis using refused [of s'] run p(5,7) by simp
  next
    fix h s' assume s': "sbrk_malloc_new sb (of_nat k) ?t = Inr (h, s')" "gives granule ?t bs fs ms k h s'"
      "os_refusals (kernel_of s') = os_refusals (kernel_of ?t)"
    have "gives granule s bs fs ms k h s'"
      using p(5,6) by (intro gives_after [OF s'(2)]) (simp_all add: tally_def)
    then show ?thesis using served [of h s'] run s'(1,3) p(7) by simp
  qed
qed

end

section \<open>Freeing\<close>

lemma count_join:
  assumes "distinct (l # h # map fst us @ map fst vs)" "distinct fs" "l \<in> set fs" "h \<notin> set fs"
  shows "count (us @ (l, nl + n) # vs) (remove1 l fs) ms = join_tally nl (count (us @ (l, nl) # (h, n) # vs) fs ms)"
    "count (us @ (h, n + nl) # vs) (remove1 l fs) ms = join_tally nl (count (us @ (h, n) # (l, nl) # vs) fs ms)"
proof -
  have "of_nat (length fs - 1) = (of_nat (length fs) - 1 :: 64 word)"
    using assms(3) by (cases fs) auto
  moreover have "l \<notin> fst ` set us" "l \<notin> fst ` set vs" using assms(1) by auto
  ultimately show
    "count (us @ (l, nl + n) # vs) (remove1 l fs) ms = join_tally nl (count (us @ (l, nl) # (h, n) # vs) fs ms)"
    "count (us @ (h, n + nl) # vs) (remove1 l fs) ms = join_tally nl (count (us @ (h, n) # (l, nl) # vs) fs ms)"
    using assms(1-4) filter_remove1 [of l us fs] filter_remove1 [of l vs fs]
    by (simp_all add: count_def join_tally_def length_remove1 set_remove1_eq)
qed

lemma count_left:
  assumes d: "distinct (map fst (us @ (h, n) # vs))" "distinct fs" "h \<notin> set fs" and lf: "lf = left_free ml us fs"
  shows "count (drop_left lf us @ (start_at lf (last us) h, grown lf (last us) n) # vs) (take_off lf (last us) fs) ms
    = joined_tally lf (last us) (count (us @ (h, n) # vs) fs ms)"
proof (cases lf)
  case True
  then have "us \<noteq> []" "fst (last us) \<in> set fs" using lf by (auto simp: left_free_def)
  then obtain ws l nl where us: "us = ws @ [(l, nl)]" "l \<in> set fs" by (cases us rule: rev_cases) auto
  have "distinct (l # h # map fst ws @ map fst vs)" using d(1) us(1) by auto
  from count_join(1) [OF this d(2) us(2) d(3), of nl n ms] show ?thesis
    using True us by (simp add: merge_choice_defs add.commute)
next
  case False
  then show ?thesis by (simp add: merge_choice_defs)
qed

lemma count_right:
  assumes d: "distinct (map fst (us @ (h, n) # vs))" "distinct fs" "h \<notin> set fs" and rf: "rf = right_free mr vs fs"
  shows "count (us @ (h, grown rf (hd vs) n) # drop_right rf vs) (take_off rf (hd vs) fs) ms
    = joined_tally rf (hd vs) (count (us @ (h, n) # vs) fs ms)"
proof (cases rf)
  case True
  then obtain r nr ws where vs: "vs = (r, nr) # ws" "r \<in> set fs" using rf by (cases vs) (auto simp: right_free_def)
  have "distinct (r # h # map fst us @ map fst ws)" using d(1) vs(1) by auto
  from count_join(2) [OF this d(2) vs(2) d(3), of n nr ms] show ?thesis
    using True vs by (simp add: merge_choice_defs)
next
  case False
  then show ?thesis by (simp add: merge_choice_defs)
qed

lemma left_split:
  assumes "lf = left_free ml us fs"
  obtains ws a i where "us = (if lf then ws @ [(a, i)] else ws)" "lf \<Longrightarrow> a \<in> set fs" "drop_left lf us = ws"
    "lf \<Longrightarrow> last us = (a, i)" "\<not> lf \<Longrightarrow> ml \<Longrightarrow> ws \<noteq> [] \<Longrightarrow> fst (last ws) \<notin> set fs"
proof (cases lf)
  case True
  then have "us \<noteq> []" "fst (last us) \<in> set fs" using assms by (auto simp: left_free_def)
  then obtain ws a i where "us = ws @ [(a, i)]" "a \<in> set fs" by (cases us rule: rev_cases) auto
  then show ?thesis by (intro that [of ws a i]) (simp_all add: True drop_left_def)
next
  case False
  then show ?thesis using assms by (intro that [of us 0 0]) (auto simp: drop_left_def left_free_def)
qed

lemma right_split:
  assumes "rf = right_free mr vs fs"
  obtains zs r j where "vs = (if rf then (r, j) # zs else zs)" "rf \<Longrightarrow> r \<in> set fs" "drop_right rf vs = zs"
    "rf \<Longrightarrow> hd vs = (r, j)" "\<not> rf \<Longrightarrow> mr \<Longrightarrow> zs \<noteq> [] \<Longrightarrow> fst (hd zs) \<notin> set fs"
proof (cases rf)
  case True
  then have "vs \<noteq> []" "fst (hd vs) \<in> set fs" using assms by (auto simp: right_free_def)
  then obtain r j zs where "vs = (r, j) # zs" "r \<in> set fs" by (cases vs) auto
  then show ?thesis by (intro that [of r j zs]) (simp_all add: True drop_right_def)
next
  case False
  then show ?thesis using assms by (intro that [of 0 0 vs]) (auto simp: drop_right_def right_free_def)
qed

lemma merged_coalesced:
  assumes c: "coalesced fs (us @ (h, n) # vs)"
    and us: "us = (if lf then ws @ [(a, i)] else ws)" "lf \<Longrightarrow> a \<in> set fs"
      "\<not> lf \<Longrightarrow> ws \<noteq> [] \<Longrightarrow> fst (last ws) \<notin> set fs"
    and vs: "vs = (if rf then (r, j) # zs else zs)" "rf \<Longrightarrow> r \<in> set fs"
      "\<not> rf \<Longrightarrow> zs \<noteq> [] \<Longrightarrow> fst (hd zs) \<notin> set fs"
    and free: "\<And>x. x \<in> set ws \<union> set zs \<Longrightarrow> fst x \<in> set gs \<longleftrightarrow> fst x \<in> set fs"
  shows "coalesced gs (ws @ (l, m) # zs)"
proof -
  have "coalesced gs ws = coalesced fs ws" "coalesced gs zs = coalesced fs zs"
    using free by (auto intro!: coalesced_cong)
  moreover have "coalesced fs ws" "coalesced fs zs"
    using c us(1) vs(1) by (auto simp: coalesced_append coalesced_Cons split: if_splits)
  moreover have "fst (last ws) \<notin> set gs" if "ws \<noteq> []"
  proof -
    have "fst (last ws) \<notin> set fs" using c us that by (cases lf) (auto simp: coalesced_append)
    then show ?thesis using free [of "last ws"] that by simp
  qed
  moreover have "fst (hd zs) \<notin> set gs" if "zs \<noteq> []"
  proof -
    have "fst (hd zs) \<notin> set fs" using c vs that by (cases rf) (auto simp: coalesced_append coalesced_Cons)
    then show ?thesis using free [of "hd zs"] that by simp
  qed
  ultimately show ?thesis by (auto simp: coalesced_append coalesced_Cons)
qed

lemma merged_lists:
  assumes sh: "heap_shape g s (us @ (h, n) # vs) fs ms" and h: "h \<notin> set fs"
    and lf: "lf = left_free ml us fs" and rf: "rf = right_free mr vs (take_off lf (last us) fs)"
    and l: "l = start_at lf (last us) h" and m: "m = grown rf (hd vs) (grown lf (last us) n)"
    and bs': "bs' = drop_left lf us @ (l, m) # drop_right rf vs" and fs': "fs' = take_off rf (hd vs) (take_off lf (last us) fs)"
  shows "l \<notin> set fs'" "live bs' fs' ms = insert (l, m) (live (us @ (h, n) # vs) fs ms - {(h, n)})"
    "joined_tally rf (hd vs) (joined_tally lf (last us) (count (us @ (h, n) # vs) fs ms)) = count bs' fs' ms"
    "live (us @ (h, n) # vs) fs ms - {(h, n)} \<subseteq> set (drop_left lf us) \<union> set (drop_right rf vs) \<union> set ms"
    "coalesced fs (us @ (h, n) # vs) \<Longrightarrow> ml \<Longrightarrow> mr \<Longrightarrow> coalesced (insert_free P l fs') bs'"
proof -
  note dist = shape_distinct [OF sh]
  obtain ws a i where us: "us = (if lf then ws @ [(a, i)] else ws)" "lf \<Longrightarrow> a \<in> set fs" "drop_left lf us = ws"
    "lf \<Longrightarrow> last us = (a, i)" "\<not> lf \<Longrightarrow> ml \<Longrightarrow> ws \<noteq> [] \<Longrightarrow> fst (last ws) \<notin> set fs"
    by (rule left_split [OF lf]) blast
  let ?gs = "take_off lf (last us) fs"
  obtain zs r j where vs: "vs = (if rf then (r, j) # zs else zs)" "rf \<Longrightarrow> r \<in> set ?gs" "drop_right rf vs = zs"
    "rf \<Longrightarrow> hd vs = (r, j)" "\<not> rf \<Longrightarrow> mr \<Longrightarrow> zs \<noteq> [] \<Longrightarrow> fst (hd zs) \<notin> set ?gs"
    by (rule right_split [OF rf]) blast
  have ge: "set ?gs = set fs - (if lf then {a} else {})"
    using us(4) dist(2) by (auto simp: take_off_def set_remove1_eq)
  then have rfs: "rf \<Longrightarrow> r \<in> set fs" using vs(2) by auto
  have le: "l = (if lf then a else h)" using l us(4) by (simp add: start_at_def)
  have "distinct ?gs" using dist(2) by (simp add: take_off_def)
  then have fe: "set fs' = set fs - (if lf then {a} else {}) - (if rf then {r} else {})"
    using fs' vs(4) ge by (auto simp: take_off_def [of rf] set_remove1_eq)
  show lfs: "l \<notin> set fs'" using le fe h by auto
  have w: "x \<in> set ws \<union> set zs \<Longrightarrow> fst x \<noteq> h \<and> (lf \<longrightarrow> fst x \<noteq> a) \<and> (rf \<longrightarrow> fst x \<noteq> r)" for x
    using dist(1) us(1) vs(1) by (auto split: if_splits)
  have sets: "set us = (if lf then insert (a, i) (set ws) else set ws)"
    "set vs = (if rf then insert (r, j) (set zs) else set zs)" "set bs' = insert (l, m) (set ws \<union> set zs)"
    using us(1) vs(1) bs' us(3) vs(3) by auto
  have free: "fst x \<in> set fs' \<longleftrightarrow> fst x \<in> set fs" "fst x \<noteq> l" if "x \<in> set ws \<union> set zs" for x
    using w [OF that] fe le by auto
  have hm: "(h, n) \<notin> set ms" "(h, n) \<notin> set ws \<union> set zs" using dist(3) w [of "(h, n)"] by auto
  show "live (us @ (h, n) # vs) fs ms - {(h, n)} \<subseteq> set (drop_left lf us) \<union> set (drop_right rf vs) \<union> set ms"
    unfolding us(3) vs(3) using us(2) rfs by (auto simp: live_def sets split: if_splits)
  show "live bs' fs' ms = insert (l, m) (live (us @ (h, n) # vs) fs ms - {(h, n)})"
    using us(2) rfs free(1) lfs hm by (auto simp: live_def sets split: if_splits)
  show "joined_tally rf (hd vs) (joined_tally lf (last us) (count (us @ (h, n) # vs) fs ms)) = count bs' fs' ms"
  proof -
    have "distinct (map fst (ws @ (l, grown lf (last us) n) # vs))"
      using dist(1) us(1) le by (auto split: if_splits)
    then show ?thesis
      using count_right [OF _ \<open>distinct ?gs\<close> _ rf, of ws l "grown lf (last us) n" ms] count_left [OF dist(1,2) h lf, of ms]
        ge le h by (simp add: us(3) vs(3) bs' m fs' flip: l)
  qed
  show "coalesced (insert_free P l fs') bs'" if c: "coalesced fs (us @ (h, n) # vs)" and "ml" "mr"
    unfolding bs' us(3) vs(3)
  proof (rule merged_coalesced [OF c us(1,2) _ vs(1) rfs])
    show "fst (last ws) \<notin> set fs" if "\<not> lf" "ws \<noteq> []" using us(5) \<open>ml\<close> that by blast
    show "fst (hd zs) \<notin> set fs" if "\<not> rf" "zs \<noteq> []"
    proof -
      have "fst (hd zs) \<notin> set fs - (if lf then {a} else {})" using vs(5) \<open>mr\<close> that unfolding ge by blast
      then show ?thesis using w [of "hd zs"] that by (auto split: if_splits)
    qed
    show "fst x \<in> set (insert_free P l fs') \<longleftrightarrow> fst x \<in> set fs" if "x \<in> set ws \<union> set zs" for x
      using free [OF that] by simp
  qed
qed

definition releases ::
  "nat \<Rightarrow> heap \<Rightarrow> (addr \<times> nat) list \<Rightarrow> addr list \<Rightarrow> (addr \<times> nat) list \<Rightarrow> addr \<times> nat \<Rightarrow> heap \<Rightarrow> bool"
where
  "releases g s bs fs ms b s' \<longleftrightarrow> (\<exists>bs' fs'. heap_inv g s' bs' fs' ms
     \<and> live bs' fs' ms = live bs fs ms - {b} \<and> kept (live bs fs ms - {b}) s s'
     \<and> (tally s = count bs fs ms \<longrightarrow> tally s' = count bs' fs' ms)
     \<and> (coalesced fs bs \<longrightarrow> coalesced fs' bs'))"

context heap_ops
begin

lemma on_free_list:
  assumes inv: "heap_inv granule s (us @ (l, m) # vs) fs ms" and l: "l \<notin> set fs"
  defines "bs \<equiv> us @ (l, m) # vs" and "fs' \<equiv> insert_free (precedes s) l fs"
  obtains s' where "add_sbrk_free_block l
      (s\<lparr>free_blocks_num := free_blocks_num s + 1,
         free_bytes_num := free_bytes_num s + (get F_size s l - size_meta_data)\<rparr>) = Inr s'"
    "heap_inv granule s' bs fs' ms" "kept (set bs \<union> set ms) s s'" "live bs fs' ms = live bs fs ms - {(l, m)}"
    "tally s = count bs fs ms \<Longrightarrow> tally s' = count bs fs' ms"
proof -
  let ?t = "s\<lparr>free_blocks_num := free_blocks_num s + 1,
    free_bytes_num := free_bytes_num s + (get F_size s l - size_meta_data)\<rparr>"
  have core: "core ?t = core s" by (simp add: core_def coin_def)
  have sh: "heap_shape granule s bs fs ms" and fl: "flags_ok s (set bs \<union> set ms) fs"
    and so: "sorted_wrt (precedes s) fs" using inv by (simp_all add: heap_inv_def bs_def)
  note dist = shape_distinct [OF sh]
  have size: "get F_size s l = of_nat m" by (rule tails_ok_size [OF heap_shape_D(3) [OF sh]]) (simp add: bs_def)
  have sht: "heap_shape granule ?t bs fs ms" using sh core_shape [OF core] by simp
  have lh: "l \<in> heads (set bs)" by (simp add: bs_def)
  have flt: "get F_is_free ?t x = (if x \<in> set fs then 1 else 0)" if "x \<in> heads (set bs \<union> set ms)" for x
    using fl that core_get [OF core] by (simp add: flags_ok_def)
  from add_to_free_list [OF sht lh l flt] obtain s' where s': "add_sbrk_free_block l ?t = Inr s'"
    "head_change (set bs \<union> set ms) ?t s'" "heap_shape granule s' bs fs' ms" "flags_ok s' (set bs \<union> set ms) fs'"
    unfolding core_precedes [OF core] fs'_def by blast
  have "sorted_wrt (precedes ?t) fs'"
    unfolding core_precedes [OF core] fs'_def by (rule sorted_insert_free [OF so l])
  then have "sorted_wrt (precedes s') fs'"
    using heap_shape_D(7) [OF s'(3)] by (intro head_change_sorted [OF s'(2)]) auto
  then have "heap_inv granule s' bs fs' ms" using s'(3,4) by (simp add: heap_inv_def)
  moreover have "kept (set bs \<union> set ms) s s'"
    using head_change_kept [OF heap_shape_blocks_ok [OF sht] s'(2)] by (simp add: kept_def)
  moreover have "live bs fs' ms = live bs fs ms - {(l, m)}"
  proof -
    have "l \<notin> fst ` set us" "l \<notin> fst ` set vs" "l \<notin> fst ` set ms" using dist(1,3) by (auto simp: bs_def heads_def)
    then have "fst b \<noteq> l" if "b \<in> set us \<union> set vs \<union> set ms" for b using that by auto
    from this this [of "(l, m)"] show ?thesis by (auto simp: live_def bs_def fs'_def)
  qed
  moreover have "tally s' = count bs fs' ms" if "tally s = count bs fs ms"
  proof -
    have "tally s' = (case tally s of (fb, fy, ab, ay) \<Rightarrow> (fb + 1, fy + (of_nat m - 48), ab, ay))"
      using s'(2) size by (simp add: head_change_def beside_def tally_def size_constants)
    then show ?thesis
      using count_give [OF _ l, of us m vs "precedes s" ms] dist(1) that by (simp add: bs_def fs'_def)
  qed
  ultimately show ?thesis using that s'(1) by blast
qed

lemma sbrk_free_spec:
  assumes inv: "heap_inv granule s bs fs ms" and b: "(h, n) \<in> set bs" "h \<notin> set fs"
  obtains s' where "sbrk_free sb h s = Inr s'" "releases granule s bs fs ms (h, n) s'"
proof -
  obtain us vs where bs: "bs = us @ (h, n) # vs" using b(1) by (meson split_list)
  have inv': "heap_inv granule s (us @ (h, n) # vs) fs ms" using inv bs by simp
  then have sh: "heap_shape granule s (us @ (h, n) # vs) fs ms" by (simp add: heap_inv_def)
  define lf where "lf = left_free True us fs"
  define rf where "rf = right_free True vs (take_off lf (last us) fs)"
  define l where "l = start_at lf (last us) h"
  define m where "m = grown rf (hd vs) (grown lf (last us) n)"
  define fs1 where "fs1 = take_off rf (hd vs) (take_off lf (last us) fs)"
  let ?us = "drop_left lf us" and ?vs = "drop_right rf vs"
  define bs1 where "bs1 = ?us @ (l, m) # ?vs"
  obtain s1 where s1: "merge_sbrk_blocks sb h True True False s = Inr (l, s1)"
    "heap_inv granule s1 bs1 fs1 ms" "kept (set ?us \<union> set ?vs \<union> set ms) s s1"
    "tally s1 = joined_tally rf (hd vs) (joined_tally lf (last us) (tally s))"
    using merge_spec [OF inv' b(2) lf_def rf_def l_def m_def, of False] unfolding bs1_def fs1_def by metis
  note M = merged_lists [OF sh b(2) lf_def rf_def l_def m_def bs1_def fs1_def]
  let ?fs2 = "insert_free (precedes s1) l fs1" and ?L = "live bs fs ms - {(h, n)}"
  obtain s2 where s2: "add_sbrk_free_block l
      (s1\<lparr>free_blocks_num := free_blocks_num s1 + 1,
          free_bytes_num := free_bytes_num s1 + (get F_size s1 l - size_meta_data)\<rparr>) = Inr s2"
    "heap_inv granule s2 bs1 ?fs2 ms" "kept (set bs1 \<union> set ms) s1 s2" "live bs1 ?fs2 ms = live bs1 fs1 ms - {(l, m)}"
    "tally s1 = count bs1 fs1 ms \<Longrightarrow> tally s2 = count bs1 ?fs2 ms"
    unfolding bs1_def by (rule on_free_list [OF s1(2) [unfolded bs1_def] M(1)]) blast
  have sub: "?L \<subseteq> set ?us \<union> set ?vs \<union> set ms" using M(4) bs by simp
  have "(l, m) \<notin> ?L"
  proof
    assume "(l, m) \<in> ?L"
    then have "l \<in> fst ` (set ?us \<union> set ?vs \<union> set ms)" using imageI [OF subsetD [OF sub], of "(l, m)" fst] by simp
    moreover have "heap_shape granule s1 bs1 fs1 ms" using s1(2) by (simp add: heap_inv_def)
    from shape_distinct(1,3) [OF this] have "l \<notin> fst ` (set ?us \<union> set ?vs \<union> set ms)"
      by (auto simp: bs1_def heads_def image_Un)
    ultimately show False by contradiction
  qed
  then have "live bs1 ?fs2 ms = ?L" using s2(4) M(2) bs by simp
  moreover have "kept ?L s s2"
    by (rule kept_trans [OF kept_subset [OF s1(3) sub] kept_subset [OF s2(3)]]) (use sub in \<open>auto simp: bs1_def\<close>)
  moreover have "tally s2 = count bs1 ?fs2 ms" if "tally s = count bs fs ms"
    using s1(4) M(3) that bs by (intro s2(5)) simp
  moreover have "coalesced fs bs \<Longrightarrow> coalesced ?fs2 bs1" using M(5) bs by simp
  ultimately have "releases granule s bs fs ms (h, n) s2"
    unfolding releases_def using s2(2) by blast
  moreover have "sbrk_free sb h s = Inr s2" using s1(1) s2(1) by (simp add: sbrk_free_def)
  ultimately show ?thesis using that by blast
qed

end

end
