(* ===== verification/Malloc_Maps.thy ===== *)
theory Malloc_Maps
  imports Malloc_Ops
begin

text \<open>
  Mapped blocks: large requests get a mapping of their own from \<open>mmap\<close> and give it back with
  \<open>munmap\<close>. The facts hold for regular and for huge pages, so they serve \<open>malloc_3.cpp\<close> and
  \<open>malloc_4.cpp\<close>.
\<close>

section \<open>The mappings of the system\<close>

lemma round_up_least: "g dvd m \<Longrightarrow> n \<le> m \<Longrightarrow> round_up g n \<le> m"
proof (cases "g = 0")
  case False
  assume g: "g dvd m" "n \<le> m"
  have "(n + g - 1) div g \<le> (m + g - 1) div g" using g(2) by (intro div_le_mono) simp
  also have "(m + g - 1) div g = m div g"
  proof -
    obtain q where q: "m = g * q" using g(1) by (elim dvdE)
    have "((g - 1) + g * q) div g = q + (g - 1) div g" using False by (rule div_mult_self2)
    moreover have "(g - 1) div g = 0" using False by simp
    moreover have "g * q + g - 1 = (g - 1) + g * q" using False by simp
    ultimately show ?thesis using q False by simp
  qed
  finally have "round_up g n \<le> m div g * g" unfolding round_up_def by simp
  then show ?thesis using g(1) by simp
qed (simp add: round_up_def)

lemma page_dvd: "page False dvd page huge"
  by (cases huge) (simp_all add: page_def)

lemma round_up_page: "round_up (page False) n \<le> round_up (page huge) n"
proof (rule round_up_least)
  have "page huge dvd round_up (page huge) n" by (simp add: round_up_def)
  then show "page False dvd round_up (page huge) n" using page_dvd dvd_trans by blast
  show "n \<le> round_up (page huge) n" by (rule round_up_le) simp
qed

lemma mmap_cases:
  assumes ok: "kernel_ok k" and n: "48 \<le> n" "n \<le> 70368744177664"
  obtains k' where "mmap (of_nat n) huge k = (- 1, k')" "kernel_ok k'" "same_maps k k'" "os_break k' = os_break k"
      "os_refusals k < os_refusals k'"
  | a k' where "mmap (of_nat n) huge k = (a, k')" "a \<noteq> 0" "a \<noteq> - 1" "kernel_ok k'" "os_start k' = os_start k"
      "os_break k' = os_break k" "os_maps k' = (a, round_up (page huge) n, huge) # os_maps k"
      "os_refusals k' = os_refusals k" "page huge dvd unat a"
proof -
  let ?a = "os_places k (os_clock k)" and ?n = "round_up (page huge) n"
  let ?k = "k\<lparr>os_clock := Suc (os_clock k)\<rparr>"
  have un: "unat (of_nat n :: size_t) = n" using n(2) by (intro unat_of_nat_47) linarith
  have n0: "(of_nat n :: size_t) \<noteq> 0"
  proof
    assume "(of_nat n :: size_t) = 0"
    then have "unat (of_nat n :: size_t) = 0" by (simp only: unsigned_0)
    then show False using un n(1) by linarith
  qed
  let ?fits = "?a \<noteq> 0 \<and> page huge dvd unat ?a \<and> unat ?a + ?n \<le> 2 ^ 47
    \<and> apart (unat (os_start k)) (unat (os_break k) - unat (os_start k)) (unat ?a) ?n
    \<and> list_all (\<lambda>(b, j, _). apart (unat b) j (unat ?a) ?n) (os_maps k)"
  have eq: "mmap (of_nat n) huge k = (if ?fits then (?a, ?k\<lparr>os_maps := (?a, ?n, huge) # os_maps k\<rparr>)
      else (- 1, ?k\<lparr>os_refusals := Suc (os_refusals k)\<rparr>))"
    unfolding mmap_def Let_def un using n0 by (simp only: simp_thms if_False if_True not_False_eq_True)
  show ?thesis
  proof (cases ?fits)
    case True
    let ?k' = "?k\<lparr>os_maps := (?a, ?n, huge) # os_maps k\<rparr>"
    have a0: "0 < unat ?a" using True by (auto simp: unat_gt_0)
    have am: "?a \<noteq> - 1"
    proof
      assume "?a = - 1"
      then have "unat (- 1 :: addr) + ?n \<le> 2 ^ 47" using True by metis
      then show False unfolding unat_minus_one_64 by simp
    qed
    have ok1: "0 < unat (os_start k)" "unat (os_start k) \<le> unat (os_break k)" "unat (os_break k) \<le> 2 ^ 47"
      "\<forall>(b, n, _)\<in>set (os_maps k). 0 < unat b \<and> unat b + n \<le> 2 ^ 47
          \<and> apart (unat (os_start k)) (unat (os_break k) - unat (os_start k)) (unat b) n"
      "sorted_wrt (\<lambda>(a, n, _) (b, j, _). apart (unat b) j (unat a) n) (os_maps k)" "os_holes k = []"
      using ok unfolding kernel_ok_def by blast+
    have "kernel_ok ?k'"
      unfolding kernel_ok_def using ok1 True a0 by (simp add: list_all_iff case_prod_unfold)
    moreover have "mmap (of_nat n) huge k = (?a, ?k')" using eq unfolding if_P [OF True] .
    ultimately show ?thesis using that(2) [of ?a ?k'] True am by simp
  next
    case False
    let ?k' = "?k\<lparr>os_refusals := Suc (os_refusals k)\<rparr>"
    have "kernel_ok ?k'" using ok by (simp add: kernel_ok_def)
    moreover have "mmap (of_nat n) huge k = (- 1, ?k')" using eq unfolding if_not_P [OF False] .
    ultimately show ?thesis using that(1) [of ?k'] by (simp add: same_maps_def)
  qed
qed

lemma cut_map_apart:
  assumes "j \<noteq> 0" "apart (unat b) j a n"
  shows "cut_map a n (b, j, huge) = [(b, j, huge)]"
  using assms by (auto simp: cut_map_def apart_def max_def min_def)

lemma cut_map_inside:
  assumes "(c, i, g) \<in> set (cut_map a n (b, j, huge))" "unat b + j \<le> 140737488355328"
  shows "unat b \<le> unat c" "unat c + i \<le> unat b + j" "i \<noteq> 0"
proof -
  have "unat (of_nat (max (a + n) (unat b)) :: addr) = max (a + n) (unat b)"
    if "max (a + n) (unat b) < unat b + j"
    using that assms(2) by (intro unat_of_nat_47) linarith
  then show "unat b \<le> unat c" "unat c + i \<le> unat b + j" "i \<noteq> 0"
    using assms by (auto simp: cut_map_def split: if_splits)
qed

lemma cut_map_sorted:
  assumes "unat b + j \<le> 140737488355328"
  shows "sorted_wrt (\<lambda>(a, n, _) (b, j, _). apart (unat b) j (unat a) n) (cut_map a n (b, j, huge))"
proof -
  have "unat (of_nat (max (a + n) (unat b)) :: addr) = max (a + n) (unat b)"
    if "max (a + n) (unat b) < unat b + j"
    using that assms by (intro unat_of_nat_47) linarith
  then show ?thesis by (auto simp: cut_map_def apart_def)
qed

lemma sorted_wrt_cut:
  assumes "sorted_wrt (\<lambda>(a, n, _) (b, j, _). apart (unat b) j (unat a) n) xs"
    "\<forall>(b, j, _)\<in>set xs. unat b + j \<le> 140737488355328"
  shows "sorted_wrt (\<lambda>(a, n, _) (b, j, _). apart (unat b) j (unat a) n) (concat (map (cut_map a n) xs))"
  using assms
proof (induction xs)
  case (Cons x xs)
  obtain b j huge where x: "x = (b, j, huge)" by (cases x)
  have in_xs: "\<exists>c i g. (c, i, g) \<in> set xs \<and> unat c \<le> unat (fst y) \<and> unat (fst y) + fst (snd y) \<le> unat c + i"
    if y: "y \<in> set (concat (map (cut_map a n) xs))" for y
  proof -
    from y obtain c i g where c: "(c, i, g) \<in> set xs" "y \<in> set (cut_map a n (c, i, g))" by auto
    have "unat c + i \<le> 140737488355328" using Cons.prems(2) c(1) by auto
    then show ?thesis using c cut_map_inside [of "fst y" "fst (snd y)" "snd (snd y)" a n c i g] by auto
  qed
  have ap: "apart (unat c) i (unat b) j" if "(c, i, g) \<in> set xs" for c i g
    using Cons.prems(1) that x by auto
  have bj: "unat b + j \<le> 140737488355328" using Cons.prems(2) x by auto
  have "apart (unat (fst z)) (fst (snd z)) (unat (fst y)) (fst (snd y))"
    if y: "y \<in> set (cut_map a n x)" and z: "z \<in> set (concat (map (cut_map a n) xs))" for y z
  proof -
    have "unat b \<le> unat (fst y)" "unat (fst y) + fst (snd y) \<le> unat b + j"
      using cut_map_inside [of "fst y" "fst (snd y)" "snd (snd y)" a n b j huge] y x bj by auto
    then show ?thesis using in_xs [OF z] ap by (fastforce simp: apart_def)
  qed
  then show ?case
    using Cons cut_map_sorted [OF bj, of a n huge] x by (simp add: sorted_wrt_append case_prod_unfold)
qed simp

lemma munmap_ok:
  assumes ok: "kernel_ok k"
    and heap: "apart (unat (os_start k)) (unat (os_break k) - unat (os_start k)) (unat a) (round_up (page False) (unat len))"
  shows "kernel_ok (snd (munmap a len k))" "os_start (snd (munmap a len k)) = os_start k"
    "os_break (snd (munmap a len k)) = os_break k" "os_refusals (snd (munmap a len k)) = os_refusals k"
proof -
  let ?n = "round_up (page False) (unat len)"
  let ?k = "k\<lparr>os_maps := concat (map (cut_map (unat a) ?n) (os_maps k))\<rparr>"
  have m: "0 < unat b" "unat b + j \<le> 140737488355328"
    "apart (unat (os_start k)) (unat (os_break k) - unat (os_start k)) (unat b) j"
    if "(b, j, g) \<in> set (os_maps k)" for b j g
    using ok that unfolding kernel_ok_def by fastforce+
  have "0 < unat c \<and> unat c + i \<le> 2 ^ 47 \<and> apart (unat (os_start k)) (unat (os_break k) - unat (os_start k)) (unat c) i"
    if "(c, i, g) \<in> set (os_maps ?k)" for c i g
  proof -
    from that obtain b j h where b: "(b, j, h) \<in> set (os_maps k)" "(c, i, g) \<in> set (cut_map (unat a) ?n (b, j, h))"
      by auto
    show ?thesis using m [OF b(1)] cut_map_inside [OF b(2) m(2) [OF b(1)]] by (auto simp: apart_def)
  qed
  moreover have "sorted_wrt (\<lambda>(a, n, _) (b, j, _). apart (unat b) j (unat a) n) (os_maps ?k)"
    using ok m(2) by (simp add: kernel_ok_def) (intro sorted_wrt_cut, auto)
  moreover have "0 < unat (os_start ?k)" "unat (os_start ?k) \<le> unat (os_break ?k)" "unat (os_break ?k) \<le> 2 ^ 47"
    "os_start ?k = os_start k" "os_break ?k = os_break k" "os_holes ?k = []"
    using ok by (simp_all add: kernel_ok_def)
  ultimately have "kernel_ok ?k" unfolding kernel_ok_def by (intro conjI ballI) (simp_all only: split_paired_all prod.case)
  then show "kernel_ok (snd (munmap a len k))" "os_start (snd (munmap a len k)) = os_start k"
    "os_break (snd (munmap a len k)) = os_break k" "os_refusals (snd (munmap a len k)) = os_refusals k"
    using ok heap by (auto simp: munmap_def Let_def)
qed

text \<open>The pages of a mapped block are not those of the heap.\<close>

lemma mapped_apart_heap:
  assumes "kernel_ok k" "mapped k ms" "(a, n) \<in> set ms" "n \<le> 70368744177664"
  shows "apart (unat (os_start k)) (unat (os_break k) - unat (os_start k)) (unat a) (round_up (page False) (unat (of_nat n :: size_t)))"
proof -
  obtain g where "(a, round_up (page g) n, g) \<in> set (os_maps k)" using assms(2,3) by (auto simp: mapped_def)
  then have "apart (unat (os_start k)) (unat (os_break k) - unat (os_start k)) (unat a) (round_up (page g) n)"
    using assms(1) unfolding kernel_ok_def by fastforce
  moreover have "unat (of_nat n :: size_t) = n" using assms(4) by (intro unat_of_nat_47) linarith
  ultimately show ?thesis using round_up_page [of n g] by (auto simp: apart_def)
qed

section \<open>Blocks in mappings of their own\<close>

lemma heap_area_maps:
  assumes "heap_area g s bs" "kernel_ok kk" "os_start kk = os_start (kernel_of s)" "os_break kk = os_break (kernel_of s)"
  shows "heap_area g (s\<lparr>kernel_of := kk\<rparr>) bs"
  using assms by (auto simp: heap_area_def brk_at_def)

lemma fresh_mapping:
  assumes sh: "heap_shape g s bs fs ms" and k: "48 \<le> k"
    and kk: "kernel_ok kk" "os_start kk = os_start (kernel_of s)" "os_break kk = os_break (kernel_of s)"
      "os_maps kk = (a, round_up (page huge) k, huge) # os_maps (kernel_of s)"
  shows "heap_area g (s\<lparr>kernel_of := kk\<rparr>) bs" "mapped kk ((a, k) # ms)" "a \<notin> heads (set bs \<union> set ms)"
    "blocks_ok (set bs \<union> set ((a, k) # ms))"
proof -
  note D = heap_shape_D [OF sh]
  let ?t = "s\<lparr>kernel_of := kk\<rparr>"
  show ar: "heap_area g ?t bs" by (rule heap_area_maps [OF D(1) kk(1-3)])
  have old: "mapped kk ms" using D(2) kk(4) by (auto simp: mapped_def)
  have fresh_map: "a \<notin> fst ` set ms"
  proof
    assume "a \<in> fst ` set ms"
    then obtain n where n: "(a, n) \<in> set ms" by auto
    then obtain hg where hg: "(a, round_up (page hg) n, hg) \<in> set (os_maps (kernel_of s))" "48 \<le> n"
      using D(2) by (auto simp: mapped_def)
    have "sorted_wrt (\<lambda>(a, n, _) (b, j, _). apart (unat b) j (unat a) n) (os_maps kk)"
      using kk(1) by (simp add: kernel_ok_def)
    then have "apart (unat a) (round_up (page hg) n) (unat a) (round_up (page huge) k)"
      using hg(1) unfolding kk(4) by auto
    moreover have "n \<le> round_up (page hg) n" "k \<le> round_up (page huge) k" by (rule round_up_le, simp)+
    ultimately show False using hg(2) k by (auto simp: apart_def)
  qed
  show mp: "mapped kk ((a, k) # ms)" using old fresh_map k kk(4) by (auto simp: mapped_def)
  show "blocks_ok (set bs \<union> set ((a, k) # ms))" 
    by (rule shape_blocks_ok [OF ar]) (use mp in simp)
  have "a \<notin> heads (set bs)"
  proof
    assume "a \<in> heads (set bs)"
    then obtain n where n: "(a, n) \<in> set bs" by (auto simp: heads_iff)
    have "(a, k) \<in> set ((a, k) # ms)" by simp
    moreover have "mapped (kernel_of ?t) ((a, k) # ms)" using mp by simp
    ultimately show False
      using heap_mapped_apart [OF ar _ n] heap_area_bounds(3) [OF ar n] k by (fastforce simp: apart_def)
  qed
  then show "a \<notin> heads (set bs \<union> set ms)" using fresh_map by (auto simp: heads_def)
qed

lemma map_block_spec:
  assumes inv: "heap_inv g s bs fs ms" and k: "48 \<le> k"
    and kk: "kernel_ok kk" "os_start kk = os_start (kernel_of s)" "os_break kk = os_break (kernel_of s)"
      "os_maps kk = (a, round_up (page huge) k, huge) # os_maps (kernel_of s)"
  obtains s' where "init_sbrk_alloc_block sb a (of_nat k) False (s\<lparr>kernel_of := kk\<rparr>) = Inr (a, s')"
    "heap_inv g s' bs fs ((a, k) # ms)" "a \<notin> heads (set bs \<union> set ms)" "kept (set bs \<union> set ms) s s'"
    "tally s' = tally s" "kernel_of s' = kk" "\<forall>f. f \<noteq> F_size \<longrightarrow> get f s' a = 0"
proof -
  have sh: "heap_shape g s bs fs ms" and fl: "flags_ok s (set bs \<union> set ms) fs"
    and so: "sorted_wrt (precedes s) fs" using inv by (simp_all add: heap_inv_def)
  note D = heap_shape_D [OF sh] and ok = heap_shape_blocks_ok [OF sh]
  let ?t = "s\<lparr>kernel_of := kk\<rparr>"
  note M = fresh_mapping [OF sh k kk]
  note ar = M(1) and mp = M(2) and fresh = M(3) and ok' = M(4)
  have b: "(a, k) \<in> set bs \<union> set ((a, k) # ms)" by simp
  have bd: "unat a + k \<le> 140737488355328" by (rule blocks_ok_D(3) [OF ok' b])
  have "drawable ?t" using D(5) by (simp add: drawable_def)
  from init_alloc_spec [OF k bd this, of sb] obtain s' where s':
    "init_sbrk_alloc_block sb a (of_nat k) False ?t = Inr (a, s')" "writes_block a k ?t s'"
    "get F_is_free s' a = 0" "get F_next s' a = 0" "get F_prev s' a = 0" by blast
  have w: "beside s' = beside ?t" "sbrk_free_head s' = sbrk_free_head s" "keeps_coin s s'" "tails_ok s' {(a, k)}"
    "\<And>x. x \<notin> metadata a k \<Longrightarrow> mem s' x = mem s x"
    using s'(2) by (auto simp: writes_block_def keeps_coin_def coin_def)
  have out: "\<forall>x. \<not> (unat a \<le> unat x \<and> unat x < unat a + k) \<longrightarrow> mem s' x = mem s x"
    using k by (auto simp: metadata_def intro!: w(5))
  have off: "unat x + m \<le> unat a \<or> unat a + k \<le> unat x" if "(x, m) \<in> set bs \<union> set ms" for x m
    using blocks_ok_apart [OF ok' _ b, of x m] that fresh by auto
  note F = frame_others [OF ok off out]
  have "tails_ok s' (set bs \<union> set ms)"
  proof (cases "bs \<noteq> [] \<or> ms \<noteq> []")
    case True
    then have "global_rand_cookie s' = global_rand_cookie s"
      using D(4) w(3) by (auto simp: keeps_coin_def coin_def)
    then show ?thesis by (intro F(3) D(3))
  qed (simp add: tails_ok_def)
  then have "tails_ok s' (set bs \<union> set ((a, k) # ms))"
    using w(4) by (simp add: tails_ok_Un tails_ok_insert [of s' "(a, k)" "set bs \<union> set ms"])
  moreover have "free_list s' fs = free_list s fs"
    using D(7) by (intro free_list_cong [OF w(2)] F(1)) auto
  moreover have "heap_area g s' bs" using heap_area_cong [of s' ?t, OF beside_fields(1-3) [OF w(1)]] ar by simp
  moreover have c: "global_rand_cookie s' \<noteq> 0" using w(3) by (simp add: keeps_coin_def)
  moreover have km: "kernel_of s' = kk" using beside_fields(1) [OF w(1)] by simp
  ultimately have "heap_shape g s' bs fs ((a, k) # ms)"
    using mp D(6,7) by (intro heap_shape_I) (auto simp: drawable_def)
  moreover have "flags_ok s' (set bs \<union> set ((a, k) # ms)) fs"
    using fl F(1) s'(3) fresh D(7) by (auto simp: flags_ok_def)
  moreover have "sorted_wrt (precedes s') fs" using D(7) F(1) by (intro sorted_precedes_cong [OF so]) auto
  ultimately have "heap_inv g s' bs fs ((a, k) # ms)" by (simp add: heap_inv_def)
  moreover have "kept (set bs \<union> set ms) s s'" by (intro F(2))
  moreover have "tally s' = tally s" using w(1) by (simp add: beside_def tally_def)
  moreover have "\<forall>f. f \<noteq> F_size \<longrightarrow> get f s' a = 0" using s'(3-5) by (metis head_field.exhaust)
  ultimately show ?thesis using that s'(1) fresh km by blast
qed

lemma unmap_keeps:
  assumes ok: "kernel_ok k" and mp: "mapped k ms" and b: "(a, n) \<in> set ms" "n \<le> 70368744177664"
  shows "mapped (snd (munmap a (of_nat n) k)) (filter (\<lambda>b. fst b \<noteq> a) ms)"
proof -
  let ?r = "round_up (page False) n"
  have un: "unat (of_nat n :: size_t) = n" using b(2) by (intro unat_of_nat_47) linarith
  obtain hg where hg: "(a, round_up (page hg) n, hg) \<in> set (os_maps k)" using mp b(1) by (auto simp: mapped_def)
  have so: "sorted_wrt (\<lambda>(a, n, _) (b, j, _). apart (unat b) j (unat a) n) (os_maps k)"
    using ok by (simp add: kernel_ok_def)
  have stay: "(c, round_up (page g) i, g) \<in> set (os_maps (snd (munmap a (of_nat n) k)))"
    if "(c, round_up (page g) i, g) \<in> set (os_maps k)" "c \<noteq> a" "48 \<le> i" for c i g
  proof -
    have "apart (unat c) (round_up (page g) i) (unat a) (round_up (page hg) n)"
      using sorted_wrt_pair [OF so that(1) hg] that(2) by (auto simp: apart_def)
    then have ap: "apart (unat c) (round_up (page g) i) (unat a) ?r"
      using round_up_page [of n hg] by (auto simp: apart_def)
    have "i \<le> round_up (page g) i" by (rule round_up_le) simp
    then have "cut_map (unat a) ?r (c, round_up (page g) i, g) = [(c, round_up (page g) i, g)]"
      using that(3) by (intro cut_map_apart ap) auto
    then have "(c, round_up (page g) i, g) \<in> set (concat (map (cut_map (unat a) ?r) (os_maps k)))"
      using that(1) by force
    then show ?thesis using that(1) by (simp add: munmap_def Let_def un)
  qed
  have "distinct (map fst (filter (\<lambda>b. fst b \<noteq> a) ms))" using mp by (simp add: mapped_def distinct_map_filter)
  moreover have "48 \<le> i \<and> (\<exists>g. (c, round_up (page g) i, g) \<in> set (os_maps (snd (munmap a (of_nat n) k))))"
    if "(c, i) \<in> set ms" "c \<noteq> a" for c i
    using mp that stay unfolding mapped_def by blast
  ultimately show ?thesis unfolding mapped_def by auto
qed

lemma live_mapped: "live bs fs ((a, k) # ms) = insert (a, k) (live bs fs ms)"
  by (auto simp: live_def)

lemma count_mapped:
  "count bs fs ((a, k) # ms) = (case count bs fs ms of (fb, fy, ab, ay) \<Rightarrow> (fb, fy, ab + 1, ay + (of_nat k - 48)))"
  by (simp add: count_def)

lemma count_unmapped:
  assumes "distinct (map fst ms)" "(a, k) \<in> set ms"
  shows "count bs fs (filter (\<lambda>b. fst b \<noteq> a) ms) =
    (case count bs fs ms of (fb, fy, ab, ay) \<Rightarrow> (fb, fy, ab - 1, ay - (of_nat k - 48)))"
proof -
  obtain us vs where ms: "ms = us @ (a, k) # vs" using assms(2) by (meson split_list)
  have "filter (\<lambda>b. fst b \<noteq> a) us = us" "filter (\<lambda>b. fst b \<noteq> a) vs = vs"
    using assms(1) ms by (auto simp: filter_id_conv)
  then show ?thesis by (simp add: count_def ms)
qed

lemma mmap_free_spec:
  assumes inv: "heap_inv g s bs fs ms" and b: "(a, k) \<in> set ms" "k \<le> 70368744177664"
  defines "ms' \<equiv> filter (\<lambda>b. fst b \<noteq> a) ms"
  shows "heap_inv g (mmap_free a s) bs fs ms'" "live bs fs ms' = live bs fs ms - {(a, k)}"
    "mem (mmap_free a s) = mem s" "tally s = count bs fs ms \<Longrightarrow> tally (mmap_free a s) = count bs fs ms'"
proof -
  have sh: "heap_shape g s bs fs ms" and fl: "flags_ok s (set bs \<union> set ms) fs"
    and so: "sorted_wrt (precedes s) fs" using inv by (simp_all add: heap_inv_def)
  note D = heap_shape_D [OF sh]
  have size: "get F_size s a = of_nat k" using tails_ok_size [OF D(3), of a k] b(1) by simp
  let ?k = "snd (munmap a (of_nat k) (kernel_of s))"
  let ?s = "mmap_free a s"
  have ko: "kernel_ok (kernel_of s)" using D(1) by (simp add: heap_area_def)
  have s': "mem ?s = mem s" "coin ?s = coin s" "sbrk_free_head ?s = sbrk_free_head s" "kernel_of ?s = ?k"
    by (simp_all add: mmap_free_def coin_def size)
  note M = same_memory [OF s'(1-3)] and U = munmap_ok [OF ko mapped_apart_heap [OF ko D(2) b]]
  have sub: "set ms' \<subseteq> set ms" by (auto simp: ms'_def)
  have "heap_area g (s\<lparr>kernel_of := ?k\<rparr>) bs" by (rule heap_area_maps [OF D(1) U(1-3)])
  then have "heap_area g ?s bs"
    by (auto simp: heap_area_def brk_at_def mmap_free_def size split: if_splits)
  moreover have "mapped (kernel_of ?s) ms'" unfolding s'(4) ms'_def by (rule unmap_keeps [OF ko D(2) b])
  moreover have "tails_ok s (set bs \<union> set ms')" using D(3) sub by (auto simp: tails_ok_def)
  moreover have "ms = [] \<Longrightarrow> ms' = []" by (simp add: ms'_def)
  ultimately have "heap_shape g ?s bs fs ms'"
    using D(4-7) M s'(2) sub by (intro heap_shape_I) (auto simp: coin_def)
  moreover have "flags_ok ?s (set bs \<union> set ms') fs"
    using flags_ok_subset [OF fl, of "set bs \<union> set ms'"] sub M(3) by auto
  ultimately show "heap_inv g ?s bs fs ms'" using so M(4) by (simp add: heap_inv_def)
  have dm: "distinct (map fst ms)" using D(2) by (simp add: mapped_def)
  show "live bs fs ms' = live bs fs ms - {(a, k)}"
  proof -
    have "fst b \<noteq> a \<longleftrightarrow> b \<noteq> (a, k)" if "b \<in> set ms" for b
      using dm b(1) that by (cases b) (auto dest: eq_key_imp_eq_value)
    then have "set ms' = set ms - {(a, k)}" by (auto simp: ms'_def)
    moreover have "(a, k) \<notin> set bs" using shape_distinct(3) [OF sh] b(1) by blast
    ultimately show ?thesis by (auto simp: live_def)
  qed
  show "mem ?s = mem s" by (rule s'(1))
  show "tally ?s = count bs fs ms'" if "tally s = count bs fs ms"
    using size unfolding ms'_def count_unmapped [OF dm b(1)] that [symmetric]
    by (simp add: tally_def mmap_free_def size_constants)
qed

end
