(* ===== verification/Malloc_Client.thy ===== *)
theory Malloc_Client
  imports Malloc_Maps
begin

text \<open>
  What a client of the block allocator sees, for any \<open>_sbrk\<close> that keeps the contract \<open>break_ops\<close>:
  \<open>sound\<close> is the state between two calls, \<open>allocates\<close> and \<open>frees\<close> are what a call may do to the set of
  live blocks. The lemmas are proved once in the locale \<open>heap_ops\<close> and serve \<open>malloc_3.cpp\<close>
  (\<open>h3\<close>) and \<open>malloc_4.cpp\<close> (\<open>h4\<close>).
\<close>

section \<open>The state between two calls\<close>

definition sizes_ok :: "(addr \<times> nat) list \<Rightarrow> addr list \<Rightarrow> (addr \<times> nat) list \<Rightarrow> bool" where
  "sizes_ok bs fs ms \<longleftrightarrow> (\<forall>b\<in>set bs. fst b \<notin> set fs \<longrightarrow> snd b < 131120)
     \<and> (\<forall>b\<in>set ms. 131120 \<le> snd b \<and> snd b \<le> 70368744177664 \<and> 8 dvd unat (fst b))"

definition sound :: "nat \<Rightarrow> heap \<Rightarrow> (addr \<times> nat) list \<Rightarrow> addr list \<Rightarrow> (addr \<times> nat) list \<Rightarrow> bool" where
  "sound g s bs fs ms \<longleftrightarrow> heap_inv g s bs fs ms \<and> coalesced fs bs \<and> sizes_ok bs fs ms"

definition allocates ::
  "nat \<Rightarrow> heap \<Rightarrow> (addr \<times> nat) list \<Rightarrow> addr list \<Rightarrow> (addr \<times> nat) list \<Rightarrow> nat \<Rightarrow> addr \<Rightarrow> heap \<Rightarrow> bool"
where
  "allocates g s bs fs ms k h s' \<longleftrightarrow>
     (if h = 0 then sound g s' bs fs ms \<and> mem s' = mem s \<and> os_refusals (kernel_of s) < os_refusals (kernel_of s')
      else \<exists>m bs' fs' ms'. sound g s' bs' fs' ms' \<and> live bs' fs' ms' = insert (h, m) (live bs fs ms)
        \<and> h \<notin> heads (live bs fs ms) \<and> k \<le> m \<and> m < k + 176 \<and> kept (live bs fs ms) s s'
        \<and> (tally s = count bs fs ms \<and> os_refusals (kernel_of s') = os_refusals (kernel_of s) \<longrightarrow>
             tally s' = count bs' fs' ms'))"

definition frees ::
  "nat \<Rightarrow> heap \<Rightarrow> (addr \<times> nat) list \<Rightarrow> addr list \<Rightarrow> (addr \<times> nat) list \<Rightarrow> addr \<times> nat \<Rightarrow> heap \<Rightarrow> bool"
where
  "frees g s bs fs ms b s' \<longleftrightarrow> (\<exists>bs' fs' ms'. sound g s' bs' fs' ms'
     \<and> live bs' fs' ms' = live bs fs ms - {b} \<and> kept (live bs fs ms - {b}) s s'
     \<and> (tally s = count bs fs ms \<longrightarrow> tally s' = count bs' fs' ms'))"

lemma live_disjoint:
  assumes "heap_inv g s bs fs ms" "b \<in> set bs"
  shows "b \<notin> set ms"
proof -
  have "heads (set bs) \<inter> heads (set ms) = {}"
    by (rule shape_distinct(3) [of g s _ fs]) (use assms(1) in \<open>simp add: heap_inv_def\<close>)
  then show ?thesis using assms(2) by (auto simp: heads_def)
qed

lemma sizes_ok_step:
  assumes "sizes_ok bs fs ms" "live bs' fs' ms \<subseteq> insert b (live bs fs ms)" "snd b < 131120" "heap_inv g s' bs' fs' ms"
  shows "sizes_ok bs' fs' ms"
  using assms live_disjoint [OF assms(4)] unfolding sizes_ok_def live_def by blast

lemma live_heads_fresh: "h \<notin> heads (set bs \<union> set ms) \<Longrightarrow> h \<notin> heads (live bs fs ms)"
  using live_subset [of bs fs ms] unfolding heads_def by blast

lemma allocates_I:
  assumes "h \<noteq> 0" "sound g s' bs' fs' ms'" "live bs' fs' ms' = insert (h, m) (live bs fs ms)"
    "h \<notin> heads (live bs fs ms)" "k \<le> m" "m < k + 176" "kept (live bs fs ms) s s'"
    "tally s = count bs fs ms \<Longrightarrow> os_refusals (kernel_of s') = os_refusals (kernel_of s) \<Longrightarrow> tally s' = count bs' fs' ms'"
  shows "allocates g s bs fs ms k h s'"
  unfolding allocates_def if_not_P [OF assms(1)] using assms(2-8) by blast

lemma inv_kernel:
  assumes inv: "heap_inv g s bs fs ms" and k: "kernel_ok kk" "same_maps (kernel_of s) kk" "os_break kk = os_break (kernel_of s)"
  shows "heap_inv g (s\<lparr>kernel_of := kk\<rparr>) bs fs ms"
proof -
  have sh: "heap_shape g s bs fs ms" using inv by (simp add: heap_inv_def)
  note D = heap_shape_D [OF sh] and M = same_memory [of "s\<lparr>kernel_of := kk\<rparr>" s]
  have "heap_area g (s\<lparr>kernel_of := kk\<rparr>) bs"
    using k(2) by (intro heap_area_maps [OF D(1) k(1) _ k(3)]) (simp add: same_maps_def)
  moreover have "mapped kk ms" using D(2) k(2) by (simp add: mapped_def same_maps_def)
  ultimately have "heap_shape g (s\<lparr>kernel_of := kk\<rparr>) bs fs ms"
    using D(3-7) M by (intro heap_shape_I) (simp_all add: coin_def)
  then show ?thesis using inv M by (simp add: heap_inv_def coin_def)
qed

lemma gives_allocates:
  assumes g: "gives g t bs fs ms k h s'" and m: "mem t = mem s" and k: "k + 175 < 131120"
    and so: "coalesced fs bs" "sizes_ok bs fs ms"
    and t: "os_refusals (kernel_of s') = os_refusals (kernel_of s) \<Longrightarrow> t = s"
  shows "allocates g s bs fs ms k h s'"
proof -
  from g obtain m' bs' fs' where 1: "heap_inv g s' bs' fs' ms" "h \<noteq> 0"
    "live bs' fs' ms = insert (h, m') (live bs fs ms)" "h \<notin> heads (live bs fs ms)"
    "k \<le> m'" "m' < k + 176" "kept (live bs fs ms) t s'"
    "tally t = count bs fs ms \<longrightarrow> tally s' = count bs' fs' ms" "coalesced fs bs \<longrightarrow> coalesced fs' bs'"
    unfolding gives_def by blast
  have "sizes_ok bs' fs' ms" using 1(3,6) k by (intro sizes_ok_step [OF so(2) _ _ 1(1), of "(h, m')"]) simp_all
  then have "sound g s' bs' fs' ms" using 1(1,9) so(1) by (simp add: sound_def)
  moreover have "kept (live bs fs ms) s s'" using 1(7) m by (simp add: kept_def)
  moreover have "tally s = count bs fs ms \<and> os_refusals (kernel_of s') = os_refusals (kernel_of s) \<longrightarrow>
      tally s' = count bs' fs' ms" using 1(8) t by blast
  ultimately show ?thesis using 1(2-6) by (intro allocates_I [OF 1(2) _ 1(3-6)]) blast+
qed

section \<open>Mapped blocks\<close>

lemma mapping_allocates:
  assumes so: "sound g s bs fs ms" and k: "131120 \<le> k" "k \<le> 70368744177664"
  obtains (refused) s' where "mmap (of_nat k) huge (kernel_of s) = (- 1, kernel_of s')" "s' = s\<lparr>kernel_of := kernel_of s'\<rparr>"
      "allocates g s bs fs ms k 0 s'"
  | (mapped) a kk t where "mmap (of_nat k) huge (kernel_of s) = (a, kk)" "a \<noteq> - 1" "a \<noteq> 0"
      "init_sbrk_alloc_block sb a (of_nat k) False (s\<lparr>kernel_of := kk\<rparr>) = Inr (a, t)"
      "page huge dvd unat a" "heap_inv g t bs fs ((a, k) # ms)"
      "\<And>s'. heap_inv g s' bs fs ((a, k) # ms) \<Longrightarrow> kept (set bs \<union> set ms) t s' \<Longrightarrow>
         tally s' = (case tally t of (fb, fy, ab, ay) \<Rightarrow> (fb, fy, ab + 1, ay + (of_nat k - 48))) \<Longrightarrow>
         allocates g s bs fs ms k a s'"
proof -
  have inv: "heap_inv g s bs fs ms" and ko: "kernel_ok (kernel_of s)"
    using so by (auto simp: sound_def heap_inv_def heap_shape_def heap_area_def)
  have k': "48 \<le> k" using k(1) by simp
  show ?thesis
  proof (rule mmap_cases [OF ko k' k(2), of huge])
    fix kk assume m: "mmap (of_nat k) huge (kernel_of s) = (- 1, kk)" "kernel_ok kk" "same_maps (kernel_of s) kk"
      "os_break kk = os_break (kernel_of s)" "os_refusals (kernel_of s) < os_refusals kk"
    let ?s = "s\<lparr>kernel_of := kk\<rparr>"
    have "heap_inv g ?s bs fs ms" by (rule inv_kernel [OF inv m(2) m(3) m(4)])
    then have "allocates g s bs fs ms k 0 ?s" using so m(5) by (simp add: allocates_def sound_def)
    then show thesis using refused [of ?s] m(1) by simp
  next
    fix a kk assume m: "mmap (of_nat k) huge (kernel_of s) = (a, kk)" "a \<noteq> 0" "a \<noteq> - 1" "kernel_ok kk"
      "os_start kk = os_start (kernel_of s)" "os_break kk = os_break (kernel_of s)"
      "os_maps kk = (a, round_up (page huge) k, huge) # os_maps (kernel_of s)"
      "os_refusals kk = os_refusals (kernel_of s)" "page huge dvd unat a"
    obtain t where t: "init_sbrk_alloc_block sb a (of_nat k) False (s\<lparr>kernel_of := kk\<rparr>) = Inr (a, t)"
      "heap_inv g t bs fs ((a, k) # ms)" "a \<notin> heads (set bs \<union> set ms)" "kept (set bs \<union> set ms) s t"
      "tally t = tally s" "kernel_of t = kk"
      using map_block_spec [OF inv k' m(4-7)] by metis
    have "allocates g s bs fs ms k a s'" if c: "heap_inv g s' bs fs ((a, k) # ms)" "kept (set bs \<union> set ms) t s'"
      and ta: "tally s' = (case tally t of (fb, fy, ab, ay) \<Rightarrow> (fb, fy, ab + 1, ay + (of_nat k - 48)))" for s'
    proof -
      have "8 dvd unat a" by (rule dvd_trans [OF _ m(9)]) (simp add: page_def)
      then have "sizes_ok bs fs ((a, k) # ms)" using so k by (simp add: sound_def sizes_ok_def)
      then have "sound g s' bs fs ((a, k) # ms)" using c(1) so by (simp add: sound_def)
      moreover have "kept (live bs fs ms) s s'" by (rule kept_subset [OF kept_trans [OF t(4) c(2)] live_subset])
      moreover have "tally s = count bs fs ms \<longrightarrow> tally s' = count bs fs ((a, k) # ms)"
        using ta t(5) by (simp add: count_mapped)
      ultimately show ?thesis
        by (intro allocates_I [OF m(2) _ live_mapped live_heads_fresh [OF t(3)]]) simp_all
    qed
    then show thesis using mapped [OF m(1,3,2) t(1) m(9) t(2)] by blast
  qed
qed

lemma mmap_malloc_allocates:
  assumes "sound g s bs fs ms" "131120 \<le> k" "k \<le> 70368744177664"
  shows "\<exists>h s'. mmap_malloc sb (of_nat k) s = Inr (h, s') \<and> allocates g s bs fs ms k h s'"
proof (rule mapping_allocates [OF assms, where huge = False and sb = sb])
  fix s' assume "mmap (of_nat k) False (kernel_of s) = (- 1, kernel_of s')" "s' = s\<lparr>kernel_of := kernel_of s'\<rparr>"
    "allocates g s bs fs ms k 0 s'"
  then show ?thesis by (intro exI [of _ 0] exI [of _ s']) (simp add: mmap_malloc_def)
next
  fix a kk t
  assume 1: "mmap (of_nat k) False (kernel_of s) = (a, kk)" "a \<noteq> - 1"
    "init_sbrk_alloc_block sb a (of_nat k) False (s\<lparr>kernel_of := kk\<rparr>) = Inr (a, t)"
    and inv: "heap_inv g t bs fs ((a, k) # ms)"
    and al: "\<And>s'. heap_inv g s' bs fs ((a, k) # ms) \<Longrightarrow> kept (set bs \<union> set ms) t s' \<Longrightarrow> tally s' = (case tally t of (fb, fy, ab, ay) \<Rightarrow> (fb, fy, ab + 1, ay + (of_nat k - 48))) \<Longrightarrow>
         allocates g s bs fs ms k a s'"
  let ?s = "t\<lparr>allocated_blocks_num := allocated_blocks_num t + 1,
          allocated_bytes_num := allocated_bytes_num t + (of_nat k - size_meta_data)\<rparr>"
  have "allocates g s bs fs ms k a ?s"
    using inv core_inv [of ?s t]
    by (intro al) (simp_all add: core_def coin_def tally_def size_constants kept_mem)
  then show ?thesis by (intro exI [of _ a] exI [of _ ?s]) (simp add: mmap_malloc_def 1)
qed

section \<open>Heap blocks\<close>

lemma live_block:
  assumes inv: "heap_inv g s bs fs ms" and b: "(h, n) \<in> live bs fs ms"
  shows "check_cookie h s = Inr ()" "get F_is_free s h = 0" "get F_size s h = of_nat n"
    "h \<noteq> 0" "48 \<le> n" "unat h + n \<le> 140737488355328"
proof -
  have sh: "heap_shape g s bs fs ms" and fl: "flags_ok s (set bs \<union> set ms) fs" using inv by (simp_all add: heap_inv_def)
  note D = heap_shape_D [OF sh] and ok = heap_shape_blocks_ok [OF sh]
  have m: "(h, n) \<in> set bs \<union> set ms" using b live_subset by blast
  show "check_cookie h s = Inr ()" by (rule check_cookie_ok [OF D(3)]) (use m in blast)
  show "get F_size s h = of_nat n" by (rule tails_ok_size [OF D(3) m])
  show "48 \<le> n" "unat h + n \<le> 140737488355328" "h \<noteq> 0" using blocks_ok_D [OF ok m] by auto
  have "h \<notin> set fs"
  proof
    assume "h \<in> set fs"
    then have "h \<in> heads (set bs)" using D(7) by blast
    with b \<open>h \<in> set fs\<close> show False using shape_distinct(3) [OF sh] by (auto simp: live_def heads_iff)
  qed
  moreover have "h \<in> heads (set bs \<union> set ms)" using m by (rule heads_I)
  ultimately show "get F_is_free s h = 0" using fl unfolding flags_ok_def by simp
qed

lemma live_blocks_ok: "heap_inv g s bs fs ms \<Longrightarrow> blocks_ok (live bs fs ms)"
  using heap_shape_blocks_ok [of g s bs fs ms] live_subset [of bs fs ms]
  unfolding blocks_ok_def heap_inv_def by blast

context heap_ops
begin

lemma sbrk_malloc_allocates:
  assumes so: "sound granule s bs fs ms" and f: "sbrk_head s = 0 \<Longrightarrow> first_ok (kernel_of s)"
    and k: "48 \<le> k" "granule dvd k" "k + 175 < 131120"
  shows "\<exists>h s'. sbrk_malloc sb (of_nat k) s = Inr (h, s') \<and> allocates granule s bs fs ms k h s'"
proof -
  have inv: "heap_inv granule s bs fs ms" and co: "coalesced fs bs" "sizes_ok bs fs ms" using so by (simp_all add: sound_def)
  have k': "k \<le> 70368744177664" using k(3) by simp
  show ?thesis
  proof (rule sbrk_malloc_spec [OF inv f k(1,2) k'])
    fix s' assume "sbrk_malloc sb (of_nat k) s = Inr (0, s')" "heap_inv granule s' bs fs ms"
      "mem s' = mem s" "os_refusals (kernel_of s) < os_refusals (kernel_of s')"
    then show ?thesis using co by (auto simp: allocates_def sound_def)
  next
    fix h s' assume "sbrk_malloc sb (of_nat k) s = Inr (h, s')" "gives granule s bs fs ms k h s'"
    then show ?thesis using gives_allocates [OF _ refl k(3) co] by blast
  next
    fix t h s' assume 1: "sbrk_malloc sb (of_nat k) s = Inr (h, s')" "gives granule t bs fs ms k h s'" "mem t = mem s"
      "os_refusals (kernel_of s) < os_refusals (kernel_of s')"
    have "allocates granule s bs fs ms k h s'"
      by (rule gives_allocates [OF 1(2,3) k(3) co]) (use 1(4) in simp)
    then show ?thesis using 1(1) by blast
  qed
qed

lemma free_frees:
  assumes so: "sound granule s bs fs ms" and b: "(h, n) \<in> live bs fs ms"
  shows "\<exists>s'. free_with sb (h + 32) s = Inr s' \<and> frees granule s bs fs ms (h, n) s'"
proof -
  have inv: "heap_inv granule s bs fs ms" and co: "coalesced fs bs" and sz: "sizes_ok bs fs ms" using so by (simp_all add: sound_def)
  note B = live_block [OF inv b]
  have "unat (h + 32) = unat h + 32" using B(5,6) by (subst unat_plus_64) simp_all
  then have nz: "h + 32 \<noteq> 0" by (metis add_is_0 unat_0 zero_neq_numeral)
  have n: "unat (of_nat n :: 64 word) = n" by (rule unat_of_nat_47) (use B(6) in simp)
  have small: "is_sbrk_alloc s h \<longleftrightarrow> n < 131120"
    using n by (simp add: is_sbrk_alloc_def B(3) size_constants word_less_nat_alt)
  have free: "free_with sb (h + 32) s = (if n < 131120 then sbrk_free sb h s else Inr (mmap_free h s))"
    using nz by (simp add: free_with_def B(1,2) small)
  show ?thesis
  proof (cases "(h, n) \<in> set ms")
    case True
    then have big: "131120 \<le> n" "n \<le> 70368744177664" using sz by (auto simp: sizes_ok_def)
    let ?ms = "filter (\<lambda>b. fst b \<noteq> h) ms"
    note F = mmap_free_spec [OF inv True big(2)]
    have "sizes_ok bs fs ?ms" using sz by (auto simp: sizes_ok_def)
    then have "sound granule (mmap_free h s) bs fs ?ms" using F(1) co by (simp add: sound_def)
    then have "frees granule s bs fs ms (h, n) (mmap_free h s)"
      using F(2-4) kept_mem [OF F(3)] unfolding frees_def by blast
    then show ?thesis using free big(1) by simp
  next
    case False
    then have hb: "(h, n) \<in> set bs" "h \<notin> set fs" and sm: "n < 131120"
      using b sz by (auto simp: live_def sizes_ok_def)
    show ?thesis
    proof (rule sbrk_free_spec [OF inv hb])
      fix s' assume 1: "sbrk_free sb h s = Inr s'" "releases granule s bs fs ms (h, n) s'"
      then obtain bs' fs' where 2: "heap_inv granule s' bs' fs' ms" "live bs' fs' ms = live bs fs ms - {(h, n)}"
        "kept (live bs fs ms - {(h, n)}) s s'" "tally s = count bs fs ms \<longrightarrow> tally s' = count bs' fs' ms"
        "coalesced fs bs \<longrightarrow> coalesced fs' bs'" unfolding releases_def by blast
      have "sizes_ok bs' fs' ms" using 2(2) sm by (intro sizes_ok_step [OF sz _ _ 2(1), of "(h, n)"]) auto
      then have "sound granule s' bs' fs' ms" using 2(1,5) co by (simp add: sound_def)
      then have "frees granule s bs fs ms (h, n) s'" using 2(2-4) unfolding frees_def by blast
      then show ?thesis using free sm 1(1) by simp
    qed
  qed
qed

end

interpretation h3: heap_ops m3_sbrk 1 "\<lambda>_. True"
  by unfold_locales

interpretation h4: heap_ops m4_sbrk 8 aligns_first
  by unfold_locales

section \<open>Writes of the client\<close>

lemma payload_write_metadata:
  assumes ok: "blocks_ok B" and b: "(h, n) \<in> B" "x \<in> payload h n" and b': "(h', n') \<in> B" "y \<in> metadata h' n'"
  shows "x \<noteq> y"
  using blocks_ok_apart [OF ok b(1) b'(1)] blocks_ok_D(2) [OF ok b(1)] blocks_ok_D(2) [OF ok b'(1)] b(2) b'(2)
  by (auto simp: payload_def metadata_def)

lemma payload_write:
  assumes inv: "heap_inv g s bs fs ms"
    and w: "\<And>y h n. (h, n) \<in> set bs \<union> set ms \<Longrightarrow> y \<in> metadata h n \<Longrightarrow> m y = mem s y"
  shows "heap_inv g (s\<lparr>mem := m\<rparr>) bs fs ms"
proof -
  have sh: "heap_shape g s bs fs ms" and fl: "flags_ok s (set bs \<union> set ms) fs"
    and so: "sorted_wrt (precedes s) fs" using inv by (simp_all add: heap_inv_def)
  note D = heap_shape_D [OF sh] and ok = heap_shape_blocks_ok [OF sh]
  let ?s = "s\<lparr>mem := m\<rparr>"
  have g: "get f ?s h = get f s h" if "h \<in> heads (set bs \<union> set ms)" for f h
  proof -
    from that obtain n where b: "(h, n) \<in> set bs \<union> set ms" by (auto simp: heads_iff)
    show ?thesis by (rule block_frame(1) [OF blocks_ok_D(2,3) [OF ok b]]) (simp add: w [OF b])
  qed
  have fb: "set fs \<subseteq> heads (set bs \<union> set ms)" using D(7) by (auto simp: heads_def)
  have "tails_ok ?s (set bs \<union> set ms)" by (rule tails_ok_frame [OF ok D(3)]) (simp_all add: w)
  moreover have "free_list ?s fs = free_list s fs" by (rule free_list_cong) (use g fb in auto)
  moreover have "heap_area g ?s bs = heap_area g s bs" by (rule heap_area_cong) simp_all
  moreover have "drawable ?s = drawable s" by (rule drawable_coin) (simp add: coin_def)
  ultimately have "heap_shape g ?s bs fs ms" using D by (intro heap_shape_I) simp_all
  moreover have "flags_ok ?s (set bs \<union> set ms) fs" using fl g by (simp add: flags_ok_def)
  moreover have "sorted_wrt (precedes ?s) fs"
    by (rule sorted_wrt_mono_rel [OF _ so]) (use g [OF subsetD [OF fb]] in \<open>simp add: precedes_def\<close>)
  ultimately show ?thesis by (simp add: heap_inv_def)
qed

section \<open>The set of live blocks\<close>

definition allocator_ok :: "nat \<Rightarrow> heap \<Rightarrow> blocks \<Rightarrow> bool" where
  "allocator_ok g s L \<longleftrightarrow> (\<exists>bs fs ms. sound g s bs fs ms \<and> L = live bs fs ms)"

definition counters_ok :: "nat \<Rightarrow> heap \<Rightarrow> blocks \<Rightarrow> bool" where
  "counters_ok g s L \<longleftrightarrow> (\<exists>bs fs ms. sound g s bs fs ms \<and> L = live bs fs ms \<and> tally s = count bs fs ms)"

definition refused_some :: "heap \<Rightarrow> heap \<Rightarrow> bool" where
  "refused_some s s' \<longleftrightarrow> os_refusals (kernel_of s') \<noteq> os_refusals (kernel_of s)"

definition boot :: "heap \<Rightarrow> bool" where
  "boot s \<longleftrightarrow> kernel_ok (kernel_of s) \<and> (\<exists>r\<in>set (rands s). r \<noteq> 0) \<and> program_break s = None \<and> global_rand_cookie s = 0
     \<and> sbrk_head s = 0 \<and> sbrk_free_head s = 0 \<and> tally s = (0, 0, 0, 0)"

lemma boot_sound: "boot s \<Longrightarrow> sound g s [] [] [] \<and> tally s = count [] [] []"
  by (auto simp: boot_def sound_def heap_inv_def heap_shape_def heap_area_def mapped_def tails_ok_def drawable_def
      free_list_def flags_ok_def coalesced_def sizes_ok_def heads_def count_def bytes_in_def)

lemma boot_counters: "boot s \<Longrightarrow> counters_ok g s {}"
  using boot_sound [of s g] unfolding counters_ok_def by (intro exI [of _ "[]"]) (simp add: live_def)

lemma counters_allocator: "counters_ok g s L \<Longrightarrow> allocator_ok g s L"
  by (auto simp: counters_ok_def allocator_ok_def)

lemma allocator_blocks:
  assumes "allocator_ok g s L"
  shows "blocks_ok L"
  using assms live_blocks_ok by (auto simp: allocator_ok_def sound_def)

lemma allocator_size:
  assumes "allocator_ok g s L" "(h, n) \<in> L"
  shows "n = unat (get F_size s h)" "h \<noteq> 0" "48 \<le> n" "unat h + n \<le> 140737488355328"
proof -
  from assms obtain bs fs ms where "heap_inv g s bs fs ms" "(h, n) \<in> live bs fs ms"
    by (auto simp: allocator_ok_def sound_def)
  note B = live_block [OF this]
  show "n = unat (get F_size s h)" using B(3) unat_of_nat_47 [of n] B(6) by simp
  show "h \<noteq> 0" "48 \<le> n" "unat h + n \<le> 140737488355328" by (rule B)+
qed

text \<open>What a call of an allocating function does to the set of live blocks.\<close>

definition served :: "nat \<Rightarrow> nat \<Rightarrow> heap \<Rightarrow> blocks \<Rightarrow> addr \<Rightarrow> nat \<Rightarrow> heap \<Rightarrow> bool" where
  "served g k s L h m s' \<longleftrightarrow> k \<le> m \<and> m < k + 176 \<and> h \<notin> heads L \<and> allocator_ok g s' (insert (h, m) L) \<and> kept L s s'
     \<and> (counters_ok g s L \<and> \<not> refused_some s s' \<longrightarrow> counters_ok g s' (insert (h, m) L))"

definition denied :: "nat \<Rightarrow> heap \<Rightarrow> blocks \<Rightarrow> heap \<Rightarrow> bool" where
  "denied g s L s' \<longleftrightarrow> allocator_ok g s' L \<and> mem s' = mem s \<and> refused_some s s'"

lemma allocates_denied: "allocates g s bs fs ms k 0 s' \<Longrightarrow> denied g s (live bs fs ms) s'"
  by (auto simp: allocates_def denied_def refused_some_def allocator_ok_def)

lemma allocates_live:
  assumes "allocates g s bs fs ms k h s'" "h \<noteq> 0"
  defines "m \<equiv> unat (get F_size s' h)" and "L \<equiv> live bs fs ms"
  shows "k \<le> m" "m < k + 176" "h \<notin> heads L" "allocator_ok g s' (insert (h, m) L)" "kept L s s'"
    "tally s = count bs fs ms \<Longrightarrow> \<not> refused_some s s' \<Longrightarrow> counters_ok g s' (insert (h, m) L)"
proof -
  from assms(1,2) obtain m' bs' fs' ms' where 1: "sound g s' bs' fs' ms'" "live bs' fs' ms' = insert (h, m') L"
    "h \<notin> heads L" "k \<le> m'" "m' < k + 176" "kept L s s'"
    "tally s = count bs fs ms \<and> os_refusals (kernel_of s') = os_refusals (kernel_of s) \<longrightarrow> tally s' = count bs' fs' ms'"
    unfolding allocates_def L_def by auto
  have ok: "allocator_ok g s' (insert (h, m') L)" using 1(1,2) unfolding allocator_ok_def by metis
  have m: "m = m'" using allocator_size(1) [OF ok, of h m'] by (simp add: m_def)
  show "k \<le> m" "m < k + 176" "h \<notin> heads L" "kept L s s'" using 1(3-6) m by simp_all
  show "allocator_ok g s' (insert (h, m) L)" using ok m by simp
  show "counters_ok g s' (insert (h, m) L)" if "tally s = count bs fs ms" "\<not> refused_some s s'"
    using 1(1,2,7) that unfolding counters_ok_def m refused_some_def by metis
qed

lemma allocates_client:
  assumes al: "\<And>bs fs ms. sound g s bs fs ms \<Longrightarrow> live bs fs ms = L \<Longrightarrow> allocates g s bs fs ms k h s'"
    and ok: "allocator_ok g s L"
  shows "if h = 0 then denied g s L s' else served g k s L h (unat (get F_size s' h)) s'"
proof -
  from ok obtain bs fs ms where so: "sound g s bs fs ms" "L = live bs fs ms" by (auto simp: allocator_ok_def)
  have 1: "allocates g s bs fs ms k h s'" using al [OF so(1)] so(2) by simp
  show ?thesis
  proof (cases "h = 0")
    case True
    then show ?thesis using allocates_denied 1 so(2) by simp
  next
    case False
    have "counters_ok g s' (insert (h, unat (get F_size s' h)) L)" if c: "counters_ok g s L" and r: "\<not> refused_some s s'"
    proof -
      from c obtain bs fs ms where so: "sound g s bs fs ms" "L = live bs fs ms" "tally s = count bs fs ms"
        by (auto simp: counters_ok_def)
      show ?thesis using allocates_live(6) [OF al [OF so(1) so(2) [symmetric]] False so(3) r] so(2) by simp
    qed
    then show ?thesis using allocates_live(1-5) [OF 1 False] so(2) False unfolding served_def by simp
  qed
qed

lemma frees_client:
  assumes fr: "\<And>bs fs ms. sound g s bs fs ms \<Longrightarrow> live bs fs ms = L \<Longrightarrow> frees g s bs fs ms (h, n) s'"
    and ok: "allocator_ok g s L"
  shows "allocator_ok g s' (L - {(h, n)})" "kept (L - {(h, n)}) s s'"
    "counters_ok g s L \<Longrightarrow> counters_ok g s' (L - {(h, n)})"
proof -
  from ok obtain bs fs ms where so: "sound g s bs fs ms" "live bs fs ms = L" by (auto simp: allocator_ok_def)
  from fr [OF so] so(2) obtain bs' fs' ms' where "sound g s' bs' fs' ms'" "live bs' fs' ms' = L - {(h, n)}"
    "kept (L - {(h, n)}) s s'" unfolding frees_def by auto
  then show "allocator_ok g s' (L - {(h, n)})" "kept (L - {(h, n)}) s s'" unfolding allocator_ok_def by metis+
  assume "counters_ok g s L"
  then obtain bs fs ms where so: "sound g s bs fs ms" "live bs fs ms = L" "tally s = count bs fs ms"
    by (auto simp: counters_ok_def)
  from fr [OF so(1,2)] so(2,3) obtain bs' fs' ms' where "sound g s' bs' fs' ms'" "live bs' fs' ms' = L - {(h, n)}"
    "tally s' = count bs' fs' ms'" unfolding frees_def by auto
  then show "counters_ok g s' (L - {(h, n)})" unfolding counters_ok_def by metis
qed

lemma write_client:
  assumes ok: "blocks_ok L" and L: "(h, n) \<in> L" and w: "\<And>y. y \<notin> payload h n \<Longrightarrow> m y = mem s y"
  shows "allocator_ok g s L \<Longrightarrow> allocator_ok g (s\<lparr>mem := m\<rparr>) L" "counters_ok g s L \<Longrightarrow> counters_ok g (s\<lparr>mem := m\<rparr>) L"
    "kept (L - {(h, n)}) s (s\<lparr>mem := m\<rparr>)"
proof -
  have snd: "sound g (s\<lparr>mem := m\<rparr>) bs fs ms" if so: "sound g s bs fs ms" "L = live bs fs ms" for bs fs ms
  proof -
    have inv: "heap_inv g s bs fs ms" using so(1) by (simp add: sound_def)
    have bo: "blocks_ok (set bs \<union> set ms)" by (rule heap_shape_blocks_ok [of g s bs fs ms]) (use inv in \<open>simp add: heap_inv_def\<close>)
    have b: "(h, n) \<in> set bs \<union> set ms" using L so(2) live_subset by blast
    have "heap_inv g (s\<lparr>mem := m\<rparr>) bs fs ms"
      by (rule payload_write [OF inv]) (metis w payload_write_metadata [OF bo b])
    then show ?thesis using so(1) by (simp add: sound_def)
  qed
  then show "allocator_ok g s L \<Longrightarrow> allocator_ok g (s\<lparr>mem := m\<rparr>) L" unfolding allocator_ok_def by blast
  have "tally (s\<lparr>mem := m\<rparr>) = tally s" by (simp add: tally_def)
  then show "counters_ok g s L \<Longrightarrow> counters_ok g (s\<lparr>mem := m\<rparr>) L" unfolding counters_ok_def using snd by metis
  show "kept (L - {(h, n)}) s (s\<lparr>mem := m\<rparr>)"
    unfolding kept_def
  proof (intro allI impI)
    fix a i x assume b: "(a, i) \<in> L - {(h, n)}" "x \<in> payload a i"
    then have a: "apart (unat a) i (unat h) n" using ok L unfolding blocks_ok_def by fastforce
    have "48 \<le> n" "48 \<le> i" using blocks_ok_D(2) [OF ok] L b(1) by blast+
    with a b(2) have "x \<notin> payload h n" by (auto simp: payload_def apart_def)
    then show "mem (s\<lparr>mem := m\<rparr>) x = mem s x" using w by simp
  qed
qed

lemma span_payload:
  assumes "allocator_ok g s L" "(h, m) \<in> L" "n + 48 \<le> m"
  shows "span (h + 32) n \<subseteq> payload h m" "unat (h + 32) = unat h + 32"
proof -
  note B = allocator_size [OF assms(1,2)]
  show u: "unat (h + 32) = unat h + 32" using B(3,4) by (subst unat_plus_64) simp_all
  show "span (h + 32) n \<subseteq> payload h m" using assms(3) by (auto simp: span_def payload_def u)
qed

lemma offset_32_nz: "unat (h :: addr) + 48 \<le> 140737488355328 \<Longrightarrow> h + 32 \<noteq> 0"
proof -
  assume "unat h + 48 \<le> 140737488355328"
  then have "unat (h + 32) = unat h + 32" by (subst unat_plus_64) simp_all
  then show ?thesis by (metis add_is_0 unat_0 zero_neq_numeral)
qed

lemma contiguous_aligned: "contiguous a bs e \<Longrightarrow> (h, n) \<in> set bs \<Longrightarrow> g dvd a \<Longrightarrow> \<forall>b\<in>set bs. g dvd snd b \<Longrightarrow> g dvd unat h"
  by (induction a bs e rule: contiguous.induct) auto

lemma allocator_aligned:
  assumes "allocator_ok 8 s L" "(h, n) \<in> L"
  shows "8 dvd unat h"
proof -
  from assms obtain bs fs ms where so: "sound 8 s bs fs ms" and b: "(h, n) \<in> live bs fs ms" by (auto simp: allocator_ok_def)
  show ?thesis
  proof (cases "(h, n) \<in> set ms")
    case True
    then show ?thesis using so by (auto simp: sound_def sizes_ok_def)
  next
    case False
    then have b: "(h, n) \<in> set bs" using b by (auto simp: live_def)
    have "heap_area 8 s bs" using so by (simp add: sound_def heap_inv_def heap_shape_def)
    then show ?thesis using b contiguous_aligned by (auto simp: heap_area_def split: if_splits)
  qed
qed

section \<open>Programs that use an allocator\<close>

text \<open>
  \<open>runs mal fre asks s L v\<close>: a program that obtains memory with \<open>mal\<close> and releases it with \<open>fre\<close> has brought the
  allocator into state \<open>s\<close>; it owns the blocks \<open>L\<close>, and \<open>v\<close> are the bytes it has last written into (or found in)
  them. \<open>asks\<close> are the sizes it may ask for.
\<close>

inductive runs ::
  "(size_t \<Rightarrow> heap \<Rightarrow> (addr \<times> heap) outcome) \<Rightarrow> (addr \<Rightarrow> heap \<Rightarrow> heap outcome) \<Rightarrow> (heap \<Rightarrow> nat \<Rightarrow> bool) \<Rightarrow>
     heap \<Rightarrow> blocks \<Rightarrow> memory \<Rightarrow> bool"
  for mal fre asks where
  start: "boot s \<Longrightarrow> runs mal fre asks s {} v"
| refused: "runs mal fre asks s L v \<Longrightarrow> asks s n \<Longrightarrow> mal (of_nat n) s = Inr (0, s') \<Longrightarrow> runs mal fre asks s' L v"
| malloc: "runs mal fre asks s L v \<Longrightarrow> asks s n \<Longrightarrow> mal (of_nat n) s = Inr (h + 32, s') \<Longrightarrow> h + 32 \<noteq> 0 \<Longrightarrow>
    m = unat (get F_size s' h) \<Longrightarrow>
    runs mal fre asks s' (insert (h, m) L) (\<lambda>x. if x \<in> payload h m then mem s' x else v x)"
| stores: "runs mal fre asks s L v \<Longrightarrow> (h, m) \<in> L \<Longrightarrow> x \<in> payload h m \<Longrightarrow>
    runs mal fre asks (s\<lparr>mem := (mem s)(x := b)\<rparr>) L (v(x := b))"
| release: "runs mal fre asks s L v \<Longrightarrow> (h, m) \<in> L \<Longrightarrow> fre (h + 32) s = Inr s' \<Longrightarrow>
    runs mal fre asks s' (L - {(h, m)}) v"

definition agrees :: "heap \<Rightarrow> blocks \<Rightarrow> memory \<Rightarrow> bool" where
  "agrees s L v \<longleftrightarrow> (\<forall>h m x. (h, m) \<in> L \<longrightarrow> x \<in> payload h m \<longrightarrow> mem s x = v x)"

lemma agrees_kept: "agrees s L v \<Longrightarrow> kept L s s' \<Longrightarrow> agrees s' L v"
  by (simp add: agrees_def kept_def)

text \<open>What a program relies on; \<open>malloc_3.cpp\<close> and \<open>malloc_4.cpp\<close> both provide it.\<close>

locale allocator =
  fixes mal :: "size_t \<Rightarrow> heap \<Rightarrow> (addr \<times> heap) outcome"
    and fre :: "addr \<Rightarrow> heap \<Rightarrow> heap outcome"
    and asks :: "heap \<Rightarrow> nat \<Rightarrow> bool"
    and unit_size :: nat
  assumes mal_spec: "allocator_ok unit_size s L \<Longrightarrow> asks s n \<Longrightarrow>
      \<exists>h s' k. mal (of_nat n) s = Inr (user_pointer h, s') \<and> n + 48 \<le> k
        \<and> (if h = 0 then denied unit_size s L s' else served unit_size k s L h (unat (get F_size s' h)) s')"
    and fre_spec: "allocator_ok unit_size s L \<Longrightarrow> (h, m) \<in> L \<Longrightarrow>
      \<exists>s'. fre (h + 32) s = Inr s' \<and> allocator_ok unit_size s' (L - {(h, m)}) \<and> kept (L - {(h, m)}) s s'"
begin

lemma mal_outcome:
  assumes ok: "allocator_ok unit_size s L" and n: "asks s n" and c: "mal (of_nat n) s = Inr (p, s')"
  shows "p = 0 \<Longrightarrow> denied unit_size s L s'"
    "p = h + 32 \<Longrightarrow> p \<noteq> 0 \<Longrightarrow> \<exists>k. served unit_size k s L h (unat (get F_size s' h)) s'"
proof -
  obtain h' k where h': "p = user_pointer h'"
    "if h' = 0 then denied unit_size s L s' else served unit_size k s L h' (unat (get F_size s' h')) s'"
    using mal_spec [OF ok n] c by auto
  have nz: "h' + 32 \<noteq> 0" if "h' \<noteq> 0"
  proof -
    have ok': "allocator_ok unit_size s' (insert (h', unat (get F_size s' h')) L)"
      using h'(2) that by (simp add: served_def)
    show ?thesis
      by (rule offset_32_nz) (use allocator_size(3,4) [OF ok' insertI1] in linarith)
  qed
  show "p = 0 \<Longrightarrow> denied unit_size s L s'" using h' nz by (auto simp: user_pointer_def split: if_splits)
  show "p = h + 32 \<Longrightarrow> p \<noteq> 0 \<Longrightarrow> \<exists>k. served unit_size k s L h (unat (get F_size s' h)) s'"
    using h' by (auto simp: user_pointer_def split: if_splits)
qed

lemma runs_ok: "runs mal fre asks s L v \<Longrightarrow> allocator_ok unit_size s L \<and> agrees s L v"
proof (induction rule: runs.induct)
  case (start s v)
  then show ?case using counters_allocator [OF boot_counters] by (simp add: agrees_def)
next
  case (refused s L v n s')
  then have "denied unit_size s L s'" using mal_outcome(1) by blast
  then show ?case using refused.IH by (simp add: denied_def agrees_def)
next
  case (malloc s L v n h s' m)
  then obtain k where sv: "served unit_size k s L h m s'" using mal_outcome(2) by blast
  then have ok: "allocator_ok unit_size s' (insert (h, m) L)" and "agrees s' L v" and f: "h \<notin> heads L"
    using malloc.IH agrees_kept by (auto simp: served_def)
  then show ?case by (auto simp: agrees_def)
next
  case (stores s L v h m x b)
  then have "allocator_ok unit_size (s\<lparr>mem := (mem s)(x := b)\<rparr>) L"
    by (intro write_client(1) [OF allocator_blocks]) auto
  then show ?case using stores.IH by (auto simp: agrees_def)
next
  case (release s L v h m s')
  then have "allocator_ok unit_size s' (L - {(h, m)})" "kept (L - {(h, m)}) s s'" using fre_spec [of s L h m] by auto
  then show ?case using release.IH by (auto simp: agrees_def kept_def)
qed

lemma runs_safe:
  assumes "runs mal fre asks s L v"
  shows "blocks_ok L \<and> agrees s L v \<and> (\<forall>n. asks s n \<longrightarrow> (\<exists>r. mal (of_nat n) s = Inr r))
    \<and> (\<forall>b\<in>L. \<exists>s'. fre (fst b + 32) s = Inr s')"
proof -
  have ok: "allocator_ok unit_size s L" and ag: "agrees s L v" using runs_ok [OF assms] by simp_all
  have "\<exists>r. mal (of_nat n) s = Inr r" if "asks s n" for n using mal_spec [OF ok that] by blast
  moreover have "\<exists>s'. fre (fst b + 32) s = Inr s'" if "b \<in> L" for b
    using fre_spec [OF ok, of "fst b" "snd b"] that by auto
  ultimately show ?thesis using allocator_blocks [OF ok] ag by blast
qed

end

end
