(* ===== verification/Malloc_Realloc.thy ===== *)
theory Malloc_Realloc
  imports Malloc_Client
begin

text \<open>
  Resizing a heap block in place (\<open>_sbrk_realloc\<close> of \<open>malloc_3.cpp\<close> and \<open>malloc_4.cpp\<close>): merging with
  the free neighbours, splitting what is left over and growing the last block each turn the block into
  another one that holds its bytes, and leave every other live block alone (\<open>resized\<close>).
\<close>

section \<open>What the steps leave alone\<close>

definition around :: "heap \<Rightarrow> addr option \<times> os \<times> addr" where
  "around s = (program_break s, kernel_of s, sbrk_head s)"

lemma around_put [simp]: "around (put f h v s) = around s"
  by (simp add: around_def put_def)

lemma around_updates [simp]:
  "around (s\<lparr>mem := m\<rparr>) = around s" "around (s\<lparr>sbrk_free_head := a\<rparr>) = around s"
  "around (s\<lparr>global_rand_cookie := c\<rparr>) = around s" "around (s\<lparr>rands := rs\<rparr>) = around s"
  "around (s\<lparr>free_blocks_num := x\<rparr>) = around s" "around (s\<lparr>free_bytes_num := x\<rparr>) = around s"
  "around (s\<lparr>allocated_blocks_num := x\<rparr>) = around s" "around (s\<lparr>allocated_bytes_num := x\<rparr>) = around s"
  by (simp_all add: around_def)

lemma around_set_tail: "set_tail h s = Inr s' \<Longrightarrow> around s' = around s"
  by (auto simp: set_tail_def checked_bind_Inr_iff Let_def split: if_splits)

lemma around_init: "init_sbrk_alloc_block sb h k False s = Inr (l, s') \<Longrightarrow> around s' = around s"
  by (auto simp: init_sbrk_alloc_block_def checked_bind_Inr_iff dest!: around_set_tail)

lemma around_remove: "remove_sbrk_free_block h s = Inr s' \<Longrightarrow> around s' = around s"
  by (auto simp: remove_sbrk_free_block_def checked_bind_Inr_iff Let_def split: if_splits)

lemma around_neighbour: "merge_neighbour h s = Inr s' \<Longrightarrow> around s' = around s"
  by (auto simp: merge_neighbour_def dest!: around_remove)

lemma around_left: "merge_left_step h c l k s = Inr (a, b, s') \<Longrightarrow> around s' = around s"
  by (auto simp: merge_left_step_def checked_bind_Inr_iff Let_def split: if_splits dest!: around_neighbour)

lemma around_right: "merge_right_step r k s = Inr (b, s') \<Longrightarrow> around s' = around s"
  by (auto simp: merge_right_step_def checked_bind_Inr_iff Let_def split: if_splits dest!: around_neighbour)

lemma around_brk: "around s' = around s \<Longrightarrow> brk_at g p s' = brk_at g p s"
  by (simp add: around_def brk_at_def)

lemma around_split:
  assumes "split_block sb h k s = Inr s'"
  shows "kernel_of s' = kernel_of s"
proof -
  have add: "around b = around a" if "add_loop n x y a = Inr b" for n x y a b
    using that by (induction n arbitrary: y) (auto simp: Let_def checked_bind_Inr_iff split: if_splits)
  have "around s' = around s"
    using assms
    by (auto simp: split_block_def init_sbrk_free_block_def add_sbrk_free_block_def checked_bind_Inr_iff Let_def
        split: if_splits dest!: add around_set_tail around_init)
  then show ?thesis by (simp add: around_def)
qed

lemma moved_trans: "moved j a b s t \<Longrightarrow> moved i b c t u \<Longrightarrow> j \<le> i \<Longrightarrow> moved j a c s u"
  by (simp add: moved_def)

lemma kept_moved:
  assumes "kept B s s'" "(h, m) \<in> B" "j + 48 \<le> m" "unat h + m \<le> 140737488355328"
  shows "moved j h h s s'"
  unfolding moved_def
proof (intro allI impI)
  fix i assume i: "i < j"
  have "unat (of_nat i :: 64 word) = i" using i assms(3,4) by (intro unat_of_nat_47) linarith
  then have "unat (h + 32 + of_nat i) = unat h + 32 + i" using i assms(3,4) by (simp add: unat_plus_64)
  then have "h + 32 + of_nat i \<in> payload h m" using i assms(3) by (simp add: payload_def)
  then show "mem s' (h + 32 + of_nat i) = mem s (h + 32 + of_nat i)" using assms(1,2) unfolding kept_def by blast
qed

section \<open>A block in the course of resizing\<close>

definition resized ::
  "nat \<Rightarrow> nat \<Rightarrow> bool \<Rightarrow> heap \<Rightarrow> blocks \<Rightarrow> addr \<Rightarrow> heap \<Rightarrow> (addr \<times> nat) list \<Rightarrow> addr list \<Rightarrow> (addr \<times> nat) list \<Rightarrow> addr \<Rightarrow> nat \<Rightarrow> bool"
where
  "resized g j counted s0 L h0 s bs fs ms h n \<longleftrightarrow> heap_inv g s bs fs ms \<and> (h, n) \<in> set bs \<and> h \<notin> set fs
     \<and> live bs fs ms = insert (h, n) L \<and> (h, n) \<notin> L \<and> kept L s0 s \<and> moved j h0 h s0 s
     \<and> (counted \<longrightarrow> tally s = count bs fs ms)"

lemma resized_start:
  assumes "heap_inv g s bs fs ms" "(h, n) \<in> set bs" "h \<notin> set fs"
  shows "resized g j (tally s = count bs fs ms) s (live bs fs ms - {(h, n)}) h s bs fs ms h n"
  using assms by (auto simp: resized_def live_def moved_def)

lemma resized_size:
  assumes "resized g j c s0 L h0 s bs fs ms h n"
  shows "get F_size s h = of_nat n" "48 \<le> n" "unat h + n \<le> 140737488355328" "g dvd n"
proof -
  have inv: "heap_inv g s bs fs ms" and l: "(h, n) \<in> live bs fs ms" using assms by (auto simp: resized_def)
  show "get F_size s h = of_nat n" "48 \<le> n" "unat h + n \<le> 140737488355328" by (rule live_block [OF inv l])+
  show "g dvd n" using assms by (auto simp: resized_def heap_inv_def heap_shape_def heap_area_def)
qed

lemma fits_iff:
  assumes "resized g j c s0 L h0 s bs fs ms h n" "k \<le> 70368744177664"
  shows "of_nat k \<le> get F_size s h \<longleftrightarrow> k \<le> n"
proof -
  have "unat (of_nat k :: 64 word) = k" "unat (of_nat n :: 64 word) = n"
    using resized_size(3) [OF assms(1)] assms(2) by (auto intro!: unat_of_nat_47)
  then show ?thesis by (simp add: resized_size(1) [OF assms(1)] word_le_nat_alt)
qed

lemma fresh_block:
  assumes sh: "heap_shape g s (us @ (h, n) # vs) fs ms" and L: "L \<subseteq> set us \<union> set vs \<union> set ms"
  shows "(h, m) \<notin> L"
proof -
  have "h \<notin> fst ` set us" "h \<notin> fst ` set vs" "h \<notin> fst ` set ms"
    using shape_distinct(1,3) [OF sh] by (auto simp: heads_def)
  moreover have "h \<in> fst ` (set us \<union> set vs \<union> set ms)" if "(h, m) \<in> L"
    using subsetD [OF L that] by (rule image_eqI [rotated]) simp
  ultimately show ?thesis unfolding image_Un by blast
qed

lemma live_resized:
  assumes sh: "heap_shape g s (us @ (h, n) # vs) fs ms" and h: "h \<notin> set fs"
    and lv: "live (us @ (h, n) # vs) fs ms = insert (h, n) L" "(h, n) \<notin> L"
  shows "live (us @ (h, k) # vs) fs ms = insert (h, k) L" "L \<subseteq> set us \<union> set vs \<union> set ms"
proof -
  have "(h, n) \<notin> live (us @ vs) fs ms"
    by (rule fresh_block [OF sh]) (use live_subset [of "us @ vs" fs ms] in auto)
  moreover have "live (us @ (h, m) # vs) fs ms = insert (h, m) (live (us @ vs) fs ms)" for m
    using h by (auto simp: live_def)
  ultimately show "live (us @ (h, k) # vs) fs ms = insert (h, k) L" using lv by (metis insert_ident)
  show "L \<subseteq> set us \<union> set vs \<union> set ms" using lv live_subset [of "us @ (h, n) # vs" fs ms] by auto
qed

lemma split_resized:
  assumes r: "resized g j c s0 L h0 s bs fs ms h n" and k: "48 \<le> k" "g dvd k" "k \<le> n" "j + 48 \<le> k"
  obtains s' m bs' fs' where "split_block sb h (of_nat k) s = Inr s'" "resized g j c s0 L h0 s' bs' fs' ms h m"
    "k \<le> m" "m < k + 176" "kernel_of s' = kernel_of s"
proof (cases "176 \<le> n - k")
  case False
  note S = resized_size [OF r]
  have "\<not> is_redundant s h (of_nat k)" using is_redundant_iff [OF S(1) k(3)] S(3) False by simp
  then have "split_block sb h (of_nat k) s = Inr s" by (simp add: split_block_def)
  then show ?thesis using that r k(3) False by auto
next
  case True
  from r have inv: "heap_inv g s bs fs ms" and b: "(h, n) \<in> set bs" "h \<notin> set fs" and lv: "live bs fs ms = insert (h, n) L"
    and nL: "(h, n) \<notin> L" and kp: "kept L s0 s" and mv: "moved j h0 h s0 s" and ta: "c \<longrightarrow> tally s = count bs fs ms"
    by (simp_all add: resized_def)
  obtain us vs where bs: "bs = us @ (h, n) # vs" using b(1) by (meson split_list)
  have sh: "heap_shape g s (us @ (h, n) # vs) fs ms" and inv': "heap_inv g s (us @ (h, n) # vs) fs ms"
    using inv bs by (simp_all add: heap_inv_def)
  let ?bs = "us @ (h, k) # (h + of_nat k, n - k) # vs"
  show ?thesis
  proof (rule split_block_spec [OF inv' b(2) k(1,2) True])
    fix s'
    let ?fs = "insert_free (precedes s') (h + of_nat k) fs"
    assume s': "split_block sb h (of_nat k) s = Inr s'" "heap_inv g s' ?bs ?fs ms"
      "kept (insert (h, k) (set us \<union> set vs \<union> set ms)) s s'"
      "tally s = count (us @ (h, n) # vs) fs ms \<Longrightarrow> tally s' = count ?bs ?fs ms"
    note R = live_resized [OF sh b(2) lv [unfolded bs] nL]
    note Ls = R(2)
    have sh': "heap_shape g s' ?bs ?fs ms" using s'(2) by (simp add: heap_inv_def)
    note dist = shape_distinct(1,3) [OF sh']
    have hk: "h \<noteq> h + of_nat k" "h + of_nat k \<notin> heads (set us \<union> set vs \<union> set ms)"
      using dist by (auto simp: heads_def)
    have nk: "(h, k) \<notin> L" by (rule fresh_block [OF sh Ls])
    have "live ?bs ?fs ms = insert (h, k) L"
    proof -
      have "fst b \<noteq> h + of_nat k" if "b \<in> set us \<union> set vs" for b
      proof -
        have "fst b \<in> heads (set us \<union> set vs \<union> set ms)" using that by (auto simp: heads_def)
        then show ?thesis using hk(2) by metis
      qed
      then have "live ?bs ?fs ms = live (us @ (h, k) # vs) fs ms"
        using b(2) hk(1) by (auto simp: live_def)
      then show ?thesis using R(1) by simp
    qed
    moreover have "kept L s0 s'" by (rule kept_trans [OF kp kept_subset [OF s'(3)]]) (use Ls in blast)
    moreover have "moved j h0 h s0 s'"
      by (rule moved_trans [OF mv kept_moved [OF s'(3), of h k j] order.refl])
        (use k resized_size(3) [OF r] in auto)
    moreover have "c \<longrightarrow> tally s' = count ?bs ?fs ms" using s'(4) ta bs by simp
    ultimately have "resized g j c s0 L h0 s' ?bs ?fs ms h k"
      using s'(2) nk b(2) hk(1) by (simp add: resized_def)
    then show thesis using that [OF s'(1)] around_split [OF s'(1)] by simp
  qed
qed

section \<open>The three ways a resizing in place ends\<close>

definition split_and_give :: "break_fun \<Rightarrow> addr \<Rightarrow> size_t \<Rightarrow> heap \<Rightarrow> (addr \<times> heap) outcome" where
  "split_and_give sb block k s = checked_bind (split_block sb block k s) (\<lambda>s. Inr (block + 32, s))"

definition grow_and_give :: "break_fun \<Rightarrow> addr \<Rightarrow> size_t \<Rightarrow> heap \<Rightarrow> (addr \<times> heap) outcome" where
  "grow_and_give sb block k s =
     checked_bind (wilderness_sbrk_block_increase sb block k
         (s\<lparr>allocated_bytes_num := allocated_bytes_num s + (k - get F_size s block)\<rparr>))
       (\<lambda>(block, s). Inr (block + 32, s))"

definition realloc_rest :: "break_fun \<Rightarrow> addr \<Rightarrow> addr \<Rightarrow> size_t \<Rightarrow> heap \<Rightarrow> (addr \<times> heap) outcome" where
  "realloc_rest sb p h k s = checked_bind (merge_sbrk_blocks sb h False True False s) (\<lambda>(h, s).
     if k \<le> get F_size s h then split_and_give sb h k s
     else checked_bind (merge_sbrk_blocks sb h True True True s) (\<lambda>(h, s).
     if k \<le> get F_size s h then Inr (h + 32, s)
     else if h + get F_size s h = p then grow_and_give sb h k s
     else Inr (0, s)))"

text \<open>
  With a block that is large enough, with the system refusing to extend the last block (the answer is
  then the address 32), with no room around the block.
\<close>

definition ends :: "nat \<Rightarrow> nat \<Rightarrow> nat \<Rightarrow> bool \<Rightarrow> heap \<Rightarrow> blocks \<Rightarrow> addr \<Rightarrow> (addr \<times> nat) list \<Rightarrow> (addr \<times> heap) outcome \<Rightarrow> bool" where
  "ends g k j c s L h ms r \<longleftrightarrow> (\<exists>l m s' bs' fs'.
     r = Inr (l + 32, s') \<and> resized g j c s L h s' bs' fs' ms l m \<and> k \<le> m
       \<and> os_refusals (kernel_of s') = os_refusals (kernel_of s)
   \<or> r = Inr (32, s') \<and> resized g j False s L h s' bs' fs' ms l m \<and> m < k
       \<and> os_refusals (kernel_of s') = Suc (os_refusals (kernel_of s))
   \<or> r = Inr (0, s') \<and> resized g j c s L h s' bs' fs' ms l m \<and> m < k
       \<and> os_refusals (kernel_of s') = os_refusals (kernel_of s))"

lemma ends_intros:
  "resized g j c s L h s' bs' fs' ms l m \<Longrightarrow> k \<le> m \<Longrightarrow> os_refusals (kernel_of s') = os_refusals (kernel_of s) \<Longrightarrow>
     ends g k j c s L h ms (Inr (l + 32, s'))"
  "resized g j False s L h s' bs' fs' ms l m \<Longrightarrow> m < k \<Longrightarrow> os_refusals (kernel_of s') = Suc (os_refusals (kernel_of s)) \<Longrightarrow>
     ends g k j c s L h ms (Inr (32, s'))"
  "resized g j c s L h s' bs' fs' ms l m \<Longrightarrow> m < k \<Longrightarrow> os_refusals (kernel_of s') = os_refusals (kernel_of s) \<Longrightarrow>
     ends g k j c s L h ms (Inr (0, s'))"
  unfolding ends_def by blast+

context heap_ops
begin

lemma around_merge:
  assumes "heap_inv granule s bs fs ms" "(h, n) \<in> set bs" "merge_sbrk_blocks sb h ml mr copy s = Inr (l, s')"
  shows "around s' = around s"
proof -
  obtain us vs where bs: "bs = us @ (h, n) # vs" using assms(2) by (meson split_list)
  have "heap_shape granule s (us @ (h, n) # vs) fs ms" using assms(1) bs by (simp add: heap_inv_def)
  from assms(3) [unfolded merge_reads [OF this]] show ?thesis
    by (auto simp: checked_bind_Inr_iff dest!: around_left around_right around_init)
qed

lemma merge_resized:
  assumes r: "resized granule j c s0 L h0 s bs fs ms h n" and copy: "copy \<or> \<not> ml" and j: "j + 48 \<le> n"
  obtains l m s' bs' fs' where "merge_sbrk_blocks sb h ml mr copy s = Inr (l, s')"
    "resized granule j c s0 L h0 s' bs' fs' ms l m" "n \<le> m" "around s' = around s"
proof -
  from r have inv: "heap_inv granule s bs fs ms" and b: "(h, n) \<in> set bs" "h \<notin> set fs" and lv: "live bs fs ms = insert (h, n) L"
    and nL: "(h, n) \<notin> L" and kp: "kept L s0 s" and mv: "moved j h0 h s0 s" and ta: "c \<longrightarrow> tally s = count bs fs ms"
    by (simp_all add: resized_def)
  obtain us vs where bs: "bs = us @ (h, n) # vs" using b(1) by (meson split_list)
  have inv': "heap_inv granule s (us @ (h, n) # vs) fs ms" using inv bs by simp
  then have sh: "heap_shape granule s (us @ (h, n) # vs) fs ms" by (simp add: heap_inv_def)
  define lf where "lf = left_free ml us fs"
  define rf where "rf = right_free mr vs (take_off lf (last us) fs)"
  define l where "l = start_at lf (last us) h"
  define m where "m = grown rf (hd vs) (grown lf (last us) n)"
  define fs1 where "fs1 = take_off rf (hd vs) (take_off lf (last us) fs)"
  let ?us = "drop_left lf us" and ?vs = "drop_right rf vs"
  define bs1 where "bs1 = ?us @ (l, m) # ?vs"
  have cl: "copy \<or> \<not> lf" using copy by (auto simp: lf_def left_free_def)
  obtain s1 where s1: "merge_sbrk_blocks sb h ml mr copy s = Inr (l, s1)"
    "heap_inv granule s1 bs1 fs1 ms" "kept (set ?us \<union> set ?vs \<union> set ms) s s1" "moved (n - 48) h l s s1"
    "tally s1 = joined_tally rf (hd vs) (joined_tally lf (last us) (tally s))"
    using merge_spec [OF inv' b(2) lf_def rf_def l_def m_def, of copy] cl unfolding bs1_def fs1_def by metis
  note M = merged_lists [OF sh b(2) lf_def rf_def l_def m_def bs1_def fs1_def]
  have Le: "live (us @ (h, n) # vs) fs ms - {(h, n)} = L" using lv nL bs by auto
  have Ls: "L \<subseteq> set ?us \<union> set ?vs \<union> set ms" using M(4) Le by simp
  have sh1: "heap_shape granule s1 (?us @ (l, m) # ?vs) fs1 ms" using s1(2) by (simp add: heap_inv_def bs1_def)
  have "live bs1 fs1 ms = insert (l, m) L" using M(2) Le by simp
  moreover have "kept L s0 s1" by (rule kept_trans [OF kp kept_subset [OF s1(3) Ls]])
  moreover have "moved j h0 l s0 s1" using moved_trans [OF mv s1(4)] j by simp
  moreover have "c \<longrightarrow> tally s1 = count bs1 fs1 ms" using s1(5) M(3) ta bs by simp
  ultimately have "resized granule j c s0 L h0 s1 bs1 fs1 ms l m"
    using s1(2) M(1) fresh_block [OF sh1 Ls] by (simp add: resized_def bs1_def)
  moreover have "n \<le> m" by (simp add: m_def grown_def)
  ultimately show ?thesis using that [OF s1(1)] around_merge [OF inv b(1) s1(1)] by blast
qed

lemma last_block:
  assumes r: "resized granule j c s0 L h0 s bs fs ms h n" and p: "brk_at granule p s"
    and e: "h + get F_size s h = p"
  obtains us where "bs = us @ [(h, n)]"
proof -
  from r have ar: "heap_area granule s bs" and b: "(h, n) \<in> set bs" by (simp_all add: resized_def heap_inv_def heap_shape_def)
  note S = resized_size [OF r]
  obtain us vs where bs: "bs = us @ (h, n) # vs" using b by (meson split_list)
  have u: "unat h + n = unat p"
    using S unat_of_nat_47 [of n] by (simp flip: e add: unat_plus_64)
  have ne: "bs \<noteq> []" using b by auto
  obtain p' where "brk_at granule p' s" "contiguous (unat (sbrk_head s)) bs (unat p')" by (rule break_of_shape [OF ar ne])
  then have "contiguous (unat h + n) vs (unat p)" using p by (auto simp: bs contiguous_append brk_at_def)
  then have "vs = []" using u contiguous_le by (cases vs) fastforce+
  then show ?thesis using that bs by simp
qed

lemma grow_resized:
  assumes r: "resized granule j c s0 L h0 s bs fs ms h n" and k: "n < k" "granule dvd k" "k \<le> 70368744177664"
    and p: "brk_at granule p s" and e: "h + get F_size s h = p" and j: "j + 48 \<le> n"
  defines "t \<equiv> s\<lparr>allocated_bytes_num := allocated_bytes_num s + (of_nat k - get F_size s h)\<rparr>"
  obtains kk where "wilderness_sbrk_block_increase sb h (of_nat k) t = Inr (0, t\<lparr>kernel_of := kk\<rparr>)"
      "resized granule j False s0 L h0 (t\<lparr>kernel_of := kk\<rparr>) bs fs ms h n"
      "os_refusals kk = Suc (os_refusals (kernel_of s))"
  | s' bs' where "wilderness_sbrk_block_increase sb h (of_nat k) t = Inr (h, s')"
      "resized granule j c s0 L h0 s' bs' fs ms h k" "os_refusals (kernel_of s') = os_refusals (kernel_of s)"
proof -
  from r have inv: "heap_inv granule s bs fs ms" and b: "(h, n) \<in> set bs" "h \<notin> set fs" and lv: "live bs fs ms = insert (h, n) L"
    and nL: "(h, n) \<notin> L" and kp: "kept L s0 s" and mv: "moved j h0 h s0 s" and ta: "c \<longrightarrow> tally s = count bs fs ms"
    by (simp_all add: resized_def)
  obtain us where bs: "bs = us @ [(h, n)]" by (rule last_block [OF r p e])
  have c: "core t = core s" by (simp add: t_def core_def coin_def)
  have invt: "heap_inv granule t (us @ [(h, n)]) fs ms" using inv core_inv [OF c] bs by simp
  then have sht: "heap_shape granule t (us @ [(h, n)]) fs ms" and flt: "flags_ok t (set (us @ [(h, n)]) \<union> set ms) fs"
    and sot: "sorted_wrt (precedes t) fs" by (simp_all add: heap_inv_def)
  have sh: "heap_shape granule s (us @ (h, n) # []) fs ms" using inv bs by (simp add: heap_inv_def)
  note R = live_resized [OF sh b(2) lv [unfolded bs] nL]
  have Ls: "L \<subseteq> set us \<union> set ms" using R(2) by simp
  have mt: "mem t = mem s" "kernel_of t = kernel_of s" by (simp_all add: t_def)
  show ?thesis
  proof (rule wilderness_spec [OF sht k])
    fix kk
    let ?u = "t\<lparr>kernel_of := kk\<rparr>"
    assume w: "wilderness_sbrk_block_increase sb h (of_nat k) t = Inr (0, ?u)"
      "heap_shape granule ?u (us @ [(h, n)]) fs ms" "os_refusals kk = Suc (os_refusals (kernel_of t))"
    have M: "tails_ok ?u B = tails_ok t B" "flags_ok ?u B fs = flags_ok t B fs" "precedes ?u = precedes t" for B
      by (rule same_memory; simp add: coin_def)+
    have "heap_inv granule ?u bs fs ms" using w(2) flt sot M bs by (simp add: heap_inv_def)
    moreover have "kept L s0 ?u" "moved j h0 h s0 ?u" using kp mv mt by (simp_all add: kept_def moved_def)
    ultimately have "resized granule j False s0 L h0 ?u bs fs ms h n" using b lv nL by (simp add: resized_def)
    then show thesis using that(1) [OF w(1)] w(3) mt by simp
  next
    fix s'
    assume w: "wilderness_sbrk_block_increase sb h (of_nat k) t = Inr (h, s')"
      "heap_shape granule s' (us @ [(h, k)]) fs ms" "tally s' = tally t"
      "\<And>x f. x \<in> heads (set us \<union> set ms) \<Longrightarrow> get f s' x = get f t x"
      "get F_is_free s' h = get F_is_free t h" "kept (insert (h, n) (set us \<union> set ms)) t s'"
      "os_refusals (kernel_of s') = os_refusals (kernel_of t)"
    let ?bs = "us @ [(h, k)]"
    have fl: "flags_ok s' (set ?bs \<union> set ms) fs"
      using flt w(4,5) by (auto simp: flags_ok_def heads_def)
    have fs_us: "set fs \<subseteq> heads (set us \<union> set ms)"
      using heap_shape_D(7) [OF sht] b(2) by (auto simp: heads_def)
    have "sorted_wrt (precedes s') fs"
      by (rule sorted_wrt_mono_rel [OF _ sot]) (use w(4) [OF subsetD [OF fs_us]] in \<open>simp add: precedes_def\<close>)
    then have inv': "heap_inv granule s' ?bs fs ms" using w(2) fl by (simp add: heap_inv_def)
    have nk: "(h, k) \<notin> L" by (rule fresh_block [of granule s' us h k "[]" fs ms]) (use w(2) Ls in simp_all)
    have "live ?bs fs ms = insert (h, k) L" using R(1) by simp
    moreover have "kept L s0 s'"
      by (rule kept_trans [OF kp]) (use w(6) Ls mt in \<open>auto simp: kept_def\<close>)
    moreover have "moved j h h t s'" by (rule kept_moved [OF w(6), of h n j]) (use j resized_size(3) [OF r] in auto)
    then have "moved j h0 h s0 s'" using mv mt by (simp add: moved_def)
    moreover have "c \<longrightarrow> tally s' = count ?bs fs ms"
    proof
      assume c
      then have a: "allocated_bytes_num s = bytes_in us + (of_nat n - 48) + bytes_in ms"
        using ta bs by (simp add: count_def tally_def)
      show "tally s' = count ?bs fs ms"
        using w(3) ta \<open>c\<close> bs b(2) resized_size(1) [OF r] a by (simp add: count_def tally_def t_def)
    qed
    ultimately have "resized granule j c s0 L h0 s' ?bs fs ms h k" using inv' nk b(2) by (simp add: resized_def)
    then show thesis using that(2) [OF w(1)] w(7) mt by simp
  qed
qed

lemma ends_split:
  assumes r: "resized granule j c s0 L h0 s bs fs ms h n" and k: "48 \<le> k" "granule dvd k" "k \<le> n" "j + 48 \<le> k"
    and a: "kernel_of s = kernel_of s0"
  shows "ends granule k j c s0 L h0 ms (split_and_give sb h (of_nat k) s)"
proof (rule split_resized [OF r k])
  fix s' m bs' fs' assume "split_block sb h (of_nat k) s = Inr s'" "resized granule j c s0 L h0 s' bs' fs' ms h m"
    "k \<le> m" "kernel_of s' = kernel_of s"
  then show ?thesis using a by (simp add: split_and_give_def ends_intros(1))
qed

lemma ends_grow:
  assumes r: "resized granule j c s0 L h0 s bs fs ms h n" and k: "n < k" "granule dvd k" "k \<le> 70368744177664"
    and p: "brk_at granule p s" and e: "h + get F_size s h = p" and j: "j + 48 \<le> n" and a: "kernel_of s = kernel_of s0"
  shows "ends granule k j c s0 L h0 ms (grow_and_give sb h (of_nat k) s)"
proof (rule grow_resized [OF r k p e j])
  let ?t = "s\<lparr>allocated_bytes_num := allocated_bytes_num s + (of_nat k - get F_size s h)\<rparr>"
  fix kk assume g: "wilderness_sbrk_block_increase sb h (of_nat k) ?t = Inr (0, ?t\<lparr>kernel_of := kk\<rparr>)"
    "resized granule j False s0 L h0 (?t\<lparr>kernel_of := kk\<rparr>) bs fs ms h n"
    "os_refusals kk = Suc (os_refusals (kernel_of s))"
  then show ?thesis using ends_intros(2) [OF g(2) k(1)] a by (simp add: grow_and_give_def)
next
  let ?t = "s\<lparr>allocated_bytes_num := allocated_bytes_num s + (of_nat k - get F_size s h)\<rparr>"
  fix s' bs' assume g: "wilderness_sbrk_block_increase sb h (of_nat k) ?t = Inr (h, s')"
    "resized granule j c s0 L h0 s' bs' fs ms h k" "os_refusals (kernel_of s') = os_refusals (kernel_of s)"
  then show ?thesis using ends_intros(1) [OF g(2) order.refl] a by (simp add: grow_and_give_def)
qed

lemma sbrk_realloc_code:
  assumes "sb 0 s = (p, s)"
  shows "sbrk_realloc sb h k s =
    (if k \<le> get F_size s h then split_and_give sb h k s
     else checked_bind (merge_sbrk_blocks sb h True False True s) (\<lambda>(h, s).
     if k \<le> get F_size s h then split_and_give sb h k s
     else if h + get F_size s h = p then grow_and_give sb h k s
     else realloc_rest sb p h k s))"
  unfolding sbrk_realloc_def assms split_and_give_def grow_and_give_def realloc_rest_def Let_def by simp

lemma realloc_rest_ends:
  assumes r: "resized granule j c s0 L h0 s bs fs ms h n" and a: "around s = around s0" and p: "brk_at granule p s0"
    and k: "48 \<le> k" "granule dvd k" "k \<le> 70368744177664" and j: "j + 48 \<le> n" "j + 48 \<le> k"
  shows "ends granule k j c s0 L h0 ms (realloc_rest sb p h (of_nat k) s)"
proof -
  have brk: "brk_at granule p t" and ker: "kernel_of t = kernel_of s0" if "around t = around s0" for t
    using p around_brk [OF that] that by (simp_all add: around_def)
  obtain h2 n2 s2 bs2 fs2 where m2: "merge_sbrk_blocks sb h False True False s = Inr (h2, s2)"
    "resized granule j c s0 L h0 s2 bs2 fs2 ms h2 n2" "n \<le> n2" "around s2 = around s"
    by (rule merge_resized [OF r _ j(1), where copy = False and ml = False]) simp
  have a2: "around s2 = around s0" using m2(4) a by simp
  have j2: "j + 48 \<le> n2" using j(1) m2(3) by simp
  obtain h3 n3 s3 bs3 fs3 where m3: "merge_sbrk_blocks sb h2 True True True s2 = Inr (h3, s3)"
    "resized granule j c s0 L h0 s3 bs3 fs3 ms h3 n3" "n2 \<le> n3" "around s3 = around s2"
    by (rule merge_resized [OF m2(2) _ j2, where copy = True and ml = True]) simp
  have a3: "around s3 = around s0" using m3(4) a2 by simp
  have j3: "j + 48 \<le> n3" using j2 m3(3) by simp
  have code: "realloc_rest sb p h (of_nat k) s =
    (if k \<le> n2 then split_and_give sb h2 (of_nat k) s2
     else if k \<le> n3 then Inr (h3 + 32, s3)
     else if h3 + get F_size s3 h3 = p then grow_and_give sb h3 (of_nat k) s3 else Inr (0, s3))"
    by (simp add: realloc_rest_def m2(1) fits_iff [OF m2(2) k(3)] m3(1) fits_iff [OF m3(2) k(3)])
  have "ends granule k j c s0 L h0 ms (Inr (h3 + 32, s3))" if "k \<le> n3"
    by (rule ends_intros(1) [OF m3(2) that]) (simp add: ker [OF a3])
  moreover have "ends granule k j c s0 L h0 ms (Inr (0, s3))" if "\<not> k \<le> n3"
    by (rule ends_intros(3) [OF m3(2)]) (use that ker [OF a3] in simp_all)
  ultimately show ?thesis
    using ends_split [OF m2(2) k(1,2) _ j(2) ker [OF a2]]
      ends_grow [OF m3(2) _ k(2,3) brk [OF a3] _ j3 ker [OF a3]] by (simp add: code)
qed

lemma sbrk_realloc_ends:
  assumes inv: "heap_inv granule s bs fs ms" and b: "(h, n) \<in> set bs" "h \<notin> set fs"
    and k: "48 \<le> k" "granule dvd k" "k \<le> 70368744177664"
  shows "ends granule k (min n k - 48) (tally s = count bs fs ms) s (live bs fs ms - {(h, n)}) h ms (sbrk_realloc sb h (of_nat k) s)"
proof -
  let ?j = "min n k - 48" and ?c = "tally s = count bs fs ms" and ?L = "live bs fs ms - {(h, n)}"
  have ne: "bs \<noteq> []" using b(1) by auto
  have ar: "heap_area granule s bs" using inv by (simp add: heap_inv_def heap_shape_def)
  obtain p where p: "brk_at granule p s" "sb 0 s = (p, s)" by (rule break_of_shape [OF ar ne])
  note r0 = resized_start [OF inv b, of ?j]
  note n0 = resized_size(2) [OF r0]
  have brk: "brk_at granule p t" if "around t = around s" for t using p(1) around_brk [OF that] by simp
  have ker: "kernel_of t = kernel_of s" if "around t = around s" for t using that by (simp add: around_def)
  note code = sbrk_realloc_code [OF p(2)]
  show ?thesis
  proof (cases "k \<le> n")
    case True
    then show ?thesis using ends_split [OF r0 k(1,2) True] k(1) by (simp add: code fits_iff [OF r0 k(3)] min_def)
  next
    case False
    have j: "?j + 48 \<le> n" "?j + 48 \<le> k" using False n0 by auto
    obtain h1 n1 s1 bs1 fs1 where m1: "merge_sbrk_blocks sb h True False True s = Inr (h1, s1)"
      "resized granule ?j ?c s ?L h s1 bs1 fs1 ms h1 n1" "n \<le> n1" "around s1 = around s"
      by (rule merge_resized [OF r0 _ j(1), where copy = True and ml = True]) simp
    note f1 = fits_iff [OF m1(2) k(3)]
    show ?thesis
    proof (cases "k \<le> n1 \<or> h1 + get F_size s1 h1 = p")
      case True
      then have "sbrk_realloc sb h (of_nat k) s =
          (if k \<le> n1 then split_and_give sb h1 (of_nat k) s1 else grow_and_give sb h1 (of_nat k) s1)"
        by (auto simp: code fits_iff [OF r0 k(3)] False m1(1) f1)
      then show ?thesis
        using True ends_split [OF m1(2) k(1,2) _ j(2) ker [OF m1(4)]]
          ends_grow [OF m1(2) _ k(2,3) brk [OF m1(4)] _ _ ker [OF m1(4)]] j m1(3) by auto
    next
      case nofit: False
      then have "sbrk_realloc sb h (of_nat k) s = realloc_rest sb p h1 (of_nat k) s1"
        by (simp add: code fits_iff [OF r0 k(3)] False m1(1) f1)
      then show ?thesis
        using realloc_rest_ends [OF m1(2,4) p(1) k _ j(2)] j(1) m1(3) by simp
    qed
  qed
qed

end

end
