(* ===== verification/Malloc_Three.thy ===== *)
theory Malloc_Three
  imports Malloc_Realloc
begin

text \<open>
  What the functions of \<open>malloc_3.cpp\<close> promise their caller. The state of the client is the set of its
  live blocks (address and size of each, metadata included).
\<close>

section \<open>Allocation and release\<close>

lemma request_size:
  assumes "0 < n" "n \<le> 100000000"
  shows "(of_nat n :: 64 word) \<noteq> 0" "\<not> SIZE_LIMIT < of_nat n" "of_nat n + size_meta_data = (of_nat (n + 48) :: 64 word)"
    "alloc_sbrk (of_nat (n + 48)) \<longleftrightarrow> n < 131072"
proof -
  have u: "unat (of_nat n :: 64 word) = n" "unat (of_nat (n + 48) :: 64 word) = n + 48"
    using assms(2) by (simp_all only: unat_of_nat_47)
  show "(of_nat n :: 64 word) \<noteq> 0" using u(1) assms(1) by auto
  show "\<not> SIZE_LIMIT < of_nat n" using u(1) assms(2) by (simp add: SIZE_LIMIT_def word_less_nat_alt)
  show "of_nat n + size_meta_data = (of_nat (n + 48) :: 64 word)" by (simp add: size_constants)
  show "alloc_sbrk (of_nat (n + 48)) \<longleftrightarrow> n < 131072"
    unfolding alloc_sbrk_def size_constants word_less_nat_alt u(2) by simp
qed

lemma smalloc_client:
  assumes ok: "allocator_ok 1 s L" and n: "0 < n" "n \<le> 100000000" "n + 175 < 131072 \<or> 131072 \<le> n"
  obtains h s' where "smalloc (of_nat n) s = Inr (user_pointer h, s')"
    "if h = 0 then denied 1 s L s' else served 1 (n + 48) s L h (unat (get F_size s' h)) s'"
proof -
  note R = request_size [OF n(1,2)]
  let ?f = "if n < 131072 then sbrk_malloc m3_sbrk (of_nat (n + 48)) s else mmap_malloc m3_sbrk (of_nat (n + 48)) s"
  have al: "\<exists>h s'. ?f = Inr (h, s') \<and> allocates 1 s bs fs ms (n + 48) h s'" if "sound 1 s bs fs ms" for bs fs ms
    using h3.sbrk_malloc_allocates [OF that, of "n + 48"] mmap_malloc_allocates [OF that, of "n + 48" m3_sbrk] n
    by (cases "n < 131072") auto
  from ok obtain bs fs ms where "sound 1 s bs fs ms" by (auto simp: allocator_ok_def)
  from al [OF this] obtain h s' where f: "?f = Inr (h, s')" by blast
  have "smalloc (of_nat n) s = Inr (user_pointer h, s')"
    unfolding smalloc_def Let_def R(3) using R(1,2,4) f by simp
  moreover have "if h = 0 then denied 1 s L s' else served 1 (n + 48) s L h (unat (get F_size s' h)) s'"
    using al f by (intro allocates_client [OF _ ok]) fastforce
  ultimately show ?thesis using that by blast
qed

lemma sfree_client:
  assumes ok: "allocator_ok 1 s L" and b: "(h, m) \<in> L"
  obtains s' where "sfree (h + 32) s = Inr s'" "allocator_ok 1 s' (L - {(h, m)})" "kept (L - {(h, m)}) s s'"
    "counters_ok 1 s L \<Longrightarrow> counters_ok 1 s' (L - {(h, m)})"
proof -
  have fr: "\<exists>s'. sfree (h + 32) s = Inr s' \<and> frees 1 s bs fs ms (h, m) s'"
    if "sound 1 s bs fs ms" "live bs fs ms = L" for bs fs ms
    unfolding sfree_def using h3.free_frees [OF that(1), of h m] b that(2) by simp
  from ok obtain bs fs ms where "sound 1 s bs fs ms" "live bs fs ms = L" by (auto simp: allocator_ok_def)
  from fr [OF this] obtain s' where s': "sfree (h + 32) s = Inr s'" by blast
  have "frees 1 s bs fs ms (h, m) s'" if "sound 1 s bs fs ms" "live bs fs ms = L" for bs fs ms
    using fr [OF that] s' by simp
  then show ?thesis using that s' frees_client [OF _ ok, of h m s'] by blast
qed

section \<open>A concrete heap\<close>

definition demo_os :: "nat \<Rightarrow> os" where
  "demo_os n = \<lparr>os_start = 4096, os_break = 4096 + of_nat n, os_maps = [], os_holes = [], os_grants = (\<lambda>_. True),
     os_places = (\<lambda>_. 1073741824), os_clock = 0, os_refusals = 0\<rparr>"

definition demo_boot :: heap where
  "demo_boot = \<lparr>program_break = None, kernel_of = demo_os 0, mem = (\<lambda>_. 0), global_rand_cookie = 0, rands = [7],
     sbrk_head = 0, sbrk_free_head = 0, free_blocks_num = 0, free_bytes_num = 0,
     allocated_blocks_num = 0, allocated_bytes_num = 0\<rparr>"

text \<open>One heap block of \<open>n\<close> bytes, live (\<open>flag\<close> 0) or free (\<open>flag\<close> 1).\<close>

definition demo_mem :: "nat \<Rightarrow> 64 word \<Rightarrow> memory" where
  "demo_mem n flag = store64 (store64 (store64 (store32 (\<lambda>_. 0) (4096 + of_nat n - 16) 7) (4096 + of_nat n - 8) (of_nat n))
     4096 (of_nat n)) 4104 flag"

definition demo_block :: "nat \<Rightarrow> 64 word \<Rightarrow> heap" where
  "demo_block n flag = \<lparr>program_break = Some (4096 + of_nat n), kernel_of = demo_os n, mem = demo_mem n flag,
     global_rand_cookie = 7, rands = [], sbrk_head = 4096, sbrk_free_head = (if flag = 1 then 4096 else 0),
     free_blocks_num = flag, free_bytes_num = (if flag = 1 then of_nat n - 48 else 0),
     allocated_blocks_num = 1, allocated_bytes_num = of_nat n - 48\<rparr>"

lemma demo_boot_ok: "boot demo_boot"
  by (simp add: boot_def demo_boot_def demo_os_def kernel_ok_def tally_def)

lemma load_store64_other:
  assumes "unat a + 8 \<le> 18446744073709551616" "unat b + 8 \<le> 18446744073709551616" "unat a + 8 \<le> unat b \<or> unat b + 8 \<le> unat a"
  shows "load64 (store64 m a v) b = load64 m b"
  using assms by (simp add: load64_def store64_def load_store_le_other)

lemma demo_mem_loads:
  assumes n: "48 \<le> n" "n \<le> 1000000000"
  shows "load64 (demo_mem n flag) 4096 = of_nat n" "load64 (demo_mem n flag) 4104 = flag"
    "load64 (demo_mem n flag) 4112 = 0" "load64 (demo_mem n flag) 4120 = 0"
    "load32 (demo_mem n flag) (4096 + of_nat n - 16) = 7" "load64 (demo_mem n flag) (4096 + of_nat n - 8) = of_nat n"
proof -
  have t: "unat (4096 + of_nat n - 16 :: 64 word) = 4096 + n - 16" "unat (4096 + of_nat n - 8 :: 64 word) = 4096 + n - 8"
    using tail_address [of n 4096] n by simp_all
  let ?z = "store32 (\<lambda>_. 0 :: byte) (4096 + of_nat n - 16) 7"
  have z: "load64 ?z a = 0" if "unat a + 8 \<le> 4080 + n" for a
  proof -
    have "load64 ?z a = load64 (\<lambda>_. 0) a"
      by (rule load64_cong, use that n in simp, rule store32_outside) (use that t n in \<open>auto simp: span_def\<close>)
    also have "\<dots> = 0"
    proof -
      have "load_le (\<lambda>_. 0) a k = 0" for k by (induction k arbitrary: a) simp_all
      then show ?thesis by (simp add: load64_def)
    qed
    finally show ?thesis .
  qed
  show "load64 (demo_mem n flag) 4096 = of_nat n" "load64 (demo_mem n flag) 4104 = flag"
    using n t by (simp_all add: demo_mem_def load_store64_other)
  show "load64 (demo_mem n flag) 4112 = 0" "load64 (demo_mem n flag) 4120 = 0"
    using n t z by (simp_all add: demo_mem_def load_store64_other)
  show "load64 (demo_mem n flag) (4096 + of_nat n - 8) = of_nat n"
    using n t by (simp add: demo_mem_def load_store64_other)
  have "load32 (demo_mem n flag) (4096 + of_nat n - 16) = load32 ?z (4096 + of_nat n - 16)"
    unfolding demo_mem_def
    by (rule load32_cong; (intro trans [OF store64_outside])?) (use n t in \<open>auto simp: span_def store64_outside\<close>)
  then show "load32 (demo_mem n flag) (4096 + of_nat n - 16) = 7" using n t by simp
qed

lemma demo_gets:
  assumes n: "48 \<le> n" "n \<le> 1000000000"
  shows "get F_size (demo_block n flag) 4096 = of_nat n" "get F_is_free (demo_block n flag) 4096 = flag"
    "get F_next (demo_block n flag) 4096 = 0" "get F_prev (demo_block n flag) 4096 = 0"
  using demo_mem_loads [OF n] by (simp_all add: get_def demo_block_def)

lemma demo_break: "n \<le> 1000000000 \<Longrightarrow> unat (4096 + of_nat n :: 64 word) = 4096 + n"
  by (simp add: unat_plus_64 unat_of_nat_47)

lemma demo_block_inv:
  assumes n: "48 \<le> n" "n \<le> 1000000000" and g: "g dvd n" "g dvd 4096" and flag: "flag = 0 \<or> flag = 1"
  shows "heap_inv g (demo_block n flag) [(4096, n)] (if flag = 1 then [4096] else []) []"
    "tally (demo_block n flag) = count [(4096, n)] (if flag = 1 then [4096] else []) []"
proof -
  let ?s = "demo_block n flag" and ?fs = "if flag = 1 then [4096] else []"
  note G = demo_gets [OF n, of flag] and B = demo_break [OF n(2)]
  have ko: "kernel_ok (demo_os n)" using n B by (simp add: kernel_ok_def demo_os_def)
  have F: "sbrk_head ?s = 4096" "sbrk_free_head ?s = (if flag = 1 then 4096 else 0)" "kernel_of ?s = demo_os n"
    "os_start (demo_os n) = 4096" by (simp_all add: demo_block_def demo_os_def)
  have brk: "brk_at g (4096 + of_nat n) ?s" using ko B g by (simp add: brk_at_def demo_block_def demo_os_def)
  have ha: "heap_area g ?s [(4096, n)]"
    unfolding heap_area_def F using n g ko B brk by (auto intro!: exI [of _ "4096 + of_nat n"])
  have "tails_ok ?s {(4096, n)}"
    using G(1) demo_mem_loads(5,6) [OF n, of flag] by (simp add: tails_ok_def demo_block_def)
  moreover have "free_list ?s ?fs" using G(3) F(2) by (auto simp: free_list_def)
  ultimately have "heap_shape g ?s [(4096, n)] ?fs []"
    using ha by (intro heap_shape_I)
      (auto simp: mapped_def drawable_def heads_def demo_block_def)
  moreover have "flags_ok ?s (set [(4096, n)] \<union> set []) ?fs" using G(2) flag by (auto simp: flags_ok_def heads_def)
  ultimately show "heap_inv g ?s [(4096, n)] ?fs []" by (simp add: heap_inv_def)
  show "tally ?s = count [(4096, n)] ?fs []" using flag by (auto simp: tally_def count_def demo_block_def)
qed

lemma demo_block_live:
  assumes n: "48 \<le> n" "n < 131120" and g: "g dvd n" "g dvd 4096"
  shows "counters_ok g (demo_block n 0) {(4096, n)}"
proof -
  have n': "n \<le> 1000000000" using n(2) by simp
  note I = demo_block_inv [OF n(1) n' g, of 0]
  have "sound g (demo_block n 0) [(4096, n)] [] []"
    using I(1) n by (simp add: sound_def sizes_ok_def coalesced_def)
  moreover have "{(4096, n)} = live [(4096, n)] [] []" by (simp add: live_def)
  ultimately show ?thesis using I(2) unfolding counters_ok_def by fastforce
qed

section \<open>The properties of \<open>malloc_3.cpp\<close>\<close>

text \<open>
  C7. \<open>smalloc\<close> of a valid size always returns: either the null pointer, because the system refused
  memory (the live blocks and all of memory are then unchanged), or a pointer behind the head of a new
  live block that holds at least the requested bytes and wastes less than 176. The new block overlaps
  no live block, every other live block keeps its contents, and the counters stay exact unless the
  system refused something on the way. (Sizes just below 128 KB are excluded: see the leak below.)
\<close>

theorem smalloc_correct:
  assumes "allocator_ok 1 s L" "0 < n" "n \<le> 100000000" "n + 175 < 131072 \<or> 131072 \<le> n"
  shows "\<exists>p s'. smalloc (of_nat n) s = Inr (p, s') \<and>
    (p = 0 \<and> denied 1 s L s'
     \<or> (\<exists>h m. p = h + 32 \<and> served 1 (n + 48) s L h m s' \<and> span p n \<subseteq> payload h m \<and> blocks_ok (insert (h, m) L)))"
proof (rule smalloc_client [OF assms])
  fix h s' assume 1: "smalloc (of_nat n) s = Inr (user_pointer h, s')"
    "if h = 0 then denied 1 s L s' else served 1 (n + 48) s L h (unat (get F_size s' h)) s'"
  show ?thesis
  proof (cases "h = 0")
    case True
    then show ?thesis using 1 by (simp add: user_pointer_def)
  next
    case False
    let ?m = "unat (get F_size s' h)"
    have ok: "allocator_ok 1 s' (insert (h, ?m) L)" and m: "n + 48 \<le> ?m" using 1(2) False by (simp_all add: served_def)
    then show ?thesis
      using 1 False span_payload(1) [OF ok _ m] allocator_blocks [OF ok] by (auto simp: user_pointer_def)
  qed
qed

theorem smalloc_correct_witness:
  "\<exists>p s'. smalloc (of_nat 1000) demo_boot = Inr (p, s') \<and>
    (p = 0 \<and> denied 1 demo_boot {} s'
     \<or> (\<exists>h m. p = h + 32 \<and> served 1 (1000 + 48) demo_boot {} h m s' \<and> span p 1000 \<subseteq> payload h m \<and> blocks_ok (insert (h, m) {})))"
  by (rule smalloc_correct [OF counters_allocator [OF boot_counters [OF demo_boot_ok]]]) simp_all

text \<open>
  C8. \<open>sfree\<close> of a live block always returns, takes exactly that block out of the set of live blocks,
  leaves the contents of all others alone, and keeps the counters exact and the free blocks coalesced.
\<close>

theorem sfree_correct:
  assumes "allocator_ok 1 s L" "(h, m) \<in> L"
  shows "\<exists>s'. sfree (h + 32) s = Inr s' \<and> allocator_ok 1 s' (L - {(h, m)}) \<and> kept (L - {(h, m)}) s s'
    \<and> (counters_ok 1 s L \<longrightarrow> counters_ok 1 s' (L - {(h, m)}))"
  by (rule sfree_client [OF assms]) blast

theorem sfree_correct_witness:
  "\<exists>s'. sfree (4096 + 32) (demo_block 100 0) = Inr s' \<and> allocator_ok 1 s' ({(4096, 100)} - {(4096, 100)})
    \<and> kept ({(4096, 100)} - {(4096, 100)}) (demo_block 100 0) s'
    \<and> (counters_ok 1 (demo_block 100 0) {(4096, 100)} \<longrightarrow> counters_ok 1 s' ({(4096, 100)} - {(4096, 100)}))"
  by (rule sfree_correct [OF counters_allocator [OF demo_block_live]]) simp_all

text \<open>
  A block whose tail cookie was overwritten is caught: \<open>sfree\<close> of it exits with status
  \<open>0xdeadbeef\<close>, and so does freeing it after any write over the end of its payload that changes the cookie.
\<close>

theorem overflow_detected:
  assumes "allocator_ok 1 s L" "(h, m) \<in> L" "c \<noteq> global_rand_cookie s"
  shows "sfree (h + 32) (s\<lparr>mem := store32 (mem s) (h + of_nat m - 16) c\<rparr>) = Inl (Exit 0xdeadbeef)"
proof -
  let ?m = "store32 (mem s) (h + of_nat m - 16) c" and ?s = "s\<lparr>mem := store32 (mem s) (h + of_nat m - 16) c\<rparr>"
  note A = allocator_size [OF assms(1,2)]
  from assms(1,2) obtain bs fs ms where inv: "heap_inv 1 s bs fs ms" and b: "(h, m) \<in> live bs fs ms"
    by (auto simp: allocator_ok_def sound_def)
  have "(h, m) \<in> set bs \<union> set ms" using b live_subset by blast
  then have "bs \<noteq> [] \<or> ms \<noteq> []" by auto
  then have ck: "global_rand_cookie s \<noteq> 0" using inv by (auto simp: heap_inv_def heap_shape_def)
  note t = tail_address(1) [OF A(3,4)]
  have r: "unat h + 32 \<le> 18446744073709551616" using A(3,4) by linarith
  have "get F_size ?s h = get F_size s h"
    unfolding get_def using A(3,4) t unat_offset [OF r, of F_size]
    by (intro load64_cong) (auto intro!: store32_outside simp: span_def)
  then have sz: "get F_size ?s h = of_nat m" using live_block(3) [OF inv b] by simp
  have u: "unat (h + 32) = unat h + 32" using A(3,4) by (subst unat_plus_64) simp_all
  then have "h + 32 \<noteq> 0" by (metis add_is_0 unat_0 zero_neq_numeral)
  moreover have "load32 ?m (h + of_nat m - 16) = c" using t A(3,4) by simp
  ultimately show ?thesis
    using ck assms(3) by (simp add: sfree_def free_with_def check_cookie_def tail_metadata_def sz add_diff_eq)
qed

theorem overflow_detected_witness:
  "sfree (4096 + 32) (demo_block 100 0\<lparr>mem := store32 (mem (demo_block 100 0)) (4096 + of_nat 100 - 16) 0\<rparr>)
     = Inl (Exit 0xdeadbeef)"
  by (rule overflow_detected [OF counters_allocator [OF demo_block_live]]) (simp_all add: demo_block_def)

section \<open>Zeroed allocation\<close>

lemma memset_served:
  assumes sv: "served g k s L h m t" and k: "n + 48 \<le> k" "n \<le> 100000000"
  defines "s' \<equiv> t\<lparr>mem := memset (mem t) (h + 32) 0 (of_nat n)\<rparr>"
  shows "served g k s L h m s'" "\<forall>x\<in>span (h + 32) n. mem s' x = 0"
proof -
  have ok: "allocator_ok g t (insert (h, m) L)" and m: "n + 48 \<le> m" and f: "h \<notin> heads L" and kp: "kept L s t"
    using sv k(1) by (auto simp: served_def)
  note B = allocator_size [OF ok, of h m, simplified] and P = span_payload [OF ok _ m, simplified]
  have un: "unat (of_nat n :: 64 word) = n" using k(2) by (intro unat_of_nat_47) simp
  have ms: "memset (mem t) (h + 32) 0 (of_nat n) x = (if x \<in> span (h + 32) n then 0 else mem t x)" for x
    using memset_in_span [of "h + 32" "of_nat n"] P(2) B(3,4) m un by simp
  then show "\<forall>x\<in>span (h + 32) n. mem s' x = 0" by (simp add: s'_def)
  have out: "memset (mem t) (h + 32) 0 (of_nat n) y = mem t y" if "y \<notin> payload h m" for y
    using ms P(1) that by auto
  note W = write_client [OF allocator_blocks [OF ok] insertI1 out, folded s'_def]
  have "L \<subseteq> insert (h, m) L - {(h, m)}" using f by auto
  then have "kept L t s'" using W(3) kept_subset by blast
  then have "kept L s s'" using kp kept_trans by blast
  moreover have "refused_some s s' = refused_some s t" by (simp add: refused_some_def s'_def)
  ultimately show "served g k s L h m s'" using sv W(1,2) unfolding served_def by auto
qed

text \<open>
  C25. \<open>scalloc\<close> of \<open>num\<close> elements of \<open>bytes\<close> bytes, where the product \<open>n\<close> is between 1 and \<open>10 ^ 8\<close> (so that it does not wrap
  around) and not \<open>n < 131072 \<le> n + 175\<close>, does what \<open>smalloc\<close> of the product does: it returns null only when the system
  refused memory, and otherwise a fresh block that keeps all others as they are. The memory it hands out is all zero.
\<close>

theorem scalloc_correct:
  assumes "allocator_ok 1 s L" "0 < num * bytes" "num * bytes \<le> 100000000" "num * bytes + 175 < 131072 \<or> 131072 \<le> num * bytes"
  shows "\<exists>p s'. scalloc (of_nat num) (of_nat bytes) s = Inr (p, s') \<and>
    (p = 0 \<and> denied 1 s L s'
     \<or> (\<exists>h m. p = h + 32 \<and> served 1 (num * bytes + 48) s L h m s' \<and> (\<forall>x\<in>span p (num * bytes). mem s' x = 0)))"
proof (rule smalloc_client [OF assms])
  fix h s' assume 1: "smalloc (of_nat (num * bytes)) s = Inr (user_pointer h, s')"
    "if h = 0 then denied 1 s L s' else served 1 (num * bytes + 48) s L h (unat (get F_size s' h)) s'"
  have sz: "of_nat num * of_nat bytes = (of_nat (num * bytes) :: 64 word)" by simp
  show ?thesis
  proof (cases "h = 0")
    case True
    then show ?thesis using 1 unfolding scalloc_def sz by (simp add: user_pointer_def)
  next
    case False
    have sv: "served 1 (num * bytes + 48) s L h (unat (get F_size s' h)) s'" using 1(2) False by simp
    then have "allocator_ok 1 s' (insert (h, unat (get F_size s' h)) L)" "num * bytes + 48 \<le> unat (get F_size s' h)"
      by (simp_all add: served_def)
    then have "unat (h + 32) = unat h + 32" using span_payload(2) by blast
    then have nz: "h + 32 \<noteq> 0" by (metis add_is_0 unat_0 zero_neq_numeral)
    let ?t = "s'\<lparr>mem := memset (mem s') (h + 32) 0 (of_nat (num * bytes))\<rparr>"
    have "scalloc (of_nat num) (of_nat bytes) s = Inr (h + 32, ?t)"
      unfolding scalloc_def sz using 1(1) False nz by (simp add: user_pointer_def)
    then show ?thesis using memset_served [OF sv order.refl assms(3)] by blast
  qed
qed

theorem scalloc_correct_witness:
  "\<exists>p s'. scalloc (of_nat 25) (of_nat 4) demo_boot = Inr (p, s') \<and>
    (p = 0 \<and> denied 1 demo_boot {} s'
     \<or> (\<exists>h m. p = h + 32 \<and> served 1 (25 * 4 + 48) demo_boot {} h m s' \<and> (\<forall>x\<in>span p (25 * 4). mem s' x = 0)))"
  by (rule scalloc_correct [OF counters_allocator [OF boot_counters [OF demo_boot_ok]]]) simp_all

section \<open>Programs that use the allocator\<close>

text \<open>
  The sizes the guarantees are for: 1 to \<open>10 ^ 8\<close>, and not one of the last 175 below 128 KB. A block for one of those may
  be served from a free block that is up to 175 bytes larger and so of 128 KB or more, and such a block of the heap is taken for
  a mapped one when it is released (\<open>large_heap_block_leaks\<close>).
\<close>

definition may_ask :: "heap \<Rightarrow> nat \<Rightarrow> bool" where
  "may_ask s n \<longleftrightarrow> 0 < n \<and> n \<le> 100000000 \<and> (n + 175 < 131072 \<or> 131072 \<le> n)"

interpretation a3: allocator smalloc sfree may_ask 1
proof
  fix s L n assume ok: "allocator_ok 1 s L" and n: "may_ask s n"
  show "\<exists>h s' k. smalloc (of_nat n) s = Inr (user_pointer h, s') \<and> n + 48 \<le> k
      \<and> (if h = 0 then denied 1 s L s' else served 1 k s L h (unat (get F_size s' h)) s')"
  proof (rule smalloc_client [OF ok, of n])
    fix h s' assume "smalloc (of_nat n) s = Inr (user_pointer h, s')"
      "if h = 0 then denied 1 s L s' else served 1 (n + 48) s L h (unat (get F_size s' h)) s'"
    then show ?thesis by (intro exI [of _ h] exI [of _ s'] exI [of _ "n + 48"]) simp
  qed (use n in \<open>simp_all add: may_ask_def\<close>)
next
  fix s L h m assume "allocator_ok 1 s L" "(h, m) \<in> L"
  then show "\<exists>s'. sfree (h + 32) s = Inr s' \<and> allocator_ok 1 s' (L - {(h, m)}) \<and> kept (L - {(h, m)}) s s'"
    by (rule sfree_client) blast
qed

lemma demo_malloc: "\<exists>s'. smalloc (of_nat 1000) demo_boot = Inr (4096 + 32, s')"
  by (simp add: smalloc_def SIZE_LIMIT_def alloc_sbrk_def size_constants sbrk_malloc_def sbrk_malloc_new_def demo_boot_def demo_os_def
      m3_sbrk_def static_break_def move_break_def sbrk_def init_sbrk_alloc_block_def set_tail_def put_def Let_def user_pointer_def)

text \<open>
  C1. Let a program, in a process in which \<open>rand()\<close> does not always return 0, perform any sequence of calls of \<open>smalloc\<close>, of
  \<open>sfree\<close> on its blocks and of writes into them, in which it asks for 1 to \<open>10 ^ 8\<close> bytes at a time and never for
  a size \<open>n < 131072 \<le> n + 175\<close>. Then its blocks never overlap, each reads back
  exactly what the program last wrote into it, and the next call of \<open>smalloc\<close> with such a size, or of \<open>sfree\<close> on any of its
  blocks, returns. For the sizes left out the claim would be false: \<open>sfree\<close> can unmap a block of the heap there.
\<close>

theorem programs_are_safe:
  assumes "runs smalloc sfree may_ask s L v"
  shows "blocks_ok L \<and> agrees s L v \<and> (\<forall>n. may_ask s n \<longrightarrow> (\<exists>r. smalloc (of_nat n) s = Inr r))
    \<and> (\<forall>b\<in>L. \<exists>s'. sfree (fst b + 32) s = Inr s')"
  by (rule a3.runs_safe [OF assms])

theorem programs_are_safe_witness:
  "\<exists>s m v. smalloc (of_nat 1000) demo_boot = Inr (4096 + 32, s) \<and> runs smalloc sfree may_ask s {(4096, m)} v
    \<and> blocks_ok {(4096, m)} \<and> agrees s {(4096, m)} v
    \<and> (\<forall>n. may_ask s n \<longrightarrow> (\<exists>r. smalloc (of_nat n) s = Inr r)) \<and> (\<exists>s'. sfree (4096 + 32) s = Inr s')"
proof -
  obtain s where s: "smalloc (of_nat 1000) demo_boot = Inr (4096 + 32, s)" using demo_malloc by blast
  let ?m = "unat (get F_size s 4096)" and ?v = "\<lambda>x. if x \<in> payload 4096 (unat (get F_size s 4096)) then mem s x else 0"
  have r: "runs smalloc sfree may_ask s (insert (4096, ?m) {}) ?v"
    by (rule runs.malloc [where n = 1000, OF runs.start [OF demo_boot_ok]]) (simp_all add: may_ask_def s del: of_nat_numeral)
  show ?thesis using s r programs_are_safe [OF r] by (intro exI [of _ s] exI [of _ ?m] exI [of _ ?v]) simp
qed

section \<open>Reuse of free blocks\<close>

text \<open>
  Best fit: when some free block is large enough, the search returns, without any system call, a
  free block that is large enough and smallest among those.
\<close>

theorem find_is_best_fit:
  assumes "heap_inv 1 s bs fs ms" "48 \<le> k" "k \<le> 70368744177664" "(x, m) \<in> set bs" "x \<in> set fs" "k \<le> m"
  shows "\<exists>h n. find_sbrk_free_block m3_sbrk (of_nat k) s = Inr (h, s) \<and> (h, n) \<in> set bs \<and> h \<in> set fs \<and> k \<le> n
    \<and> (\<forall>(y, j)\<in>set bs. y \<in> set fs \<and> k \<le> j \<longrightarrow> n \<le> j)"
proof -
  have none: "False" if "\<forall>(x, m)\<in>set bs. x \<in> set fs \<longrightarrow> m < k" using that assms(4-6) by fastforce
  show ?thesis
    by (rule h3.find_spec [OF assms(1,2) _ assms(3)]) (use none in \<open>auto intro!: exI\<close>)
qed

theorem find_is_best_fit_witness:
  "\<exists>h n. find_sbrk_free_block m3_sbrk (of_nat 64) (demo_block 100 1) = Inr (h, demo_block 100 1) \<and> (h, n) \<in> set [(4096, 100 :: nat)]
    \<and> h \<in> set [4096] \<and> 64 \<le> n \<and> (\<forall>(y, j)\<in>set [(4096 :: addr, 100)]. y \<in> set [4096] \<and> 64 \<le> j \<longrightarrow> n \<le> j)"
  by (rule find_is_best_fit [where ms = "[]" and x = 4096 and m = 100]) (use demo_block_inv(1) [of 100 1 1] in simp_all)

section \<open>Resizing\<close>

text \<open>
  C24. \<open>_sbrk_realloc\<close>, the part of \<open>srealloc\<close> that resizes a block of the heap of less than 128 KB where it is, asked for 1 to \<open>10 ^ 8\<close> bytes. It always
  returns, keeps the heap invariant and the contents of every other live block, and ends in one of three ways: with a block
  of the size asked for or more, that starts with the bytes of the old one (as many as fit); with address 32, when the
  system refuses to extend the last block of the heap; or with null, when there is no room around the block. What it
  returns in the first two cases is what \<open>srealloc\<close> returns. What \<open>srealloc\<close> does after null, with a pointer that may
  point into a merged block, is not part of this property.
\<close>

theorem sbrk_realloc_in_place:
  assumes "heap_inv 1 s bs fs ms" "(h, n) \<in> set bs" "h \<notin> set fs" "n < 131120" "0 < b" "b \<le> 100000000"
  shows "\<exists>p s'. sbrk_realloc m3_sbrk h (of_nat (b + 48)) s = Inr (p, s') \<and> (p \<noteq> 0 \<longrightarrow> srealloc (h + 32) (of_nat b) s = Inr (p, s'))
    \<and> ends 1 (b + 48) (min n (b + 48) - 48) (tally s = count bs fs ms) s (live bs fs ms - {(h, n)}) h ms
        (sbrk_realloc m3_sbrk h (of_nat (b + 48)) s)"
proof -
  note R = request_size [OF assms(5,6)]
  have e: "ends 1 (b + 48) (min n (b + 48) - 48) (tally s = count bs fs ms) s (live bs fs ms - {(h, n)}) h ms
      (sbrk_realloc m3_sbrk h (of_nat (b + 48)) s)"
    by (rule h3.sbrk_realloc_ends [OF assms(1-3)]) (use assms(6) in simp_all)
  then obtain p s' where p: "sbrk_realloc m3_sbrk h (of_nat (b + 48)) s = Inr (p, s')" unfolding ends_def by blast
  have B: "get F_size s h = of_nat n" "48 \<le> n" "unat h + n \<le> 140737488355328"
    using live_block(3,5,6) [OF assms(1), of h n] assms(2,3) by (auto simp: live_def)
  have "unat (h + 32) = unat h + 32" using B by (subst unat_plus_64) simp_all
  then have nz: "h + 32 \<noteq> 0" by (metis add_is_0 unat_0 zero_neq_numeral)
  have "is_sbrk_alloc s h"
    using B(1) unat_of_nat_47 [of n] assms(4) by (simp add: is_sbrk_alloc_def size_constants word_less_nat_alt)
  then have "p \<noteq> 0 \<longrightarrow> srealloc (h + 32) (of_nat b) s = Inr (p, s')"
    unfolding srealloc_def Let_def R(3) using R(1,2) nz p by simp
  then show ?thesis using p e by blast
qed

theorem sbrk_realloc_in_place_witness:
  "\<exists>p s'. sbrk_realloc m3_sbrk 4096 (of_nat (200 + 48)) (demo_block 100 0) = Inr (p, s')
    \<and> (p \<noteq> 0 \<longrightarrow> srealloc (4096 + 32) (of_nat 200) (demo_block 100 0) = Inr (p, s'))
    \<and> ends 1 (200 + 48) (min 100 (200 + 48) - 48) (tally (demo_block 100 0) = count [(4096, 100)] [] []) (demo_block 100 0)
        (live [(4096, 100)] [] [] - {(4096, 100)}) 4096 [] (sbrk_realloc m3_sbrk 4096 (of_nat (200 + 48)) (demo_block 100 0))"
  by (rule sbrk_realloc_in_place) (use demo_block_inv(1) [of 100 1 0] in simp_all)

lemma refusing_break:
  assumes "\<not> os_grants (kernel_of s) (os_clock (kernel_of s))"
  shows "os_break (kernel_of (snd (move_break d s p))) = os_break (kernel_of s)"
  using assms by (simp add: move_break_def sbrk_def Let_def)

lemma refused_growth:
  assumes p: "brk_at 1 p t" and r: "\<not> os_grants (kernel_of t) (os_clock (kernel_of t))"
    and d: "0 < unat d" "unat d \<le> 140737488355328"
  shows "fst (m3_sbrk d t) = - 1"
proof (rule m3.grow_cases [OF p d])
  fix k assume g: "m3_sbrk d t = (p, t\<lparr>kernel_of := k, program_break := Some (p + d)\<rparr>)"
    "brk_at 1 (p + d) (t\<lparr>kernel_of := k, program_break := Some (p + d)\<rparr>)" "unat (p + d) = unat p + unat d"
  have "m3_sbrk d t = move_break d t p" by (rule m3.grow [OF p d]) simp
  then have "move_break d t p = (p, t\<lparr>kernel_of := k, program_break := Some (p + d)\<rparr>)" using g(1) by simp
  from refusing_break [OF r, of d p, unfolded this] have "os_break k = p" using p by (simp add: brk_at_def)
  then show ?thesis using g(2,3) d(1) by (simp add: brk_at_def)
qed simp_all

text \<open>
  When the heap is one live block and the system grants no more memory, asking \<open>srealloc\<close> for a larger block
  yields the address 32, which is neither null nor the address of anything: the failure of
  \<open>_wilderness_sbrk_block_increase\<close> is not looked at before the size of the head is added.
\<close>

theorem srealloc_refused:
  assumes "heap_inv 1 s [(h, n)] [] []" "n < 131120" "n < b + 48" "b \<le> 100000000" "\<forall>i. \<not> os_grants (kernel_of s) i"
  shows "\<exists>s'. srealloc (h + 32) (of_nat b) s = Inr (32, s')"
proof -
  let ?k = "b + 48"
  have inv: "heap_inv 1 s ([] @ (h, n) # []) [] []" using assms(1) by simp
  obtain s1 where m1: "merge_sbrk_blocks m3_sbrk h True False True s = Inr (h, s1)" and i1: "heap_inv 1 s1 [(h, n)] [] []"
    using h3.merge_spec [OF inv _ refl refl refl refl, where ml = True and mr = False and copy = True]
    by (auto simp: merge_choice_defs)
  have a1: "around s1 = around s" by (rule h3.around_merge [OF assms(1) _ m1, of n]) simp
  have r0: "resized 1 0 False s {} h s [(h, n)] [] [] h n" and r1: "resized 1 0 False s1 {} h s1 [(h, n)] [] [] h n"
    using assms(1) i1 by (auto simp: resized_def live_def moved_def)
  have "heap_area 1 s [(h, n)]" using assms(1) by (simp add: heap_inv_def heap_shape_def)
  then obtain p where p: "brk_at 1 p s" "m3_sbrk 0 s = (p, s)" "contiguous (unat (sbrk_head s)) [(h, n)] (unat p)"
    by (rule h3.break_of_shape) simp_all
  have p1: "brk_at 1 p s1" using around_brk [OF a1] p(1) by simp
  have S: "get F_size s1 h = of_nat n" "48 \<le> n" "unat h + n \<le> 140737488355328" using resized_size [OF r1] by simp_all
  have "unat (of_nat n :: 64 word) = n" using S(3) by (intro unat_of_nat_47) simp
  then have "unat (h + of_nat n) = unat h + n" using S(3) by (simp add: unat_plus_64)
  then have e: "h + get F_size s1 h = p" using p(3) unfolding S(1) eq_iff_unat_64 by simp
  have n: "0 < b" "n < ?k" using S(2) assms(3) by simp_all
  have k: "?k \<le> 70368744177664" using assms(4) by simp
  let ?t = "s1\<lparr>allocated_bytes_num := allocated_bytes_num s1 + (of_nat ?k - get F_size s1 h)\<rparr>"
  have d: "of_nat ?k - get F_size s1 h = (of_nat (?k - n) :: 64 word)" using n(2) unfolding S(1) by (simp only: of_nat_diff_64 less_imp_le)
  have u: "unat (of_nat (?k - n) :: 64 word) = ?k - n" using assms(4) by (intro unat_of_nat_47) simp
  have "fst (m3_sbrk (of_nat ?k - get F_size s1 h) ?t) = - 1"
  proof (rule refused_growth)
    show "brk_at 1 p ?t" using p1 by (simp add: brk_at_def)
    show "\<not> os_grants (kernel_of ?t) (os_clock (kernel_of ?t))" using a1 assms(5) by (simp add: around_def)
  qed (use d u n(2) assms(4) in simp_all)
  then obtain s' where "wilderness_sbrk_block_increase m3_sbrk h (of_nat ?k) ?t = Inr (0, s')"
    by (cases "m3_sbrk (of_nat ?k - get F_size s1 h) ?t") (simp add: wilderness_sbrk_block_increase_def get_def)
  then have "sbrk_realloc m3_sbrk h (of_nat ?k) s = Inr (32, s')"
    using m1 e n(2) fits_iff [OF r0 k] fits_iff [OF r1 k] by (simp add: sbrk_realloc_def p(2) Let_def)
  moreover note R = request_size [OF n(1) assms(4)]
  moreover have "is_sbrk_alloc s h"
    using resized_size(1,3) [OF r0] unat_of_nat_47 [of n] assms(2) by (simp add: is_sbrk_alloc_def size_constants word_less_nat_alt)
  moreover have "unat (h + 32) = unat h + 32" using S by (subst unat_plus_64) simp_all
  then have "h + 32 \<noteq> 0" by (metis add_is_0 unat_0 zero_neq_numeral)
  ultimately have "srealloc (h + 32) (of_nat b) s = Inr (32, s')"
    unfolding srealloc_def Let_def R(3) by simp
  then show ?thesis by blast
qed

theorem srealloc_refused_witness:
  "\<exists>s'. srealloc (4096 + 32) (of_nat 200) (demo_block 100 0\<lparr>kernel_of := (demo_os 100)\<lparr>os_grants := (\<lambda>_. False)\<rparr>\<rparr>) = Inr (32, s')"
proof (rule srealloc_refused)
  have "kernel_ok ((demo_os 100)\<lparr>os_grants := (\<lambda>_. False)\<rparr>)" by (simp add: kernel_ok_def demo_os_def)
  then have "heap_inv 1 (demo_block 100 0\<lparr>kernel_of := (demo_os 100)\<lparr>os_grants := (\<lambda>_. False)\<rparr>\<rparr>) [(4096, 100)] [] []"
    by (intro inv_kernel) (use demo_block_inv(1) [of 100 1 0] in \<open>simp_all add: same_maps_def demo_block_def\<close>)
  then show "heap_inv 1 (demo_block 100 0\<lparr>kernel_of := (demo_os 100)\<lparr>os_grants := (\<lambda>_. False)\<rparr>\<rparr>) [(4096, 100)] [] []" .
qed simp_all

text \<open>
  A heap block of 128 KB or more is not given back to the heap by \<open>sfree\<close>: the function takes it for a mapped
  block by its size alone. Nothing is added to the free list, although the block came from \<open>sbrk\<close>; and when the block
  begins a page, \<open>munmap\<close> takes its pages out of the heap, together with what other blocks have in the last of them. Such a block
  comes about when a request just below the limit is served from a free block that is too small to be split.
\<close>

theorem large_heap_block_leaks:
  assumes "heap_inv 1 s bs fs ms" "(h, n) \<in> set bs" "h \<notin> set fs" "131120 \<le> n"
  shows "\<exists>s'. sfree (h + 32) s = Inr s' \<and> mem s' = mem s \<and> sbrk_free_head s' = sbrk_free_head s
    \<and> num_free_blocks s' = num_free_blocks s \<and> num_allocated_blocks s' = num_allocated_blocks s - 1
    \<and> (4096 dvd unat h \<and> (\<forall>(_, _, huge)\<in>set (os_maps (kernel_of s)). \<not> huge) \<longrightarrow>
         os_holes (kernel_of s') = [(h, round_up 4096 n)])"
proof -
  have b: "(h, n) \<in> live bs fs ms" using assms(2,3) by (simp add: live_def)
  note B = live_block [OF assms(1) b]
  have "unat (of_nat n :: 64 word) = n" using B(6) by (intro unat_of_nat_47) simp
  then have big: "\<not> is_sbrk_alloc s h" using assms(4) by (simp add: is_sbrk_alloc_def B(3) size_constants word_less_nat_alt)
  have "unat (h + 32) = unat h + 32" using B(5,6) by (subst unat_plus_64) simp_all
  then have "h + 32 \<noteq> 0" by (metis add_is_0 unat_0 zero_neq_numeral)
  then have "sfree (h + 32) s = Inr (mmap_free h s)" using big by (simp add: sfree_def free_with_def B(1,2))
  moreover have "os_holes (snd (munmap h (of_nat n) (kernel_of s))) = [(h, round_up 4096 n)]"
    if "4096 dvd unat h" "\<forall>(_, _, huge)\<in>set (os_maps (kernel_of s)). \<not> huge"
  proof -
    have ha: "heap_area 1 s bs" using assms(1) by (simp add: heap_inv_def heap_shape_def)
    note I = heap_area_bounds [OF ha assms(2)]
    have "n \<le> round_up 4096 n" by (rule round_up_le) simp
    then have "\<not> apart (unat (os_start (kernel_of s))) (unat (os_break (kernel_of s)) - unat (os_start (kernel_of s))) (unat h) (round_up 4096 n)"
      using I B(5) assms(4) by (auto simp: apart_def)
    moreover have "(of_nat n :: size_t) \<noteq> 0" using \<open>unat (of_nat n) = n\<close> assms(4) by (metis not_numeral_le_zero unat_0)
    moreover have "kernel_ok (kernel_of s)" using ha by (simp add: heap_area_def)
    ultimately show ?thesis using that \<open>unat (of_nat n) = n\<close> by (auto simp: munmap_def page_def kernel_ok_def list_ex_iff Let_def)
  qed
  ultimately show ?thesis by (simp add: mmap_free_def num_free_blocks_def num_allocated_blocks_def B(3))
qed

theorem large_heap_block_leaks_witness:
  "\<exists>s'. sfree (4096 + 32) (demo_block 131120 0) = Inr s' \<and> mem s' = mem (demo_block 131120 0)
    \<and> sbrk_free_head s' = sbrk_free_head (demo_block 131120 0) \<and> num_free_blocks s' = num_free_blocks (demo_block 131120 0)
    \<and> num_allocated_blocks s' = num_allocated_blocks (demo_block 131120 0) - 1 \<and> os_holes (kernel_of s') = [(4096, 135168)]"
  using large_heap_block_leaks [of "demo_block 131120 0" "[(4096, 131120)]" "[]" "[]" 4096 131120]
    demo_block_inv(1) [of 131120 1 0] by (auto simp: demo_block_def demo_os_def round_up_def)

end
