(* ===== verification/Malloc_Huge.thy ===== *)
theory Malloc_Huge
  imports Malloc_Three
begin

text \<open>
  The allocator of \<open>malloc_4.cpp\<close>. It repeats the text of \<open>malloc_3.cpp\<close> for tails, the free list, merging and
  splitting, over an \<open>_sbrk\<close> that aligns the program break (\<open>m4_sbrk\<close>); those functions are the ones of
  \<open>Malloc_Blocks\<close> at \<open>m4_sbrk\<close>. Its own are the rounding of sizes to 8 (\<open>bit_align_8\<close>), mappings made of huge
  pages with the kind of page kept in the \<open>next\<close> field of the head, and the public functions.
\<close>

unbundle bit_operations_syntax

section \<open>Functions shared with \<open>malloc_3.cpp\<close>\<close>

definition m4_num_free_blocks :: "heap \<Rightarrow> size_t" where
  "m4_num_free_blocks = num_free_blocks"

definition m4_num_free_bytes :: "heap \<Rightarrow> size_t" where
  "m4_num_free_bytes = num_free_bytes"

definition m4_num_allocated_blocks :: "heap \<Rightarrow> size_t" where
  "m4_num_allocated_blocks = num_allocated_blocks"

definition m4_num_allocated_bytes :: "heap \<Rightarrow> size_t" where
  "m4_num_allocated_bytes = num_allocated_bytes"

definition m4_num_meta_data_bytes :: "heap \<Rightarrow> size_t" where
  "m4_num_meta_data_bytes = num_meta_data_bytes"

definition m4_set_tail :: "addr \<Rightarrow> heap \<Rightarrow> heap outcome" where
  "m4_set_tail = set_tail"

definition m4_check_cookie :: "addr \<Rightarrow> heap \<Rightarrow> unit outcome" where
  "m4_check_cookie = check_cookie"

definition m4_init_sbrk_alloc_block :: "addr \<Rightarrow> size_t \<Rightarrow> bool \<Rightarrow> heap \<Rightarrow> (addr \<times> heap) outcome" where
  "m4_init_sbrk_alloc_block = init_sbrk_alloc_block m4_sbrk"

definition m4_wilderness_sbrk_block_increase :: "addr \<Rightarrow> size_t \<Rightarrow> heap \<Rightarrow> (addr \<times> heap) outcome" where
  "m4_wilderness_sbrk_block_increase = wilderness_sbrk_block_increase m4_sbrk"

definition m4_find_sbrk_free_block :: "size_t \<Rightarrow> heap \<Rightarrow> (addr \<times> heap) outcome" where
  "m4_find_sbrk_free_block = find_sbrk_free_block m4_sbrk"

definition m4_add_sbrk_free_block :: "addr \<Rightarrow> heap \<Rightarrow> heap outcome" where
  "m4_add_sbrk_free_block = add_sbrk_free_block"

definition m4_remove_sbrk_free_block :: "addr \<Rightarrow> heap \<Rightarrow> heap outcome" where
  "m4_remove_sbrk_free_block = remove_sbrk_free_block"

definition m4_init_sbrk_free_block :: "addr \<Rightarrow> size_t \<Rightarrow> heap \<Rightarrow> heap outcome" where
  "m4_init_sbrk_free_block = init_sbrk_free_block"

definition m4_merge_sbrk_blocks :: "addr \<Rightarrow> bool \<Rightarrow> bool \<Rightarrow> bool \<Rightarrow> heap \<Rightarrow> (addr \<times> heap) outcome" where
  "m4_merge_sbrk_blocks = merge_sbrk_blocks m4_sbrk"

definition m4_sbrk_malloc :: "size_t \<Rightarrow> heap \<Rightarrow> (addr \<times> heap) outcome" where
  "m4_sbrk_malloc = sbrk_malloc m4_sbrk"

definition m4_sbrk_free :: "addr \<Rightarrow> heap \<Rightarrow> heap outcome" where
  "m4_sbrk_free = sbrk_free m4_sbrk"

definition m4_mmap_free :: "addr \<Rightarrow> heap \<Rightarrow> heap" where
  "m4_mmap_free = mmap_free"

definition m4_sfree :: "addr \<Rightarrow> heap \<Rightarrow> heap outcome" where
  "m4_sfree = free_with m4_sbrk"

definition m4_sbrk_realloc :: "addr \<Rightarrow> size_t \<Rightarrow> heap \<Rightarrow> (addr \<times> heap) outcome" where
  "m4_sbrk_realloc = sbrk_realloc m4_sbrk"

section \<open>Functions of its own\<close>

definition HUGE_PAGE_LIMIT :: size_t where
  "HUGE_PAGE_LIMIT = 4 * 1024 * 1024"

definition SCALLOC_HUGE_PAGE_LIMIT :: size_t where
  "SCALLOC_HUGE_PAGE_LIMIT = 2 * 1024 * 1024"

definition REGULAR_PAGE :: "64 word" where
  "REGULAR_PAGE = 0"

definition HUGE_PAGE :: "64 word" where
  "HUGE_PAGE = 1"

definition bit_align_8 :: "size_t \<Rightarrow> size_t" where
  "bit_align_8 bytes = (if bytes mod 8 \<noteq> 0 then (bytes AND (- 8)) + 8 else bytes)"

definition m4_mmap_malloc :: "size_t \<Rightarrow> bool \<Rightarrow> heap \<Rightarrow> (addr \<times> heap) outcome" where
  "m4_mmap_malloc block_size force_hugepage s =
     (let huge = force_hugepage \<or> HUGE_PAGE_LIMIT \<le> block_size;
          (mmap_addr, k) = mmap block_size huge (kernel_of s);
          s = s\<lparr>kernel_of := k\<rparr> in
      if mmap_addr = - 1 then Inr (0, s)
      else checked_bind (m4_init_sbrk_alloc_block mmap_addr block_size False s) (\<lambda>(_, s).
        let s = put F_next mmap_addr (if huge then HUGE_PAGE else REGULAR_PAGE) s in
        Inr (mmap_addr, s\<lparr>allocated_blocks_num := allocated_blocks_num s + 1,
          allocated_bytes_num := allocated_bytes_num s + (block_size - size_meta_data)\<rparr>)))"

definition m4_smalloc :: "size_t \<Rightarrow> heap \<Rightarrow> (addr \<times> heap) outcome" where
  "m4_smalloc bytes s =
     (let bytes = bit_align_8 bytes in
      if bytes = 0 \<or> SIZE_LIMIT < bytes then Inr (0, s)
      else
        let block_size = bytes + size_meta_data in
        checked_bind (if alloc_sbrk block_size then m4_sbrk_malloc block_size s else m4_mmap_malloc block_size False s)
          (\<lambda>(block, s). Inr (user_pointer block, s)))"

definition m4_scalloc :: "size_t \<Rightarrow> size_t \<Rightarrow> heap \<Rightarrow> (addr \<times> heap) outcome" where
  "m4_scalloc num bytes s =
     (let bytes = bit_align_8 (num * bytes) in
      if bytes = 0 \<or> SIZE_LIMIT < bytes then Inr (0, s)
      else
        let block_size = bytes + size_meta_data in
        checked_bind
          (if SCALLOC_HUGE_PAGE_LIMIT + size_meta_data < block_size
           then checked_bind (m4_mmap_malloc block_size True s) (\<lambda>(block, s). Inr (user_pointer block, s))
           else m4_smalloc bytes s)
          (\<lambda>(alloc, s). if alloc = 0 then Inr (0, s) else Inr (alloc, s\<lparr>mem := memset (mem s) alloc 0 bytes\<rparr>)))"

definition m4_srealloc :: "addr \<Rightarrow> size_t \<Rightarrow> heap \<Rightarrow> (addr \<times> heap) outcome" where
  "m4_srealloc oldp bytes s =
     (let bytes = bit_align_8 bytes in
      if oldp = 0 then m4_smalloc bytes s
      else let old_block = oldp - 32 in
      if bytes = 0 \<or> SIZE_LIMIT < bytes then Inr (0, s)
      else let block_size = bytes + size_meta_data in
      checked_bind (if is_sbrk_alloc s old_block then m4_sbrk_realloc old_block block_size s else Inr (0, s)) (\<lambda>(newp, s).
      if newp \<noteq> 0 then Inr (newp, s)
      else if get F_size s old_block = block_size then Inr (oldp, s)
      else checked_bind
        (if \<not> is_sbrk_alloc s old_block \<and> get F_next s old_block = HUGE_PAGE
         then checked_bind (m4_mmap_malloc block_size True s) (\<lambda>(block, s). Inr (user_pointer block, s))
         else m4_smalloc bytes s)
        (\<lambda>(newp, s).
      if newp = 0 then Inr (0, s)
      else checked_bind (m4_sfree oldp (s\<lparr>mem := memmove (mem s) newp oldp bytes\<rparr>)) (\<lambda>s. Inr (newp, s)))))"

section \<open>Rounding sizes\<close>

lemma and_minus_8: "(b AND - 8) = b - b mod 8" for b :: "64 word"
proof -
  have m: "(- 8 :: 64 word) = NOT (mask 3)" by (simp add: mask_eq_exp_minus_1 not_eq_complement)
  have "(b AND mask 3) + (b AND NOT (mask 3)) = (b AND mask 3) OR (b AND NOT (mask 3))"
    by (rule disjunctive_add) (simp add: bit_simps)
  also have "\<dots> = b" by (rule bit_word_eqI) (auto simp: bit_simps)
  finally have "b AND NOT (mask 3) = b - (b AND mask 3)" by (metis add_diff_cancel_left')
  moreover have "b AND mask 3 = b mod 8" by (simp add: take_bit_eq_mod flip: take_bit_eq_mask)
  ultimately show ?thesis using m by simp
qed

lemma round_up_8:
  assumes "r < 8"
  shows "round_up 8 (8 * q + r) = (if r = 0 then 8 * q else 8 * q + 8)"
proof -
  have "(8 * q + r + 8 - 1) div 8 = q + (r + 7) div 8" by simp
  moreover have "(r + 7) div 8 = (if r = 0 then 0 else 1)" using assms by auto
  ultimately show ?thesis by (simp add: round_up_def)
qed

lemma bit_align_8_unat:
  "unat (bit_align_8 b) = (if unat b \<le> 18446744073709551608 then round_up 8 (unat b) else 0)"
proof -
  obtain q r where qr: "unat b = 8 * q + r" "r < 8" by (metis mod_less_divisor mult_div_mod_eq zero_less_numeral)
  have mod: "unat b mod 8 = r" using qr by simp
  have m: "b mod 8 = 0 \<longleftrightarrow> r = 0" using mod_8_word [of b] mod by (simp add: dvd_eq_mod_eq_0)
  have d: "unat (b - b mod 8) = 8 * q" by (subst unat_minus_64) (simp_all add: mod_8_word(1) mod qr)
  have b: "8 * q + r < 8 * 2305843009213693952" using unat_bound64 [of b] qr(1) by simp
  have q: "q < 2305843009213693952" using b by linarith
  show ?thesis
  proof (cases "r = 0")
    case True
    then have "unat b \<le> 18446744073709551608" using q qr(1) by simp
    then show ?thesis using True m round_up_8 [OF qr(2)] qr(1) by (simp add: bit_align_8_def)
  next
    case False
    have s: "unat ((b AND - 8) + 8) = (8 * q + 8) mod 18446744073709551616"
      unfolding and_minus_8 by (simp add: unat_word_ariths d)
    show ?thesis
    proof (cases "q = 2305843009213693951")
      case True
      then show ?thesis using s False m qr(1) by (simp add: bit_align_8_def)
    next
      case low: False
      then have "8 * q + 8 < 18446744073709551616" "unat b \<le> 18446744073709551608" using q qr by linarith+
      then show ?thesis using s False m round_up_8 [OF qr(2)] qr(1) by (simp add: bit_align_8_def)
    qed
  qed
qed

text \<open>
  \<open>_8_bit_align\<close> rounds a size up to the next multiple of 8, whatever the size; sizes within the last 7 of
  the type wrap around to 0, which \<open>smalloc\<close> then refuses.
\<close>

theorem bit_align_8_rounds_up:
  "unat (bit_align_8 b) = (if unat b \<le> 18446744073709551608 then round_up 8 (unat b) else 0)"
  by (rule bit_align_8_unat)

section \<open>Mapped blocks\<close>

lemma put_next_inv:
  assumes inv: "heap_inv g t bs fs ((a, k) # ms)"
  shows "heap_inv g (put F_next a v t) bs fs ((a, k) # ms)" "kept (set bs \<union> set ms) t (put F_next a v t)"
    "get F_next (put F_next a v t) a = v"
proof -
  let ?B = "set bs \<union> set ((a, k) # ms)" and ?u = "put F_next a v t"
  have sh: "heap_shape g t bs fs ((a, k) # ms)" and fl: "flags_ok t ?B fs" and so: "sorted_wrt (precedes t) fs"
    using inv by (simp_all add: heap_inv_def)
  have ok: "blocks_ok ?B" by (rule heap_shape_blocks_ok [OF sh])
  have a: "a \<in> heads ?B" by (auto simp: heads_def)
  have ch: "head_change ?B t ?u" using relinks_put [OF ok a, of F_next] by (simp add: relinks_def)
  note gp = get_put_blocks [OF ok a, of _ _ F_next v t]
  have fs: "set fs \<subseteq> heads (set bs)" by (rule heap_shape_D(7) [OF sh])
  have na: "h \<noteq> a" "h \<in> heads ?B" if "h \<in> set fs" for h
    using subsetD [OF fs that] shape_distinct(3) [OF sh] by (auto simp: heads_def)
  have "free_list ?u fs" using heap_shape_D(6) [OF sh] na gp by (subst free_list_cong [of _ t]) (auto simp: put_def)
  then have "heap_shape g ?u bs fs ((a, k) # ms)" by (rule shape_head_change [OF sh ch _ fs])
  moreover have "flags_ok ?u ?B fs" using fl gp by (simp add: flags_ok_def)
  moreover have "sorted_wrt (precedes ?u) fs" by (rule head_change_sorted [OF ch _ so]) (use na in blast)
  ultimately show "heap_inv g ?u bs fs ((a, k) # ms)" by (simp add: heap_inv_def)
  show "kept (set bs \<union> set ms) t ?u" by (rule kept_subset [OF head_change_kept [OF ok ch]]) auto
  show "get F_next ?u a = v" using gp [OF a] by simp
qed

lemma m4_mmap_allocates:
  fixes force :: bool
  assumes so: "sound g s bs fs ms" and k: "131120 \<le> k" "k \<le> 70368744177664"
  defines "huge \<equiv> force \<or> 4194304 \<le> k"
  shows "\<exists>h s'. m4_mmap_malloc (of_nat k) force s = Inr (h, s') \<and> allocates g s bs fs ms k h s'
    \<and> (h \<noteq> 0 \<longrightarrow> get F_next s' h = (if huge then 1 else 0) \<and> page huge dvd unat h)"
proof -
  have "unat (of_nat k :: 64 word) = k" using k(2) by (intro unat_of_nat_47) simp
  then have hg: "(force \<or> HUGE_PAGE_LIMIT \<le> of_nat k) = huge"
    by (simp add: huge_def HUGE_PAGE_LIMIT_def word_le_nat_alt)
  show ?thesis
  proof (rule mapping_allocates [OF so k, where huge = huge and sb = m4_sbrk])
    fix s' assume "mmap (of_nat k) huge (kernel_of s) = (- 1, kernel_of s')" "s' = s\<lparr>kernel_of := kernel_of s'\<rparr>"
      "allocates g s bs fs ms k 0 s'"
    then show ?thesis by (intro exI [of _ 0] exI [of _ s']) (simp add: m4_mmap_malloc_def hg)
  next
    fix a kk t
    assume 1: "mmap (of_nat k) huge (kernel_of s) = (a, kk)" "a \<noteq> - 1" "a \<noteq> 0"
      "init_sbrk_alloc_block m4_sbrk a (of_nat k) False (s\<lparr>kernel_of := kk\<rparr>) = Inr (a, t)"
      "page huge dvd unat a" "heap_inv g t bs fs ((a, k) # ms)"
      and al: "\<And>s'. heap_inv g s' bs fs ((a, k) # ms) \<Longrightarrow> kept (set bs \<union> set ms) t s' \<Longrightarrow>
         tally s' = (case tally t of (fb, fy, ab, ay) \<Rightarrow> (fb, fy, ab + 1, ay + (of_nat k - 48))) \<Longrightarrow>
         allocates g s bs fs ms k a s'"
    let ?u = "put F_next a (if huge then HUGE_PAGE else REGULAR_PAGE) t"
    let ?s = "?u\<lparr>allocated_blocks_num := allocated_blocks_num ?u + 1,
          allocated_bytes_num := allocated_bytes_num ?u + (of_nat k - size_meta_data)\<rparr>"
    note P = put_next_inv [OF 1(6), of "if huge then HUGE_PAGE else REGULAR_PAGE"]
    have c: "core ?s = core ?u" by (simp add: core_def coin_def)
    have "kept (set bs \<union> set ms) t ?s" using P(2) by (simp add: kept_def)
    moreover have "heap_inv g ?s bs fs ((a, k) # ms)" using P(1) core_inv [OF c] by simp
    ultimately have "allocates g s bs fs ms k a ?s"
      by (intro al) (simp_all add: tally_def size_constants put_def)
    moreover have "get F_next ?s a = (if huge then 1 else 0)"
      using P(3) core_get [OF c] by (simp add: HUGE_PAGE_def REGULAR_PAGE_def)
    moreover have "m4_mmap_malloc (of_nat k) force s = Inr (a, ?s)"
      using 1(1,2,4) by (simp add: m4_mmap_malloc_def hg m4_init_sbrk_alloc_block_def Let_def)
    ultimately show ?thesis using 1(5) by (intro exI [of _ a] exI [of _ ?s]) simp
  qed
qed

section \<open>Allocation and release\<close>

lemma align_request:
  assumes "0 < n" "n \<le> 100000000"
  shows "bit_align_8 (of_nat n) = of_nat (round_up 8 n)" "0 < round_up 8 n" "round_up 8 n \<le> 100000000" "n \<le> round_up 8 n"
    "8 dvd round_up 8 n"
proof -
  obtain q r where qr: "n = 8 * q + r" "r < 8" by (metis mod_less_divisor mult_div_mod_eq zero_less_numeral)
  note R = round_up_8 [OF qr(2), of q, folded qr(1)]
  show "0 < round_up 8 n" "n \<le> round_up 8 n" using R qr assms(1) by auto
  show "8 dvd round_up 8 n" using R by simp
  show le: "round_up 8 n \<le> 100000000"
  proof (cases "r = 0")
    case False
    have "8 * q < 8 * 12500000" using False qr assms(2) by linarith
    then have "q + 1 \<le> 12500000" by linarith
    then show ?thesis using R False by simp
  qed (use R qr assms(2) in simp)
  have u: "unat (of_nat n :: 64 word) = n" "unat (of_nat (round_up 8 n) :: 64 word) = round_up 8 n"
    using assms(2) le by (intro unat_of_nat_47; simp)+
  show "bit_align_8 (of_nat n) = of_nat (round_up 8 n)"
    using bit_align_8_unat [of "of_nat n"] u assms(2) by (simp add: eq_iff_unat_64)
qed

text \<open>
  As \<open>may_ask\<close>, for the size rounded up to a multiple of 8. Before there is a heap, \<open>_sbrk\<close> does not notice when the system refuses
  the bytes that align the first break, so that the call has to be granted.
\<close>

definition m4_may_ask :: "heap \<Rightarrow> nat \<Rightarrow> bool" where
  "m4_may_ask s n \<longleftrightarrow> 0 < n \<and> n \<le> 100000000 \<and> (round_up 8 n + 175 < 131072 \<or> 131072 \<le> round_up 8 n)
     \<and> (sbrk_head s = 0 \<longrightarrow> aligns_first (kernel_of s))"

lemma m4_smalloc_client:
  assumes ok: "allocator_ok 8 s L" and n: "m4_may_ask s n"
  obtains h s' where "m4_smalloc (of_nat n) s = Inr (user_pointer h, s')"
    "if h = 0 then denied 8 s L s' else served 8 (round_up 8 n + 48) s L h (unat (get F_size s' h)) s'"
proof -
  have n': "0 < n" "n \<le> 100000000" "round_up 8 n + 175 < 131072 \<or> 131072 \<le> round_up 8 n"
    "sbrk_head s = 0 \<Longrightarrow> aligns_first (kernel_of s)" using n by (simp_all add: m4_may_ask_def)
  define k where "k = round_up 8 n"
  note A = align_request [OF n'(1,2), folded k_def]
  note R = request_size [OF A(2,3)]
  let ?f = "if k < 131072 then m4_sbrk_malloc (of_nat (k + 48)) s else m4_mmap_malloc (of_nat (k + 48)) False s"
  have al: "\<exists>h s'. ?f = Inr (h, s') \<and> allocates 8 s bs fs ms (k + 48) h s'" if so: "sound 8 s bs fs ms" for bs fs ms
  proof (cases "k < 131072")
    case True
    then show ?thesis
      using h4.sbrk_malloc_allocates [OF so n'(4), of "k + 48"] n'(3) A(5) by (auto simp: m4_sbrk_malloc_def k_def)
  next
    case False
    then show ?thesis using m4_mmap_allocates [OF so, of "k + 48" False] A(3) by auto
  qed
  from ok obtain bs fs ms where "sound 8 s bs fs ms" by (auto simp: allocator_ok_def)
  from al [OF this] obtain h s' where f: "?f = Inr (h, s')" by blast
  have "m4_smalloc (of_nat n) s = Inr (user_pointer h, s')"
    unfolding m4_smalloc_def Let_def A(1) R(3) using R(1,2,4) f by simp
  moreover have "if h = 0 then denied 8 s L s' else served 8 (k + 48) s L h (unat (get F_size s' h)) s'"
    using al f by (intro allocates_client [OF _ ok]) fastforce
  ultimately show ?thesis using that unfolding k_def by blast
qed

lemma m4_sfree_client:
  assumes ok: "allocator_ok 8 s L" and b: "(h, m) \<in> L"
  obtains s' where "m4_sfree (h + 32) s = Inr s'" "allocator_ok 8 s' (L - {(h, m)})" "kept (L - {(h, m)}) s s'"
    "counters_ok 8 s L \<Longrightarrow> counters_ok 8 s' (L - {(h, m)})"
proof -
  have fr: "\<exists>s'. m4_sfree (h + 32) s = Inr s' \<and> frees 8 s bs fs ms (h, m) s'"
    if "sound 8 s bs fs ms" "live bs fs ms = L" for bs fs ms
    unfolding m4_sfree_def using h4.free_frees [OF that(1), of h m] b that(2) by simp
  from ok obtain bs fs ms where "sound 8 s bs fs ms" "live bs fs ms = L" by (auto simp: allocator_ok_def)
  from fr [OF this] obtain s' where s': "m4_sfree (h + 32) s = Inr s'" by blast
  have "frees 8 s bs fs ms (h, m) s'" if "sound 8 s bs fs ms" "live bs fs ms = L" for bs fs ms
    using fr [OF that] s' by simp
  then show ?thesis using that s' frees_client [OF _ ok, of h m s'] by blast
qed

interpretation a4: allocator m4_smalloc m4_sfree m4_may_ask 8
proof
  fix s L n assume ok: "allocator_ok 8 s L" and n: "m4_may_ask s n"
  have le: "n \<le> round_up 8 n" using n align_request(4) by (simp add: m4_may_ask_def)
  show "\<exists>h s' k. m4_smalloc (of_nat n) s = Inr (user_pointer h, s') \<and> n + 48 \<le> k
      \<and> (if h = 0 then denied 8 s L s' else served 8 k s L h (unat (get F_size s' h)) s')"
  proof (rule m4_smalloc_client [OF ok n])
    fix h s' assume "m4_smalloc (of_nat n) s = Inr (user_pointer h, s')"
      "if h = 0 then denied 8 s L s' else served 8 (round_up 8 n + 48) s L h (unat (get F_size s' h)) s'"
    then show ?thesis using le by (intro exI [of _ h] exI [of _ s'] exI [of _ "round_up 8 n + 48"]) simp
  qed
next
  fix s L h m assume "allocator_ok 8 s L" "(h, m) \<in> L"
  then show "\<exists>s'. m4_sfree (h + 32) s = Inr s' \<and> allocator_ok 8 s' (L - {(h, m)}) \<and> kept (L - {(h, m)}) s s'"
    by (rule m4_sfree_client) blast
qed

lemma demo_m4_malloc: "\<exists>s'. m4_smalloc (of_nat 1000) demo_boot = Inr (4096 + 32, s')"
  by (simp add: m4_smalloc_def bit_align_8_def SIZE_LIMIT_def alloc_sbrk_def size_constants m4_sbrk_malloc_def sbrk_malloc_def
      sbrk_malloc_new_def demo_boot_def demo_os_def m4_sbrk_def static_break_def move_break_def sbrk_def
      init_sbrk_alloc_block_def set_tail_def put_def Let_def user_pointer_def)

text \<open>
  C23. The allocator of \<open>malloc_4.cpp\<close> gives the same guarantees as that of \<open>malloc_3.cpp\<close>, and every block (so every pointer, 32
  bytes further) is aligned to 8. They are for programs that ask for 1 to \<open>10 ^ 8\<close> bytes at a time, never for a size whose
  multiple of 8 \<open>k\<close>, rounded up, has \<open>k < 131072 \<le> k + 175\<close>, and whose first break is aligned to 8 or can be moved there: as
  long as there is no heap, the system grants \<open>_sbrk\<close> the bytes it asks for in order to align the break.
\<close>

theorem m4_programs_are_safe:
  assumes "runs m4_smalloc m4_sfree m4_may_ask s L v"
  shows "blocks_ok L \<and> agrees s L v \<and> (\<forall>n. m4_may_ask s n \<longrightarrow> (\<exists>r. m4_smalloc (of_nat n) s = Inr r))
    \<and> (\<forall>b\<in>L. 8 dvd unat (fst b) \<and> (\<exists>s'. m4_sfree (fst b + 32) s = Inr s'))"
proof -
  have "8 dvd unat (fst b)" if "b \<in> L" for b
    using allocator_aligned [of s L "fst b" "snd b"] a4.runs_ok [OF assms] that by simp
  then show ?thesis using a4.runs_safe [OF assms] by blast
qed

theorem m4_programs_are_safe_witness:
  "\<exists>s m v. m4_smalloc (of_nat 1000) demo_boot = Inr (4096 + 32, s) \<and> runs m4_smalloc m4_sfree m4_may_ask s {(4096, m)} v
    \<and> blocks_ok {(4096, m)} \<and> agrees s {(4096, m)} v
    \<and> (\<forall>n. m4_may_ask s n \<longrightarrow> (\<exists>r. m4_smalloc (of_nat n) s = Inr r)) \<and> (\<exists>s'. m4_sfree (4096 + 32) s = Inr s')"
proof -
  obtain s where s: "m4_smalloc (of_nat 1000) demo_boot = Inr (4096 + 32, s)" using demo_m4_malloc by blast
  let ?m = "unat (get F_size s 4096)" and ?v = "\<lambda>x. if x \<in> payload 4096 (unat (get F_size s 4096)) then mem s x else 0"
  have "aligns_first (kernel_of demo_boot)" by (simp add: aligns_first_def demo_boot_def demo_os_def)
  then have r: "runs m4_smalloc m4_sfree m4_may_ask s (insert (4096, ?m) {}) ?v"
    by (intro runs.malloc [where n = 1000, OF runs.start [OF demo_boot_ok]])
      (simp_all add: m4_may_ask_def round_up_def s del: of_nat_numeral)
  show ?thesis using s r m4_programs_are_safe [OF r] by (intro exI [of _ s] exI [of _ ?m] exI [of _ ?v]) simp
qed

section \<open>Zeroed allocation in huge pages\<close>

lemma served_nz:
  assumes "served g k s L h m s'"
  shows "h + 32 \<noteq> 0"
proof -
  have ok: "allocator_ok g s' (insert (h, m) L)" using assms by (simp add: served_def)
  show ?thesis by (rule offset_32_nz) (use allocator_size(3,4) [OF ok insertI1] in linarith)
qed

lemma memset_next:
  assumes sv: "served g k s L h m t" and k: "n + 48 \<le> k" "n \<le> 100000000"
  shows "get f (t\<lparr>mem := memset (mem t) (h + 32) 0 (of_nat n)\<rparr>) h = get f t h"
proof -
  have ok: "allocator_ok g t (insert (h, m) L)" and m: "n + 48 \<le> m" using sv k(1) by (auto simp: served_def)
  note B = allocator_size [OF ok insertI1] and P = span_payload [OF ok insertI1 m]
  have "unat (of_nat n :: 64 word) = n" using k(2) by (intro unat_of_nat_47) simp
  then have "memset (mem t) (h + 32) 0 (of_nat n) x = (if x \<in> span (h + 32) n then 0 else mem t x)" for x
    using memset_in_span [of "h + 32" "of_nat n"] P(2) B(3,4) m by simp
  moreover have "x \<notin> span (h + 32) n" if "x \<in> metadata h m" for x
    using that P m by (auto simp: metadata_def span_def)
  ultimately show ?thesis by (intro block_frame(1) [OF B(3,4)]) simp
qed

text \<open>What \<open>scalloc\<close> asks for: huge pages above the limit, \<open>smalloc\<close> below it.\<close>

lemma m4_scalloc_request:
  assumes ok: "allocator_ok 8 s L" and ask: "m4_may_ask s k" and kk: "round_up 8 k = k" and le: "k \<le> 100000000"
  obtains h t where "(if 2097152 < k
        then checked_bind (m4_mmap_malloc (of_nat (k + 48)) True s) (\<lambda>(block, s). Inr (user_pointer block, s))
        else m4_smalloc (of_nat k) s) = Inr (user_pointer h, t)"
      "if h = 0 then denied 8 s L t else served 8 (k + 48) s L h (unat (get F_size t h)) t"
      "2097152 < k \<Longrightarrow> h \<noteq> 0 \<Longrightarrow> get F_next t h = HUGE_PAGE \<and> 2097152 dvd unat h"
proof (cases "2097152 < k")
  case True
  have al: "\<exists>h s'. m4_mmap_malloc (of_nat (k + 48)) True s = Inr (h, s') \<and> allocates 8 s bs fs ms (k + 48) h s'
      \<and> (h \<noteq> 0 \<longrightarrow> get F_next s' h = HUGE_PAGE \<and> 2097152 dvd unat h)" if "sound 8 s bs fs ms" for bs fs ms
    using m4_mmap_allocates [OF that, of "k + 48" True] True le by (auto simp: HUGE_PAGE_def page_def)
  from ok obtain bs fs ms where "sound 8 s bs fs ms" by (auto simp: allocator_ok_def)
  from al [OF this] obtain h t where f: "m4_mmap_malloc (of_nat (k + 48)) True s = Inr (h, t)"
    "h \<noteq> 0 \<longrightarrow> get F_next t h = HUGE_PAGE \<and> 2097152 dvd unat h" by blast
  have "if h = 0 then denied 8 s L t else served 8 (k + 48) s L h (unat (get F_size t h)) t"
    using al f(1) by (intro allocates_client [OF _ ok]) fastforce
  then show thesis using that [of h t] f True by (simp del: of_nat_add)
next
  case False
  then show thesis using m4_smalloc_client [OF ok ask, unfolded kk] that by metis
qed

text \<open>
  \<open>scalloc\<close> of \<open>malloc_4.cpp\<close> hands out zeroed memory of at least the requested size, rounded up to 8; when
  that is more than 2 MB the block lies in huge pages, aligned to them, and its head says so.
\<close>

theorem m4_scalloc_correct:
  assumes "allocator_ok 8 s L" "m4_may_ask s (num * bytes)" "k = round_up 8 (num * bytes)"
  shows "\<exists>p s'. m4_scalloc (of_nat num) (of_nat bytes) s = Inr (p, s') \<and>
    (p = 0 \<and> denied 8 s L s'
     \<or> (\<exists>h m. p = h + 32 \<and> served 8 (k + 48) s L h m s' \<and> (\<forall>x\<in>span p k. mem s' x = 0)
          \<and> (2097152 < k \<longrightarrow> get F_next s' h = HUGE_PAGE \<and> 2097152 dvd unat h)))"
proof -
  have n: "0 < num * bytes" "num * bytes \<le> 100000000" using assms(2) by (simp_all add: m4_may_ask_def)
  note A = align_request [OF n, folded assms(3)] and R = request_size [OF align_request(2,3) [OF n], folded assms(3)]
  have sz: "of_nat num * of_nat bytes = (of_nat (num * bytes) :: 64 word)" by simp
  have u: "unat (of_nat (k + 48) :: 64 word) = k + 48" using A(3) by (intro unat_of_nat_47) simp
  have big: "SCALLOC_HUGE_PAGE_LIMIT + size_meta_data < of_nat (k + 48) \<longleftrightarrow> 2097152 < k"
    unfolding word_less_nat_alt u by (simp add: SCALLOC_HUGE_PAGE_LIMIT_def size_constants)
  obtain q where q: "k = 8 * q" using A(5) by (metis dvd_def)
  have kk: "round_up 8 k = k" using round_up_8 [of 0 q] q by simp
  have ask: "m4_may_ask s k" using assms(2) A(2,3) kk unfolding m4_may_ask_def assms(3) [symmetric] by simp
  obtain h t where r: "(if 2097152 < k
        then checked_bind (m4_mmap_malloc (of_nat (k + 48)) True s) (\<lambda>(block, s). Inr (user_pointer block, s))
        else m4_smalloc (of_nat k) s) = Inr (user_pointer h, t)"
      "if h = 0 then denied 8 s L t else served 8 (k + 48) s L h (unat (get F_size t h)) t"
      "2097152 < k \<Longrightarrow> h \<noteq> 0 \<Longrightarrow> get F_next t h = HUGE_PAGE \<and> 2097152 dvd unat h"
    using m4_scalloc_request [OF assms(1) ask kk A(3)] by blast
  let ?t = "t\<lparr>mem := memset (mem t) (h + 32) 0 (of_nat k)\<rparr>"
  have code: "m4_scalloc (of_nat num) (of_nat bytes) s =
      (if user_pointer h = 0 then Inr (0, t) else Inr (user_pointer h, t\<lparr>mem := memset (mem t) (user_pointer h) 0 (of_nat k)\<rparr>))"
    unfolding m4_scalloc_def sz A(1) Let_def R(3) big r(1) using R(1,2) by simp
  show ?thesis
  proof (cases "h = 0")
    case True
    then show ?thesis using code r(2) by (simp add: user_pointer_def)
  next
    case False
    then have sv: "served 8 (k + 48) s L h (unat (get F_size t h)) t" using r(2) by simp
    have "m4_scalloc (of_nat num) (of_nat bytes) s = Inr (h + 32, ?t)"
      using code False served_nz [OF sv] by (simp add: user_pointer_def)
    then show ?thesis
      using memset_served [OF sv order.refl A(3)] memset_next [OF sv order.refl A(3), of F_next] r(3) [OF _ False]
      by (metis (no_types, lifting))
  qed
qed

theorem m4_scalloc_correct_witness:
  "\<exists>p s'. m4_scalloc (of_nat 3000000) (of_nat 1) demo_boot = Inr (p, s') \<and>
    (p = 0 \<and> denied 8 demo_boot {} s'
     \<or> (\<exists>h m. p = h + 32 \<and> served 8 (3000000 + 48) demo_boot {} h m s' \<and> (\<forall>x\<in>span p 3000000. mem s' x = 0)
          \<and> (2097152 < (3000000 :: nat) \<longrightarrow> get F_next s' h = HUGE_PAGE \<and> 2097152 dvd unat h)))"
  by (rule m4_scalloc_correct [OF counters_allocator [OF boot_counters [OF demo_boot_ok]]])
    (simp_all add: m4_may_ask_def round_up_def aligns_first_def demo_boot_def demo_os_def)

text \<open>
  A block in huge pages whose size is not a multiple of 2 MB is never unmapped by \<open>sfree\<close>: the length given to
  \<open>munmap\<close> is the size of the block, and the call fails. The counters are reduced all the same.
\<close>

theorem huge_block_leaks:
  assumes "(a, len, True) \<in> set (os_maps (kernel_of s))" "0 < len" "\<not> 2097152 dvd unat (get F_size s a)"
  shows "kernel_of (m4_mmap_free a s) = kernel_of s \<and> num_allocated_blocks (m4_mmap_free a s) = num_allocated_blocks s - 1"
proof -
  let ?n = "get F_size s a"
  have n: "?n \<noteq> 0" using assms(3) by auto
  then have "0 < unat ?n" by (simp add: unat_gt_0)
  then have "0 < round_up (page False) (unat ?n)" using round_up_le [of "page False" "unat ?n"] by (simp add: page_def)
  then have "\<not> apart (unat a) len (unat a) (round_up (page False) (unat ?n))" using assms(2) by (simp add: apart_def)
  then have "list_ex (\<lambda>(b, j, huge). huge \<and> \<not> apart (unat b) j (unat a) (round_up (page False) (unat ?n))
      \<and> \<not> (page True dvd unat a \<and> page True dvd unat ?n)) (os_maps (kernel_of s))"
    using assms(1,3) by (auto simp: list_ex_iff page_def intro!: bexI [of _ "(a, len, True)"])
  then have "munmap a ?n (kernel_of s) = (- 1, kernel_of s)" by (simp add: munmap_def)
  then show ?thesis by (simp add: m4_mmap_free_def mmap_free_def num_allocated_blocks_def)
qed

theorem huge_block_leaks_witness:
  "kernel_of (m4_mmap_free 2097152 (demo_boot\<lparr>kernel_of := (demo_os 0)\<lparr>os_maps := [(2097152, 4194304, True)]\<rparr>,
      mem := store64 (\<lambda>_. 0) 2097152 3000048\<rparr>)) = (demo_os 0)\<lparr>os_maps := [(2097152, 4194304, True)]\<rparr>"
proof -
  let ?s = "demo_boot\<lparr>kernel_of := (demo_os 0)\<lparr>os_maps := [(2097152, 4194304, True)]\<rparr>, mem := store64 (\<lambda>_. 0) 2097152 3000048\<rparr>"
  have "get F_size ?s 2097152 = 3000048" by (simp add: get_def)
  then show ?thesis using huge_block_leaks [of 2097152 4194304 ?s] by simp
qed

end
