(* ===== verification/Shell_Text.thy ===== *)
theory Shell_Text
  imports C_String
begin

text \<open>
  The text functions of the shell (\<open>hw1/hw1_wet/209509181-313511602/Commands.cpp\<close>, up to \<open>_is_number\<close>): trimming,
  splitting a command line into words, the background sign, and the parts of a line that \<open>CreateCommand\<close> and
  the constructors look at. A word list of 20 or more overruns the \<open>args\<close> arrays and is a fault.
\<close>

section \<open>Trimming and splitting\<close>

definition ltrim :: "string \<Rightarrow> string" where
  "ltrim s = dropWhile is_space s"

definition rtrim :: "string \<Rightarrow> string" where
  "rtrim s = rev (dropWhile is_space (rev s))"

definition trim :: "string \<Rightarrow> string" where
  "trim s = rtrim (ltrim s)"

definition COMMAND_MAX_ARGS :: nat where
  "COMMAND_MAX_ARGS = 20"

definition parseCommandLine :: "string \<Rightarrow> string list checked" where
  "parseCommandLine cmd_line =
     (let args = split_words (trim cmd_line) in
      if COMMAND_MAX_ARGS \<le> length args then Inl BufferOverflow else Inr args)"

section \<open>The background sign\<close>

fun last_not_space :: "string \<Rightarrow> nat option" where
  "last_not_space [] = None"
| "last_not_space (c # cs) =
     (case last_not_space cs of Some i \<Rightarrow> Some (Suc i) | None \<Rightarrow> if is_space c then None else Some 0)"

definition isBackgroundCommand :: "string \<Rightarrow> bool checked" where
  "isBackgroundCommand cmd_line =
     (case last_not_space cmd_line of None \<Rightarrow> Inl OutOfBounds | Some i \<Rightarrow> Inr (cmd_line ! i = CHR ''&''))"

definition removeBackgroundSign :: "string \<Rightarrow> string checked" where
  "removeBackgroundSign cmd_line =
     (case last_not_space cmd_line of None \<Rightarrow> Inl OutOfBounds
      | Some idx \<Rightarrow>
          if cmd_line ! idx \<noteq> CHR ''&'' then Inr cmd_line
          else Inr (take (idx + 1) (cmd_line[idx := CHR '' ''])))"

definition removeBackgroundSign_string :: "string \<Rightarrow> string" where
  "removeBackgroundSign_string cmd_line = filter (\<lambda>c. c \<noteq> CHR ''&'') cmd_line"

section \<open>Recognising commands\<close>

definition isRedirectionCommand :: "string \<Rightarrow> bool" where
  "isRedirectionCommand cmd_line \<longleftrightarrow> C_String.contains ''>'' cmd_line \<or> C_String.contains ''>>'' cmd_line"

definition isPipeCommand :: "string \<Rightarrow> bool" where
  "isPipeCommand cmd_line \<longleftrightarrow> C_String.contains ''|'' cmd_line \<or> C_String.contains ''|&'' cmd_line"

definition is_number :: "string \<Rightarrow> bool" where
  "is_number arg = list_all is_digit (if arg \<noteq> [] \<and> hd arg = CHR ''-'' then tl arg else arg)"

definition first_word :: "string \<Rightarrow> string" where
  "first_word cmd_line = takeWhile (\<lambda>c. c \<noteq> CHR '' '' \<and> c \<noteq> CHR 0x0A) (trim cmd_line)"

text \<open>What is before and after the first occurrence of a symbol.\<close>

definition before :: "string \<Rightarrow> string \<Rightarrow> string" where
  "before symbol s = (case find_sub symbol s of None \<Rightarrow> s | Some i \<Rightarrow> take i s)"

definition after :: "string \<Rightarrow> string \<Rightarrow> string" where
  "after symbol s = (case find_sub symbol s of None \<Rightarrow> drop (length symbol - 1) s | Some i \<Rightarrow> drop (i + length symbol) s)"

definition inner_cmd_line :: "string \<Rightarrow> string" where
  "inner_cmd_line cmd_line =
     (let outer = trim cmd_line in
      case find_char CHR '' '' (drop 9 outer) of None \<Rightarrow> outer | Some i \<Rightarrow> drop (9 + i + 1) outer)"

section \<open>Facts\<close>

lemma split_words_trailing:
  "(\<forall>c\<in>set t. is_space c) \<Longrightarrow> split_words (s @ t) = split_words s"
proof (induction s rule: split_words.induct)
  case (1 s)
  show ?case
  proof (cases "dropWhile is_space s")
    case Nil
    then have "\<forall>c\<in>set (s @ t). is_space c" using 1(2) by (auto simp: dropWhile_eq_Nil_conv)
    then show ?thesis using split_words_blank split_words_Nil [OF Nil] by metis
  next
    case (Cons c cs)
    have "\<not> (\<forall>x\<in>set s. is_space x)" using Cons dropWhile_eq_Nil_conv [of is_space s] by simp
    then have d: "dropWhile is_space (s @ t) = c # cs @ t" unfolding dropWhile_append using Cons by auto
    let ?P = "\<lambda>c. \<not> is_space c"
    have t: "takeWhile ?P t = []" "dropWhile ?P t = t" using 1(2) by (cases t; simp)+
    have tw: "takeWhile ?P ((c # cs) @ t) = takeWhile ?P (c # cs)"
      unfolding takeWhile_append t by (auto intro!: takeWhile_eq_all_conv [THEN iffD2, symmetric])
    have dw: "dropWhile ?P ((c # cs) @ t) = dropWhile ?P (c # cs) @ t"
      unfolding dropWhile_append t using dropWhile_eq_Nil_conv [of ?P "c # cs"] by (simp del: dropWhile.simps)
    show ?thesis unfolding split_words_Cons [OF Cons] split_words_Cons [OF d] using 1(1) [OF Cons 1(2)] tw dw by simp
  qed
qed

lemma split_words_trim [simp]: "split_words (trim s) = split_words s"
proof -
  have l: "split_words (ltrim s) = split_words s"
    unfolding ltrim_def by (induction s) (auto simp: split_words_space)
  have r: "split_words (rtrim s) = split_words s" for s
  proof -
    have "s = rtrim s @ rev (takeWhile is_space (rev s))"
      by (metis rev_append rev_rev_ident rtrim_def takeWhile_dropWhile_id)
    moreover have "\<forall>c\<in>set (rev (takeWhile is_space (rev s))). is_space c" by (auto dest: set_takeWhileD)
    ultimately show ?thesis using split_words_trailing by metis
  qed
  show ?thesis by (simp add: trim_def l r)
qed

text \<open>Words joined by single spaces, as a user types them.\<close>

fun join_words :: "string list \<Rightarrow> string" where
  "join_words [] = []"
| "join_words [w] = w"
| "join_words (w # v # ws) = w @ CHR '' '' # join_words (v # ws)"

text \<open>
  Round trip of the command line: a line made of fewer than 20 words joined by spaces, with any blanks around it,
  is split into exactly these words; with 20 words or more the argument array is overrun.
\<close>

theorem parse_joined:
  assumes "\<forall>w\<in>set ws. word_ok w" "\<forall>c\<in>set pre. is_space c" "\<forall>c\<in>set post. is_space c"
  shows "parseCommandLine (pre @ join_words ws @ post) = (if 20 \<le> length ws then Inl BufferOverflow else Inr ws)"
proof -
  have "split_words (join_words ws) = ws" using assms(1)
  proof (induction ws rule: join_words.induct)
    case (2 w)
    then show ?case using split_words_word [of w "[]"] by simp
  next
    case (3 w v ws)
    have "is_space CHR '' ''" by (simp add: is_space_def)
    then show ?case using 3 split_words_word [of w "CHR '' '' # join_words (v # ws)"] by (simp add: split_words_space)
  qed simp
  moreover have "split_words (pre @ s) = split_words s" for s
    using assms(2) by (induction pre) (auto simp: split_words_space)
  ultimately have "split_words (pre @ join_words ws @ post) = ws" using split_words_trailing [OF assms(3)] by simp
  then show ?thesis by (simp add: parseCommandLine_def COMMAND_MAX_ARGS_def)
qed

theorem parse_joined_witness:
  "parseCommandLine ('' '' @ join_words [''kill'', ''-9'', ''1''] @ '' '') =
     (if 20 \<le> length [''kill'', ''-9'', ''1''] then Inl BufferOverflow else Inr [''kill'', ''-9'', ''1''])"
  by (rule parse_joined) (auto simp: word_ok_def is_space_def)

end
