(* ===== verification/Shell_World.thy ===== *)
theory Shell_World
  imports Shell_Text
begin

text \<open>
  The state of the shell (class \<open>SmallShell\<close> of \<open>Commands.h\<close>) and the system calls it makes. What the system
  answers to a call is part of the state: \<open>answers\<close> holds the answer to each call by its number, a negative one
  for failure, and nothing is assumed of it unless a theorem says so. Descriptors are allocated as the manual
  says: the lowest free number. Everything the shell does to the outside is recorded: text written (with the open file
  it went to), signals sent, processes started (with arguments and descriptors), alarms set.
\<close>

section \<open>State\<close>

datatype open_file = Console nat | Path string | PipeRead nat | PipeWrite nat

datatype message = Text string | Perror string

record job_entry =
  cmd_line :: string
  job_id :: int
  pid :: int
  time_epoch :: int
  stopped :: bool

record world =
  answers :: "nat \<Rightarrow> int"
  tick :: nat
  fds :: "open_file option list"
  files :: "string \<Rightarrow> string option"
  outs :: "(open_file \<times> message) list"
  kills :: "(int \<times> int) list"
  started :: "(int \<times> string list \<times> open_file option list) list"
  alarms :: "int list"
  affinities :: "(int \<times> int) list"
  cwd :: string
  resolve :: "string \<Rightarrow> string \<Rightarrow> string"
  shell_pid :: int

record shell = world +
  old_pwd :: bool
  old_path :: string
  exit_shell :: bool
  wait_job_pid :: int
  foreground_job_killed :: bool
  foreground_job :: job_entry
  jobs_list :: "(int \<times> job_entry) list"
  timeout_list :: "(int \<times> job_entry) list"
  m_prompt_name :: string
  min_completion_time :: int

section \<open>System calls\<close>

definition ask :: "shell \<Rightarrow> int \<times> shell" where
  "ask s = (answers s (tick s), s\<lparr>tick := Suc (tick s)\<rparr>)"

definition fd_file :: "nat \<Rightarrow> shell \<Rightarrow> open_file option" where
  "fd_file fd s = (if fd < length (fds s) then fds s ! fd else None)"

definition put_text :: "nat \<Rightarrow> message \<Rightarrow> shell \<Rightarrow> shell" where
  "put_text fd t s = (case fd_file fd s of None \<Rightarrow> s | Some f \<Rightarrow> s\<lparr>outs := outs s @ [(f, t)]\<rparr>)"

definition cout :: "string \<Rightarrow> shell \<Rightarrow> shell" where
  "cout t = put_text 1 (Text t)"

definition cerr :: "string \<Rightarrow> shell \<Rightarrow> shell" where
  "cerr t = put_text 2 (Text t)"

definition perror :: "string \<Rightarrow> shell \<Rightarrow> shell" where
  "perror t = put_text 2 (Perror t)"

fun lowest_free :: "open_file option list \<Rightarrow> nat" where
  "lowest_free [] = 0"
| "lowest_free (None # xs) = 0"
| "lowest_free (Some f # xs) = Suc (lowest_free xs)"

definition set_fd :: "nat \<Rightarrow> open_file option \<Rightarrow> open_file option list \<Rightarrow> open_file option list" where
  "set_fd n v xs = (if n < length xs then xs[n := v] else xs @ replicate (n - length xs) None @ [v])"

definition take_fd :: "open_file \<Rightarrow> shell \<Rightarrow> nat \<times> shell" where
  "take_fd f s = (lowest_free (fds s), s\<lparr>fds := set_fd (lowest_free (fds s)) (Some f) (fds s)\<rparr>)"

datatype open_mode = ReadOnly | Truncate | Append

definition sys_open :: "string \<Rightarrow> open_mode \<Rightarrow> shell \<Rightarrow> nat option \<times> shell" where
  "sys_open path mode s =
     (let (a, s) = ask s in
      if a < 0 \<or> (mode = ReadOnly \<and> files s path = None) then (None, s)
      else
        let s = s\<lparr>files := (if mode = Truncate \<or> mode = Append \<and> files s path = None
                              then (files s)(path \<mapsto> []) else files s)\<rparr>;
            (fd, s) = take_fd (Path path) s in
        (Some fd, s))"

definition sys_dup :: "nat \<Rightarrow> shell \<Rightarrow> nat option \<times> shell" where
  "sys_dup fd s =
     (let (a, s) = ask s in
      case fd_file fd s of None \<Rightarrow> (None, s)
      | Some f \<Rightarrow> if a < 0 then (None, s) else (let (n, s) = take_fd f s in (Some n, s)))"

definition sys_dup2 :: "nat \<Rightarrow> nat \<Rightarrow> shell \<Rightarrow> bool \<times> shell" where
  "sys_dup2 old new s =
     (let (a, s) = ask s in
      case fd_file old s of None \<Rightarrow> (False, s)
      | Some f \<Rightarrow> if a < 0 then (False, s) else (True, s\<lparr>fds := set_fd new (Some f) (fds s)\<rparr>))"

definition sys_close :: "nat \<Rightarrow> shell \<Rightarrow> bool \<times> shell" where
  "sys_close fd s =
     (let (a, s) = ask s in
      case fd_file fd s of None \<Rightarrow> (False, s) | Some f \<Rightarrow> (0 \<le> a, s\<lparr>fds := set_fd fd None (fds s)\<rparr>))"

definition sys_pipe :: "shell \<Rightarrow> (nat \<times> nat) option \<times> shell" where
  "sys_pipe s =
     (let t = tick s; (a, s) = ask s in
      if a < 0 then (None, s)
      else let (r, s) = take_fd (PipeRead t) s; (w, s) = take_fd (PipeWrite t) s in (Some (r, w), s))"

definition sys_kill :: "int \<Rightarrow> int \<Rightarrow> shell \<Rightarrow> bool \<times> shell" where
  "sys_kill p sig s = (let (a, s) = ask s in (0 \<le> a, s\<lparr>kills := kills s @ [(p, sig)]\<rparr>))"

text \<open>\<open>waitpid\<close> with \<open>WNOHANG\<close>: the pid of a child that has ended, 0 if there is none yet, -1 for an error.\<close>

definition waitpid_nohang :: "int \<Rightarrow> shell \<Rightarrow> int \<times> shell" where
  "waitpid_nohang p s =
     (let (a, s) = ask s in (if a = 0 then 0 else if a < 0 then - 1 else if p = - 1 then a else p, s))"

definition SIGKILL :: int where "SIGKILL = 9"
definition SIGCONT :: int where "SIGCONT = 18"
definition SIGSTOP :: int where "SIGSTOP = 19"

definition newline :: string where "newline = [CHR 0x0A]"

section \<open>Facts on descriptors\<close>

lemma lowest_free_le: "lowest_free xs \<le> length xs"
  by (induction xs rule: lowest_free.induct) auto

lemma lowest_free_None: "lowest_free xs < length xs \<Longrightarrow> xs ! lowest_free xs = None"
  by (induction xs rule: lowest_free.induct) auto

end
