(* ===== verification/Shell_Jobs.thy ===== *)
theory Shell_Jobs
  imports Shell_World
begin

text \<open>
  The job list of the shell (class \<open>JobsList\<close> of \<open>Commands.cpp\<close>). A \<open>std::map\<close> is its list of entries in order of
  the keys; the locale \<open>ordered_map\<close> states what the shell relies on, and is interpreted on that list.
\<close>

section \<open>Ordered maps\<close>

fun map_put :: "int \<Rightarrow> 'v \<Rightarrow> (int \<times> 'v) list \<Rightarrow> (int \<times> 'v) list" where
  "map_put k v [] = [(k, v)]"
| "map_put k v ((i, w) # xs) =
     (if k < i then (k, v) # (i, w) # xs else if k = i then (k, v) # xs else (i, w) # map_put k v xs)"

definition map_erase :: "int \<Rightarrow> (int \<times> 'v) list \<Rightarrow> (int \<times> 'v) list" where
  "map_erase k xs = filter (\<lambda>e. fst e \<noteq> k) xs"

definition map_insert :: "int \<Rightarrow> 'v \<Rightarrow> (int \<times> 'v) list \<Rightarrow> (int \<times> 'v) list" where
  "map_insert k v xs = (if map_of xs k = None then map_put k v xs else xs)"

definition ordered :: "(int \<times> 'v) list \<Rightarrow> bool" where
  "ordered xs \<longleftrightarrow> sorted_wrt (<) (map fst xs)"

locale ordered_map =
  fixes put :: "int \<Rightarrow> 'v \<Rightarrow> 'm \<Rightarrow> 'm" and erase :: "int \<Rightarrow> 'm \<Rightarrow> 'm" and get :: "'m \<Rightarrow> int \<Rightarrow> 'v option" and ok :: "'m \<Rightarrow> bool"
  assumes get_put: "ok m \<Longrightarrow> get (put k v m) = (get m)(k \<mapsto> v)"
    and get_erase: "ok m \<Longrightarrow> get (erase k m) = (get m)(k := None)"
    and ok_put: "ok m \<Longrightarrow> ok (put k v m)" and ok_erase: "ok m \<Longrightarrow> ok (erase k m)"
begin

lemma put_back: "ok m \<Longrightarrow> get m k = Some v \<Longrightarrow> get (put k v (erase k m)) = get m"
  by (simp add: get_put get_erase ok_erase fun_upd_idem)

lemma erase_put: "ok m \<Longrightarrow> get m k = None \<Longrightarrow> get (erase k (put k v m)) = get m"
  by (simp add: get_put get_erase ok_put fun_upd_idem)

end

lemma map_put_fst: "set (map fst (map_put k v xs)) = insert k (set (map fst xs))"
  by (induction k v xs rule: map_put.induct) auto

lemma map_put_set: "e \<in> set (map_put k v xs) \<Longrightarrow> e = (k, v) \<or> e \<in> set xs"
  by (induction k v xs rule: map_put.induct) (auto split: if_splits)

lemma map_put_nonempty [simp]: "map_put k v xs \<noteq> []"
  by (cases "(k, v, xs)" rule: map_put.cases) auto

interpretation jm: ordered_map map_put map_erase map_of ordered
proof
  fix m :: "(int \<times> 'v) list" and k v
  assume ok: "ordered m"
  show "ordered (map_erase k m)" using ok by (auto simp: ordered_def map_erase_def sorted_wrt_map sorted_wrt_filter)
  show "ordered (map_put k v m)" using ok
  proof (induction k v m rule: map_put.induct)
    case (2 k v i w xs)
    have "\<forall>j\<in>set (map fst (map_put k v xs)). j = k \<or> j \<in> set (map fst xs)" unfolding map_put_fst by simp
    then show ?case using 2 by (auto simp: ordered_def) (fastforce)+
  qed (simp add: ordered_def)
  show "map_of (map_put k v m) = (map_of m)(k \<mapsto> v)" using ok
    by (induction k v m rule: map_put.induct) (auto simp: ordered_def fun_eq_iff)
  show "map_of (map_erase k m) = (map_of m)(k := None)"
    by (induction m) (auto simp: map_erase_def fun_eq_iff)
qed

section \<open>The operations\<close>

definition addJob :: "job_entry \<Rightarrow> shell \<Rightarrow> shell" where
  "addJob job s =
     (if job_id job = - 1 then
        let n = (if jobs_list s = [] then 1 else fst (last (jobs_list s)) + 1) in
        s\<lparr>jobs_list := map_put n (job\<lparr>job_id := n\<rparr>) (jobs_list s)\<rparr>
      else s\<lparr>jobs_list := map_put (job_id job) job (jobs_list s)\<rparr>)"

definition job_line :: "int \<Rightarrow> job_entry \<Rightarrow> string" where
  "job_line present job =
     ''['' @ show_int (job_id job) @ ''] '' @ cmd_line job @ '' : '' @ show_int (pid job) @ '' ''
       @ show_int (present - time_epoch job) @ '' secs'' @ (if stopped job then '' (stopped)'' else []) @ newline"

definition printJobsList :: "shell \<Rightarrow> shell" where
  "printJobsList s =
     (let (present, s) = ask s in foldl (\<lambda>s e. cout (job_line present (snd e)) s) s (jobs_list s))"

fun kill_jobs :: "(int \<times> job_entry) list \<Rightarrow> shell \<Rightarrow> shell" where
  "kill_jobs [] s = s"
| "kill_jobs (e # es) s =
     (let (r, s) = waitpid_nohang (pid (snd e)) s in
      if r \<noteq> pid (snd e) then
        let s = cout (show_int (pid (snd e)) @ '': '' @ cmd_line (snd e) @ newline) s;
            (_, s) = sys_kill (pid (snd e)) SIGKILL s;
            (_, s) = ask s in
        kill_jobs es s
      else kill_jobs es s)"

definition killAllJobs :: "shell \<Rightarrow> shell" where
  "killAllJobs s = kill_jobs (jobs_list s) s"

fun remove_finished :: "(int \<times> job_entry) list \<Rightarrow> shell \<Rightarrow> (int \<times> job_entry) list \<times> shell" where
  "remove_finished [] s = ([], s)"
| "remove_finished (e # es) s =
     (let (r, s) = waitpid_nohang (pid (snd e)) s; (rest, s) = remove_finished es s in
      (if r = pid (snd e) then rest else e # rest, s))"

definition removeFinishedJobs :: "shell \<Rightarrow> shell" where
  "removeFinishedJobs s = (let (l, s) = remove_finished (jobs_list s) s in s\<lparr>jobs_list := l\<rparr>)"

definition jobExist :: "int \<Rightarrow> shell \<Rightarrow> bool" where
  "jobExist jobs_id s \<longleftrightarrow> map_of (jobs_list s) jobs_id \<noteq> None"

definition jobsNumber :: "shell \<Rightarrow> int" where
  "jobsNumber s = int (length (jobs_list s))"

definition stoppedJobs :: "shell \<Rightarrow> bool" where
  "stoppedJobs s \<longleftrightarrow> list_ex (\<lambda>e. stopped (snd e)) (jobs_list s)"

text \<open>
  A missing key would be inserted with an entry whose fields are not initialised, and the last entry of an empty
  map does not exist: both are faults.
\<close>

definition getJobById :: "int \<Rightarrow> shell \<Rightarrow> job_entry checked" where
  "getJobById jobs_id s =
     (if jobs_id = - 1 then (if jobs_list s = [] then Inl OutOfBounds else Inr (snd (last (jobs_list s))))
      else case map_of (jobs_list s) jobs_id of None \<Rightarrow> Inl Uninitialised | Some job \<Rightarrow> Inr job)"

definition getLastStoppedJob :: "shell \<Rightarrow> (int \<times> job_entry) checked" where
  "getLastStoppedJob s =
     (case filter (\<lambda>e. stopped (snd e)) (rev (jobs_list s)) of [] \<Rightarrow> Inl OutOfBounds | e # _ \<Rightarrow> Inr e)"

definition removeJobById :: "int \<Rightarrow> shell \<Rightarrow> shell checked" where
  "removeJobById i s =
     (if i = - 1 then
        (if jobs_list s = [] then Inl OutOfBounds else Inr (s\<lparr>jobs_list := butlast (jobs_list s)\<rparr>))
      else if map_of (jobs_list s) i = None then Inl OutOfBounds
      else Inr (s\<lparr>jobs_list := map_erase i (jobs_list s)\<rparr>))"

text \<open>Writing through the reference \<open>getJobById\<close> returns.\<close>

definition update_job :: "int \<Rightarrow> (job_entry \<Rightarrow> job_entry) \<Rightarrow> shell \<Rightarrow> shell" where
  "update_job k f s =
     (case map_of (jobs_list s) k of None \<Rightarrow> s | Some job \<Rightarrow> s\<lparr>jobs_list := map_put k (f job) (jobs_list s)\<rparr>)"

end
