(* ===== verification/Shell_Commands.thy ===== *)
theory Shell_Commands
  imports Shell_Jobs
begin

text \<open>
  The commands of the shell (\<open>Commands.cpp\<close>, \<open>Commands.h\<close>): one constructor of \<open>command\<close> per class, \<open>CreateCommand\<close>,
  and one definition per \<open>execute\<close> method of the built-in commands that touch only jobs, the prompt and the directory.
\<close>

section \<open>Commands\<close>

datatype command =
    Redirection string string bool
  | Pipe string string nat
  | ChangePrompt "string list"
  | ShowPid "string list"
  | GetCurrDir "string list"
  | ChangeDir "string list"
  | Jobs "string list"
  | Foreground "string list"
  | Background "string list"
  | Quit "string list"
  | Kill "string list"
  | Fare "string list"
  | Setcore "string list"
  | Timeout "string list" string
  | External string

definition RedirectionCommand :: "string \<Rightarrow> command" where
  "RedirectionCommand l =
     (let append = C_String.contains ''>>'' l; symbol = (if append then ''>>'' else ''>'') in
      Redirection (before symbol l) (trim (after symbol l)) append)"

definition PipeCommand :: "string \<Rightarrow> command" where
  "PipeCommand l =
     (let err = C_String.contains ''|&'' l; symbol = (if err then ''|&'' else ''|'') in
      Pipe (removeBackgroundSign_string (before symbol l)) (removeBackgroundSign_string (after symbol l))
        (if err then 2 else 1))"

definition BuiltInCommand :: "(string list \<Rightarrow> command) \<Rightarrow> string \<Rightarrow> command option checked" where
  "BuiltInCommand f l = checked_bind (parseCommandLine l) (\<lambda>args. Inr (Some (f args)))"

definition CreateCommand :: "string \<Rightarrow> command option checked" where
  "CreateCommand l =
     (let firstWord = first_word l in
      if isRedirectionCommand l then Inr (Some (RedirectionCommand l))
      else if isPipeCommand l then Inr (Some (PipeCommand l))
      else if firstWord = ''chprompt'' then BuiltInCommand ChangePrompt l
      else if firstWord = ''showpid'' then BuiltInCommand ShowPid l
      else if firstWord = ''pwd'' then BuiltInCommand GetCurrDir l
      else if firstWord = ''cd'' then BuiltInCommand ChangeDir l
      else if firstWord = ''jobs'' then BuiltInCommand Jobs l
      else if firstWord = ''fg'' then BuiltInCommand Foreground l
      else if firstWord = ''bg'' then BuiltInCommand Background l
      else if firstWord = ''quit'' then BuiltInCommand Quit l
      else if firstWord = ''kill'' then BuiltInCommand Kill l
      else if firstWord = ''fare'' then BuiltInCommand Fare l
      else if firstWord = ''setcore'' then BuiltInCommand Setcore l
      else if firstWord = ''timeout'' then BuiltInCommand (\<lambda>args. Timeout args l) l
      else if firstWord \<noteq> [] then Inr (Some (External l))
      else Inr None)"

section \<open>Built-in commands\<close>

definition changePromptName :: "string \<Rightarrow> shell \<Rightarrow> shell" where
  "changePromptName prompt_name s = s\<lparr>m_prompt_name := prompt_name\<rparr>"

definition ChangePromptCommand_execute :: "string list \<Rightarrow> shell \<Rightarrow> shell" where
  "ChangePromptCommand_execute args s =
     (if 2 \<le> length args then changePromptName (args ! 1) s else changePromptName ''smash'' s)"

definition ShowPidCommand_execute :: "shell \<Rightarrow> shell" where
  "ShowPidCommand_execute s = cout (''smash pid is '' @ show_int (shell_pid s) @ newline) s"

definition get_current_dir_name :: "shell \<Rightarrow> string option \<times> shell" where
  "get_current_dir_name s = (let (a, s) = ask s in (if a < 0 then None else Some (cwd s), s))"

definition GetCurrDirCommand_execute :: "shell \<Rightarrow> shell" where
  "GetCurrDirCommand_execute s =
     (let (d, s) = get_current_dir_name s in
      case d of Some d \<Rightarrow> cout (d @ newline) s | None \<Rightarrow> perror ''smash error: getcwd failed'' s)"

definition ChangeDirCommand_execute :: "string list \<Rightarrow> shell \<Rightarrow> shell checked" where
  "ChangeDirCommand_execute args s =
     (if length args \<noteq> 2 then Inr (cerr (''smash error: cd: too many arguments'' @ newline) s)
      else if args ! 1 = ''-'' \<and> \<not> old_pwd s then Inr (cerr (''smash error: cd: OLDPWD not set'' @ newline) s)
      else
        let new_path = (if args ! 1 = ''-'' then old_path s else args ! 1);
            (d, s) = get_current_dir_name s;
            s = (if d = None then perror ''smash error: getcwd failed'' s else s);
            (a, s) = ask s in
        if a < 0 then Inr (perror ''smash error: chdir failed'' s)
        else
          let s = s\<lparr>cwd := resolve s (cwd s) new_path\<rparr> in
          case d of None \<Rightarrow> Inl NullDereference | Some d \<Rightarrow> Inr (s\<lparr>old_path := d, old_pwd := True\<rparr>))"

definition JobsCommand_execute :: "shell \<Rightarrow> shell" where
  "JobsCommand_execute s = printJobsList (removeFinishedJobs s)"

definition arg_number :: "string \<Rightarrow> int" where
  "arg_number arg = sint (atoi arg)"

definition ForegroundCommand_execute :: "string list \<Rightarrow> shell \<Rightarrow> shell checked" where
  "ForegroundCommand_execute args s =
     (if 2 < length args \<or> (length args = 2 \<and> \<not> is_number (args ! 1)) then
        Inr (cerr (''smash error: fg: invalid arguments'' @ newline) s)
      else let s = removeFinishedJobs s in
      if length args = 1 \<and> jobsNumber s = 0 then Inr (cerr (''smash error: fg: jobs list is empty'' @ newline) s)
      else if length args = 2 \<and> \<not> jobExist (arg_number (args ! 1)) s then
        Inr (cerr (''smash error: fg: job-id '' @ args ! 1 @ '' does not exist'' @ newline) s)
      else let i = (if length args = 2 then arg_number (args ! 1) else - 1) in
        checked_bind (getJobById i s) (\<lambda>job.
        checked_bind (removeJobById i (s\<lparr>foreground_job := job\<rparr>)) (\<lambda>s.
          let (_, s) = sys_kill (pid job) SIGCONT (s\<lparr>wait_job_pid := pid job\<rparr>) in
          Inr (cout (cmd_line job @ '' : '' @ show_int (pid job) @ newline) s))))"

definition resume_job :: "int \<Rightarrow> job_entry \<Rightarrow> shell \<Rightarrow> shell" where
  "resume_job k job s =
     (let (_, s) = sys_kill (pid job) SIGCONT s;
          s = update_job k (\<lambda>job. job\<lparr>stopped := False\<rparr>) s in
      cout (cmd_line job @ '' : '' @ show_int (pid job) @ newline) s)"

definition BackgroundCommand_execute :: "string list \<Rightarrow> shell \<Rightarrow> shell checked" where
  "BackgroundCommand_execute args s =
     (if 2 < length args \<or> (length args = 2 \<and> \<not> is_number (args ! 1)) then
        Inr (cerr (''smash error: bg: invalid arguments'' @ newline) s)
      else let s = removeFinishedJobs s in
      if length args = 1 \<and> \<not> stoppedJobs s then
        Inr (cerr (''smash error: bg: there is no stopped jobs to resume'' @ newline) s)
      else if length args = 2 \<and> \<not> jobExist (arg_number (args ! 1)) s then
        Inr (cerr (''smash error: bg: job-id '' @ args ! 1 @ '' does not exist'' @ newline) s)
      else if length args = 2 then
        checked_bind (getJobById (arg_number (args ! 1)) s) (\<lambda>job.
          if \<not> stopped job then
            Inr (cerr (''smash error: bg: job-id '' @ show_int (job_id job) @ '' is already running in the background'' @ newline) s)
          else Inr (resume_job (arg_number (args ! 1)) job s))
      else checked_bind (getLastStoppedJob s) (\<lambda>(k, job). Inr (resume_job k job s)))"

definition QuitCommand_execute :: "string list \<Rightarrow> shell \<Rightarrow> shell" where
  "QuitCommand_execute args s =
     (let s = removeFinishedJobs s;
          s = (if length args = 2 \<and> args ! 1 = ''kill'' then
                 killAllJobs (cout (''smash: sending SIGKILL signal to '' @ show_int (jobsNumber s) @ '' jobs:'' @ newline) s)
               else s) in
      s\<lparr>exit_shell := True\<rparr>)"

definition KillCommand_execute :: "string list \<Rightarrow> shell \<Rightarrow> shell checked" where
  "KillCommand_execute args s =
     (if length args \<noteq> 3 \<or> hd (args ! 1) \<noteq> CHR ''-'' \<or> \<not> is_number (tl (args ! 1)) \<or> \<not> is_number (args ! 2) then
        Inr (cerr (''smash error: kill: invalid arguments'' @ newline) s)
      else let signal_type = arg_number (tl (args ! 1)) in
      if signal_type < 1 \<or> 31 < signal_type then Inr (cerr (''smash error: kill: invalid arguments'' @ newline) s)
      else let s = removeFinishedJobs s; i = arg_number (args ! 2) in
      if \<not> jobExist i s then Inr (cerr (''smash error: kill: job-id '' @ args ! 2 @ '' does not exist'' @ newline) s)
      else checked_bind (getJobById i s) (\<lambda>job.
        let (_, s) = sys_kill (pid job) signal_type s;
            s = cout (''signal number '' @ show_int signal_type @ '' was sent to pid '' @ show_int (pid job) @ newline) s in
        if signal_type = SIGSTOP then Inr (update_job i (\<lambda>job. job\<lparr>stopped := True\<rparr>) s)
        else if signal_type = SIGCONT then Inr (update_job i (\<lambda>job. job\<lparr>stopped := False\<rparr>) s)
        else if signal_type = SIGKILL then
          let (_, s) = waitpid_nohang (pid job) s in removeJobById (job_id job) s
        else Inr s))"

definition SetcoreCommand_execute :: "string list \<Rightarrow> shell \<Rightarrow> shell checked" where
  "SetcoreCommand_execute args s =
     (if length args \<noteq> 3 \<or> (length args = 3 \<and> (\<not> is_number (args ! 1) \<or> \<not> is_number (args ! 2))) then
        Inr (cerr (''smash error: setcore: invalid arguments'' @ newline) s)
      else let s = removeFinishedJobs s in
      if \<not> jobExist (arg_number (args ! 1)) s then
        Inr (cerr (''smash error: setcore: job-id '' @ args ! 1 @ '' does not exist'' @ newline) s)
      else checked_bind (getJobById (arg_number (args ! 1)) s) (\<lambda>job.
        let (a, s) = ask s; s = s\<lparr>affinities := affinities s @ [(pid job, arg_number (args ! 2))]\<rparr> in
        if a = 0 then Inr s
        else if a = 22 then Inr (cerr (''smash error: setcore: invalid core number'' @ newline) s)
        else if a = 3 then Inr (cerr (''smash error: setcore: job-id '' @ args ! 1 @ '' does not exist'' @ newline) s)
        else Inr (perror ''smash error: sched_setaffinity failed'' s)))"

end
