(* ===== verification/Shell_Fare.thy ===== *)
theory Shell_Fare
  imports Shell_World
begin

text \<open>
  The command \<open>fare\<close> of the shell (\<open>FareCommand::execute\<close> and \<open>_WriteWrapper\<close> in \<open>Commands.cpp\<close>): it copies a file
  into a temporary one, byte by byte, with one string replaced by another, and renames the copy over the original.
  A \<open>read\<close> that succeeds returns what is left of the file up to the size asked for, and a \<open>write\<close> that succeeds
  writes at least one byte when given some; either may fail.
\<close>

section \<open>Definitions\<close>

definition append_file :: "string \<Rightarrow> string \<Rightarrow> shell \<Rightarrow> shell" where
  "append_file path buf s = s\<lparr>files := (files s)(path \<mapsto> (case files s path of None \<Rightarrow> buf | Some t \<Rightarrow> t @ buf))\<rparr>"

definition write_some :: "string \<Rightarrow> int \<Rightarrow> nat" where
  "write_some buf a = (if buf = [] then 0 else max 1 (min (length buf) (nat a)))"

function WriteWrapper :: "string \<Rightarrow> string \<Rightarrow> shell \<Rightarrow> bool \<times> shell" where
  "WriteWrapper path buf s =
     (let (a, s) = ask s in
      if a < 0 then (False, perror ''smash error: close failed'' s)
      else
        let k = write_some buf a; s = append_file path (take k buf) s in
        if drop k buf = [] then (True, s) else WriteWrapper path (drop k buf) s)"
  by pat_completeness (simp only: prod.inject)
termination by (relation "measure (\<lambda>(_, buf, _). length buf)") (auto simp: write_some_def)

declare WriteWrapper.simps [simp del]

definition close_both :: "nat \<Rightarrow> nat \<Rightarrow> shell \<Rightarrow> shell" where
  "close_both src dest s = (let (_, s) = sys_close src s; (_, s) = sys_close dest s in s)"

text \<open>
  The loop; the result is the number of replacements, or none when a call failed.  A pass either ends the loop or moves
  the position in the source file on, so that one pass more than the file has bytes is enough (\<open>fare_loop_well\<close>).
  The result of \<open>lseek\<close> is not looked at: when it fails the position stays behind the bytes read.
\<close>

primrec fare_loop ::
  "nat \<Rightarrow> string \<Rightarrow> string \<Rightarrow> string \<Rightarrow> string \<Rightarrow> nat \<Rightarrow> nat \<Rightarrow> nat \<Rightarrow> nat \<Rightarrow> shell \<Rightarrow> nat option \<times> shell"
where
  "fare_loop 0 pat rep src tmp src_file dest_file pos instances s = (None, s)"
| "fare_loop (Suc fuel) pat rep src tmp src_file dest_file pos instances s =
     (let (a, s) = ask s; buffer = take (length pat) (drop pos src) in
      if a < 0 then (None, close_both src_file dest_file (perror ''smash error: read failed'' s))
      else if buffer = pat then
        let (ok, s) = WriteWrapper tmp rep s in
        if \<not> ok then (None, close_both src_file dest_file s)
        else if buffer = [] then (Some (instances + 1), s)
        else fare_loop fuel pat rep src tmp src_file dest_file (pos + length buffer) (instances + 1) s
      else if buffer \<noteq> [] then
        let (ok, s) = WriteWrapper tmp [hd buffer] s in
        if \<not> ok then (None, close_both src_file dest_file s)
        else
          let (a, s) = ask s in
          fare_loop fuel pat rep src tmp src_file dest_file (if a < 0 then pos + length buffer else pos + 1) instances s
      else (Some instances, s))"

declare fare_loop.simps [simp del]

definition fare_finish :: "string \<Rightarrow> string \<Rightarrow> string \<Rightarrow> nat \<Rightarrow> nat \<Rightarrow> nat \<Rightarrow> shell \<Rightarrow> shell" where
  "fare_finish path tmp pat src_file dest_file instances s =
     (let (ok, s) = sys_close src_file s in
      if \<not> ok then perror ''smash error: close failed'' s
      else let (ok, s) = sys_close dest_file s in
      if \<not> ok then perror ''smash error: close failed'' s
      else
        let (a, s) = ask s;
            s = (if a < 0 then s else s\<lparr>files := (files s)(path := None)\<rparr>);
            (a, s) = ask s;
            s = (if a < 0 then s else s\<lparr>files := (files s)(path := files s tmp, tmp := None)\<rparr>) in
        cout (''replaced '' @ show_int (int instances) @ '' instances of the string '' @ [CHR 0x22] @ pat @ [CHR 0x22] @ newline) s)"

definition FareCommand_execute :: "string list \<Rightarrow> shell \<Rightarrow> shell" where
  "FareCommand_execute args s =
     (if length args \<noteq> 4 then cerr (''smash error: fare: invalid arguments'' @ newline) s
      else
        let path = args ! 1; pat = args ! 2; rep = args ! 3; tmp = path @ ''_temp'';
            (dest, s) = sys_open tmp Truncate s in
        case dest of None \<Rightarrow> perror ''smash error: open failed'' s
        | Some dest_file \<Rightarrow>
            let (src, s) = sys_open path ReadOnly s in
            (case src of None \<Rightarrow> perror ''smash error: open failed'' (snd (sys_close dest_file s))
             | Some src_file \<Rightarrow>
                 let (a, s) = ask s in
                 if a < 0 then perror ''smash error: malloc failed'' (close_both src_file dest_file s)
                 else
                   let (n, s) = fare_loop (Suc (length (the (files s path)))) pat rep (the (files s path)) tmp src_file dest_file 0 0 s in
                   (case n of None \<Rightarrow> s | Some instances \<Rightarrow> fare_finish path tmp pat src_file dest_file instances s)))"

section \<open>The result\<close>

text \<open>Replacement of a string in a text, from left to right and without overlaps.\<close>

function replace_all :: "string \<Rightarrow> string \<Rightarrow> string \<Rightarrow> string" where
  "replace_all pat rep s =
     (case s of [] \<Rightarrow> [] | c # cs \<Rightarrow>
        if pat \<noteq> [] \<and> prefix pat s then rep @ replace_all pat rep (drop (length pat) s)
        else c # replace_all pat rep cs)"
  by pat_completeness (simp only: prod.inject)
termination by (relation "measure (\<lambda>(_, _, s). length s)") auto

declare replace_all.simps [simp del]

function occurrences :: "string \<Rightarrow> string \<Rightarrow> nat" where
  "occurrences pat s =
     (case s of [] \<Rightarrow> 0 | c # cs \<Rightarrow>
        if pat \<noteq> [] \<and> prefix pat s then occurrences pat (drop (length pat) s) + 1 else occurrences pat cs)"
  by pat_completeness (simp only: prod.inject)
termination by (relation "measure (\<lambda>(_, s). length s)") auto

declare occurrences.simps [simp del]

definition answers_well :: "shell \<Rightarrow> bool" where
  "answers_well s \<longleftrightarrow> (\<forall>i. 0 \<le> answers s i)"

text \<open>What writing to a file leaves alone.\<close>

definition only_appends :: "string \<Rightarrow> string \<Rightarrow> shell \<Rightarrow> shell \<Rightarrow> bool" where
  "only_appends path t s s' \<longleftrightarrow> answers s' = answers s \<and> fds s' = fds s \<and> outs s' = outs s
     \<and> files s' = (files s)(path \<mapsto> the (files s path) @ t)"

lemma only_appends_trans:
  "only_appends path t s s' \<Longrightarrow> only_appends path u s' s'' \<Longrightarrow> only_appends path (t @ u) s s''"
  by (simp add: only_appends_def)

lemma ask_well: "answers_well s \<Longrightarrow> \<exists>a s'. ask s = (a, s') \<and> 0 \<le> a \<and> s' = s\<lparr>tick := Suc (tick s)\<rparr> \<and> answers_well s'"
  by (simp add: ask_def answers_well_def)

lemma WriteWrapper_well:
  assumes "answers_well s" "files s path \<noteq> None"
  shows "\<exists>s'. WriteWrapper path buf s = (True, s') \<and> only_appends path buf s s'"
  using assms
proof (induction "length buf" arbitrary: buf s rule: less_induct)
  case less
  obtain a s1 where a: "ask s = (a, s1)" "0 \<le> a" "s1 = s\<lparr>tick := Suc (tick s)\<rparr>" "answers_well s1"
    using ask_well [OF less(2)] by blast
  let ?k = "write_some buf a" and ?s2 = "append_file path (take (write_some buf a) buf) s1"
  have ap: "only_appends path (take ?k buf) s ?s2" using less(3) a(3) by (auto simp: only_appends_def append_file_def)
  have eq: "WriteWrapper path buf s = (if drop ?k buf = [] then (True, ?s2) else WriteWrapper path (drop ?k buf) ?s2)"
    using a(1,2) by (subst WriteWrapper.simps) (simp add: Let_def)
  show ?case
  proof (cases "drop ?k buf = []")
    case True
    then have "take ?k buf = buf" by (metis append_Nil2 append_take_drop_id)
    then show ?thesis using ap eq True by auto
  next
    case False
    have w: "answers_well ?s2" "files ?s2 path \<noteq> None" using a(4) by (simp_all add: answers_well_def append_file_def)
    have "length (drop ?k buf) < length buf" using False by (auto simp: write_some_def)
    from less(1) [OF this w] obtain s' where
      s': "WriteWrapper path (drop ?k buf) ?s2 = (True, s')" "only_appends path (drop ?k buf) ?s2 s'" by blast
    have "only_appends path buf s s'" using only_appends_trans [OF ap s'(2)] by simp
    then show ?thesis using s'(1) eq False by auto
  qed
qed

lemma only_appends_well: "only_appends path t s s' \<Longrightarrow> answers_well s \<Longrightarrow> answers_well s'"
  by (simp add: only_appends_def answers_well_def)

lemma fare_loop_cases:
  assumes "ask s = (a, s1)" "0 \<le> a" "pat \<noteq> []"
  shows "drop pos src = [] \<Longrightarrow> fare_loop (Suc fuel) pat rep src tmp f d pos n s = (Some n, s1)"
    "prefix pat (drop pos src) \<Longrightarrow> WriteWrapper tmp rep s1 = (True, s2) \<Longrightarrow>
       fare_loop (Suc fuel) pat rep src tmp f d pos n s = fare_loop fuel pat rep src tmp f d (pos + length pat) (n + 1) s2"
    "\<not> prefix pat (drop pos src) \<Longrightarrow> drop pos src = c # cs \<Longrightarrow> WriteWrapper tmp [c] s1 = (True, s2) \<Longrightarrow> 0 \<le> fst (ask s2) \<Longrightarrow>
       fare_loop (Suc fuel) pat rep src tmp f d pos n s = fare_loop fuel pat rep src tmp f d (pos + 1) n (snd (ask s2))"
proof -
  let ?b = "take (length pat) (drop pos src)"
  have pre: "prefix pat (drop pos src) \<longleftrightarrow> ?b = pat"
    by (metis append_eq_conv_conj prefixE take_is_prefix)
  show "drop pos src = [] \<Longrightarrow> fare_loop (Suc fuel) pat rep src tmp f d pos n s = (Some n, s1)"
    using assms by (simp add: fare_loop.simps(2) Let_def)
  show "prefix pat (drop pos src) \<Longrightarrow> WriteWrapper tmp rep s1 = (True, s2) \<Longrightarrow>
       fare_loop (Suc fuel) pat rep src tmp f d pos n s = fare_loop fuel pat rep src tmp f d (pos + length pat) (n + 1) s2"
    using assms unfolding pre by (simp add: fare_loop.simps(2) Let_def del: length_take)
  show "\<not> prefix pat (drop pos src) \<Longrightarrow> drop pos src = c # cs \<Longrightarrow> WriteWrapper tmp [c] s1 = (True, s2) \<Longrightarrow> 0 \<le> fst (ask s2) \<Longrightarrow>
       fare_loop (Suc fuel) pat rep src tmp f d pos n s = fare_loop fuel pat rep src tmp f d (pos + 1) n (snd (ask s2))"
  proof -
    assume n: "\<not> prefix pat (drop pos src)" and d: "drop pos src = c # cs" and w: "WriteWrapper tmp [c] s1 = (True, s2)"
      and l: "0 \<le> fst (ask s2)"
    obtain k where k: "length pat = Suc k" using assms(3) by (cases pat) auto
    then have b: "?b \<noteq> pat" "?b \<noteq> []" "hd ?b = c" using n pre d by simp_all
    show ?thesis using assms(1,2) b w l by (simp add: fare_loop.simps(2) Let_def case_prod_unfold del: length_take)
  qed
qed

lemma replace_all_step:
  assumes "pat \<noteq> []"
  shows "prefix pat (c # cs) \<Longrightarrow> replace_all pat rep (c # cs) = rep @ replace_all pat rep (drop (length pat) (c # cs))"
    "\<not> prefix pat (c # cs) \<Longrightarrow> replace_all pat rep (c # cs) = [c] @ replace_all pat rep cs"
    "prefix pat (c # cs) \<Longrightarrow> occurrences pat (c # cs) = occurrences pat (drop (length pat) (c # cs)) + 1"
    "\<not> prefix pat (c # cs) \<Longrightarrow> occurrences pat (c # cs) = occurrences pat cs"
    "replace_all pat rep [] = []" "occurrences pat [] = 0"
  using assms by (subst replace_all.simps occurrences.simps, simp)+

lemma fare_loop_well:
  assumes "answers_well s" "files s tmp \<noteq> None" "pat \<noteq> []" "length src - pos < fuel"
  shows "\<exists>s'. fare_loop fuel pat rep src tmp f d pos n s = (Some (n + occurrences pat (drop pos src)), s')
    \<and> only_appends tmp (replace_all pat rep (drop pos src)) s s'"
  using assms(1,2,4)
proof (induction fuel arbitrary: pos n s)
  case (Suc fuel)
  obtain a s1 where a: "ask s = (a, s1)" "0 \<le> a" "s1 = s\<lparr>tick := Suc (tick s)\<rparr>" "answers_well s1"
    using ask_well [OF Suc.prems(1)] by blast
  note C = fare_loop_cases [OF a(1,2) assms(3)] and R = replace_all_step [OF assms(3)]
  have f1: "files s1 tmp \<noteq> None" "only_appends tmp t s1 s' = only_appends tmp t s s'" for t s'
    using Suc.prems(2) a(3) by (simp_all add: only_appends_def)
  have app: "only_appends tmp t s s'" "answers_well s'" "files s' tmp \<noteq> None" if "only_appends tmp t s1 s'" for t s'
    using that f1(2) only_appends_well [OF that a(4)] by (simp_all add: only_appends_def)
  show ?case
  proof (cases "drop pos src")
    case Nil
    have "only_appends tmp [] s s1" using Suc.prems(2) a(3) by (auto simp: only_appends_def)
    then show ?thesis using C(1) [OF Nil] R(5,6) Nil by simp
  next
    case (Cons c cs)
    then have lt: "pos < length src" by (metis drop_all list.distinct(1) not_le)
    show ?thesis
    proof (cases "prefix pat (drop pos src)")
      case True
      obtain s2 where s2: "WriteWrapper tmp rep s1 = (True, s2)" "only_appends tmp rep s1 s2"
        using WriteWrapper_well [OF a(4) f1(1)] by blast
      have "length src - (pos + length pat) < fuel" using lt assms(3) Suc.prems(3) by (cases pat) auto
      from Suc.IH [OF app(2,3) [OF s2(2)] this, of "n + 1"] obtain s' where
        s': "fare_loop fuel pat rep src tmp f d (pos + length pat) (n + 1) s2
            = (Some (n + 1 + occurrences pat (drop (pos + length pat) src)), s')"
          "only_appends tmp (replace_all pat rep (drop (pos + length pat) src)) s2 s'" by blast
      have "drop (pos + length pat) src = drop (length pat) (c # cs)" using Cons by (metis add.commute drop_drop)
      then show ?thesis
        using s'(1) C(2) [OF True s2(1)] only_appends_trans [OF app(1) [OF s2(2)] s'(2)] True R(1,3) [of c cs] Cons
        by (intro exI [of _ s']) simp
    next
      case False
      obtain s2 where s2: "WriteWrapper tmp [c] s1 = (True, s2)" "only_appends tmp [c] s1 s2"
        using WriteWrapper_well [OF a(4) f1(1)] by blast
      have l: "0 \<le> fst (ask s2)" using ask_well [OF only_appends_well [OF s2(2) a(4)]] by (metis fst_conv)
      have s3: "only_appends tmp [c] s1 (snd (ask s2))" using s2(2) by (simp add: ask_def only_appends_def)
      have "length src - (pos + 1) < fuel" using lt Suc.prems(3) by simp
      from Suc.IH [OF app(2,3) [OF s3] this, of n] obtain s' where
        s': "fare_loop fuel pat rep src tmp f d (pos + 1) n (snd (ask s2)) = (Some (n + occurrences pat (drop (pos + 1) src)), s')"
          "only_appends tmp (replace_all pat rep (drop (pos + 1) src)) (snd (ask s2)) s'" by blast
      have "drop (pos + 1) src = cs" using Cons by (metis add.commute drop_drop drop0 drop_Suc_Cons plus_1_eq_Suc)
      then show ?thesis
        using s'(1) C(3) [OF False Cons s2(1) l] only_appends_trans [OF app(1) [OF s3] s'(2)] False R(2,4) [of c cs] Cons
        by (intro exI [of _ s']) simp
    qed
  qed
qed simp

end
