(* ===== verification/Shell_Execute.thy ===== *)
theory Shell_Execute
  imports Shell_Commands Shell_Fare
begin

text \<open>
  Running a command line (\<open>Commands.cpp\<close>): external commands, the commands that run other ones (redirection, pipe,
  \<open>timeout\<close>), \<open>executeCommand\<close> and \<open>waitForJob\<close>.  The commands that run another one take what runs it as an argument;
  \<open>execute\<close> ties the knot with a bound on the nesting, and \<open>StackExhausted\<close> is a nesting that exceeds it.
  \<open>fork\<close> is seen from the parent: a positive answer is the pid of the child, any other answer is a failure.
  The child appears in \<open>started\<close> with its arguments and its descriptors.
\<close>

section \<open>External commands\<close>

definition cmd_line_copy :: "string \<Rightarrow> shell \<Rightarrow> string option \<times> shell" where
  "cmd_line_copy l s =
     (let (a, s) = ask s in if a < 0 then (None, perror ''smash error: malloc failed'' s) else (Some l, s))"

definition CloseFd :: "nat option \<Rightarrow> shell \<Rightarrow> shell" where
  "CloseFd fd s =
     (case fd of None \<Rightarrow> s
      | Some fd \<Rightarrow> let (ok, s) = sys_close fd s in if ok then s else perror ''smash error: close failed'' s)"

definition JobEntry :: "string \<Rightarrow> int \<Rightarrow> shell \<Rightarrow> job_entry \<times> shell" where
  "JobEntry l p s =
     (let (now, s) = ask s in (\<lparr>cmd_line = l, job_id = - 1, pid = p, time_epoch = now, stopped = False\<rparr>, s))"

text \<open>
  The arguments of the new process: the words of the line, or a call of \<open>bash\<close> where the line has a wildcard. An
  argument that is a null pointer ends the list.
\<close>

definition external_args :: "string \<Rightarrow> string \<Rightarrow> shell \<Rightarrow> (string list \<times> shell) checked" where
  "external_args m_cmd_line copy s =
     (if CHR ''*'' \<notin> set m_cmd_line \<and> CHR ''?'' \<notin> set m_cmd_line then
        checked_bind (parseCommandLine copy) (\<lambda>args. if args = [] then Inl Uninitialised else Inr (args, s))
      else
        let (a0, s) = cmd_line_copy ''/bin/bash'' s; (a1, s) = cmd_line_copy ''-c'' s in
        Inr (case (a0, a1) of (None, _) \<Rightarrow> [] | (Some a0, None) \<Rightarrow> [a0] | (Some a0, Some a1) \<Rightarrow> [a0, a1, copy], s))"

definition fork_exec :: "string list \<Rightarrow> nat option \<Rightarrow> shell \<Rightarrow> int \<times> shell" where
  "fork_exec args close_fd s =
     (let (a, s) = ask s in
      if 0 < a then (a, s\<lparr>started := started s @ [(a, args, fds (CloseFd close_fd s))]\<rparr>) else (- 1, s))"

text \<open>
  The result is the job kept in \<open>child_job\<close>. The pid is an unsigned variable in the source, so that a failed \<open>fork\<close>
  takes the branch of the parent, with the pid -1.
\<close>

definition ExternalCommand_execute :: "string \<Rightarrow> nat option \<Rightarrow> shell \<Rightarrow> (job_entry \<times> shell) checked" where
  "ExternalCommand_execute m_cmd_line close_fd s =
     (let (copy, s) = cmd_line_copy m_cmd_line s in
      case copy of None \<Rightarrow> Inl NullDereference
      | Some copy \<Rightarrow>
          checked_bind (removeBackgroundSign copy) (\<lambda>copy.
          checked_bind (external_args m_cmd_line copy s) (\<lambda>(args, s).
            let (p, s) = fork_exec args close_fd s; (job, s) = JobEntry m_cmd_line p s in
            checked_bind (isBackgroundCommand m_cmd_line) (\<lambda>background.
              if background then
                let s = addJob job s in checked_bind (getJobById (- 1) s) (\<lambda>child_job. Inr (child_job, s))
              else Inr (job, s\<lparr>foreground_job := job, wait_job_pid := p\<rparr>)))))"

section \<open>Commands that run others\<close>

type_synonym runner = "command \<Rightarrow> nat option \<Rightarrow> shell \<Rightarrow> (job_entry option \<times> shell) checked"

definition run_command :: "runner \<Rightarrow> nat option \<Rightarrow> command option \<Rightarrow> shell \<Rightarrow> shell checked" where
  "run_command run close_fd command s =
     (case command of None \<Rightarrow> Inr s | Some command \<Rightarrow> checked_bind (run command close_fd s) (\<lambda>(_, s). Inr s))"

definition executeCommand :: "runner \<Rightarrow> string \<Rightarrow> shell \<Rightarrow> shell checked" where
  "executeCommand run l s = checked_bind (CreateCommand l) (\<lambda>cmd. run_command run None cmd s)"

text \<open>A call whose failure is reported and otherwise ignored.\<close>

definition report :: "string \<Rightarrow> bool \<times> shell \<Rightarrow> shell" where
  "report t r = (if fst r then snd r else perror t (snd r))"

definition RedirectionCommand_execute :: "runner \<Rightarrow> string \<Rightarrow> string \<Rightarrow> bool \<Rightarrow> shell \<Rightarrow> shell checked" where
  "RedirectionCommand_execute run m_cmd_line m_file_name m_append s =
     (let (fd, s) = sys_open m_file_name (if m_append then Append else Truncate) s in
      case fd of None \<Rightarrow> Inr (perror ''smash error: open failed'' s)
      | Some file_fd \<Rightarrow>
          let (fd, s) = sys_dup 1 s in
          (case fd of None \<Rightarrow> Inr (snd (sys_close file_fd (perror ''smash error: dup failed'' s)))
           | Some saved_stdout \<Rightarrow>
               let (ok, s) = sys_dup2 file_fd 1 s in
               if \<not> ok then
                 Inr (snd (sys_close file_fd (snd (sys_close saved_stdout (perror ''smash error: dup2 failed'' s)))))
               else
                 checked_bind (executeCommand run m_cmd_line s) (\<lambda>s.
                   let s = report ''smash error: close failed'' (sys_close file_fd s);
                       s = report ''smash error: dup2 failed'' (sys_dup2 saved_stdout 1 s) in
                   Inr (report ''smash error: close failed'' (sys_close saved_stdout s)))))"

text \<open>
  One side of a pipe: the standard descriptor is replaced by an end of the pipe, the command runs if this and the
  closing of the end succeeded, and the standard descriptor is put back.
\<close>

definition pipe_side ::
  "(shell \<Rightarrow> shell checked) \<Rightarrow> nat \<Rightarrow> nat \<Rightarrow> nat \<Rightarrow> shell \<Rightarrow> shell checked"
where
  "pipe_side run pipe_end std saved s =
     (let (ok, s) = sys_dup2 pipe_end std s in
      checked_bind
        (if \<not> ok then Inr (perror ''smash error: dup2 failed'' s)
         else let (ok, s) = sys_close pipe_end s in
         if ok then run s else Inr (perror ''smash error: close failed'' s))
        (\<lambda>s.
          let s = report ''smash error: dup2 failed'' (sys_dup2 saved std s) in
          Inr (report ''smash error: close failed'' (sys_close saved s))))"

definition PipeCommand_execute :: "runner \<Rightarrow> string \<Rightarrow> string \<Rightarrow> nat \<Rightarrow> shell \<Rightarrow> shell checked" where
  "PipeCommand_execute run m_cmd_line1 m_cmd_line2 m_std_type s =
     (let (fd, s) = sys_dup 0 s in
      case fd of None \<Rightarrow> Inr (perror ''smash error: dup failed'' s)
      | Some saved_stdin \<Rightarrow>
          let (fd, s) = sys_dup m_std_type s in
          (case fd of None \<Rightarrow> Inr (snd (sys_close saved_stdin (perror ''smash error: dup failed'' s)))
           | Some saved_out \<Rightarrow>
               let (p, s) = sys_pipe s in
               (case p of None \<Rightarrow>
                    Inr (snd (sys_close saved_out (snd (sys_close saved_stdin (perror ''smash error: pipe failed'' s)))))
                | Some (r, w) \<Rightarrow>
                    checked_bind (CreateCommand m_cmd_line1) (\<lambda>command1.
                    checked_bind (CreateCommand m_cmd_line2) (\<lambda>command2.
                    checked_bind (pipe_side (run_command run (Some r) command1) w m_std_type saved_out s) (\<lambda>s.
                      pipe_side (run_command run None command2) r 0 saved_stdin s))))))"

text \<open>The part of \<open>timeout\<close> after the command has been started.\<close>

definition add_timeout :: "string \<Rightarrow> int \<Rightarrow> job_entry \<Rightarrow> shell \<Rightarrow> shell" where
  "add_timeout m_cmd_line job_time job s =
     (let job = job\<lparr>cmd_line := m_cmd_line\<rparr>;
          (now, s) = ask s;
          completion_time = now + job_time;
          s = (if completion_time < min_completion_time s \<or> timeout_list s = []
               then s\<lparr>alarms := alarms s @ [job_time], min_completion_time := completion_time\<rparr> else s);
          s = s\<lparr>timeout_list := map_insert completion_time job (timeout_list s)\<rparr> in
      if jobExist (job_id job) s then update_job (job_id job) (\<lambda>job. job\<lparr>cmd_line := m_cmd_line\<rparr>) s else s)"

definition TimeoutCommand_execute :: "runner \<Rightarrow> string list \<Rightarrow> string \<Rightarrow> shell \<Rightarrow> shell checked" where
  "TimeoutCommand_execute run args m_cmd_line s =
     (if length args < 3 \<or> \<not> is_number (args ! 1) \<or> arg_number (args ! 1) < 0 then
        Inr (cerr (''smash error: timeout: invalid arguments'' @ newline) s)
      else
        checked_bind (CreateCommand (inner_cmd_line m_cmd_line)) (\<lambda>command.
          case command of None \<Rightarrow> Inr s
          | Some command \<Rightarrow>
              checked_bind (run command None s) (\<lambda>(child_job, s).
                case child_job of None \<Rightarrow> Inr s
                | Some job \<Rightarrow> Inr (add_timeout m_cmd_line (arg_number (args ! 1)) job s))))"

section \<open>Running a command\<close>

definition no_child :: "shell checked \<Rightarrow> (job_entry option \<times> shell) checked" where
  "no_child r = checked_bind r (\<lambda>s. Inr (None, s))"

definition execute_with :: "runner \<Rightarrow> runner" where
  "execute_with run command close_fd s =
     (case command of
        Redirection l name appending \<Rightarrow> no_child (RedirectionCommand_execute run l name appending s)
      | Pipe l1 l2 std \<Rightarrow> no_child (PipeCommand_execute run l1 l2 std s)
      | ChangePrompt args \<Rightarrow> Inr (None, ChangePromptCommand_execute args s)
      | ShowPid args \<Rightarrow> Inr (None, ShowPidCommand_execute s)
      | GetCurrDir args \<Rightarrow> Inr (None, GetCurrDirCommand_execute s)
      | ChangeDir args \<Rightarrow> no_child (ChangeDirCommand_execute args s)
      | Jobs args \<Rightarrow> Inr (None, JobsCommand_execute s)
      | Foreground args \<Rightarrow> no_child (ForegroundCommand_execute args s)
      | Background args \<Rightarrow> no_child (BackgroundCommand_execute args s)
      | Quit args \<Rightarrow> Inr (None, QuitCommand_execute args s)
      | Kill args \<Rightarrow> no_child (KillCommand_execute args s)
      | Fare args \<Rightarrow> Inr (None, FareCommand_execute args s)
      | Setcore args \<Rightarrow> no_child (SetcoreCommand_execute args s)
      | Timeout args l \<Rightarrow> no_child (TimeoutCommand_execute run args l s)
      | External l \<Rightarrow> checked_bind (ExternalCommand_execute l close_fd s) (\<lambda>(job, s). Inr (Some job, s)))"

primrec execute :: "nat \<Rightarrow> runner" where
  "execute 0 = (\<lambda>command close_fd s. Inl StackExhausted)"
| "execute (Suc n) = execute_with (execute n)"

section \<open>Waiting and prompting\<close>

text \<open>
  The answer of \<open>waitpid\<close> with \<open>WUNTRACED\<close>: 1 when the process was stopped, another non-negative one when it ended;
  when it fails the status that is looked at has not been set.
\<close>

definition waitForJob :: "shell \<Rightarrow> shell checked" where
  "waitForJob s =
     (if wait_job_pid s = - 1 then Inr s
      else
        let (a, s) = ask s in
        if a < 0 then Inl Uninitialised
        else if a = 1 then
          let s = cout (''smash: process '' @ show_int (wait_job_pid s) @ '' was stopped'' @ newline) s;
              s = s\<lparr>foreground_job := (foreground_job s)\<lparr>stopped := True\<rparr>\<rparr>;
              s = addJob (foreground_job s) s in
          Inr (s\<lparr>wait_job_pid := - 1\<rparr>)
        else if foreground_job_killed s then
          let s = cout (''smash: process '' @ show_int (wait_job_pid s) @ '' was killed'' @ newline) s in
          Inr (s\<lparr>foreground_job_killed := False, wait_job_pid := - 1\<rparr>)
        else Inr (s\<lparr>wait_job_pid := - 1\<rparr>))"

definition printPrompt :: "shell \<Rightarrow> shell" where
  "printPrompt s = cout (m_prompt_name s @ ''> '') s"

end
