(* ===== verification/Shell_Main.thy ===== *)
theory Shell_Main
  imports Shell_Execute
begin

text \<open>
  The signal handlers (\<open>signals.cpp\<close>) and the main loop (\<open>smash.cpp\<close>) of the shell.  A handler runs between two steps
  of the main loop, where the shell waits for input or for its foreground process; the step relation \<open>shell_step\<close>
  interleaves them in every order.
\<close>

section \<open>Signal handlers\<close>

definition CTRL_Z_STR :: string where "CTRL_Z_STR = ''smash: got ctrl-Z'' @ newline"
definition CTRL_C_STR :: string where "CTRL_C_STR = ''smash: got ctrl-C'' @ newline"
definition ALARM_STR :: string where "ALARM_STR = ''smash: got an alarm'' @ newline"

definition ctrlZHandler :: "shell \<Rightarrow> shell" where
  "ctrlZHandler s =
     (let s = cout CTRL_Z_STR s in
      if wait_job_pid s \<noteq> - 1 then snd (sys_kill (wait_job_pid s) SIGSTOP s) else s)"

definition ctrlCHandler :: "shell \<Rightarrow> shell" where
  "ctrlCHandler s =
     (let s = cout CTRL_C_STR s in
      if wait_job_pid s \<noteq> - 1 then (snd (sys_kill (wait_job_pid s) SIGKILL s))\<lparr>foreground_job_killed := True\<rparr> else s)"

text \<open>
  What the alarm handler does for an entry whose time has come. A job that exists can be removed, so that the branch
  of a fault there is never taken.
\<close>

definition expire :: "job_entry \<Rightarrow> shell \<Rightarrow> shell" where
  "expire job s =
     (let (_, s) = waitpid_nohang (pid job) s;
          (alive, s) = sys_kill (pid job) 0 s;
          s = (if alive then
                 let (_, s) = sys_kill (pid job) SIGKILL s in
                 cout ('' timed out!'' @ newline) (cout (cmd_line job) (cout ''smash: '' s))
               else s) in
      if jobExist (job_id job) s then (case removeJobById (job_id job) s of Inr s \<Rightarrow> s | Inl _ \<Rightarrow> s) else s)"

text \<open>The loop of the alarm handler, over the entries of the timeout list in order of their time.\<close>

fun alarm_loop :: "(int \<times> job_entry) list \<Rightarrow> shell \<Rightarrow> (int \<times> job_entry) list \<times> shell" where
  "alarm_loop [] s = ([], s)"
| "alarm_loop ((time1, job) # rest) s =
     (let (now, s) = ask s; diff = time1 - now in
      if 1 \<le> diff then ((time1, job) # rest, s\<lparr>alarms := alarms s @ [diff]\<rparr>) else alarm_loop rest (expire job s))"

definition alarmHandler :: "shell \<Rightarrow> shell" where
  "alarmHandler s =
     (let s = cout ALARM_STR s; (l, s) = alarm_loop (timeout_list s) s in s\<lparr>timeout_list := l\<rparr>)"

section \<open>The main loop\<close>

definition set_handlers :: "shell \<Rightarrow> shell" where
  "set_handlers s =
     (let (a, s) = ask s; s = (if a < 0 then perror ''smash error: failed to set ctrl-Z handler'' s else s);
          (a, s) = ask s; s = (if a < 0 then perror ''smash error: failed to set ctrl-C handler'' s else s);
          (a, s) = ask s in
      if a < 0 then perror ''smash error: failed to set alarm handler'' s else s)"

text \<open>One pass; at the end of the input \<open>getline\<close> leaves an empty line.\<close>

definition main_step :: "runner \<Rightarrow> string \<Rightarrow> shell \<Rightarrow> shell checked" where
  "main_step run l s = checked_bind (executeCommand run l (printPrompt s)) waitForJob"

primrec main_loop :: "nat \<Rightarrow> runner \<Rightarrow> string list \<Rightarrow> shell \<Rightarrow> (bool \<times> shell) checked" where
  "main_loop 0 run input s = Inr (False, s)"
| "main_loop (Suc n) run input s =
     (if exit_shell s then Inr (True, s)
      else checked_bind (main_step run (case input of [] \<Rightarrow> [] | l # _ \<Rightarrow> l) s) (main_loop n run (tl input)))"

definition SmallShell :: "(nat \<Rightarrow> int) \<Rightarrow> (string \<Rightarrow> string option) \<Rightarrow> string \<Rightarrow> (string \<Rightarrow> string \<Rightarrow> string) \<Rightarrow> int \<Rightarrow> shell" where
  "SmallShell ans fs dir res p =
     \<lparr>answers = ans, tick = 0, fds = [Some (Console 0), Some (Console 1), Some (Console 2)], files = fs, outs = [],
      kills = [], started = [], alarms = [], affinities = [], cwd = dir, resolve = res, shell_pid = p,
      old_pwd = False, old_path = [], exit_shell = False, wait_job_pid = - 1, foreground_job_killed = False,
      foreground_job = \<lparr>cmd_line = [], job_id = 0, pid = 0, time_epoch = 0, stopped = False\<rparr>,
      jobs_list = [], timeout_list = [], m_prompt_name = ''smash'', min_completion_time = 0\<rparr>"

section \<open>Steps\<close>

datatype event = Line string | Waited | CtrlC | CtrlZ | Alarm

text \<open>
  The steps of the shell: a line is read and executed, the wait for the foreground process ends, or a handler runs.
\<close>

inductive shell_step :: "nat \<Rightarrow> event \<Rightarrow> shell \<Rightarrow> shell \<Rightarrow> bool" where
  line: "\<not> exit_shell s \<Longrightarrow> executeCommand (execute n) l (printPrompt s) = Inr s' \<Longrightarrow> shell_step n (Line l) s s'"
| waited: "waitForJob s = Inr s' \<Longrightarrow> shell_step n Waited s s'"
| ctrl_c: "shell_step n CtrlC s (ctrlCHandler s)"
| ctrl_z: "shell_step n CtrlZ s (ctrlZHandler s)"
| alarm: "shell_step n Alarm s (alarmHandler s)"

inductive shell_runs :: "nat \<Rightarrow> event list \<Rightarrow> shell \<Rightarrow> shell \<Rightarrow> bool" where
  start: "shell_runs n [] s s"
| more: "shell_runs n es s s' \<Longrightarrow> shell_step n e s' s'' \<Longrightarrow> shell_runs n (es @ [e]) s s''"

inductive_cases shell_step_elims: "shell_step n e s s'"

end
