(* ===== verification/Shell_Invariant.thy ===== *)
theory Shell_Invariant
  imports Shell_Main
begin

text \<open>
  The invariant of the shell: the job list is in order of the identifiers, every job is stored under its own
  identifier and the identifiers are positive. The locale \<open>shell_invariant\<close> states what an invariant of the shell has to
  promise for single commands, and shows that every command line then keeps it, however commands are nested; its
  interpretation is on \<open>shell_ok\<close>.
\<close>

section \<open>System calls leave the shell's own state alone\<close>

named_theorems frame

abbreviation own :: "shell \<Rightarrow> _" where
  "own s \<equiv> world.more s"

lemma own_ask [frame]: "own (snd (ask s)) = own s"
  by (simp add: ask_def)

lemma own_put_text [frame]: "own (put_text fd t s) = own s"
  by (simp add: put_text_def split: option.split)

lemma own_print [frame]: "own (cout t s) = own s" "own (cerr t s) = own s" "own (perror t s) = own s"
  by (simp_all add: cout_def cerr_def perror_def frame)

lemma own_take_fd [frame]: "own (snd (take_fd f s)) = own s"
  by (simp add: take_fd_def)

lemma own_calls [frame]:
  "own (snd (sys_open path mode s)) = own s" "own (snd (sys_dup fd s)) = own s" "own (snd (sys_dup2 fd fd' s)) = own s"
  "own (snd (sys_close fd s)) = own s" "own (snd (sys_pipe s)) = own s" "own (snd (sys_kill p sig s)) = own s"
  "own (snd (waitpid_nohang p s)) = own s" "own (snd (get_current_dir_name s)) = own s" "own (snd (cmd_line_copy l s)) = own s"
  "own (CloseFd c s) = own s" "own (snd (JobEntry l p s)) = own s" "own (snd (fork_exec args c s)) = own s"
  "own (report t (sys_close fd s)) = own s" "own (report t (sys_dup2 fd fd' s)) = own s"
proof -
  note defs = sys_open_def sys_dup_def sys_dup2_def sys_close_def sys_pipe_def sys_kill_def waitpid_nohang_def
    get_current_dir_name_def cmd_line_copy_def JobEntry_def fork_exec_def Let_def case_prod_unfold frame
  show c: "own (snd (sys_close fd s)) = own s" for fd s by (simp add: defs split: option.split)
  show d: "own (snd (sys_dup2 fd fd' s)) = own s" by (simp add: defs split: option.split)
  show "own (snd (sys_open path mode s)) = own s" by (simp add: defs)
  show "own (snd (sys_dup fd s)) = own s" by (simp add: defs split: option.split)
  show "own (snd (sys_pipe s)) = own s" by (simp add: defs)
  show "own (snd (sys_kill p sig s)) = own s" by (simp add: defs)
  show "own (snd (waitpid_nohang p s)) = own s" by (simp add: defs)
  show "own (snd (get_current_dir_name s)) = own s" by (simp add: defs)
  show "own (snd (cmd_line_copy l s)) = own s" by (simp add: defs)
  show "own (CloseFd c s) = own s" by (simp add: CloseFd_def defs(10-) c split: option.split)
  show "own (snd (JobEntry l p s)) = own s" by (simp add: defs)
  show "own (snd (fork_exec args c s)) = own s" by (simp add: defs)
  show "own (report t (sys_close fd s)) = own s" "own (report t (sys_dup2 fd fd' s)) = own s"
    by (simp_all add: report_def c d frame)
qed

lemma own_append_file [frame]: "own (append_file path t s) = own s"
  by (simp add: append_file_def)

lemma own_WriteWrapper [frame]: "own (snd (WriteWrapper path buf s)) = own s"
proof (induction "length buf" arbitrary: buf s rule: less_induct)
  case less
  let ?k = "write_some buf (fst (ask s))"
  have "length (drop ?k buf) < length buf" if "drop ?k buf \<noteq> []" using that by (auto simp: write_some_def)
  then show ?case using less by (subst WriteWrapper.simps) (simp add: Let_def case_prod_unfold frame)
qed

lemma own_fare [frame]:
  "own (close_both a b s) = own s"
  "own (snd (fare_loop fuel pat rep src tmp f d pos n s)) = own s"
  "own (fare_finish path tmp pat f d n s) = own s"
  "own (FareCommand_execute args s) = own s"
proof -
  show c: "own (close_both a b s) = own s" for a b s by (simp add: close_both_def Let_def case_prod_unfold frame)
  show l: "own (snd (fare_loop fuel pat rep src tmp f d pos n s)) = own s" for fuel pat rep src tmp f d pos n s
    by (induction fuel arbitrary: pos n s) (simp_all add: fare_loop.simps Let_def case_prod_unfold c frame)
  show f: "own (fare_finish path tmp pat f d n s) = own s" for path tmp pat f d n s
    by (simp add: fare_finish_def Let_def case_prod_unfold frame)
  show "own (FareCommand_execute args s) = own s"
    by (simp add: FareCommand_execute_def Let_def case_prod_unfold c l f frame split: option.split)
qed

lemma own_fields:
  assumes "own s' = own s"
  shows "jobs_list s' = jobs_list s" "timeout_list s' = timeout_list s" "foreground_job s' = foreground_job s"
    "wait_job_pid s' = wait_job_pid s" "exit_shell s' = exit_shell s"
    "min_completion_time s' = min_completion_time s"
  using assms by (cases s; cases s'; simp)+

section \<open>The invariant\<close>

definition jobs_ok :: "(int \<times> job_entry) list \<Rightarrow> bool" where
  "jobs_ok l \<longleftrightarrow> ordered l \<and> list_all (\<lambda>(k, job). job_id job = k \<and> 1 \<le> k) l"

definition foreground_ok :: "job_entry \<Rightarrow> bool" where
  "foreground_ok job \<longleftrightarrow> job_id job = - 1 \<or> 1 \<le> job_id job"

definition shell_ok :: "shell \<Rightarrow> bool" where
  "shell_ok s \<longleftrightarrow> jobs_ok (jobs_list s) \<and> ordered (timeout_list s)
     \<and> (wait_job_pid s = - 1 \<or> foreground_ok (foreground_job s))"

lemma shell_ok_own: "own s' = own s \<Longrightarrow> shell_ok s' = shell_ok s"
  by (simp add: shell_ok_def own_fields [of s' s])

lemma jobs_ok_Nil [simp]: "jobs_ok []"
  by (simp add: jobs_ok_def ordered_def)

lemma jobs_ok_put: "jobs_ok l \<Longrightarrow> job_id job = k \<Longrightarrow> 1 \<le> k \<Longrightarrow> jobs_ok (map_put k job l)"
  by (auto simp: jobs_ok_def list_all_iff jm.ok_put dest!: map_put_set)

lemma subseq_subset: "subseq xs ys \<Longrightarrow> set xs \<subseteq> set ys"
  using list_emb_set [of "(=)" xs ys] by blast

lemma jobs_ok_subseq: "jobs_ok l \<Longrightarrow> subseq l' l \<Longrightarrow> jobs_ok l'"
proof -
  assume ok: "jobs_ok l" and sub: "subseq l' l"
  have "sorted_wrt (<) (map fst l')" using sub ok unfolding jobs_ok_def ordered_def
  proof (induction rule: list_emb.induct)
    case (list_emb_Cons2 x y xs ys)
    then show ?case using subseq_subset [of xs ys] by (auto simp: list_all_iff)
  qed (auto simp: list_all_iff)
  then show "jobs_ok l'" using ok sub by (auto simp: jobs_ok_def ordered_def list_all_iff dest!: subseq_subset)
qed

lemma jobs_ok_single: "jobs_ok [(k, job)] \<longleftrightarrow> job_id job = k \<and> 1 \<le> k"
  by (simp add: jobs_ok_def ordered_def)

lemma jobs_ok_erase: "jobs_ok l \<Longrightarrow> jobs_ok (map_erase k l)"
  by (erule jobs_ok_subseq) (simp add: map_erase_def)

lemma jobs_ok_butlast: "jobs_ok l \<Longrightarrow> jobs_ok (butlast l)"
  by (erule jobs_ok_subseq) (simp add: prefix_imp_subseq prefixeq_butlast)

lemma jobs_ok_get: "jobs_ok l \<Longrightarrow> map_of l k = Some job \<Longrightarrow> job_id job = k \<and> 1 \<le> k"
  by (auto simp: jobs_ok_def list_all_iff dest!: map_of_SomeD)

lemma jobs_ok_last: "jobs_ok l \<Longrightarrow> l \<noteq> [] \<Longrightarrow> job_id (snd (last l)) = fst (last l) \<and> 1 \<le> fst (last l)"
  by (auto simp: jobs_ok_def list_all_iff case_prod_unfold)

lemma remove_finished_facts:
  "subseq (fst (remove_finished l s)) l" "own (snd (remove_finished l s)) = own s"
  by (induction l arbitrary: s) (auto simp: Let_def case_prod_unfold frame intro: list_emb_Cons)

section \<open>Job operations\<close>

lemma addJob_ok:
  assumes "shell_ok s" "foreground_ok job"
  shows "shell_ok (addJob job s)"
  using assms jobs_ok_last [of "jobs_list s"] by (auto simp: shell_ok_def addJob_def foreground_ok_def Let_def jobs_ok_single intro!: jobs_ok_put)

lemma removeFinishedJobs_ok: "shell_ok s \<Longrightarrow> shell_ok (removeFinishedJobs s)"
  using remove_finished_facts [of "jobs_list s" s] own_fields [OF remove_finished_facts(2) [of "jobs_list s" s]]
  by (auto simp: removeFinishedJobs_def Let_def case_prod_unfold shell_ok_def elim: jobs_ok_subseq)

lemma removeJobById_ok: "shell_ok s \<Longrightarrow> removeJobById i s = Inr s' \<Longrightarrow> shell_ok s'"
  by (auto simp: removeJobById_def shell_ok_def jobs_ok_erase jobs_ok_butlast split: if_splits)

lemma getJobById_ok: "shell_ok s \<Longrightarrow> getJobById i s = Inr job \<Longrightarrow> 1 \<le> job_id job \<and> foreground_ok job"
  using jobs_ok_last [of "jobs_list s"] jobs_ok_get [of "jobs_list s"]
  by (auto simp: getJobById_def shell_ok_def foreground_ok_def split: if_splits option.splits)

lemma update_job_ok: "shell_ok s \<Longrightarrow> (\<And>job. job_id (f job) = job_id job) \<Longrightarrow> shell_ok (update_job k f s)"
  using jobs_ok_get [of "jobs_list s" k] by (auto simp: update_job_def shell_ok_def intro!: jobs_ok_put split: option.split)

lemma own_printJobsList [frame]: "own (printJobsList s) = own s"
proof -
  have "own (foldl (\<lambda>s e. cout (job_line p (snd e)) s) s l) = own s" for p s and l :: "(int \<times> job_entry) list"
    by (induction l arbitrary: s) (simp_all add: frame)
  then show ?thesis by (simp add: printJobsList_def Let_def case_prod_unfold frame)
qed

lemma own_kill_jobs [frame]: "own (kill_jobs l s) = own s"
  by (induction l arbitrary: s) (simp_all add: Let_def case_prod_unfold frame)

section \<open>Invariants of command lines\<close>

definition nests :: "command \<Rightarrow> bool" where
  "nests c \<longleftrightarrow> (case c of Redirection _ _ _ \<Rightarrow> True | Pipe _ _ _ \<Rightarrow> True | Timeout _ _ \<Rightarrow> True | _ \<Rightarrow> False)"

definition keeps :: "(shell \<Rightarrow> bool) \<Rightarrow> runner \<Rightarrow> bool" where
  "keeps I run \<longleftrightarrow> (\<forall>c fd s j s'. I s \<longrightarrow> run c fd s = Inr (j, s') \<longrightarrow> I s')"

lemma checked_bind_Inr: "checked_bind m f = Inr y \<longleftrightarrow> (\<exists>x. m = Inr x \<and> f x = Inr y)"
  by (cases m) auto

locale shell_invariant =
  fixes I :: "shell \<Rightarrow> bool"
  assumes own_cong: "own s' = own s \<Longrightarrow> I s \<Longrightarrow> I s'"
    and single: "I s \<Longrightarrow> \<not> nests c \<Longrightarrow> execute_with run c fd s = Inr (j, s') \<Longrightarrow> I s'"
    and timed: "I s \<Longrightarrow> I (add_timeout l t job s)"
begin

lemma reported: "I s \<Longrightarrow> I (report t (sys_close fd s))" "I s \<Longrightarrow> I (report t (sys_dup2 fd fd' s))"
  by (auto intro: own_cong simp: frame)

lemma run_command_keeps:
  "keeps I run \<Longrightarrow> I s \<Longrightarrow> run_command run fd c s = Inr s' \<Longrightarrow> I s'"
  unfolding keeps_def run_command_def by (auto simp: checked_bind_Inr split: option.splits)

lemma executeCommand_keeps:
  "keeps I run \<Longrightarrow> I s \<Longrightarrow> executeCommand run l s = Inr s' \<Longrightarrow> I s'"
  unfolding executeCommand_def by (auto simp: checked_bind_Inr intro: run_command_keeps)

lemma redirection_keeps:
  assumes "keeps I run" "I s" "RedirectionCommand_execute run l name a s = Inr s'"
  shows "I s'"
proof -
  have k: "own t = own s \<Longrightarrow> executeCommand run l t = Inr t' \<Longrightarrow> I t'" for t t'
    using executeCommand_keeps [OF assms(1)] own_cong [OF _ assms(2)] by blast
  show ?thesis
    using assms(3) unfolding RedirectionCommand_execute_def Let_def case_prod_unfold
    by (auto simp: checked_bind_Inr frame dest!: k [rotated] intro!: reported intro: own_cong [OF _ assms(2)] split: option.splits if_splits)
qed

lemma pipe_side_keeps:
  assumes run: "\<And>t t'. own t = own s \<Longrightarrow> run t = Inr t' \<Longrightarrow> I t'" and "I s" "pipe_side run p std saved s = Inr s'"
  shows "I s'"
  using assms(3) unfolding pipe_side_def Let_def case_prod_unfold
  by (auto simp: checked_bind_Inr frame dest!: run [rotated] intro!: reported intro: own_cong [OF _ assms(2)] split: if_splits)

lemma pipe_keeps:
  assumes "keeps I run" "I s" "PipeCommand_execute run l1 l2 std s = Inr s'"
  shows "I s'"
proof -
  have side: "I t \<Longrightarrow> pipe_side (run_command run fd c) p n saved t = Inr t' \<Longrightarrow> I t'" for t t' fd c p n saved
    by (rule pipe_side_keeps [of t "run_command run fd c"]) (auto intro: run_command_keeps [OF assms(1)] own_cong)
  have o: "own t = own s \<Longrightarrow> I t" for t using own_cong [OF _ assms(2)] by blast
  show ?thesis
    using assms(3) unfolding PipeCommand_execute_def Let_def case_prod_unfold
    by (auto simp: checked_bind_Inr frame dest!: side [rotated] intro: o split: option.splits)
qed

lemma timeout_keeps:
  assumes "keeps I run" "I s" "TimeoutCommand_execute run args l s = Inr s'"
  shows "I s'"
proof -
  have r: "run c None s = Inr (j, t) \<Longrightarrow> I t" for c j t using assms(1,2) unfolding keeps_def by blast
  show ?thesis
    using assms(3) unfolding TimeoutCommand_execute_def
    by (auto simp: checked_bind_Inr frame intro: own_cong [OF _ assms(2)] assms(2) r timed [OF r] split: if_splits option.splits)
qed

lemma execute_keeps: "keeps I (execute n)"
proof (induction n)
  case (Suc n)
  show ?case unfolding keeps_def
  proof (intro allI impI)
    fix c fd s j s' assume i: "I s" and e: "execute (Suc n) c fd s = Inr (j, s')"
    show "I s'"
    proof (cases "nests c")
      case True
      then show ?thesis using e redirection_keeps [OF Suc i] pipe_keeps [OF Suc i] timeout_keeps [OF Suc i]
        by (auto simp: execute_with_def no_child_def nests_def checked_bind_Inr split: command.splits)
    next
      case False
      then show ?thesis using e i single by simp
    qed
  qed
qed (simp add: keeps_def)

lemma line_keeps: "I s \<Longrightarrow> executeCommand (execute n) l s = Inr s' \<Longrightarrow> I s'"
  by (rule executeCommand_keeps [OF execute_keeps])

end

section \<open>The invariant is kept\<close>

lemmas through = shell_ok_own [THEN iffD2]

lemma shell_ok_quiet:
  assumes "shell_ok s"
  shows "shell_ok (ChangePromptCommand_execute args s)" "shell_ok (ShowPidCommand_execute s)"
    "shell_ok (GetCurrDirCommand_execute s)" "shell_ok (JobsCommand_execute s)" "shell_ok (QuitCommand_execute args s)"
    "shell_ok (FareCommand_execute args s)"
proof -
  have upd: "shell_ok (t\<lparr>m_prompt_name := x\<rparr>) = shell_ok t" "shell_ok (t\<lparr>exit_shell := b\<rparr>) = shell_ok t" for t x b
    by (simp_all add: shell_ok_def)
  show "shell_ok (ChangePromptCommand_execute args s)"
    using assms by (simp add: ChangePromptCommand_execute_def changePromptName_def upd)
  show "shell_ok (ShowPidCommand_execute s)" "shell_ok (FareCommand_execute args s)"
    by (rule through [OF _ assms], simp add: ShowPidCommand_execute_def frame)+
  show "shell_ok (GetCurrDirCommand_execute s)"
    by (rule through [OF _ assms]) (simp add: GetCurrDirCommand_execute_def Let_def case_prod_unfold frame split: option.split)
  show "shell_ok (JobsCommand_execute s)"
    unfolding JobsCommand_execute_def by (rule through [OF own_printJobsList]) (rule removeFinishedJobs_ok [OF assms])
  show "shell_ok (QuitCommand_execute args s)"
    unfolding QuitCommand_execute_def Let_def upd
    by (rule through [OF _ removeFinishedJobs_ok [OF assms]]) (simp add: killAllJobs_def frame)
qed

lemma ChangeDir_ok: "shell_ok s \<Longrightarrow> ChangeDirCommand_execute args s = Inr s' \<Longrightarrow> shell_ok s'"
proof -
  assume ok: "shell_ok s" and e: "ChangeDirCommand_execute args s = Inr s'"
  have upd: "shell_ok (t\<lparr>cwd := w, old_path := x, old_pwd := b\<rparr>)" if "own t = own s" for t w x b
    using through [OF that ok] by (simp add: shell_ok_def)
  show ?thesis
    using e unfolding ChangeDirCommand_execute_def Let_def case_prod_unfold
    by (auto simp: frame intro!: upd intro: through [OF _ ok] split: if_splits option.splits)
qed

lemma Foreground_ok: "shell_ok s \<Longrightarrow> ForegroundCommand_execute args s = Inr s' \<Longrightarrow> shell_ok s'"
proof -
  assume ok: "shell_ok s" and e: "ForegroundCommand_execute args s = Inr s'"
  let ?s = "removeFinishedJobs s"
  note rok = removeFinishedJobs_ok [OF ok]
  have fin: "shell_ok (cout x (snd (sys_kill p SIGCONT (t\<lparr>wait_job_pid := p\<rparr>))))"
    if "getJobById i ?s = Inr job" "removeJobById i (?s\<lparr>foreground_job := job\<rparr>) = Inr t" for i job t p x
  proof -
    have "foreground_ok job" using getJobById_ok [OF rok that(1)] by simp
    then have "shell_ok (?s\<lparr>foreground_job := job\<rparr>)" "foreground_job t = job"
      using rok that(2) by (auto simp: shell_ok_def removeJobById_def split: if_splits)
    then have "shell_ok (t\<lparr>wait_job_pid := p\<rparr>)"
      using removeJobById_ok [OF _ that(2)] \<open>foreground_ok job\<close> by (simp add: shell_ok_def)
    then show ?thesis by (rule through [rotated]) (simp add: frame)
  qed
  show ?thesis
    using e unfolding ForegroundCommand_execute_def Let_def case_prod_unfold
    by (auto simp: checked_bind_Inr frame intro: through [OF _ ok] through [OF _ rok] fin split: if_splits)
qed

lemma resume_job_ok: "shell_ok s \<Longrightarrow> shell_ok (resume_job k job s)"
  unfolding resume_job_def Let_def case_prod_unfold
  by (rule through [OF own_print(1)], rule update_job_ok, rule through) (simp_all add: frame)

lemma Background_ok: "shell_ok s \<Longrightarrow> BackgroundCommand_execute args s = Inr s' \<Longrightarrow> shell_ok s'"
proof -
  assume ok: "shell_ok s" and e: "BackgroundCommand_execute args s = Inr s'"
  note rok = removeFinishedJobs_ok [OF ok]
  show ?thesis
    using e unfolding BackgroundCommand_execute_def Let_def
    by (auto simp: checked_bind_Inr frame intro: through [OF _ ok] through [OF _ rok] resume_job_ok [OF rok] split: if_splits)
qed

lemma Kill_ok: "shell_ok s \<Longrightarrow> KillCommand_execute args s = Inr s' \<Longrightarrow> shell_ok s'"
proof -
  assume ok: "shell_ok s" and e: "KillCommand_execute args s = Inr s'"
  note rok = removeFinishedJobs_ok [OF ok]
  have up: "shell_ok (update_job i (\<lambda>job. job\<lparr>stopped := b\<rparr>) t)" if "own t = own (removeFinishedJobs s)" for i b t
    by (rule update_job_ok) (use through [OF that rok] in simp_all)
  have rem: "shell_ok t'" if "removeJobById i t = Inr t'" "own t = own (removeFinishedJobs s)" for i t t'
    using removeJobById_ok [OF through [OF that(2) rok] that(1)] .
  show ?thesis
    using e unfolding KillCommand_execute_def Let_def case_prod_unfold
    by (auto simp: checked_bind_Inr frame dest!: rem intro: up through [OF _ ok] through [OF _ rok] split: if_splits)
qed

lemma Setcore_ok: "shell_ok s \<Longrightarrow> SetcoreCommand_execute args s = Inr s' \<Longrightarrow> shell_ok s'"
proof -
  assume ok: "shell_ok s" and e: "SetcoreCommand_execute args s = Inr s'"
  note rok = removeFinishedJobs_ok [OF ok]
  show ?thesis
    using e unfolding SetcoreCommand_execute_def Let_def case_prod_unfold
    by (auto simp: checked_bind_Inr frame intro: through [OF _ ok] through [OF _ rok] split: if_splits)
qed

lemma External_ok: "shell_ok s \<Longrightarrow> ExternalCommand_execute l fd s = Inr (job, s') \<Longrightarrow> shell_ok s'"
proof -
  assume ok: "shell_ok s" and e: "ExternalCommand_execute l fd s = Inr (job, s')"
  have args: "own t' = own t" if "external_args l c t = Inr (a, t')" for c t a t'
    using that by (auto simp: external_args_def Let_def case_prod_unfold checked_bind_Inr frame split: if_splits)
  have entry: "foreground_ok (fst (JobEntry l p t))" for p t by (simp add: JobEntry_def case_prod_unfold Let_def foreground_ok_def)
  have add: "shell_ok (addJob (fst (JobEntry l p t)) t')" if "own t' = own s" for p t t'
    by (rule addJob_ok [OF through [OF that ok] entry])
  have fg: "shell_ok (t'\<lparr>foreground_job := fst (JobEntry l p t), wait_job_pid := p\<rparr>)" if "own t' = own s" for p t t'
    using through [OF that ok] entry by (simp add: shell_ok_def)
  show ?thesis
    using e unfolding ExternalCommand_execute_def Let_def case_prod_unfold
    by (auto simp: checked_bind_Inr frame dest!: args intro!: add fg split: option.splits if_splits)
qed

lemma add_timeout_ok: "shell_ok s \<Longrightarrow> shell_ok (add_timeout l t job s)"
proof -
  assume ok: "shell_ok s"
  let ?a = "snd (ask s)"
  have o: "ordered (map_insert k v (timeout_list ?a))" for k v
    using ok own_fields [OF own_ask [of s]] by (simp add: shell_ok_def map_insert_def jm.ok_put)
  have "shell_ok ?a" using through [OF own_ask ok] .
  then have "shell_ok (?a\<lparr>timeout_list := map_insert k v (timeout_list ?a)\<rparr>)"
      "shell_ok (?a\<lparr>alarms := x, min_completion_time := y, timeout_list := map_insert k v (timeout_list ?a)\<rparr>)" for x y k v
    using o by (simp_all add: shell_ok_def)
  then show ?thesis
    unfolding add_timeout_def Let_def case_prod_unfold by (auto intro!: update_job_ok)
qed

interpretation so: shell_invariant shell_ok
proof
  fix s s' c run fd j l t job
  show "own s' = own s \<Longrightarrow> shell_ok s \<Longrightarrow> shell_ok s'" by (rule through)
  show "shell_ok s \<Longrightarrow> shell_ok (add_timeout l t job s)" by (rule add_timeout_ok)
  assume "shell_ok s" "\<not> nests c" "execute_with run c fd s = Inr (j, s')"
  then show "shell_ok s'"
    by (auto simp: execute_with_def nests_def no_child_def checked_bind_Inr shell_ok_quiet
        dest: ChangeDir_ok Foreground_ok Background_ok Kill_ok Setcore_ok External_ok split: command.splits)
qed

end
