(* ===== verification/Shell_Descriptors.thy ===== *)
theory Shell_Descriptors
  imports Shell_Main Shell_Invariant
begin

text \<open>
  The descriptor table of the shell: when no system call fails, every command line leaves the table as it found it,
  redirections and pipes included. \<open>fdt\<close> is the table as a function of the descriptor.
\<close>

section \<open>The table\<close>

definition fdt :: "shell \<Rightarrow> nat \<Rightarrow> open_file option" where
  "fdt s fd = fd_file fd s"

definition kept :: "shell \<Rightarrow> (nat \<Rightarrow> open_file option) \<times> (nat \<Rightarrow> int)" where
  "kept s = (fdt s, answers s)"

lemma kept_eq: "fds s' = fds s \<Longrightarrow> answers s' = answers s \<Longrightarrow> kept s' = kept s"
  by (simp add: kept_def fdt_def fd_file_def fun_eq_iff)

lemma kept_fdt: "kept s' = kept s \<Longrightarrow> fdt s' = fdt s" "kept s' = kept s \<Longrightarrow> answers_well s' = answers_well s"
  by (simp_all add: kept_def answers_well_def)

lemma set_fd_get: "fd_file fd (s\<lparr>fds := set_fd n v (fds s)\<rparr>) = (if fd = n then v else fd_file fd s)"
  by (auto simp: fd_file_def set_fd_def nth_append nth_list_update)

lemma fdt_set_fd: "fdt (s\<lparr>fds := set_fd n v (fds s)\<rparr>) = (fdt s)(n := v)"
  by (simp add: fdt_def fun_eq_iff set_fd_get)

lemma fdt_lowest_free: "fdt s (lowest_free (fds s)) = None"
  by (simp add: fdt_def fd_file_def lowest_free_None)

section \<open>Calls that succeed\<close>

lemma ask_fdt: "answers_well s \<Longrightarrow> 0 \<le> fst (ask s) \<and> fdt (snd (ask s)) = fdt s \<and> answers (snd (ask s)) = answers s
    \<and> files (snd (ask s)) = files s"
  by (simp add: ask_def answers_well_def fdt_def fd_file_def fun_eq_iff)

lemma take_fd_fdt:
  "fdt s (fst (take_fd f s)) = None" "fdt (snd (take_fd f s)) = (fdt s)(fst (take_fd f s) \<mapsto> f)"
  "answers (snd (take_fd f s)) = answers s"
  by (simp_all add: take_fd_def fdt_set_fd fdt_lowest_free)

lemma fdt_files [simp]: "fdt (s\<lparr>files := x\<rparr>) = fdt s"
  by (simp add: fdt_def fd_file_def fun_eq_iff)

lemma sys_open_fdt:
  assumes "answers_well s" "sys_open path mode s = (r, s')"
  shows "answers s' = answers s \<and> (case r of None \<Rightarrow> mode = ReadOnly \<and> fdt s' = fdt s
    | Some fd \<Rightarrow> fdt s fd = None \<and> fdt s' = (fdt s)(fd \<mapsto> Path path))"
proof -
  have a: "0 \<le> fst (ask s)" "fdt (snd (ask s)) = fdt s" "answers (snd (ask s)) = answers s"
    using ask_fdt [OF assms(1)] by simp_all
  have fresh: "fdt s (fst (take_fd (Path path) (snd (ask s)\<lparr>files := x\<rparr>))) = None" for x
    using take_fd_fdt(1) [where s = "snd (ask s)\<lparr>files := x\<rparr>"] a(2) by simp
  show ?thesis
    using a assms(2) unfolding sys_open_def Let_def case_prod_unfold
    by (cases "fst (ask s) < 0 \<or> mode = ReadOnly \<and> files (snd (ask s)) path = None") (auto simp: take_fd_fdt fresh)
qed

lemma sys_dup_fdt:
  assumes "answers_well s" "fdt s fd = Some f"
  obtains n s' where "sys_dup fd s = (Some n, s')" "answers s' = answers s" "fdt s n = None" "fdt s' = (fdt s)(n \<mapsto> f)"
proof -
  let ?a = "snd (ask s)"
  have "fd_file fd ?a = Some f" using ask_fdt [OF assms(1)] assms(2) by (metis fdt_def)
  then have "sys_dup fd s = (Some (fst (take_fd f ?a)), snd (take_fd f ?a))"
    using ask_fdt [OF assms(1)] by (simp add: sys_dup_def Let_def case_prod_unfold)
  then show thesis using that take_fd_fdt [where s = ?a and f = f] ask_fdt [OF assms(1)] by metis
qed

lemma sys_dup2_fdt:
  assumes "answers_well s" "fdt s old = Some f"
  obtains s' where "sys_dup2 old new s = (True, s')" "answers s' = answers s" "fdt s' = (fdt s)(new \<mapsto> f)"
proof -
  have "fd_file old (snd (ask s)) = Some f" using ask_fdt [OF assms(1)] assms(2) by (metis fdt_def)
  then show thesis
    using that [of "snd (sys_dup2 old new s)"] ask_fdt [OF assms(1)]
    by (simp add: sys_dup2_def Let_def case_prod_unfold fdt_set_fd)
qed

lemma sys_close_fdt:
  assumes "answers_well s" "fdt s fd = Some f"
  obtains s' where "sys_close fd s = (True, s')" "answers s' = answers s" "fdt s' = (fdt s)(fd := None)"
proof -
  have "fd_file fd (snd (ask s)) = Some f" using ask_fdt [OF assms(1)] assms(2) by (metis fdt_def)
  then show thesis
    using that [of "snd (sys_close fd s)"] ask_fdt [OF assms(1)]
    by (simp add: sys_close_def Let_def case_prod_unfold fdt_set_fd)
qed

lemma sys_pipe_fdt:
  assumes "answers_well s"
  obtains r w s' P Q where "sys_pipe s = (Some (r, w), s')" "answers s' = answers s" "r \<noteq> w" "fdt s r = None" "fdt s w = None"
    "fdt s' = (fdt s)(r \<mapsto> P, w \<mapsto> Q)"
proof -
  let ?t = "take_fd (PipeRead (tick s)) (snd (ask s))"
  let ?u = "take_fd (PipeWrite (tick s)) (snd ?t)"
  have e: "sys_pipe s = (Some (fst ?t, fst ?u), snd ?u)"
    using ask_fdt [OF assms] by (simp add: sys_pipe_def Let_def case_prod_unfold)
  have t: "fdt s (fst ?t) = None" "fdt (snd ?t) = (fdt s)(fst ?t \<mapsto> PipeRead (tick s))" "answers (snd ?t) = answers s"
    using take_fd_fdt [where s = "snd (ask s)" and f = "PipeRead (tick s)"] ask_fdt [OF assms] by simp_all
  have u: "fdt (snd ?t) (fst ?u) = None" "fdt (snd ?u) = (fdt (snd ?t))(fst ?u \<mapsto> PipeWrite (tick s))"
    "answers (snd ?u) = answers (snd ?t)" by (rule take_fd_fdt)+
  have "fst ?u \<noteq> fst ?t" "fdt s (fst ?u) = None" using u(1) t(2) by (metis fun_upd_same option.distinct(1), metis fun_upd_def option.distinct(1) t(2) u(1))
  then show thesis using that [OF e] t u by metis
qed

section \<open>Commands that leave the table alone\<close>

named_theorems quiet

lemma kept_ask [quiet]: "kept (snd (ask s)) = kept s"
  by (rule kept_eq) (simp_all add: ask_def)

lemma kept_put_text [quiet]: "kept (put_text fd t s) = kept s"
  by (rule kept_eq) (simp_all add: put_text_def split: option.split)

lemma kept_print [quiet]: "kept (cout t s) = kept s" "kept (cerr t s) = kept s" "kept (perror t s) = kept s"
  by (simp_all add: cout_def cerr_def perror_def quiet)

lemma kept_fields [quiet]:
  "kept (s\<lparr>jobs_list := jl\<rparr>) = kept s" "kept (s\<lparr>kills := ks\<rparr>) = kept s" "kept (s\<lparr>started := st\<rparr>) = kept s"
  "kept (s\<lparr>affinities := af\<rparr>) = kept s" "kept (s\<lparr>files := fs\<rparr>) = kept s" "kept (s\<lparr>foreground_job := job\<rparr>) = kept s"
  "kept (s\<lparr>wait_job_pid := p\<rparr>) = kept s" "kept (s\<lparr>exit_shell := b\<rparr>) = kept s" "kept (s\<lparr>m_prompt_name := x\<rparr>) = kept s"
  "kept (s\<lparr>cwd := x\<rparr>) = kept s" "kept (s\<lparr>old_path := x\<rparr>) = kept s" "kept (s\<lparr>old_pwd := b\<rparr>) = kept s"
  "kept (s\<lparr>alarms := al\<rparr>) = kept s" "kept (s\<lparr>min_completion_time := m\<rparr>) = kept s" "kept (s\<lparr>timeout_list := tl'\<rparr>) = kept s"
  by (rule kept_eq; simp)+

lemma kept_calls [quiet]:
  "kept (snd (sys_kill p sig s)) = kept s" "kept (snd (waitpid_nohang p s)) = kept s"
  "kept (snd (get_current_dir_name s)) = kept s" "kept (snd (cmd_line_copy l s)) = kept s"
  "kept (snd (JobEntry l p s)) = kept s" "kept (snd (fork_exec args c s)) = kept s" "kept (append_file path t s) = kept s"
  by (simp_all add: sys_kill_def waitpid_nohang_def get_current_dir_name_def cmd_line_copy_def JobEntry_def fork_exec_def
      append_file_def Let_def case_prod_unfold quiet)

lemma kept_jobs [quiet]:
  "kept (addJob job s) = kept s" "kept (update_job k f s) = kept s" "kept (removeFinishedJobs s) = kept s"
  "kept (printJobsList s) = kept s" "kept (kill_jobs l s) = kept s" "kept (resume_job k job s) = kept s"
proof -
  have r: "kept (snd (remove_finished l s)) = kept s" for l s
    by (induction l arbitrary: s) (simp_all add: Let_def case_prod_unfold quiet)
  have p: "kept (foldl (\<lambda>s e. cout (job_line p (snd e)) s) s l) = kept s" for p s and l :: "(int \<times> job_entry) list"
    by (induction l arbitrary: s) (simp_all add: quiet)
  show "kept (addJob job s) = kept s" by (simp add: addJob_def Let_def quiet)
  show u: "kept (update_job k f s) = kept s" for k f s by (simp add: update_job_def quiet split: option.split)
  show "kept (removeFinishedJobs s) = kept s" by (simp add: removeFinishedJobs_def Let_def case_prod_unfold quiet r)
  show "kept (printJobsList s) = kept s" by (simp add: printJobsList_def Let_def case_prod_unfold quiet p)
  show "kept (kill_jobs l s) = kept s" by (induction l arbitrary: s) (simp_all add: Let_def case_prod_unfold quiet)
  show "kept (resume_job k job s) = kept s" by (simp add: resume_job_def Let_def case_prod_unfold quiet u)
qed

lemma kept_removeJobById: "removeJobById i s = Inr s' \<Longrightarrow> kept s' = kept s"
  by (auto simp: removeJobById_def quiet split: if_splits)

lemma kept_external_args: "external_args l c s = Inr (a, s') \<Longrightarrow> kept s' = kept s"
  by (auto simp: external_args_def Let_def case_prod_unfold checked_bind_Inr quiet split: if_splits)

lemma kept_add_timeout: "kept (add_timeout l t job s) = kept s"
  by (simp add: add_timeout_def Let_def case_prod_unfold quiet)

definition quiet_command :: "command \<Rightarrow> bool" where
  "quiet_command c \<longleftrightarrow> \<not> nests c \<and> (case c of Fare _ \<Rightarrow> False | _ \<Rightarrow> True)"

lemma kept_builtin:
  "ChangeDirCommand_execute args s = Inr s' \<Longrightarrow> kept s' = kept s"
  "ForegroundCommand_execute args s = Inr s' \<Longrightarrow> kept s' = kept s"
  "BackgroundCommand_execute args s = Inr s' \<Longrightarrow> kept s' = kept s"
  "KillCommand_execute args s = Inr s' \<Longrightarrow> kept s' = kept s"
  "SetcoreCommand_execute args s = Inr s' \<Longrightarrow> kept s' = kept s"
  "ExternalCommand_execute l fd s = Inr (job, s') \<Longrightarrow> kept s' = kept s"
proof -
  show "ChangeDirCommand_execute args s = Inr s' \<Longrightarrow> kept s' = kept s"
    unfolding ChangeDirCommand_execute_def Let_def case_prod_unfold by (auto simp: quiet split: if_splits option.splits)
  show "ForegroundCommand_execute args s = Inr s' \<Longrightarrow> kept s' = kept s"
    unfolding ForegroundCommand_execute_def Let_def case_prod_unfold
    by (auto simp: quiet checked_bind_Inr dest!: kept_removeJobById split: if_splits)
  show "BackgroundCommand_execute args s = Inr s' \<Longrightarrow> kept s' = kept s"
    unfolding BackgroundCommand_execute_def Let_def by (auto simp: quiet checked_bind_Inr split: if_splits)
  show "KillCommand_execute args s = Inr s' \<Longrightarrow> kept s' = kept s"
    unfolding KillCommand_execute_def Let_def case_prod_unfold
    by (auto simp: quiet checked_bind_Inr dest!: kept_removeJobById split: if_splits)
  show "SetcoreCommand_execute args s = Inr s' \<Longrightarrow> kept s' = kept s"
    unfolding SetcoreCommand_execute_def Let_def case_prod_unfold by (auto simp: quiet checked_bind_Inr split: if_splits)
  show "ExternalCommand_execute l fd s = Inr (job, s') \<Longrightarrow> kept s' = kept s"
    unfolding ExternalCommand_execute_def Let_def case_prod_unfold
    by (auto simp: quiet checked_bind_Inr dest!: kept_external_args split: option.splits if_splits)
qed

lemma kept_quiet_command:
  assumes "quiet_command c" "execute_with run c fd s = Inr (j, s')"
  shows "kept s' = kept s"
proof -
  note defs = ChangePromptCommand_execute_def changePromptName_def ShowPidCommand_execute_def GetCurrDirCommand_execute_def
    JobsCommand_execute_def QuitCommand_execute_def killAllJobs_def
  show ?thesis
    using assms by (auto simp: execute_with_def quiet_command_def nests_def no_child_def checked_bind_Inr defs Let_def
        case_prod_unfold quiet dest: kept_builtin split: command.splits option.splits)
qed

section \<open>The command \<open>fare\<close>\<close>

lemma WriteWrapper_kept:
  assumes "answers_well s"
  shows "fst (WriteWrapper path buf s) \<and> kept (snd (WriteWrapper path buf s)) = kept s"
  using assms
proof (induction "length buf" arbitrary: buf s rule: less_induct)
  case less
  let ?k = "write_some buf (fst (ask s))" and ?t = "append_file path (take (write_some buf (fst (ask s))) buf) (snd (ask s))"
  have t: "kept ?t = kept s" by (simp add: quiet)
  have "length (drop ?k buf) < length buf" if "drop ?k buf \<noteq> []" using that by (auto simp: write_some_def)
  then have "drop ?k buf \<noteq> [] \<Longrightarrow> fst (WriteWrapper path (drop ?k buf) ?t) \<and> kept (snd (WriteWrapper path (drop ?k buf) ?t)) = kept s"
    using less kept_fdt(2) [OF t] t by simp
  then show ?case using ask_fdt [OF less.prems] t by (subst (1 2) WriteWrapper.simps) (simp add: Let_def case_prod_unfold quiet)
qed

lemma fare_loop_kept:
  assumes "answers_well s" "length src - pos < fuel"
  shows "\<exists>n' s'. fare_loop fuel pat rep src tmp f d pos n s = (Some n', s') \<and> kept s' = kept s"
  using assms
proof (induction fuel arbitrary: pos n s)
  case (Suc fuel)
  let ?b = "take (length pat) (drop pos src)" and ?a = "snd (ask s)"
  let ?w1 = "WriteWrapper tmp rep ?a" and ?w2 = "WriteWrapper tmp [hd ?b] ?a"
  have a: "0 \<le> fst (ask s)" "kept ?a = kept s" "answers_well ?a"
    using ask_fdt [OF Suc.prems(1)] Suc.prems(1) by (simp_all add: quiet answers_well_def)
  have w: "fst ?w1" "fst ?w2" "kept (snd ?w1) = kept s" "kept (snd ?w2) = kept s"
    using WriteWrapper_kept [OF a(3)] a(2) by simp_all
  have k: "kept (snd (ask (snd ?w2))) = kept s" using w(4) by (simp add: quiet)
  have lseek: "\<not> fst (ask (snd ?w2)) < 0"
    using ask_fdt(1) [of "snd ?w2"] kept_fdt(2) [OF w(4)] Suc.prems(1) by (simp add: answers_well_def)
  have nn: "\<not> fst (ask s) < 0" using a(1) by simp
  note step = fare_loop.simps(2) [of fuel pat rep src tmp f d pos n s, unfolded Let_def case_prod_unfold]
  show ?case
  proof (cases "?b = []")
    case True
    then show ?thesis unfolding step if_not_P [OF nn] True using w a(2) by simp
  next
    case False
    then have "pos < length src" by (metis drop_all not_le take_Nil)
    moreover have "0 < length ?b" using False by blast
    ultimately have l: "length src - (pos + length ?b) < fuel" "length src - (pos + 1) < fuel" using Suc.prems(2) by linarith+
    show ?thesis
    proof (cases "?b = pat")
      case True
      then have "fare_loop (Suc fuel) pat rep src tmp f d pos n s
          = fare_loop fuel pat rep src tmp f d (pos + length ?b) (n + 1) (snd ?w1)"
        unfolding step if_not_P [OF nn] using False w(1) by (simp del: length_take)
      then show ?thesis using Suc.IH [OF _ l(1), of "snd ?w1" "n + 1"] kept_fdt(2) [OF w(3)] Suc.prems(1) w(3) by simp
    next
      case ne: False
      then have "fare_loop (Suc fuel) pat rep src tmp f d pos n s
          = fare_loop fuel pat rep src tmp f d (pos + 1) n (snd (ask (snd ?w2)))"
        unfolding step if_not_P [OF nn] if_not_P [OF ne] using False w(2) lseek by simp
      then show ?thesis using Suc.IH [OF _ l(2), of "snd (ask (snd ?w2))" n] kept_fdt(2) [OF k] Suc.prems(1) k by simp
    qed
  qed
qed simp

lemma fare_finish_fdt:
  assumes "answers_well s" "fdt s f = Some x" "fdt s d = Some y" "f \<noteq> d"
  shows "fdt (fare_finish path tmp pat f d n s) = (fdt s)(f := None, d := None)"
    "answers (fare_finish path tmp pat f d n s) = answers s"
proof -
  obtain s1 where s1: "sys_close f s = (True, s1)" "answers s1 = answers s" "fdt s1 = (fdt s)(f := None)"
    using sys_close_fdt [OF assms(1,2)] by blast
  have "answers_well s1" "fdt s1 d = Some y" using assms s1 by (simp_all add: answers_well_def)
  then obtain s2 where s2: "sys_close d s1 = (True, s2)" "answers s2 = answers s1" "fdt s2 = (fdt s1)(d := None)"
    using sys_close_fdt by blast
  have "kept (fare_finish path tmp pat f d n s) = kept s2"
    unfolding fare_finish_def by (simp add: s1 s2 Let_def case_prod_unfold quiet)
  then show "fdt (fare_finish path tmp pat f d n s) = (fdt s)(f := None, d := None)"
    "answers (fare_finish path tmp pat f d n s) = answers s" using s1 s2 by (simp_all add: kept_def)
qed

lemma fare_kept:
  assumes w: "answers_well s"
  shows "kept (FareCommand_execute args s) = kept s"
proof (cases "length args = 4")
  case True
  let ?path = "args ! 1" and ?tmp = "args ! 1 @ ''_temp''"
  obtain r s1 where o: "sys_open ?tmp Truncate s = (r, s1)" by fastforce
  then obtain d where d: "r = Some d" "answers s1 = answers s" "fdt s d = None" "fdt s1 = (fdt s)(d \<mapsto> Path ?tmp)"
    using sys_open_fdt [OF w o] by (cases r) auto
  have w1: "answers_well s1" using w d(2) by (simp add: answers_well_def)
  obtain r' s2 where o2: "sys_open ?path ReadOnly s1 = (r', s2)" by fastforce
  note f = sys_open_fdt [OF w1 o2]
  have w2: "answers_well s2" using w1 f by (simp add: answers_well_def)
  show ?thesis
  proof (cases r')
    case None
    then have f2: "fdt s2 = fdt s1" "answers s2 = answers s" using f d(2) by simp_all
    then obtain s3 where "sys_close d s2 = (True, s3)" "answers s3 = answers s2" "fdt s3 = (fdt s2)(d := None)"
      using sys_close_fdt [OF w2] d(4) by (metis fun_upd_same)
    then have "kept (snd (sys_close d s2)) = kept s" using f2 d(3,4) by (simp add: kept_def fun_upd_idem)
    then show ?thesis using True o o2 d(1) None by (simp add: FareCommand_execute_def quiet)
  next
    case (Some fd)
    then have f2: "fdt s2 = (fdt s1)(fd \<mapsto> Path ?path)" "fdt s1 fd = None" "answers s2 = answers s" using f d(2) by simp_all
    let ?s3 = "snd (ask s2)"
    have a3: "\<not> fst (ask s2) < 0" "answers_well ?s3" "fdt ?s3 = fdt s2" "answers ?s3 = answers s"
      using ask_fdt [OF w2] w2 f2(3) by (simp_all add: answers_well_def)
    obtain n s4 where l: "fare_loop (Suc (length (the (files ?s3 ?path)))) (args ! 2) (args ! 3) (the (files ?s3 ?path)) ?tmp fd d 0 0 ?s3
        = (Some n, s4)" "kept s4 = kept ?s3"
      using fare_loop_kept [OF a3(2)] by (metis diff_zero lessI)
    have s4: "answers_well s4" "fdt s4 fd = Some (Path ?path)" "fdt s4 d = Some (Path ?tmp)" "fd \<noteq> d"
      using l(2) a3 f2 d by (auto simp: kept_def answers_well_def)
    have "(fdt s4)(fd := None, d := None) = fdt s"
      using l(2) a3(3) f2 d by (auto simp: kept_def fun_eq_iff)
    then have "kept (fare_finish ?path ?tmp (args ! 2) fd d n s4) = kept s"
      using fare_finish_fdt [OF s4] l(2) a3(4) by (simp add: kept_def)
    then show ?thesis using True o o2 d(1) Some a3(1) l(1) by (simp add: FareCommand_execute_def Let_def case_prod_unfold)
  qed
qed (simp add: FareCommand_execute_def quiet)

section \<open>Redirections, pipes and timeouts\<close>

definition fd_ok :: "shell \<Rightarrow> bool" where
  "fd_ok s \<longleftrightarrow> answers_well s \<and> fdt s 0 \<noteq> None \<and> fdt s 1 \<noteq> None \<and> fdt s 2 \<noteq> None"

definition std_ok :: "command \<Rightarrow> bool" where
  "std_ok c \<longleftrightarrow> (case c of Pipe _ _ std \<Rightarrow> std = 1 \<or> std = 2 | _ \<Rightarrow> True)"

definition restores :: "runner \<Rightarrow> bool" where
  "restores run \<longleftrightarrow> (\<forall>c fd s j s'. fd_ok s \<longrightarrow> std_ok c \<longrightarrow> run c fd s = Inr (j, s') \<longrightarrow> kept s' = kept s)"

lemma CreateCommand_std: "CreateCommand l = Inr (Some c) \<Longrightarrow> std_ok c"
  by (auto simp: CreateCommand_def RedirectionCommand_def PipeCommand_def BuiltInCommand_def Let_def std_ok_def
      checked_bind_Inr split: if_splits command.splits)

lemma fd_ok_kept: "kept s' = kept s \<Longrightarrow> fd_ok s' = fd_ok s"
  by (simp add: fd_ok_def kept_def answers_well_def)

lemma fd_ok_low: "fd_ok s \<Longrightarrow> fdt s n = None \<Longrightarrow> n \<notin> {0, 1, 2}"
  unfolding fd_ok_def by (metis empty_iff insert_iff)

lemma report_ok [simp]: "report t (True, s) = s"
  by (simp add: report_def)

lemma run_command_restores:
  assumes "restores run" "fd_ok s" "CreateCommand l = Inr c" "run_command run fd c s = Inr s'"
  shows "kept s' = kept s"
  using assms CreateCommand_std [of l] unfolding restores_def run_command_def
  by (auto simp: checked_bind_Inr split: option.splits)

lemma executeCommand_restores:
  assumes "restores run" "fd_ok s" "executeCommand run l s = Inr s'"
  shows "kept s' = kept s"
  using assms run_command_restores [OF assms(1,2)] by (auto simp: executeCommand_def checked_bind_Inr)

lemma redirection_restores:
  assumes run: "restores run" and ok: "fd_ok s" and e: "RedirectionCommand_execute run l name a s = Inr s'"
  shows "kept s' = kept s"
proof -
  obtain out where out: "fdt s 1 = Some out" using ok by (auto simp: fd_ok_def)
  have w: "answers_well t" if "answers t = answers s" for t using ok that by (simp add: fd_ok_def answers_well_def)
  obtain r s1 where o: "sys_open name (if a then Append else Truncate) s = (r, s1)" by fastforce
  then obtain fd where fd: "r = Some fd" "answers s1 = answers s" "fdt s fd = None" "fdt s1 = (fdt s)(fd \<mapsto> Path name)"
    using sys_open_fdt [OF w [OF refl] o] by (cases r) (auto split: if_splits)
  then have "fdt s1 1 = Some out" using out by auto
  then obtain sv s2 where s2: "sys_dup 1 s1 = (Some sv, s2)" "answers s2 = answers s1" "fdt s1 sv = None"
      "fdt s2 = (fdt s1)(sv \<mapsto> out)"
    using sys_dup_fdt [OF w [OF fd(2)]] by blast
  have "fd \<noteq> sv" "fdt s sv = None" using fd(4) s2(3) by (auto split: if_splits)
  then have ne: "fd \<noteq> sv" "fd \<notin> {0, 1, 2}" "sv \<notin> {0, 1, 2}" using fd_ok_low [OF ok] fd(3) by blast+
  have "fdt s2 fd = Some (Path name)" using fd(4) s2(4) ne by simp
  then obtain s3 where s3: "sys_dup2 fd 1 s2 = (True, s3)" "answers s3 = answers s2" "fdt s3 = (fdt s2)(1 \<mapsto> Path name)"
    using sys_dup2_fdt [OF w] fd(2) s2(2) by metis
  have ok3: "fd_ok s3" using ok fd s2 s3 by (simp add: fd_ok_def answers_well_def)
  obtain s4 where s4: "executeCommand run l s3 = Inr s4"
      "s' = report ''smash error: close failed'' (sys_close sv (report ''smash error: dup2 failed''
         (sys_dup2 sv 1 (report ''smash error: close failed'' (sys_close fd s4)))))"
    using e o fd(1) s2(1) s3(1) by (auto simp: RedirectionCommand_execute_def Let_def checked_bind_Inr)
  have k4: "fdt s4 = fdt s3" "answers s4 = answers s" using executeCommand_restores [OF run ok3 s4(1)] fd s2 s3 by (simp_all add: kept_def)
  then have "fdt s4 fd = Some (Path name)" using s3(3) s2(4) fd(4) ne by simp
  then obtain s5 where s5: "sys_close fd s4 = (True, s5)" "answers s5 = answers s4" "fdt s5 = (fdt s4)(fd := None)"
    using sys_close_fdt [OF w [OF k4(2)]] by blast
  then have "fdt s5 sv = Some out" "answers s5 = answers s" using k4 s3(3) s2(4) ne by auto
  then obtain s6 where s6: "sys_dup2 sv 1 s5 = (True, s6)" "answers s6 = answers s" "fdt s6 = (fdt s5)(1 \<mapsto> out)"
    using sys_dup2_fdt [OF w] by metis
  then have "fdt s6 sv = Some out" using \<open>fdt s5 sv = Some out\<close> ne by simp
  then obtain s7 where s7: "sys_close sv s6 = (True, s7)" "answers s7 = answers s" "fdt s7 = (fdt s6)(sv := None)"
    using sys_close_fdt [OF w [OF s6(2)]] s6(2) by metis
  have "fdt s7 = fdt s" using s7(3) s6(3) s5(3) k4(1) s3(3) s2(3,4) fd(3,4) out ne by (auto simp: fun_eq_iff)
  then show ?thesis using s4(2) s5(1) s6(1) s7(1,2) by (simp add: kept_def)
qed

lemma pipe_side_restores:
  assumes run: "\<And>t t'. fd_ok t \<Longrightarrow> run t = Inr t' \<Longrightarrow> kept t' = kept t"
    and ok: "fd_ok s" and e: "pipe_side run p std saved s = Inr s'"
    and p: "fdt s p = Some x" "p \<notin> {0, 1, 2}" and sv: "fdt s saved = Some v" "saved \<notin> {0, 1, 2}" "p \<noteq> saved"
    and std: "std \<in> {0, 1, 2}"
  shows "answers s' = answers s \<and> fdt s' = (fdt s)(std \<mapsto> v, p := None, saved := None)"
proof -
  have w: "answers_well t" if "answers t = answers s" for t using ok that by (simp add: fd_ok_def answers_well_def)
  obtain s1 where s1: "sys_dup2 p std s = (True, s1)" "answers s1 = answers s" "fdt s1 = (fdt s)(std \<mapsto> x)"
    using sys_dup2_fdt [OF w [OF refl] p(1)] by blast
  have ne: "p \<noteq> std" "saved \<noteq> std" using p sv std by auto
  then have "fdt s1 p = Some x" using s1(3) p(1) by simp
  then obtain s2 where s2: "sys_close p s1 = (True, s2)" "answers s2 = answers s" "fdt s2 = (fdt s1)(p := None)"
    using sys_close_fdt [OF w [OF s1(2)]] s1(2) by metis
  have ok2: "fd_ok s2" using ok s2 s1 p(2) ne by (auto simp: fd_ok_def answers_well_def)
  obtain s3 where s3: "run s2 = Inr s3"
      "s' = report ''smash error: close failed'' (sys_close saved (report ''smash error: dup2 failed'' (sys_dup2 saved std s3)))"
    using e s1(1) s2(1) by (auto simp: pipe_side_def Let_def checked_bind_Inr)
  have k: "fdt s3 = fdt s2" "answers s3 = answers s" using run [OF ok2 s3(1)] s2(2) by (simp_all add: kept_def)
  then have "fdt s3 saved = Some v" using s2(3) s1(3) sv ne by simp
  then obtain s4 where s4: "sys_dup2 saved std s3 = (True, s4)" "answers s4 = answers s" "fdt s4 = (fdt s3)(std \<mapsto> v)"
    using sys_dup2_fdt [OF w [OF k(2)]] k(2) by metis
  then have "fdt s4 saved = Some v" using \<open>fdt s3 saved = Some v\<close> ne by simp
  then obtain s5 where s5: "sys_close saved s4 = (True, s5)" "answers s5 = answers s" "fdt s5 = (fdt s4)(saved := None)"
    using sys_close_fdt [OF w [OF s4(2)]] s4(2) by metis
  have "fdt s5 = (fdt s)(std \<mapsto> v, p := None, saved := None)"
    using s5(3) s4(3) k(1) s2(3) s1(3) ne by (auto simp: fun_eq_iff)
  then show ?thesis using s3(2) s4(1) s5(1,2) by simp
qed

lemma pipe_restores:
  assumes run: "restores run" and ok: "fd_ok s" and std: "std = 1 \<or> std = 2" and e: "PipeCommand_execute run l1 l2 std s = Inr s'"
  shows "kept s' = kept s"
proof -
  obtain inp out where io: "fdt s 0 = Some inp" "fdt s std = Some out" using ok std by (auto simp: fd_ok_def)
  have w: "answers_well t" if "answers t = answers s" for t using ok that by (simp add: fd_ok_def answers_well_def)
  obtain a s1 where s1: "sys_dup 0 s = (Some a, s1)" "answers s1 = answers s" "fdt s a = None" "fdt s1 = (fdt s)(a \<mapsto> inp)"
    using sys_dup_fdt [OF w [OF refl] io(1)] by blast
  then have "fdt s1 std = Some out" using io by auto
  then obtain b s2 where s2: "sys_dup std s1 = (Some b, s2)" "answers s2 = answers s" "fdt s1 b = None" "fdt s2 = (fdt s1)(b \<mapsto> out)"
    using sys_dup_fdt [OF w [OF s1(2)]] s1(2) by metis
  obtain r q s3 P Q where s3: "sys_pipe s2 = (Some (r, q), s3)" "answers s3 = answers s" "r \<noteq> q" "fdt s2 r = None" "fdt s2 q = None"
      "fdt s3 = (fdt s2)(r \<mapsto> P, q \<mapsto> Q)"
    using sys_pipe_fdt [OF w [OF s2(2)]] s2(2) by metis
  have fresh: "fdt s b = None" "b \<noteq> a" "fdt s r = None" "r \<noteq> a" "r \<noteq> b" "fdt s q = None" "q \<noteq> a" "q \<noteq> b"
    using s1(3,4) s2(3,4) s3(4,5) by (auto split: if_splits)
  note n = s1(3) [THEN fd_ok_low [OF ok]] fresh(1,3,6) [THEN fd_ok_low [OF ok]]
  obtain c1 c2 s4 where c: "CreateCommand l1 = Inr c1" "CreateCommand l2 = Inr c2"
      "pipe_side (run_command run (Some r) c1) q std b s3 = Inr s4" "pipe_side (run_command run None c2) r 0 a s4 = Inr s'"
    using e unfolding PipeCommand_execute_def Let_def s1(1) s2(1) s3(1) prod.case option.case checked_bind_Inr by blast
  have "fdt s3 k = fdt s k" if "k \<in> {0, 1, 2}" for k
  proof -
    have "k \<noteq> a" "k \<noteq> b" "k \<noteq> r" "k \<noteq> q" using n that by blast+
    then show ?thesis by (simp add: s3(6) s2(4) s1(4))
  qed
  then have ok3: "fd_ok s3" using ok s3(2) by (simp add: fd_ok_def answers_well_def)
  have "answers s4 = answers s3 \<and> fdt s4 = (fdt s3)(std \<mapsto> out, q := None, b := None)"
    by (rule pipe_side_restores [OF run_command_restores [OF run _ c(1)] ok3 c(3)]) (use s3 s2 fresh n std in auto)
  then have s4: "answers s4 = answers s" "fdt s4 = (fdt s)(a \<mapsto> inp, r \<mapsto> P)"
    using s3 s2 s1 io fresh n std by (auto simp: fun_eq_iff)
  have ok4: "fd_ok s4" using ok s4 n by (auto simp: fd_ok_def answers_well_def)
  have "answers s' = answers s4 \<and> fdt s' = (fdt s4)(0 \<mapsto> inp, r := None, a := None)"
    by (rule pipe_side_restores [OF run_command_restores [OF run _ c(2)] ok4 c(4)]) (use s4 fresh n in auto)
  then show ?thesis using s4 io(1) s1(3) fresh n by (auto simp: kept_def fun_eq_iff)
qed

lemma timeout_restores:
  assumes run: "restores run" and ok: "fd_ok s" and e: "TimeoutCommand_execute run args l s = Inr s'"
  shows "kept s' = kept s"
proof -
  have r: "run c None s = Inr (j, t) \<Longrightarrow> CreateCommand (inner_cmd_line l) = Inr (Some c) \<Longrightarrow> kept t = kept s" for c j t
    using run ok CreateCommand_std unfolding restores_def by blast
  show ?thesis
    using e unfolding TimeoutCommand_execute_def
    by (auto simp: checked_bind_Inr quiet kept_add_timeout r split: if_splits option.splits)
qed

lemma execute_restores: "restores (execute n)"
proof (induction n)
  case (Suc n)
  show ?case unfolding restores_def
  proof (intro allI impI)
    fix c fd s j s' assume ok: "fd_ok s" and c: "std_ok c" and e: "execute (Suc n) c fd s = Inr (j, s')"
    show "kept s' = kept s"
    proof (cases "quiet_command c")
      case True
      then show ?thesis using e kept_quiet_command by simp
    next
      case False
      then show ?thesis
        using e c ok redirection_restores [OF Suc ok] pipe_restores [OF Suc ok, of 1] pipe_restores [OF Suc ok, of 2] timeout_restores [OF Suc ok] fare_kept [of s]
        by (auto simp: execute_with_def no_child_def nests_def quiet_command_def std_ok_def fd_ok_def checked_bind_Inr
            split: command.splits)
    qed
  qed
qed (simp add: restores_def)

end
