(* ===== verification/Shell_Properties.thy ===== *)
theory Shell_Properties
  imports Shell_Descriptors
begin

text \<open>
  The properties of the shell: its invariant along every run, the descriptors, \<open>fare\<close>, the built-in commands, the
  nesting of commands, the end of the input, and what a failed \<open>fork\<close> and two timeouts lead to.
\<close>

section \<open>Examples\<close>

text \<open>A shell in which every call succeeds with the same answer.\<close>

definition demo_shell :: "int \<Rightarrow> shell" where
  "demo_shell a = SmallShell (\<lambda>_. a) (\<lambda>_. None) ''/'' (\<lambda>_ p. p) 99"

definition line_result :: "string \<Rightarrow> shell \<Rightarrow> shell" where
  "line_result l s = (case executeCommand (execute 3) l s of Inr s' \<Rightarrow> s' | Inl _ \<Rightarrow> s)"

lemma demo_pipe: "\<not> isl (executeCommand (execute 3) ''jobs | cat'' (demo_shell 7))"
  by code_simp

lemma demo_background: "map (pid \<circ> snd) (jobs_list (line_result ''sleep 5&'' (demo_shell 7))) = [7]"
  by code_simp

section \<open>The state of the shell\<close>







lemma shell_ok_start: "shell_ok (SmallShell ans fs dir res p)"
  by (simp add: shell_ok_def SmallShell_def ordered_def)


lemma line_result: "\<not> isl (executeCommand (execute 3) l s) \<Longrightarrow> executeCommand (execute 3) l s = Inr (line_result l s)"
  by (cases "executeCommand (execute 3) l s") (simp_all add: line_result_def)

lemma demo_sleep:
  "\<not> isl (executeCommand (execute 3) ''sleep 5&'' (printPrompt (demo_shell 7)))"
  "map fst (jobs_list (line_result ''sleep 5&'' (printPrompt (demo_shell 7)))) = [1]"
  by code_simp+


section \<open>Descriptors\<close>

text \<open>
  C4. When no system call fails and the three standard descriptors are open, executing any command line, with any
  nesting of redirections, pipes and timeouts, leaves every descriptor as it was: none is leaked, none lost, and the standard
  ones refer to the same files as before.
\<close>

theorem descriptors_restored:
  assumes "answers_well s" "fd_file 0 s \<noteq> None" "fd_file 1 s \<noteq> None" "fd_file 2 s \<noteq> None"
    and "executeCommand (execute n) l s = Inr s'"
  shows "fd_file fd s' = fd_file fd s"
proof -
  have "fd_ok s" using assms(1-4) by (simp add: fd_ok_def fdt_def)
  then have "fdt s' = fdt s" using executeCommand_restores [OF execute_restores] assms(5) kept_fdt(1) by blast
  then show ?thesis by (metis fdt_def)
qed

theorem descriptors_restored_witness:
  "\<exists>s'. executeCommand (execute 3) ''jobs | cat'' (demo_shell 7) = Inr s' \<and> fd_file 1 s' = Some (Console 1)
    \<and> fd_file 3 s' = None"
proof -
  let ?s' = "line_result ''jobs | cat'' (demo_shell 7)"
  have fds: "fd_file 0 (demo_shell 7) = Some (Console 0)" "fd_file 1 (demo_shell 7) = Some (Console 1)"
    "fd_file 2 (demo_shell 7) = Some (Console 2)" "fd_file 3 (demo_shell 7) = None" "answers_well (demo_shell 7)"
    by (simp_all add: demo_shell_def SmallShell_def fd_file_def answers_well_def)
  have "fd_file fd ?s' = fd_file fd (demo_shell 7)" for fd
    by (rule descriptors_restored [OF fds(5) _ _ _ line_result [OF demo_pipe]]) (simp_all add: fds del: One_nat_def)
  then show ?thesis using line_result [OF demo_pipe] fds by auto
qed

section \<open>The command \<open>fare\<close>\<close>

lemma sys_open_files:
  assumes "answers_well s" "sys_open path mode s = (Some fd, s')"
  shows "files s' = (if mode = Truncate \<or> mode = Append \<and> files s path = None then (files s)(path \<mapsto> []) else files s)"
    "outs s' = outs s"
  using assms(2) by (auto simp: sys_open_def Let_def case_prod_unfold take_fd_def ask_def split: if_splits)

lemma sys_close_files: "files (snd (sys_close fd s)) = files s" "outs (snd (sys_close fd s)) = outs s"
  by (simp_all add: sys_close_def ask_def Let_def case_prod_unfold split: option.split)

text \<open>The message \<open>fare\<close> ends with.\<close>

definition fare_message :: "string \<Rightarrow> nat \<Rightarrow> message" where
  "fare_message pat n = Text (''replaced '' @ show_int (int n) @ '' instances of the string '' @ [CHR 0x22] @ pat @ [CHR 0x22] @ newline)"

lemma fare_finish_files:
  assumes w: "answers_well s" and f: "fdt s f = Some x" "fdt s d = Some y" "f \<noteq> d" and out: "fdt s 1 = Some o1" "1 \<noteq> f" "1 \<noteq> d"
    and ne: "path \<noteq> tmp"
  shows "files (fare_finish path tmp pat f d n s) = (files s)(path := files s tmp, tmp := None)"
    "outs (fare_finish path tmp pat f d n s) = outs s @ [(o1, fare_message pat n)]"
proof -
  obtain s1 where s1: "sys_close f s = (True, s1)" "answers s1 = answers s" "fdt s1 = (fdt s)(f := None)"
    using sys_close_fdt [OF w f(1)] by blast
  have w1: "answers_well s1" "fdt s1 d = Some y" using w f s1 by (simp_all add: answers_well_def)
  then obtain s2 where s2: "sys_close d s1 = (True, s2)" "answers s2 = answers s1" "fdt s2 = (fdt s1)(d := None)"
    using sys_close_fdt by blast
  have k: "files s2 = files s" "outs s2 = outs s" using s1(1) s2(1) sys_close_files by (metis snd_conv)+
  have a: "\<not> answers s2 i < 0" for i using w s1 s2 by (simp add: answers_well_def not_less)
  have o: "fd_file 1 s2 = Some o1" using out s1 s2 by (metis fdt_def fun_upd_other)
  let ?t = "s2\<lparr>tick := Suc (Suc (tick s2)), files := (files s2)(path := files s2 tmp, tmp := None)\<rparr>"
  have o': "fd_file 1 ?t = Some o1" using o by (simp add: fd_file_def split: if_splits)
  have "fare_finish path tmp pat f d n s = put_text 1 (fare_message pat n) ?t"
    using ne a unfolding fare_finish_def s1(1) Let_def prod.case s2(1)
    by (simp add: ask_def cout_def fare_message_def)
  then have e: "fare_finish path tmp pat f d n s = ?t\<lparr>outs := outs ?t @ [(o1, fare_message pat n)]\<rparr>"
    using o' by (simp add: put_text_def)
  show "files (fare_finish path tmp pat f d n s) = (files s)(path := files s tmp, tmp := None)"
    "outs (fare_finish path tmp pat f d n s) = outs s @ [(o1, fare_message pat n)]"
    unfolding e by (simp_all add: k)
qed

text \<open>
  C11. When no call fails and the file exists, \<open>fare\<close> replaces the file by its text with every occurrence of the
  pattern, found from left to right without overlaps, replaced; it leaves no temporary file, changes no other file, and
  reports the number of replacements.
\<close>

theorem fare_replaces:
  assumes w: "answers_well s" and pat: "pat \<noteq> []" and src: "files s path = Some t" and out: "fd_file 1 s = Some o1"
  shows "files (FareCommand_execute [''fare'', path, pat, rep] s)
      = (files s)(path \<mapsto> replace_all pat rep t, path @ ''_temp'' := None)
    \<and> outs (FareCommand_execute [''fare'', path, pat, rep] s) = outs s @ [(o1, fare_message pat (occurrences pat t))]"
proof -
  let ?tmp = "path @ ''_temp''"
  have out: "fdt s 1 = Some o1" using out by (simp add: fdt_def)
  obtain r s1 where o: "sys_open ?tmp Truncate s = (r, s1)" by fastforce
  then obtain d where d: "r = Some d" "answers s1 = answers s" "fdt s d = None" "fdt s1 = (fdt s)(d \<mapsto> Path ?tmp)"
    using sys_open_fdt [OF w o] by (cases r) auto
  have w1: "answers_well s1" using w d(2) by (simp add: answers_well_def)
  have f1: "files s1 = (files s)(?tmp \<mapsto> [])" "outs s1 = outs s" using sys_open_files [OF w o [unfolded d(1)]] by simp_all
  obtain r' s2 where o2: "sys_open path ReadOnly s1 = (r', s2)" by fastforce
  have "r' \<noteq> None" using o2 w1 f1 src
    by (auto simp: sys_open_def Let_def case_prod_unfold ask_def answers_well_def not_less [symmetric] split: if_splits)
  then obtain f where f: "r' = Some f" "answers s2 = answers s" "fdt s1 f = None" "fdt s2 = (fdt s1)(f \<mapsto> Path path)"
    using sys_open_fdt [OF w1 o2] d(2) by auto
  have f2: "files s2 = (files s)(?tmp \<mapsto> [])" "outs s2 = outs s"
    using sys_open_files [OF w1 o2 [unfolded f(1)]] f1 by simp_all
  let ?s3 = "snd (ask s2)"
  have s3: "\<not> fst (ask s2) < 0" "answers_well ?s3" "fdt ?s3 = fdt s2" "files ?s3 = files s2" "outs ?s3 = outs s"
    using ask_fdt [of s2] w f(2) f2(2) by (auto simp: answers_well_def ask_def not_less)
  have ft: "files ?s3 ?tmp = Some []" "files ?s3 path = Some t" using s3(4) f2(1) src by auto
  obtain s4 where l: "fare_loop (Suc (length t)) pat rep t ?tmp f d 0 0 ?s3 = (Some (occurrences pat t), s4)"
      "only_appends ?tmp (replace_all pat rep t) ?s3 s4"
    using fare_loop_well [OF s3(2) _ pat, of ?tmp t 0 "Suc (length t)" rep f d 0] ft(1) by auto
  have s4: "answers_well s4" "fdt s4 = fdt s2" "outs s4 = outs s"
      "files s4 = (files s)(?tmp \<mapsto> replace_all pat rep t)"
    using l(2) s3 f2(1) ft(1) kept_fdt(1) [OF kept_eq, of s4 ?s3] by (simp_all add: only_appends_def answers_well_def)
  have e: "FareCommand_execute [''fare'', path, pat, rep] s = fare_finish path ?tmp pat f d (occurrences pat t) s4"
    using o o2 d(1) f(1) s3(1) l(1) ft(2) by (simp add: FareCommand_execute_def Let_def case_prod_unfold)
  have fd: "fdt s4 f = Some (Path path)" "fdt s4 d = Some (Path ?tmp)" "f \<noteq> d" "fdt s4 1 = Some o1" "1 \<noteq> f" "1 \<noteq> d"
    using s4(2) f(3,4) d(3,4) out by (auto split: if_splits)
  have ne: "path \<noteq> ?tmp" by simp
  show ?thesis
    unfolding e fare_finish_files [OF s4(1) fd ne] using s4(3,4) ne by (auto simp: fun_eq_iff)
qed

theorem fare_replaces_witness:
  "files (FareCommand_execute [''fare'', ''f'', ''ab'', ''x'']
     (SmallShell (\<lambda>_. 1) [''f'' \<mapsto> ''aabcab'', ''g'' \<mapsto> ''ab''] ''/'' (\<lambda>_ p. p) 99)) ''f'' = Some ''axcx''"
proof -
  let ?s = "SmallShell (\<lambda>_. 1) [''f'' \<mapsto> ''aabcab'', ''g'' \<mapsto> ''ab''] ''/'' (\<lambda>_ p. p) 99"
  have "answers_well ?s" "files ?s ''f'' = Some ''aabcab''" "fd_file 1 ?s = Some (Console 1)"
    by (simp_all add: SmallShell_def answers_well_def fd_file_def)
  moreover have "replace_all ''ab'' ''x'' ''aabcab'' = ''axcx''" by code_simp
  ultimately show ?thesis using fare_replaces [of ?s "''ab''" "''f''" _ _ "''x''"] by simp
qed

section \<open>Built-in commands\<close>

definition builtin :: "command \<Rightarrow> bool" where
  "builtin c \<longleftrightarrow> \<not> nests c \<and> (case c of External _ \<Rightarrow> False | _ \<Rightarrow> True)"

definition args_of :: "command \<Rightarrow> string list" where
  "args_of c = (case c of ChangePrompt a \<Rightarrow> a | ShowPid a \<Rightarrow> a | GetCurrDir a \<Rightarrow> a | ChangeDir a \<Rightarrow> a | Jobs a \<Rightarrow> a
     | Foreground a \<Rightarrow> a | Background a \<Rightarrow> a | Quit a \<Rightarrow> a | Kill a \<Rightarrow> a | Fare a \<Rightarrow> a | Setcore a \<Rightarrow> a | Timeout a _ \<Rightarrow> a | _ \<Rightarrow> [])"

lemma first_word_args: "first_word l \<noteq> [] \<Longrightarrow> split_words l \<noteq> []"
proof
  assume f: "first_word l \<noteq> []" and "split_words l = []"
  then have "dropWhile is_space (trim l) = []"
    using split_words_Cons [of "trim l"] by (cases "dropWhile is_space (trim l)") auto
  then have sp: "\<forall>c\<in>set (trim l). is_space c" by (simp add: dropWhile_eq_Nil_conv)
  have "trim l = []"
  proof (rule ccontr)
    assume "trim l \<noteq> []"
    then have "rev (trim l) \<noteq> [] \<and> \<not> is_space (hd (rev (trim l)))"
      unfolding trim_def rtrim_def by (metis hd_dropWhile rev_is_Nil_conv rev_rev_ident)
    then show False using sp by (metis hd_in_set set_rev)
  qed
  then show False using f by (simp add: first_word_def)
qed

lemma builtin_args: "CreateCommand l = Inr (Some c) \<Longrightarrow> builtin c \<Longrightarrow> args_of c \<noteq> []"
  using first_word_args [of l]
  by (auto simp: CreateCommand_def RedirectionCommand_def PipeCommand_def BuiltInCommand_def parseCommandLine_def builtin_def
      nests_def args_of_def Let_def checked_bind_Inr split: if_splits)

lemma Foreground_runs:
  assumes "args \<noteq> []"
  shows "\<exists>s'. ForegroundCommand_execute args s = Inr s'"
proof -
  let ?s = "removeFinishedJobs s"
  have g: "\<exists>job t. getJobById i ?s = Inr job \<and> removeJobById i (?s\<lparr>foreground_job := job\<rparr>) = Inr t"
    if "i = - 1 \<longrightarrow> jobs_list ?s \<noteq> []" "i \<noteq> - 1 \<longrightarrow> jobExist i ?s" for i
    using that by (auto simp: getJobById_def removeJobById_def jobExist_def)
  have n: "length args = 1 \<or> length args = 2 \<or> 2 < length args" using assms length_0_conv [of args] by linarith
  have j: "jobExist (- 1) ?s \<Longrightarrow> jobs_list ?s \<noteq> []" by (auto simp: jobExist_def)
  have "\<exists>job t. getJobById i ?s = Inr job \<and> removeJobById i (?s\<lparr>foreground_job := job\<rparr>) = Inr t"
    if "\<not> (2 < length args \<or> (length args = 2 \<and> \<not> is_number (args ! 1)))" "\<not> (length args = 1 \<and> jobsNumber ?s = 0)"
      "\<not> (length args = 2 \<and> \<not> jobExist (arg_number (args ! 1)) ?s)" "i = (if length args = 2 then arg_number (args ! 1) else - 1)" for i
    using that n j by (intro g) (auto simp: jobsNumber_def)
  then show ?thesis unfolding ForegroundCommand_execute_def Let_def case_prod_unfold by fastforce
qed

lemma Background_runs: "\<exists>s'. BackgroundCommand_execute args s = Inr s'" if "args \<noteq> []"
proof -
  let ?s = "removeFinishedJobs s"
  have n: "length args = 1 \<or> length args = 2 \<or> 2 < length args" using that length_0_conv [of args] by linarith
  have g: "\<exists>job. getJobById i ?s = Inr job" if "jobExist i ?s" for i
    using that by (auto simp: getJobById_def jobExist_def)
  have l: "\<exists>k job. getLastStoppedJob ?s = Inr (k, job)" if "stoppedJobs ?s"
  proof -
    have "filter (\<lambda>e. stopped (snd e)) (rev (jobs_list ?s)) \<noteq> []"
      using that by (auto simp: stoppedJobs_def list_ex_iff filter_empty_conv)
    then show ?thesis by (auto simp: getLastStoppedJob_def split: list.split)
  qed
  show ?thesis
  proof (cases "length args = 1 \<and> stoppedJobs ?s")
    case True
    then obtain k job where "getLastStoppedJob ?s = Inr (k, job)" using l by blast
    then show ?thesis using True by (simp add: BackgroundCommand_execute_def Let_def)
  next
    case False
    show ?thesis
    proof (cases "jobExist (arg_number (args ! 1)) ?s")
      case True
      then obtain job where "getJobById (arg_number (args ! 1)) ?s = Inr job" using g by blast
      then show ?thesis using False n by (auto simp: BackgroundCommand_execute_def Let_def)
    qed (use False n in \<open>auto simp: BackgroundCommand_execute_def Let_def\<close>)
  qed
qed

lemma Kill_runs: "\<exists>s'. KillCommand_execute args s = Inr s'" if ok: "shell_ok s"
proof -
  let ?s = "removeFinishedJobs s" and ?i = "arg_number (args ! 2)"
  have "jobs_ok (jobs_list ?s)" using removeFinishedJobs_ok [OF ok] by (simp add: shell_ok_def)
  then have g: "\<exists>job. getJobById ?i ?s = Inr job \<and> job_id job = ?i \<and> 1 \<le> ?i" if "jobExist ?i ?s"
    using that jobs_ok_get [of "jobs_list ?s" ?i] by (auto simp: getJobById_def jobExist_def)
  have rem: "\<exists>t'. removeJobById ?i t = Inr t'" if "own t = own ?s" "jobExist ?i ?s" "1 \<le> ?i" for t
    using that own_fields(1) [OF that(1)] by (auto simp: removeJobById_def jobExist_def)
  show ?thesis
  proof (cases "jobExist ?i ?s")
    case True
    then obtain job where "getJobById ?i ?s = Inr job" "job_id job = ?i" "1 \<le> ?i" using g by blast
    then show ?thesis using True rem unfolding KillCommand_execute_def Let_def case_prod_unfold by (auto simp: frame)
  qed (auto simp: KillCommand_execute_def Let_def)
qed

lemma Setcore_runs: "\<exists>s'. SetcoreCommand_execute args s = Inr s'"
proof -
  have "\<exists>job. getJobById i t = Inr job" if "jobExist i t" for i t
  proof -
    have "jobs_list t \<noteq> []" using that by (auto simp: jobExist_def)
    then show ?thesis using that by (auto simp: getJobById_def jobExist_def)
  qed
  then show ?thesis
    by (cases "jobExist (arg_number (args ! 1)) (removeFinishedJobs s)") (fastforce simp: SetcoreCommand_execute_def Let_def case_prod_unfold)+
qed

lemma ChangeDir_runs: "\<exists>s'. ChangeDirCommand_execute args s = Inr s'" if "fst (get_current_dir_name s) \<noteq> None"
  using that unfolding ChangeDirCommand_execute_def Let_def case_prod_unfold by (auto split: option.split)

text \<open>
  C32. In a state that satisfies the invariant, a built-in command created from any line runs to its end without a
  fault: no access to a missing job, to the end of an empty list or to arguments that are not there. For every command but
  \<open>cd\<close> this holds whatever the system answers. For \<open>cd\<close> it holds when \<open>get_current_dir_name\<close> returns a
  name: when it fails the source goes on with the null pointer it returned.
\<close>

theorem builtins_do_not_fault:
  assumes "shell_ok s" "CreateCommand l = Inr (Some c)" "builtin c"
    and "\<And>args. c = ChangeDir args \<Longrightarrow> fst (get_current_dir_name s) \<noteq> None"
  shows "\<exists>s'. execute (Suc n) c fd s = Inr (None, s') \<and> shell_ok s'"
proof -
  have "args_of c \<noteq> []" by (rule builtin_args [OF assms(2,3)])
  then have "\<exists>s'. execute (Suc n) c fd s = Inr (None, s')"
    using assms(3) Foreground_runs [of _ s] Background_runs [of _ s] Kill_runs [OF assms(1)] Setcore_runs [of _ s] ChangeDir_runs [of s, OF assms(4)]
    by (cases c) (fastforce simp: execute_with_def no_child_def builtin_def nests_def args_of_def checked_bind_Inr)+
  then show ?thesis using so.execute_keeps [of "Suc n"] assms(1) unfolding keeps_def by blast
qed

theorem builtins_do_not_fault_witness:
  "(\<exists>s'. execute 1 (Kill [''kill'', ''-9'', ''1'']) None (line_result ''sleep 5&'' (printPrompt (demo_shell 7))) = Inr (None, s'))
     \<and> (\<exists>s'. execute 1 (ChangeDir [''cd'', ''/tmp'']) None (demo_shell 7) = Inr (None, s') \<and> shell_ok s')
     \<and> (\<exists>s'. execute 1 (GetCurrDir [''pwd'']) None (demo_shell (- 1)) = Inr (None, s') \<and> shell_ok s')"
proof -
  let ?s = "line_result ''sleep 5&'' (printPrompt (demo_shell 7))"
  have "own (printPrompt (demo_shell 7)) = own (demo_shell 7)" by (simp add: printPrompt_def frame)
  then have "shell_ok ?s" using so.line_keeps [OF _ line_result [OF demo_sleep(1)]] through shell_ok_start
    unfolding demo_shell_def by blast
  moreover have "CreateCommand ''kill -9 1'' = Inr (Some (Kill [''kill'', ''-9'', ''1'']))" by code_simp
  ultimately have 1: "\<exists>s'. execute 1 (Kill [''kill'', ''-9'', ''1'']) None ?s = Inr (None, s')"
    using builtins_do_not_fault [of ?s "''kill -9 1''" _ 0 None] by (auto simp: builtin_def nests_def)
  have ok: "shell_ok (demo_shell a)" for a using shell_ok_start unfolding demo_shell_def by blast
  have c: "CreateCommand ''cd /tmp'' = Inr (Some (ChangeDir [''cd'', ''/tmp'']))" "CreateCommand ''pwd'' = Inr (Some (GetCurrDir [''pwd'']))"
    by code_simp+
  have "fst (get_current_dir_name (demo_shell 7)) \<noteq> None" by code_simp
  then have 2: "\<exists>s'. execute (Suc 0) (ChangeDir [''cd'', ''/tmp'']) None (demo_shell 7) = Inr (None, s') \<and> shell_ok s'"
    by (intro builtins_do_not_fault [OF ok c(1)]) (simp_all add: builtin_def nests_def)
  have 3: "\<exists>s'. execute (Suc 0) (GetCurrDir [''pwd'']) None (demo_shell (- 1)) = Inr (None, s') \<and> shell_ok s'"
    by (intro builtins_do_not_fault [OF ok c(2)]) (simp_all add: builtin_def nests_def)
  show ?thesis using 1 2 3 unfolding One_nat_def by blast
qed

section \<open>Stopping a foreground job\<close>

lemma is_number_show: "0 \<le> k \<Longrightarrow> is_number (show_int k)"
  using show_nat_digits [of "nat k"] by (cases "show_nat (nat k)") (auto simp: is_number_def show_int_def)

text \<open>
  Bringing a job of the list to the foreground and stopping it there with control-Z gives the list back as it was,
  with the job under the same number and marked as stopped; the job was sent the signal to continue in between.
\<close>

theorem fg_then_stop:
  assumes "shell_ok s" "map_of (jobs_list s) k = Some job" "k < 2 ^ 31" "pid job \<noteq> - 1"
    and "jobs_list (removeFinishedJobs s) = jobs_list s"
    and "ForegroundCommand_execute [''fg'', show_int k] s = Inr s1" "answers s1 (tick s1) = 1"
  shows "\<exists>s2. waitForJob s1 = Inr s2 \<and> map_of (jobs_list s2) = (map_of (jobs_list s))(k \<mapsto> job\<lparr>stopped := True\<rparr>)
    \<and> wait_job_pid s2 = - 1 \<and> (pid job, SIGCONT) \<in> set (kills s2)"
proof -
  have k: "job_id job = k" "1 \<le> k" "ordered (jobs_list s)" using assms(1) jobs_ok_get [OF _ assms(2)]
    by (simp_all add: shell_ok_def jobs_ok_def)
  let ?s = "removeFinishedJobs s"
  have num: "arg_number (show_int k) = k" using k(2) assms(3) by (simp add: arg_number_def atoi_show_int)
  have get: "getJobById k ?s = Inr job" "jobExist k ?s" using assms(2,5) k(2) by (auto simp: getJobById_def jobExist_def)
  have rem: "removeJobById k (?s\<lparr>foreground_job := job\<rparr>) = Inr (?s\<lparr>foreground_job := job, jobs_list := map_erase k (jobs_list s)\<rparr>)"
    using assms(2,5) k(2) by (auto simp: removeJobById_def)
  define t where "t = ?s\<lparr>foreground_job := job, jobs_list := map_erase k (jobs_list s), wait_job_pid := pid job\<rparr>"
  have s1: "s1 = cout (cmd_line job @ '' : '' @ show_int (pid job) @ newline) (snd (sys_kill (pid job) SIGCONT t))"
    using assms(6) k(2) by (simp add: ForegroundCommand_execute_def Let_def case_prod_unfold num get rem is_number_show t_def)
  have own1: "own s1 = own t" by (simp add: s1 frame)
  note f = own_fields [OF own1]
  have f1: "jobs_list s1 = map_erase k (jobs_list s)" "foreground_job s1 = job" "wait_job_pid s1 = pid job"
    by (simp_all add: f t_def)
  have kl: "(pid job, SIGCONT) \<in> set (kills s1)"
    by (simp add: s1 cout_def put_text_def sys_kill_def Let_def case_prod_unfold split: option.split)
  let ?job = "job\<lparr>stopped := True\<rparr>"
  let ?u = "cout (''smash: process '' @ show_int (pid job) @ '' was stopped'' @ newline) (snd (ask s1))"
  have ou: "own ?u = own s1" by (simp add: frame)
  note fu = own_fields [OF ou]
  have ku: "kills ?u = kills s1" by (simp add: cout_def put_text_def ask_def split: option.split)
  let ?v = "addJob ?job (?u\<lparr>foreground_job := ?job\<rparr>)"
  have "waitForJob s1 = Inr (?v\<lparr>wait_job_pid := - 1\<rparr>)"
    using assms(4,7) f1 fu own_fields [OF own_ask [of s1]] by (simp add: waitForJob_def ask_def Let_def)
  moreover have "jobs_list ?v = map_put k ?job (map_erase k (jobs_list s))" "kills ?v = kills s1"
    using k(1,2) fu f1 ku by (auto simp: addJob_def)
  moreover have "map_of (map_put k ?job (map_erase k (jobs_list s))) = (map_of (jobs_list s))(k \<mapsto> ?job)"
    by (simp add: jm.get_put [OF jm.ok_erase [OF k(3)]] jm.get_erase [OF k(3)])
  ultimately show ?thesis using kl by simp
qed

definition demo_job :: job_entry where
  "demo_job = \<lparr>cmd_line = ''sleep 5&'', job_id = 1, pid = 50, time_epoch = 0, stopped = False\<rparr>"

definition demo_jobs :: "(nat \<Rightarrow> int) \<Rightarrow> shell" where
  "demo_jobs ans = (SmallShell ans (\<lambda>_. None) ''/'' (\<lambda>_ p. p) 99)\<lparr>jobs_list := [(1, demo_job)]\<rparr>"

lemma demo_jobs_ok: "shell_ok (demo_jobs ans)"
  by (simp add: shell_ok_def demo_jobs_def SmallShell_def demo_job_def jobs_ok_single ordered_def)

theorem fg_then_stop_witness:
  "\<exists>s1 s2. ForegroundCommand_execute [''fg'', ''1''] (demo_jobs (\<lambda>i. if i = 2 then 1 else 0)) = Inr s1 \<and> waitForJob s1 = Inr s2
     \<and> map_of (jobs_list s2) 1 = Some (demo_job\<lparr>stopped := True\<rparr>)"
proof -
  let ?s = "demo_jobs (\<lambda>i. if i = 2 then 1 else 0)"
  let ?r = "ForegroundCommand_execute [''fg'', show_int 1] ?s"
  have one: "show_int 1 = ''1''" by code_simp
  have "\<not> isl ?r" "answers (projr ?r) (tick (projr ?r)) = 1" "map fst (jobs_list (removeFinishedJobs ?s)) = [1]" by code_simp+
  then obtain s1 where s1: "?r = Inr s1" "answers s1 (tick s1) = 1" by (cases ?r) auto
  have "jobs_list (removeFinishedJobs ?s) = jobs_list ?s"
    by (simp add: removeFinishedJobs_def demo_jobs_def SmallShell_def demo_job_def waitpid_nohang_def ask_def)
  moreover have "map_of (jobs_list ?s) 1 = Some demo_job" "pid demo_job \<noteq> - 1" "(1 :: int) < 2 ^ 31"
    by (simp_all add: demo_jobs_def demo_job_def)
  ultimately obtain s2 where "waitForJob s1 = Inr s2" "map_of (jobs_list s2) = (map_of (jobs_list ?s))(1 \<mapsto> demo_job\<lparr>stopped := True\<rparr>)"
    using fg_then_stop [OF demo_jobs_ok _ _ _ _ s1] by blast
  then show ?thesis using s1(1) one by (intro exI [of _ s1] exI [of _ s2]) simp
qed

section \<open>Timeouts\<close>

lemma expire_facts:
  assumes "answers_well s"
  shows "answers (expire job s) = answers s" "alarms (expire job s) = alarms s" "set (kills s) \<subseteq> set (kills (expire job s))"
    "(pid job, SIGKILL) \<in> set (kills (expire job s))"
proof -
  have cout: "answers (cout t u) = answers u" "alarms (cout t u) = alarms u" "kills (cout t u) = kills u" for t u
    by (simp_all add: cout_def put_text_def split: option.split)
  have rem: "answers u' = answers u \<and> alarms u' = alarms u \<and> kills u' = kills u" if "removeJobById i u = Inr u'" for i u u'
    using that by (auto simp: removeJobById_def split: if_splits)
  have "0 \<le> answers s i" for i using assms by (simp add: answers_well_def)
  then show "answers (expire job s) = answers s" "alarms (expire job s) = alarms s" "set (kills s) \<subseteq> set (kills (expire job s))"
    "(pid job, SIGKILL) \<in> set (kills (expire job s))"
    by (auto simp: expire_def sys_kill_def waitpid_nohang_def ask_def Let_def cout dest!: rem split: sum.splits)
qed

lemma alarm_loop_facts:
  assumes "answers_well s"
  shows "\<exists>k. fst (alarm_loop l s) = drop k l
    \<and> (\<forall>e\<in>set (take k l). (pid (snd e), SIGKILL) \<in> set (kills (snd (alarm_loop l s))))
    \<and> set (kills s) \<subseteq> set (kills (snd (alarm_loop l s)))
    \<and> (drop k l \<noteq> [] \<longrightarrow> (\<exists>d. 1 \<le> d \<and> alarms (snd (alarm_loop l s)) = alarms s @ [d]))"
  using assms
proof (induction l arbitrary: s)
  case (Cons e l)
  obtain t job where e: "e = (t, job)" by fastforce
  let ?a = "snd (ask s)"
  have a: "answers_well ?a" "kills ?a = kills s" "alarms ?a = alarms s" using Cons.prems by (simp_all add: ask_def answers_well_def)
  show ?case
  proof (cases "1 \<le> t - fst (ask s)")
    case True
    then show ?thesis using a by (intro exI [of _ 0]) (simp add: e Let_def case_prod_unfold)
  next
    case False
    note x = expire_facts [OF a(1), of job]
    have "answers_well (expire job ?a)" using a(1) x(1) by (simp add: answers_well_def)
    from Cons.IH [OF this] obtain k where k: "fst (alarm_loop l (expire job ?a)) = drop k l"
        "\<forall>e\<in>set (take k l). (pid (snd e), SIGKILL) \<in> set (kills (snd (alarm_loop l (expire job ?a))))"
        "set (kills (expire job ?a)) \<subseteq> set (kills (snd (alarm_loop l (expire job ?a))))"
        "drop k l \<noteq> [] \<longrightarrow> (\<exists>d. 1 \<le> d \<and> alarms (snd (alarm_loop l (expire job ?a))) = alarms s @ [d])"
      unfolding x(2) a(3) by blast
    have "alarm_loop (e # l) s = alarm_loop l (expire job ?a)" using False by (simp add: e Let_def case_prod_unfold)
    then show ?thesis using k x(3,4) a(2) by (intro exI [of _ "Suc k"]) (auto simp: e)
  qed
qed simp

text \<open>
  When no call fails, the alarm handler removes entries from the front of the timeout list, sends \<open>SIGKILL\<close> to the
  process of every entry it removes, and when entries are left it sets a new alarm, at least a second ahead: a pending
  timeout is never left without an alarm.
\<close>

theorem alarm_kills_expired:
  assumes "answers_well s"
  shows "\<exists>k. timeout_list (alarmHandler s) = drop k (timeout_list s)
    \<and> (\<forall>e\<in>set (take k (timeout_list s)). (pid (snd e), SIGKILL) \<in> set (kills (alarmHandler s)))
    \<and> (timeout_list (alarmHandler s) \<noteq> [] \<longrightarrow> (\<exists>d. 1 \<le> d \<and> alarms (alarmHandler s) = alarms s @ [d]))"
proof -
  let ?s = "cout ALARM_STR s"
  have s: "answers_well ?s" "alarms ?s = alarms s" "timeout_list ?s = timeout_list s"
    using assms by (simp_all add: cout_def put_text_def answers_well_def split: option.split)
  show ?thesis using alarm_loop_facts [OF s(1), of "timeout_list s"] s(2,3)
    by (auto simp: alarmHandler_def Let_def case_prod_unfold)
qed

theorem alarm_kills_expired_witness:
  "(50, 9) \<in> set (kills (alarmHandler ((demo_jobs (\<lambda>_. 7))\<lparr>timeout_list := [(5, demo_job)]\<rparr>)))"
proof -
  let ?s = "(demo_jobs (\<lambda>_. 7))\<lparr>timeout_list := [(5, demo_job)]\<rparr>"
  have "timeout_list (alarmHandler ?s) = []" by code_simp
  moreover have "answers_well ?s" by (simp add: demo_jobs_def SmallShell_def answers_well_def)
  ultimately show ?thesis using alarm_kills_expired [of ?s] by (auto simp: SIGKILL_def demo_job_def)
qed

lemma alarm_minimum:
  assumes "answers_well s"
  shows "min_completion_time (alarmHandler s) = min_completion_time s \<and> answers (alarmHandler s) = answers s"
proof -
  have x: "min_completion_time (expire job t) = min_completion_time t" for job t
  proof -
    have rem: "min_completion_time u' = min_completion_time t" if "removeJobById i u = Inr u'" "own u = own t" for i u u'
      using that own_fields(6) [OF that(2)] by (auto simp: removeJobById_def split: if_splits)
    have o: "min_completion_time u = min_completion_time t" if "own u = own t" for u using own_fields(6) [OF that] .
    show ?thesis unfolding expire_def Let_def case_prod_unfold by (auto simp: frame intro: o rem split: sum.splits)
  qed
  have "answers_well t \<Longrightarrow> min_completion_time (snd (alarm_loop l t)) = min_completion_time t \<and> answers (snd (alarm_loop l t)) = answers t" for l t
  proof (induction l arbitrary: t)
    case (Cons e l)
    have "answers_well (snd (ask t))" "min_completion_time (snd (ask t)) = min_completion_time t" "answers (snd (ask t)) = answers t"
      using Cons.prems by (simp_all add: ask_def answers_well_def)
    then show ?case using Cons.IH [of "expire (snd e) (snd (ask t))"] expire_facts(1) [of "snd (ask t)" "snd e"] x
      by (cases e) (simp add: Let_def case_prod_unfold answers_well_def)
  qed simp
  moreover have "answers_well (cout ALARM_STR s)" "min_completion_time (cout ALARM_STR s) = min_completion_time s" "answers (cout ALARM_STR s) = answers s"
    using assms by (simp_all add: cout_def put_text_def answers_well_def split: option.split)
  ultimately show ?thesis by (simp add: alarmHandler_def Let_def case_prod_unfold)
qed

text \<open>
  \<open>min_completion_time\<close> is not brought up to date when the alarm handler runs: once the earliest timeout has passed,
  a timeout that is entered while another one is pending sets no alarm, even if its time comes first.
\<close>

theorem later_timeout_sets_no_alarm:
  assumes "answers_well s" "timeout_list (alarmHandler s) \<noteq> []" "0 \<le> t"
    and "min_completion_time s \<le> answers s (tick (alarmHandler s))"
  shows "alarms (add_timeout l t job (alarmHandler s)) = alarms (alarmHandler s)"
proof -
  have al: "alarms (if b then update_job k f u else u) = alarms u" for b k f u by (simp add: update_job_def split: option.split)
  have m: "min_completion_time (alarmHandler s) = min_completion_time s" "answers (alarmHandler s) = answers s"
    using assms(1) by (simp_all add: alarm_minimum)
  show ?thesis using assms(2-4) by (simp add: add_timeout_def ask_def Let_def al m)
qed

theorem later_timeout_sets_no_alarm_witness:
  "let s = alarmHandler ((demo_jobs (\<lambda>_. 7))\<lparr>timeout_list := [(5, demo_job), (100, demo_job)], min_completion_time := 5\<rparr>) in
     map fst (timeout_list s) = [100] \<and> alarms s = [93] \<and> alarms (add_timeout ''timeout 3 ls'' 3 demo_job s) = [93]
     \<and> map fst (timeout_list (add_timeout ''timeout 3 ls'' 3 demo_job s)) = [10, 100]"
proof -
  let ?s = "(demo_jobs (\<lambda>_. 7))\<lparr>timeout_list := [(5, demo_job), (100, demo_job)], min_completion_time := 5\<rparr>"
  have s: "map fst (timeout_list (alarmHandler ?s)) = [100]" "alarms (alarmHandler ?s) = [93]"
    "map fst (timeout_list (add_timeout ''timeout 3 ls'' 3 demo_job (alarmHandler ?s))) = [10, 100]" by code_simp+
  have "answers_well ?s" "min_completion_time ?s \<le> answers ?s i" for i by (simp_all add: demo_jobs_def SmallShell_def answers_well_def)
  moreover have "timeout_list (alarmHandler ?s) \<noteq> []" using s(1) by auto
  ultimately have "alarms (add_timeout ''timeout 3 ls'' 3 demo_job (alarmHandler ?s)) = alarms (alarmHandler ?s)"
    by (intro later_timeout_sets_no_alarm) simp_all
  then show ?thesis using s by (simp add: Let_def)
qed

section \<open>Lines without an end\<close>

text \<open>
  At the end of the input the shell does not end: it goes on for ever reading empty lines and printing its prompt.
\<close>

theorem end_of_input_is_ignored:
  assumes "\<not> exit_shell s" "wait_job_pid s = - 1" "fd_file 1 s = Some f"
  shows "main_loop n run [] s = Inr (False, s\<lparr>outs := outs s @ replicate n (f, Text (m_prompt_name s @ ''> ''))\<rparr>)"
  using assms
proof (induction n arbitrary: s)
  case (Suc n)
  let ?p = "(f, Text (m_prompt_name s @ ''> ''))"
  have "printPrompt s = s\<lparr>outs := outs s @ [?p]\<rparr>" using Suc.prems(3) by (simp add: printPrompt_def cout_def put_text_def)
  moreover have "CreateCommand [] = Inr None" by code_simp
  ultimately have "main_step run [] s = Inr (s\<lparr>outs := outs s @ [?p]\<rparr>)"
    using Suc.prems(2) by (simp add: main_step_def executeCommand_def run_command_def waitForJob_def)
  moreover have "fd_file 1 (s\<lparr>outs := outs s @ [?p]\<rparr>) = Some f" using Suc.prems(3) by (simp add: fd_file_def split: if_splits)
  ultimately show ?case using Suc.IH [of "s\<lparr>outs := outs s @ [?p]\<rparr>"] Suc.prems(1,2) by simp
qed simp

theorem end_of_input_is_ignored_witness:
  "\<exists>s'. main_loop 1000 (execute 3) [] (demo_shell 0) = Inr (False, s') \<and> length (outs s') = 1000"
proof -
  have "\<not> exit_shell (demo_shell 0)" "wait_job_pid (demo_shell 0) = - 1" "fd_file 1 (demo_shell 0) = Some (Console 1)"
    "outs (demo_shell 0) = []" by (simp_all add: demo_shell_def SmallShell_def fd_file_def)
  then show ?thesis using end_of_input_is_ignored [of "demo_shell 0" "Console 1" 1000 "execute 3"] by simp
qed

text \<open>
  A \<open>timeout\<close> command whose words are separated by a tab runs itself as its inner command: no bound on the nesting is
  enough.
\<close>

theorem timeout_with_tab_never_ends:
  "executeCommand (execute n) (''timeout 5'' @ [CHR 0x09] @ ''ls'') s = Inl StackExhausted"
proof -
  let ?l = "''timeout 5'' @ [CHR 0x09] @ ''ls''" and ?a = "[''timeout'', ''5'', ''ls'']"
  have c: "CreateCommand ?l = Inr (Some (Timeout ?a ?l))" "inner_cmd_line ?l = ?l" by code_simp+
  have a: "\<not> (length ?a < 3 \<or> \<not> is_number (?a ! 1) \<or> arg_number (?a ! 1) < 0)" by code_simp
  have "execute n (Timeout ?a ?l) fd t = Inl StackExhausted" for fd t
  proof (induction n arbitrary: fd t)
    case (Suc n)
    have "TimeoutCommand_execute (execute n) ?a ?l t = Inl StackExhausted"
      unfolding TimeoutCommand_execute_def if_not_P [OF a] c checked_bind_simps option.case Suc.IH ..
    then show ?case by (simp add: execute_with_def no_child_def)
  qed simp
  then show ?thesis unfolding executeCommand_def c by (simp add: run_command_def)
qed

end
