(* ===== verification/Shell_Nesting.thy ===== *)
theory Shell_Nesting
  imports Shell_Properties
begin

text \<open>
  The nesting of commands is bounded by the length of the line, where the only white space in it is the space: a
  redirection, a pipe and a \<open>timeout\<close> run lines that are shorter than their own. Then \<open>execute\<close> with a bound one above the
  length of the line never runs out of it. Also here: what becomes of a \<open>fork\<close> that fails.
\<close>

section \<open>Inner lines are shorter\<close>

definition plain :: "string \<Rightarrow> bool" where
  "plain l \<longleftrightarrow> list_all (\<lambda>c. is_space c \<longrightarrow> c = CHR '' '') l"

lemma plain_subset: "plain l \<Longrightarrow> set l' \<subseteq> set l \<Longrightarrow> plain l'"
  by (auto simp: plain_def list_all_iff)

lemma find_sub_bound: "find_sub pat l = Some i \<Longrightarrow> i + length pat \<le> length l"
proof (induction pat l arbitrary: i rule: find_sub.induct)
  case (2 pat c cs)
  then show ?case using prefix_length_le [of pat "c # cs"] by (auto split: if_splits)
qed (simp split: if_splits)

lemma before_after_shorter:
  assumes "C_String.contains pat l" "pat \<noteq> []"
  shows "length (before pat l) < length l" "length (after pat l) < length l"
    "set (before pat l) \<subseteq> set l" "set (after pat l) \<subseteq> set l"
proof -
  obtain i where i: "find_sub pat l = Some i" using assms(1) by (auto simp: C_String.contains_def)
  have "0 < length pat" using assms(2) by simp
  then have "i < length l" "length l - (i + length pat) < length l" using find_sub_bound [OF i] by linarith+
  then show "length (before pat l) < length l" "length (after pat l) < length l" "set (before pat l) \<subseteq> set l" "set (after pat l) \<subseteq> set l"
    using i by (auto simp: before_def after_def dest: in_set_takeD in_set_dropD)
qed

lemma trim_shorter: "length (trim l) \<le> length l" "set (trim l) \<subseteq> set l"
proof -
  show "length (trim l) \<le> length l"
    unfolding trim_def rtrim_def ltrim_def by (metis length_dropWhile_le length_rev order_trans)
  show "set (trim l) \<subseteq> set l"
    unfolding trim_def rtrim_def ltrim_def by (auto dest!: set_dropWhileD)
qed

text \<open>A line \<open>timeout\<close> with three words has a space at its tenth character or later.\<close>

lemma words_of_plain: "plain w \<Longrightarrow> CHR '' '' \<notin> set w \<Longrightarrow> length (split_words w) \<le> 1"
proof (cases "w = []")
  case False
  assume "plain w" "CHR '' '' \<notin> set w"
  then have "word_ok w" using False by (auto simp: word_ok_def plain_def list_all_iff)
  then show ?thesis using split_words_word [of w "[]"] by simp
qed simp

lemma timeout_inner_shorter:
  assumes "plain l" "first_word l = ''timeout''" "3 \<le> length (split_words l)"
  shows "length (inner_cmd_line l) < length l" "set (inner_cmd_line l) \<subseteq> set l"
proof -
  let ?o = "trim l"
  have p: "plain ?o" by (rule plain_subset [OF assms(1) trim_shorter(2)])
  define r where "r = dropWhile (\<lambda>c. c \<noteq> CHR '' '' \<and> c \<noteq> CHR 0x0A) ?o"
  have r: "?o = ''timeout'' @ r"
    using takeWhile_dropWhile_id [of "\<lambda>c. c \<noteq> CHR '' '' \<and> c \<noteq> CHR 0x0A" ?o] assms(2) unfolding r_def first_word_def by simp
  have sp: "r = [] \<or> is_space (hd r)" using hd_dropWhile [of "\<lambda>c. c \<noteq> CHR '' '' \<and> c \<noteq> CHR 0x0A" ?o]
    unfolding r_def by (auto simp: is_space_def)
  have w: "split_words ?o = ''timeout'' # split_words r" unfolding r by (rule split_words_word [OF _ sp]) (simp add: word_ok_def is_space_def)
  obtain c u where u: "r = c # u" using w assms(3) by (cases r) auto
  have c: "is_space c" using sp u by simp
  have "length (split_words u) \<ge> 2" using w assms(3) split_words_space [OF c] u by simp
  have sp10: "CHR '' '' \<in> set (tl u)"
  proof (rule ccontr)
    assume n: "CHR '' '' \<notin> set (tl u)"
    have pu: "plain u" using p r u by (simp add: plain_def)
    show False
    proof (cases u)
      case (Cons d v)
      then have "plain v" using pu by (simp add: plain_def)
      show ?thesis
      proof (cases "is_space d")
        case True
        then show ?thesis using words_of_plain [OF \<open>plain v\<close>] n Cons \<open>2 \<le> length (split_words u)\<close> split_words_space [OF True] by simp
      next
        case False
        then have "CHR '' '' \<notin> set u" using n Cons by (auto simp: is_space_def)
        then show ?thesis using words_of_plain [OF pu] \<open>2 \<le> length (split_words u)\<close> by simp
      qed
    qed (use \<open>2 \<le> length (split_words u)\<close> in simp)
  qed
  have "drop 9 ?o = tl u" unfolding r u by (cases u) simp_all
  then obtain i where i: "find_char CHR '' '' (drop 9 ?o) = Some i" using sp10 find_char_None by fastforce
  have "0 < length ?o" using r by simp
  then have "length (inner_cmd_line l) < length ?o" "set (inner_cmd_line l) \<subseteq> set ?o"
    using i by (auto simp: inner_cmd_line_def Let_def dest: in_set_dropD)
  then show "length (inner_cmd_line l) < length l" "set (inner_cmd_line l) \<subseteq> set l" using trim_shorter [of l] by auto
qed

section \<open>Enough nesting\<close>

text \<open>The lines a command runs are plain and shorter than a bound.\<close>

definition fits :: "nat \<Rightarrow> command \<Rightarrow> bool" where
  "fits n c \<longleftrightarrow> (case c of
       Redirection l _ _ \<Rightarrow> plain l \<and> length l < n
     | Pipe l1 l2 _ \<Rightarrow> plain l1 \<and> length l1 < n \<and> plain l2 \<and> length l2 < n
     | Timeout args l \<Rightarrow> 3 \<le> length args \<longrightarrow> plain (inner_cmd_line l) \<and> length (inner_cmd_line l) < n
     | _ \<Rightarrow> True)"

lemma Redirection_fits:
  assumes "plain l" "isRedirectionCommand l" "length l \<le> n"
  shows "fits n (RedirectionCommand l)"
proof -
  have "C_String.contains (if C_String.contains ''>>'' l then ''>>'' else ''>'') l"
    using assms(2) by (auto simp: isRedirectionCommand_def)
  from before_after_shorter [OF this] show ?thesis
    using assms(1,3) plain_subset [OF assms(1)] by (auto simp: RedirectionCommand_def fits_def Let_def)
qed

lemma Pipe_fits:
  assumes "plain l" "isPipeCommand l" "length l \<le> n"
  shows "fits n (PipeCommand l)"
proof -
  let ?p = "if C_String.contains ''|&'' l then ''|&'' else ''|''"
  have "C_String.contains ?p l" using assms(2) by (auto simp: isPipeCommand_def)
  moreover have "?p \<noteq> []" by simp
  ultimately have b: "length (before ?p l) < length l" "length (after ?p l) < length l" "set (before ?p l) \<subseteq> set l" "set (after ?p l) \<subseteq> set l"
    by (rule before_after_shorter)+
  have r: "length (removeBackgroundSign_string x) \<le> length x" "set (removeBackgroundSign_string x) \<subseteq> set x" for x
    by (auto simp: removeBackgroundSign_string_def)
  have "plain (removeBackgroundSign_string (before ?p l))" "plain (removeBackgroundSign_string (after ?p l))"
    by (rule plain_subset [OF assms(1) order_trans [OF r(2) b(3)]]) (rule plain_subset [OF assms(1) order_trans [OF r(2) b(4)]])
  moreover have "length (removeBackgroundSign_string (before ?p l)) < n" "length (removeBackgroundSign_string (after ?p l)) < n"
    using b(1,2) r(1) [of "before ?p l"] r(1) [of "after ?p l"] assms(3) by auto
  ultimately show ?thesis by (simp add: PipeCommand_def fits_def Let_def)
qed

lemma Timeout_fits:
  assumes "plain l" "first_word l = ''timeout''" "length l \<le> n" "parseCommandLine l = Inr args"
  shows "fits n (Timeout args l)"
  using timeout_inner_shorter [OF assms(1,2)] plain_subset [OF assms(1)] assms(3,4)
  by (auto simp: fits_def parseCommandLine_def Let_def split: if_splits)

lemma CreateCommand_fits:
  assumes "plain l" "length l \<le> n" "CreateCommand l = Inr (Some c)"
  shows "fits n c"
proof (cases "isRedirectionCommand l \<or> isPipeCommand l")
  case True
  then show ?thesis using assms Redirection_fits [of l n] Pipe_fits [of l n] by (auto simp: CreateCommand_def Let_def split: if_splits)
next
  case False
  have other: "fits n c" if "\<not> nests c" using that by (cases c) (auto simp: fits_def nests_def)
  show ?thesis
  proof (cases "nests c")
    case True
    then have "first_word l = ''timeout'' \<and> (\<exists>args. parseCommandLine l = Inr args \<and> c = Timeout args l)"
      using assms(3) False by (auto simp: CreateCommand_def BuiltInCommand_def Let_def checked_bind_Inr nests_def split: if_splits)
    then show ?thesis using Timeout_fits [OF assms(1) _ assms(2)] by blast
  qed (rule other)
qed

definition stack_ok :: "'a checked \<Rightarrow> bool" where
  "stack_ok r \<longleftrightarrow> r \<noteq> Inl StackExhausted"

lemma stack_ok_simps [simp]: "stack_ok (Inr x)" "stack_ok (Inl e) \<longleftrightarrow> e \<noteq> StackExhausted"
  by (simp_all add: stack_ok_def)

lemma stack_ok_bind: "stack_ok m \<Longrightarrow> (\<And>x. m = Inr x \<Longrightarrow> stack_ok (f x)) \<Longrightarrow> stack_ok (checked_bind m f)"
  by (cases m) auto

lemma stack_ok_parts:
  "stack_ok (parseCommandLine l)" "stack_ok (removeBackgroundSign l)" "stack_ok (isBackgroundCommand l)"
  "stack_ok (getJobById i s)" "stack_ok (getLastStoppedJob s)" "stack_ok (removeJobById i s)" "stack_ok (external_args l c s)"
  "stack_ok (CreateCommand l)"
  by (auto simp: parseCommandLine_def removeBackgroundSign_def isBackgroundCommand_def getJobById_def getLastStoppedJob_def
      removeJobById_def external_args_def CreateCommand_def BuiltInCommand_def Let_def case_prod_unfold
      intro!: stack_ok_bind split: option.split list.split)

lemma stack_ok_single:
  assumes "\<not> nests c"
  shows "stack_ok (execute_with run c fd s)"
  using assms
  by (cases c) (auto simp: execute_with_def nests_def no_child_def ChangeDirCommand_execute_def ForegroundCommand_execute_def
      BackgroundCommand_execute_def KillCommand_execute_def SetcoreCommand_execute_def ExternalCommand_execute_def Let_def
      case_prod_unfold stack_ok_parts intro!: stack_ok_bind split: option.split)

lemma stack_ok_nested:
  assumes line: "\<And>l c fd s. plain l \<Longrightarrow> length l < n \<Longrightarrow> CreateCommand l = Inr (Some c) \<Longrightarrow> stack_ok (run c fd s)"
    and "nests c" "fits n c"
  shows "stack_ok (execute_with run c fd s)"
proof -
  have cmd: "stack_ok (run_command run fd c s)" if "plain l" "length l < n" "CreateCommand l = Inr c" for l c fd s
    using line [OF that(1,2)] that(3) by (auto simp: run_command_def intro!: stack_ok_bind split: option.split)
  have side: "stack_ok (pipe_side (run_command run fd c) p std saved s)" if "plain l" "length l < n" "CreateCommand l = Inr c" for l c fd p std saved s
    using cmd [OF that] by (auto simp: pipe_side_def Let_def case_prod_unfold intro!: stack_ok_bind)
  have ex: "stack_ok (executeCommand run l s)" if "plain l" "length l < n" for l s
    using cmd [OF that] stack_ok_parts(8) [of l] unfolding executeCommand_def by (auto intro!: stack_ok_bind)
  show ?thesis
  proof (cases c)
    case (Redirection l name a)
    then have "stack_ok (RedirectionCommand_execute run l name a s)"
      using assms(3) ex [of l] by (auto simp: fits_def RedirectionCommand_execute_def Let_def case_prod_unfold intro!: stack_ok_bind split: option.split)
    then show ?thesis using Redirection by (auto simp: execute_with_def no_child_def intro!: stack_ok_bind)
  next
    case (Pipe l1 l2 std)
    then have "stack_ok (PipeCommand_execute run l1 l2 std s)"
      using assms(3) side stack_ok_parts(8)
      by (auto simp: fits_def PipeCommand_execute_def Let_def case_prod_unfold intro!: stack_ok_bind split: option.split)
    then show ?thesis using Pipe by (auto simp: execute_with_def no_child_def intro!: stack_ok_bind)
  next
    case (Timeout args l)
    then have "stack_ok (TimeoutCommand_execute run args l s)"
      using assms(3) line stack_ok_parts(8)
      by (auto simp: fits_def TimeoutCommand_execute_def Let_def case_prod_unfold intro!: stack_ok_bind split: option.split)
    then show ?thesis using Timeout by (auto simp: execute_with_def no_child_def intro!: stack_ok_bind)
  qed (use assms(2) in \<open>simp_all add: nests_def\<close>)
qed

lemma execute_fits: "fits n c \<Longrightarrow> stack_ok (execute (Suc n) c fd s)"
proof (induction n arbitrary: c fd s)
  case 0
  then show ?case using stack_ok_single [of c] stack_ok_nested [of 0 "execute 0" c fd s] by (cases "nests c") auto
next
  case (Suc n)
  have "stack_ok (execute (Suc n) c' fd' s')" if "plain l" "length l < Suc n" "CreateCommand l = Inr (Some c')" for l c' fd' s'
    using Suc.IH CreateCommand_fits [OF that(1) _ that(3), of n] that(2) by simp
  then show ?case using stack_ok_single [of c] stack_ok_nested [of "Suc n" "execute (Suc n)" c fd s] Suc.prems
    by (cases "nests c") auto
qed

text \<open>
  C27. A command line whose only white space is the space can be executed with a nesting bounded by its length: with the
  bound one above the length of the line, the execution never exceeds it, in any state.
\<close>

theorem nesting_is_bounded:
  assumes "plain l" "length l < n"
  shows "executeCommand (execute n) l s \<noteq> Inl StackExhausted"
  unfolding stack_ok_def [symmetric]
proof -
  obtain m where m: "n = Suc m" "length l \<le> m" using assms(2) by (cases n) auto
  have "stack_ok (run_command (execute n) None c s)" if "CreateCommand l = Inr c" for c
    using execute_fits [OF CreateCommand_fits [OF assms(1) m(2)]] that m(1)
    by (auto simp: run_command_def simp del: execute.simps intro!: stack_ok_bind split: option.split)
  then show "stack_ok (executeCommand (execute n) l s)"
    using stack_ok_parts(8) [of l] unfolding executeCommand_def by (auto intro!: stack_ok_bind)
qed

theorem nesting_is_bounded_witness:
  "executeCommand (execute 40) ''timeout 5 timeout 3 ls -l | wc > f'' (demo_shell 7) \<noteq> Inl StackExhausted"
proof (rule nesting_is_bounded)
  show "plain ''timeout 5 timeout 3 ls -l | wc > f''" by code_simp
qed simp

section \<open>A fork that fails\<close>

lemma map_put_last: "\<forall>e\<in>set l. fst e < k \<Longrightarrow> map_put k v l = l @ [(k, v)]"
  by (induction l) auto

lemma ordered_last: "ordered l \<Longrightarrow> e \<in> set l \<Longrightarrow> fst e \<le> fst (last l)"
  by (induction l) (auto simp: ordered_def less_imp_le)

lemma addJob_new:
  assumes "shell_ok s" "job_id job = - 1"
  shows "\<exists>n. jobs_list (addJob job s) = jobs_list s @ [(n, job\<lparr>job_id := n\<rparr>)]"
proof (cases "jobs_list s = []")
  case False
  let ?n = "fst (last (jobs_list s)) + 1"
  have "ordered (jobs_list s)" using assms(1) by (simp add: shell_ok_def jobs_ok_def)
  then have "map_put ?n v (jobs_list s) = jobs_list s @ [(?n, v)]" for v
    using ordered_last [of "jobs_list s"] by (intro map_put_last) fastforce
  then show ?thesis using False assms(2) by (simp add: addJob_def Let_def)
qed (use assms(2) in \<open>simp add: addJob_def Let_def\<close>)

text \<open>
  The result of \<open>fork\<close> is kept in an unsigned variable, so that a failure is not noticed: for a background
  command, nothing is reported and a job with the process number -1 is put at the end of the job list.
\<close>

theorem failed_fork_makes_a_job:
  assumes "shell_ok s" "isBackgroundCommand l = Inr True" "CHR ''*'' \<notin> set l \<and> CHR ''?'' \<notin> set l"
    and "answers s (tick s + 1) < 0" "ExternalCommand_execute l fd s = Inr (job, s')"
  shows "jobs_list s' = jobs_list s @ [(job_id job, job)] \<and> pid job = - 1
    \<and> outs s' = outs s \<and> started s' = started s"
proof -
  let ?s1 = "s\<lparr>tick := tick s + 1\<rparr>" and ?s3 = "s\<lparr>tick := tick s + 3\<rparr>"
  let ?job = "\<lparr>cmd_line = l, job_id = - 1, pid = - 1, time_epoch = answers s (tick s + 2), stopped = False\<rparr>"
  have fork: "fork_exec args fd ?s1 = (- 1, s\<lparr>tick := tick s + 2\<rparr>)" for args
    using assms(4) by (simp add: fork_exec_def ask_def)
  have entry: "JobEntry l (- 1) (s\<lparr>tick := tick s + 2\<rparr>) = (?job, ?s3)"
    by (simp add: JobEntry_def ask_def)
  have copy: "cmd_line_copy l s = (Some l, ?s1)"
    using assms(5) by (auto simp: ExternalCommand_execute_def cmd_line_copy_def ask_def Let_def split: if_splits)
  have args: "t = ?s1" if "external_args l c ?s1 = Inr (a, t)" for c a t
    using that assms(3) by (auto simp: external_args_def checked_bind_Inr split: if_splits)
  obtain n where n: "jobs_list (addJob ?job ?s3) = jobs_list s @ [(n, ?job\<lparr>job_id := n\<rparr>)]"
    using addJob_new [of ?s3 ?job] assms(1) by (auto simp: shell_ok_def)
  obtain c a t where e: "external_args l c ?s1 = Inr (a, t)"
      "(let (p, s) = fork_exec a fd t; (job, s) = JobEntry l p s; s = addJob job s in
        checked_bind (getJobById (- 1) s) (\<lambda>child_job. Inr (child_job, s))) = Inr (job, s')"
    using assms(5) unfolding ExternalCommand_execute_def copy by (auto simp: checked_bind_Inr assms(2))
  have s': "s' = addJob ?job ?s3" "getJobById (- 1) (addJob ?job ?s3) = Inr job"
    using e(2) unfolding args [OF e(1)] fork Let_def prod.case entry by (auto simp: checked_bind_Inr)
  have "outs (addJob ?job ?s3) = outs s" "started (addJob ?job ?s3) = started s" by (simp_all add: addJob_def Let_def)
  moreover have "job = ?job\<lparr>job_id := n\<rparr>" using s'(2) n by (simp add: getJobById_def)
  ultimately show ?thesis using s'(1) n by simp
qed

theorem failed_fork_makes_a_job_witness:
  "map (pid \<circ> snd) (jobs_list (projr (executeCommand (execute 1) ''sleep 5&'' (demo_jobs (\<lambda>i. if i = 1 then - 1 else 7))))) = [50, - 1]"
proof -
  let ?s = "demo_jobs (\<lambda>i. if i = 1 then - 1 else 7)" and ?l = "''sleep 5&''"
  have c: "CreateCommand ?l = Inr (Some (External ?l))" "isBackgroundCommand ?l = Inr True" by code_simp+
  have a: "answers ?s (tick ?s + 1) < 0" "jobs_list ?s = [(1, demo_job)]" by (simp_all add: demo_jobs_def SmallShell_def)
  have "\<not> isl (ExternalCommand_execute ?l None ?s)" by code_simp
  then obtain job s' where e: "ExternalCommand_execute ?l None ?s = Inr (job, s')" by (cases "ExternalCommand_execute ?l None ?s") auto
  have "executeCommand (execute 1) ?l ?s = Inr s'"
    using e by (simp add: executeCommand_def c run_command_def execute_with_def)
  moreover have "map (pid \<circ> snd) (jobs_list s') = [50, - 1]"
    using failed_fork_makes_a_job [OF demo_jobs_ok c(2) _ a(1) e] a(2) by (simp add: demo_job_def)
  ultimately show ?thesis by simp
qed

end
