(* ===== verification/Kernel_Params.thy ===== *)
theory Kernel_Params
  imports C_String Task_Weights
begin

text \<open>
  The boot parameters of \<open>hw2/hw2_wet/209509181-313511602/init/main.c\<close>: the arrays \<open>argv_init\<close> and
  \<open>envp_init\<close> that are handed to the first program, the functions that fill them from the command line of the
  kernel, and the table of set-up functions of this file. What lies outside the file is the record \<open>kernel_lib\<close>:
  configuration constants, the functions of the kernel library, the set-up functions of other files, and
  \<open>parse_args\<close>, seen as the list of the arguments it finds.

  An argument is the piece of the command line that starts at \<open>param\<close>, with its NUL bytes, and the distance of
  \<open>val\<close> from \<open>param\<close> (none for a null pointer), because \<open>repair_env_string\<close> works on the bytes in place.
\<close>

section \<open>State\<close>

record boot =
  argv_init :: "string option list"
  envp_init :: "string option list"
  panic_later :: "string option"
  panic_param :: "string option"
  execute_command :: "string option"
  ramdisk_execute_command :: "string option"
  reset_devices :: c_int
  console_loglevel :: c_int
  rodata_enabled :: bool
  initcall_debug :: bool
  blacklisted_initcalls :: "string list"
  boot_command_line :: string
  saved_command_line :: string
  static_command_line :: string
  initcall_command_line :: string
  early_done :: bool
  kmsg :: "string list"

text \<open>An entry of the table between \<open>__setup_start\<close> and \<open>__setup_end\<close>.\<close>

record obs_kernel_param =
  p_str :: string
  setup_func :: "(string option \<Rightarrow> boot \<Rightarrow> c_int \<times> boot) option"
  early :: bool

text \<open>
  What \<open>parse_args\<close> does with an argument: it sets the parameter \<open>initcall_debug\<close> of this file, or calls the
  function it was given.
\<close>

datatype parsed = Core_param bool | Unknown string "nat option"

record kernel_lib =
  INIT_ENV_ARG_LIMIT :: nat
  LOGLEVEL_DEBUG :: c_int
  LOGLEVEL_QUIET :: c_int
  COMMAND_LINE_SIZE :: nat
  get_option :: "string option \<Rightarrow> c_int option"
  parameq :: "string \<Rightarrow> string \<Rightarrow> bool"
  parameqn :: "string \<Rightarrow> string \<Rightarrow> nat \<Rightarrow> bool"
  strtobool :: "string \<Rightarrow> bool option"
  parse_args :: "bool \<Rightarrow> int \<Rightarrow> string \<Rightarrow> parsed list \<times> string option"
  other_setups :: "obs_kernel_param list"

datatype boot_fault = BUG | ArrayOverrun | NullCall

definition MAX_INIT_ARGS :: "kernel_lib \<Rightarrow> nat" where
  "MAX_INIT_ARGS lib = INIT_ENV_ARG_LIMIT lib"

definition MAX_INIT_ENVS :: "kernel_lib \<Rightarrow> nat" where
  "MAX_INIT_ENVS lib = INIT_ENV_ARG_LIMIT lib"

definition argv_init_start :: "kernel_lib \<Rightarrow> string option list" where
  "argv_init_start lib = Some ''init'' # replicate (MAX_INIT_ARGS lib + 1) None"

definition envp_init_start :: "kernel_lib \<Rightarrow> string option list" where
  "envp_init_start lib = Some ''HOME=/'' # Some ''TERM=linux'' # replicate (MAX_INIT_ENVS lib) None"

definition pr :: "string \<Rightarrow> boot \<Rightarrow> boot" where
  "pr t s = s\<lparr>kmsg := kmsg s @ [t]\<rparr>"

definition quote :: "string \<Rightarrow> string" where
  "quote t = CHR 0x27 # t @ [CHR 0x27]"

section \<open>Set-up functions of the file\<close>

definition set_reset_devices :: "string option \<Rightarrow> boot \<Rightarrow> c_int \<times> boot" where
  "set_reset_devices str s = (1, s\<lparr>reset_devices := 1\<rparr>)"

definition debug_kernel :: "kernel_lib \<Rightarrow> string option \<Rightarrow> boot \<Rightarrow> c_int \<times> boot" where
  "debug_kernel lib str s = (0, s\<lparr>console_loglevel := LOGLEVEL_DEBUG lib\<rparr>)"

definition quiet_kernel :: "kernel_lib \<Rightarrow> string option \<Rightarrow> boot \<Rightarrow> c_int \<times> boot" where
  "quiet_kernel lib str s = (0, s\<lparr>console_loglevel := LOGLEVEL_QUIET lib\<rparr>)"

definition loglevel :: "kernel_lib \<Rightarrow> string option \<Rightarrow> boot \<Rightarrow> c_int \<times> boot" where
  "loglevel lib str s =
     (case get_option lib str of
        Some newlevel \<Rightarrow> (0, s\<lparr>console_loglevel := newlevel\<rparr>)
      | None \<Rightarrow> (- 22, s))"

text \<open>The loop that sets \<open>argv_init[1]\<close> up to \<open>argv_init[MAX_INIT_ARGS - 1]\<close> to null.\<close>

definition clear_args :: "kernel_lib \<Rightarrow> string option list \<Rightarrow> string option list" where
  "clear_args lib argv = fold (\<lambda>i argv. argv[i := None]) [1..<MAX_INIT_ARGS lib] argv"

definition init_setup :: "kernel_lib \<Rightarrow> string option \<Rightarrow> boot \<Rightarrow> c_int \<times> boot" where
  "init_setup lib str s = (1, s\<lparr>execute_command := str, argv_init := clear_args lib (argv_init s)\<rparr>)"

definition rdinit_setup :: "kernel_lib \<Rightarrow> string option \<Rightarrow> boot \<Rightarrow> c_int \<times> boot" where
  "rdinit_setup lib str s = (1, s\<lparr>ramdisk_execute_command := str, argv_init := clear_args lib (argv_init s)\<rparr>)"

text \<open>\<open>strsep\<close> with the separator \<open>,\<close>: the first entry and what follows the comma, if there is one.\<close>

fun strsep_comma :: "string \<Rightarrow> string \<times> string option" where
  "strsep_comma [] = ([], None)"
| "strsep_comma (c # cs) =
     (if c = CHR '','' then ([], Some cs) else let (e, rest) = strsep_comma cs in (c # e, rest))"

lemma strsep_comma_shorter: "strsep_comma t = (e, Some r) \<Longrightarrow> length r < length t"
  by (induction t arbitrary: e) (auto split: if_splits prod.splits simp: less_Suc_eq)

function blacklist_loop :: "string option \<Rightarrow> string list \<Rightarrow> string list" where
  "blacklist_loop None entries = entries"
| "blacklist_loop (Some str) entries =
     (case strsep_comma str of (str_entry, rest) \<Rightarrow> blacklist_loop rest (str_entry # entries))"
  by pat_completeness auto
termination
  by (relation "measure (\<lambda>(s, _). case s of None \<Rightarrow> 0 | Some t \<Rightarrow> Suc (length t))")
    (auto split: option.splits dest: strsep_comma_shorter [OF sym])

definition initcall_blacklist :: "string option \<Rightarrow> boot \<Rightarrow> c_int \<times> boot" where
  "initcall_blacklist str s = (1, s\<lparr>blacklisted_initcalls := blacklist_loop str (blacklisted_initcalls s)\<rparr>)"

definition set_debug_rodata :: "kernel_lib \<Rightarrow> string option \<Rightarrow> boot \<Rightarrow> c_int \<times> boot" where
  "set_debug_rodata lib str s =
     (1, case strtobool lib (the str) of
           Some b \<Rightarrow> s\<lparr>rodata_enabled := b\<rparr>
         | None \<Rightarrow> pr (''Invalid option string for rodata: '' @ quote (the str)) s)"

text \<open>The entries that \<open>__setup\<close> and \<open>early_param\<close> make from this file, and the whole table.\<close>

definition main_setups :: "kernel_lib \<Rightarrow> obs_kernel_param list" where
  "main_setups lib =
     [\<lparr>p_str = ''reset_devices'', setup_func = Some set_reset_devices, early = False\<rparr>,
      \<lparr>p_str = ''debug'', setup_func = Some (debug_kernel lib), early = True\<rparr>,
      \<lparr>p_str = ''quiet'', setup_func = Some (quiet_kernel lib), early = True\<rparr>,
      \<lparr>p_str = ''loglevel'', setup_func = Some (loglevel lib), early = True\<rparr>,
      \<lparr>p_str = ''init='', setup_func = Some (init_setup lib), early = False\<rparr>,
      \<lparr>p_str = ''rdinit='', setup_func = Some (rdinit_setup lib), early = False\<rparr>,
      \<lparr>p_str = ''initcall_blacklist='', setup_func = Some initcall_blacklist, early = False\<rparr>,
      \<lparr>p_str = ''rodata='', setup_func = Some (set_debug_rodata lib), early = False\<rparr>]"

definition setup_table :: "kernel_lib \<Rightarrow> obs_kernel_param list" where
  "setup_table lib = main_setups lib @ other_setups lib"

section \<open>Arguments of the command line\<close>

abbreviation NUL :: char where "NUL \<equiv> CHR 0x00"

definition cstr :: "string \<Rightarrow> nat \<Rightarrow> string" where
  "cstr buf i = takeWhile (\<lambda>c. c \<noteq> NUL) (drop i buf)"

definition memmove_text :: "string \<Rightarrow> nat \<Rightarrow> nat \<Rightarrow> nat \<Rightarrow> string" where
  "memmove_text buf dst src n = take dst buf @ take n (drop src buf) @ drop (dst + n) buf"

definition repair_env_string :: "string \<Rightarrow> nat option \<Rightarrow> boot_fault + string" where
  "repair_env_string buf val =
     (case val of
        None \<Rightarrow> Inr buf
      | Some v \<Rightarrow>
          if v = length (cstr buf 0) + 1 then Inr (buf[v - 1 := CHR ''=''])
          else if v = length (cstr buf 0) + 2 then
            let buf = buf[v - 2 := CHR ''=''] in Inr (memmove_text buf (v - 1) v (length (cstr buf v) + 1))
          else Inl BUG)"

text \<open>The character \<open>line[n]\<close>, the terminating NUL included.\<close>

definition char_at :: "string \<Rightarrow> nat \<Rightarrow> char" where
  "char_at line n = (if n < length line then line ! n else NUL)"

fun checksetup_loop :: "kernel_lib \<Rightarrow> obs_kernel_param list \<Rightarrow> string \<Rightarrow> bool \<Rightarrow> boot \<Rightarrow> bool \<times> boot" where
  "checksetup_loop lib [] line had_early_param s = (had_early_param, s)"
| "checksetup_loop lib (p # ps) line had_early_param s =
     (let n = length (p_str p) in
      if parameqn lib line (p_str p) n then
        if early p then
          checksetup_loop lib ps line (had_early_param \<or> char_at line n = NUL \<or> char_at line n = CHR ''='') s
        else case setup_func p of
          None \<Rightarrow> (True, pr (''Parameter '' @ p_str p @ '' is obsolete, ignored'') s)
        | Some f \<Rightarrow>
            let (r, s) = f (Some (drop n line)) s in
            if r \<noteq> 0 then (True, s) else checksetup_loop lib ps line had_early_param s
      else checksetup_loop lib ps line had_early_param s)"

definition obsolete_checksetup :: "kernel_lib \<Rightarrow> string \<Rightarrow> boot \<Rightarrow> bool \<times> boot" where
  "obsolete_checksetup lib line s = checksetup_loop lib (setup_table lib) line False s"

text \<open>
  The loops over the two arrays from position \<open>i\<close> on. Reading past the end of an array is \<open>ArrayOverrun\<close>. The first
  returns at the limit (none); the others only note that they passed it.
\<close>

fun set_arg_loop :: "nat \<Rightarrow> nat \<Rightarrow> string option list \<Rightarrow> boot_fault + nat option" where
  "set_arg_loop lim i [] = Inl ArrayOverrun"
| "set_arg_loop lim i (None # xs) = Inr (Some i)"
| "set_arg_loop lim i (Some _ # xs) = (if i = lim then Inr None else set_arg_loop lim (i + 1) xs)"

fun arg_loop :: "nat \<Rightarrow> nat \<Rightarrow> bool \<Rightarrow> string option list \<Rightarrow> boot_fault + nat \<times> bool" where
  "arg_loop lim i passed [] = Inl ArrayOverrun"
| "arg_loop lim i passed (None # xs) = Inr (i, passed)"
| "arg_loop lim i passed (Some _ # xs) = arg_loop lim (i + 1) (passed \<or> i = lim) xs"

definition strncmp_eq :: "string \<Rightarrow> string \<Rightarrow> nat \<Rightarrow> bool" where
  "strncmp_eq a b n \<longleftrightarrow> take n (a @ [NUL]) = take n (b @ [NUL])"

fun env_loop :: "nat \<Rightarrow> string \<Rightarrow> nat \<Rightarrow> nat \<Rightarrow> bool \<Rightarrow> string option list \<Rightarrow> boot_fault + nat \<times> bool" where
  "env_loop lim param n i passed [] = Inl ArrayOverrun"
| "env_loop lim param n i passed (None # xs) = Inr (i, passed)"
| "env_loop lim param n i passed (Some e # xs) =
     (let passed = (passed \<or> i = lim) in
      if strncmp_eq param e n then Inr (i, passed) else env_loop lim param n (i + 1) passed xs)"

definition note_overflow :: "bool \<Rightarrow> string \<Rightarrow> string \<Rightarrow> boot \<Rightarrow> boot" where
  "note_overflow passed what param s =
     (if passed then s\<lparr>panic_later := Some what, panic_param := Some param\<rparr> else s)"

definition set_init_arg :: "kernel_lib \<Rightarrow> string \<Rightarrow> nat option \<Rightarrow> boot \<Rightarrow> boot_fault + boot" where
  "set_init_arg lib buf val s =
     (if panic_later s \<noteq> None then Inr s
      else checked_bind (repair_env_string buf val) (\<lambda>buf.
        let param = cstr buf 0 in
        checked_bind (set_arg_loop (MAX_INIT_ARGS lib) 0 (argv_init s)) (\<lambda>r. case r of
            None \<Rightarrow> Inr (note_overflow True ''init'' param s)
          | Some i \<Rightarrow> Inr (s\<lparr>argv_init := (argv_init s)[i := Some param]\<rparr>))))"

definition unknown_bootoption :: "kernel_lib \<Rightarrow> string \<Rightarrow> nat option \<Rightarrow> boot \<Rightarrow> boot_fault + boot" where
  "unknown_bootoption lib buf val s =
     checked_bind (repair_env_string buf val) (\<lambda>buf.
       let param = cstr buf 0; (found, s) = obsolete_checksetup lib param s in
       if found then Inr s
       else if (case find_char CHR ''.'' param of None \<Rightarrow> False | Some d \<Rightarrow> val = None \<or> d < the val) then Inr s
       else if panic_later s \<noteq> None then Inr s
       else case val of
         Some v \<Rightarrow>
           checked_bind (env_loop (MAX_INIT_ENVS lib) param v 0 False (envp_init s)) (\<lambda>(i, passed).
             let s = note_overflow passed ''env'' param s in Inr (s\<lparr>envp_init := (envp_init s)[i := Some param]\<rparr>))
       | None \<Rightarrow>
           checked_bind (arg_loop (MAX_INIT_ARGS lib) 0 False (argv_init s)) (\<lambda>(i, passed).
             let s = note_overflow passed ''init'' param s in Inr (s\<lparr>argv_init := (argv_init s)[i := Some param]\<rparr>)))"

fun early_loop :: "kernel_lib \<Rightarrow> obs_kernel_param list \<Rightarrow> string \<Rightarrow> string option \<Rightarrow> boot \<Rightarrow> boot_fault + boot" where
  "early_loop lib [] param val s = Inr s"
| "early_loop lib (p # ps) param val s =
     (if early p \<and> parameq lib param (p_str p) \<or> param = ''console'' \<and> p_str p = ''earlycon'' then
        case setup_func p of
          None \<Rightarrow> Inl NullCall
        | Some f \<Rightarrow>
            let (r, s) = f val s in
            early_loop lib ps param val (if r \<noteq> 0 then pr (''Malformed early option '' @ quote param) s else s)
      else early_loop lib ps param val s)"

definition do_early_param :: "kernel_lib \<Rightarrow> string \<Rightarrow> nat option \<Rightarrow> boot \<Rightarrow> boot_fault + boot" where
  "do_early_param lib buf val s = early_loop lib (setup_table lib) (cstr buf 0) (map_option (cstr buf) val) s"

section \<open>Command lines\<close>

text \<open>The calls \<open>parse_args\<close> makes, one per argument, in order.\<close>

fun run_parsed :: "(string \<Rightarrow> nat option \<Rightarrow> boot \<Rightarrow> boot_fault + boot) \<Rightarrow> parsed list \<Rightarrow> boot \<Rightarrow> boot_fault + boot" where
  "run_parsed f [] s = Inr s"
| "run_parsed f (Core_param b # as) s = run_parsed f as (s\<lparr>initcall_debug := b\<rparr>)"
| "run_parsed f (Unknown buf val # as) s = checked_bind (f buf val s) (run_parsed f as)"

definition setup_command_line :: "string \<Rightarrow> boot \<Rightarrow> boot" where
  "setup_command_line command_line s =
     s\<lparr>saved_command_line := boot_command_line s, static_command_line := command_line\<rparr>"

definition parse_early_options :: "kernel_lib \<Rightarrow> string \<Rightarrow> boot \<Rightarrow> boot_fault + boot" where
  "parse_early_options lib cmdline s = run_parsed (do_early_param lib) (fst (parse_args lib False 0 cmdline)) s"

definition parse_early_param :: "kernel_lib \<Rightarrow> boot \<Rightarrow> boot_fault + boot" where
  "parse_early_param lib s =
     (if early_done s then Inr s
      else checked_bind (parse_early_options lib (take (COMMAND_LINE_SIZE lib - 1) (boot_command_line s)) s)
        (\<lambda>s. Inr (s\<lparr>early_done := True\<rparr>)))"

text \<open>The part of \<open>start_kernel\<close> that reads the command line.\<close>

definition parse_boot_line :: "kernel_lib \<Rightarrow> boot \<Rightarrow> boot_fault + boot" where
  "parse_boot_line lib s =
     checked_bind (parse_early_param lib s) (\<lambda>s.
       let (as, after_dashes) = parse_args lib True (- 1) (static_command_line s) in
       checked_bind (run_parsed (unknown_bootoption lib) as s) (\<lambda>s.
         case after_dashes of
           None \<Rightarrow> Inr s
         | Some t \<Rightarrow> run_parsed (set_init_arg lib) (fst (parse_args lib False (- 1) t)) s))"

end
