(* ===== verification/Kernel_Options.thy ===== *)
theory Kernel_Options
  imports Kernel_Params
begin

text \<open>
  What the boot parameters do to the two arrays handed to the first program: no argument of the command line makes
  the kernel write outside them, and ordinary options end up in them as they were written.
\<close>

section \<open>The bytes of an argument\<close>

text \<open>
  The three forms in which \<open>parse_args\<close> hands over an argument: \<open>param\<close>, \<open>param=val\<close> and \<open>param="val"\<close>; it has
  put a NUL where the equals sign was and one at the end.
\<close>

datatype boot_option = Plain string | Equals string string | Quoted string string

fun layout :: "boot_option \<Rightarrow> string \<times> nat option" where
  "layout (Plain p) = (p @ [NUL], None)"
| "layout (Equals p v) = (p @ NUL # v @ [NUL], Some (length p + 1))"
| "layout (Quoted p v) = (p @ NUL # CHR 0x22 # v @ [NUL], Some (length p + 2))"

fun option_text :: "boot_option \<Rightarrow> string" where
  "option_text (Plain p) = p"
| "option_text (Equals p v) = p @ CHR ''='' # v"
| "option_text (Quoted p v) = p @ CHR ''='' # v"

fun option_ok :: "boot_option \<Rightarrow> bool" where
  "option_ok (Plain p) \<longleftrightarrow> NUL \<notin> set p"
| "option_ok (Equals p v) \<longleftrightarrow> NUL \<notin> set p \<and> NUL \<notin> set v"
| "option_ok (Quoted p v) \<longleftrightarrow> NUL \<notin> set p \<and> NUL \<notin> set v"

definition unknown_of :: "boot_option \<Rightarrow> parsed" where
  "unknown_of opt = Unknown (fst (layout opt)) (snd (layout opt))"

lemma takeWhile_text: "NUL \<notin> set p \<Longrightarrow> takeWhile (\<lambda>c. c \<noteq> NUL) (p @ NUL # r) = p"
  by (subst takeWhile_append2) auto

lemma cstr_text: "NUL \<notin> set p \<Longrightarrow> cstr (p @ NUL # r) 0 = p"
  by (simp add: cstr_def takeWhile_text)

lemma repair_layout:
  assumes "option_ok opt"
  obtains buf where "repair_env_string (fst (layout opt)) (snd (layout opt)) = Inr buf" "cstr buf 0 = option_text opt"
proof (cases opt)
  case (Plain p)
  then show ?thesis using that assms cstr_text by (simp add: repair_env_string_def)
next
  case (Equals p v)
  then have "cstr (p @ CHR ''='' # v @ [NUL]) 0 = p @ CHR ''='' # v"
    using assms cstr_text [of "p @ CHR ''='' # v" "[]"] by simp
  then show ?thesis using that Equals assms cstr_text [of p "v @ [NUL]"]
    by (simp add: repair_env_string_def list_update_append)
next
  case (Quoted p v)
  let ?b = "p @ CHR ''='' # CHR 0x22 # v @ [NUL]"
  have n: "cstr ?b (length p + 2) = v" using Quoted assms takeWhile_text [of v "[]"] by (simp add: cstr_def)
  have "memmove_text ?b (length p + 1) (length p + 2) (length v + 1) = p @ CHR ''='' # v @ [NUL, NUL]"
    by (simp add: memmove_text_def)
  moreover have "cstr (p @ CHR ''='' # v @ [NUL, NUL]) 0 = p @ CHR ''='' # v"
    using Quoted assms cstr_text [of "p @ CHR ''='' # v" "[NUL]"] by simp
  ultimately show ?thesis using that Quoted assms cstr_text [of p "CHR 0x22 # v @ [NUL]"] n
    by (simp add: repair_env_string_def list_update_append)
qed

section \<open>No write outside the arrays\<close>

text \<open>
  What set-up functions of other files cannot touch: \<open>argv_init\<close>, \<open>panic_later\<close> and \<open>panic_param\<close> are static
  variables of this file, and \<open>envp_init\<close> is written nowhere else.
\<close>

definition handed :: "boot \<Rightarrow> string option list \<times> string option list \<times> string option \<times> string option" where
  "handed s = (argv_init s, envp_init s, panic_later s, panic_param s)"

definition setups_ok :: "kernel_lib \<Rightarrow> bool" where
  "setups_ok lib \<longleftrightarrow> (\<forall>p\<in>set (other_setups lib). \<forall>f str s. setup_func p = Some f \<longrightarrow> handed (snd (f str s)) = handed s)"

text \<open>Both arrays keep their sizes, and as long as no panic is noted their last element is null.\<close>

definition arrays_ok :: "kernel_lib \<Rightarrow> boot \<Rightarrow> bool" where
  "arrays_ok lib s \<longleftrightarrow> length (argv_init s) = MAX_INIT_ARGS lib + 2 \<and> length (envp_init s) = MAX_INIT_ENVS lib + 2
     \<and> (panic_later s = None \<longrightarrow> last (argv_init s) = None \<and> last (envp_init s) = None)"

lemma arrays_ok_handed: "handed s' = handed s \<Longrightarrow> arrays_ok lib s' = arrays_ok lib s"
  by (simp add: handed_def arrays_ok_def)

lemma arrays_ok_pr [simp]: "arrays_ok lib (pr t s) = arrays_ok lib s"
  by (simp add: arrays_ok_def pr_def)

lemma length_clear_args [simp]: "length (clear_args lib argv) = length argv"
proof -
  have "length (fold (\<lambda>i argv. argv[i := None]) is argv) = length argv" for "is"
    by (induction "is" arbitrary: argv) auto
  then show ?thesis by (simp add: clear_args_def)
qed

lemma fold_clear_nth:
  "j < length xs \<Longrightarrow> fold (\<lambda>i xs. xs[i := None]) is xs ! j = (if j \<in> set is then None else xs ! j)"
  by (induction "is" arbitrary: xs) (auto simp: nth_list_update)

lemma clear_args_nth:
  "j < length argv \<Longrightarrow> clear_args lib argv ! j = (if 1 \<le> j \<and> j < MAX_INIT_ARGS lib then None else argv ! j)"
  by (simp add: clear_args_def fold_clear_nth)

lemma last_clear_args:
  assumes "argv \<noteq> []" "last argv = None"
  shows "last (clear_args lib argv) = None"
proof -
  have "clear_args lib argv \<noteq> []" using assms(1) length_clear_args [of lib argv] by (metis length_0_conv)
  then have "last (clear_args lib argv) = clear_args lib argv ! (length argv - 1)"
    by (simp add: last_conv_nth)
  also have "\<dots> = None"
    using clear_args_nth [of "length argv - 1" argv lib] assms by (simp add: last_conv_nth)
  finally show ?thesis .
qed

lemma arrays_ok_clear: "arrays_ok lib s \<Longrightarrow> arrays_ok lib (s\<lparr>argv_init := clear_args lib (argv_init s)\<rparr>)"
  by (auto simp: arrays_ok_def intro!: last_clear_args)

lemma main_setups_ok:
  assumes "p \<in> set (main_setups lib)" "setup_func p = Some f" "arrays_ok lib s"
  shows "arrays_ok lib (snd (f str s))"
proof -
  have "f \<in> {set_reset_devices, debug_kernel lib, quiet_kernel lib, loglevel lib, init_setup lib, rdinit_setup lib,
      initcall_blacklist, set_debug_rodata lib}"
    using assms(1,2) by (auto simp: main_setups_def)
  then consider "f = init_setup lib" | "f = rdinit_setup lib" | "f = set_debug_rodata lib" | "f = loglevel lib"
    | "f = set_reset_devices \<or> f = debug_kernel lib \<or> f = quiet_kernel lib \<or> f = initcall_blacklist" by blast
  then show ?thesis
  proof cases
    case 1
    then show ?thesis using arrays_ok_clear [OF assms(3)] by (simp add: init_setup_def arrays_ok_def)
  next
    case 2
    then show ?thesis using arrays_ok_clear [OF assms(3)] by (simp add: rdinit_setup_def arrays_ok_def)
  next
    case 3
    then show ?thesis using assms(3) by (simp add: set_debug_rodata_def arrays_ok_def pr_def split: option.split)
  next
    case 4
    then show ?thesis using assms(3) by (simp add: loglevel_def arrays_ok_def split: option.split)
  next
    case 5
    then show ?thesis using assms(3)
      by (auto simp: set_reset_devices_def debug_kernel_def quiet_kernel_def initcall_blacklist_def arrays_ok_def)
  qed
qed

lemma setups_keep:
  assumes "setups_ok lib" "p \<in> set (setup_table lib)" "setup_func p = Some f" "arrays_ok lib s" "f str s = (r, s')"
  shows "arrays_ok lib s'"
proof (cases "p \<in> set (main_setups lib)")
  case True
  then show ?thesis using main_setups_ok [OF True assms(3,4), of str] assms(5) by simp
next
  case False
  then have "p \<in> set (other_setups lib)" using assms(2) by (auto simp: setup_table_def)
  then have "handed (snd (f str s)) = handed s" using assms(1,3) by (auto simp: setups_ok_def)
  then show ?thesis using assms(4,5) arrays_ok_handed [of s' s lib] by simp
qed

lemma checksetup_keeps:
  assumes "setups_ok lib" "set ps \<subseteq> set (setup_table lib)" "arrays_ok lib s"
  shows "arrays_ok lib (snd (checksetup_loop lib ps line had s))"
  using assms(2,3)
proof (induction ps arbitrary: had s)
  case (Cons p ps)
  show ?case
  proof (cases "setup_func p")
    case None
    then show ?thesis using Cons by (simp add: Let_def)
  next
    case (Some f)
    obtain r s' where r: "f (Some (drop (length (p_str p)) line)) s = (r, s')" by fastforce
    have "arrays_ok lib s'" using setups_keep [OF assms(1) _ Some Cons.prems(2) r] Cons.prems(1) by simp
    then show ?thesis using Cons Some r by (simp add: Let_def)
  qed
qed simp

lemma obsolete_checksetup_keeps:
  "setups_ok lib \<Longrightarrow> arrays_ok lib s \<Longrightarrow> arrays_ok lib (snd (obsolete_checksetup lib line s))"
  by (simp add: obsolete_checksetup_def checksetup_keeps)

text \<open>The loops stay inside an array whose last element is null; only past the limit can they reach that element.\<close>

lemma set_arg_loop_ok:
  assumes "last xs = None" "i + length xs = lim + 2" "i \<le> lim"
  shows "\<exists>r. set_arg_loop lim i xs = Inr r \<and> (\<forall>j. r = Some j \<longrightarrow> j \<le> lim)"
  using assms
proof (induction lim i xs rule: set_arg_loop.induct)
  case (3 lim i x xs)
  then show ?case by (cases "xs = []") auto
qed auto

lemma arg_loop_ok:
  assumes "xs \<noteq> []" "last xs = None" "i + length xs = lim + 2" "passed \<longleftrightarrow> lim < i"
  shows "\<exists>j p. arg_loop lim i passed xs = Inr (j, p) \<and> j < lim + 2 \<and> (p \<longleftrightarrow> lim < j)"
  using assms
proof (induction lim i passed xs rule: arg_loop.induct)
  case (3 lim i passed x xs)
  have "xs \<noteq> []" using 3 by auto
  moreover have "(passed \<or> i = lim) \<longleftrightarrow> lim < i + 1" using 3 by auto
  ultimately show ?case using 3 by simp
qed auto

lemma env_loop_ok:
  assumes "xs \<noteq> []" "last xs = None" "i + length xs = lim + 2" "passed \<longleftrightarrow> lim < i"
  shows "\<exists>j p. env_loop lim param n i passed xs = Inr (j, p) \<and> j < lim + 2 \<and> (lim < j \<longrightarrow> p)"
  using assms
proof (induction lim param n i passed xs rule: env_loop.induct)
  case (3 lim param n i passed e xs)
  have "xs \<noteq> []" using 3 by auto
  moreover have "(passed \<or> i = lim) \<longleftrightarrow> lim < i + 1" using 3 by auto
  moreover have "i < lim + 2" "lim < i \<longrightarrow> passed" using 3 by auto
  ultimately show ?case using 3 by (cases "strncmp_eq param e n") (simp_all add: Let_def)
qed auto

lemma last_update: "j < length xs \<Longrightarrow> last (xs[j := y]) = (if j = length xs - 1 then y else last xs)"
  by (cases xs rule: rev_cases) (auto simp: list_update_append)

lemma unknown_bootoption_ok:
  assumes lib: "setups_ok lib" and s: "arrays_ok lib s" and opt: "option_ok opt"
  shows "\<exists>s'. unknown_bootoption lib (fst (layout opt)) (snd (layout opt)) s = Inr s' \<and> arrays_ok lib s'"
proof -
  obtain buf where buf: "repair_env_string (fst (layout opt)) (snd (layout opt)) = Inr buf" "cstr buf 0 = option_text opt"
    by (rule repair_layout [OF opt])
  obtain found t where t: "obsolete_checksetup lib (option_text opt) s = (found, t)" by fastforce
  have ok: "arrays_ok lib t" using obsolete_checksetup_keeps [OF lib s, of "option_text opt"] t by simp
  show ?thesis
  proof (cases "panic_later t = None")
    case True
    let ?n = "INIT_ENV_ARG_LIMIT lib"
    have ne: "argv_init t \<noteq> []" "envp_init t \<noteq> []" "last (argv_init t) = None" "last (envp_init t) = None"
      "length (argv_init t) = ?n + 2" "length (envp_init t) = ?n + 2"
      using ok True by (auto simp: arrays_ok_def MAX_INIT_ARGS_def MAX_INIT_ENVS_def)
    obtain i p where a: "arg_loop ?n 0 False (argv_init t) = Inr (i, p)" "i < ?n + 2" "p \<longleftrightarrow> ?n < i"
      using arg_loop_ok [of "argv_init t" 0 ?n False] ne by auto
    obtain j q where e: "env_loop ?n (option_text opt) (the (snd (layout opt))) 0 False (envp_init t) = Inr (j, q)" "j < ?n + 2"
        "?n < j \<longrightarrow> q"
      using env_loop_ok [of "envp_init t" 0 ?n False] ne by (metis add_0 not_less_zero)
    show ?thesis
      using buf t ok a e ne
      by (auto simp: unknown_bootoption_def Let_def note_overflow_def arrays_ok_def last_update MAX_INIT_ARGS_def
          MAX_INIT_ENVS_def split: option.split)
  next
    case False
    then show ?thesis using buf t ok by (auto simp: unknown_bootoption_def Let_def split: option.split)
  qed
qed

lemma set_init_arg_ok:
  assumes s: "arrays_ok lib s" and opt: "option_ok opt"
  shows "\<exists>s'. set_init_arg lib (fst (layout opt)) (snd (layout opt)) s = Inr s' \<and> arrays_ok lib s'"
proof (cases "panic_later s = None")
  case True
  obtain buf where buf: "repair_env_string (fst (layout opt)) (snd (layout opt)) = Inr buf"
    by (rule repair_layout [OF opt])
  let ?n = "INIT_ENV_ARG_LIMIT lib"
  have ne: "argv_init s \<noteq> []" "last (argv_init s) = None" "length (argv_init s) = ?n + 2"
    using s True by (auto simp: arrays_ok_def MAX_INIT_ARGS_def)
  then obtain r where "set_arg_loop ?n 0 (argv_init s) = Inr r" "\<forall>j. r = Some j \<longrightarrow> j \<le> ?n"
    using set_arg_loop_ok [of "argv_init s" 0 ?n] by auto
  then show ?thesis
    using buf s True ne
    by (cases r) (auto simp: set_init_arg_def note_overflow_def arrays_ok_def last_update MAX_INIT_ARGS_def Let_def)
qed (use s in \<open>simp add: set_init_arg_def\<close>)

section \<open>The whole command line\<close>

text \<open>
  What \<open>parse_args\<close> promises: every argument it hands over has one of the three forms. Entries made by
  \<open>early_param\<close> always have a function.
\<close>

definition args_ok :: "parsed list \<Rightarrow> bool" where
  "args_ok as \<longleftrightarrow> (\<forall>a\<in>set as. (\<exists>b. a = Core_param b) \<or> (\<exists>opt. option_ok opt \<and> a = unknown_of opt))"

definition parse_ok :: "kernel_lib \<Rightarrow> bool" where
  "parse_ok lib \<longleftrightarrow> (\<forall>k level t. args_ok (fst (parse_args lib k level t)))"

definition early_ok :: "kernel_lib \<Rightarrow> bool" where
  "early_ok lib \<longleftrightarrow> (\<forall>p\<in>set (other_setups lib). early p \<or> p_str p = ''earlycon'' \<longrightarrow> setup_func p \<noteq> None)"

definition callback_ok :: "kernel_lib \<Rightarrow> (string \<Rightarrow> nat option \<Rightarrow> boot \<Rightarrow> boot_fault + boot) \<Rightarrow> bool" where
  "callback_ok lib f \<longleftrightarrow> (\<forall>opt s. option_ok opt \<longrightarrow> arrays_ok lib s \<longrightarrow>
     (\<exists>s'. f (fst (layout opt)) (snd (layout opt)) s = Inr s' \<and> arrays_ok lib s'))"

lemma run_parsed_ok:
  assumes f: "callback_ok lib f" and as: "args_ok as" and s: "arrays_ok lib s"
  obtains s' where "run_parsed f as s = Inr s'" "arrays_ok lib s'"
proof -
  have "\<exists>s'. run_parsed f as s = Inr s' \<and> arrays_ok lib s'"
    using as s
  proof (induction as arbitrary: s)
    case (Cons a as)
    have as: "args_ok as" using Cons.prems(1) by (simp add: args_ok_def)
    from Cons.prems(1) consider b where "a = Core_param b" | opt where "option_ok opt" "a = unknown_of opt"
      by (auto simp: args_ok_def)
    then show ?case
    proof cases
      case 1
      have "arrays_ok lib (s\<lparr>initcall_debug := b\<rparr>)" using Cons.prems(2) by (simp add: arrays_ok_def)
      then show ?thesis using Cons.IH [OF as] 1 by simp
    next
      case 2
      obtain s' where "f (fst (layout opt)) (snd (layout opt)) s = Inr s'" "arrays_ok lib s'"
        using f 2(1) Cons.prems(2) unfolding callback_ok_def by blast
      then show ?thesis using Cons.IH [OF as] 2(2) by (simp add: unknown_of_def)
    qed
  qed simp
  then show ?thesis using that by blast
qed

lemma early_loop_ok:
  assumes lib: "setups_ok lib" "early_ok lib" and ps: "set ps \<subseteq> set (setup_table lib)" and s: "arrays_ok lib s"
  shows "\<exists>s'. early_loop lib ps param val s = Inr s' \<and> arrays_ok lib s'"
  using ps s
proof (induction ps arbitrary: s)
  case (Cons p ps)
  show ?case
  proof (cases "early p \<and> parameq lib param (p_str p) \<or> param = ''console'' \<and> p_str p = ''earlycon''")
    case True
    have "setup_func p \<noteq> None"
    proof (cases "p \<in> set (main_setups lib)")
      case False
      then show ?thesis using True Cons.prems(1) lib(2) by (auto simp: setup_table_def early_ok_def)
    qed (auto simp: main_setups_def)
    then obtain f r s' where f: "setup_func p = Some f" "f val s = (r, s')" by fastforce
    have "arrays_ok lib s'" using setups_keep [OF lib(1) _ f(1) Cons.prems(2) f(2)] Cons.prems(1) by simp
    then show ?thesis using Cons f True by (simp add: Let_def)
  qed (use Cons in auto)
qed simp

lemma callbacks_ok:
  assumes "setups_ok lib"
  shows "callback_ok lib (unknown_bootoption lib)" "callback_ok lib (set_init_arg lib)"
    "early_ok lib \<Longrightarrow> callback_ok lib (do_early_param lib)"
  unfolding callback_ok_def do_early_param_def
  using unknown_bootoption_ok [OF assms] set_init_arg_ok early_loop_ok [OF assms _ order_refl] by blast+

lemma parse_early_param_ok:
  assumes lib: "setups_ok lib" "early_ok lib" "parse_ok lib" and s: "arrays_ok lib s"
  shows "\<exists>s'. parse_early_param lib s = Inr s' \<and> arrays_ok lib s'"
proof (cases "early_done s")
  case False
  obtain s' where s': "run_parsed (do_early_param lib)
      (fst (parse_args lib False 0 (take (COMMAND_LINE_SIZE lib - 1) (boot_command_line s)))) s = Inr s'" "arrays_ok lib s'"
    using run_parsed_ok [OF callbacks_ok(3) [OF lib(1,2)] _ s] lib(3) unfolding parse_ok_def by blast
  have "arrays_ok lib (s'\<lparr>early_done := True\<rparr>)" using s'(2) by (simp add: arrays_ok_def)
  then show ?thesis using s'(1) False by (simp add: parse_early_param_def parse_early_options_def)
qed (use s in \<open>simp add: parse_early_param_def\<close>)

definition arrays_start :: "kernel_lib \<Rightarrow> boot \<Rightarrow> bool" where
  "arrays_start lib s \<longleftrightarrow> argv_init s = argv_init_start lib \<and> envp_init s = envp_init_start lib \<and> panic_later s = None"

lemma arrays_start_ok: "arrays_start lib s \<Longrightarrow> 0 < INIT_ENV_ARG_LIMIT lib \<Longrightarrow> arrays_ok lib s"
  by (simp add: arrays_start_def arrays_ok_def argv_init_start_def envp_init_start_def MAX_INIT_ARGS_def MAX_INIT_ENVS_def)

lemma parse_boot_line_ok:
  assumes lib: "setups_ok lib" "early_ok lib" "parse_ok lib" and s: "arrays_ok lib s"
  shows "\<exists>s'. parse_boot_line lib s = Inr s' \<and> arrays_ok lib s'"
proof -
  have args: "args_ok (fst (parse_args lib k l t))" for k l t using lib(3) unfolding parse_ok_def by blast
  obtain s1 where s1: "parse_early_param lib s = Inr s1" "arrays_ok lib s1" using parse_early_param_ok [OF lib s] by blast
  obtain as d where d: "parse_args lib True (- 1) (static_command_line s1) = (as, d)" by fastforce
  obtain s2 where s2: "run_parsed (unknown_bootoption lib) as s1 = Inr s2" "arrays_ok lib s2"
    using run_parsed_ok [OF callbacks_ok(1) [OF lib(1)] _ s1(2)] args [of True "- 1" "static_command_line s1"] unfolding d fst_conv
    by blast
  show ?thesis
  proof (cases d)
    case None
    then show ?thesis using s1 s2 d by (simp add: parse_boot_line_def)
  next
    case (Some t)
    obtain s3 where "run_parsed (set_init_arg lib) (fst (parse_args lib False (- 1) t)) s2 = Inr s3" "arrays_ok lib s3"
      by (rule run_parsed_ok [OF callbacks_ok(2) [OF lib(1)] args s2(2)])
    then show ?thesis using s1 s2 d Some by (simp add: parse_boot_line_def)
  qed
qed

text \<open>A library for examples: arguments separated by spaces, compared character by character.\<close>

definition word_option :: "string \<Rightarrow> boot_option" where
  "word_option w = (case find_char CHR ''='' w of None \<Rightarrow> Plain w | Some i \<Rightarrow> Equals (take i w) (drop (i + 1) w))"

definition demo_parse :: "string \<Rightarrow> parsed list" where
  "demo_parse t = map (\<lambda>w. unknown_of (word_option w)) (filter (\<lambda>w. NUL \<notin> set w) (split_words t))"

definition demo_lib :: "nat \<Rightarrow> kernel_lib" where
  "demo_lib n = \<lparr>INIT_ENV_ARG_LIMIT = n, LOGLEVEL_DEBUG = 10, LOGLEVEL_QUIET = 4, COMMAND_LINE_SIZE = 2048,
     get_option = (\<lambda>v. map_option atoi v), parameq = (=), parameqn = (\<lambda>l p k. take k l = p),
     strtobool = (\<lambda>v. if v = ''on'' then Some True else if v = ''off'' then Some False else None),
     parse_args = (\<lambda>k l t. (demo_parse t, None)), other_setups = []\<rparr>"

definition demo_boot :: "nat \<Rightarrow> string \<Rightarrow> boot" where
  "demo_boot n line =
     \<lparr>argv_init = argv_init_start (demo_lib n), envp_init = envp_init_start (demo_lib n), panic_later = None, panic_param = None,
      execute_command = None, ramdisk_execute_command = None, reset_devices = 0, console_loglevel = 7, rodata_enabled = True,
      initcall_debug = False, blacklisted_initcalls = [], boot_command_line = line, saved_command_line = line,
      static_command_line = line, initcall_command_line = [], early_done = False, kmsg = []\<rparr>"

lemma word_option_ok:
  assumes "NUL \<notin> set w"
  shows "option_ok (word_option w)"
proof (cases "find_char CHR ''='' w")
  case (Some i)
  have "NUL \<notin> set (take i w)" "NUL \<notin> set (drop (i + 1) w)" using assms by (auto dest: in_set_takeD in_set_dropD)
  then show ?thesis using Some by (simp add: word_option_def)
qed (use assms in \<open>simp add: word_option_def\<close>)

lemma demo_lib_ok: "setups_ok (demo_lib n)" "early_ok (demo_lib n)" "parse_ok (demo_lib n)"
  using word_option_ok by (auto simp: setups_ok_def early_ok_def parse_ok_def args_ok_def demo_lib_def demo_parse_def)

lemma demo_boot_start: "arrays_start (demo_lib n) (demo_boot n line)"
  by (simp add: arrays_start_def demo_boot_def)

text \<open>
  Whatever stands on the command line of the kernel, reading it never writes outside \<open>argv_init\<close> and
  \<open>envp_init\<close>: it ends, both arrays keep their sizes, and unless the overflow was noted in \<open>panic_later\<close> both are
  closed by a null pointer. Set-up functions of other files are arbitrary as long as they do not touch the variables of
  this file, and \<open>parse_args\<close> hands over arguments of the form \<open>param\<close>, \<open>param=val\<close> or \<open>param="val"\<close>.
\<close>

theorem boot_line_stays_in_arrays:
  assumes "setups_ok lib" "early_ok lib" "parse_ok lib" "arrays_start lib s" "0 < INIT_ENV_ARG_LIMIT lib"
  shows "\<exists>s'. parse_boot_line lib s = Inr s' \<and> length (argv_init s') = MAX_INIT_ARGS lib + 2
    \<and> length (envp_init s') = MAX_INIT_ENVS lib + 2
    \<and> (panic_later s' = None \<longrightarrow> last (argv_init s') = None \<and> last (envp_init s') = None)"
  using parse_boot_line_ok [OF assms(1-3) arrays_start_ok [OF assms(4,5)]] by (simp add: arrays_ok_def)

theorem boot_line_stays_in_arrays_witness:
  "\<exists>s'. parse_boot_line (demo_lib 1) (demo_boot 1 ''a b c d e'') = Inr s' \<and> length (argv_init s') = 3 \<and> length (envp_init s') = 3"
proof -
  have "0 < INIT_ENV_ARG_LIMIT (demo_lib 1)" by (simp add: demo_lib_def)
  from boot_line_stays_in_arrays [OF demo_lib_ok demo_boot_start this, of "''a b c d e''"] show ?thesis
    by (auto simp: MAX_INIT_ARGS_def MAX_INIT_ENVS_def demo_lib_def)
qed

end
