(* ===== verification/Kernel_Handover.thy ===== *)
theory Kernel_Handover
  imports Kernel_Options
begin

text \<open>
  What the first program gets from the command line: the options of the kernel as a specification over two lists of
  texts, its refinement by \<open>unknown_bootoption\<close>, and two places where the code departs from it.
\<close>

section \<open>Specification\<close>

text \<open>A variable replaces the first one of the same name and otherwise comes at the end.\<close>

fun env_put :: "string \<Rightarrow> string \<Rightarrow> string list \<Rightarrow> string list" where
  "env_put name text_of [] = [text_of]"
| "env_put name text_of (e # es) = (if prefix (name @ ''='') e then text_of # es else e # env_put name text_of es)"

fun hand_over :: "boot_option \<Rightarrow> string list \<times> string list \<Rightarrow> string list \<times> string list" where
  "hand_over (Plain p) (args, envs) = (if CHR ''.'' \<in> set p then args else args @ [p], envs)"
| "hand_over (Equals p v) (args, envs) = (args, if CHR ''.'' \<in> set p then envs else env_put p (p @ ''='' @ v) envs)"
| "hand_over (Quoted p v) (args, envs) = (args, if CHR ''.'' \<in> set p then envs else env_put p (p @ ''='' @ v) envs)"

text \<open>An array of \<open>n\<close> elements that holds a list of texts and null pointers behind it.\<close>

definition filled :: "nat \<Rightarrow> string list \<Rightarrow> string option list" where
  "filled n ts = map Some ts @ replicate (n - length ts) None"

definition holds_lists :: "kernel_lib \<Rightarrow> boot \<Rightarrow> string list \<times> string list \<Rightarrow> bool" where
  "holds_lists lib s l \<longleftrightarrow> argv_init s = filled (MAX_INIT_ARGS lib + 2) (fst l)
     \<and> envp_init s = filled (MAX_INIT_ENVS lib + 2) (snd l) \<and> panic_later s = None"

text \<open>An option that no entry of the table of set-up functions matches.\<close>

definition unclaimed :: "kernel_lib \<Rightarrow> string \<Rightarrow> bool" where
  "unclaimed lib line \<longleftrightarrow> (\<forall>p\<in>set (setup_table lib). \<not> parameqn lib line (p_str p) (length (p_str p)))"

section \<open>The loops on filled arrays\<close>

lemma filled_snoc: "length ts < n \<Longrightarrow> (filled n ts)[length ts := Some t] = filled n (ts @ [t])"
  by (simp add: filled_def list_update_append Suc_diff_Suc flip: Cons_replicate_eq)
    (metis Suc_diff_Suc list_update_code(2) replicate_Suc)

lemma filled_split: "length ts < n \<Longrightarrow> filled n ts = map Some ts @ None # replicate (n - length ts - 1) None"
  by (simp add: filled_def) (metis Suc_diff_Suc diff_Suc_eq_diff_pred replicate_Suc)

lemma arg_loop_texts: "arg_loop lim i passed (map Some ts @ None # r) = Inr (i + length ts, passed \<or> i \<le> lim \<and> lim < i + length ts)"
  by (induction ts arbitrary: i passed) auto

lemma set_arg_loop_texts:
  "i + length ts \<le> lim \<Longrightarrow> set_arg_loop lim i (map Some ts @ None # r) = Inr (Some (i + length ts))"
  by (induction ts arbitrary: i) auto

lemma env_loop_none:
  "\<forall>e\<in>set es. \<not> strncmp_eq param e n \<Longrightarrow>
     env_loop lim param n i passed (map Some es @ None # r) = Inr (i + length es, passed \<or> i \<le> lim \<and> lim < i + length es)"
  by (induction es arbitrary: i passed) auto

lemma env_loop_first:
  "\<forall>e\<in>set es. \<not> strncmp_eq param e n \<Longrightarrow> strncmp_eq param e n \<Longrightarrow> i + length es < lim \<Longrightarrow>
     env_loop lim param n i False (map Some es @ Some e # r) = Inr (i + length es, False)"
  by (induction es arbitrary: i) auto

lemma strncmp_prefix:
  assumes "NUL \<notin> set q"
  shows "strncmp_eq (q @ r) e (length q) \<longleftrightarrow> prefix q e"
proof -
  have "strncmp_eq (q @ r) e (length q) \<longleftrightarrow> q = take (length q) (e @ [NUL])"
    by (simp add: strncmp_eq_def)
  also have "\<dots> \<longleftrightarrow> prefix q (e @ [NUL])"
    by (metis prefix_def append_eq_conv_conj)
  also have "\<dots> \<longleftrightarrow> prefix q e"
    using assms by (auto simp: prefix_snoc)
  finally show ?thesis .
qed

lemma strncmp_name: "NUL \<notin> set p \<Longrightarrow> strncmp_eq (p @ CHR ''='' # v) e (length p + 1) \<longleftrightarrow> prefix (p @ ''='') e"
  using strncmp_prefix [of "p @ ''=''" v e] by simp

lemma env_put_split:
  assumes "es = us @ e # ws" "\<forall>u\<in>set us. \<not> prefix (p @ ''='') u" "prefix (p @ ''='') e"
  shows "env_put p t es = us @ t # ws"
  using assms by (induction us arbitrary: es) auto

lemma env_put_none: "\<forall>e\<in>set es. \<not> prefix (p @ ''='') e \<Longrightarrow> env_put p t es = es @ [t]"
  by (induction es) auto

lemma env_put_length: "length es \<le> length (env_put p t es)"
  by (induction es) auto

lemma dot_first: "find_char CHR ''.'' (p @ CHR ''='' # v) = Some d \<Longrightarrow> d < length p + 1 \<longleftrightarrow> CHR ''.'' \<in> set p"
proof -
  assume d: "find_char CHR ''.'' (p @ CHR ''='' # v) = Some d"
  let ?t = "p @ CHR ''='' # v"
  note F = find_char_Some [OF d]
  have c: "?t ! d = CHR ''.''" using F(1,3) by (metis length_take min.absorb4 nth_append_length)
  show ?thesis
  proof
    assume "d < length p + 1"
    then have "d < length p" using c by (cases "d = length p") auto
    then show "CHR ''.'' \<in> set p" using c by (metis nth_append nth_mem)
  next
    assume "CHR ''.'' \<in> set p"
    then obtain i where i: "i < length p" "p ! i = CHR ''.''" by (auto simp: in_set_conv_nth)
    have "\<not> i < d"
    proof
      assume "i < d"
      then have "take d ?t ! i = CHR ''.''" "i < length (take d ?t)" using i F(3) by (auto simp: nth_append)
      then show False using F(2) nth_mem by metis
    qed
    then show "d < length p + 1" using i(1) by simp
  qed
qed

lemma unclaimed_checksetup: "unclaimed lib line \<Longrightarrow> obsolete_checksetup lib line s = (False, s)"
proof -
  have "\<forall>p\<in>set ps. \<not> parameqn lib line (p_str p) (length (p_str p)) \<Longrightarrow> checksetup_loop lib ps line False s = (False, s)" for ps
    by (induction ps) (auto simp: Let_def)
  then show "unclaimed lib line \<Longrightarrow> obsolete_checksetup lib line s = (False, s)"
    by (simp add: obsolete_checksetup_def unclaimed_def)
qed

section \<open>Refinement\<close>

fun option_name :: "boot_option \<Rightarrow> string" where
  "option_name (Plain p) = p"
| "option_name (Equals p v) = p"
| "option_name (Quoted p v) = p"

fun unquoted :: "boot_option \<Rightarrow> bool" where
  "unquoted (Quoted p v) \<longleftrightarrow> False"
| "unquoted _ \<longleftrightarrow> True"

text \<open>A plain word goes to the first null pointer of \<open>argv_init\<close>, whatever lies behind it.\<close>

lemma unknown_word:
  assumes "panic_later s = None" "argv_init s = map Some ts @ None # r" "length ts \<le> MAX_INIT_ARGS lib"
    and p: "NUL \<notin> set p" "unclaimed lib p" "CHR ''.'' \<notin> set p"
  shows "unknown_bootoption lib (p @ [NUL]) None s = Inr (s\<lparr>argv_init := map Some (ts @ [p]) @ r\<rparr>)"
proof -
  have "arg_loop (MAX_INIT_ARGS lib) 0 False (argv_init s) = Inr (length ts, False)"
    using assms(2,3) by (simp add: arg_loop_texts)
  moreover have "find_char CHR ''.'' p = None" using p(3) by (simp add: find_char_None)
  ultimately show ?thesis
    using assms(1,2) cstr_text [OF p(1), of "[]"] unclaimed_checksetup [OF p(2)]
    by (simp add: unknown_bootoption_def repair_env_string_def note_overflow_def Let_def list_update_append)
qed

lemma unknown_plain:
  assumes h: "holds_lists lib s l" and p: "NUL \<notin> set p" "unclaimed lib p" "CHR ''.'' \<notin> set p"
    and room: "length (fst l) \<le> MAX_INIT_ARGS lib"
  shows "unknown_bootoption lib (p @ [NUL]) None s = Inr (s\<lparr>argv_init := filled (MAX_INIT_ARGS lib + 2) (fst l @ [p])\<rparr>)"
proof -
  let ?n = "MAX_INIT_ARGS lib" and ?r = "replicate (MAX_INIT_ARGS lib + 2 - length (fst l) - 1) None"
  have "argv_init s = map Some (fst l) @ None # ?r" using h filled_split [of "fst l" "?n + 2"] room by (simp add: holds_lists_def)
  moreover have "map Some (fst l @ [p]) @ ?r = filled (?n + 2) (fst l @ [p])" by (simp add: filled_def)
  ultimately show ?thesis using unknown_word [OF _ _ room p, of s ?r] h by (simp add: holds_lists_def)
qed

text \<open>The part of \<open>unknown_bootoption\<close> after the repair, for an option with a value that nobody claims.\<close>

lemma unknown_value:
  assumes h: "holds_lists lib s l" and opt: "option_ok opt" "snd (layout opt) = Some v" and un: "unclaimed lib (option_text opt)"
    and dot: "\<And>d. find_char CHR ''.'' (option_text opt) = Some d \<Longrightarrow> \<not> d < v"
    and loop: "env_loop (MAX_INIT_ENVS lib) (option_text opt) v 0 False (envp_init s) = Inr (i, False)"
  shows "unknown_bootoption lib (fst (layout opt)) (Some v) s = Inr (s\<lparr>envp_init := (envp_init s)[i := Some (option_text opt)]\<rparr>)"
proof -
  obtain buf where buf: "repair_env_string (fst (layout opt)) (Some v) = Inr buf" "cstr buf 0 = option_text opt"
    using repair_layout [OF opt(1)] opt(2) by metis
  have "\<not> (case find_char CHR ''.'' (option_text opt) of None \<Rightarrow> False | Some d \<Rightarrow> Some v = None \<or> d < the (Some v))"
    using dot by (cases "find_char CHR ''.'' (option_text opt)") auto
  then show ?thesis
    using h loop buf unclaimed_checksetup [OF un]
    by (simp add: unknown_bootoption_def note_overflow_def holds_lists_def Let_def)
qed

lemma unknown_equals:
  assumes h: "holds_lists lib s l" and p: "option_ok (Equals p v)" "unclaimed lib (p @ CHR ''='' # v)" "CHR ''.'' \<notin> set p"
    and room: "length (env_put p (p @ ''='' @ v) (snd l)) \<le> MAX_INIT_ENVS lib"
  shows "unknown_bootoption lib (p @ NUL # v @ [NUL]) (Some (length p + 1)) s
    = Inr (s\<lparr>envp_init := filled (MAX_INIT_ENVS lib + 2) (env_put p (p @ ''='' @ v) (snd l))\<rparr>)"
proof -
  let ?n = "MAX_INIT_ENVS lib" and ?t = "p @ CHR ''='' # v" and ?es = "snd l"
  have same: "strncmp_eq ?t e (length p + 1) \<longleftrightarrow> prefix (p @ ''='') e" for e using p(1) by (intro strncmp_name) simp
  have dot: "\<not> d < length p + 1" if "find_char CHR ''.'' ?t = Some d" for d using dot_first [OF that] p(3) by simp
  have len: "length ?es \<le> ?n" using env_put_length [of ?es p "p @ ''='' @ v"] room by simp
  have env: "envp_init s = filled (?n + 2) ?es" using h by (simp add: holds_lists_def)
  show ?thesis
  proof (cases "\<exists>e\<in>set ?es. prefix (p @ ''='') e")
    case True
    then obtain us e ws where sp: "?es = us @ e # ws" "\<forall>u\<in>set us. \<not> prefix (p @ ''='') u" "prefix (p @ ''='') e"
      using split_list_first_prop [of ?es "prefix (p @ ''='')"] by blast
    have "envp_init s = map Some us @ Some e # map Some ws @ replicate (?n + 2 - length ?es) None"
      using env sp(1) by (simp add: filled_def)
    then have "env_loop ?n ?t (length p + 1) 0 False (envp_init s) = Inr (length us, False)"
      using env_loop_first [of us ?t "length p + 1" e 0 ?n] sp len same by simp
    moreover have "(envp_init s)[length us := Some ?t] = filled (?n + 2) (env_put p ?t ?es)"
      using env env_put_split [OF sp, of ?t] sp(1) by (simp add: filled_def list_update_append)
    ultimately show ?thesis using unknown_value [OF h p(1), of "length p + 1" "length us"] p(2) dot by simp
  next
    case False
    then have "env_loop ?n ?t (length p + 1) 0 False (envp_init s) = Inr (length ?es, False)"
      using env env_loop_none [of ?es ?t "length p + 1" ?n 0 False] filled_split [of ?es "?n + 2"] len same by simp
    moreover have "(envp_init s)[length ?es := Some ?t] = filled (?n + 2) (env_put p ?t ?es)"
      using env env_put_none [of ?es p ?t] False len filled_snoc [of ?es "?n + 2" ?t] by simp
    ultimately show ?thesis using unknown_value [OF h p(1), of "length p + 1" "length ?es"] p(2) dot by simp
  qed
qed

lemma unknown_dotted:
  assumes "option_ok opt" "unquoted opt" "unclaimed lib (option_text opt)" "CHR ''.'' \<in> set (option_name opt)"
  shows "unknown_bootoption lib (fst (layout opt)) (snd (layout opt)) s = Inr s"
proof -
  obtain buf where buf: "repair_env_string (fst (layout opt)) (snd (layout opt)) = Inr buf" "cstr buf 0 = option_text opt"
    by (rule repair_layout [OF assms(1)])
  have "CHR ''.'' \<in> set (option_text opt)" using assms(4) by (cases opt) auto
  then obtain d where d: "find_char CHR ''.'' (option_text opt) = Some d" using find_char_None by fastforce
  have "snd (layout opt) = None \<or> d < the (snd (layout opt))"
    using assms(2,4) d dot_first by (cases opt) auto
  then show ?thesis using buf d unclaimed_checksetup [OF assms(3)] by (simp add: unknown_bootoption_def Let_def)
qed

lemma unknown_hands_over:
  assumes h: "holds_lists lib s l" and opt: "option_ok opt" "unquoted opt" "unclaimed lib (option_text opt)"
    and room: "length (fst (hand_over opt l)) \<le> MAX_INIT_ARGS lib + 1" "length (snd (hand_over opt l)) \<le> MAX_INIT_ENVS lib"
  obtains s' where "unknown_bootoption lib (fst (layout opt)) (snd (layout opt)) s = Inr s'" "holds_lists lib s' (hand_over opt l)"
proof (cases "CHR ''.'' \<in> set (option_name opt)")
  case True
  have "hand_over opt l = l" using True by (cases opt; cases l) auto
  then show ?thesis using that unknown_dotted [OF opt True, of s] h by simp
next
  case False
  show ?thesis
  proof (cases opt)
    case (Plain p)
    have "length (fst l) \<le> MAX_INIT_ARGS lib" using room(1) Plain False by (cases l) auto
    from unknown_plain [OF h _ _ _ this, of p] show ?thesis
      using that Plain False opt h by (cases l) (auto simp: holds_lists_def)
  next
    case (Equals p v)
    have "length (env_put p (p @ ''='' @ v) (snd l)) \<le> MAX_INIT_ENVS lib" using room(2) Equals False by (cases l) auto
    from unknown_equals [OF h _ _ _ this] show ?thesis
      using that Equals False opt h by (cases l) (auto simp: holds_lists_def)
  qed (use opt(2) in auto)
qed

lemma hand_over_grows:
  "length (fst l) \<le> length (fst (hand_over opt l))" "length (snd l) \<le> length (snd (hand_over opt l))"
  by (cases opt; cases l; auto simp: env_put_length)+

lemma fold_hand_over_grows:
  "length (fst l) \<le> length (fst (fold hand_over opts l))" "length (snd l) \<le> length (snd (fold hand_over opts l))"
proof (induction opts arbitrary: l)
  case (Cons opt opts)
  case 1
  then show ?case using Cons(1) [of "hand_over opt l"] hand_over_grows(1) [of l opt] by simp
  case 2
  then show ?case using Cons(2) [of "hand_over opt l"] hand_over_grows(2) [of l opt] by simp
qed simp_all

text \<open>The variables other than the arrays stay as they are when an option goes to them.\<close>

definition programs_same :: "boot \<Rightarrow> boot \<Rightarrow> bool" where
  "programs_same s s' \<longleftrightarrow> execute_command s' = execute_command s \<and> ramdisk_execute_command s' = ramdisk_execute_command s"

lemma unknown_keeps_programs:
  assumes "option_ok opt" "unclaimed lib (option_text opt)" "unknown_bootoption lib (fst (layout opt)) (snd (layout opt)) s = Inr s'"
  shows "programs_same s s'"
proof -
  obtain buf where buf: "repair_env_string (fst (layout opt)) (snd (layout opt)) = Inr buf" "cstr buf 0 = option_text opt"
    by (rule repair_layout [OF assms(1)])
  have c: "obsolete_checksetup lib (option_text opt) s = (False, s)" by (rule unclaimed_checksetup [OF assms(2)])
  show ?thesis
    using assms(3) buf c
    by (auto simp: unknown_bootoption_def Let_def programs_same_def note_overflow_def checked_bind_def
        split: if_splits option.splits sum.splits prod.splits)
qed

lemma run_hands_over:
  assumes "holds_lists lib s l" "\<forall>opt\<in>set opts. option_ok opt \<and> unquoted opt \<and> unclaimed lib (option_text opt)"
    "length (fst (fold hand_over opts l)) \<le> MAX_INIT_ARGS lib + 1" "length (snd (fold hand_over opts l)) \<le> MAX_INIT_ENVS lib"
  shows "\<exists>s'. run_parsed (unknown_bootoption lib) (map unknown_of opts) s = Inr s' \<and> holds_lists lib s' (fold hand_over opts l)
    \<and> programs_same s s'"
  using assms
proof (induction opts arbitrary: s l)
  case (Cons opt opts)
  have "length (fst (hand_over opt l)) \<le> MAX_INIT_ARGS lib + 1" "length (snd (hand_over opt l)) \<le> MAX_INIT_ENVS lib"
    using Cons.prems(3,4) fold_hand_over_grows [of "hand_over opt l" opts] by auto
  then obtain s1 where s1: "unknown_bootoption lib (fst (layout opt)) (snd (layout opt)) s = Inr s1" "holds_lists lib s1 (hand_over opt l)"
    using unknown_hands_over [OF Cons.prems(1), of opt] Cons.prems(2) by auto
  moreover have "programs_same s s1" using unknown_keeps_programs [OF _ _ s1(1)] Cons.prems(2) by simp
  ultimately show ?case using Cons.IH [OF s1(2)] Cons.prems(2-4) by (auto simp: unknown_of_def programs_same_def)
qed (simp add: programs_same_def)

text \<open>
  C17. The options of the command line that the kernel does not know reach the first program as the specification
  says: plain words in their order behind the arguments there were, settings with an equals sign into the environment,
  where they replace a variable of the same name, and nothing that looks like a parameter of a module. This holds for
  every list of unquoted options that no set-up function claims and that fits the arrays.
\<close>

theorem boot_options_handed_over:
  assumes "holds_lists lib s l" "\<forall>opt\<in>set opts. option_ok opt \<and> unquoted opt \<and> unclaimed lib (option_text opt)"
    "length (fst (fold hand_over opts l)) \<le> MAX_INIT_ARGS lib + 1" "length (snd (fold hand_over opts l)) \<le> MAX_INIT_ENVS lib"
  shows "\<exists>s'. run_parsed (unknown_bootoption lib) (map unknown_of opts) s = Inr s' \<and> holds_lists lib s' (fold hand_over opts l)"
  using run_hands_over [OF assms] by blast

lemma demo_holds: "0 < n \<Longrightarrow> holds_lists (demo_lib n) (demo_boot n line) ([''init''], [''HOME=/'', ''TERM=linux''])"
  by (cases n) (simp_all add: holds_lists_def demo_boot_def argv_init_start_def envp_init_start_def filled_def MAX_INIT_ARGS_def
      MAX_INIT_ENVS_def demo_lib_def)

theorem boot_options_handed_over_witness:
  "\<exists>s'. run_parsed (unknown_bootoption (demo_lib 4)) (map unknown_of [Plain ''single'', Equals ''TERM'' ''vt100'', Plain ''usb.x'']) (demo_boot 4 [])
      = Inr s' \<and> holds_lists (demo_lib 4) s' ([''init'', ''single''], [''HOME=/'', ''TERM=vt100''])"
  using boot_options_handed_over [OF demo_holds [of 4 "[]"], of "[Plain ''single'', Equals ''TERM'' ''vt100'', Plain ''usb.x'']"]
  by (simp add: unclaimed_def setup_table_def main_setups_def demo_lib_def MAX_INIT_ARGS_def MAX_INIT_ENVS_def)

section \<open>Quoted values and a forgotten argument\<close>

text \<open>
  The pointer \<open>val\<close> of \<open>unknown_bootoption\<close> is not moved when \<open>repair_env_string\<close> removes the quote, so the
  comparison takes in the first character of the value.
\<close>

lemma strncmp_quoted:
  assumes "NUL \<notin> set p" "NUL \<notin> set v" "v \<noteq> []"
  shows "strncmp_eq (p @ CHR ''='' # v) e (length p + 2) \<longleftrightarrow> prefix (p @ [CHR ''='', hd v]) e"
  using strncmp_prefix [of "p @ [CHR ''='', hd v]" "tl v" e] assms by (cases v) simp_all

text \<open>
  An environment setting with a quoted value does not replace the variable it names: when no variable of that
  name starts with the same character, the setting is added behind it, and the first program finds the name twice, the
  old value first.
\<close>

theorem quoted_setting_is_doubled:
  assumes "holds_lists lib s (args, envs)" "option_ok (Quoted p v)" "unclaimed lib (p @ ''='' @ v)" "v \<noteq> []"
    "CHR ''.'' \<notin> set (p @ v)" "\<forall>e\<in>set envs. \<not> prefix (p @ [CHR ''='', hd v]) e" "length envs \<le> MAX_INIT_ENVS lib"
  shows "\<exists>s'. unknown_bootoption lib (fst (layout (Quoted p v))) (snd (layout (Quoted p v))) s = Inr s'
    \<and> holds_lists lib s' (args, envs @ [p @ ''='' @ v])"
proof -
  let ?n = "MAX_INIT_ENVS lib" and ?t = "p @ CHR ''='' # v"
  have env: "envp_init s = filled (?n + 2) envs" using assms(1) by (simp add: holds_lists_def)
  have "env_loop ?n ?t (length p + 2) 0 False (envp_init s) = Inr (length envs, False)"
    using env env_loop_none [of envs ?t "length p + 2" ?n 0 False] filled_split [of envs "?n + 2"] assms(2,4,6,7) strncmp_quoted
    by simp
  moreover have "find_char CHR ''.'' ?t = None" using assms(5) by (simp add: find_char_None)
  ultimately have "unknown_bootoption lib (fst (layout (Quoted p v))) (Some (length p + 2)) s
      = Inr (s\<lparr>envp_init := filled (?n + 2) (envs @ [?t])\<rparr>)"
    using unknown_value [OF assms(1,2), of "length p + 2" "length envs"] assms(3,7) env filled_snoc [of envs "?n + 2" ?t] by simp
  then show ?thesis using assms(1) by (simp add: holds_lists_def)
qed

theorem quoted_setting_is_doubled_witness:
  "\<exists>s'. unknown_bootoption (demo_lib 4) (fst (layout (Quoted ''TERM'' ''vt100''))) (snd (layout (Quoted ''TERM'' ''vt100''))) (demo_boot 4 [])
      = Inr s' \<and> holds_lists (demo_lib 4) s' ([''init''], [''HOME=/'', ''TERM=linux'', ''TERM=vt100''])"
  using quoted_setting_is_doubled [OF demo_holds [of 4 "[]"], of "''TERM''" "''vt100''"]
  by (simp add: unclaimed_def setup_table_def main_setups_def demo_lib_def MAX_INIT_ENVS_def)

lemma run_words:
  assumes "panic_later s = None" "argv_init s = map Some ts @ replicate (length ps) None @ r"
    "length ts + length ps \<le> MAX_INIT_ARGS lib" "\<forall>p\<in>set ps. NUL \<notin> set p \<and> unclaimed lib p \<and> CHR ''.'' \<notin> set p"
  shows "run_parsed (unknown_bootoption lib) (map (\<lambda>p. unknown_of (Plain p)) ps) s = Inr (s\<lparr>argv_init := map Some (ts @ ps) @ r\<rparr>)"
  using assms
proof (induction ps arbitrary: s ts)
  case (Cons p ps)
  let ?s = "s\<lparr>argv_init := map Some (ts @ [p]) @ replicate (length ps) None @ r\<rparr>"
  have "unknown_bootoption lib (p @ [NUL]) None s = Inr ?s"
    using unknown_word [of s ts "replicate (length ps) None @ r" lib p] Cons.prems by simp
  then show ?case using Cons.IH [of ?s "ts @ [p]"] Cons.prems by (simp add: unknown_of_def)
qed simp

lemma clear_args_full:
  assumes "length as = MAX_INIT_ARGS lib - 1" "0 < MAX_INIT_ARGS lib"
  shows "clear_args lib (Some a # map Some as @ [Some x, None]) = Some a # replicate (length as) None @ [Some x, None]"
proof (rule nth_equalityI)
  show "length (clear_args lib (Some a # map Some as @ [Some x, None])) = length (Some a # replicate (length as) None @ [Some x, None])"
    by simp
  fix i assume "i < length (clear_args lib (Some a # map Some as @ [Some x, None]))"
  then have i: "i < length as + 3" by simp
  then have "clear_args lib (Some a # map Some as @ [Some x, None]) ! i
      = (if 1 \<le> i \<and> i < MAX_INIT_ARGS lib then None else (Some a # map Some as @ [Some x, None]) ! i)"
    by (intro clear_args_nth) simp
  moreover have "i = 0 \<or> (\<exists>j. i = Suc j \<and> j < length as) \<or> i = Suc (length as) \<or> i = Suc (Suc (length as))"
    using i by (cases i) (auto simp: less_Suc_eq numeral_eq_Suc)
  ultimately show "clear_args lib (Some a # map Some as @ [Some x, None]) ! i = (Some a # replicate (length as) None @ [Some x, None]) ! i"
    using assms by (auto simp: nth_append)
qed

text \<open>
  The set-up function of \<open>init=\<close> means to forget all arguments entered before it, but its loop ends one element too
  early: an argument that stood in the last place survives, and when the places before it are filled again it reaches the
  chosen program as its last argument.
\<close>

theorem argument_before_init_survives:
  assumes "0 < MAX_INIT_ARGS lib" "panic_later s = None"
    "argv_init s = filled (MAX_INIT_ARGS lib + 2) (a # as @ [x])" "length as = MAX_INIT_ARGS lib - 1"
    "length ps = length as" "\<forall>p\<in>set ps. NUL \<notin> set p \<and> unclaimed lib p \<and> CHR ''.'' \<notin> set p"
  shows "\<exists>s'. run_parsed (unknown_bootoption lib) (map (\<lambda>p. unknown_of (Plain p)) ps) (snd (init_setup lib (Some prog) s)) = Inr s'
    \<and> argv_init s' = filled (MAX_INIT_ARGS lib + 2) (a # ps @ [x]) \<and> panic_later s' = None \<and> execute_command s' = Some prog"
proof -
  let ?t = "snd (init_setup lib (Some prog) s)"
  have full: "argv_init s = Some a # map Some as @ [Some x, None]"
    using assms(1,3,4) by (simp add: filled_def numeral_eq_Suc)
  have "argv_init ?t = map Some [a] @ replicate (length ps) None @ [Some x, None]"
    using clear_args_full [OF assms(4,1)] full assms(5) by (simp add: init_setup_def)
  moreover have "panic_later ?t = None" using assms(2) by (simp add: init_setup_def)
  ultimately have "run_parsed (unknown_bootoption lib) (map (\<lambda>p. unknown_of (Plain p)) ps) ?t
      = Inr (?t\<lparr>argv_init := map Some ([a] @ ps) @ [Some x, None]\<rparr>)"
    using assms(1,4-6) by (intro run_words) auto
  moreover have "map Some ([a] @ ps) @ [Some x, None] = filled (MAX_INIT_ARGS lib + 2) (a # ps @ [x])"
    using assms(1,4,5) by (simp add: filled_def numeral_eq_Suc)
  ultimately show ?thesis using assms(2) by (simp add: init_setup_def)
qed

theorem argument_before_init_survives_witness:
  "\<exists>s'. run_parsed (unknown_bootoption (demo_lib 2)) (map (\<lambda>p. unknown_of (Plain p)) [''c''])
        (snd (init_setup (demo_lib 2) (Some ''/bin/sh'') ((demo_boot 2 [])\<lparr>argv_init := filled 4 [''init'', ''a'', ''b'']\<rparr>))) = Inr s'
    \<and> argv_init s' = filled 4 [''init'', ''c'', ''b''] \<and> panic_later s' = None \<and> execute_command s' = Some ''/bin/sh''"
proof -
  let ?s = "(demo_boot 2 [])\<lparr>argv_init := filled 4 [''init'', ''a'', ''b'']\<rparr>"
  have n: "MAX_INIT_ARGS (demo_lib 2) = 2" by (simp add: MAX_INIT_ARGS_def demo_lib_def)
  have u: "unclaimed (demo_lib 2) ''c''" by (simp add: unclaimed_def setup_table_def main_setups_def demo_lib_def)
  show ?thesis
    using argument_before_init_survives [of "demo_lib 2" ?s "''init''" "[''a'']" "''b''" "[''c'']" "''/bin/sh''"] n u
    by (simp add: demo_boot_def)
qed

end
