(* ===== verification/Kernel_Initcalls.thy ===== *)
theory Kernel_Initcalls
  imports Kernel_Options
begin

text \<open>
  The initcalls of \<open>init/main.c\<close>: functions linked into the kernel that are run level by level. What an initcall does is a
  parameter; this file sees only its result and what it leaves of the preemption counter and of the interrupt flag. Every
  call of a function outside the file is recorded in \<open>trace\<close>, with the state of the interrupts at that moment.
\<close>

unbundle bit_operations_syntax

section \<open>State\<close>

record cpu =
  preempt_count :: c_int
  irqs_disabled :: bool

record initcall =
  ic_symbol :: string
  ic_fn :: "cpu \<Rightarrow> c_int \<times> cpu"

datatype event =
    External string bool bool      \<comment> \<open>function, early_boot_irqs_disabled, interrupts disabled\<close>
  | Initcall string
  | Exec string "string option list" "string option list"

datatype system_states = SYSTEM_BOOTING | SYSTEM_SCHEDULING | SYSTEM_RUNNING

record sys =
  boot_of :: boot
  cpu_of :: cpu
  early_boot_irqs_disabled :: bool
  system_state :: system_states
  gfp_allowed_mask :: "32 word"
  cad_pid :: "c_int option"
  initrd_start :: "64 word"
  clock :: nat
  trace :: "event list"

definition log_line :: "string \<Rightarrow> sys \<Rightarrow> sys" where
  "log_line t s = s\<lparr>boot_of := pr t (boot_of s)\<rparr>"

section \<open>One initcall\<close>

text \<open>The name of a function as \<open>sprint_symbol_no_offset\<close> prints it, without the name of a module behind a space.\<close>

definition initcall_blacklisted :: "string list \<Rightarrow> initcall \<Rightarrow> bool" where
  "initcall_blacklisted entries fn =
     (if entries = [] then False
      else let fn_name = takeWhile (\<lambda>c. c \<noteq> CHR '' '') (ic_symbol fn) in list_ex (\<lambda>buf. fn_name = buf) entries)"

definition run_initcall :: "initcall \<Rightarrow> sys \<Rightarrow> c_int \<times> sys" where
  "run_initcall fn s =
     (let (ret, c) = ic_fn fn (cpu_of s) in (ret, s\<lparr>cpu_of := c, trace := trace s @ [Initcall (ic_symbol fn)]\<rparr>))"

definition local_clock :: "(nat \<Rightarrow> 64 word) \<Rightarrow> sys \<Rightarrow> 64 word \<times> sys" where
  "local_clock time s = (time (clock s), s\<lparr>clock := Suc (clock s)\<rparr>)"

definition do_one_initcall_debug :: "(nat \<Rightarrow> 64 word) \<Rightarrow> c_int \<Rightarrow> initcall \<Rightarrow> sys \<Rightarrow> c_int \<times> sys" where
  "do_one_initcall_debug time cur fn s =
     (let s = log_line (''calling  '' @ ic_symbol fn @ '' @ '' @ show_int (sint cur)) s;
          (calltime, s) = local_clock time s;
          (ret, s) = run_initcall fn s;
          (rettime, s) = local_clock time s;
          delta = rettime - calltime;
          duration = drop_bit 10 delta in
      (ret, log_line (''initcall '' @ ic_symbol fn @ '' returned '' @ show_int (sint ret) @ '' after '' @ show_int (sint duration) @ '' usecs'') s))"

definition strlcat :: "string \<Rightarrow> string \<Rightarrow> nat \<Rightarrow> string" where
  "strlcat buf t n = take (n - 1) (buf @ t)"

definition do_one_initcall :: "(nat \<Rightarrow> 64 word) \<Rightarrow> c_int \<Rightarrow> initcall \<Rightarrow> sys \<Rightarrow> c_int \<times> sys" where
  "do_one_initcall time cur fn s =
     (let count = preempt_count (cpu_of s) in
      if initcall_blacklisted (blacklisted_initcalls (boot_of s)) fn then (- 1, s)
      else
        let (ret, s) = (if initcall_debug (boot_of s) then do_one_initcall_debug time cur fn s else run_initcall fn s);
            msgbuf = [];
            (msgbuf, s) = (if preempt_count (cpu_of s) \<noteq> count
              then (''preemption imbalance '', s\<lparr>cpu_of := (cpu_of s)\<lparr>preempt_count := count\<rparr>\<rparr>) else (msgbuf, s));
            (msgbuf, s) = (if irqs_disabled (cpu_of s)
              then (strlcat msgbuf ''disabled interrupts '' 64, s\<lparr>cpu_of := (cpu_of s)\<lparr>irqs_disabled := False\<rparr>\<rparr>) else (msgbuf, s));
            s = (if msgbuf \<noteq> [] then log_line (''initcall '' @ ic_symbol fn @ '' returned with '' @ msgbuf) s else s) in
        (ret, s))"

section \<open>Levels\<close>

text \<open>The functions between the linker symbols: those before \<open>__initcall0_start\<close>, and those of each level.\<close>

record call_table =
  early_calls :: "initcall list"
  level_calls :: "nat \<Rightarrow> initcall list"

definition initcall_levels :: "call_table \<Rightarrow> initcall list list" where
  "initcall_levels table = map (level_calls table) [0..<8]"

definition run_calls :: "(nat \<Rightarrow> 64 word) \<Rightarrow> c_int \<Rightarrow> initcall list \<Rightarrow> sys \<Rightarrow> sys" where
  "run_calls time cur fns s = fold (\<lambda>fn s. snd (do_one_initcall time cur fn s)) fns s"

definition do_pre_smp_initcalls :: "(nat \<Rightarrow> 64 word) \<Rightarrow> c_int \<Rightarrow> call_table \<Rightarrow> sys \<Rightarrow> sys" where
  "do_pre_smp_initcalls time cur table s = run_calls time cur (early_calls table) s"

definition do_initcall_level :: "kernel_lib \<Rightarrow> (nat \<Rightarrow> 64 word) \<Rightarrow> c_int \<Rightarrow> call_table \<Rightarrow> nat \<Rightarrow> sys \<Rightarrow> boot_fault + sys" where
  "do_initcall_level lib time cur table level s =
     (let b = (boot_of s)\<lparr>initcall_command_line := saved_command_line (boot_of s)\<rparr> in
      checked_bind (run_parsed (\<lambda>buf val b. checked_bind (repair_env_string buf val) (\<lambda>_. Inr b))
          (fst (parse_args lib True (int level) (initcall_command_line b))) b)
        (\<lambda>b. Inr (run_calls time cur (initcall_levels table ! level) (s\<lparr>boot_of := b\<rparr>))))"

fun initcalls_from :: "kernel_lib \<Rightarrow> (nat \<Rightarrow> 64 word) \<Rightarrow> c_int \<Rightarrow> call_table \<Rightarrow> nat list \<Rightarrow> sys \<Rightarrow> boot_fault + sys" where
  "initcalls_from lib time cur table [] s = Inr s"
| "initcalls_from lib time cur table (level # levels) s =
     checked_bind (do_initcall_level lib time cur table level s) (initcalls_from lib time cur table levels)"

definition do_initcalls :: "kernel_lib \<Rightarrow> (nat \<Rightarrow> 64 word) \<Rightarrow> c_int \<Rightarrow> call_table \<Rightarrow> sys \<Rightarrow> boot_fault + sys" where
  "do_initcalls lib time cur table s = initcalls_from lib time cur table [0..<length (initcall_levels table)] s"

section \<open>What the initcalls leave behind\<close>

definition ran :: "sys \<Rightarrow> string list" where
  "ran s = concat (map (\<lambda>e. case e of Initcall t \<Rightarrow> [t] | _ \<Rightarrow> []) (trace s))"

definition execs :: "sys \<Rightarrow> (string \<times> string option list \<times> string option list) list" where
  "execs s = concat (map (\<lambda>e. case e of Exec f argv envp \<Rightarrow> [(f, argv, envp)] | _ \<Rightarrow> []) (trace s))"

definition allowed :: "string list \<Rightarrow> initcall list \<Rightarrow> initcall list" where
  "allowed entries fns = filter (\<lambda>fn. \<not> initcall_blacklisted entries fn) fns"

text \<open>What a run of initcalls does not change.\<close>

definition same_rest :: "sys \<Rightarrow> sys \<Rightarrow> bool" where
  "same_rest s s' \<longleftrightarrow> blacklisted_initcalls (boot_of s') = blacklisted_initcalls (boot_of s)
     \<and> saved_command_line (boot_of s') = saved_command_line (boot_of s) \<and> handed (boot_of s') = handed (boot_of s)
     \<and> execute_command (boot_of s') = execute_command (boot_of s)
     \<and> ramdisk_execute_command (boot_of s') = ramdisk_execute_command (boot_of s)
     \<and> early_boot_irqs_disabled s' = early_boot_irqs_disabled s \<and> system_state s' = system_state s"

lemma same_rest_refl [simp]: "same_rest s s"
  by (simp add: same_rest_def)

lemma same_rest_trans: "same_rest s t \<Longrightarrow> same_rest t u \<Longrightarrow> same_rest s u"
  by (simp add: same_rest_def)

lemma log_line_fields [simp]:
  "cpu_of (log_line t s) = cpu_of s" "trace (log_line t s) = trace s" "ran (log_line t s) = ran s" "execs (log_line t s) = execs s"
  "same_rest s (log_line t s)" "initcall_debug (boot_of (log_line t s)) = initcall_debug (boot_of s)"
  by (simp_all add: log_line_def pr_def ran_def execs_def same_rest_def handed_def)

lemma run_initcall_fields:
  assumes "run_initcall fn s = (ret, s')"
  shows "ran s' = ran s @ [ic_symbol fn]" "same_rest s s'" "execs s' = execs s"
  using assms by (auto simp: run_initcall_def ran_def execs_def same_rest_def split: prod.splits)

lemma do_one_initcall_debug_fields:
  assumes "do_one_initcall_debug time cur fn s = (ret, s')"
  shows "ran s' = ran s @ [ic_symbol fn]" "same_rest s s'" "execs s' = execs s"
  using assms
  by (auto simp: do_one_initcall_debug_def local_clock_def run_initcall_def ran_def execs_def same_rest_def log_line_def pr_def handed_def Let_def
      split: prod.splits)

lemma do_one_initcall_spec:
  assumes "do_one_initcall time cur fn s = (ret, s')"
  shows "ran s' = ran s @ map ic_symbol (allowed (blacklisted_initcalls (boot_of s)) [fn])" "same_rest s s'"
    "\<not> irqs_disabled (cpu_of s) \<Longrightarrow> cpu_of s' = cpu_of s" "execs s' = execs s"
proof -
  have "ran s' = ran s @ map ic_symbol (allowed (blacklisted_initcalls (boot_of s)) [fn]) \<and> same_rest s s'
    \<and> (\<not> irqs_disabled (cpu_of s) \<longrightarrow> cpu_of s' = cpu_of s) \<and> execs s' = execs s"
  proof (cases "initcall_blacklisted (blacklisted_initcalls (boot_of s)) fn")
    case True
    then show ?thesis using assms by (simp add: do_one_initcall_def allowed_def)
  next
    case False
    define t where "t = (if initcall_debug (boot_of s) then do_one_initcall_debug time cur fn s else run_initcall fn s)"
    obtain r u where u: "t = (r, u)" by fastforce
    have t: "ran u = ran s @ [ic_symbol fn]" "same_rest s u" "execs u = execs s"
      using u do_one_initcall_debug_fields [of time cur fn s r u] run_initcall_fields [of fn s r u] unfolding t_def
      by (auto split: if_splits)
    have "ran s' = ran u \<and> execs s' = execs u \<and> same_rest u s' \<and> preempt_count (cpu_of s') = preempt_count (cpu_of s)
        \<and> \<not> irqs_disabled (cpu_of s')"
      using assms False u unfolding do_one_initcall_def t_def [symmetric]
      by (auto simp: Let_def strlcat_def ran_def execs_def same_rest_def log_line_def pr_def handed_def split: if_splits)
    moreover have "cpu_of s' = cpu_of s"
      if "preempt_count (cpu_of s') = preempt_count (cpu_of s)" "\<not> irqs_disabled (cpu_of s')" "\<not> irqs_disabled (cpu_of s)"
      using that by (intro cpu.equality) auto
    ultimately show ?thesis using t False same_rest_trans [OF t(2)] by (simp add: allowed_def)
  qed
  then show "ran s' = ran s @ map ic_symbol (allowed (blacklisted_initcalls (boot_of s)) [fn])" "same_rest s s'"
    "\<not> irqs_disabled (cpu_of s) \<Longrightarrow> cpu_of s' = cpu_of s" "execs s' = execs s" by blast+
qed

text \<open>What a stretch of initcalls does: it runs those allowed, in order, and leaves the rest of the state alone.\<close>

definition ran_calls :: "initcall list \<Rightarrow> sys \<Rightarrow> sys \<Rightarrow> bool" where
  "ran_calls fns s s' \<longleftrightarrow> ran s' = ran s @ map ic_symbol (allowed (blacklisted_initcalls (boot_of s)) fns) \<and> same_rest s s'
     \<and> (\<not> irqs_disabled (cpu_of s) \<longrightarrow> cpu_of s' = cpu_of s) \<and> execs s' = execs s"

lemma ran_calls_Nil: "ran_calls [] s s"
  by (simp add: ran_calls_def allowed_def)

lemma ran_calls_append:
  assumes "ran_calls fns s t" "ran_calls gns t u"
  shows "ran_calls (fns @ gns) s u"
  using assms same_rest_trans [of s t u] by (auto simp: ran_calls_def allowed_def same_rest_def)

lemma run_calls_spec: "ran_calls fns s (run_calls time cur fns s)"
proof (induction fns arbitrary: s)
  case (Cons fn fns)
  obtain ret t where t: "do_one_initcall time cur fn s = (ret, t)" by fastforce
  have "ran_calls [fn] s t" using do_one_initcall_spec [OF t] by (simp add: ran_calls_def)
  from ran_calls_append [OF this Cons.IH] show ?case using t by (simp add: run_calls_def)
qed (simp add: run_calls_def ran_calls_Nil)

lemma repair_run:
  assumes "args_ok as"
  obtains d where "run_parsed (\<lambda>buf val b. checked_bind (repair_env_string buf val) (\<lambda>_. Inr b)) as b = Inr (b\<lparr>initcall_debug := d\<rparr>)"
proof -
  have "\<exists>d. run_parsed (\<lambda>buf val b. checked_bind (repair_env_string buf val) (\<lambda>_. Inr b)) as b = Inr (b\<lparr>initcall_debug := d\<rparr>)"
    using assms
  proof (induction as arbitrary: b)
    case Nil
    have "b = b\<lparr>initcall_debug := initcall_debug b\<rparr>" by simp
    then show ?case by (metis run_parsed.simps(1))
  next
    case (Cons a as)
    have as: "args_ok as" using Cons.prems by (simp add: args_ok_def)
    from Cons.prems consider c where "a = Core_param c" | opt where "option_ok opt" "a = unknown_of opt" by (auto simp: args_ok_def)
    then show ?case
    proof cases
      case 1
      then show ?thesis using Cons.IH [OF as, of "b\<lparr>initcall_debug := c\<rparr>"] by simp
    next
      case 2
      obtain buf where "repair_env_string (fst (layout opt)) (snd (layout opt)) = Inr buf" by (rule repair_layout [OF 2(1)])
      then show ?thesis using Cons.IH [OF as, of b] 2(2) by (simp add: unknown_of_def)
    qed
  qed
  then show ?thesis using that by blast
qed

lemma do_initcall_level_spec:
  assumes lib: "parse_ok lib"
  obtains s' where "do_initcall_level lib time cur table level s = Inr s'" "ran_calls (initcall_levels table ! level) s s'"
proof -
  let ?b = "(boot_of s)\<lparr>initcall_command_line := saved_command_line (boot_of s)\<rparr>"
  obtain d where d: "run_parsed (\<lambda>buf val b. checked_bind (repair_env_string buf val) (\<lambda>_. Inr b))
      (fst (parse_args lib True (int level) (saved_command_line (boot_of s)))) ?b = Inr (?b\<lparr>initcall_debug := d\<rparr>)"
    using repair_run lib unfolding parse_ok_def by metis
  let ?t = "s\<lparr>boot_of := ?b\<lparr>initcall_debug := d\<rparr>\<rparr>"
  have "ran_calls [] s ?t" by (simp add: ran_calls_def allowed_def ran_def execs_def same_rest_def handed_def)
  from ran_calls_append [OF this run_calls_spec, of "initcall_levels table ! level" time cur] show ?thesis
    using that d by (simp add: do_initcall_level_def Let_def)
qed

lemma initcalls_from_spec:
  assumes lib: "parse_ok lib"
  shows "\<exists>s'. initcalls_from lib time cur table levels s = Inr s' \<and> ran_calls (concat (map (\<lambda>l. initcall_levels table ! l) levels)) s s'"
proof (induction levels arbitrary: s)
  case (Cons level levels)
  obtain t where t: "do_initcall_level lib time cur table level s = Inr t" "ran_calls (initcall_levels table ! level) s t"
    by (rule do_initcall_level_spec [OF lib])
  obtain s' where "initcalls_from lib time cur table levels t = Inr s'" "ran_calls (concat (map (\<lambda>l. initcall_levels table ! l) levels)) t s'"
    using Cons.IH by blast
  then show ?case using t(1) ran_calls_append [OF t(2)] by simp
qed (simp add: ran_calls_Nil)

lemma do_initcalls_spec:
  assumes "parse_ok lib"
  obtains s' where "do_initcalls lib time cur table s = Inr s'" "ran_calls (concat (map (level_calls table) [0..<8])) s s'"
proof -
  have "map (\<lambda>l. initcall_levels table ! l) [0..<length (initcall_levels table)] = map (level_calls table) [0..<8]"
    by (simp add: map_nth) (simp add: initcall_levels_def)
  then show ?thesis
    using that initcalls_from_spec [OF assms, of time cur table "[0..<length (initcall_levels table)]"] unfolding do_initcalls_def by auto
qed

text \<open>
  C28. The initcalls before SMP and those of the eight levels: every function that is not on the blacklist is called exactly
  once, in the order of the levels and of the link order within a level, whatever the functions return. Whatever the functions
  leave of the preemption counter and of the interrupt flag, afterwards both are as before.
\<close>

theorem initcalls_run_once_in_order:
  assumes "parse_ok lib" "\<not> irqs_disabled (cpu_of s)"
  shows "\<exists>s'. do_initcalls lib time cur table (do_pre_smp_initcalls time cur table s) = Inr s'
    \<and> ran s' = ran s @ map ic_symbol
        (filter (\<lambda>fn. \<not> initcall_blacklisted (blacklisted_initcalls (boot_of s)) fn) (early_calls table @ concat (map (level_calls table) [0..<8])))
    \<and> cpu_of s' = cpu_of s"
proof -
  have T: "ran_calls (early_calls table) s (do_pre_smp_initcalls time cur table s)"
    using run_calls_spec by (simp add: do_pre_smp_initcalls_def)
  obtain s' where s': "do_initcalls lib time cur table (do_pre_smp_initcalls time cur table s) = Inr s'"
    "ran_calls (concat (map (level_calls table) [0..<8])) (do_pre_smp_initcalls time cur table s) s'"
    by (rule do_initcalls_spec [OF assms(1)])
  from ran_calls_append [OF T s'(2)] show ?thesis using s'(1) assms(2) by (simp add: ran_calls_def allowed_def)
qed

definition demo_sys :: "string list \<Rightarrow> sys" where
  "demo_sys black =
     \<lparr>boot_of = (demo_boot 4 [])\<lparr>blacklisted_initcalls := black\<rparr>, cpu_of = \<lparr>preempt_count = 0, irqs_disabled = False\<rparr>,
      early_boot_irqs_disabled = False, system_state = SYSTEM_SCHEDULING, gfp_allowed_mask = 0, cad_pid = None, initrd_start = 0, clock = 0, trace = []\<rparr>"

definition demo_table :: call_table where
  "demo_table =
     \<lparr>early_calls = [\<lparr>ic_symbol = ''init_hw'', ic_fn = \<lambda>c. (0, c\<lparr>irqs_disabled := True, preempt_count := 3\<rparr>)\<rparr>],
      level_calls = (\<lambda>l. if l = 2 then [\<lparr>ic_symbol = ''pci_init [pci]'', ic_fn = \<lambda>c. (0, c)\<rparr>, \<lparr>ic_symbol = ''net_init'', ic_fn = \<lambda>c. (-5, c)\<rparr>]
        else if l = 7 then [\<lparr>ic_symbol = ''late'', ic_fn = \<lambda>c. (0, c)\<rparr>] else [])\<rparr>"

theorem initcalls_run_once_in_order_witness:
  "\<exists>s'. do_initcalls (demo_lib 4) (\<lambda>_. 0) 1 demo_table (do_pre_smp_initcalls (\<lambda>_. 0) 1 demo_table (demo_sys [''pci_init''])) = Inr s'
    \<and> ran s' = [''init_hw'', ''net_init'', ''late''] \<and> cpu_of s' = \<lparr>preempt_count = 0, irqs_disabled = False\<rparr>"
proof -
  have l: "[0..<8] = [0, 1, 2, 3, 4, 5, 6, 7]" by (simp add: upt_rec)
  show ?thesis
    using initcalls_run_once_in_order [OF demo_lib_ok(3), of "demo_sys [''pci_init'']" 4 "\<lambda>_. 0" 1 demo_table]
    by (simp add: demo_sys_def demo_table_def ran_def l initcall_blacklisted_def)
qed

end
