(* ===== verification/Kernel_Start.thy ===== *)
theory Kernel_Start
  imports Kernel_Initcalls
begin

text \<open>
  The start of the kernel in \<open>init/main.c\<close>: \<open>start_kernel\<close> up to \<open>rest_init\<close>, and what the first thread does in
  \<open>kernel_init\<close> until a program replaces it. Functions of other files are calls recorded in \<open>trace\<close>; what they do to the
  interrupt flag and the preemption counter, and what the system calls return, is the record \<open>kernel_os\<close>.
\<close>

section \<open>Calls of other files\<close>

record kernel_os =
  ext :: "string \<Rightarrow> cpu \<Rightarrow> cpu"
  linux_banner :: string
  arch_boot_line :: string
  arch_command_line :: string
  arch_parses_early :: bool
  initrd_below_start_ok :: bool
  initrd_pfn :: "64 word \<Rightarrow> 64 word"
  min_low_pfn :: "64 word"
  late_time_init :: bool
  efi_runtime_services :: bool
  ctors :: "string list"
  local_time :: "nat \<Rightarrow> 64 word"
  initcall_table :: call_table
  GFP_BITS_MASK :: "32 word"
  console_fd :: c_int
  sys_access :: "string \<Rightarrow> c_int"
  do_execve :: "nat \<Rightarrow> string \<Rightarrow> string option list \<Rightarrow> string option list \<Rightarrow> c_int"

definition call :: "kernel_os \<Rightarrow> string \<Rightarrow> sys \<Rightarrow> sys" where
  "call os name s =
     s\<lparr>cpu_of := ext os name (cpu_of s),
       trace := trace s @ [External name (early_boot_irqs_disabled s) (irqs_disabled (cpu_of s))]\<rparr>"

definition calls :: "kernel_os \<Rightarrow> string list \<Rightarrow> sys \<Rightarrow> sys" where
  "calls os names s = fold (call os) names s"

definition local_irq_disable :: "sys \<Rightarrow> sys" where
  "local_irq_disable s = s\<lparr>cpu_of := (cpu_of s)\<lparr>irqs_disabled := True\<rparr>\<rparr>"

definition local_irq_enable :: "sys \<Rightarrow> sys" where
  "local_irq_enable s = s\<lparr>cpu_of := (cpu_of s)\<lparr>irqs_disabled := False\<rparr>\<rparr>"

definition preempt_disable :: "sys \<Rightarrow> sys" where
  "preempt_disable s = s\<lparr>cpu_of := (cpu_of s)\<lparr>preempt_count := preempt_count (cpu_of s) + 1\<rparr>\<rparr>"

text \<open>
  \<open>setup_arch\<close> belongs to the architecture: it fills \<open>boot_command_line\<close>, hands back a command line, and may call
  \<open>parse_early_param\<close> itself.
\<close>

definition setup_arch :: "kernel_lib \<Rightarrow> kernel_os \<Rightarrow> sys \<Rightarrow> boot_fault + sys" where
  "setup_arch lib os s =
     (let s = call os ''setup_arch'' s; b = (boot_of s)\<lparr>boot_command_line := arch_boot_line os\<rparr> in
      checked_bind (if arch_parses_early os then parse_early_param lib b else Inr b) (\<lambda>b. Inr (s\<lparr>boot_of := b\<rparr>)))"

section \<open>start_kernel\<close>

datatype outcome = Returned c_int | Panicked string

definition mm_init :: "kernel_os \<Rightarrow> sys \<Rightarrow> sys" where
  "mm_init os s = calls os [''page_ext_init_flatmem'', ''mem_init'', ''kmem_cache_init'', ''pgtable_init'', ''vmalloc_init'',
     ''ioremap_huge_init'', ''init_espfix_bsp'', ''pti_init''] s"

definition start_locked :: "kernel_lib \<Rightarrow> kernel_os \<Rightarrow> sys \<Rightarrow> boot_fault + sys" where
  "start_locked lib os s =
     (let s = calls os [''set_task_stack_end_magic'', ''smp_setup_processor_id'', ''debug_objects_early_init'', ''cgroup_init_early''] s;
          s = local_irq_disable s;
          s = s\<lparr>early_boot_irqs_disabled := True\<rparr>;
          s = calls os [''boot_cpu_init'', ''page_address_init''] s;
          s = log_line (linux_banner os) s in
      checked_bind (setup_arch lib os s) (\<lambda>s.
        let s = call os ''mm_init_cpumask'' s;
            s = s\<lparr>boot_of := setup_command_line (arch_command_line os) (boot_of s)\<rparr> in
        Inr (calls os [''setup_nr_cpu_ids'', ''setup_per_cpu_areas'', ''smp_prepare_boot_cpu'', ''boot_cpu_hotplug_init'',
          ''build_all_zonelists'', ''page_alloc_init''] s)))"

definition start_params :: "kernel_lib \<Rightarrow> kernel_os \<Rightarrow> sys \<Rightarrow> boot_fault + sys" where
  "start_params lib os s =
     (let s = log_line (''Kernel command line: '' @ boot_command_line (boot_of s)) s;
          s = call os ''jump_label_init'' s in
      checked_bind (parse_boot_line lib (boot_of s)) (\<lambda>b. Inr (s\<lparr>boot_of := b\<rparr>)))"

definition start_sched :: "kernel_os \<Rightarrow> sys \<Rightarrow> sys" where
  "start_sched os s =
     (let s = calls os [''setup_log_buf'', ''vfs_caches_init_early'', ''sort_main_extable'', ''trap_init''] s;
          s = mm_init os s;
          s = calls os [''ftrace_init'', ''early_trace_init'', ''sched_init''] s;
          s = preempt_disable s;
          s = (if \<not> irqs_disabled (cpu_of s)
               then local_irq_disable (log_line ''Interrupts were enabled *very* early, fixing it'' s) else s) in
      calls os [''radix_tree_init'', ''housekeeping_init'', ''workqueue_init_early'', ''rcu_init'', ''trace_init'', ''context_tracking_init''] s)"

definition start_irqs :: "kernel_os \<Rightarrow> sys \<Rightarrow> sys" where
  "start_irqs os s =
     (let s = calls os [''early_irq_init'', ''init_IRQ'', ''tick_init'', ''rcu_init_nohz'', ''init_timers'', ''hrtimers_init'',
            ''softirq_init'', ''timekeeping_init'', ''time_init'', ''random_init'', ''boot_init_stack_canary'', ''sched_clock_postinit'',
            ''printk_safe_init'', ''perf_event_init'', ''profile_init'', ''call_function_init''] s;
          s = (if \<not> irqs_disabled (cpu_of s) then log_line ''Interrupts were enabled early'' s else s);
          s = s\<lparr>early_boot_irqs_disabled := False\<rparr> in
      local_irq_enable s)"

fun show_hex :: "nat \<Rightarrow> nat \<Rightarrow> string" where
  "show_hex 0 n = []"
| "show_hex (Suc k) n = show_hex k (n div 16) @ [''0123456789abcdef'' ! (n mod 16)]"

text \<open>The format \<open>%08lx\<close>: at least eight digits, and no leading zeros beyond them.\<close>

definition show_08lx :: "64 word \<Rightarrow> string" where
  "show_08lx w = (let t = show_hex 16 (unat w) in drop (min 8 (length (takeWhile (\<lambda>c. c = CHR ''0'') t))) t)"

definition check_initrd :: "kernel_os \<Rightarrow> sys \<Rightarrow> sys" where
  "check_initrd os s =
     (if initrd_start s \<noteq> 0 \<and> \<not> initrd_below_start_ok os \<and> initrd_pfn os (initrd_start s) < min_low_pfn os
      then (log_line (''initrd overwritten (0x'' @ show_08lx (initrd_pfn os (initrd_start s)) @ '' < 0x'' @ show_08lx (min_low_pfn os) @
             '') - disabling it.'') s)\<lparr>initrd_start := 0\<rparr>
      else s)"

definition start_rest :: "kernel_os \<Rightarrow> sys \<Rightarrow> sys" where
  "start_rest os s =
     (let s = calls os [''lockdep_info'', ''locking_selftest'', ''mem_encrypt_init''] s;
          s = check_initrd os s;
          s = calls os [''kmemleak_init'', ''debug_objects_mem_init'', ''setup_per_cpu_pageset'', ''numa_policy_init'', ''acpi_early_init''] s;
          s = (if late_time_init os then call os ''late_time_init'' s else s);
          s = calls os [''calibrate_delay'', ''pid_idr_init'', ''anon_vma_init''] s;
          s = (if efi_runtime_services os then call os ''efi_enter_virtual_mode'' s else s);
          s = calls os [''thread_stack_cache_init'', ''cred_init'', ''fork_init'', ''proc_caches_init'', ''buffer_init'', ''key_init'',
            ''security_init'', ''dbg_late_init'', ''vfs_caches_init'', ''pagecache_init'', ''signals_init'', ''proc_root_init'', ''nsfs_init'',
            ''cpuset_init'', ''cgroup_init'', ''taskstats_init_early'', ''delayacct_init'', ''check_bugs'', ''acpi_subsystem_init'',
            ''arch_post_acpi_subsys_init'', ''sfi_init_late''] s;
          s = (if efi_runtime_services os then call os ''efi_free_boot_services'' s else s) in
      call os ''rest_init'' s)"

definition start_kernel :: "kernel_lib \<Rightarrow> kernel_os \<Rightarrow> sys \<Rightarrow> boot_fault + outcome \<times> sys" where
  "start_kernel lib os s =
     checked_bind (start_locked lib os s) (\<lambda>s.
       checked_bind (start_params lib os s) (\<lambda>s.
         let s = start_irqs os (start_sched os s);
             s = calls os [''kmem_cache_init_late'', ''console_init''] s in
         case panic_later (boot_of s) of
           Some what \<Rightarrow> Inr (Panicked (''Too many boot '' @ what @ '' vars at '' @ [CHR 0x60] @ the (panic_param (boot_of s)) @ [CHR 0x27]), s)
         | None \<Rightarrow> Inr (Returned 0, start_rest os s)))"

section \<open>The first thread\<close>

definition do_ctors :: "kernel_os \<Rightarrow> sys \<Rightarrow> sys" where
  "do_ctors os s = calls os (ctors os) s"

definition do_basic_setup :: "kernel_lib \<Rightarrow> kernel_os \<Rightarrow> c_int \<Rightarrow> sys \<Rightarrow> boot_fault + sys" where
  "do_basic_setup lib os cur s =
     (let s = calls os [''cpuset_init_smp'', ''shmem_init'', ''driver_init'', ''init_irq_proc''] s;
          s = do_ctors os s;
          s = call os ''usermodehelper_enable'' s in
      do_initcalls lib (local_time os) cur (initcall_table os) s)"

definition load_default_modules :: "kernel_os \<Rightarrow> sys \<Rightarrow> sys" where
  "load_default_modules os s = call os ''load_default_elevator_module'' s"

definition kernel_init_freeable :: "kernel_lib \<Rightarrow> kernel_os \<Rightarrow> c_int \<Rightarrow> sys \<Rightarrow> boot_fault + sys" where
  "kernel_init_freeable lib os cur s =
     (let s = call os ''wait_for_completion'' s;
          s = s\<lparr>gfp_allowed_mask := GFP_BITS_MASK os\<rparr>;
          s = call os ''set_mems_allowed'' s;
          s = s\<lparr>cad_pid := Some cur\<rparr>;
          s = calls os [''smp_prepare_cpus'', ''workqueue_init'', ''init_mm_internals''] s;
          s = do_pre_smp_initcalls (local_time os) cur (initcall_table os) s;
          s = calls os [''lockup_detector_init'', ''smp_init'', ''sched_init_smp'', ''page_alloc_init_late'', ''page_ext_init''] s in
      checked_bind (do_basic_setup lib os cur s) (\<lambda>s.
        let s = call os ''sys_open'' s;
            s = (if sint (console_fd os) < 0 then log_line ''Warning: unable to open an initial console.'' s else s);
            s = calls os [''sys_dup'', ''sys_dup''] s;
            file = (case ramdisk_execute_command (boot_of s) of None \<Rightarrow> ''/init'' | Some f \<Rightarrow> f);
            s = call os ''sys_access'' (s\<lparr>boot_of := (boot_of s)\<lparr>ramdisk_execute_command := Some file\<rparr>\<rparr>);
            s = (if sys_access os file \<noteq> 0
                 then call os ''prepare_namespace'' (s\<lparr>boot_of := (boot_of s)\<lparr>ramdisk_execute_command := None\<rparr>\<rparr>) else s);
            s = call os ''integrity_load_keys'' s in
        Inr (load_default_modules os s)))"

definition run_init_process :: "kernel_os \<Rightarrow> string \<Rightarrow> sys \<Rightarrow> c_int \<times> sys" where
  "run_init_process os init_filename s =
     (let s = log_line ''Hello, Kernel!'' s;
          s = s\<lparr>boot_of := (boot_of s)\<lparr>argv_init := (argv_init (boot_of s))[0 := Some init_filename]\<rparr>\<rparr>;
          ret = do_execve os (length (execs s)) init_filename (argv_init (boot_of s)) (envp_init (boot_of s)) in
      (ret, s\<lparr>trace := trace s @ [Exec init_filename (argv_init (boot_of s)) (envp_init (boot_of s))]\<rparr>))"

definition try_to_run_init_process :: "kernel_os \<Rightarrow> string \<Rightarrow> sys \<Rightarrow> c_int \<times> sys" where
  "try_to_run_init_process os init_filename s =
     (let (ret, s) = run_init_process os init_filename s in
      (ret, if ret \<noteq> 0 \<and> ret \<noteq> - 2
            then log_line (''Starting init: '' @ init_filename @ '' exists but couldn'' @ [CHR 0x27] @ ''t execute it (error '' @ show_int (sint ret) @ '')'') s
            else s))"

fun try_in_turn :: "kernel_os \<Rightarrow> string list \<Rightarrow> sys \<Rightarrow> bool \<times> sys" where
  "try_in_turn os [] s = (False, s)"
| "try_in_turn os (f # fs) s =
     (let (ret, s) = try_to_run_init_process os f s in if ret = 0 then (True, s) else try_in_turn os fs s)"

definition mark_readonly :: "kernel_os \<Rightarrow> sys \<Rightarrow> sys" where
  "mark_readonly os s =
     (if rodata_enabled (boot_of s) then calls os [''rcu_barrier_sched'', ''mark_rodata_ro'', ''rodata_test''] s
      else log_line ''Kernel memory protection disabled.'' s)"

definition default_inits :: "string list" where
  "default_inits = [''/sbin/init'', ''/etc/init'', ''/bin/init'', ''/bin/sh'']"

text \<open>The end of \<open>kernel_init\<close>: a program of the initial ramdisk, a program the user asked for, or one of the usual ones.\<close>

definition run_requested :: "kernel_os \<Rightarrow> sys \<Rightarrow> outcome \<times> sys" where
  "run_requested os s =
     (case execute_command (boot_of s) of
        Some f \<Rightarrow>
          let (ret, s) = run_init_process os f s in
          if ret = 0 then (Returned 0, s)
          else (Panicked (''Requested init '' @ f @ '' failed (error '' @ show_int (sint ret) @ '').''), s)
      | None \<Rightarrow>
          let (done, s) = try_in_turn os default_inits s in
          if done then (Returned 0, s)
          else (Panicked (''No working init found.  Try passing init= option to kernel. '' @
            ''See Linux Documentation/admin-guide/init.rst for guidance.''), s))"

definition run_first_program :: "kernel_os \<Rightarrow> sys \<Rightarrow> outcome \<times> sys" where
  "run_first_program os s =
     (case ramdisk_execute_command (boot_of s) of
        Some f \<Rightarrow>
          let (ret, s) = run_init_process os f s in
          if ret = 0 then (Returned 0, s)
          else run_requested os (log_line (''Failed to execute '' @ f @ '' (error '' @ show_int (sint ret) @ '')'') s)
      | None \<Rightarrow> run_requested os s)"

definition kernel_init :: "kernel_lib \<Rightarrow> kernel_os \<Rightarrow> c_int \<Rightarrow> sys \<Rightarrow> boot_fault + outcome \<times> sys" where
  "kernel_init lib os cur s =
     checked_bind (kernel_init_freeable lib os cur s) (\<lambda>s.
       let s = calls os [''async_synchronize_full'', ''ftrace_free_init_mem'', ''free_initmem''] s;
           s = mark_readonly os s;
           s = call os ''pti_finalize'' s;
           s = s\<lparr>system_state := SYSTEM_RUNNING\<rparr>;
           s = calls os [''numa_default_policy'', ''rcu_end_inkernel_boot''] s in
       Inr (run_first_program os s))"

end
