(* ===== verification/Kernel_Boot.thy ===== *)
theory Kernel_Boot
  imports Kernel_Start
begin

text \<open>
  What the start of the kernel guarantees: interrupts stay off as long as \<open>early_boot_irqs_disabled\<close> says so, too many
  boot parameters end in a panic and not in a broken array, and the program that is started is the first of the
  candidates that can be run, with null-terminated arrays.
\<close>

section \<open>Interrupts\<close>

text \<open>Whenever a function was called under \<open>early_boot_irqs_disabled\<close>, interrupts were off.\<close>

definition quiet :: "sys \<Rightarrow> bool" where
  "quiet s \<longleftrightarrow> (\<forall>name off. External name True off \<in> set (trace s) \<longrightarrow> off)"

definition locked :: "sys \<Rightarrow> bool" where
  "locked s \<longleftrightarrow> quiet s \<and> early_boot_irqs_disabled s \<and> irqs_disabled (cpu_of s)"

definition keeps_off :: "kernel_os \<Rightarrow> string list \<Rightarrow> bool" where
  "keeps_off os names \<longleftrightarrow> (\<forall>name\<in>set names. \<forall>c. irqs_disabled c \<longrightarrow> irqs_disabled (ext os name c))"

text \<open>The functions \<open>start_kernel\<close> calls between the two switches of the interrupts.\<close>

definition early_functions :: "string list" where
  "early_functions =
    [''boot_cpu_init'', ''page_address_init'', ''setup_arch'', ''mm_init_cpumask'', ''setup_nr_cpu_ids'', ''setup_per_cpu_areas'',
     ''smp_prepare_boot_cpu'', ''boot_cpu_hotplug_init'', ''build_all_zonelists'', ''page_alloc_init'', ''jump_label_init'',
     ''setup_log_buf'', ''vfs_caches_init_early'', ''sort_main_extable'', ''trap_init'', ''page_ext_init_flatmem'', ''mem_init'',
     ''kmem_cache_init'', ''pgtable_init'', ''vmalloc_init'', ''ioremap_huge_init'', ''init_espfix_bsp'', ''pti_init'', ''ftrace_init'',
     ''early_trace_init'', ''sched_init'', ''radix_tree_init'', ''housekeeping_init'', ''workqueue_init_early'', ''rcu_init'',
     ''trace_init'', ''context_tracking_init'', ''early_irq_init'', ''init_IRQ'', ''tick_init'', ''rcu_init_nohz'', ''init_timers'',
     ''hrtimers_init'', ''softirq_init'', ''timekeeping_init'', ''time_init'', ''random_init'', ''boot_init_stack_canary'',
     ''sched_clock_postinit'', ''printk_safe_init'', ''perf_event_init'', ''profile_init'', ''call_function_init'']"

lemma call_locked: "locked s \<Longrightarrow> keeps_off os [name] \<Longrightarrow> locked (call os name s)"
  by (auto simp: locked_def quiet_def keeps_off_def call_def)

lemma calls_locked: "locked s \<Longrightarrow> keeps_off os names \<Longrightarrow> locked (calls os names s)"
proof (induction names arbitrary: s)
  case (Cons name names)
  then have "locked (call os name s)" by (intro call_locked) (auto simp: keeps_off_def)
  with Cons show ?case by (simp add: calls_def keeps_off_def)
qed (simp add: calls_def)

lemma keeps_off_sub: "keeps_off os names \<Longrightarrow> set ns \<subseteq> set names \<Longrightarrow> keeps_off os ns"
  by (auto simp: keeps_off_def)

text \<open>
  What every call of a function of another file keeps, a sequence of calls keeps: the contract between \<open>call\<close> and the
  functions that consist of such calls.
\<close>

locale call_invariant =
  fixes keeps :: "sys \<Rightarrow> bool"
  assumes call_keeps: "keeps s \<Longrightarrow> keeps (call os name s)"
begin

lemma calls_keep: "keeps s \<Longrightarrow> keeps (calls os names s)"
  by (induction names arbitrary: s) (simp_all add: calls_def call_keeps)

lemma do_ctors_keeps: "keeps s \<Longrightarrow> keeps (do_ctors os s)"
  unfolding do_ctors_def by (rule calls_keep)

end

text \<open>A call outside the locked stretch keeps the trace as required, because the flag is not set.\<close>

interpretation late_calls: call_invariant "\<lambda>s. quiet s \<and> \<not> early_boot_irqs_disabled s"
  by unfold_locales (auto simp: quiet_def call_def)

interpretation same_vars: call_invariant "\<lambda>s. boot_of s = b \<and> system_state s = y" for b y
  by unfold_locales (simp add: call_def)

interpretation same_events: call_invariant "\<lambda>s. execs s = e \<and> ran s = r" for e r
  by unfold_locales (simp add: call_def execs_def ran_def)

lemma calls_late:
  "quiet s \<Longrightarrow> \<not> early_boot_irqs_disabled s \<Longrightarrow> quiet (calls os names s) \<and> \<not> early_boot_irqs_disabled (calls os names s)"
  by (rule late_calls.calls_keep) simp

lemma call_boot [simp]: "boot_of (call os name s) = boot_of s" "system_state (call os name s) = system_state s"
  "execs (call os name s) = execs s" "ran (call os name s) = ran s"
  using same_vars.call_keeps [of s] same_events.call_keeps [of s] by simp_all

lemma calls_boot [simp]: "boot_of (calls os names s) = boot_of s" "system_state (calls os names s) = system_state s"
  "execs (calls os names s) = execs s" "ran (calls os names s) = ran s"
  using same_vars.calls_keep [of s] same_events.calls_keep [of s] by simp_all

lemma execs_update [simp]:
  "execs (s\<lparr>boot_of := b\<rparr>) = execs s" "execs (s\<lparr>cpu_of := c\<rparr>) = execs s" "execs (s\<lparr>early_boot_irqs_disabled := e\<rparr>) = execs s"
  "execs (s\<lparr>system_state := x\<rparr>) = execs s" "execs (s\<lparr>gfp_allowed_mask := m\<rparr>) = execs s" "execs (s\<lparr>cad_pid := p\<rparr>) = execs s"
  "execs (s\<lparr>initrd_start := i\<rparr>) = execs s"
  by (simp_all add: execs_def)

lemma locked_boot [simp]: "locked (s\<lparr>boot_of := b\<rparr>) = locked s" "locked (log_line t s) = locked s" "locked (preempt_disable s) = locked s"
  by (simp_all add: locked_def quiet_def log_line_def preempt_disable_def)

lemma handed_log [simp]: "handed (boot_of (log_line t s)) = handed (boot_of s)"
  by (simp add: log_line_def pr_def handed_def)

section \<open>start_kernel\<close>

lemma calls_early: "locked s \<Longrightarrow> keeps_off os early_functions \<Longrightarrow> set names \<subseteq> set early_functions \<Longrightarrow> locked (calls os names s)"
  by (rule calls_locked [OF _ keeps_off_sub])

lemma call_early: "locked s \<Longrightarrow> keeps_off os early_functions \<Longrightarrow> name \<in> set early_functions \<Longrightarrow> locked (call os name s)"
  by (rule call_locked [OF _ keeps_off_sub]) auto

lemma start_locked_ok:
  assumes lib: "setups_ok lib" "early_ok lib" "parse_ok lib" and os: "keeps_off os early_functions"
    and s: "arrays_ok lib (boot_of s)" "quiet s" "\<not> early_boot_irqs_disabled s"
  shows "\<exists>s'. start_locked lib os s = Inr s' \<and> locked s' \<and> arrays_ok lib (boot_of s')"
proof -
  let ?a = "calls os [''set_task_stack_end_magic'', ''smp_setup_processor_id'', ''debug_objects_early_init'', ''cgroup_init_early''] s"
  let ?b = "(local_irq_disable ?a)\<lparr>early_boot_irqs_disabled := True\<rparr>"
  let ?c = "call os ''setup_arch'' (log_line (linux_banner os) (calls os [''boot_cpu_init'', ''page_address_init''] ?b))"
  have "quiet ?a" using calls_late [OF s(2,3)] by blast
  then have "locked ?b" by (simp add: locked_def quiet_def local_irq_disable_def)
  then have "locked (calls os [''boot_cpu_init'', ''page_address_init''] ?b)" by (rule calls_early [OF _ os]) (simp add: early_functions_def)
  then have c: "locked ?c" by (intro call_early [OF _ os]) (simp_all add: early_functions_def)
  let ?e = "(boot_of ?c)\<lparr>boot_command_line := arch_boot_line os\<rparr>"
  have e: "arrays_ok lib ?e"
    using s(1) by (simp add: arrays_ok_def log_line_def pr_def local_irq_disable_def)
  obtain b where b: "(if arch_parses_early os then parse_early_param lib ?e else Inr ?e) = Inr b" "arrays_ok lib b"
    using parse_early_param_ok [OF lib e] e by (cases "arch_parses_early os") auto
  let ?d = "call os ''mm_init_cpumask'' (?c\<lparr>boot_of := b\<rparr>)"
  let ?f = "?d\<lparr>boot_of := setup_command_line (arch_command_line os) (boot_of ?d)\<rparr>"
  let ?g = "calls os [''setup_nr_cpu_ids'', ''setup_per_cpu_areas'', ''smp_prepare_boot_cpu'', ''boot_cpu_hotplug_init'',
          ''build_all_zonelists'', ''page_alloc_init''] ?f"
  have "locked ?d" using c by (intro call_early [OF _ os]) (simp_all add: early_functions_def)
  then have "locked ?g" by (intro calls_early [OF _ os]) (simp_all add: early_functions_def)
  moreover have "arrays_ok lib (boot_of ?g)" using b(2) by (simp add: setup_command_line_def arrays_ok_def)
  moreover have "start_locked lib os s = Inr ?g" using b(1) by (simp add: start_locked_def setup_arch_def Let_def)
  ultimately show ?thesis by blast
qed

lemma start_params_ok:
  assumes lib: "setups_ok lib" "early_ok lib" "parse_ok lib" and os: "keeps_off os early_functions"
    and s: "arrays_ok lib (boot_of s)" "locked s"
  shows "\<exists>s'. start_params lib os s = Inr s' \<and> locked s' \<and> arrays_ok lib (boot_of s')"
proof -
  let ?a = "call os ''jump_label_init'' (log_line (''Kernel command line: '' @ boot_command_line (boot_of s)) s)"
  have a: "locked ?a" using s(2) by (intro call_early [OF _ os]) (simp_all add: early_functions_def)
  have "arrays_ok lib (boot_of ?a)" using s(1) by (simp add: log_line_def)
  then obtain b where "parse_boot_line lib (boot_of ?a) = Inr b" "arrays_ok lib b" using parse_boot_line_ok [OF lib] by blast
  then show ?thesis using a by (simp add: start_params_def Let_def)
qed

lemma mm_init_locked: "locked s \<Longrightarrow> keeps_off os early_functions \<Longrightarrow> locked (mm_init os s)"
  unfolding mm_init_def by (rule calls_early) (simp_all add: early_functions_def)

lemma start_sched_locked:
  assumes os: "keeps_off os early_functions" and s: "locked s"
  shows "locked (start_sched os s)" "boot_of (start_sched os s) = boot_of s"
proof -
  let ?a = "calls os [''setup_log_buf'', ''vfs_caches_init_early'', ''sort_main_extable'', ''trap_init''] s"
  let ?b = "preempt_disable (calls os [''ftrace_init'', ''early_trace_init'', ''sched_init''] (mm_init os ?a))"
  have "locked ?a" by (rule calls_early [OF s os]) (simp add: early_functions_def)
  from mm_init_locked [OF this os] have b: "locked ?b"
    unfolding locked_boot by (rule calls_early [OF _ os]) (simp add: early_functions_def)
  then have off: "irqs_disabled (cpu_of ?b)" by (simp add: locked_def)
  show "locked (start_sched os s)"
    using off calls_early [OF b os] by (simp add: start_sched_def Let_def early_functions_def)
  show "boot_of (start_sched os s) = boot_of s"
    using off by (simp add: start_sched_def Let_def preempt_disable_def mm_init_def)
qed

lemma start_irqs_late:
  assumes os: "keeps_off os early_functions" and s: "locked s"
  shows "quiet (start_irqs os s)" "\<not> early_boot_irqs_disabled (start_irqs os s)" "\<not> irqs_disabled (cpu_of (start_irqs os s))"
    "boot_of (start_irqs os s) = boot_of s"
proof -
  define a where "a = calls os [''early_irq_init'', ''init_IRQ'', ''tick_init'', ''rcu_init_nohz'', ''init_timers'', ''hrtimers_init'',
            ''softirq_init'', ''timekeeping_init'', ''time_init'', ''random_init'', ''boot_init_stack_canary'', ''sched_clock_postinit'',
            ''printk_safe_init'', ''perf_event_init'', ''profile_init'', ''call_function_init''] s"
  have a: "locked a" "boot_of a = boot_of s" unfolding a_def by (rule calls_early [OF s os], simp add: early_functions_def) simp
  have eq: "start_irqs os s = local_irq_enable (a\<lparr>early_boot_irqs_disabled := False\<rparr>)"
    using a(1) by (simp add: start_irqs_def Let_def locked_def a_def [symmetric])
  show "quiet (start_irqs os s)" "\<not> early_boot_irqs_disabled (start_irqs os s)" "\<not> irqs_disabled (cpu_of (start_irqs os s))"
    "boot_of (start_irqs os s) = boot_of s"
    unfolding eq using a by (auto simp: local_irq_enable_def locked_def quiet_def)
qed

text \<open>The trace and the arrays after the interrupts are on: what \<open>start_kernel\<close> promises at the end.\<close>

definition late_as :: "sys \<Rightarrow> sys \<Rightarrow> bool" where
  "late_as s s' \<longleftrightarrow> quiet s' \<and> \<not> early_boot_irqs_disabled s' \<and> handed (boot_of s') = handed (boot_of s)"

lemma late_as_refl: "quiet s \<Longrightarrow> \<not> early_boot_irqs_disabled s \<Longrightarrow> late_as s s"
  by (simp add: late_as_def)

lemma late_as_steps:
  assumes "late_as s t"
  shows "late_as s (call os name t)" "late_as s (calls os names t)" "late_as s (log_line l t)" "late_as s (check_initrd os t)"
  using assms late_calls.call_keeps [of t os name] calls_late [of t os names]
  by (auto simp: late_as_def check_initrd_def log_line_def pr_def handed_def quiet_def)

lemma late_as_if: "late_as s t \<Longrightarrow> late_as s u \<Longrightarrow> late_as s (if c then t else u)"
  by simp

definition at_rest_init :: "sys \<Rightarrow> sys \<Rightarrow> bool" where
  "at_rest_init s u \<longleftrightarrow> late_as s u \<and> (\<exists>off. last (trace u) = External ''rest_init'' False off)"

lemma late_let: "late_as s t \<Longrightarrow> (\<And>u. late_as s u \<Longrightarrow> at_rest_init s (f u)) \<Longrightarrow> at_rest_init s (Let t f)"
  by simp

lemma late_rest_init: "late_as s t \<Longrightarrow> at_rest_init s (call os ''rest_init'' t)"
  using late_as_steps(1) [of s t os "''rest_init''"] unfolding at_rest_init_def late_as_def by (simp add: call_def)

lemma start_rest_late:
  assumes "quiet s" "\<not> early_boot_irqs_disabled s"
  shows "at_rest_init s (start_rest os s)"
  unfolding start_rest_def by (intro late_let late_as_refl [OF assms] late_rest_init late_as_if late_as_steps | assumption)+

text \<open>What \<open>start_kernel\<close> leaves when it does not panic.\<close>

definition ready :: "kernel_lib \<Rightarrow> boot \<Rightarrow> bool" where
  "ready lib b \<longleftrightarrow> length (argv_init b) = MAX_INIT_ARGS lib + 2 \<and> last (argv_init b) = None
     \<and> length (envp_init b) = MAX_INIT_ENVS lib + 2 \<and> last (envp_init b) = None"

lemma start_kernel_ends:
  assumes lib: "setups_ok lib" "early_ok lib" "parse_ok lib" "0 < INIT_ENV_ARG_LIMIT lib" and os: "keeps_off os early_functions"
    and s: "arrays_start lib (boot_of s)" "trace s = []" "\<not> early_boot_irqs_disabled s"
  shows "\<exists>out s'. start_kernel lib os s = Inr (out, s') \<and> \<not> early_boot_irqs_disabled s'
    \<and> (\<forall>name off. External name True off \<in> set (trace s') \<longrightarrow> off)
    \<and> (case panic_later (boot_of s') of
         Some what \<Rightarrow> out = Panicked (''Too many boot '' @ what @ '' vars at '' @ [CHR 0x60] @ the (panic_param (boot_of s')) @ [CHR 0x27])
       | None \<Rightarrow> out = Returned 0 \<and> (\<exists>off. last (trace s') = External ''rest_init'' False off)
           \<and> ready lib (boot_of s'))"
proof -
  have q: "quiet s" using s(2) by (simp add: quiet_def)
  obtain a where a: "start_locked lib os s = Inr a" "locked a" "arrays_ok lib (boot_of a)"
    using start_locked_ok [OF lib(1-3) os arrays_start_ok [OF s(1) lib(4)] q s(3)] by blast
  obtain b where b: "start_params lib os a = Inr b" "locked b" "arrays_ok lib (boot_of b)"
    using start_params_ok [OF lib(1-3) os a(3,2)] by blast
  let ?c = "start_irqs os (start_sched os b)"
  let ?d = "calls os [''kmem_cache_init_late'', ''console_init''] ?c"
  note c = start_irqs_late [OF os start_sched_locked(1) [OF os b(2)]]
  have d: "quiet ?d" "\<not> early_boot_irqs_disabled ?d" using calls_late [OF c(1,2)] by blast+
  have boot: "boot_of ?d = boot_of b" using c(4) start_sched_locked(2) [OF os b(2)] by simp
  show ?thesis
  proof (cases "panic_later (boot_of b)")
    case None
    note r = start_rest_late [OF d, of os]
    have "panic_later (boot_of (start_rest os ?d)) = None" "argv_init (boot_of (start_rest os ?d)) = argv_init (boot_of b)"
      "envp_init (boot_of (start_rest os ?d)) = envp_init (boot_of b)"
      using r boot None by (simp_all add: at_rest_init_def late_as_def handed_def)
    moreover have "start_kernel lib os s = Inr (Returned 0, start_rest os ?d)"
      using a(1) b(1) None boot by (simp add: start_kernel_def Let_def)
    ultimately show ?thesis using r b(3) None by (auto simp: ready_def arrays_ok_def at_rest_init_def late_as_def quiet_def)
  next
    case (Some what)
    then show ?thesis using a(1) b(1) boot d by (simp add: start_kernel_def Let_def quiet_def)
  qed
qed

text \<open>
  C18. \<open>start_kernel\<close> on any command line, when none of the functions called between the two switches enables interrupts by
  itself: every function called while \<open>early_boot_irqs_disabled\<close> was set was called with interrupts off, and at the end the
  flag is cleared. If the command line overflowed one of the arrays the kernel panics and says so; otherwise it
  gets to \<open>rest_init\<close> with both arrays of their declared sizes and closed by a null pointer.
\<close>

theorem start_kernel_quiet_and_checked:
  assumes lib: "setups_ok lib" "early_ok lib" "parse_ok lib" "0 < INIT_ENV_ARG_LIMIT lib" and os: "keeps_off os early_functions"
    and s: "arrays_start lib (boot_of s)" "trace s = []" "\<not> early_boot_irqs_disabled s"
  shows "\<exists>out s'. start_kernel lib os s = Inr (out, s') \<and> \<not> early_boot_irqs_disabled s'
    \<and> (\<forall>name off. External name True off \<in> set (trace s') \<longrightarrow> off)
    \<and> (case panic_later (boot_of s') of
         Some what \<Rightarrow> out = Panicked (''Too many boot '' @ what @ '' vars at '' @ [CHR 0x60] @ the (panic_param (boot_of s')) @ [CHR 0x27])
       | None \<Rightarrow> out = Returned 0 \<and> (\<exists>off. last (trace s') = External ''rest_init'' False off)
           \<and> length (argv_init (boot_of s')) = MAX_INIT_ARGS lib + 2 \<and> last (argv_init (boot_of s')) = None
           \<and> length (envp_init (boot_of s')) = MAX_INIT_ENVS lib + 2 \<and> last (envp_init (boot_of s')) = None)"
  using start_kernel_ends [OF assms] unfolding ready_def .

definition demo_os :: "(string \<Rightarrow> c_int) \<Rightarrow> string \<Rightarrow> kernel_os" where
  "demo_os run line =
     \<lparr>ext = (\<lambda>_ c. c), linux_banner = ''Linux'', arch_boot_line = line, arch_command_line = line, arch_parses_early = True,
      initrd_below_start_ok = False, initrd_pfn = (\<lambda>_. 0), min_low_pfn = 0, late_time_init = True, efi_runtime_services = False,
      ctors = [], local_time = (\<lambda>_. 0), initcall_table = demo_table, GFP_BITS_MASK = 0x1FFFFFF, console_fd = 0,
      sys_access = (\<lambda>f. if f = ''/init'' then - 2 else 0), do_execve = (\<lambda>_ f _ _. run f)\<rparr>"

definition power_on :: "nat \<Rightarrow> sys" where
  "power_on n = (demo_sys [])\<lparr>boot_of := demo_boot n []\<rparr>"

lemma demo_start:
  "keeps_off (demo_os run line) early_functions" "arrays_start (demo_lib n) (boot_of (power_on n))" "trace (power_on n) = []"
  "\<not> early_boot_irqs_disabled (power_on n)"
  using demo_boot_start by (simp_all add: keeps_off_def demo_os_def power_on_def demo_sys_def)

theorem start_kernel_quiet_and_checked_witness:
  "\<exists>out s'. start_kernel (demo_lib 2) (demo_os (\<lambda>_. 0) ''a b c d'') (power_on 2) = Inr (out, s') \<and> \<not> early_boot_irqs_disabled s'"
proof -
  have "0 < INIT_ENV_ARG_LIMIT (demo_lib 2)" by (simp add: demo_lib_def)
  from start_kernel_quiet_and_checked [OF demo_lib_ok this demo_start] show ?thesis by blast
qed

section \<open>The first program\<close>

text \<open>The programs \<open>kernel_init\<close> has in mind, and which of them it tries when \<open>ok\<close> tells which attempts succeed.\<close>

definition ramdisk_program :: "boot \<Rightarrow> string" where
  "ramdisk_program b = (case ramdisk_execute_command b of None \<Rightarrow> ''/init'' | Some f \<Rightarrow> f)"

definition requested :: "boot \<Rightarrow> string list" where
  "requested b = (case execute_command b of Some f \<Rightarrow> [f] | None \<Rightarrow> [''/sbin/init'', ''/etc/init'', ''/bin/init'', ''/bin/sh''])"

definition candidates :: "kernel_os \<Rightarrow> boot \<Rightarrow> string list" where
  "candidates os b = (if sys_access os (ramdisk_program b) = 0 then [ramdisk_program b] else []) @ requested b"

fun tried :: "(nat \<Rightarrow> string \<Rightarrow> bool) \<Rightarrow> nat \<Rightarrow> string list \<Rightarrow> string list \<times> bool" where
  "tried ok n [] = ([], False)"
| "tried ok n (f # fs) = (if ok n f then ([f], True) else let (gs, b) = tried ok (Suc n) fs in (f # gs, b))"

definition exec_call :: "boot \<Rightarrow> string \<Rightarrow> string \<times> string option list \<times> string option list" where
  "exec_call b f = (f, (argv_init b)[0 := Some f], envp_init b)"

definition exec_ok :: "kernel_os \<Rightarrow> boot \<Rightarrow> nat \<Rightarrow> string \<Rightarrow> bool" where
  "exec_ok os b n f \<longleftrightarrow> (case exec_call b f of (f, argv, envp) \<Rightarrow> do_execve os n f argv envp = 0)"

text \<open>The variables that decide which program runs; \<open>argv_init[0]\<close> is overwritten before every use.\<close>

definition program_vars :: "boot \<Rightarrow> string option list \<times> string option list \<times> string option \<times> string option" where
  "program_vars b = ((argv_init b)[0 := None], envp_init b, execute_command b, ramdisk_execute_command b)"

lemma program_vars_exec:
  assumes "program_vars b = program_vars c"
  shows "exec_call b = exec_call c" "exec_ok os b = exec_ok os c" "requested b = requested c" "ramdisk_program b = ramdisk_program c"
proof -
  have "(argv_init b)[0 := Some f] = (argv_init c)[0 := Some f]" for f
    using assms unfolding program_vars_def by (metis list_update_overwrite prod.inject)
  then show e: "exec_call b = exec_call c" using assms by (auto simp: exec_call_def program_vars_def)
  show "exec_ok os b = exec_ok os c" by (simp add: exec_ok_def fun_eq_iff e)
  show "requested b = requested c" "ramdisk_program b = ramdisk_program c"
    using assms by (simp_all add: requested_def ramdisk_program_def program_vars_def)
qed

lemma program_vars_log [simp]: "program_vars (boot_of (log_line t s)) = program_vars (boot_of s)"
  by (simp add: log_line_def pr_def program_vars_def)

lemma run_init_process_spec:
  assumes "run_init_process os f s = (ret, s')"
  shows "execs s' = execs s @ [exec_call (boot_of s) f]" "(ret = 0) = exec_ok os (boot_of s) (length (execs s)) f"
    "program_vars (boot_of s') = program_vars (boot_of s)" "system_state s' = system_state s"
  using assms
  by (auto simp: run_init_process_def execs_def exec_call_def exec_ok_def program_vars_def log_line_def pr_def Let_def)

lemma try_to_run_init_process_spec:
  assumes "try_to_run_init_process os f s = (ret, s')"
  shows "execs s' = execs s @ [exec_call (boot_of s) f]" "(ret = 0) = exec_ok os (boot_of s) (length (execs s)) f"
    "program_vars (boot_of s') = program_vars (boot_of s)" "system_state s' = system_state s"
proof -
  obtain r u where u: "run_init_process os f s = (r, u)" by fastforce
  have s': "ret = r" "s' = u \<or> (\<exists>t. s' = log_line t u)" using assms u by (auto simp: try_to_run_init_process_def split: if_splits)
  have "execs s' = execs u" "program_vars (boot_of s') = program_vars (boot_of u)" "system_state s' = system_state u"
    using s'(2) by (auto simp: log_line_def execs_def pr_def program_vars_def)
  then show "execs s' = execs s @ [exec_call (boot_of s) f]" "(ret = 0) = exec_ok os (boot_of s) (length (execs s)) f"
    "program_vars (boot_of s') = program_vars (boot_of s)" "system_state s' = system_state s"
    using run_init_process_spec [OF u] s'(1) by simp_all
qed

lemma try_in_turn_spec:
  assumes "try_in_turn os fs s = (done, s')" "tried (exec_ok os (boot_of s)) (length (execs s)) fs = (gs, b)"
  shows "execs s' = execs s @ map (exec_call (boot_of s)) gs \<and> done = b \<and> system_state s' = system_state s"
  using assms
proof (induction fs arbitrary: s gs)
  case (Cons f fs)
  obtain ret u where u: "try_to_run_init_process os f s = (ret, u)" by fastforce
  note U = try_to_run_init_process_spec [OF u]
  note V = program_vars_exec [OF U(3)]
  show ?case
  proof (cases "ret = 0")
    case True
    then show ?thesis using Cons.prems U u by auto
  next
    case False
    obtain hs where hs: "tried (exec_ok os (boot_of s)) (Suc (length (execs s))) fs = (hs, b)" "gs = f # hs"
      using Cons.prems(2) False U(2) by (auto split: prod.splits)
    have "try_in_turn os fs u = (done, s')" using Cons.prems(1) False u by simp
    from Cons.IH [OF this] show ?thesis using hs U V by simp
  qed
qed auto

definition ends_as :: "bool \<Rightarrow> outcome \<Rightarrow> bool" where
  "ends_as b out \<longleftrightarrow> (if b then out = Returned 0 else \<exists>msg. out = Panicked msg)"

lemma run_requested_spec:
  assumes "run_requested os s = (out, s')" "tried (exec_ok os (boot_of s)) (length (execs s)) (requested (boot_of s)) = (gs, b)"
  shows "execs s' = execs s @ map (exec_call (boot_of s)) gs \<and> ends_as b out \<and> system_state s' = system_state s"
proof (cases "execute_command (boot_of s)")
  case None
  obtain d u where u: "try_in_turn os default_inits s = (d, u)" by fastforce
  have "tried (exec_ok os (boot_of s)) (length (execs s)) default_inits = (gs, b)"
    using assms(2) None by (simp add: requested_def default_inits_def)
  from try_in_turn_spec [OF u this] show ?thesis using assms(1) u None by (auto simp: run_requested_def ends_as_def split: if_splits)
next
  case (Some f)
  obtain ret u where u: "run_init_process os f s = (ret, u)" by fastforce
  show ?thesis
    using run_init_process_spec [OF u] assms Some u
    by (auto simp: run_requested_def requested_def ends_as_def split: if_splits)
qed

lemma run_first_program_spec:
  assumes "run_first_program os s = (out, s')"
    "tried (exec_ok os (boot_of s)) (length (execs s))
       ((case ramdisk_execute_command (boot_of s) of Some f \<Rightarrow> [f] | None \<Rightarrow> []) @ requested (boot_of s)) = (gs, b)"
  shows "execs s' = execs s @ map (exec_call (boot_of s)) gs \<and> ends_as b out \<and> system_state s' = system_state s"
proof (cases "ramdisk_execute_command (boot_of s)")
  case None
  then show ?thesis using run_requested_spec assms by (simp add: run_first_program_def)
next
  case (Some f)
  obtain ret u where u: "run_init_process os f s = (ret, u)" by fastforce
  note U = run_init_process_spec [OF u]
  note V = program_vars_exec [OF U(3)]
  show ?thesis
  proof (cases "ret = 0")
    case True
    then show ?thesis using assms U u Some by (auto simp: run_first_program_def ends_as_def)
  next
    case False
    define w where "w = log_line (''Failed to execute '' @ f @ '' (error '' @ show_int (sint ret) @ '')'') u"
    have w: "exec_call (boot_of w) = exec_call (boot_of s)" "exec_ok os (boot_of w) = exec_ok os (boot_of s)"
      "requested (boot_of w) = requested (boot_of s)" "execs w = execs u" "system_state w = system_state u"
      using program_vars_exec [of "boot_of w" "boot_of s"] U(3) by (simp_all add: w_def) (simp add: log_line_def)
    have rest: "run_requested os w = (out, s')" using assms(1) u Some False by (simp add: run_first_program_def w_def)
    obtain hs where hs: "tried (exec_ok os (boot_of s)) (Suc (length (execs s))) (requested (boot_of s)) = (hs, b)" "gs = f # hs"
      using assms(2) False U(2) Some by (auto split: prod.splits)
    from run_requested_spec [OF rest] show ?thesis using hs U w by simp
  qed
qed

lemma do_basic_setup_spec:
  assumes "parse_ok lib"
  shows "\<exists>s'. do_basic_setup lib os cur s = Inr s' \<and> program_vars (boot_of s') = program_vars (boot_of s) \<and> execs s' = execs s"
proof -
  let ?t = "call os ''usermodehelper_enable'' (do_ctors os (calls os [''cpuset_init_smp'', ''shmem_init'', ''driver_init'', ''init_irq_proc''] s))"
  obtain s' where s': "do_initcalls lib (local_time os) cur (initcall_table os) ?t = Inr s'"
    "ran_calls (concat (map (level_calls (initcall_table os)) [0..<8])) ?t s'"
    by (rule do_initcalls_spec [OF assms])
  then show ?thesis by (auto simp: do_basic_setup_def Let_def do_ctors_def ran_calls_def same_rest_def handed_def program_vars_def)
qed

lemma run_calls_vars:
  "program_vars (boot_of (do_pre_smp_initcalls time cur table s)) = program_vars (boot_of s)"
  "execs (do_pre_smp_initcalls time cur table s) = execs s"
  using run_calls_spec [of "early_calls table" s time cur]
  by (simp_all add: do_pre_smp_initcalls_def ran_calls_def same_rest_def handed_def program_vars_def)

lemma kernel_init_freeable_spec:
  assumes "parse_ok lib"
  shows "\<exists>s'. kernel_init_freeable lib os cur s = Inr s' \<and> execs s' = execs s
    \<and> program_vars (boot_of s') = program_vars ((boot_of s)\<lparr>ramdisk_execute_command :=
         (if sys_access os (ramdisk_program (boot_of s)) = 0 then Some (ramdisk_program (boot_of s)) else None)\<rparr>)"
proof -
  define t where "t = calls os [''lockup_detector_init'', ''smp_init'', ''sched_init_smp'', ''page_alloc_init_late'', ''page_ext_init'']
    (do_pre_smp_initcalls (local_time os) cur (initcall_table os)
      (calls os [''smp_prepare_cpus'', ''workqueue_init'', ''init_mm_internals'']
        ((call os ''set_mems_allowed'' ((call os ''wait_for_completion'' s)\<lparr>gfp_allowed_mask := GFP_BITS_MASK os\<rparr>))\<lparr>cad_pid := Some cur\<rparr>)))"
  have t: "program_vars (boot_of t) = program_vars (boot_of s)" "execs t = execs s"
    by (simp_all add: t_def run_calls_vars)
  obtain u where u: "do_basic_setup lib os cur t = Inr u" "program_vars (boot_of u) = program_vars (boot_of t)" "execs u = execs t"
    using do_basic_setup_spec [OF assms] by blast
  have vars: "(argv_init (boot_of u))[0 := None] = (argv_init (boot_of s))[0 := None]" "envp_init (boot_of u) = envp_init (boot_of s)"
    "execute_command (boot_of u) = execute_command (boot_of s)" "ramdisk_execute_command (boot_of u) = ramdisk_execute_command (boot_of s)"
    using u(2) t(1) by (simp_all add: program_vars_def)
  have f: "ramdisk_program (boot_of s) = (case ramdisk_execute_command (boot_of s) of None \<Rightarrow> ''/init'' | Some f \<Rightarrow> f)"
    by (simp add: ramdisk_program_def)
  show ?thesis
    unfolding kernel_init_freeable_def Let_def t_def [symmetric] u(1) f
    using vars u(3) t(2) by (auto simp: program_vars_def load_default_modules_def log_line_def pr_def)
qed

lemma mark_readonly_vars: "execs (mark_readonly os s) = execs s" "program_vars (boot_of (mark_readonly os s)) = program_vars (boot_of s)"
  by (simp_all add: mark_readonly_def)

lemma kernel_init_runs:
  assumes "parse_ok lib" and gs: "tried (exec_ok os (boot_of t)) (length (execs t)) (candidates os (boot_of t)) = (gs, b)"
  shows "\<exists>out t'. kernel_init lib os cur t = Inr (out, t') \<and> execs t' = execs t @ map (exec_call (boot_of t)) gs
    \<and> ends_as b out \<and> system_state t' = SYSTEM_RUNNING"
proof -
  let ?b = "(boot_of t)\<lparr>ramdisk_execute_command :=
    (if sys_access os (ramdisk_program (boot_of t)) = 0 then Some (ramdisk_program (boot_of t)) else None)\<rparr>"
  obtain u where u: "kernel_init_freeable lib os cur t = Inr u" "execs u = execs t" "program_vars (boot_of u) = program_vars ?b"
    using kernel_init_freeable_spec [OF assms(1)] by blast
  define v where "v = calls os [''numa_default_policy'', ''rcu_end_inkernel_boot'']
    ((call os ''pti_finalize'' (mark_readonly os (calls os [''async_synchronize_full'', ''ftrace_free_init_mem'', ''free_initmem''] u)))
      \<lparr>system_state := SYSTEM_RUNNING\<rparr>)"
  have v: "execs v = execs t" "program_vars (boot_of v) = program_vars ?b" "system_state v = SYSTEM_RUNNING"
    using u(2,3) by (simp_all add: v_def mark_readonly_vars)
  obtain out t' where out: "run_first_program os v = (out, t')" by fastforce
  note V = program_vars_exec [OF v(2)]
  have vars: "exec_call ?b = exec_call (boot_of t)" "exec_ok os ?b = exec_ok os (boot_of t)" "requested ?b = requested (boot_of t)"
    by (simp_all add: exec_call_def exec_ok_def requested_def fun_eq_iff)
  have "ramdisk_execute_command (boot_of v) = ramdisk_execute_command ?b" using v(2) by (simp add: program_vars_def)
  then have c: "(case ramdisk_execute_command (boot_of v) of Some f \<Rightarrow> [f] | None \<Rightarrow> []) @ requested (boot_of v) = candidates os (boot_of t)"
    using V(3) vars(3) by (simp add: candidates_def)
  have "execs t' = execs v @ map (exec_call (boot_of v)) gs \<and> ends_as b out \<and> system_state t' = system_state v"
    by (rule run_first_program_spec [OF out]) (simp add: c V(2) vars(2) v(1) gs)
  moreover have "kernel_init lib os cur t = Inr (out, t')" using u(1) out by (simp add: kernel_init_def Let_def v_def)
  ultimately show ?thesis using v V(1) vars(1) by simp
qed

text \<open>
  C6. From power-on to the first program. When \<open>start_kernel\<close> does not panic, then in every state in which the variables of
  this file are as it left them \<open>kernel_init\<close> ends: it tries the candidates in order - the program of the initial
  ramdisk if it can be accessed, then the program given with \<open>init=\<close> or, without that option, the four usual ones - and
  stops at the first that runs; it panics exactly if none does. Every program gets its own name as first argument,
  and null-terminated arrays.
\<close>

theorem first_runnable_program_is_started:
  assumes lib: "setups_ok lib" "early_ok lib" "parse_ok lib" "0 < INIT_ENV_ARG_LIMIT lib" and os: "keeps_off os early_functions"
    and s: "arrays_start lib (boot_of s)" "trace s = []" "\<not> early_boot_irqs_disabled s"
    and t: "start_kernel lib os s = Inr (Returned 0, s')" "boot_of t = boot_of s'"
    and gs: "tried (exec_ok os (boot_of t)) (length (execs t)) (candidates os (boot_of t)) = (gs, b)"
  shows "\<exists>out t'. kernel_init lib os cur t = Inr (out, t') \<and> execs t' = execs t @ map (exec_call (boot_of t)) gs
    \<and> (if b then out = Returned 0 else \<exists>msg. out = Panicked msg) \<and> system_state t' = SYSTEM_RUNNING
    \<and> (\<forall>(f, argv, envp)\<in>set (map (exec_call (boot_of t)) gs). argv ! 0 = Some f \<and> last argv = None \<and> last envp = None)"
proof -
  have "ready lib (boot_of t)"
    using start_kernel_ends [OF lib os s] t by (auto split: option.splits)
  then have "\<forall>(f, argv, envp)\<in>set (map (exec_call (boot_of t)) gs). argv ! 0 = Some f \<and> last argv = None \<and> last envp = None"
    by (auto simp: ready_def exec_call_def last_update)
  then show ?thesis using kernel_init_runs [OF lib(3) gs, of cur] by (auto simp: ends_as_def)
qed

text \<open>
  The effect of \<open>start_kernel\<close> on the variables that decide about the first program is that of the two readings of the command
  line; here the first of them, for early parameters, changes nothing.
\<close>

definition untouched :: "boot \<Rightarrow> boot \<Rightarrow> bool" where
  "untouched b b' \<longleftrightarrow> handed b' = handed b \<and> execute_command b' = execute_command b \<and> ramdisk_execute_command b' = ramdisk_execute_command b"

lemma untouched_trans: "untouched a b \<Longrightarrow> untouched b c \<Longrightarrow> untouched a c"
  by (simp add: untouched_def)

lemma untouched_vars: "untouched b b' \<Longrightarrow> program_vars b' = program_vars b \<and> panic_later b' = panic_later b"
  by (simp add: untouched_def handed_def program_vars_def)

lemma untouched_log [simp]: "untouched b (boot_of (log_line t s)) = untouched b (boot_of s)"
  by (simp add: untouched_def log_line_def pr_def handed_def)

definition early_silent :: "kernel_lib \<Rightarrow> string \<Rightarrow> bool" where
  "early_silent lib line \<longleftrightarrow> (\<forall>b. boot_command_line b = line \<longrightarrow> (\<exists>d. parse_early_param lib b = Inr (b\<lparr>early_done := d\<rparr>)))"

definition lines_read :: "kernel_os \<Rightarrow> boot \<Rightarrow> bool" where
  "lines_read os b \<longleftrightarrow> boot_command_line b = arch_boot_line os \<and> static_command_line b = arch_command_line os"

lemma start_locked_vars:
  assumes "early_silent lib (arch_boot_line os)"
  shows "\<exists>s'. start_locked lib os s = Inr s' \<and> execs s' = execs s \<and> untouched (boot_of s) (boot_of s') \<and> lines_read os (boot_of s')"
proof -
  let ?a = "calls os [''set_task_stack_end_magic'', ''smp_setup_processor_id'', ''debug_objects_early_init'', ''cgroup_init_early''] s"
  define c where "c = call os ''setup_arch'' (log_line (linux_banner os) (calls os [''boot_cpu_init'', ''page_address_init'']
    ((local_irq_disable ?a)\<lparr>early_boot_irqs_disabled := True\<rparr>)))"
  have c: "untouched (boot_of s) (boot_of c)" "execs c = execs s"
    by (simp_all add: c_def local_irq_disable_def) (simp add: untouched_def)
  let ?e = "(boot_of c)\<lparr>boot_command_line := arch_boot_line os\<rparr>"
  obtain b where "(if arch_parses_early os then parse_early_param lib ?e else Inr ?e) = Inr b" "untouched (boot_of s) b"
    "boot_command_line b = arch_boot_line os"
  proof (cases "arch_parses_early os")
    case True
    obtain d where "parse_early_param lib ?e = Inr (?e\<lparr>early_done := d\<rparr>)" using assms unfolding early_silent_def by fastforce
    then show ?thesis using that True c(1) by (simp add: untouched_def handed_def)
  qed (use that c(1) in \<open>simp add: untouched_def handed_def\<close>)
  then show ?thesis
    using c(2) unfolding start_locked_def setup_arch_def Let_def c_def [symmetric]
    by (auto simp: untouched_def handed_def setup_command_line_def lines_read_def)
qed

lemma start_parts_vars:
  "execs (start_sched os s) = execs s" "untouched b (boot_of (start_sched os s)) = untouched b (boot_of s)"
  "execs (start_irqs os s) = execs s" "untouched b (boot_of (start_irqs os s)) = untouched b (boot_of s)"
  by (simp_all add: start_sched_def start_irqs_def Let_def mm_init_def preempt_disable_def local_irq_disable_def local_irq_enable_def)

lemma start_rest_vars: "execs (start_rest os s) = execs s" "untouched b (boot_of (start_rest os s)) = untouched b (boot_of s)"
proof -
  have i: "execs (check_initrd os t) = execs t" "untouched b (boot_of (check_initrd os t)) = untouched b (boot_of t)" for t
    by (simp_all add: check_initrd_def)
  show "execs (start_rest os s) = execs s" "untouched b (boot_of (start_rest os s)) = untouched b (boot_of s)"
    unfolding start_rest_def Let_def by (simp_all add: i if_distrib [of execs] if_distrib [of boot_of] cong: if_cong)
qed

lemma start_kernel_vars:
  assumes early: "early_silent lib (arch_boot_line os)"
    and parse: "\<And>a. untouched (boot_of s) a \<Longrightarrow> lines_read os a \<Longrightarrow> \<exists>b. parse_boot_line lib a = Inr b \<and> panic_later b = None \<and> P b"
  shows "\<exists>s' b. start_kernel lib os s = Inr (Returned 0, s') \<and> execs s' = execs s \<and> P b \<and> untouched b (boot_of s')"
proof -
  obtain a where a: "start_locked lib os s = Inr a" "execs a = execs s" "untouched (boot_of s) (boot_of a)" "lines_read os (boot_of a)"
    using start_locked_vars [OF early] by blast
  let ?a = "call os ''jump_label_init'' (log_line (''Kernel command line: '' @ boot_command_line (boot_of a)) a)"
  have "untouched (boot_of s) (boot_of ?a)" "lines_read os (boot_of ?a)"
    using a(3,4) by simp_all (simp add: lines_read_def log_line_def pr_def)
  from parse [OF this] obtain b where b: "parse_boot_line lib (boot_of ?a) = Inr b" "panic_later b = None" "P b" by blast
  then have p: "start_params lib os a = Inr (?a\<lparr>boot_of := b\<rparr>)" by (simp add: start_params_def Let_def)
  let ?c = "calls os [''kmem_cache_init_late'', ''console_init''] (start_irqs os (start_sched os (?a\<lparr>boot_of := b\<rparr>)))"
  have c: "execs ?c = execs s" "untouched b (boot_of ?c)" using a(2) by (simp_all add: start_parts_vars) (simp add: untouched_def)
  have "panic_later (boot_of ?c) = None" using untouched_vars [OF c(2)] b(2) by simp
  then show ?thesis using a(1) p c b(3) by (auto simp: start_kernel_def Let_def start_rest_vars)
qed

text \<open>A command line without arguments: the start leaves the variables of the file as they were initialised.\<close>

definition silent_lib :: "nat \<Rightarrow> kernel_lib" where
  "silent_lib n = (demo_lib n)\<lparr>parse_args := (\<lambda>_ _ _. ([], None))\<rparr>"

lemma silent_early: "early_silent (silent_lib n) line"
proof -
  have "\<exists>d. parse_early_param (silent_lib n) b = Inr (b\<lparr>early_done := d\<rparr>)" for b
  proof (cases "early_done b")
    case True
    have "b = b\<lparr>early_done := True\<rparr>" using True by simp
    then show ?thesis using True by (metis parse_early_param_def)
  qed (auto simp: parse_early_param_def parse_early_options_def silent_lib_def)
  then show ?thesis by (simp add: early_silent_def)
qed

lemma silent_start_kernel:
  "\<exists>s'. start_kernel (silent_lib n) (demo_os run line) (power_on n) = Inr (Returned 0, s') \<and> execs s' = []
     \<and> program_vars (boot_of s') = program_vars (demo_boot n [])"
proof -
  have "\<exists>b. parse_boot_line (silent_lib n) a = Inr b \<and> panic_later b = None \<and> untouched (demo_boot n []) b" if "untouched (demo_boot n []) a" for a
  proof -
    obtain d where "parse_early_param (silent_lib n) a = Inr (a\<lparr>early_done := d\<rparr>)" using silent_early unfolding early_silent_def by blast
    moreover have "parse_args (silent_lib n) k j t = ([], None)" for k j t by (simp add: silent_lib_def)
    ultimately show ?thesis using that by (simp add: parse_boot_line_def untouched_def handed_def demo_boot_def)
  qed
  then have "\<exists>s' b. start_kernel (silent_lib n) (demo_os run line) (power_on n) = Inr (Returned 0, s') \<and> execs s' = execs (power_on n)
      \<and> untouched (demo_boot n []) b \<and> untouched b (boot_of s')"
    by (intro start_kernel_vars [OF silent_early]) (simp_all add: power_on_def)
  moreover have "execs (power_on n) = []" by (simp add: power_on_def demo_sys_def execs_def)
  ultimately show ?thesis using untouched_vars by fastforce
qed

lemma silent_lib_ok: "setups_ok (silent_lib n)" "early_ok (silent_lib n)" "parse_ok (silent_lib n)"
  using demo_lib_ok by (simp_all add: setups_ok_def early_ok_def parse_ok_def args_ok_def silent_lib_def)

lemma silent_start: "arrays_start (silent_lib n) (boot_of (power_on n))"
  using demo_start(2) [of n]
  by (simp add: arrays_start_def silent_lib_def argv_init_start_def envp_init_start_def MAX_INIT_ARGS_def MAX_INIT_ENVS_def)

theorem first_runnable_program_is_started_witness:
  "\<exists>s' out t'. start_kernel (silent_lib 2) (demo_os (\<lambda>f. if f = ''/etc/init'' then 0 else - 2) []) (power_on 2) = Inr (Returned 0, s')
    \<and> kernel_init (silent_lib 2) (demo_os (\<lambda>f. if f = ''/etc/init'' then 0 else - 2) []) 1 s' = Inr (out, t') \<and> out = Returned 0
    \<and> map fst (execs t') = [''/sbin/init'', ''/etc/init'']"
proof -
  let ?os = "demo_os (\<lambda>f. if f = ''/etc/init'' then 0 else - 2) []"
  have l: "0 < INIT_ENV_ARG_LIMIT (silent_lib 2)" by (simp add: silent_lib_def demo_lib_def)
  obtain s' where s': "start_kernel (silent_lib 2) ?os (power_on 2) = Inr (Returned 0, s')" "execs s' = []"
    "program_vars (boot_of s') = program_vars (demo_boot 2 [])" using silent_start_kernel by blast
  note V = program_vars_exec [OF s'(3)]
  have c: "tried (exec_ok ?os (boot_of s')) (length (execs s')) (candidates ?os (boot_of s')) = ([''/sbin/init'', ''/etc/init''], True)"
    unfolding s'(2) candidates_def V
    by (simp add: requested_def ramdisk_program_def demo_boot_def demo_os_def exec_ok_def exec_call_def)
  from first_runnable_program_is_started [OF silent_lib_ok l demo_start(1) silent_start demo_start(3,4) s'(1) refl c, of 1] show ?thesis
    using s'(1,2) by (auto simp: exec_call_def)
qed

end
