(* ===== verification/Kernel_Command_Line.thy ===== *)
theory Kernel_Command_Line
  imports Kernel_Boot Kernel_Handover
begin

text \<open>
  From the command line of the kernel to the program it names: the reading of the options, \<open>start_kernel\<close> and
  \<open>kernel_init\<close> together, for a command line that contains \<open>init=\<close>.
\<close>

section \<open>Comparing names of parameters\<close>

text \<open>
  What is documented of \<open>parameqn\<close>: it compares with the beginning of a line, a dash being as good as an underscore.
\<close>

definition dash2underscore :: "char \<Rightarrow> char" where
  "dash2underscore c = (if c = CHR ''-'' then CHR ''_'' else c)"

definition names_ok :: "kernel_lib \<Rightarrow> bool" where
  "names_ok lib \<longleftrightarrow> (\<forall>line name. parameqn lib line name (length name) \<longleftrightarrow> prefix (map dash2underscore name) (map dash2underscore line))"

text \<open>An option that none of the early parameters takes.\<close>

definition not_early :: "kernel_lib \<Rightarrow> boot_option \<Rightarrow> bool" where
  "not_early lib opt \<longleftrightarrow> option_name opt \<noteq> ''console'' \<and> (\<forall>p\<in>set (setup_table lib). early p \<longrightarrow> \<not> parameq lib (option_name opt) (p_str p))"

lemma cstr_layout: "option_ok opt \<Longrightarrow> cstr (fst (layout opt)) 0 = option_name opt"
  using cstr_text by (cases opt) auto

lemma early_not_taken:
  assumes "option_ok opt" "not_early lib opt"
  shows "do_early_param lib (fst (layout opt)) (snd (layout opt)) s = Inr s"
proof -
  have "\<forall>p\<in>set ps. early p \<longrightarrow> \<not> parameq lib (option_name opt) (p_str p) \<Longrightarrow>
      early_loop lib ps (option_name opt) val s = Inr s" for ps val
    using assms(2) by (induction ps) (auto simp: not_early_def)
  then show ?thesis using assms by (simp add: do_early_param_def cstr_layout not_early_def)
qed

lemma early_run_not_taken:
  "\<forall>opt\<in>set opts. option_ok opt \<and> not_early lib opt \<Longrightarrow> run_parsed (do_early_param lib) (map unknown_of opts) s = Inr s"
  by (induction opts) (auto simp: unknown_of_def early_not_taken)

section \<open>Options one after the other\<close>

lemma run_parsed_append:
  "run_parsed f (as @ bs) s = checked_bind (run_parsed f as s) (run_parsed f bs)"
proof (induction as arbitrary: s)
  case (Cons a as)
  then show ?case by (cases a) (auto split: sum.split simp: checked_bind_def)
qed (simp add: checked_bind_def)

lemma init_option:
  assumes "names_ok lib" "NUL \<notin> set prog"
  shows "unknown_bootoption lib (fst (layout (Equals ''init'' prog))) (snd (layout (Equals ''init'' prog))) s = Inr (snd (init_setup lib (Some prog) s))"
proof -
  have "option_ok (Equals ''init'' prog)" using assms(2) by simp
  then obtain buf where buf: "repair_env_string (fst (layout (Equals ''init'' prog))) (snd (layout (Equals ''init'' prog))) = Inr buf"
    "cstr buf 0 = option_text (Equals ''init'' prog)" by (rule repair_layout)
  have p: "parameqn lib line name (length name) \<longleftrightarrow> prefix (map dash2underscore name) (map dash2underscore line)" for line name
    using assms(1) unfolding names_ok_def by blast
  have "obsolete_checksetup lib (''init='' @ prog) s = (True, snd (init_setup lib (Some prog) s))"
    by (simp add: obsolete_checksetup_def setup_table_def main_setups_def p Let_def dash2underscore_def init_setup_def del: list.size) simp
  then show ?thesis using buf by (simp add: unknown_bootoption_def Let_def)
qed

lemma clear_args_filled:
  assumes "length as < MAX_INIT_ARGS lib"
  shows "clear_args lib (filled (MAX_INIT_ARGS lib + 2) (a # as)) = filled (MAX_INIT_ARGS lib + 2) [a]"
proof (rule nth_equalityI)
  let ?n = "MAX_INIT_ARGS lib + 2"
  have len: "length (filled ?n (a # as)) = ?n" "length (filled ?n [a]) = ?n" using assms by (simp_all add: filled_def)
  then show "length (clear_args lib (filled ?n (a # as))) = length (filled ?n [a])" by simp
  fix i
  assume "i < length (clear_args lib (filled ?n (a # as)))"
  then have i: "i < ?n" using len by simp
  have "clear_args lib (filled ?n (a # as)) ! i = (if 1 \<le> i \<and> i < MAX_INIT_ARGS lib then None else filled ?n (a # as) ! i)"
    using i len by (intro clear_args_nth) simp
  then show "clear_args lib (filled ?n (a # as)) ! i = filled ?n [a] ! i"
    using i assms by (cases i) (auto simp: filled_def nth_append nth_Cons split: nat.split)
qed

section \<open>The whole way\<close>

text \<open>The lists handed over before the first option, and the two lists a command line with \<open>init=\<close> in the middle ends with.\<close>

definition first_lists :: "string list \<times> string list" where
  "first_lists = ([''init''], [''HOME=/'', ''TERM=linux''])"

definition lists_with_init :: "boot_option list \<Rightarrow> boot_option list \<Rightarrow> string list \<times> string list" where
  "lists_with_init before after = fold hand_over after ([''init''], snd (fold hand_over before first_lists))"

lemma first_lists_held: "arrays_start lib b \<Longrightarrow> holds_lists lib b first_lists"
  by (simp add: arrays_start_def holds_lists_def first_lists_def argv_init_start_def envp_init_start_def filled_def)

lemma hand_over_hd: "fst l \<noteq> [] \<Longrightarrow> fst (hand_over opt l) \<noteq> [] \<and> hd (fst (hand_over opt l)) = hd (fst l)"
  by (cases opt; cases l) auto

lemma fold_hand_over_hd: "fst l \<noteq> [] \<Longrightarrow> fst (fold hand_over opts l) \<noteq> [] \<and> hd (fst (fold hand_over opts l)) = hd (fst l)"
  using hand_over_hd by (induction opts arbitrary: l) auto

definition passed_on :: "kernel_lib \<Rightarrow> boot_option \<Rightarrow> bool" where
  "passed_on lib opt \<longleftrightarrow> option_ok opt \<and> unquoted opt \<and> unclaimed lib (option_text opt) \<and> not_early lib opt"

definition room_for :: "kernel_lib \<Rightarrow> boot_option list \<Rightarrow> boot_option list \<Rightarrow> bool" where
  "room_for lib before after \<longleftrightarrow> length (fst (fold hand_over before first_lists)) \<le> MAX_INIT_ARGS lib
     \<and> length (fst (lists_with_init before after)) \<le> MAX_INIT_ARGS lib + 1 \<and> length (snd (lists_with_init before after)) \<le> MAX_INIT_ENVS lib"

lemma run_with_init:
  assumes "names_ok lib" "NUL \<notin> set prog" "\<forall>opt\<in>set (before @ after). passed_on lib opt" "room_for lib before after"
    and s: "holds_lists lib s first_lists"
  shows "\<exists>s'. run_parsed (unknown_bootoption lib) (map unknown_of (before @ Equals ''init'' prog # after)) s = Inr s'
    \<and> holds_lists lib s' (lists_with_init before after) \<and> execute_command s' = Some prog
    \<and> ramdisk_execute_command s' = ramdisk_execute_command s"
proof -
  let ?l1 = "fold hand_over before first_lists"
  have ok: "\<forall>opt\<in>set before. option_ok opt \<and> unquoted opt \<and> unclaimed lib (option_text opt)"
    "\<forall>opt\<in>set after. option_ok opt \<and> unquoted opt \<and> unclaimed lib (option_text opt)"
    using assms(3) by (auto simp: passed_on_def)
  have r1: "length (fst ?l1) \<le> MAX_INIT_ARGS lib" and r2: "length (fst (lists_with_init before after)) \<le> MAX_INIT_ARGS lib + 1"
    "length (snd (lists_with_init before after)) \<le> MAX_INIT_ENVS lib" using assms(4) by (simp_all add: room_for_def)
  have "length (snd ?l1) \<le> MAX_INIT_ENVS lib"
    using r2(2) fold_hand_over_grows(2) [of "([''init''], snd ?l1)" after] by (simp add: lists_with_init_def)
  then obtain s1 where s1: "run_parsed (unknown_bootoption lib) (map unknown_of before) s = Inr s1" "holds_lists lib s1 ?l1" "programs_same s s1"
    using run_hands_over [OF s ok(1)] r1 by auto
  have "fst ?l1 = ''init'' # tl (fst ?l1)"
    using fold_hand_over_hd [of first_lists before] by (cases "fst ?l1") (auto simp: first_lists_def)
  then have "clear_args lib (filled (MAX_INIT_ARGS lib + 2) (fst ?l1)) = filled (MAX_INIT_ARGS lib + 2) [''init'']"
    using clear_args_filled [of "tl (fst ?l1)" lib "''init''"] r1 by (metis Suc_le_lessD length_Cons)
  then have s2: "holds_lists lib (snd (init_setup lib (Some prog) s1)) ([''init''], snd ?l1)"
    using s1(2) by (simp add: holds_lists_def init_setup_def)
  obtain s3 where s3: "run_parsed (unknown_bootoption lib) (map unknown_of after) (snd (init_setup lib (Some prog) s1)) = Inr s3"
    "holds_lists lib s3 (lists_with_init before after)" "programs_same (snd (init_setup lib (Some prog) s1)) s3"
    using run_hands_over [OF s2 ok(2)] r2 unfolding lists_with_init_def by blast
  have "run_parsed (unknown_bootoption lib) (map unknown_of (Equals ''init'' prog # after)) s1 = Inr s3"
    using s3(1) init_option [OF assms(1,2), of s1] by (simp add: unknown_of_def)
  then show ?thesis
    using s1 s3(2,3) by (auto simp: run_parsed_append programs_same_def init_setup_def)
qed

text \<open>What \<open>parse_args\<close> makes of the line the architecture hands over, in the early reading and in the second one.\<close>

definition line_holds :: "kernel_lib \<Rightarrow> kernel_os \<Rightarrow> boot_option list \<Rightarrow> bool" where
  "line_holds lib os opts \<longleftrightarrow> fst (parse_args lib False 0 (take (COMMAND_LINE_SIZE lib - 1) (arch_boot_line os))) = map unknown_of opts
     \<and> parse_args lib True (- 1) (arch_command_line os) = (map unknown_of opts, None)"

lemma line_early_silent:
  assumes "line_holds lib os opts" "\<forall>opt\<in>set opts. option_ok opt \<and> not_early lib opt"
  shows "early_silent lib (arch_boot_line os)"
proof -
  have "\<exists>d. parse_early_param lib b = Inr (b\<lparr>early_done := d\<rparr>)" if "boot_command_line b = arch_boot_line os" for b
  proof (cases "early_done b")
    case True
    have "b = b\<lparr>early_done := True\<rparr>" using True by simp
    then show ?thesis using True by (metis parse_early_param_def)
  next
    case False
    then show ?thesis using that assms by (auto simp: parse_early_param_def parse_early_options_def line_holds_def early_run_not_taken)
  qed
  then show ?thesis by (simp add: early_silent_def)
qed

text \<open>The call of \<open>do_execve\<close> that a command line with \<open>init=\<close> leads to.\<close>

definition init_call :: "kernel_lib \<Rightarrow> boot_option list \<Rightarrow> string \<Rightarrow> boot_option list \<Rightarrow> string \<times> string option list \<times> string option list" where
  "init_call lib before prog after =
     (prog, filled (MAX_INIT_ARGS lib + 2) (prog # tl (fst (lists_with_init before after))),
      filled (MAX_INIT_ENVS lib + 2) (snd (lists_with_init before after)))"

lemma filled_first: "0 < n \<Longrightarrow> as \<noteq> [] \<Longrightarrow> (filled n as)[0 := Some a] = filled n (a # tl as)"
  by (cases as) (simp_all add: filled_def)

lemma init_call_exec:
  assumes "holds_lists lib b (lists_with_init before after)"
  shows "exec_call b prog = init_call lib before prog after"
proof -
  have "fst (lists_with_init before after) \<noteq> []"
    using fold_hand_over_hd [of "([''init''], snd (fold hand_over before first_lists))" after] by (simp add: lists_with_init_def)
  then show ?thesis using assms by (simp add: exec_call_def init_call_def holds_lists_def filled_first)
qed

lemma start_with_init:
  assumes lib: "names_ok lib" and s: "arrays_start lib (boot_of s)"
    and opts: "\<forall>opt\<in>set (before @ after). passed_on lib opt" "not_early lib (Equals ''init'' prog)" "NUL \<notin> set prog"
    and room: "room_for lib before after" and line: "line_holds lib os (before @ Equals ''init'' prog # after)"
  shows "\<exists>s'. start_kernel lib os s = Inr (Returned 0, s') \<and> exec_call (boot_of s') prog = init_call lib before prog after
    \<and> execute_command (boot_of s') = Some prog \<and> ramdisk_execute_command (boot_of s') = ramdisk_execute_command (boot_of s)"
proof -
  let ?P = "\<lambda>b. holds_lists lib b (lists_with_init before after) \<and> execute_command b = Some prog
    \<and> ramdisk_execute_command b = ramdisk_execute_command (boot_of s)"
  have early: "early_silent lib (arch_boot_line os)"
    using opts by (intro line_early_silent [OF line]) (auto simp: passed_on_def)
  have "\<exists>b. parse_boot_line lib a = Inr b \<and> panic_later b = None \<and> ?P b" if a: "untouched (boot_of s) a" "lines_read os a" for a
  proof -
    obtain d where d: "parse_early_param lib a = Inr (a\<lparr>early_done := d\<rparr>)"
      using early a(2) unfolding early_silent_def lines_read_def by blast
    have "holds_lists lib (a\<lparr>early_done := d\<rparr>) first_lists"
      using first_lists_held [OF s] a(1) by (simp add: holds_lists_def untouched_def handed_def)
    then obtain b where "run_parsed (unknown_bootoption lib) (map unknown_of (before @ Equals ''init'' prog # after)) (a\<lparr>early_done := d\<rparr>) = Inr b"
      "?P b" using run_with_init [OF lib opts(3,1) room] a(1) by (fastforce simp: untouched_def)
    then show ?thesis
      using d line a(2) by (simp add: parse_boot_line_def line_holds_def lines_read_def holds_lists_def)
  qed
  then obtain s' b where s': "start_kernel lib os s = Inr (Returned 0, s')" "?P b" "untouched b (boot_of s')"
    using start_kernel_vars [OF early, of s ?P] by blast
  then have "holds_lists lib (boot_of s') (lists_with_init before after)"
    by (simp add: holds_lists_def untouched_def handed_def)
  from init_call_exec [OF this] show ?thesis using s' by (auto simp: untouched_def)
qed

text \<open>
  C14. The program named with \<open>init=\<close> gets exactly what the command line says, for the lines the kernel hands over
  correctly. The kernel is started with a line of options it does not know itself, none of them with quotes, with \<open>init=\<close>
  somewhere among them, and without a program in the initial ramdisk. The options fit the arrays of \<open>main.c\<close> without loss:
  fewer than \<open>MAX_INIT_ARGS\<close> plain words stand before \<open>init=\<close>, no more than \<open>MAX_INIT_ARGS\<close> behind it, and no more than
  \<open>MAX_INIT_ENVS\<close> settings come together, \<open>HOME\<close> and \<open>TERM\<close> included. (A quoted setting of a variable that is set already
  is added instead of replacing it, and with \<open>MAX_INIT_ARGS\<close> words before \<open>init=\<close> the last of them survives \<open>init_setup\<close>.)
  Then \<open>start_kernel\<close> does not panic, and \<open>kernel_init\<close>, from every state with the variables left so, starts that program and no other. Its arguments are its name and the plain words that stand behind \<open>init=\<close>; its environment has the
  settings of the whole line, before and behind. The kernel panics exactly if the program cannot be run.
\<close>

theorem init_program_gets_its_arguments:
  assumes lib: "names_ok lib" "parse_ok lib"
    and s: "arrays_start lib (boot_of s)" "ramdisk_execute_command (boot_of s) = None" "sys_access os ''/init'' \<noteq> 0"
    and opts: "\<forall>opt\<in>set (before @ after). passed_on lib opt" "not_early lib (Equals ''init'' prog)" "NUL \<notin> set prog"
    and room: "room_for lib before after" and line: "line_holds lib os (before @ Equals ''init'' prog # after)"
  shows "\<exists>s'. start_kernel lib os s = Inr (Returned 0, s') \<and> (\<forall>t. boot_of t = boot_of s' \<longrightarrow>
    (\<exists>out t'. kernel_init lib os cur t = Inr (out, t') \<and> execs t' = execs t @ [init_call lib before prog after]
      \<and> (case init_call lib before prog after of (f, argv, envp) \<Rightarrow>
           if do_execve os (length (execs t)) f argv envp = 0 then out = Returned 0 else \<exists>msg. out = Panicked msg)))"
proof -
  obtain s' where s': "start_kernel lib os s = Inr (Returned 0, s')" "exec_call (boot_of s') prog = init_call lib before prog after"
    "execute_command (boot_of s') = Some prog" "ramdisk_execute_command (boot_of s') = None"
    using start_with_init [OF lib(1) s(1) opts room line] s(2) by auto
  have "\<exists>out t'. kernel_init lib os cur t = Inr (out, t') \<and> execs t' = execs t @ [init_call lib before prog after]
      \<and> ends_as (exec_ok os (boot_of t) (length (execs t)) prog) out" if t: "boot_of t = boot_of s'" for t
  proof -
    have "tried (exec_ok os (boot_of t)) (length (execs t)) (candidates os (boot_of t)) = ([prog], exec_ok os (boot_of t) (length (execs t)) prog)"
      using t s'(3,4) s(3) by (simp add: candidates_def requested_def ramdisk_program_def)
    from kernel_init_runs [OF lib(2) this, of cur] show ?thesis using t s'(2) by auto
  qed
  moreover have "exec_ok os (boot_of t) n prog = (case init_call lib before prog after of (f, argv, envp) \<Rightarrow> do_execve os n f argv envp = 0)"
    if "boot_of t = boot_of s'" for t n using that s'(2) by (simp add: exec_ok_def)
  ultimately show ?thesis using s'(1) by (fastforce simp: ends_as_def init_call_def)
qed

text \<open>A library that compares names as documented, for a line with words and settings on both sides.\<close>

definition line_lib :: kernel_lib where
  "line_lib = (demo_lib 4)\<lparr>parameqn := (\<lambda>l p k. prefix (map dash2underscore (take k p)) (map dash2underscore l))\<rparr>"

theorem init_program_gets_its_arguments_witness:
  "\<exists>s' out t'. start_kernel line_lib (demo_os (\<lambda>_. 0) ''single A=1 init=/bin/sh -x TERM=vt100'') (power_on 4) = Inr (Returned 0, s')
    \<and> kernel_init line_lib (demo_os (\<lambda>_. 0) ''single A=1 init=/bin/sh -x TERM=vt100'') 1 s' = Inr (out, t') \<and> out = Returned 0
    \<and> execs t' = execs s' @ [(''/bin/sh'', map Some [''/bin/sh'', ''-x''] @ replicate 4 None,
        map Some [''HOME=/'', ''TERM=vt100'', ''A=1''] @ replicate 3 None)]"
proof -
  let ?os = "demo_os (\<lambda>_. 0) ''single A=1 init=/bin/sh -x TERM=vt100''"
  let ?before = "[Plain ''single'', Equals ''A'' ''1'']" and ?after = "[Plain ''-x'', Equals ''TERM'' ''vt100'']"
  have names: "names_ok line_lib" by (simp add: names_ok_def line_lib_def)
  have parse: "parse_ok line_lib" using demo_lib_ok(3) [of 4] by (simp add: parse_ok_def line_lib_def)
  have s: "arrays_start line_lib (boot_of (power_on 4))" "ramdisk_execute_command (boot_of (power_on 4)) = None" "sys_access ?os ''/init'' \<noteq> 0"
    using demo_start(2) [of 4]
    by (simp_all add: arrays_start_def line_lib_def argv_init_start_def envp_init_start_def MAX_INIT_ARGS_def MAX_INIT_ENVS_def
        power_on_def demo_boot_def demo_os_def)
  have opts: "\<forall>opt\<in>set (?before @ ?after). passed_on line_lib opt" "not_early line_lib (Equals ''init'' ''/bin/sh'')" "NUL \<notin> set ''/bin/sh''"
    by (simp_all add: passed_on_def not_early_def unclaimed_def setup_table_def main_setups_def line_lib_def demo_lib_def dash2underscore_def)
  have lists: "lists_with_init ?before ?after = ([''init'', ''-x''], [''HOME=/'', ''TERM=vt100'', ''A=1''])"
    by (simp add: lists_with_init_def first_lists_def)
  have room: "room_for line_lib ?before ?after"
    by (simp add: room_for_def lists first_lists_def MAX_INIT_ARGS_def MAX_INIT_ENVS_def line_lib_def demo_lib_def)
  have words: "split_words ''single A=1 init=/bin/sh -x TERM=vt100'' = [''single'', ''A=1'', ''init=/bin/sh'', ''-x'', ''TERM=vt100'']"
    by code_simp
  have options: "map word_option [''single'', ''A=1'', ''init=/bin/sh'', ''-x'', ''TERM=vt100''] = ?before @ Equals ''init'' ''/bin/sh'' # ?after"
    by code_simp
  have line: "line_holds line_lib ?os (?before @ Equals ''init'' ''/bin/sh'' # ?after)"
    by (simp add: line_holds_def line_lib_def demo_lib_def demo_os_def demo_parse_def words) (use options in simp)
  have c: "init_call line_lib ?before ''/bin/sh'' ?after = (''/bin/sh'', map Some [''/bin/sh'', ''-x''] @ replicate 4 None,
        map Some [''HOME=/'', ''TERM=vt100'', ''A=1''] @ replicate 3 None)"
    by (simp add: init_call_def lists filled_def MAX_INIT_ARGS_def MAX_INIT_ENVS_def line_lib_def demo_lib_def)
  have run: "do_execve ?os n f argv envp = 0" for n f argv envp by (simp add: demo_os_def)
  from init_program_gets_its_arguments [OF names parse s opts room line, of 1] show ?thesis
    unfolding c by (auto simp: run)
qed

end
