(* ===== verification/Kernel_Threads.thy ===== *)
theory Kernel_Threads
  imports Kernel_Boot
begin

text \<open>
  \<open>rest_init\<close> of \<open>init/main.c\<close> and the thread it creates, as two threads that are interleaved in any way: the boot
  thread creates the first process, clears its weight, creates \<open>kthreadd\<close>, and completes \<open>kthreadd_done\<close>; the first
  process starts in \<open>kernel_init\<close>, whose first action is to wait for that completion. \<open>kernel_thread\<close> and \<open>find_task_by_pid_ns\<close> are functions of
  other files: whether a task is created, which one and with which pid is chosen by the environment, what its creation does to the tasks is the parameter
  \<open>fork\<close>, and a task is found under the pid it was created with.
\<close>

section \<open>State and steps\<close>

datatype root_pc =
    Spawn_init
  | Find_init c_int
  | Clear_weight "taddr option"
  | Pin_init taddr
  | Spawn_kthreadd
  | Find_kthreadd c_int
  | Set_scheduling
  | Complete
  | Cpu_idle
  | Null_dereference

datatype init_pc = Not_created | At_wait | Past_wait

record threads =
  kern :: kernel
  pid_table :: "(c_int \<times> taddr) list"
  pinned :: "taddr option"
  kthreadd_task :: "taddr option"
  kthreadd_done :: nat
  boot_state :: system_states
  root_at :: root_pc
  init_at :: init_pc
  first_task :: "taddr option"  \<comment> \<open>the task that runs \<open>kernel_init\<close>\<close>

text \<open>
  What is relied upon of the creation of a task \<open>a\<close> with pid \<open>p\<close>: it is a child of the caller, and no other task gets another weight, pid or parent.
\<close>

type_synonym fork_fun = "c_int \<Rightarrow> taddr \<Rightarrow> kernel \<Rightarrow> kernel"

definition fork_ok :: "fork_fun \<Rightarrow> bool" where
  "fork_ok fork \<longleftrightarrow> (\<forall>p a k. current (fork p a k) = current k
     \<and> pid (tasks (fork p a k) a) = p \<and> real_parent (tasks (fork p a k) a) = current k
     \<and> (\<forall>b. b \<noteq> a \<longrightarrow> weight (tasks (fork p a k) b) = weight (tasks k b) \<and> pid (tasks (fork p a k) b) = pid (tasks k b)
          \<and> real_parent (tasks (fork p a k) b) = real_parent (tasks k b)))"

definition created :: "fork_fun \<Rightarrow> c_int \<Rightarrow> taddr \<Rightarrow> threads \<Rightarrow> threads" where
  "created fork p a s = s\<lparr>kern := fork p a (kern s), pid_table := (p, a) # pid_table s\<rparr>"

definition fresh_task :: "c_int \<Rightarrow> taddr \<Rightarrow> threads \<Rightarrow> bool" where
  "fresh_task p a s \<longleftrightarrow> 0 < sint p \<and> p \<notin> fst ` set (pid_table s) \<and> a \<notin> snd ` set (pid_table s) \<and> a \<noteq> current (kern s)"

definition find_task_by_pid_ns :: "threads \<Rightarrow> c_int \<Rightarrow> taddr option" where
  "find_task_by_pid_ns s p = map_of (pid_table s) p"

inductive boot_step :: "fork_fun \<Rightarrow> threads \<Rightarrow> threads \<Rightarrow> bool" for fork where
  spawn_init: "root_at s = Spawn_init \<Longrightarrow> fresh_task p a s \<Longrightarrow>
    boot_step fork s ((created fork p a s)\<lparr>root_at := Find_init p, init_at := At_wait, first_task := Some a\<rparr>)"
| spawn_init_fails: "root_at s = Spawn_init \<Longrightarrow> sint e < 0 \<Longrightarrow> boot_step fork s (s\<lparr>root_at := Find_init e\<rparr>)"
| find_init: "root_at s = Find_init p \<Longrightarrow> boot_step fork s (s\<lparr>root_at := Clear_weight (find_task_by_pid_ns s p)\<rparr>)"
| clear_weight: "root_at s = Clear_weight (Some tsk) \<Longrightarrow>
    boot_step fork s (s\<lparr>kern := rest_init_weight (kern s) tsk, root_at := Pin_init tsk\<rparr>)"
| clear_weight_null: "root_at s = Clear_weight None \<Longrightarrow> boot_step fork s (s\<lparr>root_at := Null_dereference\<rparr>)"
| pin_init: "root_at s = Pin_init tsk \<Longrightarrow> boot_step fork s (s\<lparr>pinned := Some tsk, root_at := Spawn_kthreadd\<rparr>)"
| spawn_kthreadd: "root_at s = Spawn_kthreadd \<Longrightarrow> fresh_task p a s \<Longrightarrow>
    boot_step fork s ((created fork p a s)\<lparr>root_at := Find_kthreadd p\<rparr>)"
| spawn_kthreadd_fails: "root_at s = Spawn_kthreadd \<Longrightarrow> sint e < 0 \<Longrightarrow> boot_step fork s (s\<lparr>root_at := Find_kthreadd e\<rparr>)"
| find_kthreadd: "root_at s = Find_kthreadd p \<Longrightarrow>
    boot_step fork s (s\<lparr>kthreadd_task := find_task_by_pid_ns s p, root_at := Set_scheduling\<rparr>)"
| set_scheduling: "root_at s = Set_scheduling \<Longrightarrow> boot_step fork s (s\<lparr>boot_state := SYSTEM_SCHEDULING, root_at := Complete\<rparr>)"
| complete: "root_at s = Complete \<Longrightarrow> boot_step fork s (s\<lparr>kthreadd_done := kthreadd_done s + 1, root_at := Cpu_idle\<rparr>)"
| wait_for_completion: "init_at s = At_wait \<Longrightarrow> 0 < kthreadd_done s \<Longrightarrow>
    boot_step fork s (s\<lparr>kthreadd_done := kthreadd_done s - 1, init_at := Past_wait\<rparr>)"

definition rest_init_start :: "kernel \<Rightarrow> (c_int \<times> taddr) list \<Rightarrow> threads" where
  "rest_init_start k tab =
     \<lparr>kern = k, pid_table = tab, pinned = None, kthreadd_task = None, kthreadd_done = 0, boot_state = SYSTEM_BOOTING,
      root_at = Spawn_init, init_at = Not_created, first_task = None\<rparr>"

section \<open>Invariant\<close>

text \<open>What holds at each point of \<open>rest_init\<close>; \<open>cleared\<close> says that the first process was found, pinned and has weight 0.\<close>

definition cleared :: "threads \<Rightarrow> bool" where
  "cleared s \<longleftrightarrow> (\<exists>a. first_task s = Some a \<and> a \<in> snd ` set (pid_table s) \<and> pinned s = Some a \<and> weight (tasks (kern s) a) = 0 \<and> init_at s \<noteq> Not_created)"

fun root_inv :: "root_pc \<Rightarrow> threads \<Rightarrow> bool" where
  "root_inv Spawn_init s \<longleftrightarrow> init_at s = Not_created"
| "root_inv (Find_init p) s \<longleftrightarrow> (0 < sint p \<and> init_at s = At_wait \<and> (\<exists>a. first_task s = Some a \<and> find_task_by_pid_ns s p = Some a)) \<or> (sint p < 0 \<and> init_at s = Not_created)"
| "root_inv (Clear_weight t) s \<longleftrightarrow>
     (case t of None \<Rightarrow> init_at s = Not_created | Some a \<Rightarrow> init_at s = At_wait \<and> first_task s = Some a \<and> a \<in> snd ` set (pid_table s))"
| "root_inv (Pin_init a) s \<longleftrightarrow> init_at s = At_wait \<and> weight (tasks (kern s) a) = 0 \<and> first_task s = Some a \<and> a \<in> snd ` set (pid_table s)"
| "root_inv Spawn_kthreadd s \<longleftrightarrow> init_at s = At_wait \<and> cleared s"
| "root_inv (Find_kthreadd p) s \<longleftrightarrow> init_at s = At_wait \<and> cleared s \<and> (sint p < 0 \<or> p \<in> fst ` set (pid_table s))"
| "root_inv Set_scheduling s \<longleftrightarrow> init_at s = At_wait \<and> cleared s"
| "root_inv Complete s \<longleftrightarrow> init_at s = At_wait \<and> cleared s \<and> boot_state s = SYSTEM_SCHEDULING"
| "root_inv Cpu_idle s \<longleftrightarrow> cleared s \<and> boot_state s = SYSTEM_SCHEDULING \<and> (init_at s = At_wait \<longleftrightarrow> kthreadd_done s = 1)"
| "root_inv Null_dereference s \<longleftrightarrow> init_at s = Not_created"

definition threads_inv :: "threads \<Rightarrow> bool" where
  "threads_inv s \<longleftrightarrow> root_inv (root_at s) s \<and> (root_at s \<noteq> Cpu_idle \<longrightarrow> kthreadd_done s = 0)
     \<and> (\<forall>p\<in>fst ` set (pid_table s). 0 \<le> sint p)"

inductive_cases boot_stepE: "boot_step fork s s'"

lemma created_fields [simp]:
  "pid_table (created fork p a s) = (p, a) # pid_table s" "init_at (created fork p a s) = init_at s"
  "root_at (created fork p a s) = root_at s" "kthreadd_done (created fork p a s) = kthreadd_done s"
  "pinned (created fork p a s) = pinned s" "boot_state (created fork p a s) = boot_state s"
  "first_task (created fork p a s) = first_task s" "kern (created fork p a s) = fork p a (kern s)"
  "kthreadd_task (created fork p a s) = kthreadd_task s"
  by (simp_all add: created_def)

lemma fork_others:
  assumes "fork_ok fork"
  shows "current (fork p a k) = current k" "pid (tasks (fork p a k) a) = p" "real_parent (tasks (fork p a k) a) = current k"
    "b \<noteq> a \<Longrightarrow> weight (tasks (fork p a k) b) = weight (tasks k b)" "b \<noteq> a \<Longrightarrow> pid (tasks (fork p a k) b) = pid (tasks k b)"
    "b \<noteq> a \<Longrightarrow> real_parent (tasks (fork p a k) b) = real_parent (tasks k b)"
  using assms by (simp_all add: fork_ok_def)

lemma cleared_created: "fork_ok fork \<Longrightarrow> cleared s \<Longrightarrow> fresh_task p a s \<Longrightarrow> cleared (created fork p a s)"
proof -
  assume f: "fork_ok fork" and c: "cleared s" and n: "fresh_task p a s"
  from c obtain b where b: "first_task s = Some b" "b \<in> snd ` set (pid_table s)" "pinned s = Some b" "weight (tasks (kern s) b) = 0" "init_at s \<noteq> Not_created"
    unfolding cleared_def by blast
  then have "b \<noteq> a" using n by (auto simp: fresh_task_def)
  then show ?thesis using b fork_others(4) [OF f] by (auto simp: cleared_def)
qed

lemma cleared_update [simp]:
  "cleared (s\<lparr>root_at := r\<rparr>) = cleared s" "cleared (s\<lparr>kthreadd_task := t\<rparr>) = cleared s" "cleared (s\<lparr>kthreadd_done := n\<rparr>) = cleared s"
  "cleared (s\<lparr>boot_state := b\<rparr>) = cleared s"
  by (simp_all add: cleared_def)

lemma find_task_some: "find_task_by_pid_ns s p = Some a \<Longrightarrow> (p, a) \<in> set (pid_table s)"
  by (simp add: find_task_by_pid_ns_def map_of_SomeD)

lemma find_task_none: "find_task_by_pid_ns s p = None \<longleftrightarrow> p \<notin> fst ` set (pid_table s)"
  by (simp add: find_task_by_pid_ns_def map_of_eq_None_iff)

lemma boot_step_inv:
  assumes "boot_step fork s s'" "threads_inv s" "fork_ok fork"
  shows "threads_inv s'"
  using assms(1)
proof cases
  case (spawn_init p a)
  then show ?thesis using assms(2) by (auto simp: threads_inv_def fresh_task_def find_task_by_pid_ns_def)
next
  case (spawn_init_fails e)
  then show ?thesis using assms(2) by (auto simp: threads_inv_def)
next
  case (find_init p)
  have "sint p < 0 \<Longrightarrow> p \<notin> fst ` set (pid_table s)" using assms(2) by (force simp: threads_inv_def)
  then show ?thesis using find_init assms(2) find_task_some [of s p] find_task_none [of s p]
    by (cases "find_task_by_pid_ns s p") (auto simp: threads_inv_def intro: rev_image_eqI)
next
  case (clear_weight tsk)
  then show ?thesis using assms(2) by (auto simp: threads_inv_def rest_init_weight_def)
next
  case clear_weight_null
  then show ?thesis using assms(2) by (auto simp: threads_inv_def)
next
  case (pin_init tsk)
  then show ?thesis using assms(2) by (auto simp: threads_inv_def cleared_def)
next
  case (spawn_kthreadd p a)
  then show ?thesis using assms(2) cleared_created [OF assms(3), of s p a] by (auto simp: threads_inv_def fresh_task_def)
next
  case (spawn_kthreadd_fails e)
  then show ?thesis using assms(2) by (auto simp: threads_inv_def)
next
  case (find_kthreadd p)
  then show ?thesis using assms(2) by (auto simp: threads_inv_def)
next
  case set_scheduling
  then show ?thesis using assms(2) by (auto simp: threads_inv_def)
next
  case complete
  then show ?thesis using assms(2) by (auto simp: threads_inv_def)
next
  case wait_for_completion
  have "root_at s = Cpu_idle" using assms(2) wait_for_completion(3) by (auto simp: threads_inv_def)
  then show ?thesis using wait_for_completion assms(2) by (auto simp: threads_inv_def cleared_def)
qed

lemma start_inv: "\<forall>p\<in>fst ` set tab. 0 \<le> sint p \<Longrightarrow> threads_inv (rest_init_start k tab)"
  by (simp add: threads_inv_def rest_init_start_def)

lemma reachable_inv:
  assumes "(boot_step fork)\<^sup>*\<^sup>* (rest_init_start k tab) s" "\<forall>p\<in>fst ` set tab. 0 \<le> sint p" "fork_ok fork"
  shows "threads_inv s"
  using assms(1) by (induction rule: rtranclp_induct) (auto intro: start_inv [OF assms(2)] boot_step_inv [OF _ _ assms(3)])

text \<open>
  C12. In every interleaving of \<open>rest_init\<close> with the thread it creates: when the first process gets past
  \<open>wait_for_completion\<close>, the boot thread has gone through all of \<open>rest_init\<close>, the scheduler is announced as running,
  and the task that runs \<open>kernel_init\<close>, which is the one that waited, is pinned to the boot processor and has weight 0.
\<close>

theorem first_process_starts_with_weight_0:
  assumes "(boot_step fork)\<^sup>*\<^sup>* (rest_init_start k tab) s" "\<forall>p\<in>fst ` set tab. 0 \<le> sint p" "fork_ok fork" "init_at s = Past_wait"
  shows "root_at s = Cpu_idle \<and> boot_state s = SYSTEM_SCHEDULING
    \<and> (\<exists>tsk. first_task s = Some tsk \<and> pinned s = Some tsk \<and> weight (tasks (kern s) tsk) = 0)"
  using reachable_inv [OF assms(1-3)] assms(4)
  by (cases "root_at s") (auto simp: threads_inv_def cleared_def split: option.splits)

text \<open>A creation of tasks for examples: the new task is a copy of the caller's.\<close>

definition copy_fork :: fork_fun where
  "copy_fork p a k =
     (let me = current k; ts = tasks k in
      k\<lparr>tasks := ts(me := (ts me)\<lparr>children := children (ts me) @ [a]\<rparr>, a := (ts me)\<lparr>pid := p, children := [], real_parent := me\<rparr>)\<rparr>)"

lemma copy_fork_ok: "fork_ok copy_fork"
  by (simp add: fork_ok_def copy_fork_def Let_def)

definition swapper_kernel :: kernel where
  "swapper_kernel = \<lparr>tasks = (\<lambda>_. \<lparr>weight = 3, pid = 0, children = [], real_parent = 0\<rparr>), current = 0, klog = []\<rparr>"

abbreviation demo_rest_init :: threads where
  "demo_rest_init \<equiv> rest_init_start swapper_kernel []"

lemma steps_then: "(boot_step fork ^^ n) s t \<Longrightarrow> boot_step fork t u \<Longrightarrow> (boot_step fork ^^ Suc n) s u"
  by (rule relpowp_Suc_I)

lemma demo_spawned:
  "\<exists>s. (boot_step copy_fork ^^ 1) demo_rest_init s \<and> root_at s = Find_init 1 \<and> init_at s = At_wait \<and> pid_table s = [(1, 9)] \<and> kthreadd_done s = 0
     \<and> current (kern s) = 0"
proof -
  have "fresh_task 1 9 demo_rest_init" by (simp add: fresh_task_def rest_init_start_def swapper_kernel_def)
  moreover have "root_at demo_rest_init = Spawn_init" by (simp add: rest_init_start_def)
  ultimately have "boot_step copy_fork demo_rest_init ((created copy_fork 1 9 demo_rest_init)\<lparr>root_at := Find_init 1, init_at := At_wait, first_task := Some 9\<rparr>)"
    by (rule spawn_init [rotated])
  then show ?thesis by (intro exI conjI, simp add: relcompp.simps) (simp_all add: rest_init_start_def created_def copy_fork_def Let_def swapper_kernel_def)
qed

lemma demo_waiting: "\<exists>s. (boot_step copy_fork ^^ 6) demo_rest_init s \<and> root_at s = Set_scheduling \<and> init_at s = At_wait \<and> kthreadd_done s = 0
    \<and> kthreadd_task s = Some 10 \<and> pid (tasks (kern s) 10) = 2"
proof -
  obtain s1 where 1: "(boot_step copy_fork ^^ 1) demo_rest_init s1" "root_at s1 = Find_init 1" "init_at s1 = At_wait" "pid_table s1 = [(1, 9)]"
    "kthreadd_done s1 = 0" "current (kern s1) = 0" using demo_spawned by blast
  let ?s2 = "s1\<lparr>root_at := Clear_weight (find_task_by_pid_ns s1 1)\<rparr>"
  let ?s3 = "?s2\<lparr>kern := rest_init_weight (kern ?s2) 9, root_at := Pin_init 9\<rparr>"
  let ?s4 = "?s3\<lparr>pinned := Some 9, root_at := Spawn_kthreadd\<rparr>"
  let ?s5 = "(created copy_fork 2 10 ?s4)\<lparr>root_at := Find_kthreadd 2\<rparr>"
  let ?s6 = "?s5\<lparr>kthreadd_task := find_task_by_pid_ns ?s5 2, root_at := Set_scheduling\<rparr>"
  have 2: "boot_step copy_fork s1 ?s2" by (rule find_init [OF 1(2)])
  have 3: "boot_step copy_fork ?s2 ?s3" by (rule clear_weight) (simp add: find_task_by_pid_ns_def 1(4))
  have 4: "boot_step copy_fork ?s3 ?s4" by (rule pin_init) simp
  have "fresh_task 2 10 ?s4" using 1(4,6) by (simp add: fresh_task_def rest_init_weight_def)
  then have 5: "boot_step copy_fork ?s4 ?s5" by (intro spawn_kthreadd) simp_all
  have 6: "boot_step copy_fork ?s5 ?s6" by (rule find_kthreadd) simp
  have "(boot_step copy_fork ^^ Suc (Suc (Suc (Suc (Suc 1))))) demo_rest_init ?s6"
    by (rule steps_then [OF _ 6], rule steps_then [OF _ 5], rule steps_then [OF _ 4], rule steps_then [OF _ 3],
        rule steps_then [OF 1(1) 2])
  moreover have "kthreadd_task ?s6 = Some 10" "pid (tasks (kern ?s6) 10) = 2"
    by (simp_all add: find_task_by_pid_ns_def created_def copy_fork_def Let_def)
  ultimately show ?thesis using 1(3,5) by (intro exI [of _ ?s6]) (simp add: numeral_eq_Suc)
qed

lemma demo_past_wait: "\<exists>s. (boot_step copy_fork ^^ 9) demo_rest_init s \<and> init_at s = Past_wait"
proof -
  obtain s6 where 6: "(boot_step copy_fork ^^ 6) demo_rest_init s6" "root_at s6 = Set_scheduling" "init_at s6 = At_wait" "kthreadd_done s6 = 0"
    using demo_waiting by blast
  let ?s7 = "s6\<lparr>boot_state := SYSTEM_SCHEDULING, root_at := Complete\<rparr>"
  let ?s8 = "?s7\<lparr>kthreadd_done := kthreadd_done ?s7 + 1, root_at := Cpu_idle\<rparr>"
  let ?s9 = "?s8\<lparr>kthreadd_done := kthreadd_done ?s8 - 1, init_at := Past_wait\<rparr>"
  have 7: "boot_step copy_fork s6 ?s7" by (rule set_scheduling [OF 6(2)])
  have 8: "boot_step copy_fork ?s7 ?s8" by (rule complete) simp
  have 9: "boot_step copy_fork ?s8 ?s9" by (rule wait_for_completion) (simp_all add: 6(3))
  have "(boot_step copy_fork ^^ Suc (Suc (Suc 6))) demo_rest_init ?s9"
    by (rule steps_then [OF _ 9], rule steps_then [OF _ 8], rule steps_then [OF 6(1) 7])
  then show ?thesis by (intro exI [of _ ?s9]) (simp add: numeral_eq_Suc)
qed

theorem first_process_starts_with_weight_0_witness:
  "\<exists>s tsk. (boot_step copy_fork)\<^sup>*\<^sup>* demo_rest_init s \<and> init_at s = Past_wait \<and> root_at s = Cpu_idle
     \<and> first_task s = Some tsk \<and> weight (tasks (kern s) tsk) = 0"
proof -
  obtain s where "(boot_step copy_fork ^^ 9) demo_rest_init s" and p: "init_at s = Past_wait" using demo_past_wait by blast
  then have r: "(boot_step copy_fork)\<^sup>*\<^sup>* demo_rest_init s" by (meson relpowp_imp_rtranclp)
  then show ?thesis using first_process_starts_with_weight_0 [OF r _ copy_fork_ok p] p by auto
qed

fun root_left :: "root_pc \<Rightarrow> nat" where
  "root_left Spawn_init = 8"
| "root_left (Find_init _) = 7"
| "root_left (Clear_weight _) = 6"
| "root_left (Pin_init _) = 5"
| "root_left Spawn_kthreadd = 4"
| "root_left (Find_kthreadd _) = 3"
| "root_left Set_scheduling = 2"
| "root_left Complete = 1"
| "root_left Cpu_idle = 0"
| "root_left Null_dereference = 0"

definition steps_left :: "threads \<Rightarrow> nat" where
  "steps_left s = root_left (root_at s) + (if init_at s = Past_wait then 0 else 1)"

lemma boot_step_left:
  assumes "boot_step fork s s'" "threads_inv s"
  shows "steps_left s' < steps_left s"
  using assms by (auto simp: steps_left_def threads_inv_def elim!: boot_stepE)

lemma boot_steps_left: "(boot_step fork ^^ n) s s' \<Longrightarrow> threads_inv s \<Longrightarrow> fork_ok fork \<Longrightarrow> threads_inv s' \<and> n + steps_left s' \<le> steps_left s"
proof (induction n arbitrary: s')
  case (Suc n)
  then obtain t where t: "(boot_step fork ^^ n) s t" "boot_step fork t s'" by (auto elim: relcomppE)
  then have "threads_inv t \<and> n + steps_left t \<le> steps_left s" using Suc by blast
  then show ?case using boot_step_left [OF t(2)] boot_step_inv [OF t(2)] Suc.prems(3) by simp
qed simp

lemma stuck_root:
  assumes "threads_inv s" "\<nexists>s'. boot_step fork s s'"
  shows "root_at s = Cpu_idle \<and> init_at s = Past_wait \<or> root_at s = Null_dereference \<and> init_at s = Not_created"
proof (cases "root_at s")
  case Spawn_init
  then show ?thesis using assms(2) spawn_init_fails [of s "- 1"] by auto
next
  case Spawn_kthreadd
  then show ?thesis using assms(2) spawn_kthreadd_fails [of s "- 1"] by auto
next
  case (Clear_weight t)
  then show ?thesis using assms(2) clear_weight [of s] clear_weight_null [of s] by (cases t) auto
next
  case Cpu_idle
  then show ?thesis using assms wait_for_completion [of s] by (cases "init_at s") (auto simp: threads_inv_def cleared_def)
qed (use assms in \<open>auto simp: threads_inv_def intro: boot_step.intros\<close>)

text \<open>
  C29. The two threads always come to an end together, after at most nine steps, whatever the order: no interleaving leaves
  the first process waiting for a completion that was already given or is never given. The only other end is the null
  dereference in \<open>rest_init\<close>, and then there is no first process, because \<open>kernel_thread\<close> failed to create it.
\<close>

theorem boot_threads_never_deadlock:
  assumes "(boot_step fork ^^ n) (rest_init_start k tab) s" "\<forall>p\<in>fst ` set tab. 0 \<le> sint p" "fork_ok fork"
  shows "n \<le> 9 \<and> ((\<nexists>s'. boot_step fork s s') \<longrightarrow>
    root_at s = Cpu_idle \<and> init_at s = Past_wait \<or> root_at s = Null_dereference \<and> init_at s = Not_created)"
proof -
  have "steps_left (rest_init_start k tab) = 9" by (simp add: steps_left_def rest_init_start_def)
  moreover note boot_steps_left [OF assms(1) start_inv [OF assms(2)] assms(3)]
  ultimately show ?thesis using stuck_root [of s fork] by auto
qed

theorem boot_threads_never_deadlock_witness:
  "\<exists>s. (boot_step copy_fork ^^ 9) demo_rest_init s \<and> root_at s = Cpu_idle \<and> init_at s = Past_wait"
proof -
  obtain s where s: "(boot_step copy_fork ^^ 9) demo_rest_init s" "init_at s = Past_wait" using demo_past_wait by blast
  have "\<nexists>s'. boot_step copy_fork s s'"
    using boot_threads_never_deadlock [OF steps_then [OF s(1)] _ copy_fork_ok] by auto
  then show ?thesis using s boot_threads_never_deadlock [OF s(1) _ copy_fork_ok] by auto
qed

end
