(* ===== verification/Kernel_Tasks.thy ===== *)
theory Kernel_Tasks
  imports Task_Weights
begin

text \<open>
  The inline functions and macros of \<open>include/linux/sched.h\<close> on the fields of \<open>struct task_struct\<close>: the states of a task
  and the letter shown for it, the per-process flags, the atomic flags, the helpers for the ids of a task, and the
  thread flags. The bit operations, the flags of \<open>thread_info\<close> and \<open>__task_pid_nr_ns\<close> come from other headers;
  they are the record \<open>arch_ops\<close>, and \<open>arch_ok\<close> states what is documented of them.
\<close>

unbundle bit_operations_syntax

section \<open>States\<close>

definition TASK_RUNNING :: "32 word" where "TASK_RUNNING = 0x0000"
definition TASK_INTERRUPTIBLE :: "32 word" where "TASK_INTERRUPTIBLE = 0x0001"
definition TASK_UNINTERRUPTIBLE :: "32 word" where "TASK_UNINTERRUPTIBLE = 0x0002"
definition TASK_STOPPED_bit :: "32 word" where "TASK_STOPPED_bit = 0x0004"
definition TASK_TRACED_bit :: "32 word" where "TASK_TRACED_bit = 0x0008"
definition EXIT_DEAD :: "32 word" where "EXIT_DEAD = 0x0010"
definition EXIT_ZOMBIE :: "32 word" where "EXIT_ZOMBIE = 0x0020"
definition EXIT_TRACE :: "32 word" where "EXIT_TRACE = EXIT_ZOMBIE OR EXIT_DEAD"
definition TASK_PARKED :: "32 word" where "TASK_PARKED = 0x0040"
definition TASK_DEAD :: "32 word" where "TASK_DEAD = 0x0080"
definition TASK_WAKEKILL :: "32 word" where "TASK_WAKEKILL = 0x0100"
definition TASK_WAKING :: "32 word" where "TASK_WAKING = 0x0200"
definition TASK_NOLOAD :: "32 word" where "TASK_NOLOAD = 0x0400"
definition TASK_NEW :: "32 word" where "TASK_NEW = 0x0800"
definition TASK_KILLABLE :: "32 word" where "TASK_KILLABLE = TASK_WAKEKILL OR TASK_UNINTERRUPTIBLE"
definition TASK_STOPPED :: "32 word" where "TASK_STOPPED = TASK_WAKEKILL OR TASK_STOPPED_bit"
definition TASK_TRACED :: "32 word" where "TASK_TRACED = TASK_WAKEKILL OR TASK_TRACED_bit"
definition TASK_IDLE :: "32 word" where "TASK_IDLE = TASK_UNINTERRUPTIBLE OR TASK_NOLOAD"
definition TASK_NORMAL :: "32 word" where "TASK_NORMAL = TASK_INTERRUPTIBLE OR TASK_UNINTERRUPTIBLE"
definition TASK_ALL :: "32 word" where "TASK_ALL = TASK_NORMAL OR TASK_STOPPED_bit OR TASK_TRACED_bit"

definition TASK_REPORT :: "32 word" where
  "TASK_REPORT = TASK_RUNNING OR TASK_INTERRUPTIBLE OR TASK_UNINTERRUPTIBLE OR TASK_STOPPED_bit OR TASK_TRACED_bit
     OR EXIT_DEAD OR EXIT_ZOMBIE OR TASK_PARKED"

definition TASK_REPORT_IDLE :: "32 word" where "TASK_REPORT_IDLE = TASK_REPORT + 1"

lemmas state_bits = TASK_RUNNING_def TASK_INTERRUPTIBLE_def TASK_UNINTERRUPTIBLE_def TASK_STOPPED_bit_def TASK_TRACED_bit_def
  EXIT_DEAD_def EXIT_ZOMBIE_def EXIT_TRACE_def TASK_PARKED_def TASK_DEAD_def TASK_WAKEKILL_def TASK_WAKING_def TASK_NOLOAD_def
  TASK_NEW_def TASK_KILLABLE_def TASK_STOPPED_def TASK_TRACED_def TASK_IDLE_def TASK_NORMAL_def TASK_ALL_def TASK_REPORT_def
  TASK_REPORT_IDLE_def

section \<open>Fields of a task\<close>

datatype pid_type = PIDTYPE_PID | PIDTYPE_PGID | PIDTYPE_SID | PIDTYPE_TGID

record sched_task = task_struct +
  state :: "64 word"
  exit_state :: "32 word"
  flags :: "32 word"
  atomic_flags :: "64 word"
  nr_cpus_allowed :: c_int
  static_prio :: c_int
  tgid :: c_int
  group_leader :: taddr
  pids :: "pid_type \<Rightarrow> nat option"
  task_state_change :: "64 word"
  ti_flags :: "64 word"
  task_cpu_field :: "32 word"

type_synonym sched_store = "taddr \<Rightarrow> sched_task"

record arch_ops =
  fls :: "32 word \<Rightarrow> nat"
  test_bit :: "nat \<Rightarrow> 64 word \<Rightarrow> bool"
  set_bit :: "nat \<Rightarrow> 64 word \<Rightarrow> 64 word"
  clear_bit :: "nat \<Rightarrow> 64 word \<Rightarrow> 64 word"
  task_pid_nr_in :: "sched_store \<Rightarrow> taddr \<Rightarrow> pid_type \<Rightarrow> nat option \<Rightarrow> c_int"
  init_pid_ns :: nat
  TIF_NEED_RESCHED :: nat

text \<open>
  What is documented of these operations: \<open>fls\<close> is the position of the last bit set, counted from 1, and 0 for 0; the
  others read, set and clear one bit.
\<close>

definition arch_ok :: "arch_ops \<Rightarrow> bool" where
  "arch_ok ops \<longleftrightarrow> fls ops 0 = 0 \<and> (\<forall>w n. bit w n \<longrightarrow> (\<forall>m. bit w m \<longrightarrow> m \<le> n) \<longrightarrow> fls ops w = n + 1)
     \<and> (\<forall>n w. test_bit ops n w = bit w n)
     \<and> (\<forall>n w m. n < 64 \<longrightarrow> m < 64 \<longrightarrow> bit (set_bit ops n w) m = (bit w m \<or> m = n))
     \<and> (\<forall>n w m. n < 64 \<longrightarrow> m < 64 \<longrightarrow> bit (clear_bit ops n w) m = (bit w m \<and> m \<noteq> n))
     \<and> TIF_NEED_RESCHED ops < 64"

section \<open>The state of a task\<close>

definition state32 :: "sched_task \<Rightarrow> 32 word" where
  "state32 t = ucast (state t)"

definition PF_FROZEN :: "32 word" where "PF_FROZEN = 0x00010000"

definition task_is_traced :: "sched_task \<Rightarrow> bool" where
  "task_is_traced t \<longleftrightarrow> state t AND ucast TASK_TRACED_bit \<noteq> 0"

definition task_is_stopped :: "sched_task \<Rightarrow> bool" where
  "task_is_stopped t \<longleftrightarrow> state t AND ucast TASK_STOPPED_bit \<noteq> 0"

definition task_is_stopped_or_traced :: "sched_task \<Rightarrow> bool" where
  "task_is_stopped_or_traced t \<longleftrightarrow> state t AND ucast (TASK_STOPPED_bit OR TASK_TRACED_bit) \<noteq> 0"

definition task_contributes_to_load :: "sched_task \<Rightarrow> bool" where
  "task_contributes_to_load t \<longleftrightarrow>
     state t AND ucast TASK_UNINTERRUPTIBLE \<noteq> 0 \<and> flags t AND PF_FROZEN = 0 \<and> state t AND ucast TASK_NOLOAD = 0"

text \<open>The variants with \<open>CONFIG_DEBUG_ATOMIC_SLEEP\<close>; the flag that comes back says that a warning is due.\<close>

definition is_special_task_state :: "64 word \<Rightarrow> bool" where
  "is_special_task_state s \<longleftrightarrow> s AND ucast (TASK_STOPPED_bit OR TASK_TRACED_bit OR TASK_DEAD) \<noteq> 0"

definition set_current_state :: "64 word \<Rightarrow> 64 word \<Rightarrow> sched_task \<Rightarrow> bool \<times> sched_task" where
  "set_current_state ip s t = (is_special_task_state s, t\<lparr>task_state_change := ip, state := s\<rparr>)"

definition set_special_state :: "64 word \<Rightarrow> 64 word \<Rightarrow> sched_task \<Rightarrow> bool \<times> sched_task" where
  "set_special_state ip s t = (\<not> is_special_task_state s, t\<lparr>task_state_change := ip, state := s\<rparr>)"

definition task_state_index :: "arch_ops \<Rightarrow> sched_task \<Rightarrow> nat" where
  "task_state_index ops tsk =
     (let tsk_state = state32 tsk;
          s = (tsk_state OR exit_state tsk) AND TASK_REPORT;
          s = (if tsk_state = TASK_IDLE then TASK_REPORT_IDLE else s) in
      fls ops s)"

text \<open>Reading \<open>state_char\<close> outside its ten bytes is none.\<close>

definition task_index_to_char :: "nat \<Rightarrow> char option" where
  "task_index_to_char i = (let state_char = ''RSDTtXZPI'' @ [CHR 0x00] in if i < length state_char then Some (state_char ! i) else None)"

definition task_state_to_char :: "arch_ops \<Rightarrow> sched_task \<Rightarrow> char option" where
  "task_state_to_char ops tsk = task_index_to_char (task_state_index ops tsk)"

section \<open>Ids\<close>

definition task_pid :: "sched_store \<Rightarrow> taddr \<Rightarrow> nat option" where
  "task_pid ts t = pids (ts t) PIDTYPE_PID"

definition task_tgid :: "sched_store \<Rightarrow> taddr \<Rightarrow> nat option" where
  "task_tgid ts t = pids (ts (group_leader (ts t))) PIDTYPE_PID"

definition task_pgrp :: "sched_store \<Rightarrow> taddr \<Rightarrow> nat option" where
  "task_pgrp ts t = pids (ts (group_leader (ts t))) PIDTYPE_PGID"

definition task_session :: "sched_store \<Rightarrow> taddr \<Rightarrow> nat option" where
  "task_session ts t = pids (ts (group_leader (ts t))) PIDTYPE_SID"

definition task_pid_nr :: "sched_store \<Rightarrow> taddr \<Rightarrow> c_int" where
  "task_pid_nr ts t = pid (ts t)"

definition task_pid_nr_ns :: "arch_ops \<Rightarrow> sched_store \<Rightarrow> taddr \<Rightarrow> nat option \<Rightarrow> c_int" where
  "task_pid_nr_ns ops ts t ns = task_pid_nr_in ops ts t PIDTYPE_PID ns"

definition task_pid_vnr :: "arch_ops \<Rightarrow> sched_store \<Rightarrow> taddr \<Rightarrow> c_int" where
  "task_pid_vnr ops ts t = task_pid_nr_in ops ts t PIDTYPE_PID None"

definition task_tgid_nr :: "sched_store \<Rightarrow> taddr \<Rightarrow> c_int" where
  "task_tgid_nr ts t = tgid (ts t)"

definition pid_alive :: "sched_store \<Rightarrow> taddr \<Rightarrow> bool" where
  "pid_alive ts t \<longleftrightarrow> pids (ts t) PIDTYPE_PID \<noteq> None"

definition task_pgrp_nr_ns :: "arch_ops \<Rightarrow> sched_store \<Rightarrow> taddr \<Rightarrow> nat option \<Rightarrow> c_int" where
  "task_pgrp_nr_ns ops ts t ns = task_pid_nr_in ops ts t PIDTYPE_PGID ns"

definition task_session_nr_ns :: "arch_ops \<Rightarrow> sched_store \<Rightarrow> taddr \<Rightarrow> nat option \<Rightarrow> c_int" where
  "task_session_nr_ns ops ts t ns = task_pid_nr_in ops ts t PIDTYPE_SID ns"

definition task_tgid_nr_ns :: "arch_ops \<Rightarrow> sched_store \<Rightarrow> taddr \<Rightarrow> nat option \<Rightarrow> c_int" where
  "task_tgid_nr_ns ops ts t ns = task_pid_nr_in ops ts t PIDTYPE_TGID ns"

definition task_ppid_nr_ns :: "arch_ops \<Rightarrow> sched_store \<Rightarrow> taddr \<Rightarrow> nat option \<Rightarrow> c_int" where
  "task_ppid_nr_ns ops ts t ns = (if pid_alive ts t then task_tgid_nr_ns ops ts (real_parent (ts t)) ns else 0)"

definition task_ppid_nr :: "arch_ops \<Rightarrow> sched_store \<Rightarrow> taddr \<Rightarrow> c_int" where
  "task_ppid_nr ops ts t = task_ppid_nr_ns ops ts t (Some (init_pid_ns ops))"

definition task_pgrp_nr :: "arch_ops \<Rightarrow> sched_store \<Rightarrow> taddr \<Rightarrow> c_int" where
  "task_pgrp_nr ops ts t = task_pgrp_nr_ns ops ts t (Some (init_pid_ns ops))"

definition is_global_init :: "sched_store \<Rightarrow> taddr \<Rightarrow> bool" where
  "is_global_init ts t \<longleftrightarrow> task_tgid_nr ts t = 1"

section \<open>Flags\<close>

definition PF_IDLE :: "32 word" where "PF_IDLE = 0x00000002"
definition PF_USED_MATH :: "32 word" where "PF_USED_MATH = 0x00002000"
definition PF_NO_SETAFFINITY :: "32 word" where "PF_NO_SETAFFINITY = 0x04000000"

definition clear_stopped_child_used_math :: "sched_task \<Rightarrow> sched_task" where
  "clear_stopped_child_used_math t = t\<lparr>flags := flags t AND NOT PF_USED_MATH\<rparr>"

definition set_stopped_child_used_math :: "sched_task \<Rightarrow> sched_task" where
  "set_stopped_child_used_math t = t\<lparr>flags := flags t OR PF_USED_MATH\<rparr>"

definition conditional_stopped_child_used_math :: "bool \<Rightarrow> sched_task \<Rightarrow> sched_task" where
  "conditional_stopped_child_used_math c t =
     (let t = t\<lparr>flags := flags t AND NOT PF_USED_MATH\<rparr> in t\<lparr>flags := flags t OR (if c then PF_USED_MATH else 0)\<rparr>)"

definition copy_to_stopped_child_used_math :: "sched_task \<Rightarrow> sched_task \<Rightarrow> sched_task" where
  "copy_to_stopped_child_used_math cur t =
     (let t = t\<lparr>flags := flags t AND NOT PF_USED_MATH\<rparr> in t\<lparr>flags := flags t OR (flags cur AND PF_USED_MATH)\<rparr>)"

definition tsk_used_math :: "sched_task \<Rightarrow> 32 word" where
  "tsk_used_math t = flags t AND PF_USED_MATH"

definition is_percpu_thread :: "sched_task \<Rightarrow> bool" where
  "is_percpu_thread cur \<longleftrightarrow> flags cur AND PF_NO_SETAFFINITY \<noteq> 0 \<and> nr_cpus_allowed cur = 1"

definition is_idle_task :: "sched_task \<Rightarrow> bool" where
  "is_idle_task t \<longleftrightarrow> flags t AND PF_IDLE \<noteq> 0"

definition current_restore_flags :: "64 word \<Rightarrow> 64 word \<Rightarrow> sched_task \<Rightarrow> sched_task" where
  "current_restore_flags orig_flags fl cur =
     (let cur = cur\<lparr>flags := ucast (ucast (flags cur) AND NOT fl :: 64 word)\<rparr> in
      cur\<lparr>flags := ucast (ucast (flags cur) OR (orig_flags AND fl) :: 64 word)\<rparr>)"

definition task_nice :: "(c_int \<Rightarrow> c_int) \<Rightarrow> sched_task \<Rightarrow> c_int" where
  "task_nice PRIO_TO_NICE p = PRIO_TO_NICE (static_prio p)"

text \<open>The atomic flags: one datatype value per name, with its bit.\<close>

datatype pfa = NO_NEW_PRIVS | SPREAD_PAGE | SPREAD_SLAB | SPEC_SSB_DISABLE | SPEC_SSB_FORCE_DISABLE | SPEC_IB_DISABLE | SPEC_IB_FORCE_DISABLE

fun PFA :: "pfa \<Rightarrow> nat" where
  "PFA NO_NEW_PRIVS = 0"
| "PFA SPREAD_PAGE = 1"
| "PFA SPREAD_SLAB = 2"
| "PFA SPEC_SSB_DISABLE = 3"
| "PFA SPEC_SSB_FORCE_DISABLE = 4"
| "PFA SPEC_IB_DISABLE = 5"
| "PFA SPEC_IB_FORCE_DISABLE = 6"

definition TASK_PFA_TEST :: "arch_ops \<Rightarrow> pfa \<Rightarrow> sched_task \<Rightarrow> bool" where
  "TASK_PFA_TEST ops name p = test_bit ops (PFA name) (atomic_flags p)"

definition TASK_PFA_SET :: "arch_ops \<Rightarrow> pfa \<Rightarrow> sched_task \<Rightarrow> sched_task" where
  "TASK_PFA_SET ops name p = p\<lparr>atomic_flags := set_bit ops (PFA name) (atomic_flags p)\<rparr>"

definition TASK_PFA_CLEAR :: "arch_ops \<Rightarrow> pfa \<Rightarrow> sched_task \<Rightarrow> sched_task" where
  "TASK_PFA_CLEAR ops name p = p\<lparr>atomic_flags := clear_bit ops (PFA name) (atomic_flags p)\<rparr>"

text \<open>The functions the header makes with these macros: setters for all flags, clearers for four of them.\<close>

inductive pfa_step :: "arch_ops \<Rightarrow> sched_task \<Rightarrow> sched_task \<Rightarrow> bool" for ops where
  task_set_no_new_privs: "pfa_step ops p (TASK_PFA_SET ops NO_NEW_PRIVS p)"
| task_set_spread_page: "pfa_step ops p (TASK_PFA_SET ops SPREAD_PAGE p)"
| task_clear_spread_page: "pfa_step ops p (TASK_PFA_CLEAR ops SPREAD_PAGE p)"
| task_set_spread_slab: "pfa_step ops p (TASK_PFA_SET ops SPREAD_SLAB p)"
| task_clear_spread_slab: "pfa_step ops p (TASK_PFA_CLEAR ops SPREAD_SLAB p)"
| task_set_spec_ssb_disable: "pfa_step ops p (TASK_PFA_SET ops SPEC_SSB_DISABLE p)"
| task_clear_spec_ssb_disable: "pfa_step ops p (TASK_PFA_CLEAR ops SPEC_SSB_DISABLE p)"
| task_set_spec_ssb_force_disable: "pfa_step ops p (TASK_PFA_SET ops SPEC_SSB_FORCE_DISABLE p)"
| task_set_spec_ib_disable: "pfa_step ops p (TASK_PFA_SET ops SPEC_IB_DISABLE p)"
| task_clear_spec_ib_disable: "pfa_step ops p (TASK_PFA_CLEAR ops SPEC_IB_DISABLE p)"
| task_set_spec_ib_force_disable: "pfa_step ops p (TASK_PFA_SET ops SPEC_IB_FORCE_DISABLE p)"

section \<open>Thread flags\<close>

definition set_tsk_thread_flag :: "arch_ops \<Rightarrow> nat \<Rightarrow> sched_task \<Rightarrow> sched_task" where
  "set_tsk_thread_flag ops flag t = t\<lparr>ti_flags := set_bit ops flag (ti_flags t)\<rparr>"

definition clear_tsk_thread_flag :: "arch_ops \<Rightarrow> nat \<Rightarrow> sched_task \<Rightarrow> sched_task" where
  "clear_tsk_thread_flag ops flag t = t\<lparr>ti_flags := clear_bit ops flag (ti_flags t)\<rparr>"

definition test_tsk_thread_flag :: "arch_ops \<Rightarrow> nat \<Rightarrow> sched_task \<Rightarrow> bool" where
  "test_tsk_thread_flag ops flag t = test_bit ops flag (ti_flags t)"

definition test_and_set_tsk_thread_flag :: "arch_ops \<Rightarrow> nat \<Rightarrow> sched_task \<Rightarrow> bool \<times> sched_task" where
  "test_and_set_tsk_thread_flag ops flag t = (test_bit ops flag (ti_flags t), t\<lparr>ti_flags := set_bit ops flag (ti_flags t)\<rparr>)"

definition test_and_clear_tsk_thread_flag :: "arch_ops \<Rightarrow> nat \<Rightarrow> sched_task \<Rightarrow> bool \<times> sched_task" where
  "test_and_clear_tsk_thread_flag ops flag t = (test_bit ops flag (ti_flags t), t\<lparr>ti_flags := clear_bit ops flag (ti_flags t)\<rparr>)"

definition set_tsk_need_resched :: "arch_ops \<Rightarrow> sched_task \<Rightarrow> sched_task" where
  "set_tsk_need_resched ops t = set_tsk_thread_flag ops (TIF_NEED_RESCHED ops) t"

definition clear_tsk_need_resched :: "arch_ops \<Rightarrow> sched_task \<Rightarrow> sched_task" where
  "clear_tsk_need_resched ops t = clear_tsk_thread_flag ops (TIF_NEED_RESCHED ops) t"

definition test_tsk_need_resched :: "arch_ops \<Rightarrow> sched_task \<Rightarrow> bool" where
  "test_tsk_need_resched ops t = test_tsk_thread_flag ops (TIF_NEED_RESCHED ops) t"

section \<open>The letter of a state\<close>

text \<open>
  The letter a reader of the table in the header expects: idle tasks first, otherwise the letter of the highest state bit that is
  reported.
\<close>

definition reported :: "sched_task \<Rightarrow> char" where
  "reported t =
     (let s = state32 t OR exit_state t in
      if state32 t = TASK_IDLE then CHR ''I''
      else if bit s 6 then CHR ''P'' else if bit s 5 then CHR ''Z'' else if bit s 4 then CHR ''X'' else if bit s 3 then CHR ''t''
      else if bit s 2 then CHR ''T'' else if bit s 1 then CHR ''D'' else if bit s 0 then CHR ''S'' else CHR ''R'')"

lemma TASK_REPORT_mask: "TASK_REPORT = mask 7"
  by (simp add: state_bits mask_eq_exp_minus_1)

lemma report_bit: "bit (w AND TASK_REPORT) n \<longleftrightarrow> bit w n \<and> n < 7"
  by (auto simp: TASK_REPORT_mask bit_simps)

lemma fls_report:
  assumes "arch_ok ops" "n < 7" "bit w n" "\<forall>m<7. bit w m \<longrightarrow> m \<le> n"
  shows "fls ops (w AND TASK_REPORT) = n + 1"
proof -
  have "bit (w AND TASK_REPORT) n" "\<forall>m. bit (w AND TASK_REPORT) m \<longrightarrow> m \<le> n"
    using assms(2-4) by (simp_all add: report_bit)
  then show ?thesis using assms(1) unfolding arch_ok_def by blast
qed

lemma fls_report_none:
  assumes "arch_ok ops" "\<forall>m<7. \<not> bit w m"
  shows "fls ops (w AND TASK_REPORT) = 0"
proof -
  have "w AND TASK_REPORT = 0" using assms(2) by (auto simp: bit_eq_iff report_bit)
  then show ?thesis using assms(1) by (simp add: arch_ok_def)
qed

lemma fls_idle: "arch_ok ops \<Longrightarrow> fls ops TASK_REPORT_IDLE = 8"
proof -
  assume "arch_ok ops"
  moreover have idle: "TASK_REPORT_IDLE = push_bit 7 1" by (simp add: state_bits)
  have "bit TASK_REPORT_IDLE 7" "\<forall>m. bit TASK_REPORT_IDLE m \<longrightarrow> m \<le> 7" unfolding idle bit_push_bit_iff bit_1_iff by auto
  ultimately show ?thesis unfolding arch_ok_def by auto
qed

lemma below_seven: "(\<forall>m<7. P (m :: nat)) \<longleftrightarrow> P 0 \<and> P 1 \<and> P 2 \<and> P 3 \<and> P 4 \<and> P 5 \<and> P 6"
proof
  assume "P 0 \<and> P 1 \<and> P 2 \<and> P 3 \<and> P 4 \<and> P 5 \<and> P 6"
  then show "\<forall>m<7. P m" by (auto simp: less_Suc_eq numeral_eq_Suc)
qed auto

lemma fls_cases:
  assumes "arch_ok ops"
  shows "fls ops (w AND TASK_REPORT) =
    (if bit w 6 then 7 else if bit w 5 then 6 else if bit w 4 then 5 else if bit w 3 then 4 else if bit w 2 then 3
     else if bit w 1 then 2 else if bit w 0 then 1 else 0)"
proof -
  note F = fls_report [OF assms, where w = w, unfolded below_seven]
  show ?thesis
    using F [of 6] F [of 5] F [of 4] F [of 3] F [of 2] F [of 1] F [of 0] fls_report_none [OF assms, of w, unfolded below_seven]
    by simp
qed

text \<open>
  For every task, whatever its state and exit state, \<open>task_state_to_char\<close> reads \<open>state_char\<close> inside its bounds and
  never at the terminating byte: the result is one of the nine letters, and it is the letter of the highest reported
  bit, or \<open>I\<close> exactly for \<open>TASK_IDLE\<close>.
\<close>

theorem task_state_letter:
  assumes "arch_ok ops"
  shows "task_state_to_char ops t = Some (reported t) \<and> reported t \<in> set ''RSDTtXZPI'' \<and> task_state_index ops t < 9"
proof (cases "state32 t = TASK_IDLE")
  case True
  then have "task_state_index ops t = 8" by (simp add: task_state_index_def fls_idle [OF assms])
  then show ?thesis using True by (simp add: task_state_to_char_def task_index_to_char_def reported_def)
next
  case False
  let ?w = "state32 t OR exit_state t"
  have "task_state_index ops t = fls ops (?w AND TASK_REPORT)" using False by (simp add: task_state_index_def)
  then show ?thesis using False unfolding fls_cases [OF assms]
    by (simp add: task_state_to_char_def task_index_to_char_def reported_def Let_def)
qed

text \<open>The operations written out, for examples.\<close>

fun last_bit :: "nat \<Rightarrow> 32 word \<Rightarrow> nat" where
  "last_bit 0 w = 0"
| "last_bit (Suc n) w = (if bit w n then Suc n else last_bit n w)"

definition demo_ops :: arch_ops where
  "demo_ops = \<lparr>fls = last_bit 32, test_bit = (\<lambda>n w. bit w n), set_bit = (\<lambda>n w. w OR push_bit n 1),
     clear_bit = (\<lambda>n w. w AND NOT (push_bit n 1)), task_pid_nr_in = (\<lambda>ts t _ _. pid (ts t)), init_pid_ns = 0, TIF_NEED_RESCHED = 3\<rparr>"

lemma last_bit_max: "bit w n \<Longrightarrow> \<forall>m. bit w m \<longrightarrow> m \<le> n \<Longrightarrow> n < k \<Longrightarrow> last_bit k w = n + 1"
  by (induction k) (auto simp: less_Suc_eq)

lemma last_bit_zero: "last_bit k 0 = 0"
  by (induction k) auto

lemma demo_ops_ok: "arch_ok demo_ops"
proof -
  have "last_bit 32 w = n + 1" if "bit w n" "\<forall>m. bit w m \<longrightarrow> m \<le> n" for w :: "32 word" and n
    using last_bit_max [OF that, of 32] bit_imp_le_length [OF that(1)] by simp
  moreover have "bit ((w :: 64 word) OR push_bit n 1) m \<longleftrightarrow> bit w m \<or> m = n" "bit (w AND NOT (push_bit n 1)) m \<longleftrightarrow> bit w m \<and> m \<noteq> n"
    if "n < 64" "m < 64" for w n m using that by (auto simp: bit_simps)
  ultimately show ?thesis by (simp add: arch_ok_def demo_ops_def last_bit_zero)
qed

definition demo_task :: sched_task where
  "demo_task = \<lparr>weight = 0, pid = 7, children = [], real_parent = 0, state = 0x402, exit_state = 0, flags = 0, atomic_flags = 1,
     nr_cpus_allowed = 1, static_prio = 120, tgid = 7, group_leader = 0, pids = (\<lambda>_. None), task_state_change = 0, ti_flags = 0,
     task_cpu_field = 0\<rparr>"

theorem task_state_letter_witness:
  "task_state_to_char demo_ops demo_task = Some CHR ''I'' \<and> task_state_to_char demo_ops (demo_task\<lparr>state := 0x808\<rparr>) = Some CHR ''t''"
proof -
  have 1: "reported demo_task = CHR ''I''" by (simp add: reported_def demo_task_def state32_def state_bits)
  have "state32 (demo_task\<lparr>state := 0x808\<rparr>) OR exit_state (demo_task\<lparr>state := 0x808\<rparr>) = 0x808"
    by (simp add: demo_task_def state32_def)
  moreover have "state32 (demo_task\<lparr>state := 0x808\<rparr>) \<noteq> TASK_IDLE" by (simp add: demo_task_def state32_def state_bits)
  ultimately have "reported (demo_task\<lparr>state := 0x808\<rparr>) = CHR ''t''" by (simp add: reported_def bit_numeral_rec)
  with 1 show ?thesis using task_state_letter [OF demo_ops_ok] by simp
qed

section \<open>Flags that stay set\<close>

lemma PFA_less: "PFA name < 64" by (cases name) auto

lemma PFA_inj: "PFA a = PFA b \<longleftrightarrow> a = b" by (cases a; cases b) auto

lemma pfa_ops:
  assumes "arch_ok ops"
  shows "TASK_PFA_TEST ops a (TASK_PFA_SET ops b p) \<longleftrightarrow> TASK_PFA_TEST ops a p \<or> a = b"
    "TASK_PFA_TEST ops a (TASK_PFA_CLEAR ops b p) \<longleftrightarrow> TASK_PFA_TEST ops a p \<and> a \<noteq> b"
  using assms PFA_less PFA_inj unfolding arch_ok_def TASK_PFA_TEST_def TASK_PFA_SET_def TASK_PFA_CLEAR_def by simp_all

definition permanent :: "pfa set" where
  "permanent = {NO_NEW_PRIVS, SPEC_SSB_FORCE_DISABLE, SPEC_IB_FORCE_DISABLE}"

text \<open>
  Whatever sequence of the functions for atomic flags is called on a task: once \<open>no_new_privs\<close> or one of the two
  \<open>force_disable\<close> flags is set it stays set, and no other field of the task changes, in particular neither its weight nor its
  state.
\<close>

theorem permanent_flags_stay:
  assumes "arch_ok ops" "(pfa_step ops)\<^sup>*\<^sup>* p q" "name \<in> permanent" "TASK_PFA_TEST ops name p"
  shows "TASK_PFA_TEST ops name q \<and> q = p\<lparr>atomic_flags := atomic_flags q\<rparr>"
proof -
  have "TASK_PFA_TEST ops name q \<and> (\<exists>w. q = p\<lparr>atomic_flags := w\<rparr>)"
    using assms(2)
  proof (induction rule: rtranclp_induct)
    case (step q r)
    have "TASK_PFA_TEST ops name r"
      using step.hyps(2) step.IH assms(3) pfa_ops [OF assms(1)] by cases (auto simp: permanent_def)
    moreover have "\<exists>w. r = q\<lparr>atomic_flags := w\<rparr>"
      using step.hyps(2) by cases (auto simp: TASK_PFA_SET_def TASK_PFA_CLEAR_def)
    ultimately show ?case using step.IH by auto
  next
    case base
    have "p = p\<lparr>atomic_flags := atomic_flags p\<rparr>" by simp
    then show ?case using assms(4) by blast
  qed
  then show ?thesis by auto
qed

theorem permanent_flags_stay_witness:
  "TASK_PFA_TEST demo_ops NO_NEW_PRIVS (TASK_PFA_CLEAR demo_ops SPREAD_PAGE (TASK_PFA_SET demo_ops SPEC_IB_DISABLE demo_task))"
proof -
  have "(pfa_step demo_ops)\<^sup>*\<^sup>* demo_task (TASK_PFA_CLEAR demo_ops SPREAD_PAGE (TASK_PFA_SET demo_ops SPEC_IB_DISABLE demo_task))"
    by (rule rtranclp.rtrancl_into_rtrancl [OF r_into_rtranclp [where r = "pfa_step demo_ops", OF task_set_spec_ib_disable]
          task_clear_spread_page])
  from permanent_flags_stay [OF demo_ops_ok this, of NO_NEW_PRIVS] show ?thesis
    by (simp add: permanent_def TASK_PFA_TEST_def demo_ops_def demo_task_def)
qed

text \<open>Flags of the process: what the macros for \<open>PF_USED_MATH\<close> and \<open>current_restore_flags\<close> change, bit by bit.\<close>

lemma used_math_bit: "bit PF_USED_MATH n \<longleftrightarrow> n = 13"
  unfolding PF_USED_MATH_def using bit_push_bit_iff [of 13 "1 :: 32 word" n] bit_1_iff [of "n - 13", where 'a = "32 word"] by auto

lemma used_math_bits:
  "n < 32 \<Longrightarrow> bit (flags (conditional_stopped_child_used_math c t)) n \<longleftrightarrow> (if n = 13 then c else bit (flags t) n)"
  "n < 32 \<Longrightarrow> bit (flags (copy_to_stopped_child_used_math u t)) n \<longleftrightarrow> (if n = 13 then bit (flags u) n else bit (flags t) n)"
  by (simp_all add: conditional_stopped_child_used_math_def copy_to_stopped_child_used_math_def Let_def used_math_bit bit_or_iff
      bit_and_iff bit_not_iff)

lemma restore_flags_bits:
  "bit (flags (current_restore_flags orig fl cur)) n \<longleftrightarrow> (if bit fl n then bit orig n \<and> n < 32 else bit (flags cur) n)"
  unfolding current_restore_flags_def Let_def by (cases "n < 32") (auto simp: bit_simps dest: bit_imp_le_length)

end
