(* ===== verification/Task_Syscalls.thy ===== *)
theory Task_Syscalls
  imports Kernel_Threads
begin

text \<open>
  The way from a user program to the weight system calls: the numbers of \<open>arch/x86/entry/syscalls/syscall_64.tbl\<close>, the
  wrappers of \<open>hw2_test.cxx\<close>, and the test program \<open>test1.cxx\<close>. The entry code of the kernel is not part of the sources;
  a number that is not one of the five is handed to the parameter \<open>other\<close>. The function \<open>syscall\<close> of the C library turns the
  results -4095 to -1 into -1 and \<open>errno\<close>.
\<close>

section \<open>Numbers and wrappers\<close>

definition sys_call_table :: "(nat \<Rightarrow> kernel \<Rightarrow> kernel \<times> c_long) \<Rightarrow> nat \<Rightarrow> nat \<Rightarrow> c_int \<Rightarrow> kernel \<Rightarrow> (kernel \<times> c_long) option" where
  "sys_call_table other fuel nr arg k =
     (if nr = 333 then Some (sys_hello k)
      else if nr = 334 then Some (sys_set_weight k arg)
      else if nr = 335 then Some (k, sys_get_weight k)
      else if nr = 336 then map_option (Pair k) (sys_get_leaf_children_sum fuel k)
      else if nr = 337 then map_option (Pair k) (sys_get_heaviest_ancestor fuel k)
      else Some (other nr k))"

record user =
  machine :: kernel
  errno :: c_int
  cout :: "string list"

definition syscall :: "(nat \<Rightarrow> kernel \<Rightarrow> kernel \<times> c_long) \<Rightarrow> nat \<Rightarrow> nat \<Rightarrow> c_int \<Rightarrow> user \<Rightarrow> (user \<times> c_long) option" where
  "syscall other fuel nr arg u =
     (case sys_call_table other fuel nr arg (machine u) of
        None \<Rightarrow> None
      | Some (k, r) \<Rightarrow>
          if - 4095 \<le> sint r \<and> sint r \<le> - 1 then Some (u\<lparr>machine := k, errno := ucast (- r)\<rparr>, - 1) else Some (u\<lparr>machine := k\<rparr>, r))"

definition to_int :: "(user \<times> c_long) option \<Rightarrow> (user \<times> c_int) option" where
  "to_int x = map_option (\<lambda>(u, r). (u, ucast r)) x"

definition set_weight :: "(nat \<Rightarrow> kernel \<Rightarrow> kernel \<times> c_long) \<Rightarrow> nat \<Rightarrow> c_int \<Rightarrow> user \<Rightarrow> (user \<times> c_int) option" where
  "set_weight other fuel w u = to_int (syscall other fuel 334 w u)"

definition get_weight :: "(nat \<Rightarrow> kernel \<Rightarrow> kernel \<times> c_long) \<Rightarrow> nat \<Rightarrow> user \<Rightarrow> (user \<times> c_int) option" where
  "get_weight other fuel u = to_int (syscall other fuel 335 0 u)"

definition get_leaf_children_sum :: "(nat \<Rightarrow> kernel \<Rightarrow> kernel \<times> c_long) \<Rightarrow> nat \<Rightarrow> user \<Rightarrow> (user \<times> c_int) option" where
  "get_leaf_children_sum other fuel u = to_int (syscall other fuel 336 0 u)"

definition get_heaviest_ancestor :: "(nat \<Rightarrow> kernel \<Rightarrow> kernel \<times> c_long) \<Rightarrow> nat \<Rightarrow> user \<Rightarrow> (user \<times> c_int) option" where
  "get_heaviest_ancestor other fuel u = to_int (syscall other fuel 337 0 u)"

section \<open>The test program\<close>

text \<open>A failed assertion ends the program with the text of the condition.\<close>

definition say :: "string \<Rightarrow> c_int \<Rightarrow> user \<Rightarrow> user" where
  "say t x u = u\<lparr>cout := cout u @ [t @ show_int (sint x)]\<rparr>"

definition test1_main :: "(nat \<Rightarrow> kernel \<Rightarrow> kernel \<times> c_long) \<Rightarrow> nat \<Rightarrow> user \<Rightarrow> (user \<times> (string + c_int)) option" where
  "test1_main other fuel u =
     Option.bind (get_weight other fuel u) (\<lambda>(u, x).
       let u = say ''weight: '' x u in
       if x \<noteq> 0 then Some (u, Inl ''x == 0'')
       else Option.bind (set_weight other fuel 5 u) (\<lambda>(u, x).
         let u = say ''set_weight returns: '' x u in
         if x \<noteq> 0 then Some (u, Inl ''x == 0'')
         else Option.bind (get_weight other fuel u) (\<lambda>(u, x).
           let u = say ''new weight: '' x u in
           if x \<noteq> 5 then Some (u, Inl ''x == 5'')
           else Some (u\<lparr>cout := cout u @ [''===== SUCCESS ====='']\<rparr>, Inr 0))))"

lemma ucast_signed: "ucast (signed w :: c_long) = (w :: c_int)"
  by (rule bit_word_eqI) (auto simp: bit_simps)

lemma say_machine [simp]: "machine (say t x u) = machine u"
  by (simp add: say_def)

lemma get_weight_is:
  assumes "weight (tasks (machine u) (current (machine u))) = signed (w :: c_int)" "0 \<le> sint w"
  shows "get_weight other fuel u = Some (u, w)"
proof -
  have "\<not> sint (signed w :: c_long) \<le> - 1" using assms(2) by (simp add: sint_signed_int)
  then show ?thesis
    using assms(1) by (simp add: get_weight_def syscall_def sys_call_table_def to_int_def sys_get_weight_def ucast_signed)
qed

lemma set_weight_is:
  assumes "0 \<le> sint w"
  shows "set_weight other fuel w u = Some (u\<lparr>machine := fst (sys_set_weight (machine u) w)\<rparr>, 0)"
  using assms by (simp add: set_weight_def syscall_def sys_call_table_def to_int_def sys_set_weight_def)

text \<open>
  The test program, on a process whose stored weight \<open>sys_set_weight\<close> can have put there: it succeeds exactly when
  the process starts with weight 0, and then leaves the weight at 5; otherwise its first assertion fails and
  the weight is as before.
\<close>

theorem test1_succeeds_on_weight_0:
  assumes w: "weight (tasks (machine u) (current (machine u))) = signed (w :: c_int)" "0 \<le> sint w"
  shows "\<exists>u' r. test1_main other fuel u = Some (u', r) \<and>
    (if w = 0 then r = Inr 0 \<and> sint (sys_get_weight (machine u')) = 5 else r = Inl ''x == 0'' \<and> machine u' = machine u)"
proof (cases "w = 0")
  case True
  define v where "v = (say ''weight: '' 0 u)\<lparr>machine := fst (sys_set_weight (machine u) 5)\<rparr>"
  have "weight (tasks (machine v) (current (machine v))) = signed (5 :: c_int)" by (simp add: v_def sys_set_weight_def)
  then have v: "get_weight other fuel (say t x v) = Some (say t x v, 5)" for t x by (intro get_weight_is) simp_all
  have s: "set_weight other fuel 5 (say ''weight: '' 0 u) = Some (v, 0)" using set_weight_is [of 5] by (simp add: v_def)
  have "sint (sys_get_weight (machine v)) = 5" by (simp add: v_def sys_get_weight_def sys_set_weight_def)
  then show ?thesis using True get_weight_is [OF w] by (simp add: test1_main_def Let_def s v)
next
  case False
  then show ?thesis using get_weight_is [OF w] by (simp add: test1_main_def Let_def say_def)
qed

definition demo_user :: user where
  "demo_user = \<lparr>machine = demo_kernel\<lparr>current := 0\<rparr>, errno = 0, cout = []\<rparr>"

theorem test1_succeeds_on_weight_0_witness:
  "\<exists>u'. test1_main (\<lambda>_ k. (k, - 38)) 0 demo_user = Some (u', Inr 0) \<and> sint (sys_get_weight (machine u')) = 5"
  using test1_succeeds_on_weight_0 [of demo_user 0 "\<lambda>_ k. (k, - 38)" 0]
  by (simp add: demo_user_def demo_kernel_def demo_tasks_def init_task_def)

section \<open>Sums beyond an int\<close>

text \<open>
  The wrapper \<open>get_leaf_children_sum\<close> cuts the result of the kernel down to an int: when the weights of the leaves below the
  caller add up to at least \<open>2 ^ 31\<close> and less than \<open>2 ^ 32\<close>, the kernel returns the right sum, but the program sees a
  negative number, as if the call had failed, with \<open>errno\<close> unchanged.
\<close>

theorem leaf_sum_cut_to_int:
  assumes "sys_get_leaf_children_sum fuel (machine u) = Some r" "2 ^ 31 \<le> sint r" "sint r < 2 ^ 32"
  shows "\<exists>x. get_leaf_children_sum other fuel u = Some (u, x) \<and> sint x = sint r - 2 ^ 32 \<and> sint x < 0"
proof -
  have "sint (ucast r :: c_int) = signed_take_bit 31 (sint r)"
    by (simp add: sint_uint unsigned_ucast_eq signed_take_bit_take_bit)
  also have "\<dots> = take_bit 32 (sint r + 2 ^ 31) - 2 ^ 31"
    by (simp add: signed_take_bit_eq_take_bit_shift)
  also have "take_bit 32 (sint r + 2 ^ 31) = sint r + 2 ^ 31 - 2 ^ 32"
    using assms(2,3) by (simp add: take_bit_eq_mod mod_pos_geq)
  finally have x: "sint (ucast r :: c_int) = sint r - 2 ^ 32" by simp
  have "\<not> sint r \<le> - 1" using assms(2) by simp
  then have "get_leaf_children_sum other fuel u = Some (u, ucast r)"
    using assms(1) by (simp add: get_leaf_children_sum_def syscall_def sys_call_table_def to_int_def)
  then show ?thesis using x assms(3) by simp
qed

definition heavy_user :: user where
  "heavy_user = \<lparr>machine = \<lparr>tasks = (\<lambda>_. init_task)
     (1 := \<lparr>weight = 2 ^ 30, pid = 20, children = [], real_parent = 0\<rparr>, 2 := \<lparr>weight = 2 ^ 30, pid = 21, children = [], real_parent = 0\<rparr>),
     current = 0, klog = []\<rparr>, errno = 0, cout = []\<rparr>"

theorem leaf_sum_cut_to_int_witness:
  "\<exists>x. get_leaf_children_sum (\<lambda>_ k. (k, - 38)) 3 heavy_user = Some (heavy_user, x) \<and> sint x = - (2 ^ 31)"
proof -
  have "sys_get_leaf_children_sum 3 (machine heavy_user) = Some (2 ^ 31)"
    by (simp add: heavy_user_def sys_get_leaf_children_sum_def init_task_def numeral_eq_Suc)
  from leaf_sum_cut_to_int [OF this, of "\<lambda>_ k. (k, - 38)"] show ?thesis by auto
qed

section \<open>Processes that do not descend from the first process\<close>

lemma heaviest_loop_hangs:
  assumes "\<forall>x\<in>S. pid (ts x) \<noteq> 1 \<and> real_parent (ts x) \<in> S" "x \<in> S"
  shows "heaviest_loop n ts x mp mw = None"
  using assms(2) by (induction n arbitrary: x mp mw) (use assms(1) in auto)

text \<open>What \<open>rest_init\<close> makes of the parents: the tasks it creates are children of the boot thread, which stays its own parent.\<close>

definition family :: "kernel \<Rightarrow> threads \<Rightarrow> bool" where
  "family k s \<longleftrightarrow> current (kern s) = current k
     \<and> (\<forall>x\<in>snd ` set (pid_table s). x \<noteq> current k \<and> real_parent (tasks (kern s) x) = current k)
     \<and> pid (tasks (kern s) (current k)) = pid (tasks k (current k))
     \<and> real_parent (tasks (kern s) (current k)) = real_parent (tasks k (current k))
     \<and> (\<forall>a. kthreadd_task s = Some a \<longrightarrow> a \<in> snd ` set (pid_table s))"

lemma family_created: "fork_ok fork \<Longrightarrow> family k s \<Longrightarrow> fresh_task p a s \<Longrightarrow> family k (created fork p a s)"
proof -
  assume f: "fork_ok fork" and c: "family k s" and n: "fresh_task p a s"
  note F = fork_others [OF f, where p = p and a = a and k = "kern s"]
  have c': "current (kern s) = current k" using c by (simp add: family_def)
  then have a: "current k \<noteq> a" "x \<in> snd ` set (pid_table s) \<Longrightarrow> x \<noteq> a" for x using n by (auto simp: fresh_task_def)
  have "real_parent (tasks (fork p a (kern s)) x) = current k" if "x = a \<or> x \<in> snd ` set (pid_table s)" for x
  proof (cases "x = a")
    case False
    then have "real_parent (tasks (kern s) x) = current k" using that c unfolding family_def by blast
    then show ?thesis using F(6) [OF False] by simp
  qed (use F(3) c' in simp)
  then show ?thesis
    using c c' F(1) F(5,6) [OF a(1)] a(1) by (auto simp: family_def)
qed

lemma family_update [simp]:
  "family k (s\<lparr>root_at := r\<rparr>) = family k s" "family k (s\<lparr>init_at := i\<rparr>) = family k s" "family k (s\<lparr>first_task := t\<rparr>) = family k s" "family k (s\<lparr>pinned := t\<rparr>) = family k s"
  "family k (s\<lparr>kthreadd_done := n\<rparr>) = family k s" "family k (s\<lparr>boot_state := b\<rparr>) = family k s"
  by (simp_all add: family_def)

lemma family_step:
  assumes "boot_step fork s s'" "family k s" "fork_ok fork"
  shows "family k s'"
  using assms(1)
proof cases
  case (clear_weight tsk)
  then show ?thesis using assms(2) by (auto simp: family_def rest_init_weight_def)
next
  case (find_kthreadd p)
  then show ?thesis using assms(2) by (force simp: family_def dest: find_task_some)
qed (use assms(2,3) in \<open>auto simp: family_created\<close>)

lemma reachable_family: "(boot_step fork)\<^sup>*\<^sup>* (rest_init_start k []) s \<Longrightarrow> fork_ok fork \<Longrightarrow> family k s"
proof (induction rule: rtranclp_induct)
  case base
  then show ?case by (simp add: family_def rest_init_start_def)
qed (rule family_step)

text \<open>
  C37. \<open>heaviest_ancestor_weight\<close> climbs until it meets pid 1, but \<open>rest_init\<close> makes \<open>kthreadd\<close> a child of the boot thread, which has
  pid 0 and is its own parent. So for a process whose parent is \<open>kthreadd\<close> - a helper program started by the kernel -
  \<open>sys_get_heaviest_ancestor\<close> never returns, whatever the weights, in every later state that keeps the parents and pids of
  these two tasks.
\<close>

theorem heaviest_ancestor_hangs_below_kthreadd:
  assumes fork: "fork_ok fork" and s: "(boot_step fork)\<^sup>*\<^sup>* (rest_init_start k []) s" "kthreadd_task s = Some a" "pid (tasks (kern s) a) \<noteq> 1"
    and boot: "pid (tasks k (current k)) = 0" "real_parent (tasks k (current k)) = current k"
    and later: "\<forall>x\<in>{a, current k}. pid (tasks k' x) = pid (tasks (kern s) x) \<and> real_parent (tasks k' x) = real_parent (tasks (kern s) x)"
    and child: "real_parent (tasks k' (current k')) = a" "pid (tasks k' (current k')) \<noteq> 1"
  shows "sys_get_heaviest_ancestor n k' = None"
proof -
  have f: "family k s" by (rule reachable_family [OF s(1) fork])
  then have "real_parent (tasks (kern s) a) = current k" using s(2) by (auto simp: family_def)
  then have "\<forall>x\<in>{current k', a, current k}. pid (tasks k' x) \<noteq> 1 \<and> real_parent (tasks k' x) \<in> {current k', a, current k}"
    using f s(3) boot later child by (auto simp: family_def)
  then have "heaviest_loop n (tasks k') (current k') 1 (- 1) = None" by (rule heaviest_loop_hangs) simp
  then show ?thesis by (simp add: sys_get_heaviest_ancestor_def heaviest_ancestor_weight_def)
qed

theorem heaviest_ancestor_hangs_below_kthreadd_witness:
  "\<exists>s. (boot_step copy_fork)\<^sup>*\<^sup>* (rest_init_start swapper_kernel []) s \<and> kthreadd_task s = Some 10
     \<and> (\<forall>n. sys_get_heaviest_ancestor n
          ((kern s)\<lparr>tasks := (tasks (kern s))(11 := \<lparr>weight = 0, pid = 40, children = [], real_parent = 10\<rparr>), current := 11\<rparr>) = None)"
proof -
  obtain s where s: "(boot_step copy_fork ^^ 6) (rest_init_start swapper_kernel []) s" "kthreadd_task s = Some 10" "pid (tasks (kern s) 10) = 2"
    using demo_waiting by blast
  have r: "(boot_step copy_fork)\<^sup>*\<^sup>* (rest_init_start swapper_kernel []) s" using s(1) by (meson relpowp_imp_rtranclp)
  have k: "pid (tasks swapper_kernel (current swapper_kernel)) = 0"
    "real_parent (tasks swapper_kernel (current swapper_kernel)) = current swapper_kernel" by (simp_all add: swapper_kernel_def)
  have "pid (tasks (kern s) 10) \<noteq> 1" using s(3) by simp
  from heaviest_ancestor_hangs_below_kthreadd [OF copy_fork_ok r s(2) this k] show ?thesis
    using r s(2) by (intro exI [of _ s]) (simp add: swapper_kernel_def)
qed

end
