(* ===== verification/Kernel_Resched.thy ===== *)
theory Kernel_Resched
  imports Kernel_Tasks
begin

text \<open>
  The rest of the inline functions of \<open>include/linux/sched.h\<close>: the list of the process flags with the macros that work on the flags of the current task, the
  functions a kernel for one processor has in place of those of the scheduler, and the points where a task offers to give up its processor.
\<close>

section \<open>Process flags\<close>

definition process_flags :: "(string \<times> 32 word) list" where
  "process_flags =
    [(''PF_IDLE'', 0x00000002), (''PF_EXITING'', 0x00000004), (''PF_VCPU'', 0x00000010),
     (''PF_WQ_WORKER'', 0x00000020), (''PF_FORKNOEXEC'', 0x00000040), (''PF_MCE_PROCESS'', 0x00000080),
     (''PF_SUPERPRIV'', 0x00000100), (''PF_DUMPCORE'', 0x00000200), (''PF_SIGNALED'', 0x00000400),
     (''PF_MEMALLOC'', 0x00000800), (''PF_NPROC_EXCEEDED'', 0x00001000), (''PF_USED_MATH'', 0x00002000),
     (''PF_NOFREEZE'', 0x00008000), (''PF_FROZEN'', 0x00010000), (''PF_KSWAPD'', 0x00020000),
     (''PF_MEMALLOC_NOFS'', 0x00040000), (''PF_MEMALLOC_NOIO'', 0x00080000), (''PF_LESS_THROTTLE'', 0x00100000),
     (''PF_KTHREAD'', 0x00200000), (''PF_RANDOMIZE'', 0x00400000), (''PF_SWAPWRITE'', 0x00800000),
     (''PF_NO_SETAFFINITY'', 0x04000000), (''PF_MCE_EARLY'', 0x08000000), (''PF_MUTEX_TESTER'', 0x20000000),
     (''PF_FREEZER_SKIP'', 0x40000000), (''PF_SUSPEND_TASK'', 0x80000000)]"

definition clear_used_math :: "taddr \<Rightarrow> sched_store \<Rightarrow> sched_store" where
  "clear_used_math cur ts = ts(cur := clear_stopped_child_used_math (ts cur))"

definition set_used_math :: "taddr \<Rightarrow> sched_store \<Rightarrow> sched_store" where
  "set_used_math cur ts = ts(cur := set_stopped_child_used_math (ts cur))"

definition conditional_used_math :: "bool \<Rightarrow> taddr \<Rightarrow> sched_store \<Rightarrow> sched_store" where
  "conditional_used_math c cur ts = ts(cur := conditional_stopped_child_used_math c (ts cur))"

definition used_math :: "taddr \<Rightarrow> sched_store \<Rightarrow> 32 word" where
  "used_math cur ts = tsk_used_math (ts cur)"

text \<open>The list has the flags the other definitions use, each flag is one bit, and no two are the same bit.\<close>

lemma process_flags_known:
  "map_of process_flags ''PF_IDLE'' = Some PF_IDLE" "map_of process_flags ''PF_FROZEN'' = Some PF_FROZEN"
  "map_of process_flags ''PF_USED_MATH'' = Some PF_USED_MATH" "map_of process_flags ''PF_NO_SETAFFINITY'' = Some PF_NO_SETAFFINITY"
  by (simp_all add: process_flags_def PF_IDLE_def PF_FROZEN_def PF_USED_MATH_def PF_NO_SETAFFINITY_def)

lemma process_flags_values:
  "map snd process_flags = map (\<lambda>k. 2 ^ k)
    [1, 2, 4, 5, 6, 7, 8, 9, 10, 11, 12, 13, 15, 16, 17, 18, 19, 20, 21, 22, 23, 26, 27, 29, 30, 31]"
  by (simp add: process_flags_def)

lemma single_bits_disjoint: "j < 32 \<Longrightarrow> k < 32 \<Longrightarrow> j \<noteq> k \<Longrightarrow> (2 ^ j :: 32 word) AND 2 ^ k = 0"
  by (rule bit_word_eqI) (simp add: bit_simps)

lemma process_flag_bit: "v \<in> snd ` set process_flags \<Longrightarrow> \<exists>k<32. v = 2 ^ k"
proof -
  assume "v \<in> snd ` set process_flags"
  then have "v \<in> (\<lambda>k. 2 ^ k) ` set [1, 2, 4, 5, 6, 7, 8, 9, 10, 11, 12, 13, 15, 16, 17, 18, 19, 20, 21, 22, 23, 26, 27, 29, 30, 31]"
    by (simp only: set_map[symmetric] process_flags_values)
  moreover have "set [1, 2, 4, 5, 6, 7, 8, 9, 10, 11, 12, 13, 15, 16, 17, 18, 19, 20, 21, 22, 23, 26, 27, 29, 30, 31] \<subseteq> {..<32::nat}" by simp
  ultimately show ?thesis by blast
qed

lemma process_flags_disjoint:
  assumes "v \<in> snd ` set process_flags" "w \<in> snd ` set process_flags" "v \<noteq> w"
  shows "v AND w = 0"
  using process_flag_bit[OF assms(1)] process_flag_bit[OF assms(2)] assms(3) single_bits_disjoint by metis

lemma used_math_flag: "PF_USED_MATH \<in> snd ` set process_flags"
  using map_of_SomeD[OF process_flags_known(3)] by force

text \<open>The macros for the math flag leave every other flag of the list as it was.\<close>

lemma disjoint_flag_kept:
  fixes f m v :: "32 word"
  assumes "v AND m = 0"
  shows "(f AND NOT m) AND v = f AND v" "(f OR m) AND v = f AND v"
proof -
  have *: "\<not> (bit v n \<and> bit m n)" for n using assms by (metis bit_and_iff bit_0_eq bot_apply bot_bool_def)
  show "(f AND NOT m) AND v = f AND v" "(f OR m) AND v = f AND v"
    using * by (auto intro!: bit_word_eqI simp: bit_simps)
qed

lemma used_math_keeps_other_flags:
  assumes "v \<in> snd ` set process_flags" "v \<noteq> PF_USED_MATH"
  shows "flags (clear_used_math cur ts cur) AND v = flags (ts cur) AND v"
    and "flags (set_used_math cur ts cur) AND v = flags (ts cur) AND v"
    and "flags (conditional_used_math c cur ts cur) AND v = flags (ts cur) AND v"
  using disjoint_flag_kept[OF process_flags_disjoint[OF assms(1) used_math_flag assms(2)]]
  by (simp_all add: clear_used_math_def set_used_math_def conditional_used_math_def clear_stopped_child_used_math_def
      set_stopped_child_used_math_def conditional_stopped_child_used_math_def Let_def)

lemma used_math_reads:
  "used_math cur (clear_used_math cur ts) = 0" "used_math cur (set_used_math cur ts) = PF_USED_MATH"
  "used_math cur (conditional_used_math c cur ts) = (if c then PF_USED_MATH else 0)"
  by (rule bit_word_eqI, auto simp: bit_simps used_math_def tsk_used_math_def clear_used_math_def set_used_math_def conditional_used_math_def
      clear_stopped_child_used_math_def set_stopped_child_used_math_def conditional_stopped_child_used_math_def Let_def)+

section \<open>Ids as the namespace of the caller sees them\<close>

definition task_pgrp_vnr :: "arch_ops \<Rightarrow> sched_store \<Rightarrow> taddr \<Rightarrow> c_int" where
  "task_pgrp_vnr ops ts t = task_pid_nr_in ops ts t PIDTYPE_PGID None"

definition task_session_vnr :: "arch_ops \<Rightarrow> sched_store \<Rightarrow> taddr \<Rightarrow> c_int" where
  "task_session_vnr ops ts t = task_pid_nr_in ops ts t PIDTYPE_SID None"

definition task_tgid_vnr :: "arch_ops \<Rightarrow> sched_store \<Rightarrow> taddr \<Rightarrow> c_int" where
  "task_tgid_vnr ops ts t = task_pid_nr_in ops ts t PIDTYPE_TGID None"

section \<open>One processor\<close>

text \<open>The variants without \<open>CONFIG_SMP\<close>; 22 is \<open>EINVAL\<close>. The functions with an empty body there do nothing.\<close>

definition up_set_cpus_allowed_ptr :: "nat set \<Rightarrow> c_int" where
  "up_set_cpus_allowed_ptr new_mask = (if 0 \<notin> new_mask then - 22 else 0)"

definition up_wait_task_inactive :: "taddr \<Rightarrow> 64 word \<Rightarrow> 64 word" where
  "up_wait_task_inactive p match_state = 1"

definition up_task_cpu :: "taddr \<Rightarrow> 32 word" where
  "up_task_cpu p = 0"

text \<open>The masks that are accepted are those with the processor of the task.\<close>

lemma up_mask_has_cpu: "up_set_cpus_allowed_ptr new_mask = 0 \<longleftrightarrow> unat (up_task_cpu p) \<in> new_mask"
  by (simp add: up_set_cpus_allowed_ptr_def up_task_cpu_def)

section \<open>Offering the processor\<close>

text \<open>
  The state of the kernel is left open (\<open>'k\<close>); \<open>resched_ops\<close> has what the macros call: the check for sleeping in atomic context with the depth it allows, the three
  functions of the scheduler, the read-side lock of RCU. \<open>preempt\<close>, \<open>preempt_rcu\<close> and \<open>debug_sleep\<close> are the configuration.
\<close>

record 'k resched_ops =
  might_sleep :: "nat \<Rightarrow> 'k \<Rightarrow> 'k"
  sched_cond_resched :: "'k \<Rightarrow> c_int \<times> 'k"
  sched_cond_resched_lock :: "nat \<Rightarrow> 'k \<Rightarrow> c_int \<times> 'k"
  sched_cond_resched_softirq :: "'k \<Rightarrow> c_int \<times> 'k"
  rcu_read_lock :: "'k \<Rightarrow> 'k"
  rcu_read_unlock :: "'k \<Rightarrow> 'k"
  spin_is_contended :: "nat \<Rightarrow> 'k \<Rightarrow> c_int"
  PREEMPT_LOCK_OFFSET :: nat
  SOFTIRQ_DISABLE_OFFSET :: nat
  preempt :: bool
  preempt_rcu :: bool
  debug_sleep :: bool

definition plain_cond_resched :: "'k resched_ops \<Rightarrow> 'k \<Rightarrow> c_int \<times> 'k" where
  "plain_cond_resched ops k = (if preempt ops then (0, k) else sched_cond_resched ops k)"

definition cond_resched :: "'k resched_ops \<Rightarrow> 'k \<Rightarrow> c_int \<times> 'k" where
  "cond_resched ops k = plain_cond_resched ops (might_sleep ops 0 k)"

definition cond_resched_lock :: "'k resched_ops \<Rightarrow> nat \<Rightarrow> 'k \<Rightarrow> c_int \<times> 'k" where
  "cond_resched_lock ops lock k = sched_cond_resched_lock ops lock (might_sleep ops (PREEMPT_LOCK_OFFSET ops) k)"

definition cond_resched_softirq :: "'k resched_ops \<Rightarrow> 'k \<Rightarrow> c_int \<times> 'k" where
  "cond_resched_softirq ops k = sched_cond_resched_softirq ops (might_sleep ops (SOFTIRQ_DISABLE_OFFSET ops) k)"

definition cond_resched_rcu :: "'k resched_ops \<Rightarrow> 'k \<Rightarrow> 'k" where
  "cond_resched_rcu ops k =
     (if debug_sleep ops \<or> \<not> preempt_rcu ops then rcu_read_lock ops (snd (cond_resched ops (rcu_read_unlock ops k))) else k)"

definition spin_needbreak :: "'k resched_ops \<Rightarrow> nat \<Rightarrow> 'k \<Rightarrow> c_int" where
  "spin_needbreak ops lock k = (if preempt ops then spin_is_contended ops lock k else 0)"

text \<open>
  What the kernel promises of the functions called here, with \<open>depth\<close> the nesting of the read-side sections: the lock and the unlock move it by one, the check and the
  scheduler keep it and do not report a fault (\<open>faulty\<close>: gave up the processor inside a read-side section, or left one that was not entered) when it is zero.
\<close>

definition rcu_ok :: "'k resched_ops \<Rightarrow> ('k \<Rightarrow> nat) \<Rightarrow> ('k \<Rightarrow> bool) \<Rightarrow> bool" where
  "rcu_ok ops depth faulty \<longleftrightarrow>
     (\<forall>k. depth (rcu_read_lock ops k) = depth k + 1 \<and> faulty (rcu_read_lock ops k) = faulty k)
     \<and> (\<forall>k. depth k \<noteq> 0 \<longrightarrow> depth (rcu_read_unlock ops k) = depth k - 1 \<and> faulty (rcu_read_unlock ops k) = faulty k)
     \<and> (\<forall>n k. depth (might_sleep ops n k) = depth k \<and> (depth k = 0 \<longrightarrow> faulty (might_sleep ops n k) = faulty k))
     \<and> (\<forall>k. depth (snd (sched_cond_resched ops k)) = depth k \<and> (depth k = 0 \<longrightarrow> faulty (snd (sched_cond_resched ops k)) = faulty k))"

lemma cond_resched_keeps:
  assumes "rcu_ok ops depth faulty"
  shows "depth (snd (cond_resched ops k)) = depth k" "depth k = 0 \<Longrightarrow> faulty (snd (cond_resched ops k)) = faulty k"
  using assms by (simp_all add: rcu_ok_def cond_resched_def plain_cond_resched_def)

text \<open>\<open>cond_resched_rcu\<close>, called in one read-side section, offers the processor outside of it and returns inside.\<close>

lemma cond_resched_rcu_keeps:
  assumes "rcu_ok ops depth faulty" "depth k = 1"
  shows "depth (cond_resched_rcu ops k) = 1" "faulty (cond_resched_rcu ops k) = faulty k"
proof -
  have "depth (rcu_read_unlock ops k) = 0" "faulty (rcu_read_unlock ops k) = faulty k"
    using assms by (simp_all add: rcu_ok_def)
  then show "depth (cond_resched_rcu ops k) = 1" "faulty (cond_resched_rcu ops k) = faulty k"
    using assms cond_resched_keeps[OF assms(1)] by (simp_all add: cond_resched_rcu_def rcu_ok_def)
qed

text \<open>A kernel whose state is the depth and the fault: the promises can be kept.\<close>

definition counting_rcu :: "(nat \<times> bool) resched_ops" where
  "counting_rcu = \<lparr>might_sleep = (\<lambda>_ (d, f). (d, f \<or> d \<noteq> 0)), sched_cond_resched = (\<lambda>(d, f). (1, d, f \<or> d \<noteq> 0)),
     sched_cond_resched_lock = (\<lambda>_ k. (0, k)), sched_cond_resched_softirq = (\<lambda>k. (0, k)), rcu_read_lock = (\<lambda>(d, f). (d + 1, f)),
     rcu_read_unlock = (\<lambda>(d, f). (d - 1, f \<or> d = 0)), spin_is_contended = (\<lambda>_ _. 0), PREEMPT_LOCK_OFFSET = 1, SOFTIRQ_DISABLE_OFFSET = 512,
     preempt = False, preempt_rcu = False, debug_sleep = False\<rparr>"

lemma counting_rcu_ok: "rcu_ok counting_rcu fst snd"
  by (simp add: rcu_ok_def counting_rcu_def split_def)

end
