(* ===== verification/C_Decl.thy ===== *)
theory C_Decl
  imports Prelude
begin

text \<open>
  Declarations of C as the two headers of the kernel use them: types, their sizes and alignments, and the conversion of an
  integer to a type. Type qualifiers (\<open>const\<close>, \<open>volatile\<close>) and annotations (\<open>__user\<close>, \<open>__rcu\<close>) change neither
  and are left out. What depends on the architecture, on the configuration, and on types of other headers is the
  record \<open>target\<close>.
\<close>

unbundle bit_operations_syntax

section \<open>Types\<close>

datatype prim = CChar | CShort | CInt | CLong | CLongLong

datatype ctype =
    Void
  | Signed prim
  | Unsigned prim
  | Typedef string
  | Struct string
  | Union string
  | Enum string
  | Ptr ctype
  | Array ctype nat

record target =
  long_bytes :: nat
  longlong_align :: nat
  scalar_of :: "string \<Rightarrow> ctype"
  layout_of :: "ctype \<Rightarrow> nat \<times> nat"
  macro_value :: "string \<Rightarrow> nat"
  defined :: "string \<Rightarrow> bool"

section \<open>Conditional declarations\<close>

text \<open>
  A list of declarations is cut at the conditions of the preprocessor; \<open>Bits32\<close> is \<open>BITS_PER_LONG == 32\<close>. \<open>select\<close> is
  what the compiler sees, \<open>everything\<close> the whole text.
\<close>

datatype condition = Always | Ifdef string | Bits32 | Unless condition | Both condition condition | Either condition condition

fun holds :: "target \<Rightarrow> condition \<Rightarrow> bool" where
  "holds tg Always = True"
| "holds tg (Ifdef n) = defined tg n"
| "holds tg Bits32 = (long_bytes tg = 4)"
| "holds tg (Unless c) = (\<not> holds tg c)"
| "holds tg (Both c d) = (holds tg c \<and> holds tg d)"
| "holds tg (Either c d) = (holds tg c \<or> holds tg d)"

definition select :: "target \<Rightarrow> (condition \<times> 'a list) list \<Rightarrow> 'a list" where
  "select tg cs = concat (map snd (filter (\<lambda>(c, xs). holds tg c) cs))"

definition everything :: "(condition \<times> 'a list) list \<Rightarrow> 'a list" where
  "everything cs = concat (map snd cs)"

lemma select_simps [simp]:
  "select tg [] = []" "select tg ((c, xs) # cs) = (if holds tg c then xs else []) @ select tg cs" "select tg (cs @ ds) = select tg cs @ select tg ds"
  by (auto simp: select_def)

lemma everything_simps [simp]:
  "everything [] = []" "everything ((c, xs) # cs) = xs @ everything cs" "everything (cs @ ds) = everything cs @ everything ds"
  by (auto simp: everything_def)

lemma in_select: "x \<in> set (select tg cs) \<longleftrightarrow> (\<exists>c xs. (c, xs) \<in> set cs \<and> holds tg c \<and> x \<in> set xs)"
  by (auto simp: select_def)

lemma select_subset: "set (select tg cs) \<subseteq> set (everything cs)"
  by (auto simp: select_def everything_def)

lemma distinct_select: "distinct (map f (everything cs)) \<Longrightarrow> distinct (map f (select tg cs))"
proof (induction cs)
  case (Cons c cs)
  then show ?case using select_subset [of tg cs] by (cases c) auto
qed simp

section \<open>Sizes\<close>

fun prim_bytes :: "target \<Rightarrow> prim \<Rightarrow> nat" where
  "prim_bytes tg CChar = 1"
| "prim_bytes tg CShort = 2"
| "prim_bytes tg CInt = 4"
| "prim_bytes tg CLong = long_bytes tg"
| "prim_bytes tg CLongLong = 8"

fun c_sizeof :: "target \<Rightarrow> ctype \<Rightarrow> nat" where
  "c_sizeof tg Void = 1"
| "c_sizeof tg (Signed p) = prim_bytes tg p"
| "c_sizeof tg (Unsigned p) = prim_bytes tg p"
| "c_sizeof tg (Ptr t) = long_bytes tg"
| "c_sizeof tg (Array t n) = n * c_sizeof tg t"
| "c_sizeof tg t = fst (layout_of tg t)"

fun c_alignof :: "target \<Rightarrow> ctype \<Rightarrow> nat" where
  "c_alignof tg Void = 1"
| "c_alignof tg (Signed p) = (if p = CLongLong then longlong_align tg else prim_bytes tg p)"
| "c_alignof tg (Unsigned p) = (if p = CLongLong then longlong_align tg else prim_bytes tg p)"
| "c_alignof tg (Ptr t) = long_bytes tg"
| "c_alignof tg (Array t n) = c_alignof tg t"
| "c_alignof tg t = snd (layout_of tg t)"

text \<open>
  What is relied upon: a \<open>long\<close> has four or eight bytes, \<open>long long\<close> is aligned to four or eight, the size of every type is a
  multiple of its alignment, and the macros that stand for a number (of elements, of bytes of a cache line) are positive.
\<close>

definition target_ok :: "target \<Rightarrow> bool" where
  "target_ok tg \<longleftrightarrow> long_bytes tg \<in> {4, 8} \<and> longlong_align tg \<in> {4, 8}
     \<and> (\<forall>t. 0 < snd (layout_of tg t) \<and> snd (layout_of tg t) dvd fst (layout_of tg t)) \<and> (\<forall>n. 0 < macro_value tg n)"

lemma target_long [simp]: "target_ok tg \<Longrightarrow> 0 < long_bytes tg" "target_ok tg \<Longrightarrow> 4 \<le> long_bytes tg" "target_ok tg \<Longrightarrow> long_bytes tg \<le> 8"
  by (auto simp: target_ok_def)

lemma prim_bytes_pos: "target_ok tg \<Longrightarrow> 0 < prim_bytes tg p"
  by (cases p) simp_all

lemma prim_bytes_long: "target_ok tg \<Longrightarrow> p \<noteq> CLongLong \<Longrightarrow> prim_bytes tg p \<le> long_bytes tg"
  by (cases p) (auto simp: target_ok_def)

lemma alignof_pos: "target_ok tg \<Longrightarrow> 0 < c_alignof tg t"
  by (induction t) (use prim_bytes_pos in \<open>auto simp: target_ok_def\<close>)

lemma alignof_dvd: "target_ok tg \<Longrightarrow> c_alignof tg t dvd c_sizeof tg t"
  by (induction t) (auto simp: target_ok_def)

section \<open>Converting an integer\<close>

text \<open>
  A pointer is an address, and a type definition stands for its type. A conversion to anything that is not a scalar type does not compile.
\<close>

definition resolve :: "target \<Rightarrow> ctype \<Rightarrow> ctype" where
  "resolve tg t = (case t of Typedef n \<Rightarrow> scalar_of tg n | _ \<Rightarrow> t)"

fun convert_to :: "target \<Rightarrow> ctype \<Rightarrow> int \<Rightarrow> int option" where
  "convert_to tg (Signed p) x = Some (signed_take_bit (8 * prim_bytes tg p - 1) x)"
| "convert_to tg (Unsigned p) x = Some (take_bit (8 * prim_bytes tg p) x)"
| "convert_to tg (Ptr t) x = Some (take_bit (8 * long_bytes tg) x)"
| "convert_to tg _ x = None"

definition convert :: "target \<Rightarrow> ctype \<Rightarrow> int \<Rightarrow> int option" where
  "convert tg t x = convert_to tg (resolve tg t) x"

fun scalar_type :: "ctype \<Rightarrow> bool" where
  "scalar_type (Signed p) = True"
| "scalar_type (Unsigned p) = True"
| "scalar_type (Ptr t) = True"
| "scalar_type _ = False"

definition scalar :: "target \<Rightarrow> ctype \<Rightarrow> bool" where
  "scalar tg t \<longleftrightarrow> scalar_type (resolve tg t)"

text \<open>The values of a type are those that a conversion to it leaves alone.\<close>

definition value_of :: "target \<Rightarrow> ctype \<Rightarrow> int \<Rightarrow> bool" where
  "value_of tg t x \<longleftrightarrow> convert tg t x = Some x"

lemma convert_scalar: "scalar tg t \<longleftrightarrow> convert tg t x \<noteq> None"
  by (cases "resolve tg t") (auto simp: scalar_def convert_def)

lemma convert_value:
  assumes "convert tg t x = Some y"
  shows "value_of tg t y"
  using assms by (cases "resolve tg t") (auto simp: value_of_def convert_def)

lemma value_of_bounds:
  assumes "target_ok tg" "resolve tg t = Signed p"
  shows "value_of tg t x \<longleftrightarrow> - (2 ^ (8 * prim_bytes tg p - 1)) \<le> x \<and> x < 2 ^ (8 * prim_bytes tg p - 1)"
  using assms(2) by (auto simp: value_of_def convert_def signed_take_bit_int_eq_self_iff)

lemma value_of_unsigned:
  assumes "resolve tg t = Unsigned p"
  shows "value_of tg t x \<longleftrightarrow> 0 \<le> x \<and> x < 2 ^ (8 * prim_bytes tg p)"
  using assms by (auto simp: value_of_def convert_def take_bit_int_eq_self_iff)

text \<open>A conversion to a signed type that is at least as wide, on the way, does not change the result.\<close>

lemma convert_through:
  assumes "scalar tg t" "8 * c_sizeof tg (resolve tg t) \<le> n" "0 < n"
  shows "convert tg t (signed_take_bit (n - 1) x) = convert tg t x"
proof -
  have s: "take_bit m (signed_take_bit (n - Suc 0) x) = take_bit m x" if "m \<le> n" for m
    using that assms(3) by (intro bit_eqI) (auto simp: bit_simps)
  have z: "signed_take_bit (m - Suc 0) (signed_take_bit (n - Suc 0) x) = signed_take_bit (m - Suc 0) x" if "m \<le> n" for m
    using that by (intro bit_eqI) (auto simp: bit_simps min_def)
  show ?thesis
    using assms(1,2) by (cases "resolve tg t") (auto simp: convert_def scalar_def s z)
qed

section \<open>An example\<close>

text \<open>A 64-bit machine on which everything is configured.\<close>

definition x86_64 :: target where
  "x86_64 = \<lparr>long_bytes = 8, longlong_align = 8,
     scalar_of = (\<lambda>n. if n = ''loff_t'' then Signed CLongLong else if n = ''size_t'' then Unsigned CLong else Signed CInt),
     layout_of = (\<lambda>_. (8, 8)), macro_value = (\<lambda>_. 1), defined = (\<lambda>_. True)\<rparr>"

lemma x86_64_ok: "target_ok x86_64"
  by (simp add: target_ok_def x86_64_def)

text \<open>A 32-bit machine.\<close>

definition i386 :: target where
  "i386 = x86_64\<lparr>long_bytes := 4, longlong_align := 4\<rparr>"

lemma i386_ok: "target_ok i386"
  by (simp add: target_ok_def i386_def x86_64_def)

end
