(* ===== verification/Syscall_Macros.thy ===== *)
theory Syscall_Macros
  imports C_Decl
begin

text \<open>
  The macros of \<open>include/linux/syscalls.h\<close> that define system calls. An expansion or a translation that the compiler refuses is
  \<open>None\<close>. The arguments of a macro are the spelling of a type, which the compiler reads as a type, and the name of a parameter.
  \<open>SyS\<close> is the function that \<open>__SYSCALL_DEFINEx\<close> makes of the body of a system call; \<open>SYSCALL_METADATA\<close> adds the data for tracing.
\<close>

section \<open>Applying a macro to all parameters\<close>

fun MAP :: "nat \<Rightarrow> ('x \<Rightarrow> 'x \<Rightarrow> 'b option) \<Rightarrow> 'x list \<Rightarrow> 'b list option" where
  "MAP 0 m va = Some []"
| "MAP (Suc 0) m va = (case va of [t, a] \<Rightarrow> map_option (\<lambda>x. [x]) (m t a) | _ \<Rightarrow> None)"
| "MAP (Suc (Suc n)) m va =
     (if 6 < Suc (Suc n) then None
      else case va of t # a # va \<Rightarrow> Option.bind (m t a) (\<lambda>x. map_option (Cons x) (MAP (Suc n) m va)) | _ \<Rightarrow> None)"

datatype pp_arg = Type_arg string ctype | Name_arg string

fun SC_DECL :: "pp_arg \<Rightarrow> pp_arg \<Rightarrow> (ctype \<times> string) option" where
  "SC_DECL (Type_arg s t) (Name_arg a) = Some (t, a)"
| "SC_DECL _ _ = None"

text \<open>\<open>__TYPE_AS\<close> compares types, not values.\<close>

definition TYPE_AS :: "target \<Rightarrow> ctype \<Rightarrow> ctype \<Rightarrow> bool" where
  "TYPE_AS tg t v \<longleftrightarrow> resolve tg t = v"

definition TYPE_IS_LL :: "target \<Rightarrow> ctype \<Rightarrow> bool" where
  "TYPE_IS_LL tg t \<longleftrightarrow> TYPE_AS tg t (Signed CLongLong) \<or> TYPE_AS tg t (Unsigned CLongLong)"

fun SC_LONG :: "target \<Rightarrow> pp_arg \<Rightarrow> pp_arg \<Rightarrow> (ctype \<times> string) option" where
  "SC_LONG tg (Type_arg s t) (Name_arg a) = Some (if TYPE_IS_LL tg t then Signed CLongLong else Signed CLong, a)"
| "SC_LONG tg _ _ = None"

fun SC_CAST :: "target \<Rightarrow> (string \<rightharpoonup> int) \<Rightarrow> pp_arg \<Rightarrow> pp_arg \<Rightarrow> int option" where
  "SC_CAST tg env (Type_arg s t) (Name_arg a) = Option.bind (env a) (convert tg t)"
| "SC_CAST tg env _ _ = None"

fun SC_ARGS :: "(string \<rightharpoonup> int) \<Rightarrow> pp_arg \<Rightarrow> pp_arg \<Rightarrow> int option" where
  "SC_ARGS env t (Name_arg a) = env a"
| "SC_ARGS env _ _ = None"

text \<open>\<open>BUILD_BUG_ON_ZERO\<close> stops the compiler if its argument is not zero, and is zero otherwise.\<close>

fun SC_TEST :: "target \<Rightarrow> pp_arg \<Rightarrow> pp_arg \<Rightarrow> unit option" where
  "SC_TEST tg (Type_arg s t) a = (if \<not> TYPE_IS_LL tg t \<and> c_sizeof tg (Signed CLong) < c_sizeof tg (resolve tg t) then None else Some ())"
| "SC_TEST tg _ a = None"

section \<open>The function behind a system call\<close>

text \<open>
  The parameters of \<open>SyS\<close> have the types that \<open>__SC_LONG\<close> gives: a parameter holds what the caller passes, converted to its type. The body is called
  with the parameters converted to the declared types. \<open>asmlinkage_protect\<close> only keeps the compiler from reusing their stack slots.
\<close>

definition SyS :: "target \<Rightarrow> nat \<Rightarrow> pp_arg list \<Rightarrow> (int list \<Rightarrow> 's \<Rightarrow> int \<times> 's) \<Rightarrow> int list \<Rightarrow> 's \<Rightarrow> (int \<times> 's) option" where
  "SyS tg x va SYSC regs s =
     Option.bind (MAP x (SC_LONG tg) va) (\<lambda>params.
       if distinct (map snd params) \<and> length regs = length params
       then let env = map_of (zip (map snd params) (map2 (\<lambda>(t, _) r. the (convert tg t r)) params regs)) in
         Option.bind (MAP x (SC_CAST tg env) va) (\<lambda>args.
           let (ret, s) = SYSC args s in
           Option.bind (MAP x (SC_TEST tg) va) (\<lambda>_.
             Option.bind (MAP x (SC_ARGS env) va) (\<lambda>_. Some (ret, s))))
       else None)"

subsection \<open>Lists of parameters\<close>

definition flat :: "(string \<times> ctype \<times> string) list \<Rightarrow> pp_arg list" where
  "flat ps = concat (map (\<lambda>(s, t, a). [Type_arg s t, Name_arg a]) ps)"

lemma flat_simps [simp]: "flat [] = []" "flat ((s, t, a) # ps) = Type_arg s t # Name_arg a # flat ps"
  by (simp_all add: flat_def)

lemma length_flat [simp]: "length (flat ps) = 2 * length ps"
  by (induction ps) auto

text \<open>\<open>__MAP\<close> needs the number of parameters to be right: with it, it is the map over the parameters, and with any other it does not expand.\<close>

lemma MAP_flat:
  assumes "length ps \<le> 6" "\<forall>p\<in>set ps. case p of (s, t, a) \<Rightarrow> m (Type_arg s t) (Name_arg a) = Some (f p)"
  shows "MAP (length ps) m (flat ps) = Some (map f ps)"
  using assms
proof (induction ps)
  case (Cons p ps)
  obtain s t a where p: "p = (s, t, a)" by (cases p)
  show ?case using Cons p by (cases ps) auto
qed simp

lemma MAP_length: "MAP n m va = Some ys \<Longrightarrow> 0 < n \<Longrightarrow> length va = 2 * n \<and> length ys = n \<and> n \<le> 6"
  by (induction n m va arbitrary: ys rule: MAP.induct)
    (auto split: list.splits if_splits simp: bind_eq_Some_conv)

lemma MAP_wrong_number: "0 < n \<Longrightarrow> n \<noteq> length ps \<Longrightarrow> MAP n m (flat ps) = None"
  using MAP_length [of n m "flat ps"] by (cases "MAP n m (flat ps)") auto

section \<open>What the body gets\<close>

text \<open>Every scalar type fits into the type of its parameter, so that the way through the parameter does not change what arrives.\<close>

lemma through_parameter:
  assumes "target_ok tg" "scalar tg t" "SC_LONG tg (Type_arg s t) (Name_arg a) = Some (u, b)"
  shows "convert tg u r \<noteq> None" "convert tg t (the (convert tg u r)) = convert tg t r"
proof -
  have "c_sizeof tg (resolve tg t) \<le> (if TYPE_IS_LL tg t then 8 else long_bytes tg)"
    using assms(1,2) prim_bytes_long [OF assms(1)] unfolding scalar_def TYPE_IS_LL_def TYPE_AS_def
    by (cases "resolve tg t") fastforce+
  moreover have "convert tg u r = Some (signed_take_bit (8 * (if TYPE_IS_LL tg t then 8 else long_bytes tg) - 1) r)"
    using assms(3) by (auto simp: convert_def resolve_def)
  ultimately show "convert tg u r \<noteq> None" "convert tg t (the (convert tg u r)) = convert tg t r"
    using convert_through [OF assms(2), of "8 * (if TYPE_IS_LL tg t then 8 else long_bytes tg)" r] assms(1) by auto
qed

lemma test_passes:
  assumes "target_ok tg" "scalar tg t"
  shows "SC_TEST tg (Type_arg s t) a = Some ()"
  using assms prim_bytes_long [OF assms(1)] unfolding scalar_def TYPE_IS_LL_def TYPE_AS_def
  by (cases "resolve tg t") (auto simp: TYPE_IS_LL_def TYPE_AS_def linorder_not_less)

lemma env_lookup:
  assumes "distinct (map (\<lambda>(s, t, a). a) ps)" "length regs = length ps" "i < length ps" "ps ! i = (s, t, a)"
  shows "map_of (zip (map (\<lambda>(s, t, a). a) ps) regs) a = Some (regs ! i)"
  using assms by (intro map_of_is_SomeI) (force simp: set_zip)+

lemma SyS_calls_body:
  assumes tg: "target_ok tg" and n: "length ps \<le> 6" "distinct (map (\<lambda>(s, t, a). a) ps)" "\<forall>(s, t, a)\<in>set ps. scalar tg t"
    and regs: "length regs = length ps"
  shows "SyS tg (length ps) (flat ps) SYSC regs s = Some (SYSC (map (\<lambda>((s, t, a), r). the (convert tg t r)) (zip ps regs)) s)"
proof -
  define lng where "lng = (\<lambda>(s :: string, t, a :: string). (if TYPE_IS_LL tg t then Signed CLongLong else Signed CLong, a))"
  define held where "held = map2 (\<lambda>(t, _) r. the (convert tg t r)) (map lng ps) regs"
  let ?names = "map (\<lambda>(s, t, a). a) ps" and ?env = "map_of (zip (map (\<lambda>(s, t, a). a) ps) held)"
  have held: "length held = length ps" using regs by (simp add: held_def)
  have names: "map snd (map lng ps) = ?names" by (auto simp: lng_def case_prod_beta)
  have arrives: "convert tg t (held ! i) = convert tg t (regs ! i)" if "i < length ps" "ps ! i = (s, t, a)" for i s t a
    using that regs n(3) nth_mem [OF that(1)] through_parameter(2) [OF tg, of t s a "fst (lng (s, t, a))" a "regs ! i"]
    by (auto simp: held_def lng_def)
  have env: "\<exists>r. ?env a = Some r" if "(s, t, a) \<in> set ps" for s t a
    using env_lookup [OF n(2) held] that by (metis in_set_conv_nth)
  have M1: "MAP (length ps) (SC_LONG tg) (flat ps) = Some (map lng ps)"
    by (rule MAP_flat [OF n(1)]) (auto simp: lng_def)
  have M2: "MAP (length ps) (SC_CAST tg ?env) (flat ps) = Some (map (\<lambda>(s, t, a). the (convert tg t (the (?env a)))) ps)"
    using env n(3) convert_scalar by (intro MAP_flat [OF n(1)]) fastforce
  have M3: "MAP (length ps) (SC_TEST tg) (flat ps) = Some (map (\<lambda>_. ()) ps)"
    using test_passes [OF tg] n(3) by (intro MAP_flat [OF n(1)]) auto
  have M4: "MAP (length ps) (SC_ARGS ?env) (flat ps) = Some (map (\<lambda>(s, t, a). the (?env a)) ps)"
    using env by (intro MAP_flat [OF n(1)]) fastforce
  have "map (\<lambda>(s, t, a). the (convert tg t (the (?env a)))) ps = map (\<lambda>((s, t, a), r). the (convert tg t r)) (zip ps regs)"
    using env_lookup [OF n(2) held] regs arrives by (intro nth_equalityI) (auto split: prod.split)
  then show ?thesis
    unfolding SyS_def M1 bind.bind_lunit names held_def [symmetric] Let_def M2 using n(2) regs by (simp add: M3 M4 split: prod.split)
qed

text \<open>
  C15. The function that the macros make of a system call hands the body exactly what was meant, for up to six parameters of scalar types, on 32-bit
  and 64-bit machines. A value of the declared type arrives unchanged, although on the way it is a \<open>long\<close> (or \<open>long long\<close>). Whatever
  else is passed, the body only ever gets values of the declared types, each the conversion of its own argument,
  and its result and its effects are those of the system call.
\<close>

theorem syscall_arguments_arrive:
  assumes tg: "target_ok tg" and n: "length ps \<le> 6" "distinct (map (\<lambda>(s, t, a). a) ps)" "\<forall>(s, t, a)\<in>set ps. scalar tg t"
  shows "(\<forall>vs. list_all2 (\<lambda>(s, t, a). value_of tg t) ps vs \<longrightarrow> SyS tg (length ps) (flat ps) SYSC vs st = Some (SYSC vs st))
    \<and> (\<forall>regs. length regs = length ps \<longrightarrow> (\<exists>vs. SyS tg (length ps) (flat ps) SYSC regs st = Some (SYSC vs st)
        \<and> length vs = length ps \<and> (\<forall>i<length ps. case ps ! i of (s, t, a) \<Rightarrow> convert tg t (regs ! i) = Some (vs ! i) \<and> value_of tg t (vs ! i))))"
proof (intro conjI allI impI)
  fix vs
  assume vs: "list_all2 (\<lambda>(s, t, a). value_of tg t) ps vs"
  then have l: "length vs = length ps" by (simp add: list_all2_lengthD)
  have "map (\<lambda>((s, t, a), r). the (convert tg t r)) (zip ps vs) = vs"
    using l list_all2_nthD [OF vs] by (intro nth_equalityI) (fastforce simp: value_of_def split: prod.splits)+
  then show "SyS tg (length ps) (flat ps) SYSC vs st = Some (SYSC vs st)"
    using SyS_calls_body [OF tg n l] by simp
next
  fix regs :: "int list"
  assume l: "length regs = length ps"
  let ?vs = "map (\<lambda>((s, t, a), r). the (convert tg t r)) (zip ps regs)"
  have "case ps ! i of (s, t, a) \<Rightarrow> convert tg t (regs ! i) = Some (?vs ! i) \<and> value_of tg t (?vs ! i)" if i: "i < length ps" for i
  proof -
    obtain s t a where p: "ps ! i = (s, t, a)" by (cases "ps ! i")
    then have "scalar tg t" using n(3) nth_mem [OF i] by auto
    then obtain v where "convert tg t (regs ! i) = Some v" using convert_scalar by blast
    then show ?thesis using p i l convert_value by simp
  qed
  then show "\<exists>vs. SyS tg (length ps) (flat ps) SYSC regs st = Some (SYSC vs st) \<and> length vs = length ps
      \<and> (\<forall>i<length ps. case ps ! i of (s, t, a) \<Rightarrow> convert tg t (regs ! i) = Some (vs ! i) \<and> value_of tg t (vs ! i))"
    using SyS_calls_body [OF tg n l] l by (intro exI [of _ ?vs]) auto
qed

text \<open>\<open>SYSCALL_DEFINE2(f, loff_t, offset, unsigned int, fd)\<close> on a 32-bit machine: the offset of 64 bits arrives whole.\<close>

theorem syscall_arguments_arrive_witness:
  "SyS i386 2 (flat [(''loff_t'', Typedef ''loff_t'', ''offset''), (''unsigned int'', Unsigned CInt, ''fd'')]) (\<lambda>vs s. (sum_list vs, vs # s))
      [0x500000003, 7] [] = Some (0x50000000A, [[0x500000003, 7]])"
proof -
  let ?ps = "[(''loff_t'', Typedef ''loff_t'', ''offset''), (''unsigned int'', Unsigned CInt, ''fd'')]"
  have h: "length ?ps \<le> 6" "distinct (map (\<lambda>(s, t, a). a) ?ps)" "\<forall>(s, t, a)\<in>set ?ps. scalar i386 t"
    by (simp_all add: scalar_def resolve_def i386_def x86_64_def)
  have v: "list_all2 (\<lambda>(s, t, a). value_of i386 t) ?ps [0x500000003, 7]" by code_simp
  have "SyS i386 (length ?ps) (flat ?ps) (\<lambda>vs s. (sum_list vs, vs # s)) [0x500000003, 7] [] = Some (sum_list [0x500000003, 7], [[0x500000003, 7]])"
    by (rule syscall_arguments_arrive [OF i386_ok h, THEN conjunct1, THEN spec, THEN mp, OF v])
  then show ?thesis by (simp add: numeral_2_eq_2)
qed

end
