(* ===== verification/Syscall_Trace.thy ===== *)
theory Syscall_Trace
  imports Syscall_Macros
begin

text \<open>
  What the macros of \<open>include/linux/syscalls.h\<close> leave in an object file for tracing (with \<open>CONFIG_FTRACE_SYSCALLS\<close>), and
  \<open>addr_limit_user_check\<close>. Addresses of static objects are their names; a name defined twice does not compile. The sections
  \<open>_ftrace_events\<close> and \<open>__syscalls_metadata\<close> are lists of addresses.
\<close>

section \<open>Events and metadata\<close>

record trace_event_call =
  ev_class :: string
  ev_name :: string
  ev_funcs :: string
  ev_data :: string
  ev_flags :: string

record syscall_metadata =
  meta_name :: string
  syscall_nr :: int
  nb_args :: nat
  arg_types :: "string list option"
  arg_names :: "string list option"
  enter_event :: string
  exit_event :: string
  enter_fields :: "string list"

record object_file =
  events :: "string \<rightharpoonup> trace_event_call"
  metas :: "string \<rightharpoonup> syscall_metadata"
  ftrace_events :: "string list"
  syscalls_metadata :: "string list"
  symbols :: "string list"

fun SC_STR_ADECL :: "pp_arg \<Rightarrow> pp_arg \<Rightarrow> string option" where
  "SC_STR_ADECL t (Name_arg a) = Some a"
| "SC_STR_ADECL t (Type_arg s _) = Some s"

fun SC_STR_TDECL :: "pp_arg \<Rightarrow> pp_arg \<Rightarrow> string option" where
  "SC_STR_TDECL (Type_arg s t) a = Some s"
| "SC_STR_TDECL (Name_arg n) a = Some n"

text \<open>The names that \<open>##\<close> makes of the name of a system call.\<close>

definition event_enter :: "string \<Rightarrow> string" where "event_enter sname = ''event_enter_'' @ sname"
definition event_exit :: "string \<Rightarrow> string" where "event_exit sname = ''event_exit_'' @ sname"
definition syscall_meta :: "string \<Rightarrow> string" where "syscall_meta sname = ''__syscall_meta_'' @ sname"
definition sys_names :: "string \<Rightarrow> string list" where "sys_names name = [''sys'' @ name, ''SYSC'' @ name, ''SyS'' @ name]"

lemma syms [simp]:
  "event_enter n = event_enter k \<longleftrightarrow> n = k" "event_exit n = event_exit k \<longleftrightarrow> n = k" "syscall_meta n = syscall_meta k \<longleftrightarrow> n = k"
  "event_enter n \<noteq> event_exit k" "event_exit n \<noteq> event_enter k"
  by (auto simp: event_enter_def event_exit_def syscall_meta_def)

lemma sys_names_disjoint: "n \<noteq> k \<Longrightarrow> set (sys_names n) \<inter> set (sys_names k) = {}"
  by (auto simp: sys_names_def)

definition add_event :: "string \<Rightarrow> trace_event_call \<Rightarrow> object_file \<Rightarrow> object_file option" where
  "add_event e ev ob =
     (if events ob e \<noteq> None then None
      else Some (ob\<lparr>events := (events ob)(e \<mapsto> ev), ftrace_events := ftrace_events ob @ [e]\<rparr>))"

definition SYSCALL_TRACE_ENTER_EVENT :: "string \<Rightarrow> object_file \<Rightarrow> object_file option" where
  "SYSCALL_TRACE_ENTER_EVENT sname =
     add_event (event_enter sname)
       \<lparr>ev_class = ''event_class_syscall_enter'', ev_name = ''sys_enter'' @ sname, ev_funcs = ''enter_syscall_print_funcs'',
        ev_data = syscall_meta sname, ev_flags = ''TRACE_EVENT_FL_CAP_ANY''\<rparr>"

definition SYSCALL_TRACE_EXIT_EVENT :: "string \<Rightarrow> object_file \<Rightarrow> object_file option" where
  "SYSCALL_TRACE_EXIT_EVENT sname =
     add_event (event_exit sname)
       \<lparr>ev_class = ''event_class_syscall_exit'', ev_name = ''sys_exit'' @ sname, ev_funcs = ''exit_syscall_print_funcs'',
        ev_data = syscall_meta sname, ev_flags = ''TRACE_EVENT_FL_CAP_ANY''\<rparr>"

text \<open>\<open>ftrace\<close> tells whether \<open>CONFIG_FTRACE_SYSCALLS\<close> is defined.\<close>

definition SYSCALL_METADATA :: "bool \<Rightarrow> string \<Rightarrow> nat \<Rightarrow> pp_arg list \<Rightarrow> object_file \<Rightarrow> object_file option" where
  "SYSCALL_METADATA ftrace sname nb va ob =
     (if \<not> ftrace then Some ob
      else Option.bind (MAP nb SC_STR_TDECL va) (\<lambda>types.
        Option.bind (MAP nb SC_STR_ADECL va) (\<lambda>args.
          Option.bind (SYSCALL_TRACE_ENTER_EVENT sname ob) (\<lambda>ob.
            Option.bind (SYSCALL_TRACE_EXIT_EVENT sname ob) (\<lambda>ob.
              let meta = syscall_meta sname in
              if metas ob meta \<noteq> None then None
              else Some (ob\<lparr>
                metas := (metas ob)(meta \<mapsto>
                  \<lparr>meta_name = ''sys'' @ sname, syscall_nr = - 1, nb_args = nb,
                   arg_types = (if nb \<noteq> 0 then Some types else None), arg_names = (if nb \<noteq> 0 then Some args else None),
                   enter_event = event_enter sname, exit_event = event_exit sname, enter_fields = []\<rparr>),
                syscalls_metadata := syscalls_metadata ob @ [meta]\<rparr>))))))"

definition is_syscall_trace_event :: "bool \<Rightarrow> trace_event_call \<Rightarrow> bool" where
  "is_syscall_trace_event ftrace ev \<longleftrightarrow>
     ftrace \<and> (ev_class ev = ''event_class_syscall_enter'' \<or> ev_class ev = ''event_class_syscall_exit'')"

definition define_functions :: "string list \<Rightarrow> object_file \<Rightarrow> object_file option" where
  "define_functions fs ob =
     (if set fs \<inter> set (symbols ob) \<noteq> {} then None else Some (ob\<lparr>symbols := symbols ob @ fs\<rparr>))"

definition SYSCALL_DEFINE0 :: "bool \<Rightarrow> string \<Rightarrow> object_file \<Rightarrow> object_file option" where
  "SYSCALL_DEFINE0 ftrace sname ob =
     Option.bind (SYSCALL_METADATA ftrace (''_'' @ sname) 0 [] ob) (define_functions [''sys_'' @ sname])"

definition SYSCALL_DEFINE_MAXARGS :: nat where
  "SYSCALL_DEFINE_MAXARGS = 6"

definition SYSCALL_DEFINEx :: "bool \<Rightarrow> nat \<Rightarrow> string \<Rightarrow> pp_arg list \<Rightarrow> object_file \<Rightarrow> object_file option" where
  "SYSCALL_DEFINEx ftrace x sname va ob =
     Option.bind (SYSCALL_METADATA ftrace sname x va ob) (\<lambda>ob.
       Option.bind (MAP x SC_DECL va) (\<lambda>_.
         define_functions (sys_names sname) ob))"

text \<open>\<open>SYSCALL_DEFINE1\<close> to \<open>SYSCALL_DEFINE6\<close>, for a function of the given number of parameters.\<close>

definition SYSCALL_DEFINE :: "bool \<Rightarrow> nat \<Rightarrow> string \<Rightarrow> pp_arg list \<Rightarrow> object_file \<Rightarrow> object_file option" where
  "SYSCALL_DEFINE ftrace x name va ob =
     (if x = 0 then SYSCALL_DEFINE0 ftrace name ob
      else if x \<le> SYSCALL_DEFINE_MAXARGS then SYSCALL_DEFINEx ftrace x (''_'' @ name) va ob
      else None)"

section \<open>A file of system calls\<close>

type_synonym syscall_def = "string \<times> (string \<times> ctype \<times> string) list"

fun compile :: "bool \<Rightarrow> syscall_def list \<Rightarrow> object_file \<Rightarrow> object_file option" where
  "compile ftrace [] ob = Some ob"
| "compile ftrace ((name, ps) # ds) ob =
     Option.bind (SYSCALL_DEFINE ftrace (length ps) name (flat ps) ob) (compile ftrace ds)"

definition empty_object :: object_file where
  "empty_object = \<lparr>events = Map.empty, metas = Map.empty, ftrace_events = [], syscalls_metadata = [], symbols = []\<rparr>"

text \<open>The objects of one system call; here \<open>n\<close> is its name with the underscore before it.\<close>

definition enter_ev :: "string \<Rightarrow> trace_event_call" where
  "enter_ev n = \<lparr>ev_class = ''event_class_syscall_enter'', ev_name = ''sys_enter'' @ n, ev_funcs = ''enter_syscall_print_funcs'',
     ev_data = syscall_meta n, ev_flags = ''TRACE_EVENT_FL_CAP_ANY''\<rparr>"

definition exit_ev :: "string \<Rightarrow> trace_event_call" where
  "exit_ev n = \<lparr>ev_class = ''event_class_syscall_exit'', ev_name = ''sys_exit'' @ n, ev_funcs = ''exit_syscall_print_funcs'',
     ev_data = syscall_meta n, ev_flags = ''TRACE_EVENT_FL_CAP_ANY''\<rparr>"

definition meta_of :: "string \<Rightarrow> (string \<times> ctype \<times> string) list \<Rightarrow> syscall_metadata" where
  "meta_of n ps =
     \<lparr>meta_name = ''sys'' @ n, syscall_nr = - 1, nb_args = length ps, arg_types = (if ps = [] then None else Some (map fst ps)),
      arg_names = (if ps = [] then None else Some (map (\<lambda>(s, t, a). a) ps)),
      enter_event = event_enter n, exit_event = event_exit n, enter_fields = []\<rparr>"

definition has_objects :: "object_file \<Rightarrow> string \<Rightarrow> (string \<times> ctype \<times> string) list \<Rightarrow> bool" where
  "has_objects ob n ps \<longleftrightarrow> events ob (event_enter n) = Some (enter_ev n) \<and> events ob (event_exit n) = Some (exit_ev n)
     \<and> metas ob (syscall_meta n) = Some (meta_of n ps)"

definition fresh_in :: "object_file \<Rightarrow> string \<Rightarrow> bool" where
  "fresh_in ob n \<longleftrightarrow> events ob (event_enter n) = None \<and> events ob (event_exit n) = None \<and> metas ob (syscall_meta n) = None
     \<and> set (sys_names n) \<inter> set (symbols ob) = {}"

definition with_call :: "string \<Rightarrow> (string \<times> ctype \<times> string) list \<Rightarrow> string list \<Rightarrow> object_file \<Rightarrow> object_file" where
  "with_call n ps fs ob = ob\<lparr>events := (events ob)(event_enter n \<mapsto> enter_ev n, event_exit n \<mapsto> exit_ev n),
     ftrace_events := ftrace_events ob @ [event_enter n, event_exit n], metas := (metas ob)(syscall_meta n \<mapsto> meta_of n ps),
     syscalls_metadata := syscalls_metadata ob @ [syscall_meta n], symbols := symbols ob @ fs\<rparr>"

lemma MAP_strings:
  assumes "length ps \<le> 6"
  shows "MAP (length ps) SC_STR_TDECL (flat ps) = Some (map fst ps)"
    "MAP (length ps) SC_STR_ADECL (flat ps) = Some (map (\<lambda>(s, t, a). a) ps)"
    "\<exists>ds. MAP (length ps) SC_DECL (flat ps) = Some ds"
proof -
  show "MAP (length ps) SC_STR_TDECL (flat ps) = Some (map fst ps)" by (rule MAP_flat [OF assms]) auto
  show "MAP (length ps) SC_STR_ADECL (flat ps) = Some (map (\<lambda>(s, t, a). a) ps)" by (rule MAP_flat [OF assms]) auto
  have "MAP (length ps) SC_DECL (flat ps) = Some (map snd ps)" by (rule MAP_flat [OF assms]) auto
  then show "\<exists>ds. MAP (length ps) SC_DECL (flat ps) = Some ds" by blast
qed

lemma metadata_step:
  assumes "length ps \<le> 6" "fresh_in ob n"
  shows "SYSCALL_METADATA True n (length ps) (flat ps) ob = Some (with_call n ps [] ob)"
  using assms(2) MAP_strings(1,2) [OF assms(1)]
  by (simp add: SYSCALL_METADATA_def SYSCALL_TRACE_ENTER_EVENT_def SYSCALL_TRACE_EXIT_EVENT_def add_event_def Let_def fresh_in_def with_call_def
      meta_of_def enter_ev_def exit_ev_def)

lemma with_call_objects:
  "has_objects (with_call n ps fs ob) n ps"
  "k \<noteq> n \<Longrightarrow> has_objects (with_call n ps fs ob) k qs = has_objects ob k qs"
  "k \<noteq> n \<Longrightarrow> set fs \<subseteq> set (sys_names n) \<Longrightarrow> fresh_in ob k \<Longrightarrow> fresh_in (with_call n ps fs ob) k"
  using sys_names_disjoint [of n k] by (auto simp: has_objects_def with_call_def fresh_in_def)

lemma define_step:
  assumes "length ps \<le> 6" "fresh_in ob (''_'' @ n)"
  shows "\<exists>fs. SYSCALL_DEFINE True (length ps) n (flat ps) ob = Some (with_call (''_'' @ n) ps fs ob) \<and> set fs \<subseteq> set (sys_names (''_'' @ n))"
proof (cases ps)
  case Nil
  have "''sys_'' @ n \<in> set (sys_names (''_'' @ n))" by (simp add: sys_names_def)
  then show ?thesis
    using metadata_step [OF assms] assms(2) Nil
    by (intro exI [of _ "[''sys_'' @ n]"]) (auto simp: SYSCALL_DEFINE_def SYSCALL_DEFINE0_def define_functions_def fresh_in_def with_call_def)
next
  case (Cons p qs)
  then show ?thesis
    using metadata_step [OF assms] assms MAP_strings(3) [OF assms(1)]
    by (intro exI [of _ "sys_names (''_'' @ n)"])
      (auto simp: SYSCALL_DEFINE_def SYSCALL_DEFINEx_def SYSCALL_DEFINE_MAXARGS_def define_functions_def fresh_in_def with_call_def)
qed

lemma compile_all:
  assumes "distinct (map fst ds)" "\<forall>(n, ps)\<in>set ds. length ps \<le> 6 \<and> fresh_in ob (''_'' @ n)"
  shows "\<exists>ob'. compile True ds ob = Some ob' \<and> (\<forall>(n, ps)\<in>set ds. has_objects ob' (''_'' @ n) ps)
    \<and> (\<forall>k qs. k \<notin> (\<lambda>d. ''_'' @ fst d) ` set ds \<longrightarrow> has_objects ob' k qs = has_objects ob k qs)
    \<and> ftrace_events ob' = ftrace_events ob @ concat (map (\<lambda>(n, ps). [event_enter (''_'' @ n), event_exit (''_'' @ n)]) ds)
    \<and> syscalls_metadata ob' = syscalls_metadata ob @ map (\<lambda>(n, ps). syscall_meta (''_'' @ n)) ds"
  using assms
proof (induction ds arbitrary: ob)
  case (Cons d ds)
  obtain n ps where d: "d = (n, ps)" by (cases d)
  obtain fs where fs: "SYSCALL_DEFINE True (length ps) n (flat ps) ob = Some (with_call (''_'' @ n) ps fs ob)" "set fs \<subseteq> set (sys_names (''_'' @ n))"
    using define_step [of ps ob n] Cons.prems(2) d by auto
  let ?o = "with_call (''_'' @ n) ps fs ob"
  have "\<forall>(k, qs)\<in>set ds. length qs \<le> 6 \<and> fresh_in ?o (''_'' @ k)"
    using Cons.prems with_call_objects(3) [OF _ fs(2)] d by (force simp: image_iff)
  from Cons.IH [OF _ this] obtain o2 where o2: "compile True ds ?o = Some o2" "\<forall>(n, ps)\<in>set ds. has_objects o2 (''_'' @ n) ps"
    "\<forall>k qs. k \<notin> (\<lambda>d. ''_'' @ fst d) ` set ds \<longrightarrow> has_objects o2 k qs = has_objects ?o k qs"
    "ftrace_events o2 = ftrace_events ?o @ concat (map (\<lambda>(n, ps). [event_enter (''_'' @ n), event_exit (''_'' @ n)]) ds)"
    "syscalls_metadata o2 = syscalls_metadata ?o @ map (\<lambda>(n, ps). syscall_meta (''_'' @ n)) ds" using Cons.prems(1) by auto
  have "has_objects o2 (''_'' @ n) ps"
    using o2(3) with_call_objects(1) [of "''_'' @ n" ps fs ob] Cons.prems(1) d by (auto simp: image_iff)
  moreover have "has_objects o2 k qs = has_objects ob k qs" if "k \<notin> (\<lambda>d. ''_'' @ fst d) ` set (d # ds)" for k qs
    using that o2(3) with_call_objects(2) [of k "''_'' @ n" ps fs ob qs] d by auto
  ultimately show ?case using fs(1) o2 d by (auto simp: with_call_def)
qed simp

text \<open>
  C39. Tracing of system calls is wired up correctly: a file that defines any system calls of different names, each with at most six
  parameters, compiles, and every address in the section \<open>_ftrace_events\<close> is an event that is recognised as a system call event and whose
  data is the metadata of one of the system calls, which points back to that event. The metadata of every
  system call is in its section, with the number, the types and the names of its parameters in their order.
\<close>

theorem trace_events_lead_to_their_call:
  assumes "distinct (map fst ds)" "\<forall>(n, ps)\<in>set ds. length ps \<le> SYSCALL_DEFINE_MAXARGS"
  shows "\<exists>ob. compile True ds empty_object = Some ob
    \<and> (\<forall>e\<in>set (ftrace_events ob). \<exists>ev md. events ob e = Some ev \<and> is_syscall_trace_event True ev \<and> metas ob (ev_data ev) = Some md
         \<and> e = (if ev_class ev = ''event_class_syscall_enter'' then enter_event md else exit_event md))
    \<and> (\<forall>(n, ps)\<in>set ds. syscall_meta (''_'' @ n) \<in> set (syscalls_metadata ob) \<and> (\<exists>md. metas ob (syscall_meta (''_'' @ n)) = Some md
         \<and> meta_name md = ''sys_'' @ n \<and> nb_args md = length ps \<and> {enter_event md, exit_event md} \<subseteq> set (ftrace_events ob)
         \<and> (ps \<noteq> [] \<longrightarrow> arg_types md = Some (map fst ps) \<and> arg_names md = Some (map (\<lambda>(s, t, a). a) ps))))"
proof -
  have "\<forall>(n, ps)\<in>set ds. length ps \<le> 6 \<and> fresh_in empty_object (''_'' @ n)"
    using assms(2) by (auto simp: SYSCALL_DEFINE_MAXARGS_def fresh_in_def empty_object_def)
  from compile_all [OF assms(1) this] obtain ob where ob: "compile True ds empty_object = Some ob" "\<forall>(n, ps)\<in>set ds. has_objects ob (''_'' @ n) ps"
    "ftrace_events ob = concat (map (\<lambda>(n, ps). [event_enter (''_'' @ n), event_exit (''_'' @ n)]) ds)"
    "syscalls_metadata ob = map (\<lambda>(n, ps). syscall_meta (''_'' @ n)) ds"
    by (auto simp: empty_object_def)
  have "\<exists>ev md. events ob e = Some ev \<and> is_syscall_trace_event True ev \<and> metas ob (ev_data ev) = Some md
         \<and> e = (if ev_class ev = ''event_class_syscall_enter'' then enter_event md else exit_event md)" if e_in: "e \<in> set (ftrace_events ob)" for e
  proof -
    obtain n ps where d: "(n, ps) \<in> set ds" and e: "e = event_enter (''_'' @ n) \<or> e = event_exit (''_'' @ n)" using e_in ob(3) by auto
    then have "has_objects ob (''_'' @ n) ps" using ob(2) by blast
    with e show ?thesis by (auto simp: has_objects_def is_syscall_trace_event_def enter_ev_def exit_ev_def meta_of_def)
  qed
  moreover have "case d of (n, ps) \<Rightarrow> syscall_meta (''_'' @ n) \<in> set (syscalls_metadata ob) \<and> (\<exists>md. metas ob (syscall_meta (''_'' @ n)) = Some md
         \<and> meta_name md = ''sys_'' @ n \<and> nb_args md = length ps \<and> {enter_event md, exit_event md} \<subseteq> set (ftrace_events ob)
         \<and> (ps \<noteq> [] \<longrightarrow> arg_types md = Some (map fst ps) \<and> arg_names md = Some (map (\<lambda>(s, t, a). a) ps)))" if "d \<in> set ds" for d
    using that ob(2-4) by (force simp: has_objects_def meta_of_def)
  ultimately show ?thesis using ob(1) by blast
qed

theorem trace_events_lead_to_their_call_witness:
  "\<exists>ob md. compile True [(''sync'', []), (''close'', [(''unsigned int'', Unsigned CInt, ''fd'')])] empty_object = Some ob
    \<and> metas ob (syscall_meta ''_close'') = Some md \<and> arg_names md = Some [''fd''] \<and> nb_args md = 1"
  using trace_events_lead_to_their_call [of "[(''sync'', []), (''close'', [(''unsigned int'', Unsigned CInt, ''fd'')])]"]
  by (auto simp: SYSCALL_DEFINE_MAXARGS_def simp del: compile.simps)

section \<open>Returning to user mode\<close>

text \<open>
  \<open>tif\<close> tells whether \<open>TIF_FSCHECK\<close> is defined, \<open>bug\<close> whether \<open>CHECK_DATA_CORRUPTION\<close> stops the kernel (\<^term>\<open>None\<close>) instead of
  only warning. Segments are numbers.
\<close>

record user_thread =
  addr_limit :: nat
  fscheck :: bool
  killed :: bool

definition addr_limit_user_check :: "bool \<Rightarrow> bool \<Rightarrow> nat \<Rightarrow> user_thread \<Rightarrow> user_thread option" where
  "addr_limit_user_check tif bug USER_DS th =
     (if tif \<and> \<not> fscheck th then Some th
      else let corruption = addr_limit th \<noteq> USER_DS in
        if corruption \<and> bug then None
        else let th = (if corruption then th\<lparr>killed := True\<rparr> else th) in
          Some (if tif then th\<lparr>fscheck := False\<rparr> else th))"

text \<open>Documented of \<open>set_fs\<close>: it sets the limit, and asks for the check where there is such a flag.\<close>

definition set_fs_ok :: "bool \<Rightarrow> (nat \<Rightarrow> user_thread \<Rightarrow> user_thread) \<Rightarrow> bool" where
  "set_fs_ok tif set_fs \<longleftrightarrow> (\<forall>v th. addr_limit (set_fs v th) = v \<and> (tif \<longrightarrow> fscheck (set_fs v th)) \<and> killed (set_fs v th) = killed th)"

datatype kernel_entry = Set_fs nat | Return_to_user

fun run_entries :: "bool \<Rightarrow> bool \<Rightarrow> nat \<Rightarrow> (nat \<Rightarrow> user_thread \<Rightarrow> user_thread) \<Rightarrow> kernel_entry list \<Rightarrow> user_thread \<Rightarrow> user_thread option" where
  "run_entries tif bug USER_DS set_fs [] th = Some th"
| "run_entries tif bug USER_DS set_fs (Set_fs v # es) th = run_entries tif bug USER_DS set_fs es (set_fs v th)"
| "run_entries tif bug USER_DS set_fs (Return_to_user # es) th =
     Option.bind (addr_limit_user_check tif bug USER_DS th) (run_entries tif bug USER_DS set_fs es)"

definition limit_checked :: "bool \<Rightarrow> nat \<Rightarrow> user_thread \<Rightarrow> bool" where
  "limit_checked tif USER_DS th \<longleftrightarrow> addr_limit th = USER_DS \<or> killed th \<or> (tif \<longrightarrow> fscheck th)"

lemma user_check_keeps:
  assumes "limit_checked tif USER_DS th" "addr_limit_user_check tif bug USER_DS th = Some th'"
  shows "addr_limit th' = USER_DS \<or> killed th'"
  using assms by (auto simp: limit_checked_def addr_limit_user_check_def Let_def split: if_splits)

text \<open>
  However the kernel changes the address limit of a thread in between, a thread that gets back to user mode has the limit of user
  mode, or it is killed.
\<close>

theorem user_mode_limit:
  assumes "set_fs_ok tif set_fs" "limit_checked tif USER_DS th"
    and "run_entries tif bug USER_DS set_fs (es @ [Return_to_user]) th = Some th'"
  shows "addr_limit th' = USER_DS \<or> killed th'"
  using assms(2,3)
proof (induction es arbitrary: th)
  case Nil
  then show ?case using user_check_keeps by (cases "addr_limit_user_check tif bug USER_DS th") auto
next
  case (Cons e es)
  show ?case
  proof (cases e)
    case (Set_fs v)
    have "limit_checked tif USER_DS (set_fs v th)" using assms(1) by (simp add: set_fs_ok_def limit_checked_def)
    then show ?thesis using Cons Set_fs by simp
  next
    case Return_to_user
    then obtain u where u: "addr_limit_user_check tif bug USER_DS th = Some u"
      "run_entries tif bug USER_DS set_fs (es @ [Return_to_user]) u = Some th'"
      using Cons.prems(2) by (auto simp: bind_eq_Some_conv)
    then show ?thesis using Cons.IH [OF _ u(2)] user_check_keeps [OF Cons.prems(1) u(1)] by (auto simp: limit_checked_def)
  qed
qed

theorem user_mode_limit_witness:
  "\<exists>th'. run_entries True False 1 (\<lambda>v th. th\<lparr>addr_limit := v, fscheck := True\<rparr>) ([Set_fs 0] @ [Return_to_user])
      \<lparr>addr_limit = 1, fscheck = False, killed = False\<rparr> = Some th' \<and> (addr_limit th' = 1 \<or> killed th')"
proof -
  let ?f = "\<lambda>v th. th\<lparr>addr_limit := v, fscheck := True\<rparr>" and ?th = "\<lparr>addr_limit = 1, fscheck = False, killed = False\<rparr>"
  have ok: "set_fs_ok True ?f" "limit_checked True 1 ?th" by (simp_all add: set_fs_ok_def limit_checked_def)
  obtain th' where "run_entries True False 1 ?f ([Set_fs 0] @ [Return_to_user]) ?th = Some th'"
    by (simp add: addr_limit_user_check_def)
  then show ?thesis using user_mode_limit [OF ok] by blast
qed

end
