(* ===== verification/Syscall_Prototypes.thy ===== *)
theory Syscall_Prototypes
  imports Syscall_Macros
begin

text \<open>
  The declarations of the system call functions in \<open>include/linux/syscalls.h\<close>, in the order of the file and cut at its conditions. Every function
  returns \<open>long\<close>; a declaration is the name of the function with the types and names of the parameters, where a parameter without a name has the
  empty one. \<open>declared_tags\<close> are the structures and unions announced at the beginning of the file. The lemmas show that all of these functions can be
  defined with the macros of \<open>Syscall_Macros\<close>.
\<close>

type_synonym prototype = "string \<times> (ctype \<times> string) list"

definition declared_tags :: "ctype list" where
  "declared_tags = [
    Struct ''epoll_event'', Struct ''iattr'', Struct ''inode'', Struct ''iocb'', Struct ''io_event'', Struct ''iovec'',
    Struct ''itimerspec'', Struct ''itimerval'', Struct ''kexec_segment'', Struct ''linux_dirent'', Struct ''linux_dirent64'',
    Struct ''list_head'', Struct ''mmap_arg_struct'', Struct ''msgbuf'', Struct ''user_msghdr'', Struct ''mmsghdr'', Struct ''msqid_ds'',
    Struct ''new_utsname'', Struct ''nfsctl_arg'', Struct ''__old_kernel_stat'', Struct ''oldold_utsname'', Struct ''old_utsname'',
    Struct ''pollfd'', Struct ''rlimit'', Struct ''rlimit64'', Struct ''rusage'', Struct ''sched_param'', Struct ''sched_attr'',
    Struct ''sel_arg_struct'', Struct ''semaphore'', Struct ''sembuf'', Struct ''shmid_ds'', Struct ''sockaddr'', Struct ''stat'',
    Struct ''stat64'', Struct ''statfs'', Struct ''statfs64'', Struct ''statx'', Struct ''__sysctl_args'', Struct ''sysinfo'',
    Struct ''timespec'', Struct ''timeval'', Struct ''timex'', Struct ''timezone'', Struct ''tms'', Struct ''utimbuf'', Struct ''mq_attr'',
    Struct ''compat_stat'', Struct ''compat_timeval'', Struct ''robust_list_head'', Struct ''getcpu_cache'', Struct ''old_linux_dirent'',
    Struct ''perf_event_attr'', Struct ''file_handle'', Struct ''sigaltstack'', Union ''bpf_attr'']"

definition prototypes_1 :: "(condition \<times> prototype list) list" where
  "prototypes_1 = [
      (Always, [
        (''sys32_quotactl'', [(Unsigned CInt, ''cmd''), (Ptr (Signed CChar), ''special''), (Typedef ''qid_t'', ''id''), (Ptr Void, ''addr'')]),
        (''sys_time'', [(Ptr (Typedef ''time_t''), ''tloc'')]),
        (''sys_stime'', [(Ptr (Typedef ''time_t''), ''tptr'')]),
        (''sys_gettimeofday'', [(Ptr (Struct ''timeval''), ''tv''), (Ptr (Struct ''timezone''), ''tz'')]),
        (''sys_settimeofday'', [(Ptr (Struct ''timeval''), ''tv''), (Ptr (Struct ''timezone''), ''tz'')]),
        (''sys_adjtimex'', [(Ptr (Struct ''timex''), ''txc_p'')]),
        (''sys_times'', [(Ptr (Struct ''tms''), ''tbuf'')]),
        (''sys_gettid'', []),
        (''sys_nanosleep'', [(Ptr (Struct ''timespec''), ''rqtp''), (Ptr (Struct ''timespec''), ''rmtp'')]),
        (''sys_alarm'', [(Unsigned CInt, ''seconds'')]),
        (''sys_getpid'', []),
        (''sys_getppid'', []),
        (''sys_getuid'', []),
        (''sys_geteuid'', []),
        (''sys_getgid'', []),
        (''sys_getegid'', []),
        (''sys_getresuid'', [(Ptr (Typedef ''uid_t''), ''ruid''), (Ptr (Typedef ''uid_t''), ''euid''), (Ptr (Typedef ''uid_t''), ''suid'')]),
        (''sys_getresgid'', [(Ptr (Typedef ''gid_t''), ''rgid''), (Ptr (Typedef ''gid_t''), ''egid''), (Ptr (Typedef ''gid_t''), ''sgid'')]),
        (''sys_getpgid'', [(Typedef ''pid_t'', ''pid'')]),
        (''sys_getpgrp'', []),
        (''sys_getsid'', [(Typedef ''pid_t'', ''pid'')]),
        (''sys_getgroups'', [(Signed CInt, ''gidsetsize''), (Ptr (Typedef ''gid_t''), ''grouplist'')]),
        (''sys_setregid'', [(Typedef ''gid_t'', ''rgid''), (Typedef ''gid_t'', ''egid'')]),
        (''sys_setgid'', [(Typedef ''gid_t'', ''gid'')]),
        (''sys_setreuid'', [(Typedef ''uid_t'', ''ruid''), (Typedef ''uid_t'', ''euid'')]),
        (''sys_setuid'', [(Typedef ''uid_t'', ''uid'')]),
        (''sys_setresuid'', [(Typedef ''uid_t'', ''ruid''), (Typedef ''uid_t'', ''euid''), (Typedef ''uid_t'', ''suid'')]),
        (''sys_setresgid'', [(Typedef ''gid_t'', ''rgid''), (Typedef ''gid_t'', ''egid''), (Typedef ''gid_t'', ''sgid'')]),
        (''sys_setfsuid'', [(Typedef ''uid_t'', ''uid'')]),
        (''sys_setfsgid'', [(Typedef ''gid_t'', ''gid'')]),
        (''sys_setpgid'', [(Typedef ''pid_t'', ''pid''), (Typedef ''pid_t'', ''pgid'')]),
        (''sys_setsid'', []),
        (''sys_setgroups'', [(Signed CInt, ''gidsetsize''), (Ptr (Typedef ''gid_t''), ''grouplist'')]),
        (''sys_acct'', [(Ptr (Signed CChar), ''name'')]),
        (''sys_capget'', [(Typedef ''cap_user_header_t'', ''header''), (Typedef ''cap_user_data_t'', ''dataptr'')]),
        (''sys_capset'', [(Typedef ''cap_user_header_t'', ''header''), (Typedef ''cap_user_data_t'', ''data'')]),
        (''sys_personality'', [(Unsigned CInt, ''personality'')]),
        (''sys_sigpending'', [(Ptr (Typedef ''old_sigset_t''), ''set'')]),
        (''sys_sigprocmask'', [(Signed CInt, ''how''), (Ptr (Typedef ''old_sigset_t''), ''set''), (Ptr (Typedef ''old_sigset_t''), ''oset'')]),
        (''sys_sigaltstack'', [(Ptr (Struct ''sigaltstack''), ''uss''), (Ptr (Struct ''sigaltstack''), ''uoss'')]),
        (''sys_getitimer'', [(Signed CInt, ''which''), (Ptr (Struct ''itimerval''), ''value'')]),
        (''sys_setitimer'', [(Signed CInt, ''which''), (Ptr (Struct ''itimerval''), ''value''), (Ptr (Struct ''itimerval''), ''ovalue'')]),
        (''sys_timer_create'', [(Typedef ''clockid_t'', ''which_clock''), (Ptr (Struct ''sigevent''), ''timer_event_spec''),
          (Ptr (Typedef ''timer_t''), ''created_timer_id'')]),
        (''sys_timer_gettime'', [(Typedef ''timer_t'', ''timer_id''), (Ptr (Struct ''itimerspec''), ''setting'')]),
        (''sys_timer_getoverrun'', [(Typedef ''timer_t'', ''timer_id'')]),
        (''sys_timer_settime'', [(Typedef ''timer_t'', ''timer_id''), (Signed CInt, ''flags''), (Ptr (Struct ''itimerspec''), ''new_setting''),
          (Ptr (Struct ''itimerspec''), ''old_setting'')]),
        (''sys_timer_delete'', [(Typedef ''timer_t'', ''timer_id'')]),
        (''sys_clock_settime'', [(Typedef ''clockid_t'', ''which_clock''), (Ptr (Struct ''timespec''), ''tp'')]),
        (''sys_clock_gettime'', [(Typedef ''clockid_t'', ''which_clock''), (Ptr (Struct ''timespec''), ''tp'')]),
        (''sys_clock_adjtime'', [(Typedef ''clockid_t'', ''which_clock''), (Ptr (Struct ''timex''), ''tx'')]),
        (''sys_clock_getres'', [(Typedef ''clockid_t'', ''which_clock''), (Ptr (Struct ''timespec''), ''tp'')]),
        (''sys_clock_nanosleep'', [(Typedef ''clockid_t'', ''which_clock''), (Signed CInt, ''flags''), (Ptr (Struct ''timespec''), ''rqtp''),
          (Ptr (Struct ''timespec''), ''rmtp'')]),
        (''sys_nice'', [(Signed CInt, ''increment'')]),
        (''sys_sched_setscheduler'', [(Typedef ''pid_t'', ''pid''), (Signed CInt, ''policy''), (Ptr (Struct ''sched_param''), ''param'')]),
        (''sys_sched_setparam'', [(Typedef ''pid_t'', ''pid''), (Ptr (Struct ''sched_param''), ''param'')]),
        (''sys_sched_setattr'', [(Typedef ''pid_t'', ''pid''), (Ptr (Struct ''sched_attr''), ''attr''), (Unsigned CInt, ''flags'')]),
        (''sys_sched_getscheduler'', [(Typedef ''pid_t'', ''pid'')])])]"

definition prototypes_2 :: "(condition \<times> prototype list) list" where
  "prototypes_2 = [
      (Always, [
        (''sys_sched_getparam'', [(Typedef ''pid_t'', ''pid''), (Ptr (Struct ''sched_param''), ''param'')]),
        (''sys_sched_getattr'', [(Typedef ''pid_t'', ''pid''), (Ptr (Struct ''sched_attr''), ''attr''), (Unsigned CInt, ''size''),
          (Unsigned CInt, ''flags'')]),
        (''sys_sched_setaffinity'', [(Typedef ''pid_t'', ''pid''), (Unsigned CInt, ''len''), (Ptr (Unsigned CLong), ''user_mask_ptr'')]),
        (''sys_sched_getaffinity'', [(Typedef ''pid_t'', ''pid''), (Unsigned CInt, ''len''), (Ptr (Unsigned CLong), ''user_mask_ptr'')]),
        (''sys_sched_yield'', []),
        (''sys_sched_get_priority_max'', [(Signed CInt, ''policy'')]),
        (''sys_sched_get_priority_min'', [(Signed CInt, ''policy'')]),
        (''sys_sched_rr_get_interval'', [(Typedef ''pid_t'', ''pid''), (Ptr (Struct ''timespec''), ''interval'')]),
        (''sys_setpriority'', [(Signed CInt, ''which''), (Signed CInt, ''who''), (Signed CInt, ''niceval'')]),
        (''sys_getpriority'', [(Signed CInt, ''which''), (Signed CInt, ''who'')]),
        (''sys_shutdown'', [(Signed CInt, ''''), (Signed CInt, '''')]),
        (''sys_reboot'', [(Signed CInt, ''magic1''), (Signed CInt, ''magic2''), (Unsigned CInt, ''cmd''), (Ptr Void, ''arg'')]),
        (''sys_restart_syscall'', []),
        (''sys_kexec_load'', [(Unsigned CLong, ''entry''), (Unsigned CLong, ''nr_segments''), (Ptr (Struct ''kexec_segment''), ''segments''),
          (Unsigned CLong, ''flags'')]),
        (''sys_kexec_file_load'', [(Signed CInt, ''kernel_fd''), (Signed CInt, ''initrd_fd''), (Unsigned CLong, ''cmdline_len''),
          (Ptr (Signed CChar), ''cmdline_ptr''), (Unsigned CLong, ''flags'')]),
        (''sys_exit'', [(Signed CInt, ''error_code'')]),
        (''sys_exit_group'', [(Signed CInt, ''error_code'')]),
        (''sys_wait4'', [(Typedef ''pid_t'', ''pid''), (Ptr (Signed CInt), ''stat_addr''), (Signed CInt, ''options''),
          (Ptr (Struct ''rusage''), ''ru'')]),
        (''sys_waitid'', [(Signed CInt, ''which''), (Typedef ''pid_t'', ''pid''), (Ptr (Struct ''siginfo''), ''infop''), (Signed CInt, ''options''),
          (Ptr (Struct ''rusage''), ''ru'')]),
        (''sys_waitpid'', [(Typedef ''pid_t'', ''pid''), (Ptr (Signed CInt), ''stat_addr''), (Signed CInt, ''options'')]),
        (''sys_set_tid_address'', [(Ptr (Signed CInt), ''tidptr'')]),
        (''sys_futex'', [(Ptr (Typedef ''u32''), ''uaddr''), (Signed CInt, ''op''), (Typedef ''u32'', ''val''),
          (Ptr (Struct ''timespec''), ''utime''), (Ptr (Typedef ''u32''), ''uaddr2''), (Typedef ''u32'', ''val3'')]),
        (''sys_init_module'', [(Ptr Void, ''umod''), (Unsigned CLong, ''len''), (Ptr (Signed CChar), ''uargs'')]),
        (''sys_delete_module'', [(Ptr (Signed CChar), ''name_user''), (Unsigned CInt, ''flags'')])]),
      (Ifdef ''CONFIG_OLD_SIGSUSPEND'', [
        (''sys_sigsuspend'', [(Typedef ''old_sigset_t'', ''mask'')])]),
      (Ifdef ''CONFIG_OLD_SIGSUSPEND3'', [
        (''sys_sigsuspend'', [(Signed CInt, ''unused1''), (Signed CInt, ''unused2''), (Typedef ''old_sigset_t'', ''mask'')])]),
      (Always, [
        (''sys_rt_sigsuspend'', [(Ptr (Typedef ''sigset_t''), ''unewset''), (Typedef ''size_t'', ''sigsetsize'')])]),
      (Ifdef ''CONFIG_OLD_SIGACTION'', [
        (''sys_sigaction'', [(Signed CInt, ''''), (Ptr (Struct ''old_sigaction''), ''''), (Ptr (Struct ''old_sigaction''), '''')])]),
      (Unless (Ifdef ''CONFIG_ODD_RT_SIGACTION''), [
        (''sys_rt_sigaction'', [(Signed CInt, ''''), (Ptr (Struct ''sigaction''), ''''), (Ptr (Struct ''sigaction''), ''''),
          (Typedef ''size_t'', '''')])]),
      (Always, [
        (''sys_rt_sigprocmask'', [(Signed CInt, ''how''), (Ptr (Typedef ''sigset_t''), ''set''), (Ptr (Typedef ''sigset_t''), ''oset''),
          (Typedef ''size_t'', ''sigsetsize'')]),
        (''sys_rt_sigpending'', [(Ptr (Typedef ''sigset_t''), ''set''), (Typedef ''size_t'', ''sigsetsize'')]),
        (''sys_rt_sigtimedwait'', [(Ptr (Typedef ''sigset_t''), ''uthese''), (Ptr (Typedef ''siginfo_t''), ''uinfo''),
          (Ptr (Struct ''timespec''), ''uts''), (Typedef ''size_t'', ''sigsetsize'')]),
        (''sys_rt_tgsigqueueinfo'', [(Typedef ''pid_t'', ''tgid''), (Typedef ''pid_t'', ''pid''), (Signed CInt, ''sig''),
          (Ptr (Typedef ''siginfo_t''), ''uinfo'')]),
        (''sys_kill'', [(Typedef ''pid_t'', ''pid''), (Signed CInt, ''sig'')]),
        (''sys_tgkill'', [(Typedef ''pid_t'', ''tgid''), (Typedef ''pid_t'', ''pid''), (Signed CInt, ''sig'')]),
        (''sys_tkill'', [(Typedef ''pid_t'', ''pid''), (Signed CInt, ''sig'')]),
        (''sys_rt_sigqueueinfo'', [(Typedef ''pid_t'', ''pid''), (Signed CInt, ''sig''), (Ptr (Typedef ''siginfo_t''), ''uinfo'')]),
        (''sys_sgetmask'', []),
        (''sys_ssetmask'', [(Signed CInt, ''newmask'')]),
        (''sys_signal'', [(Signed CInt, ''sig''), (Typedef ''__sighandler_t'', ''handler'')]),
        (''sys_pause'', []),
        (''sys_sync'', []),
        (''sys_fsync'', [(Unsigned CInt, ''fd'')])])]"

definition prototypes_3 :: "(condition \<times> prototype list) list" where
  "prototypes_3 = [
      (Always, [
        (''sys_fdatasync'', [(Unsigned CInt, ''fd'')]),
        (''sys_bdflush'', [(Signed CInt, ''func''), (Signed CLong, ''data'')]),
        (''sys_mount'', [(Ptr (Signed CChar), ''dev_name''), (Ptr (Signed CChar), ''dir_name''), (Ptr (Signed CChar), ''type''),
          (Unsigned CLong, ''flags''), (Ptr Void, ''data'')]),
        (''sys_umount'', [(Ptr (Signed CChar), ''name''), (Signed CInt, ''flags'')]),
        (''sys_oldumount'', [(Ptr (Signed CChar), ''name'')]),
        (''sys_truncate'', [(Ptr (Signed CChar), ''path''), (Signed CLong, ''length'')]),
        (''sys_ftruncate'', [(Unsigned CInt, ''fd''), (Unsigned CLong, ''length'')]),
        (''sys_stat'', [(Ptr (Signed CChar), ''filename''), (Ptr (Struct ''__old_kernel_stat''), ''statbuf'')]),
        (''sys_statfs'', [(Ptr (Signed CChar), ''path''), (Ptr (Struct ''statfs''), ''buf'')]),
        (''sys_statfs64'', [(Ptr (Signed CChar), ''path''), (Typedef ''size_t'', ''sz''), (Ptr (Struct ''statfs64''), ''buf'')]),
        (''sys_fstatfs'', [(Unsigned CInt, ''fd''), (Ptr (Struct ''statfs''), ''buf'')]),
        (''sys_fstatfs64'', [(Unsigned CInt, ''fd''), (Typedef ''size_t'', ''sz''), (Ptr (Struct ''statfs64''), ''buf'')]),
        (''sys_lstat'', [(Ptr (Signed CChar), ''filename''), (Ptr (Struct ''__old_kernel_stat''), ''statbuf'')]),
        (''sys_fstat'', [(Unsigned CInt, ''fd''), (Ptr (Struct ''__old_kernel_stat''), ''statbuf'')]),
        (''sys_newstat'', [(Ptr (Signed CChar), ''filename''), (Ptr (Struct ''stat''), ''statbuf'')]),
        (''sys_newlstat'', [(Ptr (Signed CChar), ''filename''), (Ptr (Struct ''stat''), ''statbuf'')]),
        (''sys_newfstat'', [(Unsigned CInt, ''fd''), (Ptr (Struct ''stat''), ''statbuf'')]),
        (''sys_ustat'', [(Unsigned CInt, ''dev''), (Ptr (Struct ''ustat''), ''ubuf'')])]),
      (Either (Ifdef ''__ARCH_WANT_STAT64'') (Ifdef ''__ARCH_WANT_COMPAT_STAT64''), [
        (''sys_stat64'', [(Ptr (Signed CChar), ''filename''), (Ptr (Struct ''stat64''), ''statbuf'')]),
        (''sys_fstat64'', [(Unsigned CLong, ''fd''), (Ptr (Struct ''stat64''), ''statbuf'')]),
        (''sys_lstat64'', [(Ptr (Signed CChar), ''filename''), (Ptr (Struct ''stat64''), ''statbuf'')]),
        (''sys_fstatat64'', [(Signed CInt, ''dfd''), (Ptr (Signed CChar), ''filename''), (Ptr (Struct ''stat64''), ''statbuf''),
          (Signed CInt, ''flag'')])]),
      (Bits32, [
        (''sys_truncate64'', [(Ptr (Signed CChar), ''path''), (Typedef ''loff_t'', ''length'')]),
        (''sys_ftruncate64'', [(Unsigned CInt, ''fd''), (Typedef ''loff_t'', ''length'')])]),
      (Always, [
        (''sys_setxattr'', [(Ptr (Signed CChar), ''path''), (Ptr (Signed CChar), ''name''), (Ptr Void, ''value''), (Typedef ''size_t'', ''size''),
          (Signed CInt, ''flags'')]),
        (''sys_lsetxattr'', [(Ptr (Signed CChar), ''path''), (Ptr (Signed CChar), ''name''), (Ptr Void, ''value''), (Typedef ''size_t'', ''size''),
          (Signed CInt, ''flags'')]),
        (''sys_fsetxattr'', [(Signed CInt, ''fd''), (Ptr (Signed CChar), ''name''), (Ptr Void, ''value''), (Typedef ''size_t'', ''size''),
          (Signed CInt, ''flags'')]),
        (''sys_getxattr'', [(Ptr (Signed CChar), ''path''), (Ptr (Signed CChar), ''name''), (Ptr Void, ''value''), (Typedef ''size_t'', ''size'')]),
        (''sys_lgetxattr'', [(Ptr (Signed CChar), ''path''), (Ptr (Signed CChar), ''name''), (Ptr Void, ''value''), (Typedef ''size_t'', ''size'')]),
        (''sys_fgetxattr'', [(Signed CInt, ''fd''), (Ptr (Signed CChar), ''name''), (Ptr Void, ''value''), (Typedef ''size_t'', ''size'')]),
        (''sys_listxattr'', [(Ptr (Signed CChar), ''path''), (Ptr (Signed CChar), ''list''), (Typedef ''size_t'', ''size'')]),
        (''sys_llistxattr'', [(Ptr (Signed CChar), ''path''), (Ptr (Signed CChar), ''list''), (Typedef ''size_t'', ''size'')]),
        (''sys_flistxattr'', [(Signed CInt, ''fd''), (Ptr (Signed CChar), ''list''), (Typedef ''size_t'', ''size'')]),
        (''sys_removexattr'', [(Ptr (Signed CChar), ''path''), (Ptr (Signed CChar), ''name'')]),
        (''sys_lremovexattr'', [(Ptr (Signed CChar), ''path''), (Ptr (Signed CChar), ''name'')]),
        (''sys_fremovexattr'', [(Signed CInt, ''fd''), (Ptr (Signed CChar), ''name'')]),
        (''sys_brk'', [(Unsigned CLong, ''brk'')]),
        (''sys_mprotect'', [(Unsigned CLong, ''start''), (Typedef ''size_t'', ''len''), (Unsigned CLong, ''prot'')]),
        (''sys_mremap'', [(Unsigned CLong, ''addr''), (Unsigned CLong, ''old_len''), (Unsigned CLong, ''new_len''), (Unsigned CLong, ''flags''),
          (Unsigned CLong, ''new_addr'')]),
        (''sys_remap_file_pages'', [(Unsigned CLong, ''start''), (Unsigned CLong, ''size''), (Unsigned CLong, ''prot''),
          (Unsigned CLong, ''pgoff''), (Unsigned CLong, ''flags'')]),
        (''sys_msync'', [(Unsigned CLong, ''start''), (Typedef ''size_t'', ''len''), (Signed CInt, ''flags'')]),
        (''sys_fadvise64'', [(Signed CInt, ''fd''), (Typedef ''loff_t'', ''offset''), (Typedef ''size_t'', ''len''), (Signed CInt, ''advice'')]),
        (''sys_fadvise64_64'', [(Signed CInt, ''fd''), (Typedef ''loff_t'', ''offset''), (Typedef ''loff_t'', ''len''), (Signed CInt, ''advice'')]),
        (''sys_munmap'', [(Unsigned CLong, ''addr''), (Typedef ''size_t'', ''len'')]),
        (''sys_mlock'', [(Unsigned CLong, ''start''), (Typedef ''size_t'', ''len'')]),
        (''sys_munlock'', [(Unsigned CLong, ''start''), (Typedef ''size_t'', ''len'')]),
        (''sys_mlockall'', [(Signed CInt, ''flags'')]),
        (''sys_munlockall'', []),
        (''sys_madvise'', [(Unsigned CLong, ''start''), (Typedef ''size_t'', ''len''), (Signed CInt, ''behavior'')]),
        (''sys_mincore'', [(Unsigned CLong, ''start''), (Typedef ''size_t'', ''len''), (Ptr (Unsigned CChar), ''vec'')]),
        (''sys_pivot_root'', [(Ptr (Signed CChar), ''new_root''), (Ptr (Signed CChar), ''put_old'')]),
        (''sys_chroot'', [(Ptr (Signed CChar), ''filename'')])])]"

definition prototypes_4 :: "(condition \<times> prototype list) list" where
  "prototypes_4 = [
      (Always, [
        (''sys_mknod'', [(Ptr (Signed CChar), ''filename''), (Typedef ''umode_t'', ''mode''), (Unsigned CInt, ''dev'')]),
        (''sys_link'', [(Ptr (Signed CChar), ''oldname''), (Ptr (Signed CChar), ''newname'')]),
        (''sys_symlink'', [(Ptr (Signed CChar), ''old''), (Ptr (Signed CChar), ''new'')]),
        (''sys_unlink'', [(Ptr (Signed CChar), ''pathname'')]),
        (''sys_rename'', [(Ptr (Signed CChar), ''oldname''), (Ptr (Signed CChar), ''newname'')]),
        (''sys_chmod'', [(Ptr (Signed CChar), ''filename''), (Typedef ''umode_t'', ''mode'')]),
        (''sys_fchmod'', [(Unsigned CInt, ''fd''), (Typedef ''umode_t'', ''mode'')]),
        (''sys_fcntl'', [(Unsigned CInt, ''fd''), (Unsigned CInt, ''cmd''), (Unsigned CLong, ''arg'')])]),
      (Bits32, [
        (''sys_fcntl64'', [(Unsigned CInt, ''fd''), (Unsigned CInt, ''cmd''), (Unsigned CLong, ''arg'')])]),
      (Always, [
        (''sys_pipe'', [(Ptr (Signed CInt), ''fildes'')]),
        (''sys_pipe2'', [(Ptr (Signed CInt), ''fildes''), (Signed CInt, ''flags'')]),
        (''sys_dup'', [(Unsigned CInt, ''fildes'')]),
        (''sys_dup2'', [(Unsigned CInt, ''oldfd''), (Unsigned CInt, ''newfd'')]),
        (''sys_dup3'', [(Unsigned CInt, ''oldfd''), (Unsigned CInt, ''newfd''), (Signed CInt, ''flags'')]),
        (''sys_ioperm'', [(Unsigned CLong, ''from''), (Unsigned CLong, ''num''), (Signed CInt, ''on'')]),
        (''sys_ioctl'', [(Unsigned CInt, ''fd''), (Unsigned CInt, ''cmd''), (Unsigned CLong, ''arg'')]),
        (''sys_flock'', [(Unsigned CInt, ''fd''), (Unsigned CInt, ''cmd'')]),
        (''sys_io_setup'', [(Unsigned CInt, ''nr_reqs''), (Ptr (Typedef ''aio_context_t''), ''ctx'')]),
        (''sys_io_destroy'', [(Typedef ''aio_context_t'', ''ctx'')]),
        (''sys_io_getevents'', [(Typedef ''aio_context_t'', ''ctx_id''), (Signed CLong, ''min_nr''), (Signed CLong, ''nr''),
          (Ptr (Struct ''io_event''), ''events''), (Ptr (Struct ''timespec''), ''timeout'')]),
        (''sys_io_submit'', [(Typedef ''aio_context_t'', ''''), (Signed CLong, ''''), (Ptr (Ptr (Struct ''iocb'')), '''')]),
        (''sys_io_cancel'', [(Typedef ''aio_context_t'', ''ctx_id''), (Ptr (Struct ''iocb''), ''iocb''), (Ptr (Struct ''io_event''), ''result'')]),
        (''sys_sendfile'', [(Signed CInt, ''out_fd''), (Signed CInt, ''in_fd''), (Ptr (Typedef ''off_t''), ''offset''),
          (Typedef ''size_t'', ''count'')]),
        (''sys_sendfile64'', [(Signed CInt, ''out_fd''), (Signed CInt, ''in_fd''), (Ptr (Typedef ''loff_t''), ''offset''),
          (Typedef ''size_t'', ''count'')]),
        (''sys_readlink'', [(Ptr (Signed CChar), ''path''), (Ptr (Signed CChar), ''buf''), (Signed CInt, ''bufsiz'')]),
        (''sys_creat'', [(Ptr (Signed CChar), ''pathname''), (Typedef ''umode_t'', ''mode'')]),
        (''sys_open'', [(Ptr (Signed CChar), ''filename''), (Signed CInt, ''flags''), (Typedef ''umode_t'', ''mode'')]),
        (''sys_close'', [(Unsigned CInt, ''fd'')]),
        (''sys_access'', [(Ptr (Signed CChar), ''filename''), (Signed CInt, ''mode'')]),
        (''sys_vhangup'', []),
        (''sys_chown'', [(Ptr (Signed CChar), ''filename''), (Typedef ''uid_t'', ''user''), (Typedef ''gid_t'', ''group'')]),
        (''sys_lchown'', [(Ptr (Signed CChar), ''filename''), (Typedef ''uid_t'', ''user''), (Typedef ''gid_t'', ''group'')]),
        (''sys_fchown'', [(Unsigned CInt, ''fd''), (Typedef ''uid_t'', ''user''), (Typedef ''gid_t'', ''group'')])]),
      (Ifdef ''CONFIG_HAVE_UID16'', [
        (''sys_chown16'', [(Ptr (Signed CChar), ''filename''), (Typedef ''old_uid_t'', ''user''), (Typedef ''old_gid_t'', ''group'')]),
        (''sys_lchown16'', [(Ptr (Signed CChar), ''filename''), (Typedef ''old_uid_t'', ''user''), (Typedef ''old_gid_t'', ''group'')]),
        (''sys_fchown16'', [(Unsigned CInt, ''fd''), (Typedef ''old_uid_t'', ''user''), (Typedef ''old_gid_t'', ''group'')]),
        (''sys_setregid16'', [(Typedef ''old_gid_t'', ''rgid''), (Typedef ''old_gid_t'', ''egid'')]),
        (''sys_setgid16'', [(Typedef ''old_gid_t'', ''gid'')]),
        (''sys_setreuid16'', [(Typedef ''old_uid_t'', ''ruid''), (Typedef ''old_uid_t'', ''euid'')]),
        (''sys_setuid16'', [(Typedef ''old_uid_t'', ''uid'')]),
        (''sys_setresuid16'', [(Typedef ''old_uid_t'', ''ruid''), (Typedef ''old_uid_t'', ''euid''), (Typedef ''old_uid_t'', ''suid'')]),
        (''sys_getresuid16'', [(Ptr (Typedef ''old_uid_t''), ''ruid''), (Ptr (Typedef ''old_uid_t''), ''euid''),
          (Ptr (Typedef ''old_uid_t''), ''suid'')]),
        (''sys_setresgid16'', [(Typedef ''old_gid_t'', ''rgid''), (Typedef ''old_gid_t'', ''egid''), (Typedef ''old_gid_t'', ''sgid'')]),
        (''sys_getresgid16'', [(Ptr (Typedef ''old_gid_t''), ''rgid''), (Ptr (Typedef ''old_gid_t''), ''egid''),
          (Ptr (Typedef ''old_gid_t''), ''sgid'')]),
        (''sys_setfsuid16'', [(Typedef ''old_uid_t'', ''uid'')]),
        (''sys_setfsgid16'', [(Typedef ''old_gid_t'', ''gid'')]),
        (''sys_getgroups16'', [(Signed CInt, ''gidsetsize''), (Ptr (Typedef ''old_gid_t''), ''grouplist'')]),
        (''sys_setgroups16'', [(Signed CInt, ''gidsetsize''), (Ptr (Typedef ''old_gid_t''), ''grouplist'')]),
        (''sys_getuid16'', []),
        (''sys_geteuid16'', []),
        (''sys_getgid16'', []),
        (''sys_getegid16'', [])]),
      (Always, [
        (''sys_utime'', [(Ptr (Signed CChar), ''filename''), (Ptr (Struct ''utimbuf''), ''times'')]),
        (''sys_utimes'', [(Ptr (Signed CChar), ''filename''), (Ptr (Struct ''timeval''), ''utimes'')]),
        (''sys_lseek'', [(Unsigned CInt, ''fd''), (Typedef ''off_t'', ''offset''), (Unsigned CInt, ''whence'')]),
        (''sys_llseek'', [(Unsigned CInt, ''fd''), (Unsigned CLong, ''offset_high''), (Unsigned CLong, ''offset_low''),
          (Ptr (Typedef ''loff_t''), ''result''), (Unsigned CInt, ''whence'')]),
        (''sys_read'', [(Unsigned CInt, ''fd''), (Ptr (Signed CChar), ''buf''), (Typedef ''size_t'', ''count'')])])]"

definition prototypes_5 :: "(condition \<times> prototype list) list" where
  "prototypes_5 = [
      (Always, [
        (''sys_readahead'', [(Signed CInt, ''fd''), (Typedef ''loff_t'', ''offset''), (Typedef ''size_t'', ''count'')]),
        (''sys_readv'', [(Unsigned CLong, ''fd''), (Ptr (Struct ''iovec''), ''vec''), (Unsigned CLong, ''vlen'')]),
        (''sys_write'', [(Unsigned CInt, ''fd''), (Ptr (Signed CChar), ''buf''), (Typedef ''size_t'', ''count'')]),
        (''sys_writev'', [(Unsigned CLong, ''fd''), (Ptr (Struct ''iovec''), ''vec''), (Unsigned CLong, ''vlen'')]),
        (''sys_pread64'', [(Unsigned CInt, ''fd''), (Ptr (Signed CChar), ''buf''), (Typedef ''size_t'', ''count''), (Typedef ''loff_t'', ''pos'')]),
        (''sys_pwrite64'', [(Unsigned CInt, ''fd''), (Ptr (Signed CChar), ''buf''), (Typedef ''size_t'', ''count''), (Typedef ''loff_t'', ''pos'')]),
        (''sys_preadv'', [(Unsigned CLong, ''fd''), (Ptr (Struct ''iovec''), ''vec''), (Unsigned CLong, ''vlen''), (Unsigned CLong, ''pos_l''),
          (Unsigned CLong, ''pos_h'')]),
        (''sys_preadv2'', [(Unsigned CLong, ''fd''), (Ptr (Struct ''iovec''), ''vec''), (Unsigned CLong, ''vlen''), (Unsigned CLong, ''pos_l''),
          (Unsigned CLong, ''pos_h''), (Typedef ''rwf_t'', ''flags'')]),
        (''sys_pwritev'', [(Unsigned CLong, ''fd''), (Ptr (Struct ''iovec''), ''vec''), (Unsigned CLong, ''vlen''), (Unsigned CLong, ''pos_l''),
          (Unsigned CLong, ''pos_h'')]),
        (''sys_pwritev2'', [(Unsigned CLong, ''fd''), (Ptr (Struct ''iovec''), ''vec''), (Unsigned CLong, ''vlen''), (Unsigned CLong, ''pos_l''),
          (Unsigned CLong, ''pos_h''), (Typedef ''rwf_t'', ''flags'')]),
        (''sys_getcwd'', [(Ptr (Signed CChar), ''buf''), (Unsigned CLong, ''size'')]),
        (''sys_mkdir'', [(Ptr (Signed CChar), ''pathname''), (Typedef ''umode_t'', ''mode'')]),
        (''sys_chdir'', [(Ptr (Signed CChar), ''filename'')]),
        (''sys_fchdir'', [(Unsigned CInt, ''fd'')]),
        (''sys_rmdir'', [(Ptr (Signed CChar), ''pathname'')]),
        (''sys_lookup_dcookie'', [(Typedef ''u64'', ''cookie64''), (Ptr (Signed CChar), ''buf''), (Typedef ''size_t'', ''len'')]),
        (''sys_quotactl'', [(Unsigned CInt, ''cmd''), (Ptr (Signed CChar), ''special''), (Typedef ''qid_t'', ''id''), (Ptr Void, ''addr'')]),
        (''sys_getdents'', [(Unsigned CInt, ''fd''), (Ptr (Struct ''linux_dirent''), ''dirent''), (Unsigned CInt, ''count'')]),
        (''sys_getdents64'', [(Unsigned CInt, ''fd''), (Ptr (Struct ''linux_dirent64''), ''dirent''), (Unsigned CInt, ''count'')]),
        (''sys_setsockopt'', [(Signed CInt, ''fd''), (Signed CInt, ''level''), (Signed CInt, ''optname''), (Ptr (Signed CChar), ''optval''),
          (Signed CInt, ''optlen'')]),
        (''sys_getsockopt'', [(Signed CInt, ''fd''), (Signed CInt, ''level''), (Signed CInt, ''optname''), (Ptr (Signed CChar), ''optval''),
          (Ptr (Signed CInt), ''optlen'')]),
        (''sys_bind'', [(Signed CInt, ''''), (Ptr (Struct ''sockaddr''), ''''), (Signed CInt, '''')]),
        (''sys_connect'', [(Signed CInt, ''''), (Ptr (Struct ''sockaddr''), ''''), (Signed CInt, '''')]),
        (''sys_accept'', [(Signed CInt, ''''), (Ptr (Struct ''sockaddr''), ''''), (Ptr (Signed CInt), '''')]),
        (''sys_accept4'', [(Signed CInt, ''''), (Ptr (Struct ''sockaddr''), ''''), (Ptr (Signed CInt), ''''), (Signed CInt, '''')]),
        (''sys_getsockname'', [(Signed CInt, ''''), (Ptr (Struct ''sockaddr''), ''''), (Ptr (Signed CInt), '''')]),
        (''sys_getpeername'', [(Signed CInt, ''''), (Ptr (Struct ''sockaddr''), ''''), (Ptr (Signed CInt), '''')]),
        (''sys_send'', [(Signed CInt, ''''), (Ptr Void, ''''), (Typedef ''size_t'', ''''), (Unsigned CInt, '''')]),
        (''sys_sendto'', [(Signed CInt, ''''), (Ptr Void, ''''), (Typedef ''size_t'', ''''), (Unsigned CInt, ''''),
          (Ptr (Struct ''sockaddr''), ''''), (Signed CInt, '''')]),
        (''sys_sendmsg'', [(Signed CInt, ''fd''), (Ptr (Struct ''user_msghdr''), ''msg''), (Unsigned CInt, ''flags'')]),
        (''sys_sendmmsg'', [(Signed CInt, ''fd''), (Ptr (Struct ''mmsghdr''), ''msg''), (Unsigned CInt, ''vlen''), (Unsigned CInt, ''flags'')]),
        (''sys_recv'', [(Signed CInt, ''''), (Ptr Void, ''''), (Typedef ''size_t'', ''''), (Unsigned CInt, '''')]),
        (''sys_recvfrom'', [(Signed CInt, ''''), (Ptr Void, ''''), (Typedef ''size_t'', ''''), (Unsigned CInt, ''''),
          (Ptr (Struct ''sockaddr''), ''''), (Ptr (Signed CInt), '''')]),
        (''sys_recvmsg'', [(Signed CInt, ''fd''), (Ptr (Struct ''user_msghdr''), ''msg''), (Unsigned CInt, ''flags'')]),
        (''sys_recvmmsg'', [(Signed CInt, ''fd''), (Ptr (Struct ''mmsghdr''), ''msg''), (Unsigned CInt, ''vlen''), (Unsigned CInt, ''flags''),
          (Ptr (Struct ''timespec''), ''timeout'')]),
        (''sys_socket'', [(Signed CInt, ''''), (Signed CInt, ''''), (Signed CInt, '''')]),
        (''sys_socketpair'', [(Signed CInt, ''''), (Signed CInt, ''''), (Signed CInt, ''''), (Ptr (Signed CInt), '''')]),
        (''sys_socketcall'', [(Signed CInt, ''call''), (Ptr (Unsigned CLong), ''args'')]),
        (''sys_listen'', [(Signed CInt, ''''), (Signed CInt, '''')]),
        (''sys_poll'', [(Ptr (Struct ''pollfd''), ''ufds''), (Unsigned CInt, ''nfds''), (Signed CInt, ''timeout'')]),
        (''sys_select'', [(Signed CInt, ''n''), (Ptr (Typedef ''fd_set''), ''inp''), (Ptr (Typedef ''fd_set''), ''outp''),
          (Ptr (Typedef ''fd_set''), ''exp''), (Ptr (Struct ''timeval''), ''tvp'')]),
        (''sys_old_select'', [(Ptr (Struct ''sel_arg_struct''), ''arg'')]),
        (''sys_epoll_create'', [(Signed CInt, ''size'')]),
        (''sys_epoll_create1'', [(Signed CInt, ''flags'')]),
        (''sys_epoll_ctl'', [(Signed CInt, ''epfd''), (Signed CInt, ''op''), (Signed CInt, ''fd''), (Ptr (Struct ''epoll_event''), ''event'')]),
        (''sys_epoll_wait'', [(Signed CInt, ''epfd''), (Ptr (Struct ''epoll_event''), ''events''), (Signed CInt, ''maxevents''),
          (Signed CInt, ''timeout'')]),
        (''sys_epoll_pwait'', [(Signed CInt, ''epfd''), (Ptr (Struct ''epoll_event''), ''events''), (Signed CInt, ''maxevents''),
          (Signed CInt, ''timeout''), (Ptr (Typedef ''sigset_t''), ''sigmask''), (Typedef ''size_t'', ''sigsetsize'')]),
        (''sys_gethostname'', [(Ptr (Signed CChar), ''name''), (Signed CInt, ''len'')]),
        (''sys_sethostname'', [(Ptr (Signed CChar), ''name''), (Signed CInt, ''len'')]),
        (''sys_setdomainname'', [(Ptr (Signed CChar), ''name''), (Signed CInt, ''len'')]),
        (''sys_newuname'', [(Ptr (Struct ''new_utsname''), ''name'')]),
        (''sys_uname'', [(Ptr (Struct ''old_utsname''), '''')]),
        (''sys_olduname'', [(Ptr (Struct ''oldold_utsname''), '''')]),
        (''sys_getrlimit'', [(Unsigned CInt, ''resource''), (Ptr (Struct ''rlimit''), ''rlim'')])]),
      (Ifdef ''__ARCH_WANT_SYS_OLD_GETRLIMIT'', [
        (''sys_old_getrlimit'', [(Unsigned CInt, ''resource''), (Ptr (Struct ''rlimit''), ''rlim'')])])]"

definition prototypes_6 :: "(condition \<times> prototype list) list" where
  "prototypes_6 = [
      (Always, [
        (''sys_setrlimit'', [(Unsigned CInt, ''resource''), (Ptr (Struct ''rlimit''), ''rlim'')]),
        (''sys_prlimit64'', [(Typedef ''pid_t'', ''pid''), (Unsigned CInt, ''resource''), (Ptr (Struct ''rlimit64''), ''new_rlim''),
          (Ptr (Struct ''rlimit64''), ''old_rlim'')]),
        (''sys_getrusage'', [(Signed CInt, ''who''), (Ptr (Struct ''rusage''), ''ru'')]),
        (''sys_umask'', [(Signed CInt, ''mask'')]),
        (''sys_msgget'', [(Typedef ''key_t'', ''key''), (Signed CInt, ''msgflg'')]),
        (''sys_msgsnd'', [(Signed CInt, ''msqid''), (Ptr (Struct ''msgbuf''), ''msgp''), (Typedef ''size_t'', ''msgsz''), (Signed CInt, ''msgflg'')]),
        (''sys_msgrcv'', [(Signed CInt, ''msqid''), (Ptr (Struct ''msgbuf''), ''msgp''), (Typedef ''size_t'', ''msgsz''),
          (Signed CLong, ''msgtyp''), (Signed CInt, ''msgflg'')]),
        (''sys_msgctl'', [(Signed CInt, ''msqid''), (Signed CInt, ''cmd''), (Ptr (Struct ''msqid_ds''), ''buf'')]),
        (''sys_semget'', [(Typedef ''key_t'', ''key''), (Signed CInt, ''nsems''), (Signed CInt, ''semflg'')]),
        (''sys_semop'', [(Signed CInt, ''semid''), (Ptr (Struct ''sembuf''), ''sops''), (Unsigned CInt, ''nsops'')]),
        (''sys_semctl'', [(Signed CInt, ''semid''), (Signed CInt, ''semnum''), (Signed CInt, ''cmd''), (Unsigned CLong, ''arg'')]),
        (''sys_semtimedop'', [(Signed CInt, ''semid''), (Ptr (Struct ''sembuf''), ''sops''), (Unsigned CInt, ''nsops''),
          (Ptr (Struct ''timespec''), ''timeout'')]),
        (''sys_shmat'', [(Signed CInt, ''shmid''), (Ptr (Signed CChar), ''shmaddr''), (Signed CInt, ''shmflg'')]),
        (''sys_shmget'', [(Typedef ''key_t'', ''key''), (Typedef ''size_t'', ''size''), (Signed CInt, ''flag'')]),
        (''sys_shmdt'', [(Ptr (Signed CChar), ''shmaddr'')]),
        (''sys_shmctl'', [(Signed CInt, ''shmid''), (Signed CInt, ''cmd''), (Ptr (Struct ''shmid_ds''), ''buf'')]),
        (''sys_ipc'', [(Unsigned CInt, ''call''), (Signed CInt, ''first''), (Unsigned CLong, ''second''), (Unsigned CLong, ''third''),
          (Ptr Void, ''ptr''), (Signed CLong, ''fifth'')]),
        (''sys_mq_open'', [(Ptr (Signed CChar), ''name''), (Signed CInt, ''oflag''), (Typedef ''umode_t'', ''mode''),
          (Ptr (Struct ''mq_attr''), ''attr'')]),
        (''sys_mq_unlink'', [(Ptr (Signed CChar), ''name'')]),
        (''sys_mq_timedsend'', [(Typedef ''mqd_t'', ''mqdes''), (Ptr (Signed CChar), ''msg_ptr''), (Typedef ''size_t'', ''msg_len''),
          (Unsigned CInt, ''msg_prio''), (Ptr (Struct ''timespec''), ''abs_timeout'')]),
        (''sys_mq_timedreceive'', [(Typedef ''mqd_t'', ''mqdes''), (Ptr (Signed CChar), ''msg_ptr''), (Typedef ''size_t'', ''msg_len''),
          (Ptr (Unsigned CInt), ''msg_prio''), (Ptr (Struct ''timespec''), ''abs_timeout'')]),
        (''sys_mq_notify'', [(Typedef ''mqd_t'', ''mqdes''), (Ptr (Struct ''sigevent''), ''notification'')]),
        (''sys_mq_getsetattr'', [(Typedef ''mqd_t'', ''mqdes''), (Ptr (Struct ''mq_attr''), ''mqstat''), (Ptr (Struct ''mq_attr''), ''omqstat'')]),
        (''sys_pciconfig_iobase'', [(Signed CLong, ''which''), (Unsigned CLong, ''bus''), (Unsigned CLong, ''devfn'')]),
        (''sys_pciconfig_read'', [(Unsigned CLong, ''bus''), (Unsigned CLong, ''dfn''), (Unsigned CLong, ''off''), (Unsigned CLong, ''len''),
          (Ptr Void, ''buf'')]),
        (''sys_pciconfig_write'', [(Unsigned CLong, ''bus''), (Unsigned CLong, ''dfn''), (Unsigned CLong, ''off''), (Unsigned CLong, ''len''),
          (Ptr Void, ''buf'')]),
        (''sys_prctl'', [(Signed CInt, ''option''), (Unsigned CLong, ''arg2''), (Unsigned CLong, ''arg3''), (Unsigned CLong, ''arg4''),
          (Unsigned CLong, ''arg5'')]),
        (''sys_swapon'', [(Ptr (Signed CChar), ''specialfile''), (Signed CInt, ''swap_flags'')]),
        (''sys_swapoff'', [(Ptr (Signed CChar), ''specialfile'')]),
        (''sys_sysctl'', [(Ptr (Struct ''__sysctl_args''), ''args'')]),
        (''sys_sysinfo'', [(Ptr (Struct ''sysinfo''), ''info'')]),
        (''sys_sysfs'', [(Signed CInt, ''option''), (Unsigned CLong, ''arg1''), (Unsigned CLong, ''arg2'')]),
        (''sys_syslog'', [(Signed CInt, ''type''), (Ptr (Signed CChar), ''buf''), (Signed CInt, ''len'')]),
        (''sys_uselib'', [(Ptr (Signed CChar), ''library'')]),
        (''sys_ni_syscall'', []),
        (''sys_ptrace'', [(Signed CLong, ''request''), (Signed CLong, ''pid''), (Unsigned CLong, ''addr''), (Unsigned CLong, ''data'')]),
        (''sys_add_key'', [(Ptr (Signed CChar), ''_type''), (Ptr (Signed CChar), ''_description''), (Ptr Void, ''_payload''),
          (Typedef ''size_t'', ''plen''), (Typedef ''key_serial_t'', ''destringid'')]),
        (''sys_request_key'', [(Ptr (Signed CChar), ''_type''), (Ptr (Signed CChar), ''_description''), (Ptr (Signed CChar), ''_callout_info''),
          (Typedef ''key_serial_t'', ''destringid'')]),
        (''sys_keyctl'', [(Signed CInt, ''cmd''), (Unsigned CLong, ''arg2''), (Unsigned CLong, ''arg3''), (Unsigned CLong, ''arg4''),
          (Unsigned CLong, ''arg5'')]),
        (''sys_ioprio_set'', [(Signed CInt, ''which''), (Signed CInt, ''who''), (Signed CInt, ''ioprio'')]),
        (''sys_ioprio_get'', [(Signed CInt, ''which''), (Signed CInt, ''who'')]),
        (''sys_set_mempolicy'', [(Signed CInt, ''mode''), (Ptr (Unsigned CLong), ''nmask''), (Unsigned CLong, ''maxnode'')]),
        (''sys_migrate_pages'', [(Typedef ''pid_t'', ''pid''), (Unsigned CLong, ''maxnode''), (Ptr (Unsigned CLong), ''from''),
          (Ptr (Unsigned CLong), ''to'')]),
        (''sys_move_pages'', [(Typedef ''pid_t'', ''pid''), (Unsigned CLong, ''nr_pages''), (Ptr (Ptr Void), ''pages''),
          (Ptr (Signed CInt), ''nodes''), (Ptr (Signed CInt), ''status''), (Signed CInt, ''flags'')]),
        (''sys_mbind'', [(Unsigned CLong, ''start''), (Unsigned CLong, ''len''), (Unsigned CLong, ''mode''), (Ptr (Unsigned CLong), ''nmask''),
          (Unsigned CLong, ''maxnode''), (Unsigned CInt, ''flags'')])])]"

definition prototypes_7 :: "(condition \<times> prototype list) list" where
  "prototypes_7 = [
      (Always, [
        (''sys_get_mempolicy'', [(Ptr (Signed CInt), ''policy''), (Ptr (Unsigned CLong), ''nmask''), (Unsigned CLong, ''maxnode''),
          (Unsigned CLong, ''addr''), (Unsigned CLong, ''flags'')]),
        (''sys_inotify_init'', []),
        (''sys_inotify_init1'', [(Signed CInt, ''flags'')]),
        (''sys_inotify_add_watch'', [(Signed CInt, ''fd''), (Ptr (Signed CChar), ''path''), (Typedef ''u32'', ''mask'')]),
        (''sys_inotify_rm_watch'', [(Signed CInt, ''fd''), (Typedef ''__s32'', ''wd'')]),
        (''sys_spu_run'', [(Signed CInt, ''fd''), (Ptr (Typedef ''__u32''), ''unpc''), (Ptr (Typedef ''__u32''), ''ustatus'')]),
        (''sys_spu_create'', [(Ptr (Signed CChar), ''name''), (Unsigned CInt, ''flags''), (Typedef ''umode_t'', ''mode''), (Signed CInt, ''fd'')]),
        (''sys_mknodat'', [(Signed CInt, ''dfd''), (Ptr (Signed CChar), ''filename''), (Typedef ''umode_t'', ''mode''), (Unsigned CInt, ''dev'')]),
        (''sys_mkdirat'', [(Signed CInt, ''dfd''), (Ptr (Signed CChar), ''pathname''), (Typedef ''umode_t'', ''mode'')]),
        (''sys_unlinkat'', [(Signed CInt, ''dfd''), (Ptr (Signed CChar), ''pathname''), (Signed CInt, ''flag'')]),
        (''sys_symlinkat'', [(Ptr (Signed CChar), ''oldname''), (Signed CInt, ''newdfd''), (Ptr (Signed CChar), ''newname'')]),
        (''sys_linkat'', [(Signed CInt, ''olddfd''), (Ptr (Signed CChar), ''oldname''), (Signed CInt, ''newdfd''),
          (Ptr (Signed CChar), ''newname''), (Signed CInt, ''flags'')]),
        (''sys_renameat'', [(Signed CInt, ''olddfd''), (Ptr (Signed CChar), ''oldname''), (Signed CInt, ''newdfd''),
          (Ptr (Signed CChar), ''newname'')]),
        (''sys_renameat2'', [(Signed CInt, ''olddfd''), (Ptr (Signed CChar), ''oldname''), (Signed CInt, ''newdfd''),
          (Ptr (Signed CChar), ''newname''), (Unsigned CInt, ''flags'')]),
        (''sys_futimesat'', [(Signed CInt, ''dfd''), (Ptr (Signed CChar), ''filename''), (Ptr (Struct ''timeval''), ''utimes'')]),
        (''sys_faccessat'', [(Signed CInt, ''dfd''), (Ptr (Signed CChar), ''filename''), (Signed CInt, ''mode'')]),
        (''sys_fchmodat'', [(Signed CInt, ''dfd''), (Ptr (Signed CChar), ''filename''), (Typedef ''umode_t'', ''mode'')]),
        (''sys_fchownat'', [(Signed CInt, ''dfd''), (Ptr (Signed CChar), ''filename''), (Typedef ''uid_t'', ''user''),
          (Typedef ''gid_t'', ''group''), (Signed CInt, ''flag'')]),
        (''sys_openat'', [(Signed CInt, ''dfd''), (Ptr (Signed CChar), ''filename''), (Signed CInt, ''flags''), (Typedef ''umode_t'', ''mode'')]),
        (''sys_newfstatat'', [(Signed CInt, ''dfd''), (Ptr (Signed CChar), ''filename''), (Ptr (Struct ''stat''), ''statbuf''),
          (Signed CInt, ''flag'')]),
        (''sys_readlinkat'', [(Signed CInt, ''dfd''), (Ptr (Signed CChar), ''path''), (Ptr (Signed CChar), ''buf''), (Signed CInt, ''bufsiz'')]),
        (''sys_utimensat'', [(Signed CInt, ''dfd''), (Ptr (Signed CChar), ''filename''), (Ptr (Struct ''timespec''), ''utimes''),
          (Signed CInt, ''flags'')]),
        (''sys_unshare'', [(Unsigned CLong, ''unshare_flags'')]),
        (''sys_splice'', [(Signed CInt, ''fd_in''), (Ptr (Typedef ''loff_t''), ''off_in''), (Signed CInt, ''fd_out''),
          (Ptr (Typedef ''loff_t''), ''off_out''), (Typedef ''size_t'', ''len''), (Unsigned CInt, ''flags'')]),
        (''sys_vmsplice'', [(Signed CInt, ''fd''), (Ptr (Struct ''iovec''), ''iov''), (Unsigned CLong, ''nr_segs''), (Unsigned CInt, ''flags'')]),
        (''sys_tee'', [(Signed CInt, ''fdin''), (Signed CInt, ''fdout''), (Typedef ''size_t'', ''len''), (Unsigned CInt, ''flags'')]),
        (''sys_sync_file_range'', [(Signed CInt, ''fd''), (Typedef ''loff_t'', ''offset''), (Typedef ''loff_t'', ''nbytes''),
          (Unsigned CInt, ''flags'')]),
        (''sys_sync_file_range2'', [(Signed CInt, ''fd''), (Unsigned CInt, ''flags''), (Typedef ''loff_t'', ''offset''),
          (Typedef ''loff_t'', ''nbytes'')]),
        (''sys_get_robust_list'', [(Signed CInt, ''pid''), (Ptr (Ptr (Struct ''robust_list_head'')), ''head_ptr''),
          (Ptr (Typedef ''size_t''), ''len_ptr'')]),
        (''sys_set_robust_list'', [(Ptr (Struct ''robust_list_head''), ''head''), (Typedef ''size_t'', ''len'')]),
        (''sys_getcpu'', [(Ptr (Unsigned CInt), ''cpu''), (Ptr (Unsigned CInt), ''node''), (Ptr (Struct ''getcpu_cache''), ''cache'')]),
        (''sys_signalfd'', [(Signed CInt, ''ufd''), (Ptr (Typedef ''sigset_t''), ''user_mask''), (Typedef ''size_t'', ''sizemask'')]),
        (''sys_signalfd4'', [(Signed CInt, ''ufd''), (Ptr (Typedef ''sigset_t''), ''user_mask''), (Typedef ''size_t'', ''sizemask''),
          (Signed CInt, ''flags'')]),
        (''sys_timerfd_create'', [(Signed CInt, ''clockid''), (Signed CInt, ''flags'')]),
        (''sys_timerfd_settime'', [(Signed CInt, ''ufd''), (Signed CInt, ''flags''), (Ptr (Struct ''itimerspec''), ''utmr''),
          (Ptr (Struct ''itimerspec''), ''otmr'')]),
        (''sys_timerfd_gettime'', [(Signed CInt, ''ufd''), (Ptr (Struct ''itimerspec''), ''otmr'')]),
        (''sys_eventfd'', [(Unsigned CInt, ''count'')]),
        (''sys_eventfd2'', [(Unsigned CInt, ''count''), (Signed CInt, ''flags'')]),
        (''sys_memfd_create'', [(Ptr (Signed CChar), ''uname_ptr''), (Unsigned CInt, ''flags'')]),
        (''sys_userfaultfd'', [(Signed CInt, ''flags'')]),
        (''sys_fallocate'', [(Signed CInt, ''fd''), (Signed CInt, ''mode''), (Typedef ''loff_t'', ''offset''), (Typedef ''loff_t'', ''len'')]),
        (''sys_old_readdir'', [(Unsigned CInt, ''''), (Ptr (Struct ''old_linux_dirent''), ''''), (Unsigned CInt, '''')]),
        (''sys_pselect6'', [(Signed CInt, ''''), (Ptr (Typedef ''fd_set''), ''''), (Ptr (Typedef ''fd_set''), ''''),
          (Ptr (Typedef ''fd_set''), ''''), (Ptr (Struct ''timespec''), ''''), (Ptr Void, '''')]),
        (''sys_ppoll'', [(Ptr (Struct ''pollfd''), ''''), (Unsigned CInt, ''''), (Ptr (Struct ''timespec''), ''''),
          (Ptr (Typedef ''sigset_t''), ''''), (Typedef ''size_t'', '''')]),
        (''sys_fanotify_init'', [(Unsigned CInt, ''flags''), (Unsigned CInt, ''event_f_flags'')]),
        (''sys_fanotify_mark'', [(Signed CInt, ''fanotify_fd''), (Unsigned CInt, ''flags''), (Typedef ''u64'', ''mask''), (Signed CInt, ''fd''),
          (Ptr (Signed CChar), ''pathname'')]),
        (''sys_syncfs'', [(Signed CInt, ''fd'')])])]"

definition prototypes_8 :: "(condition \<times> prototype list) list" where
  "prototypes_8 = [
      (Always, [
        (''sys_fork'', []),
        (''sys_vfork'', [])]),
      (Ifdef ''CONFIG_CLONE_BACKWARDS'', [
        (''sys_clone'', [(Unsigned CLong, ''''), (Unsigned CLong, ''''), (Ptr (Signed CInt), ''''), (Unsigned CLong, ''''),
          (Ptr (Signed CInt), '''')])]),
      (Both (Unless (Ifdef ''CONFIG_CLONE_BACKWARDS'')) (Ifdef ''CONFIG_CLONE_BACKWARDS3''), [
        (''sys_clone'', [(Unsigned CLong, ''''), (Unsigned CLong, ''''), (Signed CInt, ''''), (Ptr (Signed CInt), ''''), (Ptr (Signed CInt), ''''),
          (Unsigned CLong, '''')])]),
      (Both (Unless (Ifdef ''CONFIG_CLONE_BACKWARDS'')) (Unless (Ifdef ''CONFIG_CLONE_BACKWARDS3'')), [
        (''sys_clone'', [(Unsigned CLong, ''''), (Unsigned CLong, ''''), (Ptr (Signed CInt), ''''), (Ptr (Signed CInt), ''''),
          (Unsigned CLong, '''')])]),
      (Always, [
        (''sys_execve'', [(Ptr (Signed CChar), ''filename''), (Ptr (Ptr (Signed CChar)), ''argv''), (Ptr (Ptr (Signed CChar)), ''envp'')]),
        (''sys_perf_event_open'', [(Ptr (Struct ''perf_event_attr''), ''attr_uptr''), (Typedef ''pid_t'', ''pid''), (Signed CInt, ''cpu''),
          (Signed CInt, ''group_fd''), (Unsigned CLong, ''flags'')]),
        (''sys_mmap_pgoff'', [(Unsigned CLong, ''addr''), (Unsigned CLong, ''len''), (Unsigned CLong, ''prot''), (Unsigned CLong, ''flags''),
          (Unsigned CLong, ''fd''), (Unsigned CLong, ''pgoff'')]),
        (''sys_old_mmap'', [(Ptr (Struct ''mmap_arg_struct''), ''arg'')]),
        (''sys_name_to_handle_at'', [(Signed CInt, ''dfd''), (Ptr (Signed CChar), ''name''), (Ptr (Struct ''file_handle''), ''handle''),
          (Ptr (Signed CInt), ''mnt_id''), (Signed CInt, ''flag'')]),
        (''sys_open_by_handle_at'', [(Signed CInt, ''mountdirfd''), (Ptr (Struct ''file_handle''), ''handle''), (Signed CInt, ''flags'')]),
        (''sys_setns'', [(Signed CInt, ''fd''), (Signed CInt, ''nstype'')]),
        (''sys_process_vm_readv'', [(Typedef ''pid_t'', ''pid''), (Ptr (Struct ''iovec''), ''lvec''), (Unsigned CLong, ''liovcnt''),
          (Ptr (Struct ''iovec''), ''rvec''), (Unsigned CLong, ''riovcnt''), (Unsigned CLong, ''flags'')]),
        (''sys_process_vm_writev'', [(Typedef ''pid_t'', ''pid''), (Ptr (Struct ''iovec''), ''lvec''), (Unsigned CLong, ''liovcnt''),
          (Ptr (Struct ''iovec''), ''rvec''), (Unsigned CLong, ''riovcnt''), (Unsigned CLong, ''flags'')]),
        (''sys_kcmp'', [(Typedef ''pid_t'', ''pid1''), (Typedef ''pid_t'', ''pid2''), (Signed CInt, ''type''), (Unsigned CLong, ''idx1''),
          (Unsigned CLong, ''idx2'')]),
        (''sys_finit_module'', [(Signed CInt, ''fd''), (Ptr (Signed CChar), ''uargs''), (Signed CInt, ''flags'')]),
        (''sys_seccomp'', [(Unsigned CInt, ''op''), (Unsigned CInt, ''flags''), (Ptr (Signed CChar), ''uargs'')]),
        (''sys_getrandom'', [(Ptr (Signed CChar), ''buf''), (Typedef ''size_t'', ''count''), (Unsigned CInt, ''flags'')]),
        (''sys_bpf'', [(Signed CInt, ''cmd''), (Ptr (Union ''bpf_attr''), ''attr''), (Unsigned CInt, ''size'')]),
        (''sys_execveat'', [(Signed CInt, ''dfd''), (Ptr (Signed CChar), ''filename''), (Ptr (Ptr (Signed CChar)), ''argv''),
          (Ptr (Ptr (Signed CChar)), ''envp''), (Signed CInt, ''flags'')]),
        (''sys_membarrier'', [(Signed CInt, ''cmd''), (Signed CInt, ''flags'')]),
        (''sys_copy_file_range'', [(Signed CInt, ''fd_in''), (Ptr (Typedef ''loff_t''), ''off_in''), (Signed CInt, ''fd_out''),
          (Ptr (Typedef ''loff_t''), ''off_out''), (Typedef ''size_t'', ''len''), (Unsigned CInt, ''flags'')]),
        (''sys_mlock2'', [(Unsigned CLong, ''start''), (Typedef ''size_t'', ''len''), (Signed CInt, ''flags'')]),
        (''sys_pkey_mprotect'', [(Unsigned CLong, ''start''), (Typedef ''size_t'', ''len''), (Unsigned CLong, ''prot''), (Signed CInt, ''pkey'')]),
        (''sys_pkey_alloc'', [(Unsigned CLong, ''flags''), (Unsigned CLong, ''init_val'')]),
        (''sys_pkey_free'', [(Signed CInt, ''pkey'')]),
        (''sys_statx'', [(Signed CInt, ''dfd''), (Ptr (Signed CChar), ''path''), (Unsigned CInt, ''flags''), (Unsigned CInt, ''mask''),
          (Ptr (Struct ''statx''), ''buffer'')]),
        (''sys_hello'', []),
        (''sys_set_weight'', [(Signed CInt, ''weight'')]),
        (''sys_get_weight'', []),
        (''sys_get_leaf_children_sum'', []),
        (''sys_get_heaviest_ancestor'', [])])]"

definition prototype_list :: "(condition \<times> prototype list) list" where
  "prototype_list = prototypes_1 @ prototypes_2 @ prototypes_3 @ prototypes_4 @ prototypes_5 @ prototypes_6 @ prototypes_7 @ prototypes_8"

definition prototypes :: "target \<Rightarrow> prototype list" where
  "prototypes tg = select tg prototype_list"

section \<open>What all declarations have in common\<close>

fun param_type :: "ctype \<Rightarrow> bool" where
  "param_type (Typedef n) = True"
| "param_type t = scalar_type t"

fun base_type :: "ctype \<Rightarrow> ctype" where
  "base_type (Ptr t) = base_type t"
| "base_type t = t"

text \<open>
  The structures a declaration points to are announced at the beginning of the header, or come from an included header; \<open>included\<close> is what
  those define.
\<close>

definition known_tag :: "ctype list \<Rightarrow> ctype \<Rightarrow> bool" where
  "known_tag included t \<longleftrightarrow> (case base_type t of Struct n \<Rightarrow> Struct n \<in> set (declared_tags @ included)
     | Union n \<Rightarrow> Union n \<in> set (declared_tags @ included) | Enum n \<Rightarrow> False | Array u n \<Rightarrow> False | _ \<Rightarrow> True)"

definition signal_tags :: "ctype list" where
  "signal_tags = [Struct ''ustat'', Struct ''sigaction'', Struct ''old_sigaction'', Struct ''sigevent'', Struct ''siginfo'']"

definition prototype_ok :: "prototype \<Rightarrow> bool" where
  "prototype_ok p \<longleftrightarrow> length (snd p) \<le> 6 \<and> (\<forall>(t, a)\<in>set (snd p). param_type t \<and> known_tag signal_tags t)"

lemma tag_facts: "list_all (known_tag signal_tags) (declared_tags @ signal_tags)"
proof -
  have "list_all (\<lambda>t. \<exists>n. t = Struct n \<or> t = Union n) declared_tags" "list_all (\<lambda>t. \<exists>n. t = Struct n) signal_tags"
    by (simp_all add: declared_tags_def signal_tags_def)
  then show ?thesis by (fastforce simp: list_all_iff known_tag_def)
qed

lemmas known_tags = tag_facts [unfolded declared_tags_def signal_tags_def, simplified, folded signal_tags_def]

lemma known_simps:
  "known_tag i Void" "known_tag i (Signed p)" "known_tag i (Unsigned p)" "known_tag i (Typedef n)" "known_tag i (Ptr t) = known_tag i t"
  by (simp_all add: known_tag_def)

lemma prototypes_1_ok: "list_all prototype_ok (everything prototypes_1)"
  by (simp add: prototypes_1_def prototype_ok_def known_simps known_tags)

lemma prototypes_2_ok: "list_all prototype_ok (everything prototypes_2)"
  by (simp add: prototypes_2_def prototype_ok_def known_simps known_tags)

lemma prototypes_3_ok: "list_all prototype_ok (everything prototypes_3)"
  by (simp add: prototypes_3_def prototype_ok_def known_simps known_tags)

lemma prototypes_4_ok: "list_all prototype_ok (everything prototypes_4)"
  by (simp add: prototypes_4_def prototype_ok_def known_simps known_tags)

lemma prototypes_5_ok: "list_all prototype_ok (everything prototypes_5)"
  by (simp add: prototypes_5_def prototype_ok_def known_simps known_tags)

lemma prototypes_6_ok: "list_all prototype_ok (everything prototypes_6)"
  by (simp add: prototypes_6_def prototype_ok_def known_simps known_tags)

lemma prototypes_7_ok: "list_all prototype_ok (everything prototypes_7)"
  by (simp add: prototypes_7_def prototype_ok_def known_simps known_tags)

lemma prototypes_8_ok: "list_all prototype_ok (everything prototypes_8)"
  by (simp add: prototypes_8_def prototype_ok_def known_simps known_tags)

lemma all_prototypes_ok: "p \<in> set (prototypes tg) \<Longrightarrow> prototype_ok p"
  using prototypes_1_ok prototypes_2_ok prototypes_3_ok prototypes_4_ok prototypes_5_ok prototypes_6_ok prototypes_7_ok prototypes_8_ok
    select_subset [of tg prototype_list]
  by (auto simp: prototypes_def prototype_list_def list_all_iff simp del: select_simps)

text \<open>With included headers that define five more structures, every structure a declaration points to is known.\<close>

lemma tags_known:
  assumes "(n, ps) \<in> set (prototypes tg)" "(t, a) \<in> set ps" "set signal_tags \<subseteq> set included"
  shows "known_tag included t"
  using all_prototypes_ok [OF assms(1)] assms(2,3) by (fastforce simp: prototype_ok_def known_tag_def split: ctype.splits)

text \<open>
  C33. Every system call that the header declares can be defined with its macros, and then gets its arguments: for every configuration, and every declaration
  in it, the function that \<open>SYSCALL_DEFINEx\<close> makes for parameters of the declared types compiles and hands the body the values that were
  passed, on 32-bit and on 64-bit machines. All that is used of the type definitions of other headers is that they stand for integers or pointers.
\<close>

theorem declared_calls_get_their_arguments:
  assumes tg: "target_ok tg" "\<forall>n. scalar_type (scalar_of tg n)" and p: "(n, ps) \<in> set (prototypes tg)"
    and names: "distinct names" "length names = length ps" and vs: "list_all2 (\<lambda>(t, a). value_of tg t) ps vs"
  shows "SyS tg (length ps) (flat (map2 (\<lambda>(t, a) b. (s, t, b)) ps names)) SYSC vs st = Some (SYSC vs st)"
proof -
  let ?qs = "map2 (\<lambda>(t, a) b. (s, t, b)) ps names"
  have ok: "length ps \<le> 6" "\<forall>(t, a)\<in>set ps. param_type t" using all_prototypes_ok [OF p] by (auto simp: prototype_ok_def)
  have "scalar tg t" if "param_type t" for t using that tg(2) by (cases t) (simp_all add: scalar_def resolve_def)
  then have sc: "\<forall>(s, t, a)\<in>set ?qs. scalar tg t" using ok(2) by (auto dest: set_zip_leftD)
  have nm: "map (\<lambda>(s, t, a). a) ?qs = names" using names(2) by (intro nth_equalityI) (auto split: prod.split)
  have l: "length ?qs = length ps" using names(2) by simp
  have lv: "length vs = length ps" using vs by (simp add: list_all2_lengthD)
  have "map (\<lambda>((s, t, a), r). the (convert tg t r)) (zip ?qs vs) = vs"
    using lv names(2) list_all2_nthD [OF vs] by (intro nth_equalityI) (fastforce simp: value_of_def split: prod.splits)+
  then show ?thesis
    using SyS_calls_body [OF tg(1), of ?qs vs SYSC st] ok(1) nm names l lv sc by simp
qed

theorem declared_calls_get_their_arguments_witness:
  "(''sys_set_weight'', [(Signed CInt, ''weight'')]) \<in> set (prototypes x86_64)
    \<and> SyS x86_64 1 (flat [(''int'', Signed CInt, ''weight'')]) (\<lambda>vs s. (0, vs @ s)) [- 5] [] = Some (0, [- 5])"
proof -
  have "(''sys_set_weight'', [(Signed CInt, ''weight'')]) \<in> set (select x86_64 prototypes_8)" by (simp add: prototypes_8_def)
  then have p: "(''sys_set_weight'', [(Signed CInt, ''weight'')]) \<in> set (prototypes x86_64)" by (simp add: prototypes_def prototype_list_def)
  have s: "\<forall>n. scalar_type (scalar_of x86_64 n)" by (simp add: x86_64_def)
  have v: "list_all2 (\<lambda>(t, a). value_of x86_64 t) [(Signed CInt, ''weight'')] [- 5]" by code_simp
  from declared_calls_get_their_arguments [OF x86_64_ok s p _ _ v, of "[''weight'']" "''int''" "\<lambda>vs s. (0, vs @ s)" "[]"] p
  show ?thesis by simp
qed

end
