(* ===== verification/Syscall_Table.thy ===== *)
theory Syscall_Table
  imports Syscall_Prototypes
begin

text \<open>
  The table \<open>arch/x86/entry/syscalls/syscall_64.tbl\<close>: number, binary interface, name, and the function that is called (\<open>True\<close>: with
  the qualifier \<open>ptregs\<close>); a row without a function is a system call that does not exist any more. The lemmas compare the table with the declarations of
  \<open>include/linux/syscalls.h\<close> and with the numbers that the wrappers of \<open>hw2_test.cxx\<close> use.
\<close>

section \<open>The table\<close>

datatype abi = Common | Abi_64 | X32

type_synonym row = "nat \<times> abi \<times> string \<times> (string \<times> bool) option"

definition rows_1 :: "row list" where
  "rows_1 = [
    (0, Common, ''read'', Some (''sys_read'', False)),
    (1, Common, ''write'', Some (''sys_write'', False)),
    (2, Common, ''open'', Some (''sys_open'', False)),
    (3, Common, ''close'', Some (''sys_close'', False)),
    (4, Common, ''stat'', Some (''sys_newstat'', False)),
    (5, Common, ''fstat'', Some (''sys_newfstat'', False)),
    (6, Common, ''lstat'', Some (''sys_newlstat'', False)),
    (7, Common, ''poll'', Some (''sys_poll'', False)),
    (8, Common, ''lseek'', Some (''sys_lseek'', False)),
    (9, Common, ''mmap'', Some (''sys_mmap'', False)),
    (10, Common, ''mprotect'', Some (''sys_mprotect'', False)),
    (11, Common, ''munmap'', Some (''sys_munmap'', False)),
    (12, Common, ''brk'', Some (''sys_brk'', False)),
    (13, Abi_64, ''rt_sigaction'', Some (''sys_rt_sigaction'', False)),
    (14, Common, ''rt_sigprocmask'', Some (''sys_rt_sigprocmask'', False)),
    (15, Abi_64, ''rt_sigreturn'', Some (''sys_rt_sigreturn'', True)),
    (16, Abi_64, ''ioctl'', Some (''sys_ioctl'', False)),
    (17, Common, ''pread64'', Some (''sys_pread64'', False)),
    (18, Common, ''pwrite64'', Some (''sys_pwrite64'', False)),
    (19, Abi_64, ''readv'', Some (''sys_readv'', False)),
    (20, Abi_64, ''writev'', Some (''sys_writev'', False)),
    (21, Common, ''access'', Some (''sys_access'', False)),
    (22, Common, ''pipe'', Some (''sys_pipe'', False)),
    (23, Common, ''select'', Some (''sys_select'', False)),
    (24, Common, ''sched_yield'', Some (''sys_sched_yield'', False)),
    (25, Common, ''mremap'', Some (''sys_mremap'', False)),
    (26, Common, ''msync'', Some (''sys_msync'', False)),
    (27, Common, ''mincore'', Some (''sys_mincore'', False)),
    (28, Common, ''madvise'', Some (''sys_madvise'', False)),
    (29, Common, ''shmget'', Some (''sys_shmget'', False)),
    (30, Common, ''shmat'', Some (''sys_shmat'', False)),
    (31, Common, ''shmctl'', Some (''sys_shmctl'', False)),
    (32, Common, ''dup'', Some (''sys_dup'', False)),
    (33, Common, ''dup2'', Some (''sys_dup2'', False)),
    (34, Common, ''pause'', Some (''sys_pause'', False)),
    (35, Common, ''nanosleep'', Some (''sys_nanosleep'', False)),
    (36, Common, ''getitimer'', Some (''sys_getitimer'', False)),
    (37, Common, ''alarm'', Some (''sys_alarm'', False)),
    (38, Common, ''setitimer'', Some (''sys_setitimer'', False)),
    (39, Common, ''getpid'', Some (''sys_getpid'', False)),
    (40, Common, ''sendfile'', Some (''sys_sendfile64'', False)),
    (41, Common, ''socket'', Some (''sys_socket'', False)),
    (42, Common, ''connect'', Some (''sys_connect'', False)),
    (43, Common, ''accept'', Some (''sys_accept'', False)),
    (44, Common, ''sendto'', Some (''sys_sendto'', False)),
    (45, Abi_64, ''recvfrom'', Some (''sys_recvfrom'', False)),
    (46, Abi_64, ''sendmsg'', Some (''sys_sendmsg'', False)),
    (47, Abi_64, ''recvmsg'', Some (''sys_recvmsg'', False)),
    (48, Common, ''shutdown'', Some (''sys_shutdown'', False)),
    (49, Common, ''bind'', Some (''sys_bind'', False)),
    (50, Common, ''listen'', Some (''sys_listen'', False)),
    (51, Common, ''getsockname'', Some (''sys_getsockname'', False)),
    (52, Common, ''getpeername'', Some (''sys_getpeername'', False)),
    (53, Common, ''socketpair'', Some (''sys_socketpair'', False)),
    (54, Abi_64, ''setsockopt'', Some (''sys_setsockopt'', False)),
    (55, Abi_64, ''getsockopt'', Some (''sys_getsockopt'', False)),
    (56, Common, ''clone'', Some (''sys_clone'', True))]"

definition rows_2 :: "row list" where
  "rows_2 = [
    (57, Common, ''fork'', Some (''sys_fork'', True)),
    (58, Common, ''vfork'', Some (''sys_vfork'', True)),
    (59, Abi_64, ''execve'', Some (''sys_execve'', True)),
    (60, Common, ''exit'', Some (''sys_exit'', False)),
    (61, Common, ''wait4'', Some (''sys_wait4'', False)),
    (62, Common, ''kill'', Some (''sys_kill'', False)),
    (63, Common, ''uname'', Some (''sys_newuname'', False)),
    (64, Common, ''semget'', Some (''sys_semget'', False)),
    (65, Common, ''semop'', Some (''sys_semop'', False)),
    (66, Common, ''semctl'', Some (''sys_semctl'', False)),
    (67, Common, ''shmdt'', Some (''sys_shmdt'', False)),
    (68, Common, ''msgget'', Some (''sys_msgget'', False)),
    (69, Common, ''msgsnd'', Some (''sys_msgsnd'', False)),
    (70, Common, ''msgrcv'', Some (''sys_msgrcv'', False)),
    (71, Common, ''msgctl'', Some (''sys_msgctl'', False)),
    (72, Common, ''fcntl'', Some (''sys_fcntl'', False)),
    (73, Common, ''flock'', Some (''sys_flock'', False)),
    (74, Common, ''fsync'', Some (''sys_fsync'', False)),
    (75, Common, ''fdatasync'', Some (''sys_fdatasync'', False)),
    (76, Common, ''truncate'', Some (''sys_truncate'', False)),
    (77, Common, ''ftruncate'', Some (''sys_ftruncate'', False)),
    (78, Common, ''getdents'', Some (''sys_getdents'', False)),
    (79, Common, ''getcwd'', Some (''sys_getcwd'', False)),
    (80, Common, ''chdir'', Some (''sys_chdir'', False)),
    (81, Common, ''fchdir'', Some (''sys_fchdir'', False)),
    (82, Common, ''rename'', Some (''sys_rename'', False)),
    (83, Common, ''mkdir'', Some (''sys_mkdir'', False)),
    (84, Common, ''rmdir'', Some (''sys_rmdir'', False)),
    (85, Common, ''creat'', Some (''sys_creat'', False)),
    (86, Common, ''link'', Some (''sys_link'', False)),
    (87, Common, ''unlink'', Some (''sys_unlink'', False)),
    (88, Common, ''symlink'', Some (''sys_symlink'', False)),
    (89, Common, ''readlink'', Some (''sys_readlink'', False)),
    (90, Common, ''chmod'', Some (''sys_chmod'', False)),
    (91, Common, ''fchmod'', Some (''sys_fchmod'', False)),
    (92, Common, ''chown'', Some (''sys_chown'', False)),
    (93, Common, ''fchown'', Some (''sys_fchown'', False)),
    (94, Common, ''lchown'', Some (''sys_lchown'', False)),
    (95, Common, ''umask'', Some (''sys_umask'', False)),
    (96, Common, ''gettimeofday'', Some (''sys_gettimeofday'', False)),
    (97, Common, ''getrlimit'', Some (''sys_getrlimit'', False)),
    (98, Common, ''getrusage'', Some (''sys_getrusage'', False)),
    (99, Common, ''sysinfo'', Some (''sys_sysinfo'', False)),
    (100, Common, ''times'', Some (''sys_times'', False)),
    (101, Abi_64, ''ptrace'', Some (''sys_ptrace'', False)),
    (102, Common, ''getuid'', Some (''sys_getuid'', False)),
    (103, Common, ''syslog'', Some (''sys_syslog'', False)),
    (104, Common, ''getgid'', Some (''sys_getgid'', False)),
    (105, Common, ''setuid'', Some (''sys_setuid'', False)),
    (106, Common, ''setgid'', Some (''sys_setgid'', False)),
    (107, Common, ''geteuid'', Some (''sys_geteuid'', False)),
    (108, Common, ''getegid'', Some (''sys_getegid'', False)),
    (109, Common, ''setpgid'', Some (''sys_setpgid'', False)),
    (110, Common, ''getppid'', Some (''sys_getppid'', False)),
    (111, Common, ''getpgrp'', Some (''sys_getpgrp'', False)),
    (112, Common, ''setsid'', Some (''sys_setsid'', False)),
    (113, Common, ''setreuid'', Some (''sys_setreuid'', False))]"

definition rows_3 :: "row list" where
  "rows_3 = [
    (114, Common, ''setregid'', Some (''sys_setregid'', False)),
    (115, Common, ''getgroups'', Some (''sys_getgroups'', False)),
    (116, Common, ''setgroups'', Some (''sys_setgroups'', False)),
    (117, Common, ''setresuid'', Some (''sys_setresuid'', False)),
    (118, Common, ''getresuid'', Some (''sys_getresuid'', False)),
    (119, Common, ''setresgid'', Some (''sys_setresgid'', False)),
    (120, Common, ''getresgid'', Some (''sys_getresgid'', False)),
    (121, Common, ''getpgid'', Some (''sys_getpgid'', False)),
    (122, Common, ''setfsuid'', Some (''sys_setfsuid'', False)),
    (123, Common, ''setfsgid'', Some (''sys_setfsgid'', False)),
    (124, Common, ''getsid'', Some (''sys_getsid'', False)),
    (125, Common, ''capget'', Some (''sys_capget'', False)),
    (126, Common, ''capset'', Some (''sys_capset'', False)),
    (127, Abi_64, ''rt_sigpending'', Some (''sys_rt_sigpending'', False)),
    (128, Abi_64, ''rt_sigtimedwait'', Some (''sys_rt_sigtimedwait'', False)),
    (129, Abi_64, ''rt_sigqueueinfo'', Some (''sys_rt_sigqueueinfo'', False)),
    (130, Common, ''rt_sigsuspend'', Some (''sys_rt_sigsuspend'', False)),
    (131, Abi_64, ''sigaltstack'', Some (''sys_sigaltstack'', False)),
    (132, Common, ''utime'', Some (''sys_utime'', False)),
    (133, Common, ''mknod'', Some (''sys_mknod'', False)),
    (134, Abi_64, ''uselib'', None),
    (135, Common, ''personality'', Some (''sys_personality'', False)),
    (136, Common, ''ustat'', Some (''sys_ustat'', False)),
    (137, Common, ''statfs'', Some (''sys_statfs'', False)),
    (138, Common, ''fstatfs'', Some (''sys_fstatfs'', False)),
    (139, Common, ''sysfs'', Some (''sys_sysfs'', False)),
    (140, Common, ''getpriority'', Some (''sys_getpriority'', False)),
    (141, Common, ''setpriority'', Some (''sys_setpriority'', False)),
    (142, Common, ''sched_setparam'', Some (''sys_sched_setparam'', False)),
    (143, Common, ''sched_getparam'', Some (''sys_sched_getparam'', False)),
    (144, Common, ''sched_setscheduler'', Some (''sys_sched_setscheduler'', False)),
    (145, Common, ''sched_getscheduler'', Some (''sys_sched_getscheduler'', False)),
    (146, Common, ''sched_get_priority_max'', Some (''sys_sched_get_priority_max'', False)),
    (147, Common, ''sched_get_priority_min'', Some (''sys_sched_get_priority_min'', False)),
    (148, Common, ''sched_rr_get_interval'', Some (''sys_sched_rr_get_interval'', False)),
    (149, Common, ''mlock'', Some (''sys_mlock'', False)),
    (150, Common, ''munlock'', Some (''sys_munlock'', False)),
    (151, Common, ''mlockall'', Some (''sys_mlockall'', False)),
    (152, Common, ''munlockall'', Some (''sys_munlockall'', False)),
    (153, Common, ''vhangup'', Some (''sys_vhangup'', False)),
    (154, Common, ''modify_ldt'', Some (''sys_modify_ldt'', False)),
    (155, Common, ''pivot_root'', Some (''sys_pivot_root'', False)),
    (156, Abi_64, ''_sysctl'', Some (''sys_sysctl'', False)),
    (157, Common, ''prctl'', Some (''sys_prctl'', False)),
    (158, Common, ''arch_prctl'', Some (''sys_arch_prctl'', False)),
    (159, Common, ''adjtimex'', Some (''sys_adjtimex'', False)),
    (160, Common, ''setrlimit'', Some (''sys_setrlimit'', False)),
    (161, Common, ''chroot'', Some (''sys_chroot'', False)),
    (162, Common, ''sync'', Some (''sys_sync'', False)),
    (163, Common, ''acct'', Some (''sys_acct'', False)),
    (164, Common, ''settimeofday'', Some (''sys_settimeofday'', False)),
    (165, Common, ''mount'', Some (''sys_mount'', False)),
    (166, Common, ''umount2'', Some (''sys_umount'', False)),
    (167, Common, ''swapon'', Some (''sys_swapon'', False)),
    (168, Common, ''swapoff'', Some (''sys_swapoff'', False)),
    (169, Common, ''reboot'', Some (''sys_reboot'', False)),
    (170, Common, ''sethostname'', Some (''sys_sethostname'', False))]"

definition rows_4 :: "row list" where
  "rows_4 = [
    (171, Common, ''setdomainname'', Some (''sys_setdomainname'', False)),
    (172, Common, ''iopl'', Some (''sys_iopl'', True)),
    (173, Common, ''ioperm'', Some (''sys_ioperm'', False)),
    (174, Abi_64, ''create_module'', None),
    (175, Common, ''init_module'', Some (''sys_init_module'', False)),
    (176, Common, ''delete_module'', Some (''sys_delete_module'', False)),
    (177, Abi_64, ''get_kernel_syms'', None),
    (178, Abi_64, ''query_module'', None),
    (179, Common, ''quotactl'', Some (''sys_quotactl'', False)),
    (180, Abi_64, ''nfsservctl'', None),
    (181, Common, ''getpmsg'', None),
    (182, Common, ''putpmsg'', None),
    (183, Common, ''afs_syscall'', None),
    (184, Common, ''tuxcall'', None),
    (185, Common, ''security'', None),
    (186, Common, ''gettid'', Some (''sys_gettid'', False)),
    (187, Common, ''readahead'', Some (''sys_readahead'', False)),
    (188, Common, ''setxattr'', Some (''sys_setxattr'', False)),
    (189, Common, ''lsetxattr'', Some (''sys_lsetxattr'', False)),
    (190, Common, ''fsetxattr'', Some (''sys_fsetxattr'', False)),
    (191, Common, ''getxattr'', Some (''sys_getxattr'', False)),
    (192, Common, ''lgetxattr'', Some (''sys_lgetxattr'', False)),
    (193, Common, ''fgetxattr'', Some (''sys_fgetxattr'', False)),
    (194, Common, ''listxattr'', Some (''sys_listxattr'', False)),
    (195, Common, ''llistxattr'', Some (''sys_llistxattr'', False)),
    (196, Common, ''flistxattr'', Some (''sys_flistxattr'', False)),
    (197, Common, ''removexattr'', Some (''sys_removexattr'', False)),
    (198, Common, ''lremovexattr'', Some (''sys_lremovexattr'', False)),
    (199, Common, ''fremovexattr'', Some (''sys_fremovexattr'', False)),
    (200, Common, ''tkill'', Some (''sys_tkill'', False)),
    (201, Common, ''time'', Some (''sys_time'', False)),
    (202, Common, ''futex'', Some (''sys_futex'', False)),
    (203, Common, ''sched_setaffinity'', Some (''sys_sched_setaffinity'', False)),
    (204, Common, ''sched_getaffinity'', Some (''sys_sched_getaffinity'', False)),
    (205, Abi_64, ''set_thread_area'', None),
    (206, Abi_64, ''io_setup'', Some (''sys_io_setup'', False)),
    (207, Common, ''io_destroy'', Some (''sys_io_destroy'', False)),
    (208, Common, ''io_getevents'', Some (''sys_io_getevents'', False)),
    (209, Abi_64, ''io_submit'', Some (''sys_io_submit'', False)),
    (210, Common, ''io_cancel'', Some (''sys_io_cancel'', False)),
    (211, Abi_64, ''get_thread_area'', None),
    (212, Common, ''lookup_dcookie'', Some (''sys_lookup_dcookie'', False)),
    (213, Common, ''epoll_create'', Some (''sys_epoll_create'', False)),
    (214, Abi_64, ''epoll_ctl_old'', None),
    (215, Abi_64, ''epoll_wait_old'', None),
    (216, Common, ''remap_file_pages'', Some (''sys_remap_file_pages'', False)),
    (217, Common, ''getdents64'', Some (''sys_getdents64'', False)),
    (218, Common, ''set_tid_address'', Some (''sys_set_tid_address'', False)),
    (219, Common, ''restart_syscall'', Some (''sys_restart_syscall'', False)),
    (220, Common, ''semtimedop'', Some (''sys_semtimedop'', False)),
    (221, Common, ''fadvise64'', Some (''sys_fadvise64'', False)),
    (222, Abi_64, ''timer_create'', Some (''sys_timer_create'', False)),
    (223, Common, ''timer_settime'', Some (''sys_timer_settime'', False)),
    (224, Common, ''timer_gettime'', Some (''sys_timer_gettime'', False)),
    (225, Common, ''timer_getoverrun'', Some (''sys_timer_getoverrun'', False)),
    (226, Common, ''timer_delete'', Some (''sys_timer_delete'', False)),
    (227, Common, ''clock_settime'', Some (''sys_clock_settime'', False))]"

definition rows_5 :: "row list" where
  "rows_5 = [
    (228, Common, ''clock_gettime'', Some (''sys_clock_gettime'', False)),
    (229, Common, ''clock_getres'', Some (''sys_clock_getres'', False)),
    (230, Common, ''clock_nanosleep'', Some (''sys_clock_nanosleep'', False)),
    (231, Common, ''exit_group'', Some (''sys_exit_group'', False)),
    (232, Common, ''epoll_wait'', Some (''sys_epoll_wait'', False)),
    (233, Common, ''epoll_ctl'', Some (''sys_epoll_ctl'', False)),
    (234, Common, ''tgkill'', Some (''sys_tgkill'', False)),
    (235, Common, ''utimes'', Some (''sys_utimes'', False)),
    (236, Abi_64, ''vserver'', None),
    (237, Common, ''mbind'', Some (''sys_mbind'', False)),
    (238, Common, ''set_mempolicy'', Some (''sys_set_mempolicy'', False)),
    (239, Common, ''get_mempolicy'', Some (''sys_get_mempolicy'', False)),
    (240, Common, ''mq_open'', Some (''sys_mq_open'', False)),
    (241, Common, ''mq_unlink'', Some (''sys_mq_unlink'', False)),
    (242, Common, ''mq_timedsend'', Some (''sys_mq_timedsend'', False)),
    (243, Common, ''mq_timedreceive'', Some (''sys_mq_timedreceive'', False)),
    (244, Abi_64, ''mq_notify'', Some (''sys_mq_notify'', False)),
    (245, Common, ''mq_getsetattr'', Some (''sys_mq_getsetattr'', False)),
    (246, Abi_64, ''kexec_load'', Some (''sys_kexec_load'', False)),
    (247, Abi_64, ''waitid'', Some (''sys_waitid'', False)),
    (248, Common, ''add_key'', Some (''sys_add_key'', False)),
    (249, Common, ''request_key'', Some (''sys_request_key'', False)),
    (250, Common, ''keyctl'', Some (''sys_keyctl'', False)),
    (251, Common, ''ioprio_set'', Some (''sys_ioprio_set'', False)),
    (252, Common, ''ioprio_get'', Some (''sys_ioprio_get'', False)),
    (253, Common, ''inotify_init'', Some (''sys_inotify_init'', False)),
    (254, Common, ''inotify_add_watch'', Some (''sys_inotify_add_watch'', False)),
    (255, Common, ''inotify_rm_watch'', Some (''sys_inotify_rm_watch'', False)),
    (256, Common, ''migrate_pages'', Some (''sys_migrate_pages'', False)),
    (257, Common, ''openat'', Some (''sys_openat'', False)),
    (258, Common, ''mkdirat'', Some (''sys_mkdirat'', False)),
    (259, Common, ''mknodat'', Some (''sys_mknodat'', False)),
    (260, Common, ''fchownat'', Some (''sys_fchownat'', False)),
    (261, Common, ''futimesat'', Some (''sys_futimesat'', False)),
    (262, Common, ''newfstatat'', Some (''sys_newfstatat'', False)),
    (263, Common, ''unlinkat'', Some (''sys_unlinkat'', False)),
    (264, Common, ''renameat'', Some (''sys_renameat'', False)),
    (265, Common, ''linkat'', Some (''sys_linkat'', False)),
    (266, Common, ''symlinkat'', Some (''sys_symlinkat'', False)),
    (267, Common, ''readlinkat'', Some (''sys_readlinkat'', False)),
    (268, Common, ''fchmodat'', Some (''sys_fchmodat'', False)),
    (269, Common, ''faccessat'', Some (''sys_faccessat'', False)),
    (270, Common, ''pselect6'', Some (''sys_pselect6'', False)),
    (271, Common, ''ppoll'', Some (''sys_ppoll'', False)),
    (272, Common, ''unshare'', Some (''sys_unshare'', False)),
    (273, Abi_64, ''set_robust_list'', Some (''sys_set_robust_list'', False)),
    (274, Abi_64, ''get_robust_list'', Some (''sys_get_robust_list'', False)),
    (275, Common, ''splice'', Some (''sys_splice'', False)),
    (276, Common, ''tee'', Some (''sys_tee'', False)),
    (277, Common, ''sync_file_range'', Some (''sys_sync_file_range'', False)),
    (278, Abi_64, ''vmsplice'', Some (''sys_vmsplice'', False)),
    (279, Abi_64, ''move_pages'', Some (''sys_move_pages'', False)),
    (280, Common, ''utimensat'', Some (''sys_utimensat'', False)),
    (281, Common, ''epoll_pwait'', Some (''sys_epoll_pwait'', False)),
    (282, Common, ''signalfd'', Some (''sys_signalfd'', False)),
    (283, Common, ''timerfd_create'', Some (''sys_timerfd_create'', False)),
    (284, Common, ''eventfd'', Some (''sys_eventfd'', False))]"

definition rows_6 :: "row list" where
  "rows_6 = [
    (285, Common, ''fallocate'', Some (''sys_fallocate'', False)),
    (286, Common, ''timerfd_settime'', Some (''sys_timerfd_settime'', False)),
    (287, Common, ''timerfd_gettime'', Some (''sys_timerfd_gettime'', False)),
    (288, Common, ''accept4'', Some (''sys_accept4'', False)),
    (289, Common, ''signalfd4'', Some (''sys_signalfd4'', False)),
    (290, Common, ''eventfd2'', Some (''sys_eventfd2'', False)),
    (291, Common, ''epoll_create1'', Some (''sys_epoll_create1'', False)),
    (292, Common, ''dup3'', Some (''sys_dup3'', False)),
    (293, Common, ''pipe2'', Some (''sys_pipe2'', False)),
    (294, Common, ''inotify_init1'', Some (''sys_inotify_init1'', False)),
    (295, Abi_64, ''preadv'', Some (''sys_preadv'', False)),
    (296, Abi_64, ''pwritev'', Some (''sys_pwritev'', False)),
    (297, Abi_64, ''rt_tgsigqueueinfo'', Some (''sys_rt_tgsigqueueinfo'', False)),
    (298, Common, ''perf_event_open'', Some (''sys_perf_event_open'', False)),
    (299, Abi_64, ''recvmmsg'', Some (''sys_recvmmsg'', False)),
    (300, Common, ''fanotify_init'', Some (''sys_fanotify_init'', False)),
    (301, Common, ''fanotify_mark'', Some (''sys_fanotify_mark'', False)),
    (302, Common, ''prlimit64'', Some (''sys_prlimit64'', False)),
    (303, Common, ''name_to_handle_at'', Some (''sys_name_to_handle_at'', False)),
    (304, Common, ''open_by_handle_at'', Some (''sys_open_by_handle_at'', False)),
    (305, Common, ''clock_adjtime'', Some (''sys_clock_adjtime'', False)),
    (306, Common, ''syncfs'', Some (''sys_syncfs'', False)),
    (307, Abi_64, ''sendmmsg'', Some (''sys_sendmmsg'', False)),
    (308, Common, ''setns'', Some (''sys_setns'', False)),
    (309, Common, ''getcpu'', Some (''sys_getcpu'', False)),
    (310, Abi_64, ''process_vm_readv'', Some (''sys_process_vm_readv'', False)),
    (311, Abi_64, ''process_vm_writev'', Some (''sys_process_vm_writev'', False)),
    (312, Common, ''kcmp'', Some (''sys_kcmp'', False)),
    (313, Common, ''finit_module'', Some (''sys_finit_module'', False)),
    (314, Common, ''sched_setattr'', Some (''sys_sched_setattr'', False)),
    (315, Common, ''sched_getattr'', Some (''sys_sched_getattr'', False)),
    (316, Common, ''renameat2'', Some (''sys_renameat2'', False)),
    (317, Common, ''seccomp'', Some (''sys_seccomp'', False)),
    (318, Common, ''getrandom'', Some (''sys_getrandom'', False)),
    (319, Common, ''memfd_create'', Some (''sys_memfd_create'', False)),
    (320, Common, ''kexec_file_load'', Some (''sys_kexec_file_load'', False)),
    (321, Common, ''bpf'', Some (''sys_bpf'', False)),
    (322, Abi_64, ''execveat'', Some (''sys_execveat'', True)),
    (323, Common, ''userfaultfd'', Some (''sys_userfaultfd'', False)),
    (324, Common, ''membarrier'', Some (''sys_membarrier'', False)),
    (325, Common, ''mlock2'', Some (''sys_mlock2'', False)),
    (326, Common, ''copy_file_range'', Some (''sys_copy_file_range'', False)),
    (327, Abi_64, ''preadv2'', Some (''sys_preadv2'', False)),
    (328, Abi_64, ''pwritev2'', Some (''sys_pwritev2'', False)),
    (329, Common, ''pkey_mprotect'', Some (''sys_pkey_mprotect'', False)),
    (330, Common, ''pkey_alloc'', Some (''sys_pkey_alloc'', False)),
    (331, Common, ''pkey_free'', Some (''sys_pkey_free'', False)),
    (332, Common, ''statx'', Some (''sys_statx'', False)),
    (333, Common, ''hello'', Some (''sys_hello'', False)),
    (334, Common, ''set_weight'', Some (''sys_set_weight'', False)),
    (335, Common, ''get_weight'', Some (''sys_get_weight'', False)),
    (336, Common, ''get_leaf_children_sum'', Some (''sys_get_leaf_children_sum'', False)),
    (337, Common, ''get_heaviest_ancestor'', Some (''sys_get_heaviest_ancestor'', False))]"

definition rows_x32 :: "row list" where
  "rows_x32 = [
    (512, X32, ''rt_sigaction'', Some (''compat_sys_rt_sigaction'', False)),
    (513, X32, ''rt_sigreturn'', Some (''sys32_x32_rt_sigreturn'', False)),
    (514, X32, ''ioctl'', Some (''compat_sys_ioctl'', False)),
    (515, X32, ''readv'', Some (''compat_sys_readv'', False)),
    (516, X32, ''writev'', Some (''compat_sys_writev'', False)),
    (517, X32, ''recvfrom'', Some (''compat_sys_recvfrom'', False)),
    (518, X32, ''sendmsg'', Some (''compat_sys_sendmsg'', False)),
    (519, X32, ''recvmsg'', Some (''compat_sys_recvmsg'', False)),
    (520, X32, ''execve'', Some (''compat_sys_execve'', True)),
    (521, X32, ''ptrace'', Some (''compat_sys_ptrace'', False)),
    (522, X32, ''rt_sigpending'', Some (''compat_sys_rt_sigpending'', False)),
    (523, X32, ''rt_sigtimedwait'', Some (''compat_sys_rt_sigtimedwait'', False)),
    (524, X32, ''rt_sigqueueinfo'', Some (''compat_sys_rt_sigqueueinfo'', False)),
    (525, X32, ''sigaltstack'', Some (''compat_sys_sigaltstack'', False)),
    (526, X32, ''timer_create'', Some (''compat_sys_timer_create'', False)),
    (527, X32, ''mq_notify'', Some (''compat_sys_mq_notify'', False)),
    (528, X32, ''kexec_load'', Some (''compat_sys_kexec_load'', False)),
    (529, X32, ''waitid'', Some (''compat_sys_waitid'', False)),
    (530, X32, ''set_robust_list'', Some (''compat_sys_set_robust_list'', False)),
    (531, X32, ''get_robust_list'', Some (''compat_sys_get_robust_list'', False)),
    (532, X32, ''vmsplice'', Some (''compat_sys_vmsplice'', False)),
    (533, X32, ''move_pages'', Some (''compat_sys_move_pages'', False)),
    (534, X32, ''preadv'', Some (''compat_sys_preadv64'', False)),
    (535, X32, ''pwritev'', Some (''compat_sys_pwritev64'', False)),
    (536, X32, ''rt_tgsigqueueinfo'', Some (''compat_sys_rt_tgsigqueueinfo'', False)),
    (537, X32, ''recvmmsg'', Some (''compat_sys_recvmmsg'', False)),
    (538, X32, ''sendmmsg'', Some (''compat_sys_sendmmsg'', False)),
    (539, X32, ''process_vm_readv'', Some (''compat_sys_process_vm_readv'', False)),
    (540, X32, ''process_vm_writev'', Some (''compat_sys_process_vm_writev'', False)),
    (541, X32, ''setsockopt'', Some (''compat_sys_setsockopt'', False)),
    (542, X32, ''getsockopt'', Some (''compat_sys_getsockopt'', False)),
    (543, X32, ''io_setup'', Some (''compat_sys_io_setup'', False)),
    (544, X32, ''io_submit'', Some (''compat_sys_io_submit'', False)),
    (545, X32, ''execveat'', Some (''compat_sys_execveat'', True)),
    (546, X32, ''preadv2'', Some (''compat_sys_preadv64v2'', False)),
    (547, X32, ''pwritev2'', Some (''compat_sys_pwritev64v2'', False))]"

definition native_rows :: "row list" where
  "native_rows = rows_1 @ rows_2 @ rows_3 @ rows_4 @ rows_5 @ rows_6"

definition syscall_table :: "row list" where
  "syscall_table = native_rows @ rows_x32"

text \<open>The function behind a number of the native interfaces.\<close>

definition entry_point :: "nat \<Rightarrow> string option" where
  "entry_point nr = (case map_of native_rows nr of Some (abi, name, Some (f, ptregs)) \<Rightarrow> Some f | _ \<Rightarrow> None)"

section \<open>Numbers\<close>

lemma rows_numbers:
  "map fst rows_1 = [0..<57]"
  "map fst rows_2 = [57..<114]"
  "map fst rows_3 = [114..<171]"
  "map fst rows_4 = [171..<228]"
  "map fst rows_5 = [228..<285]"
  "map fst rows_6 = [285..<338]"
  "map fst rows_x32 = [512..<548]"
  by code_simp+

lemma native_numbers: "map fst native_rows = [0..<338]"
proof -
  have "[0..<338] = [0..<57] @ [57..<114] @ [114..<171] @ [171..<228] @ [228..<285] @ [285..<338]" by code_simp
  then show ?thesis by (simp only: native_rows_def map_append rows_numbers)
qed

section \<open>Declarations\<close>

text \<open>The declarations that do not depend on the configuration, and the functions declared in a configuration.\<close>

definition unconditional :: "(condition \<times> 'a list) list \<Rightarrow> 'a list" where
  "unconditional cs = everything (filter (\<lambda>(c, xs). c = Always) cs)"

definition declared :: "target \<Rightarrow> string \<Rightarrow> bool" where
  "declared tg f \<longleftrightarrow> f \<in> fst ` set (prototypes tg)"

lemma unconditional_simps:
  "unconditional [] = []" "unconditional ((Always, xs) # cs) = xs @ unconditional cs" "unconditional ((Ifdef n, xs) # cs) = unconditional cs"
  "unconditional ((Bits32, xs) # cs) = unconditional cs" "unconditional ((Unless c, xs) # cs) = unconditional cs"
  "unconditional ((Both c d, xs) # cs) = unconditional cs" "unconditional ((Either c d, xs) # cs) = unconditional cs"
  by (simp_all add: unconditional_def)

lemma unconditional_declared:
  assumes "set cs \<subseteq> set prototype_list"
  shows "list_all (\<lambda>p. declared tg (fst p)) (unconditional cs)"
  using assms by (force simp: list_all_iff declared_def prototypes_def in_select unconditional_def everything_def)

lemma parts_of_list:
  "set prototypes_1 \<subseteq> set prototype_list"
  "set prototypes_2 \<subseteq> set prototype_list"
  "set prototypes_3 \<subseteq> set prototype_list"
  "set prototypes_4 \<subseteq> set prototype_list"
  "set prototypes_5 \<subseteq> set prototype_list"
  "set prototypes_6 \<subseteq> set prototype_list"
  "set prototypes_7 \<subseteq> set prototype_list"
  "set prototypes_8 \<subseteq> set prototype_list"
  by (auto simp: prototype_list_def)

lemmas unconditional_rules = unconditional_simps list_all_append list.pred_inject append.simps fst_conv simp_thms

lemmas declared_1 = unconditional_declared [OF parts_of_list(1), unfolded prototypes_1_def, simplified unconditional_rules]
lemmas declared_2 = unconditional_declared [OF parts_of_list(2), unfolded prototypes_2_def, simplified unconditional_rules]
lemmas declared_3 = unconditional_declared [OF parts_of_list(3), unfolded prototypes_3_def, simplified unconditional_rules]
lemmas declared_4 = unconditional_declared [OF parts_of_list(4), unfolded prototypes_4_def, simplified unconditional_rules]
lemmas declared_5 = unconditional_declared [OF parts_of_list(5), unfolded prototypes_5_def, simplified unconditional_rules]
lemmas declared_6 = unconditional_declared [OF parts_of_list(6), unfolded prototypes_6_def, simplified unconditional_rules]
lemmas declared_7 = unconditional_declared [OF parts_of_list(7), unfolded prototypes_7_def, simplified unconditional_rules]
lemmas declared_8 = unconditional_declared [OF parts_of_list(8), unfolded prototypes_8_def, simplified unconditional_rules]

lemma clone_declared: "declared tg ''sys_clone''"
proof -
  have "\<exists>ps. (''sys_clone'', ps) \<in> set (select tg prototypes_8)"
    by (cases "defined tg ''CONFIG_CLONE_BACKWARDS''"; cases "defined tg ''CONFIG_CLONE_BACKWARDS3''") (auto simp: prototypes_8_def)
  then show ?thesis by (force simp: declared_def prototypes_def prototype_list_def)
qed

lemma rt_sigaction_declared:
  assumes "\<not> defined tg ''CONFIG_ODD_RT_SIGACTION''"
  shows "declared tg ''sys_rt_sigaction''"
proof -
  have "\<exists>ps. (''sys_rt_sigaction'', ps) \<in> set (select tg prototypes_2)" using assms by (auto simp: prototypes_2_def)
  then show ?thesis by (force simp: declared_def prototypes_def prototype_list_def)
qed

text \<open>Functions of the architecture; they are declared in \<open>asm/syscalls.h\<close>.\<close>

definition arch_functions :: "string list" where
  "arch_functions = [''sys_mmap'', ''sys_rt_sigreturn'', ''sys_modify_ldt'', ''sys_arch_prctl'', ''sys_iopl'']"

definition row_ok :: "target \<Rightarrow> row \<Rightarrow> bool" where
  "row_ok tg r \<longleftrightarrow> (case r of (nr, abi, name, None) \<Rightarrow> True | (nr, abi, name, Some (f, ptregs)) \<Rightarrow> declared tg f \<or> f \<in> set arch_functions)"

lemma row_ok_simps:
  "row_ok tg (nr, abi, name, None) = True" "row_ok tg (nr, abi, name, Some (f, ptregs)) = (declared tg f \<or> f \<in> set arch_functions)"
  by (simp_all add: row_ok_def)

lemma arch_rules:
  "''sys_mmap'' \<in> set arch_functions" "''sys_rt_sigreturn'' \<in> set arch_functions" "''sys_modify_ldt'' \<in> set arch_functions"
  "''sys_arch_prctl'' \<in> set arch_functions" "''sys_iopl'' \<in> set arch_functions"
  by (simp_all add: arch_functions_def)

lemma rows_1_ok:
  assumes "\<not> defined tg ''CONFIG_ODD_RT_SIGACTION''"
  shows "list_all (row_ok tg) rows_1"
  by (simp only: rows_1_def list.pred_inject row_ok_simps simp_thms declared_1 declared_2 declared_3 declared_4 declared_5 declared_6 declared_7 declared_8 clone_declared rt_sigaction_declared [OF assms] arch_rules)

lemma rows_2_ok:
  assumes "\<not> defined tg ''CONFIG_ODD_RT_SIGACTION''"
  shows "list_all (row_ok tg) rows_2"
  by (simp only: rows_2_def list.pred_inject row_ok_simps simp_thms declared_1 declared_2 declared_3 declared_4 declared_5 declared_6 declared_7 declared_8 clone_declared rt_sigaction_declared [OF assms] arch_rules)

lemma rows_3_ok:
  assumes "\<not> defined tg ''CONFIG_ODD_RT_SIGACTION''"
  shows "list_all (row_ok tg) rows_3"
  by (simp only: rows_3_def list.pred_inject row_ok_simps simp_thms declared_1 declared_2 declared_3 declared_4 declared_5 declared_6 declared_7 declared_8 clone_declared rt_sigaction_declared [OF assms] arch_rules)

lemma rows_4_ok:
  assumes "\<not> defined tg ''CONFIG_ODD_RT_SIGACTION''"
  shows "list_all (row_ok tg) rows_4"
  by (simp only: rows_4_def list.pred_inject row_ok_simps simp_thms declared_1 declared_2 declared_3 declared_4 declared_5 declared_6 declared_7 declared_8 clone_declared rt_sigaction_declared [OF assms] arch_rules)

lemma rows_5_ok:
  assumes "\<not> defined tg ''CONFIG_ODD_RT_SIGACTION''"
  shows "list_all (row_ok tg) rows_5"
  by (simp only: rows_5_def list.pred_inject row_ok_simps simp_thms declared_1 declared_2 declared_3 declared_4 declared_5 declared_6 declared_7 declared_8 clone_declared rt_sigaction_declared [OF assms] arch_rules)

lemma rows_6_ok:
  assumes "\<not> defined tg ''CONFIG_ODD_RT_SIGACTION''"
  shows "list_all (row_ok tg) rows_6"
  by (simp only: rows_6_def list.pred_inject row_ok_simps simp_thms declared_1 declared_2 declared_3 declared_4 declared_5 declared_6 declared_7 declared_8 clone_declared rt_sigaction_declared [OF assms] arch_rules)


lemma native_rows_ok: "\<not> defined tg ''CONFIG_ODD_RT_SIGACTION'' \<Longrightarrow> list_all (row_ok tg) native_rows"
  by (simp add: native_rows_def rows_1_ok rows_2_ok rows_3_ok rows_4_ok rows_5_ok rows_6_ok)

lemma row_unique: "(nr, r) \<in> set native_rows \<Longrightarrow> map_of native_rows nr = Some r"
  using native_numbers by (intro map_of_is_SomeI) simp_all

lemma row_exists: "nr < 338 \<longleftrightarrow> (\<exists>r. map_of native_rows nr = Some r)"
proof -
  have "nr < 338 \<longleftrightarrow> nr \<in> fst ` set native_rows" using native_numbers by (metis atLeastLessThan_iff list.set_map set_upt zero_le)
  then show ?thesis by (metis map_of_eq_None_iff not_None_eq)
qed

text \<open>
  C30. The table of the native system calls is complete and consistent with the header: the numbers from 0 to 337 have exactly one row each and no other number
  has one, and every function in it is declared in \<open>linux/syscalls.h\<close>, apart from five functions of the architecture. This holds for every configuration
  of the header without \<open>CONFIG_ODD_RT_SIGACTION\<close>, which x86 does not have.
\<close>

theorem native_calls_are_declared:
  assumes "\<not> defined tg ''CONFIG_ODD_RT_SIGACTION''"
  shows "((\<exists>!r. (nr, r) \<in> set native_rows) \<longleftrightarrow> nr < 338)
    \<and> (\<forall>f. entry_point nr = Some f \<longrightarrow> (\<exists>ps. (f, ps) \<in> set (prototypes tg)) \<or> f \<in> set arch_functions)"
proof (intro conjI allI impI)
  have "(\<exists>!r. (nr, r) \<in> set native_rows) \<longleftrightarrow> (\<exists>r. map_of native_rows nr = Some r)"
    using row_unique map_of_SomeD [of native_rows nr] by (metis option.inject)
  then show "(\<exists>!r. (nr, r) \<in> set native_rows) \<longleftrightarrow> nr < 338" using row_exists by simp
next
  fix f
  assume "entry_point nr = Some f"
  then obtain abi name ptregs where "(nr, abi, name, Some (f, ptregs)) \<in> set native_rows"
    unfolding entry_point_def by (auto dest: map_of_SomeD split: option.splits prod.splits)
  then have "row_ok tg (nr, abi, name, Some (f, ptregs))" using native_rows_ok [OF assms] by (metis list_all_iff)
  then show "(\<exists>ps. (f, ps) \<in> set (prototypes tg)) \<or> f \<in> set arch_functions"
    unfolding row_ok_simps declared_def by (auto simp: image_iff)
qed

lemma entry_334: "entry_point 334 = Some ''sys_set_weight''"
proof -
  have "(334, Common, ''set_weight'', Some (''sys_set_weight'', False)) \<in> set rows_6" by (simp add: rows_6_def)
  then have "(334, Common, ''set_weight'', Some (''sys_set_weight'', False)) \<in> set native_rows" by (simp add: native_rows_def)
  then show ?thesis by (simp add: entry_point_def row_unique)
qed

theorem native_calls_are_declared_witness:
  "(\<exists>ps. (''sys_set_weight'', ps) \<in> set (prototypes (x86_64\<lparr>defined := \<lambda>_. False\<rparr>))) \<or> ''sys_set_weight'' \<in> set arch_functions"
  using native_calls_are_declared [of "x86_64\<lparr>defined := \<lambda>_. False\<rparr>" 334] entry_334 by simp

end
