(* ===== verification/Struct_Layout.thy ===== *)
theory Struct_Layout
  imports C_Decl
begin

text \<open>
  How the compiler lays out a structure: every member at the next multiple of its alignment, bit-fields of type \<open>unsigned int\<close> next to each other within
  units of 32 bits, and a bit-field of width 0 as the end of a unit. Positions are in bits. Alignments are powers of two, so
  that the least common multiple is the largest of them.
\<close>

section \<open>Placing fields\<close>

datatype field = Member ctype string | Aligned nat ctype string | Bits nat string | Next_unit

fun field_name :: "field \<Rightarrow> string" where
  "field_name (Member t n) = n"
| "field_name (Aligned a t n) = n"
| "field_name (Bits w n) = n"
| "field_name Next_unit = []"

fun field_align :: "target \<Rightarrow> field \<Rightarrow> nat" where
  "field_align tg (Member t n) = c_alignof tg t"
| "field_align tg (Aligned a t n) = lcm a (c_alignof tg t)"
| "field_align tg (Bits w n) = 4"
| "field_align tg Next_unit = 1"

fun field_bits :: "target \<Rightarrow> field \<Rightarrow> nat" where
  "field_bits tg (Member t n) = 8 * c_sizeof tg t"
| "field_bits tg (Aligned a t n) = 8 * c_sizeof tg t"
| "field_bits tg (Bits w n) = w"
| "field_bits tg Next_unit = 0"

definition round_up :: "nat \<Rightarrow> nat \<Rightarrow> nat" where
  "round_up n a = (n + a - 1) div a * a"

fun field_start :: "target \<Rightarrow> nat \<Rightarrow> field \<Rightarrow> nat" where
  "field_start tg pos (Bits w n) = (if pos div 32 = (pos + w - 1) div 32 then pos else round_up pos 32)"
| "field_start tg pos Next_unit = round_up pos 32"
| "field_start tg pos f = round_up pos (8 * field_align tg f)"

fun place :: "target \<Rightarrow> nat \<Rightarrow> field list \<Rightarrow> (field \<times> nat) list" where
  "place tg pos [] = []"
| "place tg pos (f # fs) = (f, field_start tg pos f) # place tg (field_start tg pos f + field_bits tg f) fs"

fun fields_end :: "target \<Rightarrow> nat \<Rightarrow> field list \<Rightarrow> nat" where
  "fields_end tg pos [] = pos"
| "fields_end tg pos (f # fs) = fields_end tg (field_start tg pos f + field_bits tg f) fs"

definition fields_align :: "target \<Rightarrow> field list \<Rightarrow> nat" where
  "fields_align tg fs = foldr (\<lambda>f a. lcm (field_align tg f) a) fs 1"

definition struct_layout :: "target \<Rightarrow> field list \<Rightarrow> nat \<times> nat" where
  "struct_layout tg fs = (round_up (fields_end tg 0 fs) (8 * fields_align tg fs) div 8, fields_align tg fs)"

definition union_layout :: "(nat \<times> nat) list \<Rightarrow> nat \<times> nat" where
  "union_layout ls = (let a = foldr (\<lambda>(s, a) b. lcm a b) ls 1 in (round_up (foldr (\<lambda>(s, a). max s) ls 0) a, a))"

section \<open>Rounding\<close>

lemma round_up_dvd [simp]: "a dvd round_up n a"
  by (simp add: round_up_def)

lemma round_up_ge: "0 < a \<Longrightarrow> n \<le> round_up n a"
proof -
  assume a: "0 < a"
  have "(n + a - 1) div a * a + (n + a - 1) mod a = n + a - 1" by simp
  moreover have "(n + a - 1) mod a < a" using a by simp
  ultimately show ?thesis unfolding round_up_def using a by linarith
qed

lemma round_up_id: "0 < a \<Longrightarrow> a dvd n \<Longrightarrow> round_up n a = n"
proof -
  assume a: "0 < a" "a dvd n"
  then obtain k where k: "n = a * k" by (elim dvdE)
  have "a * k + a - 1 = (a - 1) + a * k" using a(1) by simp
  then have "(a * k + a - 1) div a = k" using a(1) by (simp only: div_mult_self2) simp
  then show ?thesis using k by (simp add: round_up_def)
qed

section \<open>What holds of every layout\<close>

fun field_ok :: "field \<Rightarrow> bool" where
  "field_ok (Aligned a t n) = (0 < a)"
| "field_ok (Bits w n) = (0 < w \<and> w \<le> 32)"
| "field_ok f = True"

text \<open>A member is aligned, and a bit-field lies in one unit.\<close>

fun well_placed :: "target \<Rightarrow> field \<times> nat \<Rightarrow> bool" where
  "well_placed tg (Bits w n, s) \<longleftrightarrow> s div 32 = (s + w - 1) div 32"
| "well_placed tg (Next_unit, s) \<longleftrightarrow> 32 dvd s"
| "well_placed tg (f, s) \<longleftrightarrow> 8 * field_align tg f dvd s"

lemma field_align_pos: "target_ok tg \<Longrightarrow> field_ok f \<Longrightarrow> 0 < field_align tg f"
  using alignof_pos [of tg] by (cases f) (auto simp: lcm_pos_nat)

lemma field_start_ge: "target_ok tg \<Longrightarrow> field_ok f \<Longrightarrow> pos \<le> field_start tg pos f"
  using field_align_pos [of tg f] by (cases f) (auto intro!: round_up_ge)

lemma fields_end_ge: "target_ok tg \<Longrightarrow> list_all field_ok fs \<Longrightarrow> pos \<le> fields_end tg pos fs"
proof (induction fs arbitrary: pos)
  case (Cons f fs)
  have "pos \<le> field_start tg pos f" using Cons.prems by (intro field_start_ge) simp_all
  moreover have "field_start tg pos f + field_bits tg f \<le> fields_end tg (field_start tg pos f + field_bits tg f) fs"
    using Cons by simp
  ultimately show ?case by simp
qed simp

lemma place_append: "place tg pos (fs @ gs) = place tg pos fs @ place tg (fields_end tg pos fs) gs"
  by (induction fs arbitrary: pos) auto

lemma fields_end_append: "fields_end tg pos (fs @ gs) = fields_end tg (fields_end tg pos fs) gs"
  by (induction fs arbitrary: pos) auto

lemma map_fst_place [simp]: "map fst (place tg pos fs) = fs"
  by (induction fs arbitrary: pos) auto

lemma place_bounds:
  assumes "target_ok tg" "list_all field_ok fs" "(f, s) \<in> set (place tg pos fs)"
  shows "pos \<le> s \<and> s + field_bits tg f \<le> fields_end tg pos fs"
  using assms(2,3)
proof (induction fs arbitrary: pos)
  case (Cons g gs)
  let ?s = "field_start tg pos g"
  have ok: "field_ok g" "list_all field_ok gs" using Cons.prems(1) by simp_all
  have g: "pos \<le> ?s" by (rule field_start_ge [OF assms(1) ok(1)])
  show ?case
  proof (cases "(f, s) = (g, ?s)")
    case True
    then show ?thesis using g fields_end_ge [OF assms(1) ok(2)] by simp
  next
    case False
    then show ?thesis using Cons.IH [OF ok(2), of "?s + field_bits tg g"] Cons.prems(2) g by auto
  qed
qed simp

lemma place_ordered:
  assumes "target_ok tg" "list_all field_ok fs"
  shows "sorted_wrt (\<lambda>(f, s) (g, u). s + field_bits tg f \<le> u) (place tg pos fs)"
  using assms(2)
proof (induction fs arbitrary: pos)
  case (Cons f fs)
  then have ok: "list_all field_ok fs" by simp
  then show ?case using Cons.IH place_bounds [OF assms(1) ok] by auto
qed simp

lemma unit_start: "0 < w \<Longrightarrow> w \<le> 32 \<Longrightarrow> 32 dvd s \<Longrightarrow> (s + w - 1) div 32 = s div (32 :: nat)"
  by (auto elim!: dvdE)

lemma place_well_placed:
  assumes "list_all field_ok fs"
  shows "\<forall>p\<in>set (place tg pos fs). well_placed tg p"
  using assms
proof (induction fs arbitrary: pos)
  case (Cons f fs)
  have "well_placed tg (f, field_start tg pos f)"
    using Cons.prems unit_start by (cases f) auto
  then show ?case using Cons by auto
qed simp

section \<open>Structures as types\<close>

lemma field_align_dvd: "f \<in> set fs \<Longrightarrow> field_align tg f dvd fields_align tg fs"
  unfolding fields_align_def by (induction fs) (auto intro: dvd_trans [OF _ dvd_lcm2])

lemma fields_align_pos: "target_ok tg \<Longrightarrow> list_all field_ok fs \<Longrightarrow> 0 < fields_align tg fs"
  unfolding fields_align_def by (induction fs) (auto simp: lcm_pos_nat field_align_pos)

definition layout_ok :: "nat \<times> nat \<Rightarrow> bool" where
  "layout_ok l \<longleftrightarrow> 0 < snd l \<and> snd l dvd fst l"

lemma struct_layout_ok:
  assumes "target_ok tg" "list_all field_ok fs"
  shows "layout_ok (struct_layout tg fs)"
proof -
  have "8 * fields_align tg fs dvd round_up (fields_end tg 0 fs) (8 * fields_align tg fs)" by simp
  then obtain k where "round_up (fields_end tg 0 fs) (8 * fields_align tg fs) = 8 * fields_align tg fs * k" by (rule dvdE)
  then show ?thesis using fields_align_pos [OF assms] by (simp add: layout_ok_def struct_layout_def)
qed

lemma union_layout_ok:
  assumes "list_all layout_ok ls"
  shows "layout_ok (union_layout ls)"
proof -
  have "0 < foldr (\<lambda>(s, a) b. lcm a b) ls 1" using assms by (induction ls) (auto simp: layout_ok_def lcm_pos_nat)
  then show ?thesis by (simp add: layout_ok_def union_layout_def Let_def)
qed

text \<open>After the declaration of a type, its size is known.\<close>

definition declare_type :: "ctype \<Rightarrow> nat \<times> nat \<Rightarrow> target \<Rightarrow> target" where
  "declare_type t l tg = tg\<lparr>layout_of := (layout_of tg)(t := l)\<rparr>"

lemma declare_type_ok: "target_ok tg \<Longrightarrow> layout_ok l \<Longrightarrow> target_ok (declare_type t l tg)"
  by (auto simp: target_ok_def declare_type_def layout_ok_def)

lemma declare_type_simps [simp]: "defined (declare_type t l tg) = defined tg" "macro_value (declare_type t l tg) = macro_value tg"
  "long_bytes (declare_type t l tg) = long_bytes tg"
  by (simp_all add: declare_type_def)

lemma select_target: "defined tg = defined tg' \<Longrightarrow> long_bytes tg = long_bytes tg' \<Longrightarrow> select tg cs = select tg' cs"
proof (induction cs)
  case (Cons c cs)
  have "holds tg d = holds tg' d" for d using Cons.prems by (induction d) auto
  then show ?case using Cons by (cases c) auto
qed simp

lemma list_all_select: "list_all P (everything cs) \<Longrightarrow> list_all P (select tg cs)"
  using select_subset [of tg cs] by (auto simp: list_all_iff)

section \<open>An anonymous structure inside\<close>

definition place_inner :: "target \<Rightarrow> nat \<Rightarrow> field list \<Rightarrow> (field \<times> nat) list" where
  "place_inner tg pos fs = map (\<lambda>(f, s). (f, round_up pos (8 * fields_align tg fs) + s)) (place tg 0 fs)"

definition inner_end :: "target \<Rightarrow> nat \<Rightarrow> field list \<Rightarrow> nat" where
  "inner_end tg pos fs = round_up pos (8 * fields_align tg fs) + 8 * fst (struct_layout tg fs)"

lemma inner_size:
  assumes "target_ok tg" "list_all field_ok fs"
  shows "fields_end tg 0 fs \<le> 8 * fst (struct_layout tg fs)"
proof -
  have "8 dvd round_up (fields_end tg 0 fs) (8 * fields_align tg fs)" using round_up_dvd dvd_mult_left by blast
  then have "8 * fst (struct_layout tg fs) = round_up (fields_end tg 0 fs) (8 * fields_align tg fs)" by (simp add: struct_layout_def)
  then show ?thesis using round_up_ge [of "8 * fields_align tg fs"] fields_align_pos [OF assms] by simp
qed

lemma place_inner_bounds:
  assumes "target_ok tg" "list_all field_ok fs" "(f, s) \<in> set (place_inner tg pos fs)"
  shows "pos \<le> s \<and> s + field_bits tg f \<le> inner_end tg pos fs"
proof -
  let ?o = "round_up pos (8 * fields_align tg fs)"
  obtain u where u: "(f, u) \<in> set (place tg 0 fs)" "s = ?o + u" using assms(3) by (auto simp: place_inner_def)
  have "pos \<le> ?o" using round_up_ge fields_align_pos [OF assms(1,2)] by simp
  then show ?thesis using place_bounds [OF assms(1,2) u(1)] inner_size [OF assms(1,2)] u(2) by (simp add: inner_end_def)
qed

lemma place_inner_ordered:
  assumes "target_ok tg" "list_all field_ok fs"
  shows "sorted_wrt (\<lambda>(f, s) (g, u). s + field_bits tg f \<le> u) (place_inner tg pos fs)"
  using place_ordered [OF assms, of 0] by (auto simp: place_inner_def sorted_wrt_map case_prod_beta elim: sorted_wrt_mono_rel [rotated])

lemma well_placed_shift:
  assumes "well_placed tg (f, s)" "8 * field_align tg f dvd k" "32 dvd k" "field_ok f"
  shows "well_placed tg (f, k + s)"
proof (cases f)
  case (Bits w n)
  obtain m where "k = 32 * m" using assms(3) by (rule dvdE)
  moreover have "k + s + w - 1 = k + (s + w - 1)" using assms(4) Bits by simp
  ultimately show ?thesis using assms(1) Bits by simp
qed (use assms in auto)

lemma place_inner_well_placed:
  assumes "list_all field_ok fs" "4 dvd fields_align tg fs"
  shows "\<forall>p\<in>set (place_inner tg pos fs). well_placed tg p"
proof (intro ballI)
  fix p
  assume p: "p \<in> set (place_inner tg pos fs)"
  let ?o = "round_up pos (8 * fields_align tg fs)"
  obtain f u where u: "(f, u) \<in> set (place tg 0 fs)" "p = (f, ?o + u)" using p by (auto simp: place_inner_def)
  have "f \<in> set fs" using u(1) map_fst_place [of tg 0 fs] by (metis fst_conv image_eqI list.set_map)
  then have "8 * field_align tg f dvd ?o" using field_align_dvd by (meson dvd_trans mult_dvd_mono dvd_refl round_up_dvd)
  moreover have "32 dvd 8 * fields_align tg fs" using assms(2) by (auto elim!: dvdE)
  then have "32 dvd ?o" using round_up_dvd dvd_trans by blast
  moreover have "field_ok f" using \<open>f \<in> set fs\<close> assms(1) by (simp add: list_all_iff)
  ultimately show "well_placed tg p" using well_placed_shift place_well_placed [OF assms(1), of tg 0] u by simp
qed

end
