(* ===== verification/Task_Structs.thy ===== *)
theory Task_Structs
  imports Struct_Layout
begin

text \<open>
  The data structures of \<open>include/linux/sched.h\<close>, with \<open>struct task_struct\<close> as the last and largest, in the order of the file and cut at its
  conditions. Sizes and alignments of types of other headers are part of the \<open>target\<close>.
\<close>

section \<open>The smaller structures\<close>

datatype vtime_state = VTIME_INACTIVE | VTIME_USER | VTIME_SYS

definition prev_cputime_fields :: "target \<Rightarrow> (condition \<times> field list) list" where
  "prev_cputime_fields tg = [
    (Unless (Ifdef ''CONFIG_VIRT_CPU_ACCOUNTING_NATIVE''), [
       Member (Typedef ''u64'') ''utime'', Member (Typedef ''u64'') ''stime'', Member (Typedef ''raw_spinlock_t'') ''lock''])]"

definition task_cputime_fields :: "target \<Rightarrow> (condition \<times> field list) list" where
  "task_cputime_fields tg = [
    (Always, [
       Member (Typedef ''u64'') ''utime'', Member (Typedef ''u64'') ''stime'', Member (Unsigned CLongLong) ''sum_exec_runtime''])]"

definition vtime_fields :: "target \<Rightarrow> (condition \<times> field list) list" where
  "vtime_fields tg = [
    (Always, [
       Member (Typedef ''seqcount_t'') ''seqcount'', Member (Unsigned CLongLong) ''starttime'', Member (Enum ''vtime_state'') ''state'',
       Member (Typedef ''u64'') ''utime'', Member (Typedef ''u64'') ''stime'', Member (Typedef ''u64'') ''gtime''])]"

definition sched_info_fields :: "target \<Rightarrow> (condition \<times> field list) list" where
  "sched_info_fields tg = [
    (Ifdef ''CONFIG_SCHED_INFO'', [
       Member (Unsigned CLong) ''pcount'', Member (Unsigned CLongLong) ''run_delay'', Member (Unsigned CLongLong) ''last_arrival'',
       Member (Unsigned CLongLong) ''last_queued''])]"

definition load_weight_fields :: "target \<Rightarrow> (condition \<times> field list) list" where
  "load_weight_fields tg = [
    (Always, [
       Member (Unsigned CLong) ''weight'', Member (Typedef ''u32'') ''inv_weight''])]"

definition sched_avg_fields :: "target \<Rightarrow> (condition \<times> field list) list" where
  "sched_avg_fields tg = [
    (Always, [
       Member (Typedef ''u64'') ''last_update_time'', Member (Typedef ''u64'') ''load_sum'', Member (Typedef ''u64'') ''runnable_load_sum'',
       Member (Typedef ''u32'') ''util_sum'', Member (Typedef ''u32'') ''period_contrib'', Member (Unsigned CLong) ''load_avg'',
       Member (Unsigned CLong) ''runnable_load_avg'', Member (Unsigned CLong) ''util_avg''])]"

definition sched_statistics_fields :: "target \<Rightarrow> (condition \<times> field list) list" where
  "sched_statistics_fields tg = [
    (Ifdef ''CONFIG_SCHEDSTATS'', [
       Member (Typedef ''u64'') ''wait_start'', Member (Typedef ''u64'') ''wait_max'', Member (Typedef ''u64'') ''wait_count'',
       Member (Typedef ''u64'') ''wait_sum'', Member (Typedef ''u64'') ''iowait_count'', Member (Typedef ''u64'') ''iowait_sum'',
       Member (Typedef ''u64'') ''sleep_start'', Member (Typedef ''u64'') ''sleep_max'', Member (Typedef ''s64'') ''sum_sleep_runtime'',
       Member (Typedef ''u64'') ''block_start'', Member (Typedef ''u64'') ''block_max'', Member (Typedef ''u64'') ''exec_max'',
       Member (Typedef ''u64'') ''slice_max'', Member (Typedef ''u64'') ''nr_migrations_cold'',
       Member (Typedef ''u64'') ''nr_failed_migrations_affine'', Member (Typedef ''u64'') ''nr_failed_migrations_running'',
       Member (Typedef ''u64'') ''nr_failed_migrations_hot'', Member (Typedef ''u64'') ''nr_forced_migrations'',
       Member (Typedef ''u64'') ''nr_wakeups'', Member (Typedef ''u64'') ''nr_wakeups_sync'', Member (Typedef ''u64'') ''nr_wakeups_migrate'',
       Member (Typedef ''u64'') ''nr_wakeups_local'', Member (Typedef ''u64'') ''nr_wakeups_remote'',
       Member (Typedef ''u64'') ''nr_wakeups_affine'', Member (Typedef ''u64'') ''nr_wakeups_affine_attempts'',
       Member (Typedef ''u64'') ''nr_wakeups_passive'', Member (Typedef ''u64'') ''nr_wakeups_idle''])]"

definition sched_entity_fields :: "target \<Rightarrow> (condition \<times> field list) list" where
  "sched_entity_fields tg = [
    (Always, [
       Member (Struct ''load_weight'') ''load'', Member (Unsigned CLong) ''runnable_weight'', Member (Struct ''rb_node'') ''run_node'',
       Member (Struct ''list_head'') ''group_node'', Member (Unsigned CInt) ''on_rq'', Member (Typedef ''u64'') ''exec_start'',
       Member (Typedef ''u64'') ''sum_exec_runtime'', Member (Typedef ''u64'') ''vruntime'', Member (Typedef ''u64'') ''prev_sum_exec_runtime'',
       Member (Typedef ''u64'') ''nr_migrations'', Member (Struct ''sched_statistics'') ''statistics'']),
    (Ifdef ''CONFIG_FAIR_GROUP_SCHED'', [
       Member (Signed CInt) ''depth'', Member (Ptr (Struct ''sched_entity'')) ''parent'', Member (Ptr (Struct ''cfs_rq'')) ''cfs_rq'',
       Member (Ptr (Struct ''cfs_rq'')) ''my_q'']),
    (Ifdef ''CONFIG_SMP'', [
       Aligned (macro_value tg ''SMP_CACHE_BYTES'') (Struct ''sched_avg'') ''avg''])]"

definition sched_rt_entity_fields :: "target \<Rightarrow> (condition \<times> field list) list" where
  "sched_rt_entity_fields tg = [
    (Always, [
       Member (Struct ''list_head'') ''run_list'', Member (Unsigned CLong) ''timeout'', Member (Unsigned CLong) ''watchdog_stamp'',
       Member (Unsigned CInt) ''time_slice'', Member (Unsigned CShort) ''on_rq'', Member (Unsigned CShort) ''on_list'',
       Member (Ptr (Struct ''sched_rt_entity'')) ''back'']),
    (Ifdef ''CONFIG_RT_GROUP_SCHED'', [
       Member (Ptr (Struct ''sched_rt_entity'')) ''parent'', Member (Ptr (Struct ''rt_rq'')) ''rt_rq'',
       Member (Ptr (Struct ''rt_rq'')) ''my_q''])]"

definition sched_dl_entity_fields :: "target \<Rightarrow> (condition \<times> field list) list" where
  "sched_dl_entity_fields tg = [
    (Always, [
       Member (Struct ''rb_node'') ''rb_node'', Member (Typedef ''u64'') ''dl_runtime'', Member (Typedef ''u64'') ''dl_deadline'',
       Member (Typedef ''u64'') ''dl_period'', Member (Typedef ''u64'') ''dl_bw'', Member (Typedef ''u64'') ''dl_density'',
       Member (Typedef ''s64'') ''runtime'', Member (Typedef ''u64'') ''deadline'', Member (Unsigned CInt) ''flags'', Bits 1 ''dl_throttled'',
       Bits 1 ''dl_boosted'', Bits 1 ''dl_yielded'', Bits 1 ''dl_non_contending'', Member (Struct ''hrtimer'') ''dl_timer'',
       Member (Struct ''hrtimer'') ''inactive_timer''])]"

definition wake_q_node_fields :: "target \<Rightarrow> (condition \<times> field list) list" where
  "wake_q_node_fields tg = [
    (Always, [
       Member (Ptr (Struct ''wake_q_node'')) ''next''])]"

definition rcu_special_layout :: "target \<Rightarrow> nat \<times> nat" where
  "rcu_special_layout tg = union_layout
     [struct_layout tg [Member (Typedef ''u8'') ''blocked'', Member (Typedef ''u8'') ''need_qs'', Member (Typedef ''u8'') ''exp_need_qs'',
        Member (Typedef ''u8'') ''pad''],
      (c_sizeof tg (Typedef ''u32''), c_alignof tg (Typedef ''u32''))]"

text \<open>The values of \<open>enum perf_event_task_context\<close>; the last one is the number of contexts.\<close>

definition perf_invalid_context :: int where "perf_invalid_context = - 1"
definition perf_hw_context :: int where "perf_hw_context = 0"
definition perf_sw_context :: int where "perf_sw_context = perf_hw_context + 1"
definition perf_nr_task_contexts :: nat where "perf_nr_task_contexts = nat (perf_sw_context + 1)"

section \<open>The task\<close>

definition TASK_COMM_LEN :: nat where "TASK_COMM_LEN = 16"
definition MAX_LOCK_DEPTH :: nat where "MAX_LOCK_DEPTH = 48"

definition task_head :: "target \<Rightarrow> (condition \<times> field list) list" where
  "task_head tg = [
    (Ifdef ''CONFIG_THREAD_INFO_IN_TASK'', [
       Member (Struct ''thread_info'') ''thread_info'']),
    (Always, [
       Member (Signed CLong) ''state''])]"

definition task_run :: "target \<Rightarrow> (condition \<times> field list) list" where
  "task_run tg = [
    (Always, [
       Member (Ptr Void) ''stack'', Member (Typedef ''atomic_t'') ''usage'', Member (Unsigned CInt) ''flags'',
       Member (Unsigned CInt) ''ptrace'']),
    (Ifdef ''CONFIG_SMP'', [
       Member (Struct ''llist_node'') ''wake_entry'', Member (Signed CInt) ''on_cpu'']),
    (Both (Ifdef ''CONFIG_SMP'') (Ifdef ''CONFIG_THREAD_INFO_IN_TASK''), [
       Member (Unsigned CInt) ''cpu'']),
    (Ifdef ''CONFIG_SMP'', [
       Member (Unsigned CInt) ''wakee_flips'', Member (Unsigned CLong) ''wakee_flip_decay_ts'',
       Member (Ptr (Struct ''task_struct'')) ''last_wakee'', Member (Signed CInt) ''wake_cpu'']),
    (Always, [
       Member (Signed CInt) ''on_rq'', Member (Signed CInt) ''prio'', Member (Signed CInt) ''static_prio'',
       Member (Signed CInt) ''normal_prio'', Member (Unsigned CInt) ''rt_priority'', Member (Ptr (Struct ''sched_class'')) ''sched_class'',
       Member (Struct ''sched_entity'') ''se'', Member (Struct ''sched_rt_entity'') ''rt'']),
    (Ifdef ''CONFIG_CGROUP_SCHED'', [
       Member (Ptr (Struct ''task_group'')) ''sched_task_group'']),
    (Always, [
       Member (Struct ''sched_dl_entity'') ''dl'']),
    (Ifdef ''CONFIG_PREEMPT_NOTIFIERS'', [
       Member (Struct ''hlist_head'') ''preempt_notifiers'']),
    (Ifdef ''CONFIG_BLK_DEV_IO_TRACE'', [
       Member (Unsigned CInt) ''btrace_seq'']),
    (Always, [
       Member (Unsigned CInt) ''policy'', Member (Signed CInt) ''nr_cpus_allowed'', Member (Typedef ''cpumask_t'') ''cpus_allowed'']),
    (Ifdef ''CONFIG_PREEMPT_RCU'', [
       Member (Signed CInt) ''rcu_read_lock_nesting'', Member (Union ''rcu_special'') ''rcu_read_unlock_special'',
       Member (Struct ''list_head'') ''rcu_node_entry'', Member (Ptr (Struct ''rcu_node'')) ''rcu_blocked_node'']),
    (Ifdef ''CONFIG_TASKS_RCU'', [
       Member (Unsigned CLong) ''rcu_tasks_nvcsw'', Member (Typedef ''u8'') ''rcu_tasks_holdout'', Member (Typedef ''u8'') ''rcu_tasks_idx'',
       Member (Signed CInt) ''rcu_tasks_idle_cpu'', Member (Struct ''list_head'') ''rcu_tasks_holdout_list'']),
    (Always, [
       Member (Struct ''sched_info'') ''sched_info'', Member (Struct ''list_head'') ''tasks'']),
    (Ifdef ''CONFIG_SMP'', [
       Member (Struct ''plist_node'') ''pushable_tasks'', Member (Struct ''rb_node'') ''pushable_dl_tasks'']),
    (Always, [
       Member (Ptr (Struct ''mm_struct'')) ''mm'', Member (Ptr (Struct ''mm_struct'')) ''active_mm'', Member (Struct ''vmacache'') ''vmacache'']),
    (Ifdef ''SPLIT_RSS_COUNTING'', [
       Member (Struct ''task_rss_stat'') ''rss_stat'']),
    (Always, [
       Member (Signed CInt) ''exit_state'', Member (Signed CInt) ''exit_code'', Member (Signed CInt) ''exit_signal'',
       Member (Signed CInt) ''pdeath_signal'', Member (Unsigned CLong) ''jobctl'', Member (Unsigned CInt) ''personality'',
       Bits 1 ''sched_reset_on_fork'', Bits 1 ''sched_contributes_to_load'', Bits 1 ''sched_migrated'', Bits 1 ''sched_remote_wakeup''])]"

definition task_current :: "target \<Rightarrow> (condition \<times> field list) list" where
  "task_current tg = [
    (Always, [
       Next_unit, Bits 1 ''in_execve'', Bits 1 ''in_iowait'']),
    (Unless (Ifdef ''TIF_RESTORE_SIGMASK''), [
       Bits 1 ''restore_sigmask'']),
    (Ifdef ''CONFIG_MEMCG'', [
       Bits 1 ''memcg_may_oom'']),
    (Both (Ifdef ''CONFIG_MEMCG'') (Unless (Ifdef ''CONFIG_SLOB'')), [
       Bits 1 ''memcg_kmem_skip_account'']),
    (Ifdef ''CONFIG_COMPAT_BRK'', [
       Bits 1 ''brk_randomized'']),
    (Ifdef ''CONFIG_CGROUPS'', [
       Bits 1 ''no_cgroup_migration'']),
    (Always, [
       Member (Unsigned CLong) ''atomic_flags'', Member (Struct ''restart_block'') ''restart_block'', Member (Signed CLong) ''weight'',
       Member (Typedef ''pid_t'') ''pid'', Member (Typedef ''pid_t'') ''tgid'']),
    (Ifdef ''CONFIG_CC_STACKPROTECTOR'', [
       Member (Unsigned CLong) ''stack_canary'']),
    (Always, [
       Member (Ptr (Struct ''task_struct'')) ''real_parent'', Member (Ptr (Struct ''task_struct'')) ''parent'',
       Member (Struct ''list_head'') ''children'', Member (Struct ''list_head'') ''sibling'',
       Member (Ptr (Struct ''task_struct'')) ''group_leader'', Member (Struct ''list_head'') ''ptraced'',
       Member (Struct ''list_head'') ''ptrace_entry'', Member (Array (Struct ''pid_link'') (macro_value tg ''PIDTYPE_MAX'')) ''pids'',
       Member (Struct ''list_head'') ''thread_group'', Member (Struct ''list_head'') ''thread_node'',
       Member (Ptr (Struct ''completion'')) ''vfork_done'', Member (Ptr (Signed CInt)) ''set_child_tid'',
       Member (Ptr (Signed CInt)) ''clear_child_tid'', Member (Typedef ''u64'') ''utime'', Member (Typedef ''u64'') ''stime'']),
    (Ifdef ''CONFIG_ARCH_HAS_SCALED_CPUTIME'', [
       Member (Typedef ''u64'') ''utimescaled'', Member (Typedef ''u64'') ''stimescaled'']),
    (Always, [
       Member (Typedef ''u64'') ''gtime'', Member (Struct ''prev_cputime'') ''prev_cputime'']),
    (Ifdef ''CONFIG_VIRT_CPU_ACCOUNTING_GEN'', [
       Member (Struct ''vtime'') ''vtime''])]"

definition task_times :: "target \<Rightarrow> (condition \<times> field list) list" where
  "task_times tg = [
    (Ifdef ''CONFIG_NO_HZ_FULL'', [
       Member (Typedef ''atomic_t'') ''tick_dep_mask'']),
    (Always, [
       Member (Unsigned CLong) ''nvcsw'', Member (Unsigned CLong) ''nivcsw'', Member (Typedef ''u64'') ''start_time'',
       Member (Typedef ''u64'') ''real_start_time'', Member (Unsigned CLong) ''min_flt'', Member (Unsigned CLong) ''maj_flt'']),
    (Ifdef ''CONFIG_POSIX_TIMERS'', [
       Member (Struct ''task_cputime'') ''cputime_expires'', Member (Array (Struct ''list_head'') 3) ''cpu_timers'']),
    (Always, [
       Member (Ptr (Struct ''cred'')) ''ptracer_cred'', Member (Ptr (Struct ''cred'')) ''real_cred'', Member (Ptr (Struct ''cred'')) ''cred'',
       Member (Array (Signed CChar) TASK_COMM_LEN) ''comm'', Member (Ptr (Struct ''nameidata'')) ''nameidata'']),
    (Ifdef ''CONFIG_SYSVIPC'', [
       Member (Struct ''sysv_sem'') ''sysvsem'', Member (Struct ''sysv_shm'') ''sysvshm'']),
    (Ifdef ''CONFIG_DETECT_HUNG_TASK'', [
       Member (Unsigned CLong) ''last_switch_count'']),
    (Always, [
       Member (Ptr (Struct ''fs_struct'')) ''fs'', Member (Ptr (Struct ''files_struct'')) ''files'',
       Member (Ptr (Struct ''nsproxy'')) ''nsproxy'', Member (Ptr (Struct ''signal_struct'')) ''signal'',
       Member (Ptr (Struct ''sighand_struct'')) ''sighand'', Member (Typedef ''sigset_t'') ''blocked'',
       Member (Typedef ''sigset_t'') ''real_blocked'', Member (Typedef ''sigset_t'') ''saved_sigmask'',
       Member (Struct ''sigpending'') ''pending'', Member (Unsigned CLong) ''sas_ss_sp'', Member (Typedef ''size_t'') ''sas_ss_size'',
       Member (Unsigned CInt) ''sas_ss_flags'', Member (Ptr (Struct ''callback_head'')) ''task_works'',
       Member (Ptr (Struct ''audit_context'')) ''audit_context'']),
    (Ifdef ''CONFIG_AUDITSYSCALL'', [
       Member (Typedef ''kuid_t'') ''loginuid'', Member (Unsigned CInt) ''sessionid'']),
    (Always, [
       Member (Struct ''seccomp'') ''seccomp'', Member (Typedef ''u64'') ''parent_exec_id'', Member (Typedef ''u64'') ''self_exec_id'',
       Member (Typedef ''spinlock_t'') ''alloc_lock'', Member (Typedef ''raw_spinlock_t'') ''pi_lock'',
       Member (Struct ''wake_q_node'') ''wake_q''])]"

definition task_locks :: "target \<Rightarrow> (condition \<times> field list) list" where
  "task_locks tg = [
    (Ifdef ''CONFIG_RT_MUTEXES'', [
       Member (Struct ''rb_root_cached'') ''pi_waiters'', Member (Ptr (Struct ''task_struct'')) ''pi_top_task'',
       Member (Ptr (Struct ''rt_mutex_waiter'')) ''pi_blocked_on'']),
    (Ifdef ''CONFIG_DEBUG_MUTEXES'', [
       Member (Ptr (Struct ''mutex_waiter'')) ''blocked_on'']),
    (Ifdef ''CONFIG_TRACE_IRQFLAGS'', [
       Member (Unsigned CInt) ''irq_events'', Member (Unsigned CLong) ''hardirq_enable_ip'', Member (Unsigned CLong) ''hardirq_disable_ip'',
       Member (Unsigned CInt) ''hardirq_enable_event'', Member (Unsigned CInt) ''hardirq_disable_event'',
       Member (Signed CInt) ''hardirqs_enabled'', Member (Signed CInt) ''hardirq_context'', Member (Unsigned CLong) ''softirq_disable_ip'',
       Member (Unsigned CLong) ''softirq_enable_ip'', Member (Unsigned CInt) ''softirq_disable_event'',
       Member (Unsigned CInt) ''softirq_enable_event'', Member (Signed CInt) ''softirqs_enabled'', Member (Signed CInt) ''softirq_context'']),
    (Ifdef ''CONFIG_LOCKDEP'', [
       Member (Typedef ''u64'') ''curr_chain_key'', Member (Signed CInt) ''lockdep_depth'', Member (Unsigned CInt) ''lockdep_recursion'',
       Member (Array (Struct ''held_lock'') MAX_LOCK_DEPTH) ''held_locks'']),
    (Ifdef ''CONFIG_UBSAN'', [
       Member (Unsigned CInt) ''in_ubsan'']),
    (Always, [
       Member (Ptr Void) ''journal_info'', Member (Ptr (Struct ''bio_list'')) ''bio_list'']),
    (Ifdef ''CONFIG_BLOCK'', [
       Member (Ptr (Struct ''blk_plug'')) ''plug'']),
    (Always, [
       Member (Ptr (Struct ''reclaim_state'')) ''reclaim_state'', Member (Ptr (Struct ''backing_dev_info'')) ''backing_dev_info'',
       Member (Ptr (Struct ''io_context'')) ''io_context'', Member (Unsigned CLong) ''ptrace_message'',
       Member (Ptr (Typedef ''siginfo_t'')) ''last_siginfo'', Member (Struct ''task_io_accounting'') ''ioac'']),
    (Ifdef ''CONFIG_TASK_XACCT'', [
       Member (Typedef ''u64'') ''acct_rss_mem1'', Member (Typedef ''u64'') ''acct_vm_mem1'', Member (Typedef ''u64'') ''acct_timexpd''])]"

definition task_groups :: "target \<Rightarrow> (condition \<times> field list) list" where
  "task_groups tg = [
    (Ifdef ''CONFIG_CPUSETS'', [
       Member (Typedef ''nodemask_t'') ''mems_allowed'', Member (Typedef ''seqcount_t'') ''mems_allowed_seq'',
       Member (Signed CInt) ''cpuset_mem_spread_rotor'', Member (Signed CInt) ''cpuset_slab_spread_rotor'']),
    (Ifdef ''CONFIG_CGROUPS'', [
       Member (Ptr (Struct ''css_set'')) ''cgroups'', Member (Struct ''list_head'') ''cg_list'']),
    (Ifdef ''CONFIG_INTEL_RDT'', [
       Member (Typedef ''u32'') ''closid'', Member (Typedef ''u32'') ''rmid'']),
    (Ifdef ''CONFIG_FUTEX'', [
       Member (Ptr (Struct ''robust_list_head'')) ''robust_list'']),
    (Both (Ifdef ''CONFIG_FUTEX'') (Ifdef ''CONFIG_COMPAT''), [
       Member (Ptr (Struct ''compat_robust_list_head'')) ''compat_robust_list'']),
    (Ifdef ''CONFIG_FUTEX'', [
       Member (Struct ''list_head'') ''pi_state_list'', Member (Ptr (Struct ''futex_pi_state'')) ''pi_state_cache'',
       Member (Struct ''mutex'') ''futex_exit_mutex'', Member (Unsigned CInt) ''futex_state'']),
    (Ifdef ''CONFIG_PERF_EVENTS'', [
       Member (Array (Ptr (Struct ''perf_event_context'')) perf_nr_task_contexts) ''perf_event_ctxp'',
       Member (Struct ''mutex'') ''perf_event_mutex'', Member (Struct ''list_head'') ''perf_event_list'']),
    (Ifdef ''CONFIG_DEBUG_PREEMPT'', [
       Member (Unsigned CLong) ''preempt_disable_ip'']),
    (Ifdef ''CONFIG_NUMA'', [
       Member (Ptr (Struct ''mempolicy'')) ''mempolicy'', Member (Signed CShort) ''il_prev'', Member (Signed CShort) ''pref_node_fork'']),
    (Ifdef ''CONFIG_NUMA_BALANCING'', [
       Member (Signed CInt) ''numa_scan_seq'', Member (Unsigned CInt) ''numa_scan_period'', Member (Unsigned CInt) ''numa_scan_period_max'',
       Member (Signed CInt) ''numa_preferred_nid'', Member (Unsigned CLong) ''numa_migrate_retry'', Member (Typedef ''u64'') ''node_stamp'',
       Member (Typedef ''u64'') ''last_task_numa_placement'', Member (Typedef ''u64'') ''last_sum_exec_runtime'',
       Member (Struct ''callback_head'') ''numa_work'', Member (Struct ''list_head'') ''numa_entry'',
       Member (Ptr (Struct ''numa_group'')) ''numa_group'', Member (Ptr (Unsigned CLong)) ''numa_faults'',
       Member (Unsigned CLong) ''total_numa_faults'', Member (Array (Unsigned CLong) 3) ''numa_faults_locality'',
       Member (Unsigned CLong) ''numa_pages_migrated'']),
    (Always, [
       Member (Struct ''tlbflush_unmap_batch'') ''tlb_ubc'', Member (Struct ''rcu_head'') ''rcu'',
       Member (Ptr (Struct ''pipe_inode_info'')) ''splice_pipe'', Member (Struct ''page_frag'') ''task_frag''])]"

definition task_debug :: "target \<Rightarrow> (condition \<times> field list) list" where
  "task_debug tg = [
    (Ifdef ''CONFIG_TASK_DELAY_ACCT'', [
       Member (Ptr (Struct ''task_delay_info'')) ''delays'']),
    (Ifdef ''CONFIG_FAULT_INJECTION'', [
       Member (Signed CInt) ''make_it_fail'', Member (Unsigned CInt) ''fail_nth'']),
    (Always, [
       Member (Signed CInt) ''nr_dirtied'', Member (Signed CInt) ''nr_dirtied_pause'', Member (Unsigned CLong) ''dirty_paused_when'']),
    (Ifdef ''CONFIG_LATENCYTOP'', [
       Member (Signed CInt) ''latency_record_count'',
       Member (Array (Struct ''latency_record'') (macro_value tg ''LT_SAVECOUNT'')) ''latency_record'']),
    (Always, [
       Member (Typedef ''u64'') ''timer_slack_ns'', Member (Typedef ''u64'') ''default_timer_slack_ns'']),
    (Ifdef ''CONFIG_KASAN'', [
       Member (Unsigned CInt) ''kasan_depth'']),
    (Ifdef ''CONFIG_FUNCTION_GRAPH_TRACER'', [
       Member (Signed CInt) ''curr_ret_stack'', Member (Signed CInt) ''curr_ret_depth'',
       Member (Ptr (Struct ''ftrace_ret_stack'')) ''ret_stack'', Member (Unsigned CLongLong) ''ftrace_timestamp'',
       Member (Typedef ''atomic_t'') ''trace_overrun'', Member (Typedef ''atomic_t'') ''tracing_graph_pause'']),
    (Ifdef ''CONFIG_TRACING'', [
       Member (Unsigned CLong) ''trace'', Member (Unsigned CLong) ''trace_recursion'']),
    (Ifdef ''CONFIG_KCOV'', [
       Member (Enum ''kcov_mode'') ''kcov_mode'', Member (Unsigned CInt) ''kcov_size'', Member (Ptr Void) ''kcov_area'',
       Member (Ptr (Struct ''kcov'')) ''kcov'']),
    (Ifdef ''CONFIG_MEMCG'', [
       Member (Ptr (Struct ''mem_cgroup'')) ''memcg_in_oom'', Member (Typedef ''gfp_t'') ''memcg_oom_gfp_mask'',
       Member (Signed CInt) ''memcg_oom_order'', Member (Unsigned CInt) ''memcg_nr_pages_over_high'']),
    (Ifdef ''CONFIG_UPROBES'', [
       Member (Ptr (Struct ''uprobe_task'')) ''utask'']),
    (Either (Ifdef ''CONFIG_BCACHE'') (Ifdef ''CONFIG_BCACHE_MODULE''), [
       Member (Unsigned CInt) ''sequential_io'', Member (Unsigned CInt) ''sequential_io_avg'']),
    (Ifdef ''CONFIG_DEBUG_ATOMIC_SLEEP'', [
       Member (Unsigned CLong) ''task_state_change'']),
    (Always, [
       Member (Signed CInt) ''pagefault_disabled'']),
    (Ifdef ''CONFIG_MMU'', [
       Member (Ptr (Struct ''task_struct'')) ''oom_reaper_list'']),
    (Ifdef ''CONFIG_VMAP_STACK'', [
       Member (Ptr (Struct ''vm_struct'')) ''stack_vm_area'']),
    (Ifdef ''CONFIG_THREAD_INFO_IN_TASK'', [
       Member (Typedef ''atomic_t'') ''stack_refcount'']),
    (Ifdef ''CONFIG_LIVEPATCH'', [
       Member (Signed CInt) ''patch_state'']),
    (Ifdef ''CONFIG_SECURITY'', [
       Member (Ptr Void) ''security''])]"

definition task_tail :: "target \<Rightarrow> (condition \<times> field list) list" where
  "task_tail tg = [
    (Always, [
       Member (Struct ''thread_struct'') ''thread''])]"

definition task_middle :: "target \<Rightarrow> (condition \<times> field list) list" where
  "task_middle tg = task_run tg @ task_current tg @ task_times tg @ task_locks tg @ task_groups tg @ task_debug tg"

definition task_fields :: "target \<Rightarrow> (condition \<times> field list) list" where
  "task_fields tg = task_head tg @ task_middle tg @ task_tail tg"

lemmas task_defs = task_head_def task_run_def task_current_def task_times_def task_locks_def task_groups_def task_debug_def task_tail_def

section \<open>Names\<close>

text \<open>The names in three parts, each of them and each two of them compared on their own.\<close>

definition names_1 :: "target \<Rightarrow> string list" where
  "names_1 tg = map field_name (everything (task_head tg @ task_run tg @ task_current tg))"
definition names_2 :: "target \<Rightarrow> string list" where
  "names_2 tg = map field_name (everything (task_times tg @ task_locks tg))"
definition names_3 :: "target \<Rightarrow> string list" where
  "names_3 tg = map field_name (everything (task_groups tg @ task_debug tg @ task_tail tg))"

lemmas name_rules = names_1_def names_2_def names_3_def task_defs everything_simps append.simps list.map field_name.simps list.pred_inject distinct.simps
  list.set insert_iff empty_iff list.inject list.distinct char.inject simp_thms

lemma names_1_distinct: "distinct (names_1 tg)"
  by (simp only: name_rules)

lemma names_2_distinct: "distinct (names_2 tg)"
  by (simp only: name_rules)

lemma names_3_distinct: "distinct (names_3 tg)"
  by (simp only: name_rules)

lemma names_1_2: "list_all (\<lambda>n. n \<notin> set (names_2 tg)) (names_1 tg)"
  by (simp only: name_rules)

lemma names_1_3: "list_all (\<lambda>n. n \<notin> set (names_3 tg)) (names_1 tg)"
  by (simp only: name_rules)

lemma names_2_3: "list_all (\<lambda>n. n \<notin> set (names_3 tg)) (names_2 tg)"
  by (simp only: name_rules)

lemma task_names_distinct: "distinct (map field_name (everything (task_fields tg)))"
proof -
  have "map field_name (everything (task_fields tg)) = names_1 tg @ names_2 tg @ names_3 tg"
    by (simp add: task_fields_def task_middle_def names_1_def names_2_def names_3_def)
  then show ?thesis
    using names_1_distinct [of tg] names_2_distinct [of tg] names_3_distinct [of tg] names_1_2 [of tg] names_1_3 [of tg] names_2_3 [of tg]
    by (auto simp: list_all_iff)
qed

end
