(* ===== verification/Task_Layout.thy ===== *)
theory Task_Layout
  imports Task_Structs "HOL-Library.Multiset"
begin

text \<open>
  The layout of the structures of \<open>include/linux/sched.h\<close>. With the plugin that randomises structures the members of \<open>struct task_struct\<close> between
  \<open>randomized_struct_fields_start\<close> and \<open>randomized_struct_fields_end\<close> are an anonymous structure in an order that the plugin chooses: the
  parameter \<open>shuffle\<close>, of which only is used that it rearranges.
\<close>

section \<open>Layouts\<close>

text \<open>The types are declared one after the other; each one uses the sizes of those before.\<close>

definition randomised :: "(field list \<Rightarrow> field list) \<Rightarrow> target \<Rightarrow> field list \<Rightarrow> field list" where
  "randomised shuffle tg fs = (if defined tg ''RANDSTRUCT_PLUGIN'' then shuffle fs else fs)"

definition declare_struct :: "string \<Rightarrow> (target \<Rightarrow> (condition \<times> field list) list) \<Rightarrow> target \<Rightarrow> target" where
  "declare_struct n decl tg = declare_type (Struct n) (struct_layout tg (select tg (decl tg))) tg"

definition declare_sched_rt_entity :: "(field list \<Rightarrow> field list) \<Rightarrow> target \<Rightarrow> target" where
  "declare_sched_rt_entity shuffle tg =
     declare_type (Struct ''sched_rt_entity'') (struct_layout tg (randomised shuffle tg (select tg (sched_rt_entity_fields tg)))) tg"

definition declare_rcu_special :: "target \<Rightarrow> target" where
  "declare_rcu_special tg = declare_type (Union ''rcu_special'') (rcu_special_layout tg) tg"

definition sched_types :: "(field list \<Rightarrow> field list) \<Rightarrow> target \<Rightarrow> target" where
  "sched_types shuffle tg =
     declare_struct ''wake_q_node'' wake_q_node_fields (declare_rcu_special (declare_struct ''sched_dl_entity'' sched_dl_entity_fields
      (declare_sched_rt_entity shuffle (declare_struct ''sched_entity'' sched_entity_fields
      (declare_struct ''sched_statistics'' sched_statistics_fields (declare_struct ''sched_avg'' sched_avg_fields
      (declare_struct ''load_weight'' load_weight_fields (declare_struct ''sched_info'' sched_info_fields
      (declare_struct ''vtime'' vtime_fields (declare_type (Enum ''vtime_state'') (4, 4)
      (declare_struct ''task_cputime'' task_cputime_fields (declare_struct ''prev_cputime'' prev_cputime_fields tg))))))))))))"

definition task_placed :: "(field list \<Rightarrow> field list) \<Rightarrow> target \<Rightarrow> (field \<times> nat) list" where
  "task_placed shuffle tg =
     (let T = sched_types shuffle tg; h = select tg (task_head tg); m = select tg (task_middle tg); t = select tg (task_tail tg) in
      if defined tg ''RANDSTRUCT_PLUGIN''
      then let e = fields_end T 0 h; m = shuffle m in place T 0 h @ place_inner T e m @ place T (inner_end T e m) t
      else place T 0 (h @ m @ t))"

definition rearranges :: "(field list \<Rightarrow> field list) \<Rightarrow> bool" where
  "rearranges shuffle \<longleftrightarrow> (\<forall>fs. mset (shuffle fs) = mset fs)"

lemma rearranges_all: "rearranges shuffle \<Longrightarrow> list_all P (shuffle fs) = list_all P fs"
  unfolding rearranges_def list_all_iff by (metis set_mset_mset)

subsection \<open>Fields have positive widths and alignments\<close>

lemma declare_struct_ok:
  assumes "target_ok tg" "list_all field_ok (everything (decl tg))"
  shows "target_ok (declare_struct n decl tg)"
  unfolding declare_struct_def by (intro declare_type_ok struct_layout_ok assms list_all_select)

lemma small_fields_ok:
  "list_all field_ok (everything (prev_cputime_fields tg))" "list_all field_ok (everything (task_cputime_fields tg))"
  "list_all field_ok (everything (vtime_fields tg))" "list_all field_ok (everything (sched_info_fields tg))"
  "list_all field_ok (everything (load_weight_fields tg))" "list_all field_ok (everything (sched_avg_fields tg))"
  "list_all field_ok (everything (sched_statistics_fields tg))" "list_all field_ok (everything (sched_rt_entity_fields tg))"
  "list_all field_ok (everything (sched_dl_entity_fields tg))" "list_all field_ok (everything (wake_q_node_fields tg))"
  by (simp_all only: prev_cputime_fields_def task_cputime_fields_def vtime_fields_def sched_info_fields_def load_weight_fields_def sched_avg_fields_def
      sched_statistics_fields_def sched_rt_entity_fields_def sched_dl_entity_fields_def wake_q_node_fields_def everything_simps append.simps
      list.pred_inject field_ok.simps simp_thms) simp

lemma entity_fields_ok: "target_ok tg \<Longrightarrow> list_all field_ok (everything (sched_entity_fields tg))"
  by (simp only: sched_entity_fields_def everything_simps append.simps list.pred_inject field_ok.simps simp_thms) (simp add: target_ok_def)

lemma task_fields_ok: "list_all field_ok (everything (task_fields tg))"
  by (simp only: task_fields_def task_middle_def task_defs everything_simps append.simps list.pred_inject field_ok.simps simp_thms list_all_append) simp

lemma rcu_special_ok: "target_ok tg \<Longrightarrow> layout_ok (rcu_special_layout tg)"
  unfolding rcu_special_layout_def
  by (intro union_layout_ok) (simp add: struct_layout_ok, simp add: layout_ok_def target_ok_def)

lemma declare_rt_ok:
  assumes "target_ok tg" "rearranges shuffle"
  shows "target_ok (declare_sched_rt_entity shuffle tg)"
  unfolding declare_sched_rt_entity_def using assms
  by (intro declare_type_ok struct_layout_ok) (auto simp: randomised_def rearranges_all list_all_select small_fields_ok)

lemma declare_rcu_ok: "target_ok tg \<Longrightarrow> target_ok (declare_rcu_special tg)"
  by (simp add: declare_rcu_special_def declare_type_ok rcu_special_ok)

lemma sched_types_ok:
  assumes "target_ok tg" "rearranges shuffle"
  shows "target_ok (sched_types shuffle tg)"
proof -
  have "layout_ok (4, 4)" by (simp add: layout_ok_def)
  then show ?thesis
    unfolding sched_types_def using assms
    by (intro declare_struct_ok declare_rt_ok declare_rcu_ok declare_type_ok small_fields_ok entity_fields_ok)
qed

lemma declare_simps [simp]:
  "defined (declare_struct n decl tg) = defined tg" "defined (declare_sched_rt_entity shuffle tg) = defined tg" "defined (declare_rcu_special tg) = defined tg"
  by (simp_all add: declare_struct_def declare_sched_rt_entity_def declare_rcu_special_def)

lemma sched_types_defined [simp]: "defined (sched_types shuffle tg) = defined tg"
  by (simp add: sched_types_def)

subsection \<open>The layout of the task\<close>

lemma task_parts_ok:
  "list_all field_ok (select tg (task_head tg))" "list_all field_ok (select tg (task_middle tg))" "list_all field_ok (select tg (task_tail tg))"
  using task_fields_ok [of tg] by (simp_all add: task_fields_def list_all_select)

lemma task_middle_aligned:
  assumes "rearranges shuffle"
  shows "4 dvd fields_align T (shuffle (select tg (task_middle tg)))"
proof -
  have "Member (Unsigned CInt) ''flags'' \<in> set (select tg (task_run tg))"
    by (simp only: task_run_def select_simps holds.simps if_True append.simps list.set insert_iff simp_thms)
  then have "Member (Unsigned CInt) ''flags'' \<in> set (select tg (task_middle tg))" by (simp add: task_middle_def)
  then have "Member (Unsigned CInt) ''flags'' \<in> set (shuffle (select tg (task_middle tg)))"
    using assms unfolding rearranges_def by (metis set_mset_mset)
  from field_align_dvd [OF this, of T] show ?thesis by simp
qed

lemma placed_fields:
  assumes "rearranges shuffle"
  shows "mset (map fst (task_placed shuffle tg)) = mset (select tg (task_fields tg))"
proof -
  have i: "map fst (place_inner T e fs) = fs" for T e fs by (simp add: place_inner_def comp_def case_prod_beta)
  have "map fst (task_placed shuffle tg) = select tg (task_head tg) @ randomised shuffle tg (select tg (task_middle tg)) @ select tg (task_tail tg)"
    by (simp add: task_placed_def Let_def randomised_def i)
  then have "mset (map fst (task_placed shuffle tg))
      = mset (select tg (task_head tg) @ randomised shuffle tg (select tg (task_middle tg)) @ select tg (task_tail tg))" by (rule arg_cong)
  then show ?thesis using assms by (simp add: task_fields_def rearranges_def randomised_def del: mset_map)
qed

lemma task_ordered:
  assumes "target_ok tg" "rearranges shuffle"
  shows "sorted_wrt (\<lambda>(f, s) (g, u). s + field_bits (sched_types shuffle tg) f \<le> u) (task_placed shuffle tg)"
proof -
  let ?T = "sched_types shuffle tg"
  let ?h = "select tg (task_head tg)" and ?m = "select tg (task_middle tg)" and ?t = "select tg (task_tail tg)"
  let ?e = "fields_end ?T 0 ?h" and ?R = "\<lambda>(f, s) (g, u). s + field_bits ?T f \<le> u"
  note T = sched_types_ok [OF assms] and P = task_parts_ok [of tg]
  have m: "list_all field_ok (shuffle ?m)" using rearranges_all [OF assms(2)] P(2) by simp
  let ?i = "inner_end ?T ?e (shuffle ?m)"
  have e: "?e \<le> ?i"
    using round_up_ge [of "8 * fields_align ?T (shuffle ?m)" ?e] fields_align_pos [OF T m] by (simp add: inner_end_def)
  have "?R x y" if "x \<in> set (place ?T 0 ?h)" "y \<in> set (place_inner ?T ?e (shuffle ?m)) \<union> set (place ?T ?i ?t)" for x y
  proof -
    have "snd x + field_bits ?T (fst x) \<le> ?e" using place_bounds [OF T P(1), of "fst x" "snd x" 0] that(1) by simp
    moreover have "?e \<le> snd y"
      using place_inner_bounds [OF T m, of "fst y" "snd y" ?e] place_bounds [OF T P(3), of "fst y" "snd y" ?i] that(2) e by auto
    ultimately show ?thesis by (simp add: case_prod_beta)
  qed
  moreover have "?R x y" if "x \<in> set (place_inner ?T ?e (shuffle ?m))" "y \<in> set (place ?T ?i ?t)" for x y
    using place_inner_bounds [OF T m, of "fst x" "snd x" ?e] place_bounds [OF T P(3), of "fst y" "snd y" ?i] that by (simp add: case_prod_beta)
  ultimately have "sorted_wrt ?R (place ?T 0 ?h @ place_inner ?T ?e (shuffle ?m) @ place ?T ?i ?t)"
    using place_ordered [OF T P(1)] place_ordered [OF T P(3)] place_inner_ordered [OF T m] by (auto simp: sorted_wrt_append)
  moreover have "sorted_wrt ?R (place ?T 0 (?h @ ?m @ ?t))" using P by (intro place_ordered [OF T]) simp
  ultimately show ?thesis by (simp add: task_placed_def Let_def)
qed

lemma task_well_placed:
  assumes "target_ok tg" "rearranges shuffle"
  shows "\<forall>p\<in>set (task_placed shuffle tg). well_placed (sched_types shuffle tg) p"
proof -
  note P = task_parts_ok [of tg]
  have m: "list_all field_ok (shuffle (select tg (task_middle tg)))" using rearranges_all [OF assms(2)] P(2) by simp
  show ?thesis
    using place_well_placed [OF P(1)] place_well_placed [OF P(3)] place_inner_well_placed [OF m task_middle_aligned [OF assms(2)]]
      place_well_placed [of "select tg (task_head tg) @ select tg (task_middle tg) @ select tg (task_tail tg)"] P
    unfolding task_placed_def Let_def by auto
qed

lemma task_first:
  assumes "target_ok tg" "rearranges shuffle" "defined tg ''CONFIG_THREAD_INFO_IN_TASK''"
  shows "\<exists>ps. task_placed shuffle tg = (Member (Struct ''thread_info'') ''thread_info'', 0) # ps"
proof -
  have z: "round_up 0 a = 0" if "0 < a" for a using that round_up_id [of a 0] by simp
  show ?thesis
    using assms(3) z alignof_pos [OF sched_types_ok [OF assms(1,2)], of "Struct ''thread_info''"] by (simp add: task_placed_def Let_def task_head_def)
qed

text \<open>
  C16. Every \<open>struct task_struct\<close> is laid out as its comments demand, in every configuration, for every size of the types of other headers, and whatever order the
  plugin chooses. Every member is there once, under a name of its own, and aligned, no two overlap, \<open>thread_info\<close> is at the very beginning where it is part of the task, and \<open>thread\<close>,
  which may be longer than declared, comes after everything else.
\<close>

theorem task_struct_layout:
  assumes "target_ok tg" "rearranges shuffle"
  shows "sorted_wrt (\<lambda>(f, s) (g, u). s + field_bits (sched_types shuffle tg) f \<le> u) (task_placed shuffle tg)
    \<and> (\<forall>p\<in>set (task_placed shuffle tg). well_placed (sched_types shuffle tg) p)
    \<and> mset (map fst (task_placed shuffle tg)) = mset (select tg (task_fields tg))
    \<and> distinct (map field_name (select tg (task_fields tg)))
    \<and> (defined tg ''CONFIG_THREAD_INFO_IN_TASK'' \<longrightarrow> hd (task_placed shuffle tg) = (Member (Struct ''thread_info'') ''thread_info'', 0))
    \<and> fst (last (task_placed shuffle tg)) = Member (Struct ''thread_struct'') ''thread''"
proof (intro conjI impI)
  show "sorted_wrt (\<lambda>(f, s) (g, u). s + field_bits (sched_types shuffle tg) f \<le> u) (task_placed shuffle tg)" by (rule task_ordered [OF assms])
  show "\<forall>p\<in>set (task_placed shuffle tg). well_placed (sched_types shuffle tg) p" by (rule task_well_placed [OF assms])
  show "mset (map fst (task_placed shuffle tg)) = mset (select tg (task_fields tg))" by (rule placed_fields [OF assms(2)])
  show "distinct (map field_name (select tg (task_fields tg)))"
    by (rule distinct_select [OF task_names_distinct])
  show "hd (task_placed shuffle tg) = (Member (Struct ''thread_info'') ''thread_info'', 0)" if "defined tg ''CONFIG_THREAD_INFO_IN_TASK''"
    using task_first [OF assms that] by auto
  show "fst (last (task_placed shuffle tg)) = Member (Struct ''thread_struct'') ''thread''"
    by (simp add: task_placed_def Let_def task_tail_def place_append)
qed

theorem task_struct_layout_witness:
  "hd (task_placed rev x86_64) = (Member (Struct ''thread_info'') ''thread_info'', 0)
    \<and> fst (last (task_placed rev x86_64)) = Member (Struct ''thread_struct'') ''thread''"
proof -
  have "rearranges rev" "defined x86_64 ''CONFIG_THREAD_INFO_IN_TASK''" by (simp_all add: rearranges_def x86_64_def)
  then show ?thesis using task_struct_layout [OF x86_64_ok] by blast
qed

section \<open>Bits with different owners\<close>

definition offset_of :: "(field \<times> nat) list \<Rightarrow> string \<Rightarrow> nat option" where
  "offset_of ps n = map_of (map (\<lambda>(f, s). (field_name f, s)) ps) n"

text \<open>The bits that the locks of the scheduler protect, and those that only the task itself changes.\<close>

definition scheduler_bits :: "string list" where
  "scheduler_bits = [''sched_reset_on_fork'', ''sched_contributes_to_load'', ''sched_migrated'', ''sched_remote_wakeup'']"

definition current_bits :: "string list" where
  "current_bits = [''in_execve'', ''in_iowait'', ''restore_sigmask'', ''memcg_may_oom'', ''memcg_kmem_skip_account'', ''brk_randomized'',
     ''no_cgroup_migration'']"

lemma scheduler_bits_in: "list_all (\<lambda>n. Bits 1 n \<in> set (everything (task_run tg))) scheduler_bits"
  by (simp only: scheduler_bits_def task_run_def everything_simps append.simps list.set insert_iff list.pred_inject simp_thms)

lemma current_bits_in: "list_all (\<lambda>n. Bits 1 n \<in> set (everything (task_current tg))) current_bits"
  by (simp only: current_bits_def task_current_def everything_simps append.simps list.set insert_iff list.pred_inject simp_thms)

lemma field_by_name:
  assumes "f \<in> set (everything (task_fields tg))" "g \<in> set (everything (task_fields tg))" "field_name f = field_name g"
  shows "f = g"
  using task_names_distinct [of tg] assms by (auto simp: distinct_map inj_on_def)

lemma current_starts_unit: "\<exists>fs. select tg (task_current tg) = Next_unit # fs"
  by (simp only: task_current_def select_simps holds.simps if_True append.simps) blast

text \<open>Whatever stands before the end of a unit is in another unit than what stands behind it.\<close>

lemma unit_between:
  assumes tg: "target_ok tg" and ok: "list_all field_ok (as @ Next_unit # bs)"
    and f: "(f, s) \<in> set (place tg 0 as)" and g: "(g, u) \<in> set (place tg (fields_end tg 0 as) (Next_unit # bs))" and b: "0 < field_bits tg f"
  shows "s div 32 < u div 32"
proof -
  let ?k = "round_up (fields_end tg 0 as) 32"
  have "s + field_bits tg f \<le> fields_end tg 0 as" using place_bounds [OF tg _ f] ok by simp
  then have s: "s < ?k" using round_up_ge [of 32 "fields_end tg 0 as"] b by simp
  have u: "?k \<le> u" using place_bounds [OF tg, of bs g u ?k] ok g by auto
  obtain m where "?k = 32 * m" using round_up_dvd by (rule dvdE)
  then show ?thesis using s u by (simp add: div_less_iff_less_mult less_eq_div_iff_mult_less_eq mult.commute order_less_le_trans)
qed

lemma offset_of_field:
  assumes "offset_of ps n = Some s"
  obtains f where "(f, s) \<in> set ps" "field_name f = n"
  using map_of_SomeD [OF assms [unfolded offset_of_def]] that by auto

text \<open>The fields before and from the end of the unit.\<close>

definition fields_before :: "target \<Rightarrow> field list" where
  "fields_before tg = everything (task_head tg @ task_run tg)"

definition fields_after :: "target \<Rightarrow> field list" where
  "fields_after tg = everything (task_current tg @ task_times tg @ task_locks tg @ task_groups tg @ task_debug tg @ task_tail tg)"

lemma front_back: "everything (task_fields tg) = fields_before tg @ fields_after tg"
  by (simp add: fields_before_def fields_after_def task_fields_def task_middle_def)

lemma task_fields_cut:
  obtains as bs where "select tg (task_fields tg) = as @ Next_unit # bs" "set as \<subseteq> set (fields_before tg)" "set (Next_unit # bs) \<subseteq> set (fields_after tg)"
proof -
  let ?c2 = "task_times tg @ task_locks tg @ task_groups tg @ task_debug tg @ task_tail tg"
  obtain fs where fs: "select tg (task_current tg) = Next_unit # fs" using current_starts_unit by blast
  have "select tg (task_fields tg) = select tg (task_head tg @ task_run tg) @ Next_unit # fs @ select tg ?c2"
    by (simp add: task_fields_def task_middle_def fs)
  moreover have "set (Next_unit # fs @ select tg ?c2) = set (select tg (task_current tg @ ?c2))" by (simp add: fs)
  then have "set (Next_unit # fs @ select tg ?c2) \<subseteq> set (fields_after tg)" unfolding fields_after_def using select_subset by metis
  moreover have "set (select tg (task_head tg @ task_run tg)) \<subseteq> set (fields_before tg)" unfolding fields_before_def by (rule select_subset)
  ultimately show ?thesis using that by blast
qed

lemma place_fst: "(f, s) \<in> set (place tg pos fs) \<Longrightarrow> f \<in> set fs"
  using map_fst_place [of tg pos fs] by (metis fst_conv image_eqI list.set_map)

lemma front_back_names: "f \<in> set (fields_before tg) \<Longrightarrow> g \<in> set (fields_after tg) \<Longrightarrow> field_name f \<noteq> field_name g"
  using task_names_distinct [of tg] unfolding front_back by fastforce

text \<open>
  C34. Without the plugin, the bits of a task that the scheduler changes under its locks and the bits that the task changes without a lock are never in the same
  word, in any configuration: writing a bit of one group, which writes the word around it, cannot undo a write to the other group.
\<close>

theorem scheduler_bits_in_own_word:
  assumes tg: "target_ok tg" and sh: "rearranges shuffle" and no: "\<not> defined tg ''RANDSTRUCT_PLUGIN''"
    and n: "n \<in> set scheduler_bits" "offset_of (task_placed shuffle tg) n = Some s"
    and k: "k \<in> set current_bits" "offset_of (task_placed shuffle tg) k = Some u"
  shows "s div 32 < u div 32"
proof -
  let ?T = "sched_types shuffle tg"
  obtain as bs where ab: "select tg (task_fields tg) = as @ Next_unit # bs" "set as \<subseteq> set (fields_before tg)" "set (Next_unit # bs) \<subseteq> set (fields_after tg)"
    by (rule task_fields_cut)
  have "task_placed shuffle tg = place ?T 0 (select tg (task_fields tg))" using no by (simp add: task_placed_def Let_def task_fields_def)
  then have P: "task_placed shuffle tg = place ?T 0 as @ place ?T (fields_end ?T 0 as) (Next_unit # bs)" unfolding ab(1) place_append .
  have ok: "list_all field_ok (as @ Next_unit # bs)" using list_all_select [OF task_fields_ok, of tg tg] unfolding ab(1) .
  obtain f where f: "(f, s) \<in> set (task_placed shuffle tg)" "field_name f = n" using n(2) by (rule offset_of_field)
  obtain g where g: "(g, u) \<in> set (task_placed shuffle tg)" "field_name g = k" using k(2) by (rule offset_of_field)
  have n1: "Bits 1 n \<in> set (fields_before tg)" using scheduler_bits_in [of tg] n(1) by (simp add: list_all_iff fields_before_def)
  have k1: "Bits 1 k \<in> set (fields_after tg)" using current_bits_in [of tg] k(1) by (simp add: list_all_iff fields_after_def)
  have "f \<notin> set (Next_unit # bs)" using front_back_names [OF n1, of f] ab(3) f(2) by auto
  then have fp: "(f, s) \<in> set (place ?T 0 as)" using f(1) P place_fst [of f s ?T _ "Next_unit # bs"] by (metis Un_iff set_append)
  have "g \<notin> set as" using front_back_names [OF _ k1, of g] ab(2) g(2) by auto
  then have gp: "(g, u) \<in> set (place ?T (fields_end ?T 0 as) (Next_unit # bs))" using g(1) P place_fst [of g u ?T _ as] by (metis Un_iff set_append)
  have "f = Bits 1 n"
    using field_by_name [of f tg "Bits 1 n"] place_fst [OF fp] ab(2) n1 f(2) by (auto simp: front_back)
  then show ?thesis using unit_between [OF sched_types_ok [OF tg sh] ok fp gp] by simp
qed

text \<open>A configuration with all the bits, and without the plugin.\<close>

definition no_plugin :: target where
  "no_plugin = x86_64\<lparr>defined := (\<lambda>n. n \<noteq> ''RANDSTRUCT_PLUGIN'')\<rparr>"

lemma offset_exists:
  assumes "rearranges shuffle" "f \<in> set (select tg (task_fields tg))"
  shows "\<exists>s. offset_of (task_placed shuffle tg) (field_name f) = Some s"
proof -
  have "f \<in> fst ` set (task_placed shuffle tg)" using placed_fields [OF assms(1), of tg] assms(2) by (metis list.set_map set_mset_mset)
  then have "field_name f \<in> fst ` set (map (\<lambda>(f, s). (field_name f, s)) (task_placed shuffle tg))" by force
  then show ?thesis unfolding offset_of_def by (metis map_of_eq_None_iff not_None_eq)
qed

theorem scheduler_bits_in_own_word_witness:
  "\<exists>s u. offset_of (task_placed id no_plugin) ''sched_migrated'' = Some s \<and> offset_of (task_placed id no_plugin) ''in_execve'' = Some u \<and> s div 32 < u div 32"
proof -
  have ok: "target_ok no_plugin" "rearranges id" "\<not> defined no_plugin ''RANDSTRUCT_PLUGIN''"
    using x86_64_ok by (simp_all add: target_ok_def no_plugin_def rearranges_def)
  have "Bits 1 ''sched_migrated'' \<in> set (select no_plugin (task_run no_plugin))" "Bits 1 ''in_execve'' \<in> set (select no_plugin (task_current no_plugin))"
    by (simp_all only: task_run_def task_current_def select_simps holds.simps if_True append.simps set_append Un_iff list.set insert_iff simp_thms)
  then have "Bits 1 ''sched_migrated'' \<in> set (select no_plugin (task_fields no_plugin))" "Bits 1 ''in_execve'' \<in> set (select no_plugin (task_fields no_plugin))"
    by (simp_all add: task_fields_def task_middle_def)
  from this [THEN offset_exists [OF ok(2)]] obtain s u where o: "offset_of (task_placed id no_plugin) ''sched_migrated'' = Some s"
    "offset_of (task_placed id no_plugin) ''in_execve'' = Some u" by auto
  moreover have "''sched_migrated'' \<in> set scheduler_bits" "''in_execve'' \<in> set current_bits" by (simp_all add: scheduler_bits_def current_bits_def)
  ultimately show ?thesis using scheduler_bits_in_own_word [OF ok] by blast
qed

section \<open>Consequences\<close>

text \<open>\<open>task_thread_info\<close> for the task and the stack at the given addresses.\<close>

definition task_thread_info :: "(field list \<Rightarrow> field list) \<Rightarrow> target \<Rightarrow> nat \<Rightarrow> nat \<Rightarrow> nat option" where
  "task_thread_info shuffle tg task stack =
     (if defined tg ''CONFIG_THREAD_INFO_IN_TASK'' then map_option (\<lambda>pos. task + pos div 8) (offset_of (task_placed shuffle tg) ''thread_info'') else Some stack)"

lemma thread_info_is_the_task:
  assumes "target_ok tg" "rearranges shuffle" "defined tg ''CONFIG_THREAD_INFO_IN_TASK''"
  shows "task_thread_info shuffle tg task stack = Some task"
  using task_first [OF assms] assms(3) by (auto simp: task_thread_info_def offset_of_def)

text \<open>The load average of a scheduling entity begins a cache line, behind all other members.\<close>

lemma avg_has_own_cache_line:
  assumes tg: "target_ok tg" and smp: "defined tg ''CONFIG_SMP''" and T: "target_ok T"
  shows "\<exists>ps s. place T 0 (select tg (sched_entity_fields tg)) = ps @ [(Aligned (macro_value tg ''SMP_CACHE_BYTES'') (Struct ''sched_avg'') ''avg'', s)]
    \<and> 8 * macro_value tg ''SMP_CACHE_BYTES'' dvd s \<and> (\<forall>(f, u)\<in>set ps. u + field_bits T f \<le> s)"
proof -
  let ?avg = "Aligned (macro_value tg ''SMP_CACHE_BYTES'') (Struct ''sched_avg'') ''avg''"
  obtain fs where fs: "select tg (sched_entity_fields tg) = fs @ [?avg]" using smp by (simp add: sched_entity_fields_def)
  let ?s = "field_start T (fields_end T 0 fs) ?avg"
  have P: "place T 0 (select tg (sched_entity_fields tg)) = place T 0 fs @ [(?avg, ?s)]" by (simp add: fs place_append)
  have "sorted_wrt (\<lambda>(f, s) (g, u). s + field_bits T f \<le> u) (place T 0 fs @ [(?avg, ?s)])"
    using place_ordered [OF T list_all_select [OF entity_fields_ok [OF tg]], of 0 tg] unfolding P .
  moreover have "8 * macro_value tg ''SMP_CACHE_BYTES'' dvd ?s" by (simp add: dvd_trans [OF mult_dvd_mono [OF dvd_refl dvd_lcm1] round_up_dvd])
  ultimately show ?thesis using P by (intro exI [of _ "place T 0 fs"] exI [of _ ?s]) (auto simp: sorted_wrt_append)
qed

end
