(* ===== verification/Spec2Isabelle.thy ===== *)
theory Spec2Isabelle
  imports Prelude C_String Task_Weights Cyclic_Queue Jobs_Manager Server_Threads Server_Main Request_Answers Server_Answers
    Segel CGI_Output Malloc_Simple Malloc_Three Malloc_Huge Shell_Nesting
    Kernel_Params Kernel_Options Kernel_Handover Kernel_Initcalls Kernel_Start Kernel_Boot Kernel_Command_Line Kernel_Threads Kernel_Tasks Task_Syscalls
    Kernel_Resched C_Decl Syscall_Macros Syscall_Trace Syscall_Prototypes Syscall_Table Struct_Layout Task_Structs Task_Layout
begin

text \<open>
  A verification library of the four programs of this repository: a command shell (\<open>hw1\<close>), system calls on
  process weights for the Linux kernel (\<open>hw2\<close>), a web server with a pool of threads (\<open>hw3\<close>) and four memory
  allocators (\<open>hw4\<close>). File names below are relative to the directory of the program under \<open>src/\<close>.

  \<^bold>\<open>Common ground.\<close> \<open>Prelude\<close> has the C types as words, the faults an execution can meet (division by zero, access
  out of bounds, a null pointer, a buffer overrun, an uninitialised value, an exhausted stack) as values of a sum type,
  and shared lemmas. \<open>C_String\<close> has the C library functions on strings.

  \<^bold>\<open>Kernel: weights\<close> (\<open>Task_Weights\<close>; \<open>kernel/hw2.c\<close>, the fields added in \<open>include/linux/sched.h\<close>, the line added in
  \<open>init/main.c\<close>). The tasks are a store from task numbers to \<open>task_struct\<close>, with the lists of children and the
  parent pointers in it. Setting and getting weights, the sum over the leaves of the tree below a process, and the
  heaviest ancestor are shown to compute what they should; the walks are bounded by the number of tasks, which the
  well-formedness of the process tree makes enough. \<open>Task_Syscalls\<close> has the numbers of the system call table, the wrappers
  \<open>hw2_test.cxx\<close> and the program \<open>test1.cxx\<close>, and shows where the walk to the first process never ends.

  \<^bold>\<open>Kernel: start\<close> (\<open>init/main.c\<close>). \<open>Kernel_Params\<close> has the variables of the file, the functions that read the command line and the
  set-up functions; the bytes of an argument are kept, because \<open>repair_env_string\<close> works on them in place.
  \<open>Kernel_Options\<close> shows that no command line makes the kernel write outside \<open>argv_init\<close> and \<open>envp_init\<close>; \<open>Kernel_Handover\<close> that
  ordinary options arrive there as in the reference \<open>hand_over\<close>, and in which cases they do not. \<open>Kernel_Initcalls\<close> has the
  initcalls and their levels, \<open>Kernel_Start\<close> the functions \<open>start_kernel\<close> (cut into consecutive parts), \<open>kernel_init_freeable\<close> and
  \<open>kernel_init\<close>. Functions of other files are parameters: a call is an event with the state of the interrupts, and changes only the
  interrupt flag and the preemption counter. \<open>Kernel_Boot\<close> shows what the start guarantees up to the first program (locale
  \<open>call_invariant\<close>), and \<open>Kernel_Command_Line\<close> follows a command line with \<open>init=\<close> through both readings to the program it
  names. \<open>Kernel_Threads\<close> is the interleaving of \<open>rest_init\<close> with the first process as a step relation; what \<open>kernel_thread\<close>
  does to the tasks is a parameter with the contract \<open>fork_ok\<close>. \<open>Kernel_Tasks\<close> has the
  inline functions and macros of \<open>sched.h\<close> on the state, the flags and the ids of a task. The configuration is the usual one:
  \<open>CONFIG_SMP\<close>, \<open>CONFIG_KALLSYMS\<close>, \<open>CONFIG_BLK_DEV_INITRD\<close>, \<open>CONFIG_STRICT_KERNEL_RWX\<close> and \<open>CONFIG_DEBUG_ATOMIC_SLEEP\<close> are set.

  \<^bold>\<open>Kernel: headers\<close> (\<open>include/linux/sched.h\<close>, \<open>include/linux/syscalls.h\<close>, \<open>arch/x86/entry/syscalls/syscall_64.tbl\<close>). \<open>C_Decl\<close> has the types of C
  as a datatype, with their sizes, alignments and conversions. The architecture, the configuration and the types of other headers are a
  record \<open>target\<close> of which only \<open>target_ok\<close> is assumed (\<open>long\<close> has 4 or 8 bytes, sizes are multiples of alignments, numbers that macros stand for are positive); a
  declaration carries the preprocessor condition it stands under, so that the theorems are about every configuration.
  \<open>Syscall_Macros\<close> has the macros that make a system call of its body; an expansion that does not compile is none. The wrapper converts
  every argument to the type its parameter has and back, and every argument is shown to arrive as it was passed. \<open>Syscall_Trace\<close> has the macros that describe a system call to the tracer, and the check of the address
  limit. \<open>Syscall_Prototypes\<close> is every prototype of the header and \<open>Syscall_Table\<close> every row of the table, with the theorems that the
  declared calls get their arguments and that the called functions are declared. \<open>Struct_Layout\<close> places members and bit-fields in a structure; \<open>Task_Structs\<close> has the structures of
  \<open>sched.h\<close> member by member, and \<open>Task_Layout\<close> shows that \<open>struct task_struct\<close> comes out as its comments demand, whatever order the randomisation plugin
  chooses. \<open>Kernel_Resched\<close> has the process flags and the remaining inline functions.

  \<^bold>\<open>Web server.\<close> \<open>Cyclic_Queue\<close> (ring buffer, \<open>server.c\<close>) refines a bounded list. \<open>Jobs_Manager\<close> has the functions of the job
  manager with the four overload policies, each against its specification. \<open>Server_Threads\<close> is the interleaving of
  the accept loop and the workers as a step relation with one program counter per thread, the mutex, the condition
  variables and spurious wake-ups, and its invariants. \<open>Server_Main\<close> has argument parsing and the start-up, and states the
  properties from the command line on: counters, no faults, no lost wake-up, every connection closed once, order
  of service. The step of these threads that ends a request may never be taken, because \<open>requestHandle\<close> need not return. \<open>Rio\<close> is the robust I/O package of \<open>segel.c\<close> over lists of chunks, interruptions and errors; reading a line is
  shown to depend on the stream of bytes only. \<open>Request\<close> has the functions of \<open>request.c\<close> with their buffers, and shows that
  file names stay below \<open>./public/\<close>; \<open>Request_Answers\<close> is the specification of the responses and the refinement by
  \<open>requestHandle\<close>. The loop over the header lines carries a bound, and one above the number of lines is enough; without an
  empty line no bound is enough (\<open>readhdrs_never_ends\<close>). \<open>Server_Answers\<close> puts the two together, with the statistics of each worker. There a request ends only if
  \<open>requestHandle\<close> returns on it; for clients that send a request (\<open>clients_ok\<close>) and a host without failures (\<open>host_ok\<close>) the workers come to rest after a bounded number
  of steps, and under \<open>block\<close> every accepted client then has the answer of the specification, with exact statistics. \<open>Segel\<close> has the rest of \<open>segel.c\<close>: error reports, the wrappers of system calls
  (a record of parameters), the set-up of sockets, and the start of the server composed with it. \<open>CGI_Output\<close> is the program
  \<open>output.c\<close>, and shows that its output completes the answer that \<open>requestServeDynamic\<close> begins; floating-point numbers are a
  parameter there.

  \<^bold>\<open>Allocators.\<close> \<open>Byte_Memory\<close> is memory as bytes with 64-bit little-endian fields, \<open>Program_Break\<close> the break of the process
  and the answers of \<open>sbrk\<close>. \<open>Malloc_Blocks\<close>, \<open>Malloc_Free_List\<close>, \<open>Malloc_Heap\<close>, \<open>Malloc_Merge\<close>, \<open>Malloc_Ops\<close> and \<open>Malloc_Maps\<close>
  have the functions of \<open>malloc_3.cpp\<close> over byte memory, with heads and tails at their C offsets, the heap invariant, and the
  specification of each function. \<open>Malloc_Client\<close> states the contract of an allocator as a locale, with what a
  program that uses it may rely on; \<open>Malloc_Realloc\<close> is resizing in place; \<open>Malloc_Three\<close> and \<open>Malloc_Huge\<close> interpret the contract
  on \<open>malloc_3.cpp\<close> and \<open>malloc_4.cpp\<close>. The contract is for the sizes of \<open>may_ask\<close>: the last 175 sizes below 128 KB are left out,
  because for them \<open>sfree\<close> can take a block of the heap for a mapped one and unmap it (\<open>large_heap_block_leaks\<close>). What \<open>srealloc\<close> does
  after \<open>_sbrk_realloc\<close> found no room is modelled, but nothing is shown about it. \<open>Malloc_Simple\<close> is \<open>malloc_1.cpp\<close> and \<open>malloc_2.cpp\<close>. The loops over the free list
  and over the blocks carry a bound on their steps; the invariant shows that the length of the list is enough.

  \<^bold>\<open>Shell.\<close> \<open>Shell_Text\<close> has the text functions of \<open>Commands.cpp\<close>; \<open>Shell_World\<close> the state (class \<open>SmallShell\<close>) with the descriptor table, the
  files and everything the shell does to the outside, and the system calls, whose answers are an arbitrary sequence;
  \<open>Shell_Jobs\<close> the job list as an ordered map; \<open>Shell_Commands\<close> command creation and the built-in commands; \<open>Shell_Fare\<close> the
  command \<open>fare\<close>; \<open>Shell_Execute\<close> external commands, redirections, pipes, timeouts, \<open>executeCommand\<close> and \<open>waitForJob\<close>;
  \<open>Shell_Main\<close> the handlers of \<open>signals.cpp\<close> and the loop of \<open>smash.cpp\<close>, with a step relation in which signals arrive between
  the steps of the loop. \<open>Shell_Invariant\<close> shows that every line keeps an invariant that single commands keep
  (locale \<open>shell_invariant\<close>) and \<open>Shell_Descriptors\<close> that the descriptor table is restored; \<open>Shell_Properties\<close> and \<open>Shell_Nesting\<close> have the
  properties. \<open>execute\<close> carries a bound on the nesting of commands: one above the length of the line is enough where
  the only white space is the space (\<open>nesting_is_bounded\<close>), and no bound is enough for a certain line with a tab
  (\<open>timeout_with_tab_never_ends\<close>). The loop of \<open>fare\<close> is bounded by the length of the file, which is shown to be enough.

  \<^bold>\<open>Not modelled.\<close> Declarations of functions and variables of other files in \<open>sched.h\<close>, and its functions that only forward to one of
  them (\<open>set_task_comm\<close>, \<open>get_task_comm\<close>, \<open>need_resched\<close>); the macros of \<open>sched.h\<close> that set the state of the current task; the functions with an empty body for one processor; the variants of
  functions of \<open>main.c\<close> for other configurations; the memory the kernel frees after its start; the code a child process runs
  after \<open>fork\<close> in the shell, except for its arguments and descriptors; signals that interrupt the shell in the middle of a
  command; the failure of the allocation of argument copies in the shell.
\<close>

end
